(* ===== verification/Go_Prelude.thy ===== *)
theory Go_Prelude
  imports Main "HOL-Library.Word" "HOL-Library.Multiset" "HOL-Library.AList"
begin

text \<open>
  Shared vocabulary of the development: the Go integer and time types the sources
  use, slices addressed by the first matching element (a pointer obtained from a
  search loop, then mutated or cut out), and the interface of a container that
  holds a slice of keyed items. Every component theory builds on this one.
\<close>

named_theorems meta_defs \<open>definitions of the metadata operations\<close>
named_theorems wire_defs \<open>definitions of the protobuf conversions\<close>
named_theorems hh_defs \<open>definitions of the hinted-handoff segment operations\<close>

section \<open>Integers and time\<close>

type_synonym u64 = "64 word"
type_synonym byte = "8 word"

text \<open>
  An \<open>int64\<close> is the integer it denotes; \<open>to_int64\<close> is the conversion that keeps the low
  64 bits, as every Go conversion to \<open>int64\<close> does.
\<close>

definition to_int64 :: "int \<Rightarrow> int" where
  "to_int64 x = (x + 2 ^ 63) mod 2 ^ 64 - 2 ^ 63"

definition is_int64 :: "int \<Rightarrow> bool" where
  "is_int64 x \<longleftrightarrow> - (2 ^ 63) \<le> x \<and> x < 2 ^ 63"

lemma to_int64_id: "is_int64 x \<Longrightarrow> to_int64 x = x"
  by (simp add: to_int64_def is_int64_def)

lemma is_int64_to_int64: "is_int64 (to_int64 x)"
proof -
  have "0 \<le> (x + 2 ^ 63) mod 2 ^ 64" and "(x + 2 ^ 63) mod 2 ^ 64 < (2 ^ 64 :: int)"
    by simp_all
  then show ?thesis by (simp add: to_int64_def is_int64_def)
qed

text \<open>
  A \<open>time.Time\<close> is the number of nanoseconds since its zero value, January 1 of year 1,
  00:00 UTC. The location is not represented: the sources compare and truncate instants
  only. \<open>time.Time.Truncate\<close> rounds down to a multiple of the duration since the zero
  time; \<open>UnixNano\<close> counts from the Unix epoch and keeps 64 bits.
\<close>

type_synonym time = int
type_synonym duration = int

definition unix_epoch :: time where
  "unix_epoch = 62135596800 * 10 ^ 9"

definition time_IsZero :: "time \<Rightarrow> bool" where
  "time_IsZero t \<longleftrightarrow> t = 0"

definition time_Truncate :: "duration \<Rightarrow> time \<Rightarrow> time" where
  "time_Truncate d t = (if d \<le> 0 then t else t - t mod d)"

definition time_UnixNano :: "time \<Rightarrow> int" where
  "time_UnixNano t = to_int64 (t - unix_epoch)"

definition time_Unix0 :: "int \<Rightarrow> time" where
  "time_Unix0 ns = ns + unix_epoch"

definition Hour :: duration where
  "Hour = 3600 * 10 ^ 9"

lemma Hour_pos [simp]: "0 < Hour"
  by (simp add: Hour_def)

lemma time_Truncate_le: "time_Truncate d t \<le> t"
  by (simp add: time_Truncate_def)

lemma time_Truncate_upper: "0 < d \<Longrightarrow> t < time_Truncate d t + d"
proof -
  assume d: "0 < d"
  then have "t mod d < d" by simp
  with d show ?thesis by (simp add: time_Truncate_def)
qed

lemma time_Truncate_dvd: "0 < d \<Longrightarrow> d dvd time_Truncate d t"
  by (simp add: time_Truncate_def minus_mod_eq_div_mult)

lemma time_Truncate_idem: "time_Truncate d (time_Truncate d t) = time_Truncate d t"
  by (simp add: time_Truncate_def minus_mod_eq_div_mult)

lemma time_Unix0_UnixNano:
  "is_int64 (t - unix_epoch) \<Longrightarrow> time_Unix0 (time_UnixNano t) = t"
  by (simp add: time_Unix0_def time_UnixNano_def to_int64_id)

lemma time_UnixNano_Unix0: "is_int64 ns \<Longrightarrow> time_UnixNano (time_Unix0 ns) = ns"
  by (simp add: time_Unix0_def time_UnixNano_def to_int64_id)

lemma unat_add_nowrap:
  fixes x :: u64
  assumes "unat x + k < 2 ^ 64"
  shows "unat (x + of_nat k) = unat x + k"
  using assms by (simp add: unat_word_ariths unat_of_nat)

lemma less_add_nowrap:
  fixes x y :: u64
  assumes "unat x + k < 2 ^ 64" and "0 < k" and "y \<le> x"
  shows "y < x + of_nat k"
  using assms unat_add_nowrap [OF assms(1)] by (simp add: word_less_nat_alt word_le_nat_alt)

lemma le_add_nowrap:
  fixes x y :: u64
  assumes "unat x + k < 2 ^ 64" and "y \<le> x"
  shows "y \<le> x + of_nat k"
  using assms unat_add_nowrap [OF assms(1)] by (simp add: word_le_nat_alt)

text \<open>Go's integer division truncates towards zero.\<close>

definition go_quot :: "int \<Rightarrow> int \<Rightarrow> int" where
  "go_quot a b = sgn a * sgn b * (\<bar>a\<bar> div \<bar>b\<bar>)"

lemma go_quot_nonneg: "0 \<le> a \<Longrightarrow> 0 < b \<Longrightarrow> go_quot a b = a div b"
  by (cases "a = 0") (simp_all add: go_quot_def)

lemma go_quot_le:
  assumes "0 \<le> a"
  shows "go_quot a b \<le> a"
proof (cases "0 < b")
  case True
  with assms zdiv_mono2 [of a 1 b] show ?thesis by (simp add: go_quot_nonneg)
next
  case False
  with assms have "go_quot a b \<le> 0" by (simp add: go_quot_def sgn_if div_int_pos_iff)
  with assms show ?thesis by simp
qed

section \<open>Slices searched from the front\<close>

text \<open>
  A Go loop \<open>for i := range xs { if P(xs[i]) { ... } }\<close> that returns \<open>&xs[i]\<close> gives the
  first match. \<open>List.find\<close> is its value; writing through the pointer is \<open>upd_first\<close>; the
  idiom \<open>xs = append(xs[:i], xs[i+1:]...)\<close> is \<open>del_first\<close>.
\<close>

fun upd_first :: "('a \<Rightarrow> bool) \<Rightarrow> ('a \<Rightarrow> 'a) \<Rightarrow> 'a list \<Rightarrow> 'a list" where
  "upd_first P f [] = []"
| "upd_first P f (x # xs) = (if P x then f x # xs else x # upd_first P f xs)"

fun del_first :: "('a \<Rightarrow> bool) \<Rightarrow> 'a list \<Rightarrow> 'a list option" where
  "del_first P [] = None"
| "del_first P (x # xs) = (if P x then Some xs else map_option ((#) x) (del_first P xs))"

lemma find_split:
  assumes "List.find P xs = Some x"
  obtains ys zs where "xs = ys @ x # zs" and "P x" and "\<forall>y\<in>set ys. \<not> P y"
    and "\<forall>f. upd_first P f xs = ys @ f x # zs" and "del_first P xs = Some (ys @ zs)"
proof -
  from assms have "\<exists>ys zs. xs = ys @ x # zs \<and> P x \<and> (\<forall>y\<in>set ys. \<not> P y) \<and>
      (\<forall>f. upd_first P f xs = ys @ f x # zs) \<and> del_first P xs = Some (ys @ zs)"
  proof (induction xs)
    case Nil
    then show ?case by simp
  next
    case (Cons a xs)
    show ?case
    proof (cases "P a")
      case True
      with Cons.prems have "x = a" by simp
      with True show ?thesis by (intro exI [of _ "[]"] exI [of _ xs]) simp
    next
      case False
      with Cons.prems have "List.find P xs = Some x" by simp
      from Cons.IH [OF this] obtain ys zs where
        "xs = ys @ x # zs" "P x" "\<forall>y\<in>set ys. \<not> P y"
        "\<forall>f. upd_first P f xs = ys @ f x # zs" "del_first P xs = Some (ys @ zs)" by blast
      with False show ?thesis by (intro exI [of _ "a # ys"] exI [of _ zs]) simp
    qed
  qed
  then show ?thesis using that by blast
qed

lemma find_mem: "List.find P xs = Some x \<Longrightarrow> x \<in> set xs \<and> P x"
  by (auto simp: find_Some_iff)

lemma find_append:
  "List.find P (xs @ ys) = (case List.find P xs of None \<Rightarrow> List.find P ys | Some x \<Rightarrow> Some x)"
  by (induction xs) auto

lemma find_unique:
  assumes "x \<in> set xs" and "P x" and "\<And>y. y \<in> set xs \<Longrightarrow> P y \<Longrightarrow> y = x"
  shows "List.find P xs = Some x"
proof -
  from assms(1,2) obtain y where y: "List.find P xs = Some y"
    by (cases "List.find P xs") (auto simp: find_None_iff)
  then have "y \<in> set xs" and "P y" using find_mem [OF y] by simp_all
  with assms(3) y show ?thesis by simp
qed

lemma upd_first_none: "List.find P xs = None \<Longrightarrow> upd_first P f xs = xs"
  by (induction xs) (auto split: if_splits)

lemma length_upd_first [simp]: "length (upd_first P f xs) = length xs"
  by (induction xs) auto

lemma upd_first_id [simp]: "upd_first P (\<lambda>x. x) xs = xs"
  by (induction xs) auto

lemma map_upd_first: "(\<And>x. P x \<Longrightarrow> g (f x) = g x) \<Longrightarrow> map g (upd_first P f xs) = map g xs"
  by (induction xs) auto

lemma set_upd_first: "set (upd_first P f xs) \<subseteq> set xs \<union> f ` {x \<in> set xs. P x}"
  by (induction xs) auto

lemma find_upd_first_same:
  "(\<And>x. P x \<Longrightarrow> P (f x)) \<Longrightarrow> List.find P (upd_first P f xs) = map_option f (List.find P xs)"
  by (induction xs) auto

lemma find_upd_first_other:
  "(\<And>x. P x \<Longrightarrow> \<not> Q x \<and> \<not> Q (f x)) \<Longrightarrow> List.find Q (upd_first P f xs) = List.find Q xs"
  by (induction xs) auto

lemma del_first_None_iff: "del_first P xs = None \<longleftrightarrow> List.find P xs = None"
  by (induction xs) auto

lemma set_del_first: "del_first P xs = Some ys \<Longrightarrow> set ys \<subseteq> set xs"
  by (induction xs arbitrary: ys) (auto split: if_splits)

lemma distinct_map_del_first:
  "del_first P xs = Some ys \<Longrightarrow> distinct (map g xs) \<Longrightarrow> distinct (map g ys)"
  by (induction xs arbitrary: ys) (use set_del_first in \<open>fastforce split: if_splits\<close>)+

lemma concat_map_concat: "concat (map g (concat xss)) = concat (map (\<lambda>xs. concat (map g xs)) xss)"
  by (induction xss) simp_all

section \<open>Containers of keyed items\<close>

text \<open>
  Six slices of the metadata follow one pattern: a struct field holds a slice whose
  elements carry a name or an ID, creation appends, deletion cuts out the first match,
  update writes through the pointer to the first match. The interface asks that the
  field behave as a field; the laws of lookup after each operation follow.
\<close>

locale keyed_container =
  fixes items :: "'s \<Rightarrow> 'a list"
    and put :: "'a list \<Rightarrow> 's \<Rightarrow> 's"
    and key :: "'a \<Rightarrow> 'k"
  assumes items_put: "items (put xs s) = xs"
    and put_items: "put (items s) s = s"
    and put_put: "put xs (put ys s) = put xs s"
begin

lemma lookup_key: "List.find (\<lambda>x. key x = k) (items s) = Some a \<Longrightarrow> key a = k \<and> a \<in> set (items s)"
  by (auto simp: find_Some_iff)

lemma lookup_None: "List.find (\<lambda>x. key x = k) (items s) = None \<longleftrightarrow> k \<notin> key ` set (items s)"
  by (auto simp: find_None_iff)

lemma lookup_insert_same:
  assumes "List.find (\<lambda>x. key x = key a) (items s) = None"
  shows "List.find (\<lambda>x. key x = key a) (items (put (items s @ [a]) s)) = Some a"
  using assms by (simp add: items_put find_append)

lemma lookup_insert_other:
  assumes "k \<noteq> key a"
  shows "List.find (\<lambda>x. key x = k) (items (put (items s @ [a]) s)) = List.find (\<lambda>x. key x = k) (items s)"
  using assms by (auto simp: items_put find_append split: option.splits)

lemma distinct_insert:
  assumes "distinct (map key (items s))" and "List.find (\<lambda>x. key x = key a) (items s) = None"
  shows "distinct (map key (items (put (items s @ [a]) s)))"
  using assms by (auto simp: items_put lookup_None)

lemma lookup_update:
  assumes "\<And>x. key x = k \<Longrightarrow> key (f x) = k"
  shows "List.find (\<lambda>x. key x = k') (items (put (upd_first (\<lambda>x. key x = k) f (items s)) s)) =
    (if k' = k then map_option f (List.find (\<lambda>x. key x = k) (items s))
     else List.find (\<lambda>x. key x = k') (items s))"
proof (cases "k' = k")
  case True
  with assms show ?thesis by (simp add: items_put find_upd_first_same)
next
  case False
  with assms have "List.find (\<lambda>x. key x = k') (upd_first (\<lambda>x. key x = k) f (items s)) =
      List.find (\<lambda>x. key x = k') (items s)"
    by (intro find_upd_first_other) auto
  with False show ?thesis by (simp add: items_put)
qed

lemma distinct_update:
  assumes "\<And>x. key x = k \<Longrightarrow> key (f x) = k" and "distinct (map key (items s))"
  shows "distinct (map key (items (put (upd_first (\<lambda>x. key x = k) f (items s)) s)))"
proof -
  have "map key (upd_first (\<lambda>x. key x = k) f (items s)) = map key (items s)"
    by (rule map_upd_first) (simp add: assms(1))
  with assms(2) show ?thesis by (simp add: items_put)
qed

lemma distinct_delete:
  assumes "distinct (map key (items s))" and "del_first (\<lambda>x. key x = k) (items s) = Some ys"
  shows "distinct (map key (items (put ys s)))"
  using assms by (simp add: items_put distinct_map_del_first)

lemma lookup_delete:
  assumes d: "distinct (map key (items s))" and del: "del_first (\<lambda>x. key x = k) (items s) = Some ys"
  shows "List.find (\<lambda>x. key x = k') (items (put ys s)) =
    (if k' = k then None else List.find (\<lambda>x. key x = k') (items s))"
proof -
  from del obtain a where a: "List.find (\<lambda>x. key x = k) (items s) = Some a"
    by (metis del_first_None_iff not_None_eq)
  then obtain us vs where s: "items s = us @ a # vs" and k: "key a = k"
      and "del_first (\<lambda>x. key x = k) (items s) = Some (us @ vs)"
    by (rule find_split)
  with del have "ys = us @ vs" by simp
  from d s k have "k \<notin> key ` set us" and "k \<notin> key ` set vs" by (simp_all)
  then have none: "List.find (\<lambda>x. key x = k) (us @ vs) = None"
    by (auto simp: find_None_iff)
  show ?thesis
  proof (cases "k' = k")
    case True
    with none \<open>ys = us @ vs\<close> show ?thesis by (simp add: items_put)
  next
    case False
    with k s \<open>ys = us @ vs\<close> show ?thesis
      by (simp add: items_put find_append split: option.split)
  qed
qed

end

text \<open>Inserting fresh keys into a map one after the other.\<close>

lemma fold_update_fresh:
  assumes "distinct (map fst (m @ xs))"
  shows "fold (\<lambda>(k, v) m. AList.update k v m) xs m = m @ xs"
  using assms
proof (induction xs arbitrary: m)
  case (Cons x xs)
  obtain k v where x: "x = (k, v)" by (cases x)
  have "AList.update k v m = m @ [(k, v)]"
    using Cons.prems by (induction m) (auto simp: x)
  then show ?case using Cons.IH [of "m @ [(k, v)]"] Cons.prems by (simp add: x)
qed simp

end
