(* ===== verification/Meta_Data.thy ===== *)
theory Meta_Data
  imports Go_Prelude
begin

text \<open>
  The data model of the metastore (\<open>meta/data.go\<close>, \<open>meta/errors.go\<close>): the structs as
  records, the error values as a datatype, and the read-only methods of each struct.
  Slices are lists (a nil slice and an empty one are the same list), maps are association
  lists whose order stands for the iteration order Go leaves open. A nil pointer result
  is \<open>None\<close>; a panic is an error value of its own.
\<close>

section \<open>Errors\<close>

datatype meta_error =
    ErrStoreOpen | ErrStoreClosed | ErrTooManyPeers
  | ErrNodeExists | ErrNodeNotFound | ErrNodesRequired | ErrNodeIDRequired
  | ErrNodeUnableToDropFinalNode
  | ErrDatabaseExists | ErrDatabaseNotFound | ErrDatabaseNameRequired
  | ErrRetentionPolicyExists | ErrRetentionPolicyDefault | ErrRetentionPolicyNotFound
  | ErrRetentionPolicyNameRequired | ErrRetentionPolicyNameExists
  | ErrRetentionPolicyDurationTooLow | ErrReplicationFactorTooLow
  | ErrShardGroupExists | ErrShardGroupNotFound | ErrShardNotReplicated
  | ErrContinuousQueryExists | ErrContinuousQueryNotFound
  | ErrSubscriptionExists | ErrSubscriptionNotFound
  | ErrUserExists | ErrUserNotFound | ErrUsernameRequired
  | PanicNilDereference | PanicMakeSlice | PanicIndexOutOfRange | PanicDivideByZero
  | PanicCannotUnmarshal | PanicCannotApply
  | ErrAuthenticate | ErrRaftApply | ErrSalt | ErrHashPassword

type_synonym 'a mresult = "meta_error + 'a"

section \<open>Structs\<close>

record NodeInfo =
  ni_ID :: u64
  ni_Host :: string

record ShardOwner =
  so_NodeID :: u64

record ShardInfo =
  si_ID :: u64
  si_Owners :: "ShardOwner list"

record ShardGroupInfo =
  sgi_ID :: u64
  sgi_StartTime :: time
  sgi_EndTime :: time
  sgi_DeletedAt :: time
  sgi_Shards :: "ShardInfo list"

record SubscriptionInfo =
  sub_Name :: string
  sub_Mode :: string
  sub_Destinations :: "string list"

record ContinuousQueryInfo =
  cqi_Name :: string
  cqi_Query :: string

record RetentionPolicyInfo =
  rpi_Name :: string
  rpi_ReplicaN :: int
  rpi_Duration :: duration
  rpi_ShardGroupDuration :: duration
  rpi_ShardGroups :: "ShardGroupInfo list"
  rpi_Subscriptions :: "SubscriptionInfo list"

record DatabaseInfo =
  di_Name :: string
  di_DefaultRetentionPolicy :: string
  di_RetentionPolicies :: "RetentionPolicyInfo list"
  di_ContinuousQueries :: "ContinuousQueryInfo list"

text \<open>\<open>influxql.Privilege\<close> is an \<open>int\<close> with four named values.\<close>

type_synonym Privilege = int

definition NoPrivileges :: Privilege where "NoPrivileges = 0"
definition ReadPrivilege :: Privilege where "ReadPrivilege = 1"
definition WritePrivilege :: Privilege where "WritePrivilege = 2"
definition AllPrivileges :: Privilege where "AllPrivileges = 3"

lemmas privilege_defs = NoPrivileges_def ReadPrivilege_def WritePrivilege_def AllPrivileges_def

record UserInfo =
  ui_Name :: string
  ui_Hash :: string
  ui_Admin :: bool
  ui_Privileges :: "(string \<times> Privilege) list"

record Data =
  d_Term :: u64
  d_Index :: u64
  d_ClusterID :: u64
  d_Nodes :: "NodeInfo list"
  d_Databases :: "DatabaseInfo list"
  d_Users :: "UserInfo list"
  d_MaxNodeID :: u64
  d_MaxShardGroupID :: u64
  d_MaxShardID :: u64

definition empty_Data :: Data where
  "empty_Data = \<lparr>d_Term = 0, d_Index = 0, d_ClusterID = 0, d_Nodes = [], d_Databases = [],
     d_Users = [], d_MaxNodeID = 0, d_MaxShardGroupID = 0, d_MaxShardID = 0\<rparr>"

text \<open>\<open>RetentionPolicyUpdate\<close>: the fields an update changes; nil means unchanged.\<close>

record RetentionPolicyUpdate =
  rpu_Name :: "string option"
  rpu_Duration :: "duration option"
  rpu_ReplicaN :: "int option"

section \<open>Policy defaults and shard-group durations\<close>

definition DefaultRetentionPolicyReplicaN :: int where
  "DefaultRetentionPolicyReplicaN = 1"

definition DefaultRetentionPolicyDuration :: duration where
  "DefaultRetentionPolicyDuration = 7 * (24 * Hour)"

definition MinRetentionPolicyDuration :: duration where
  "MinRetentionPolicyDuration = Hour"

definition NewRetentionPolicyInfo :: "string \<Rightarrow> RetentionPolicyInfo" where
  "NewRetentionPolicyInfo name = \<lparr>rpi_Name = name, rpi_ReplicaN = DefaultRetentionPolicyReplicaN,
     rpi_Duration = DefaultRetentionPolicyDuration, rpi_ShardGroupDuration = 0,
     rpi_ShardGroups = [], rpi_Subscriptions = []\<rparr>"

definition shardGroupDuration :: "duration \<Rightarrow> duration" where
  "shardGroupDuration d =
     (if d \<ge> 180 * 24 * Hour \<or> d = 0 then 7 * 24 * Hour
      else if d \<ge> 2 * 24 * Hour then 1 * 24 * Hour
      else 1 * Hour)"

section \<open>Shard groups and shards\<close>

definition ShardGroupInfo_Contains :: "ShardGroupInfo \<Rightarrow> time \<Rightarrow> bool" where
  "ShardGroupInfo_Contains sgi t \<longleftrightarrow> \<not> sgi_StartTime sgi > t \<and> sgi_EndTime sgi > t"

definition ShardGroupInfo_Overlaps :: "ShardGroupInfo \<Rightarrow> time \<Rightarrow> time \<Rightarrow> bool" where
  "ShardGroupInfo_Overlaps sgi mn mx \<longleftrightarrow> \<not> sgi_StartTime sgi > mx \<and> sgi_EndTime sgi > mn"

definition ShardGroupInfo_Deleted :: "ShardGroupInfo \<Rightarrow> bool" where
  "ShardGroupInfo_Deleted sgi \<longleftrightarrow> \<not> time_IsZero (sgi_DeletedAt sgi)"

definition ShardGroupInfo_ShardFor :: "ShardGroupInfo \<Rightarrow> u64 \<Rightarrow> ShardInfo mresult" where
  "ShardGroupInfo_ShardFor sgi hash =
     (if sgi_Shards sgi = [] then Inl PanicDivideByZero
      else Inr (sgi_Shards sgi ! (unat hash mod length (sgi_Shards sgi))))"

definition ShardInfo_OwnedBy :: "ShardInfo \<Rightarrow> u64 \<Rightarrow> bool" where
  "ShardInfo_OwnedBy si nodeID = list_ex (\<lambda>so. so_NodeID so = nodeID) (si_Owners si)"

definition RetentionPolicyInfo_ShardGroupByTimestamp ::
    "RetentionPolicyInfo \<Rightarrow> time \<Rightarrow> ShardGroupInfo option" where
  "RetentionPolicyInfo_ShardGroupByTimestamp rpi t =
     List.find (\<lambda>g. ShardGroupInfo_Contains g t \<and> \<not> ShardGroupInfo_Deleted g) (rpi_ShardGroups rpi)"

definition RetentionPolicyInfo_ExpiredShardGroups ::
    "RetentionPolicyInfo \<Rightarrow> time \<Rightarrow> ShardGroupInfo list" where
  "RetentionPolicyInfo_ExpiredShardGroups rpi t =
     filter (\<lambda>g. \<not> ShardGroupInfo_Deleted g \<and>
                 rpi_Duration rpi \<noteq> 0 \<and> sgi_EndTime g + rpi_Duration rpi < t)
            (rpi_ShardGroups rpi)"

definition RetentionPolicyInfo_DeletedShardGroups ::
    "RetentionPolicyInfo \<Rightarrow> ShardGroupInfo list" where
  "RetentionPolicyInfo_DeletedShardGroups rpi = filter ShardGroupInfo_Deleted (rpi_ShardGroups rpi)"

section \<open>Databases and users\<close>

definition DatabaseInfo_RetentionPolicy :: "DatabaseInfo \<Rightarrow> string \<Rightarrow> RetentionPolicyInfo option" where
  "DatabaseInfo_RetentionPolicy di name =
     List.find (\<lambda>rp. rpi_Name rp = name) (di_RetentionPolicies di)"

text \<open>
  \<open>ShardInfos\<close> collects into a map keyed by shard ID, so that a later shard with the same
  ID replaces an earlier one; the result lists the values of the map.
\<close>

definition DatabaseInfo_ShardInfos :: "DatabaseInfo \<Rightarrow> ShardInfo list" where
  "DatabaseInfo_ShardInfos di =
     map snd (fold (\<lambda>si m. AList.update (si_ID si) si m)
       (concat (map (\<lambda>rp. concat (map sgi_Shards
          (filter (\<lambda>g. \<not> ShardGroupInfo_Deleted g) (rpi_ShardGroups rp)))) (di_RetentionPolicies di)))
       [])"

definition UserInfo_Authorize :: "UserInfo \<Rightarrow> Privilege \<Rightarrow> string \<Rightarrow> bool" where
  "UserInfo_Authorize ui privilege database =
     (if ui_Admin ui then True
      else case map_of (ui_Privileges ui) database of
        None \<Rightarrow> False
      | Some p \<Rightarrow> p = privilege \<or> p = AllPrivileges)"

lemmas [meta_defs] =
  ShardGroupInfo_Contains_def ShardGroupInfo_Overlaps_def ShardGroupInfo_Deleted_def
  RetentionPolicyInfo_ShardGroupByTimestamp_def DatabaseInfo_RetentionPolicy_def
  time_IsZero_def

section \<open>Facts about the read-only methods\<close>

lemma shardGroupDuration_pos [simp]: "0 < shardGroupDuration d"
  by (simp add: shardGroupDuration_def Hour_def)

lemma shardGroupDuration_cases:
  "shardGroupDuration d = 168 * Hour \<or> shardGroupDuration d = 24 * Hour \<or> shardGroupDuration d = Hour"
  by (simp add: shardGroupDuration_def)

lemma ShardGroupInfo_ShardFor_mem:
  "ShardGroupInfo_ShardFor sgi h = Inr si \<Longrightarrow> si \<in> set (sgi_Shards sgi)"
  by (auto simp: ShardGroupInfo_ShardFor_def split: if_splits)

lemma ShardGroupByTimestamp_SomeD:
  "RetentionPolicyInfo_ShardGroupByTimestamp rpi t = Some g \<Longrightarrow>
     g \<in> set (rpi_ShardGroups rpi) \<and> ShardGroupInfo_Contains g t \<and> \<not> ShardGroupInfo_Deleted g"
  by (auto simp: RetentionPolicyInfo_ShardGroupByTimestamp_def dest: find_mem)

end
