(* ===== verification/Meta_Ops.thy ===== *)
theory Meta_Ops
  imports Meta_Data
begin

text \<open>
  The methods of \<open>Data\<close> (\<open>meta/data.go\<close>) that read and change the metadata. An operation
  takes the metadata and returns either the error of the source or the new metadata; the
  guards are tested in the order of the code.
\<close>

section \<open>Containers of the metadata\<close>

text \<open>The slices of the metadata that hold named or numbered items.\<close>

interpretation nodes: keyed_container d_Nodes "\<lambda>xs. d_Nodes_update (\<lambda>_. xs)" ni_ID
  by unfold_locales simp_all

interpretation hosts: keyed_container d_Nodes "\<lambda>xs. d_Nodes_update (\<lambda>_. xs)" ni_Host
  by unfold_locales simp_all

interpretation databases: keyed_container d_Databases "\<lambda>xs. d_Databases_update (\<lambda>_. xs)" di_Name
  by unfold_locales simp_all

interpretation users: keyed_container d_Users "\<lambda>xs. d_Users_update (\<lambda>_. xs)" ui_Name
  by unfold_locales simp_all

interpretation policies:
  keyed_container di_RetentionPolicies "\<lambda>xs. di_RetentionPolicies_update (\<lambda>_. xs)" rpi_Name
  by unfold_locales simp_all

interpretation queries:
  keyed_container di_ContinuousQueries "\<lambda>xs. di_ContinuousQueries_update (\<lambda>_. xs)" cqi_Name
  by unfold_locales simp_all

interpretation subscriptions:
  keyed_container rpi_Subscriptions "\<lambda>xs. rpi_Subscriptions_update (\<lambda>_. xs)" sub_Name
  by unfold_locales simp_all

text \<open>
  Writing through the \<open>*DatabaseInfo\<close> that \<open>Database\<close> returned, and through the
  \<open>*RetentionPolicyInfo\<close> that \<open>RetentionPolicy\<close> returned.
\<close>

definition on_database :: "string \<Rightarrow> (DatabaseInfo \<Rightarrow> DatabaseInfo) \<Rightarrow> Data \<Rightarrow> Data" where
  "on_database name f d =
     d\<lparr>d_Databases := upd_first (\<lambda>di. di_Name di = name) f (d_Databases d)\<rparr>"

definition on_policy :: "string \<Rightarrow> (RetentionPolicyInfo \<Rightarrow> RetentionPolicyInfo) \<Rightarrow>
    DatabaseInfo \<Rightarrow> DatabaseInfo" where
  "on_policy name f di =
     di\<lparr>di_RetentionPolicies := upd_first (\<lambda>rp. rpi_Name rp = name) f (di_RetentionPolicies di)\<rparr>"

definition on_user :: "string \<Rightarrow> (UserInfo \<Rightarrow> UserInfo) \<Rightarrow> Data \<Rightarrow> Data" where
  "on_user name f d = d\<lparr>d_Users := upd_first (\<lambda>ui. ui_Name ui = name) f (d_Users d)\<rparr>"

section \<open>Nodes\<close>

definition Data_Node :: "Data \<Rightarrow> u64 \<Rightarrow> NodeInfo option" where
  "Data_Node d nid = List.find (\<lambda>n. ni_ID n = nid) (d_Nodes d)"

definition Data_NodeByHost :: "Data \<Rightarrow> string \<Rightarrow> NodeInfo option" where
  "Data_NodeByHost d host = List.find (\<lambda>n. ni_Host n = host) (d_Nodes d)"

definition Data_CreateNode :: "string \<Rightarrow> Data \<Rightarrow> Data mresult" where
  "Data_CreateNode host d =
     (if Data_NodeByHost d host \<noteq> None then Inl ErrNodeExists
      else let maxid = d_MaxNodeID d + 1 in
        Inr (d\<lparr>d_MaxNodeID := maxid,
               d_Nodes := d_Nodes d @ [\<lparr>ni_ID = maxid, ni_Host = host\<rparr>]\<rparr>))"

text \<open>The scan of \<open>DeleteNode\<close> for a shard of an unreplicated policy owned by the node alone.\<close>

definition sole_owner :: "u64 \<Rightarrow> ShardInfo \<Rightarrow> bool" where
  "sole_owner nid si \<longleftrightarrow> ShardInfo_OwnedBy si nid \<and> length (si_Owners si) = 1"

definition unreplicated_shard :: "u64 \<Rightarrow> Data \<Rightarrow> bool" where
  "unreplicated_shard nid d =
     list_ex (\<lambda>di. list_ex (\<lambda>rp. \<not> rpi_ReplicaN rp > 1 \<and>
         list_ex (\<lambda>sg. list_ex (sole_owner nid) (sgi_Shards sg)) (rpi_ShardGroups rp))
       (di_RetentionPolicies di)) (d_Databases d)"

definition remove_owner :: "u64 \<Rightarrow> ShardInfo \<Rightarrow> ShardInfo" where
  "remove_owner nid si =
     (if ShardInfo_OwnedBy si nid
      then si\<lparr>si_Owners := filter (\<lambda>o'. so_NodeID o' \<noteq> nid) (si_Owners si)\<rparr> else si)"

definition remove_owner_everywhere :: "u64 \<Rightarrow> DatabaseInfo list \<Rightarrow> DatabaseInfo list" where
  "remove_owner_everywhere nid dis =
     map (\<lambda>di. di\<lparr>di_RetentionPolicies := map (\<lambda>rp. rp\<lparr>rpi_ShardGroups :=
       map (\<lambda>sg. sg\<lparr>sgi_Shards := map (remove_owner nid) (sgi_Shards sg)\<rparr>) (rpi_ShardGroups rp)\<rparr>)
       (di_RetentionPolicies di)\<rparr>) dis"

definition Data_DeleteNode :: "u64 \<Rightarrow> bool \<Rightarrow> Data \<Rightarrow> Data mresult" where
  "Data_DeleteNode nid force d =
     (if nid = 0 then Inl ErrNodeIDRequired
      else if Data_Node d nid = None then Inl ErrNodeNotFound
      else if length (d_Nodes d) = 1 then Inl ErrNodeUnableToDropFinalNode
      else if \<not> force \<and> unreplicated_shard nid d then Inl ErrShardNotReplicated
      else Inr (d\<lparr>d_Databases := remove_owner_everywhere nid (d_Databases d),
                  d_Nodes := filter (\<lambda>n. ni_ID n \<noteq> nid) (d_Nodes d)\<rparr>))"

section \<open>Databases and retention policies\<close>

definition Data_Database :: "Data \<Rightarrow> string \<Rightarrow> DatabaseInfo option" where
  "Data_Database d name = List.find (\<lambda>di. di_Name di = name) (d_Databases d)"

definition Data_CreateDatabase :: "string \<Rightarrow> Data \<Rightarrow> Data mresult" where
  "Data_CreateDatabase name d =
     (if name = '''' then Inl ErrDatabaseNameRequired
      else if Data_Database d name \<noteq> None then Inl ErrDatabaseExists
      else Inr (d\<lparr>d_Databases := d_Databases d @
        [\<lparr>di_Name = name, di_DefaultRetentionPolicy = '''', di_RetentionPolicies = [],
          di_ContinuousQueries = []\<rparr>]\<rparr>))"

definition Data_DropDatabase :: "string \<Rightarrow> Data \<Rightarrow> Data mresult" where
  "Data_DropDatabase name d =
     (case del_first (\<lambda>di. di_Name di = name) (d_Databases d) of
        Some dis \<Rightarrow> Inr (d\<lparr>d_Databases := dis\<rparr>)
      | None \<Rightarrow> Inl ErrDatabaseNotFound)"

definition Data_RetentionPolicy :: "Data \<Rightarrow> string \<Rightarrow> string \<Rightarrow> RetentionPolicyInfo option mresult" where
  "Data_RetentionPolicy d database name =
     (case Data_Database d database of
        None \<Rightarrow> Inl ErrDatabaseNotFound
      | Some di \<Rightarrow> Inr (List.find (\<lambda>rp. rpi_Name rp = name) (di_RetentionPolicies di)))"

definition Data_CreateRetentionPolicy :: "string \<Rightarrow> RetentionPolicyInfo \<Rightarrow> Data \<Rightarrow> Data mresult" where
  "Data_CreateRetentionPolicy database rpi d =
     (if rpi_Name rpi = '''' then Inl ErrRetentionPolicyNameRequired
      else if rpi_ReplicaN rpi < 1 then Inl ErrReplicationFactorTooLow
      else case Data_Database d database of
        None \<Rightarrow> Inl ErrDatabaseNotFound
      | Some di \<Rightarrow>
          if DatabaseInfo_RetentionPolicy di (rpi_Name rpi) \<noteq> None then Inl ErrRetentionPolicyExists
          else Inr (on_database database (\<lambda>di. di\<lparr>di_RetentionPolicies := di_RetentionPolicies di @
            [\<lparr>rpi_Name = rpi_Name rpi, rpi_ReplicaN = rpi_ReplicaN rpi, rpi_Duration = rpi_Duration rpi,
              rpi_ShardGroupDuration = shardGroupDuration (rpi_Duration rpi),
              rpi_ShardGroups = [], rpi_Subscriptions = []\<rparr>]\<rparr>) d))"

definition Data_DropRetentionPolicy :: "string \<Rightarrow> string \<Rightarrow> Data \<Rightarrow> Data mresult" where
  "Data_DropRetentionPolicy database name d =
     (case Data_Database d database of
        None \<Rightarrow> Inl ErrDatabaseNotFound
      | Some di \<Rightarrow>
          if di_DefaultRetentionPolicy di = name then Inl ErrRetentionPolicyDefault
          else case del_first (\<lambda>rp. rpi_Name rp = name) (di_RetentionPolicies di) of
            Some rps \<Rightarrow> Inr (on_database database (\<lambda>di. di\<lparr>di_RetentionPolicies := rps\<rparr>) d)
          | None \<Rightarrow> Inl ErrRetentionPolicyNotFound)"

definition update_policy :: "RetentionPolicyUpdate \<Rightarrow> RetentionPolicyInfo \<Rightarrow> RetentionPolicyInfo" where
  "update_policy rpu rpi =
     (let rpi1 = (case rpu_Name rpu of None \<Rightarrow> rpi | Some n \<Rightarrow> rpi\<lparr>rpi_Name := n\<rparr>);
          rpi2 = (case rpu_Duration rpu of None \<Rightarrow> rpi1
                  | Some dur \<Rightarrow> rpi1\<lparr>rpi_Duration := dur, rpi_ShardGroupDuration := shardGroupDuration dur\<rparr>)
      in case rpu_ReplicaN rpu of None \<Rightarrow> rpi2 | Some r \<Rightarrow> rpi2\<lparr>rpi_ReplicaN := r\<rparr>)"

definition Data_UpdateRetentionPolicy ::
    "string \<Rightarrow> string \<Rightarrow> RetentionPolicyUpdate \<Rightarrow> Data \<Rightarrow> Data mresult" where
  "Data_UpdateRetentionPolicy database name rpu d =
     (case Data_Database d database of
        None \<Rightarrow> Inl ErrDatabaseNotFound
      | Some di \<Rightarrow>
          if DatabaseInfo_RetentionPolicy di name = None then Inl ErrRetentionPolicyNotFound
          else if (case rpu_Name rpu of None \<Rightarrow> False
                   | Some n \<Rightarrow> n \<noteq> name \<and> DatabaseInfo_RetentionPolicy di n \<noteq> None)
            then Inl ErrRetentionPolicyNameExists
          else if (case rpu_Duration rpu of None \<Rightarrow> False
                   | Some dur \<Rightarrow> dur < MinRetentionPolicyDuration \<and> dur \<noteq> 0)
            then Inl ErrRetentionPolicyDurationTooLow
          else Inr (on_database database (on_policy name (update_policy rpu)) d))"

definition Data_SetDefaultRetentionPolicy :: "string \<Rightarrow> string \<Rightarrow> Data \<Rightarrow> Data mresult" where
  "Data_SetDefaultRetentionPolicy database name d =
     (case Data_Database d database of
        None \<Rightarrow> Inl ErrDatabaseNotFound
      | Some di \<Rightarrow>
          if DatabaseInfo_RetentionPolicy di name = None then Inl ErrRetentionPolicyNotFound
          else Inr (on_database database (\<lambda>di. di\<lparr>di_DefaultRetentionPolicy := name\<rparr>) d))"

section \<open>Shard groups\<close>

text \<open>
  The lookup that the shard-group and subscription operations start with: an unknown
  database is an error of \<open>RetentionPolicy\<close>, an unknown policy its nil result.
\<close>

definition find_policy :: "Data \<Rightarrow> string \<Rightarrow> string \<Rightarrow> RetentionPolicyInfo mresult" where
  "find_policy d database policy =
     (case Data_RetentionPolicy d database policy of
        Inl e \<Rightarrow> Inl e
      | Inr None \<Rightarrow> Inl ErrRetentionPolicyNotFound
      | Inr (Some rpi) \<Rightarrow> Inr rpi)"

definition Data_ShardGroups :: "Data \<Rightarrow> string \<Rightarrow> string \<Rightarrow> ShardGroupInfo list mresult" where
  "Data_ShardGroups d database policy =
     (case find_policy d database policy of
        Inl e \<Rightarrow> Inl e
      | Inr rpi \<Rightarrow> Inr (filter (\<lambda>g. \<not> ShardGroupInfo_Deleted g) (rpi_ShardGroups rpi)))"

definition Data_ShardGroupsByTimeRange ::
    "Data \<Rightarrow> string \<Rightarrow> string \<Rightarrow> time \<Rightarrow> time \<Rightarrow> ShardGroupInfo list mresult" where
  "Data_ShardGroupsByTimeRange d database policy tmin tmax =
     (case find_policy d database policy of
        Inl e \<Rightarrow> Inl e
      | Inr rpi \<Rightarrow> Inr (filter (\<lambda>g. \<not> (ShardGroupInfo_Deleted g \<or> \<not> ShardGroupInfo_Overlaps g tmin tmax))
                               (rpi_ShardGroups rpi)))"

definition Data_ShardGroupByTimestamp ::
    "Data \<Rightarrow> string \<Rightarrow> string \<Rightarrow> time \<Rightarrow> ShardGroupInfo option mresult" where
  "Data_ShardGroupByTimestamp d database policy t =
     (case find_policy d database policy of
        Inl e \<Rightarrow> Inl e
      | Inr rpi \<Rightarrow> Inr (RetentionPolicyInfo_ShardGroupByTimestamp rpi t))"

text \<open>
  The three loops of \<open>CreateShardGroup\<close>: fresh shard IDs from the counter, the owners of
  one shard, and the shards in turn, with the node index running on from shard to shard.
\<close>

fun new_shards :: "nat \<Rightarrow> u64 \<Rightarrow> ShardInfo list \<times> u64" where
  "new_shards 0 maxid = ([], maxid)"
| "new_shards (Suc n) maxid =
     (let (rest, m) = new_shards n (maxid + 1) in (\<lparr>si_ID = maxid + 1, si_Owners = []\<rparr> # rest, m))"

fun append_owners :: "NodeInfo list \<Rightarrow> nat \<Rightarrow> nat \<Rightarrow> ShardInfo \<Rightarrow> ShardInfo \<times> nat" where
  "append_owners nodes 0 nodeIndex si = (si, nodeIndex)"
| "append_owners nodes (Suc j) nodeIndex si =
     append_owners nodes j (Suc nodeIndex)
       (si\<lparr>si_Owners := si_Owners si @ [\<lparr>so_NodeID = ni_ID (nodes ! (nodeIndex mod length nodes))\<rparr>]\<rparr>)"

fun assign_owners :: "NodeInfo list \<Rightarrow> nat \<Rightarrow> nat \<Rightarrow> ShardInfo list \<Rightarrow> ShardInfo list" where
  "assign_owners nodes replicaN nodeIndex [] = []"
| "assign_owners nodes replicaN nodeIndex (si # sis) =
     (let (si', k) = append_owners nodes replicaN nodeIndex si
      in si' # assign_owners nodes replicaN k sis)"

definition effective_replicaN :: "RetentionPolicyInfo \<Rightarrow> Data \<Rightarrow> int" where
  "effective_replicaN rpi d =
     (if rpi_ReplicaN rpi = 0 then 1
      else if rpi_ReplicaN rpi > int (length (d_Nodes d)) then int (length (d_Nodes d))
      else rpi_ReplicaN rpi)"

text \<open>
  \<open>sort.Sort\<close> orders the groups by start time and leaves the order of equal start times
  open; the model uses the stable order.
\<close>

definition sort_groups :: "ShardGroupInfo list \<Rightarrow> ShardGroupInfo list" where
  "sort_groups gs = sort_key sgi_StartTime gs"

definition new_shard_group :: "RetentionPolicyInfo \<Rightarrow> time \<Rightarrow> Data \<Rightarrow> ShardGroupInfo" where
  "new_shard_group rpi t d =
     (let replicaN = effective_replicaN rpi d;
          shardN = go_quot (int (length (d_Nodes d))) replicaN;
          start = time_Truncate (rpi_ShardGroupDuration rpi) t;
          nodeIndex = unat (d_Index d mod of_nat (length (d_Nodes d)))
      in \<lparr>sgi_ID = d_MaxShardGroupID d + 1, sgi_StartTime = start,
          sgi_EndTime = start + rpi_ShardGroupDuration rpi, sgi_DeletedAt = 0,
          sgi_Shards = assign_owners (d_Nodes d) (nat replicaN) nodeIndex
            (fst (new_shards (nat shardN) (d_MaxShardID d)))\<rparr>)"

definition Data_CreateShardGroup :: "string \<Rightarrow> string \<Rightarrow> time \<Rightarrow> Data \<Rightarrow> Data mresult" where
  "Data_CreateShardGroup database policy t d =
     (if d_Nodes d = [] then Inl ErrNodesRequired
      else case find_policy d database policy of
        Inl e \<Rightarrow> Inl e
      | Inr rpi \<Rightarrow>
          if RetentionPolicyInfo_ShardGroupByTimestamp rpi t \<noteq> None then Inl ErrShardGroupExists
          else let shardN = go_quot (int (length (d_Nodes d))) (effective_replicaN rpi d);
                   sgi = new_shard_group rpi t d
            in if shardN < 0 then Inl PanicMakeSlice
               else Inr (on_database database (on_policy policy (\<lambda>rp.
                      rp\<lparr>rpi_ShardGroups := sort_groups (rpi_ShardGroups rp @ [sgi])\<rparr>))
                    (d\<lparr>d_MaxShardGroupID := d_MaxShardGroupID d + 1,
                       d_MaxShardID := snd (new_shards (nat shardN) (d_MaxShardID d))\<rparr>)))"

text \<open>\<open>DeleteShardGroup\<close> stamps the group with \<open>time.Now()\<close>, here the argument \<open>now\<close>.\<close>

definition Data_DeleteShardGroup :: "time \<Rightarrow> string \<Rightarrow> string \<Rightarrow> u64 \<Rightarrow> Data \<Rightarrow> Data mresult" where
  "Data_DeleteShardGroup now database policy gid d =
     (case find_policy d database policy of
        Inl e \<Rightarrow> Inl e
      | Inr rpi \<Rightarrow>
          if List.find (\<lambda>g. sgi_ID g = gid) (rpi_ShardGroups rpi) = None then Inl ErrShardGroupNotFound
          else Inr (on_database database (on_policy policy (\<lambda>rp. rp\<lparr>rpi_ShardGroups :=
            upd_first (\<lambda>g. sgi_ID g = gid) (\<lambda>g. g\<lparr>sgi_DeletedAt := now\<rparr>) (rpi_ShardGroups rp)\<rparr>)) d))"

section \<open>Continuous queries and subscriptions\<close>

definition Data_CreateContinuousQuery :: "string \<Rightarrow> string \<Rightarrow> string \<Rightarrow> Data \<Rightarrow> Data mresult" where
  "Data_CreateContinuousQuery database name query d =
     (case Data_Database d database of
        None \<Rightarrow> Inl ErrDatabaseNotFound
      | Some di \<Rightarrow>
          if List.find (\<lambda>cq. cqi_Name cq = name) (di_ContinuousQueries di) \<noteq> None
          then Inl ErrContinuousQueryExists
          else Inr (on_database database (\<lambda>di. di\<lparr>di_ContinuousQueries := di_ContinuousQueries di @
            [\<lparr>cqi_Name = name, cqi_Query = query\<rparr>]\<rparr>) d))"

definition Data_DropContinuousQuery :: "string \<Rightarrow> string \<Rightarrow> Data \<Rightarrow> Data mresult" where
  "Data_DropContinuousQuery database name d =
     (case Data_Database d database of
        None \<Rightarrow> Inl ErrDatabaseNotFound
      | Some di \<Rightarrow>
          case del_first (\<lambda>cq. cqi_Name cq = name) (di_ContinuousQueries di) of
            Some cqs \<Rightarrow> Inr (on_database database (\<lambda>di. di\<lparr>di_ContinuousQueries := cqs\<rparr>) d)
          | None \<Rightarrow> Inl ErrContinuousQueryNotFound)"

definition Data_CreateSubscription ::
    "string \<Rightarrow> string \<Rightarrow> string \<Rightarrow> string \<Rightarrow> string list \<Rightarrow> Data \<Rightarrow> Data mresult" where
  "Data_CreateSubscription database rp name mode destinations d =
     (case find_policy d database rp of
        Inl e \<Rightarrow> Inl e
      | Inr rpi \<Rightarrow>
          if List.find (\<lambda>s. sub_Name s = name) (rpi_Subscriptions rpi) \<noteq> None then Inl ErrSubscriptionExists
          else Inr (on_database database (on_policy rp (\<lambda>rpi. rpi\<lparr>rpi_Subscriptions :=
            rpi_Subscriptions rpi @
            [\<lparr>sub_Name = name, sub_Mode = mode, sub_Destinations = destinations\<rparr>]\<rparr>)) d))"

text \<open>\<open>DropSubscription\<close> dereferences the policy without testing it for nil.\<close>

definition Data_DropSubscription :: "string \<Rightarrow> string \<Rightarrow> string \<Rightarrow> Data \<Rightarrow> Data mresult" where
  "Data_DropSubscription database rp name d =
     (case Data_RetentionPolicy d database rp of
        Inl e \<Rightarrow> Inl e
      | Inr None \<Rightarrow> Inl PanicNilDereference
      | Inr (Some rpi) \<Rightarrow>
          case del_first (\<lambda>s. sub_Name s = name) (rpi_Subscriptions rpi) of
            Some ss \<Rightarrow> Inr (on_database database (on_policy rp (\<lambda>rpi. rpi\<lparr>rpi_Subscriptions := ss\<rparr>)) d)
          | None \<Rightarrow> Inl ErrSubscriptionNotFound)"

section \<open>Users\<close>

definition Data_User :: "Data \<Rightarrow> string \<Rightarrow> UserInfo option" where
  "Data_User d name = List.find (\<lambda>ui. ui_Name ui = name) (d_Users d)"

definition Data_CreateUser :: "string \<Rightarrow> string \<Rightarrow> bool \<Rightarrow> Data \<Rightarrow> Data mresult" where
  "Data_CreateUser name hash admin d =
     (if name = '''' then Inl ErrUsernameRequired
      else if Data_User d name \<noteq> None then Inl ErrUserExists
      else Inr (d\<lparr>d_Users := d_Users d @
        [\<lparr>ui_Name = name, ui_Hash = hash, ui_Admin = admin, ui_Privileges = []\<rparr>]\<rparr>))"

definition Data_DropUser :: "string \<Rightarrow> Data \<Rightarrow> Data mresult" where
  "Data_DropUser name d =
     (case del_first (\<lambda>ui. ui_Name ui = name) (d_Users d) of
        Some us \<Rightarrow> Inr (d\<lparr>d_Users := us\<rparr>)
      | None \<Rightarrow> Inl ErrUserNotFound)"

definition Data_UpdateUser :: "string \<Rightarrow> string \<Rightarrow> Data \<Rightarrow> Data mresult" where
  "Data_UpdateUser name hash d =
     (if Data_User d name = None then Inl ErrUserNotFound
      else Inr (on_user name (\<lambda>ui. ui\<lparr>ui_Hash := hash\<rparr>) d))"

definition Data_SetPrivilege :: "string \<Rightarrow> string \<Rightarrow> Privilege \<Rightarrow> Data \<Rightarrow> Data mresult" where
  "Data_SetPrivilege name database p d =
     (if Data_User d name = None then Inl ErrUserNotFound
      else Inr (on_user name (\<lambda>ui. ui\<lparr>ui_Privileges := AList.update database p (ui_Privileges ui)\<rparr>) d))"

definition Data_SetAdminPrivilege :: "string \<Rightarrow> bool \<Rightarrow> Data \<Rightarrow> Data mresult" where
  "Data_SetAdminPrivilege name admin d =
     (if Data_User d name = None then Inl ErrUserNotFound
      else Inr (on_user name (\<lambda>ui. ui\<lparr>ui_Admin := admin\<rparr>) d))"

definition Data_UserPrivileges :: "Data \<Rightarrow> string \<Rightarrow> (string \<times> Privilege) list mresult" where
  "Data_UserPrivileges d name =
     (case Data_User d name of None \<Rightarrow> Inl ErrUserNotFound | Some ui \<Rightarrow> Inr (ui_Privileges ui))"

definition Data_UserPrivilege :: "Data \<Rightarrow> string \<Rightarrow> string \<Rightarrow> Privilege mresult" where
  "Data_UserPrivilege d name database =
     (case Data_User d name of
        None \<Rightarrow> Inl ErrUserNotFound
      | Some ui \<Rightarrow>
          (case List.find (\<lambda>kv. fst kv = database) (ui_Privileges ui) of
             Some kv \<Rightarrow> Inr (snd kv)
           | None \<Rightarrow> Inr NoPrivileges))"

section \<open>Cloning\<close>

text \<open>
  The \<open>clone\<close> methods copy each slice they know of. As values the copies equal the
  originals; \<open>RetentionPolicyInfo.clone\<close> copies the shard groups only and shares the
  slice of subscriptions.
\<close>

definition ShardInfo_clone :: "ShardInfo \<Rightarrow> ShardInfo" where
  "ShardInfo_clone si = si\<lparr>si_Owners := map (\<lambda>so. so) (si_Owners si)\<rparr>"

definition ShardGroupInfo_clone :: "ShardGroupInfo \<Rightarrow> ShardGroupInfo" where
  "ShardGroupInfo_clone sgi = sgi\<lparr>sgi_Shards := map ShardInfo_clone (sgi_Shards sgi)\<rparr>"

definition RetentionPolicyInfo_clone :: "RetentionPolicyInfo \<Rightarrow> RetentionPolicyInfo" where
  "RetentionPolicyInfo_clone rpi =
     rpi\<lparr>rpi_ShardGroups := map ShardGroupInfo_clone (rpi_ShardGroups rpi)\<rparr>"

definition DatabaseInfo_clone :: "DatabaseInfo \<Rightarrow> DatabaseInfo" where
  "DatabaseInfo_clone di =
     di\<lparr>di_RetentionPolicies := map RetentionPolicyInfo_clone (di_RetentionPolicies di),
        di_ContinuousQueries := map (\<lambda>cq. cq) (di_ContinuousQueries di)\<rparr>"

definition UserInfo_clone :: "UserInfo \<Rightarrow> UserInfo" where
  "UserInfo_clone ui = ui\<lparr>ui_Privileges := map (\<lambda>(k, v). (k, v)) (ui_Privileges ui)\<rparr>"

definition Data_Clone :: "Data \<Rightarrow> Data" where
  "Data_Clone d = d\<lparr>d_Nodes := map (\<lambda>n. n) (d_Nodes d),
     d_Databases := map DatabaseInfo_clone (d_Databases d), d_Users := map UserInfo_clone (d_Users d)\<rparr>"

lemma clone_ids [simp]:
  "ShardInfo_clone = (\<lambda>x. x)" "ShardGroupInfo_clone = (\<lambda>x. x)"
  "RetentionPolicyInfo_clone = (\<lambda>x. x)" "DatabaseInfo_clone = (\<lambda>x. x)"
  "UserInfo_clone = (\<lambda>x. x)"
proof -
  show 1: "ShardInfo_clone = (\<lambda>x. x)"
    by (simp add: ShardInfo_clone_def fun_eq_iff)
  show 2: "ShardGroupInfo_clone = (\<lambda>x. x)"
    by (simp add: ShardGroupInfo_clone_def fun_eq_iff 1)
  show 3: "RetentionPolicyInfo_clone = (\<lambda>x. x)"
    by (simp add: RetentionPolicyInfo_clone_def fun_eq_iff 2)
  show "DatabaseInfo_clone = (\<lambda>x. x)"
    by (simp add: DatabaseInfo_clone_def fun_eq_iff 3)
  show "UserInfo_clone = (\<lambda>x. x)"
    by (simp add: UserInfo_clone_def fun_eq_iff case_prod_unfold)
qed

lemma Data_Clone_id [simp]: "Data_Clone d = d"
  by (simp add: Data_Clone_def)

lemmas [meta_defs] =
  on_database_def on_policy_def on_user_def Data_Node_def Data_NodeByHost_def Data_Database_def
  Data_RetentionPolicy_def find_policy_def Data_User_def

end
