(* ===== verification/Meta_Shards.thy ===== *)
theory Meta_Shards
  imports Meta_Inv
begin

text \<open>
  The shard group that \<open>CreateShardGroup\<close> builds: closed forms of its three loops, the
  round-robin assignment of owners, and the metadata after the operation.
\<close>

section \<open>Closed forms of the loops\<close>

lemma new_shards_eq:
  "new_shards n m = (map (\<lambda>i. \<lparr>si_ID = m + of_nat (Suc i), si_Owners = []\<rparr>) [0..<n], m + of_nat n)"
proof (induction n arbitrary: m)
  case 0
  show ?case by simp
next
  case (Suc n)
  have "[0..<Suc n] = 0 # map Suc [0..<n]"
    by (simp add: upt_conv_Cons map_Suc_upt)
  then show ?case by (simp add: Suc.IH algebra_simps)
qed

definition node_at :: "NodeInfo list \<Rightarrow> nat \<Rightarrow> ShardOwner" where
  "node_at nodes k = \<lparr>so_NodeID = ni_ID (nodes ! (k mod length nodes))\<rparr>"

lemma append_owners_eq:
  "append_owners nodes r k si = (si\<lparr>si_Owners := si_Owners si @ map (node_at nodes) [k..<k + r]\<rparr>, k + r)"
proof (induction r arbitrary: k si)
  case 0
  show ?case by simp
next
  case (Suc r)
  have "[k..<k + Suc r] = k # [Suc k..<Suc k + r]"
    by (simp add: upt_conv_Cons)
  then show ?case by (simp add: Suc.IH node_at_def)
qed

lemma assign_owners_eq:
  "assign_owners nodes r k (map f [a..<a + n]) =
     map (\<lambda>i. (f (a + i))\<lparr>si_Owners := si_Owners (f (a + i)) @
                map (node_at nodes) [k + i * r..<k + i * r + r]\<rparr>) [0..<n]"
proof (induction n arbitrary: a k)
  case 0
  show ?case by simp
next
  case (Suc n)
  have 1: "[a..<a + Suc n] = a # [Suc a..<Suc a + n]"
    by (simp add: upt_conv_Cons)
  have 2: "[0..<Suc n] = 0 # map Suc [0..<n]"
    by (simp add: upt_conv_Cons map_Suc_upt)
  show ?case
    unfolding 1 2 using Suc.IH [of "k + r" "Suc a"]
    by (simp add: append_owners_eq comp_def algebra_simps del: upt_Suc)
qed

section \<open>Round robin\<close>

lemma mod_window_inj:
  assumes "m \<le> n"
  shows "inj_on (\<lambda>i. i mod n) {s..<s + m :: nat}"
proof -
  have *: "False" if "i < j" "s \<le> i" "j < s + m" "i mod n = j mod n" for i j
  proof -
    from that(1,4) have "n dvd j - i" by (metis less_imp_le_nat mod_eq_dvd_iff_nat)
    moreover from that assms have "0 < j - i" "j - i < n" by auto
    ultimately show False by (auto dest: dvd_imp_le)
  qed
  show ?thesis
  proof (rule inj_onI)
    fix i j assume "i \<in> {s..<s + m}" "j \<in> {s..<s + m}" and eq: "i mod n = j mod n"
    then show "i = j" using * [of i j] * [of j i] by (metis atLeastLessThan_iff linorder_neqE_nat)
  qed
qed

lemma distinct_window_owners:
  assumes "distinct (map ni_ID nodes)" and "m \<le> length nodes"
  shows "distinct (map (\<lambda>k. so_NodeID (node_at nodes k)) [s..<s + m])"
proof (cases "nodes = []")
  case True
  with assms show ?thesis by simp
next
  case False
  have "inj_on (\<lambda>k. ni_ID (nodes ! (k mod length nodes))) {s..<s + m}"
  proof (rule inj_onI)
    fix i j assume ij: "i \<in> {s..<s + m}" "j \<in> {s..<s + m}"
      and "ni_ID (nodes ! (i mod length nodes)) = ni_ID (nodes ! (j mod length nodes))"
    then have "map ni_ID nodes ! (i mod length nodes) = map ni_ID nodes ! (j mod length nodes)"
      using False by simp
    moreover have "i mod length nodes < length (map ni_ID nodes)"
      and "j mod length nodes < length (map ni_ID nodes)"
      using False by simp_all
    ultimately have "i mod length nodes = j mod length nodes"
      using nth_eq_iff_index_eq [OF assms(1)] by blast
    from inj_onD [OF mod_window_inj [OF assms(2)] this ij] show "i = j" .
  qed
  then show ?thesis by (simp add: distinct_map node_at_def)
qed

lemma node_at_known: "nodes \<noteq> [] \<Longrightarrow> so_NodeID (node_at nodes k) \<in> ni_ID ` set nodes"
  by (simp add: node_at_def)

lemma concat_windows:
  "concat (map (\<lambda>i. map f [k + i * r..<k + i * r + r]) [0..<n]) = map f [k..<k + n * r]"
proof (induction n)
  case 0
  show ?case by simp
next
  case (Suc n)
  have "[k..<k + Suc n * r] = [k..<k + n * r] @ [k + n * r..<k + n * r + r]"
    using upt_add_eq_append [of k "k + n * r" r] by (simp add: algebra_simps)
  with Suc.IH show ?case by simp
qed

section \<open>The new group\<close>

definition replicas :: "RetentionPolicyInfo \<Rightarrow> Data \<Rightarrow> nat" where
  "replicas rpi d = nat (effective_replicaN rpi d)"

definition first_node :: "Data \<Rightarrow> nat" where
  "first_node d = unat (d_Index d mod of_nat (length (d_Nodes d)))"

lemma replicas_bounds:
  assumes "d_Nodes d \<noteq> []" and "0 \<le> rpi_ReplicaN rpi"
  shows "0 < replicas rpi d" and "replicas rpi d \<le> length (d_Nodes d)"
    and "effective_replicaN rpi d = int (replicas rpi d)"
  using assms by (auto simp: replicas_def effective_replicaN_def Suc_le_eq)

lemma new_shard_group_shards:
  assumes "d_Nodes d \<noteq> []" and "0 \<le> rpi_ReplicaN rpi"
  shows "sgi_Shards (new_shard_group rpi t d) =
    map (\<lambda>i. \<lparr>si_ID = d_MaxShardID d + of_nat (Suc i),
              si_Owners = map (node_at (d_Nodes d)) [first_node d + i * replicas rpi d..<
                            first_node d + i * replicas rpi d + replicas rpi d]\<rparr>)
        [0..<length (d_Nodes d) div replicas rpi d]"
proof -
  have q: "nat (go_quot (int (length (d_Nodes d))) (effective_replicaN rpi d)) =
      length (d_Nodes d) div replicas rpi d"
    using replicas_bounds [OF assms] by (simp add: go_quot_nonneg nat_div_distrib)
  show ?thesis
    using assign_owners_eq [of "d_Nodes d" "replicas rpi d" "first_node d" _ 0
        "length (d_Nodes d) div replicas rpi d"]
    by (simp add: new_shard_group_def Let_def q new_shards_eq first_node_def
        flip: replicas_def)
qed

lemma new_shard_group_owners:
  assumes "d_Nodes d \<noteq> []" and "0 \<le> rpi_ReplicaN rpi"
  shows "concat (map si_Owners (sgi_Shards (new_shard_group rpi t d))) =
    map (node_at (d_Nodes d)) [first_node d..<first_node d +
       (length (d_Nodes d) div replicas rpi d) * replicas rpi d]"
  by (simp add: new_shard_group_shards [OF assms] comp_def concat_windows)

lemma new_shard_group_distinct_owners:
  assumes "d_Nodes d \<noteq> []" and "0 \<le> rpi_ReplicaN rpi" and "distinct (map ni_ID (d_Nodes d))"
  shows "distinct (map so_NodeID (concat (map si_Owners (sgi_Shards (new_shard_group rpi t d)))))"
proof -
  have "(length (d_Nodes d) div replicas rpi d) * replicas rpi d \<le> length (d_Nodes d)"
    by simp
  with assms(3) have "distinct (map (\<lambda>k. so_NodeID (node_at (d_Nodes d) k))
      [first_node d..<first_node d + (length (d_Nodes d) div replicas rpi d) * replicas rpi d])"
    by (rule distinct_window_owners)
  then show ?thesis
    by (simp add: new_shard_group_owners [OF assms(1,2)] comp_def)
qed

lemma new_shard_group_fields [simp]:
  "sgi_ID (new_shard_group rpi t d) = d_MaxShardGroupID d + 1"
  "sgi_StartTime (new_shard_group rpi t d) = time_Truncate (rpi_ShardGroupDuration rpi) t"
  "sgi_EndTime (new_shard_group rpi t d) =
     time_Truncate (rpi_ShardGroupDuration rpi) t + rpi_ShardGroupDuration rpi"
  "sgi_DeletedAt (new_shard_group rpi t d) = 0"
  by (simp_all add: new_shard_group_def Let_def)

lemma new_shard_group_contains:
  "0 < rpi_ShardGroupDuration rpi \<Longrightarrow> ShardGroupInfo_Contains (new_shard_group rpi t d) t \<and>
     \<not> ShardGroupInfo_Deleted (new_shard_group rpi t d)"
  by (simp add: ShardGroupInfo_Contains_def ShardGroupInfo_Deleted_def time_IsZero_def
      time_Truncate_le time_Truncate_upper leD)

section \<open>The metadata after the operation\<close>

lemma Data_CreateShardGroup_Inr:
  assumes "Data_CreateShardGroup db p t d = Inr d'"
  obtains rpi where "d_Nodes d \<noteq> []" and "find_policy d db p = Inr rpi"
    and "RetentionPolicyInfo_ShardGroupByTimestamp rpi t = None"
    and "d' = on_database db (on_policy p (\<lambda>rp. rp\<lparr>rpi_ShardGroups :=
               sort_groups (rpi_ShardGroups rp @ [new_shard_group rpi t d])\<rparr>))
             (d\<lparr>d_MaxShardGroupID := d_MaxShardGroupID d + 1,
                d_MaxShardID := snd (new_shards (nat (go_quot (int (length (d_Nodes d)))
                   (effective_replicaN rpi d))) (d_MaxShardID d))\<rparr>)"
  using assms by (auto simp: Data_CreateShardGroup_def Let_def split: if_splits sum.splits)

lemma find_policy_counters [simp]:
  "find_policy (d\<lparr>d_MaxShardGroupID := a, d_MaxShardID := b\<rparr>) db p = find_policy d db p"
  by (simp add: find_policy_def Data_RetentionPolicy_def Data_Database_def)

lemma find_policy_on_policy:
  assumes "\<And>x. rpi_Name (f x) = rpi_Name x" and "find_policy d db p = Inr rpi"
  shows "find_policy (on_database db (on_policy p f) d) db p = Inr (f rpi)"
proof -
  from assms(2) obtain di where di: "Data_Database d db = Some di"
      and rp: "DatabaseInfo_RetentionPolicy di p = Some rpi"
    by (auto simp: find_policy_Inr)
  from di have "Data_Database (on_database db (on_policy p f) d) db = Some (on_policy p f di)"
    unfolding Data_Database_def on_database_def
    by (subst databases.lookup_update) simp_all
  moreover from rp have "DatabaseInfo_RetentionPolicy (on_policy p f di) p = Some (f rpi)"
    unfolding DatabaseInfo_RetentionPolicy_def on_policy_def
    by (subst policies.lookup_update) (simp_all add: assms(1))
  ultimately show ?thesis by (auto simp: find_policy_Inr)
qed

lemma sorted_sort_groups [simp]: "sorted (map sgi_StartTime (sort_groups gs))"
  by (simp add: sort_groups_def)

lemma mset_sort_groups [simp]: "mset (sort_groups gs) = mset gs"
  by (simp add: sort_groups_def)

lemma set_sort_groups [simp]: "set (sort_groups gs) = set gs"
  by (simp add: sort_groups_def)

end
