(* ===== verification/Meta_Preserve.thy ===== *)
theory Meta_Preserve
  imports Meta_Shards
begin

text \<open>
  Every operation of the metadata keeps the invariant \<open>data_wf\<close>. The counters are 64 bits
  wide: the operations that draw fresh IDs keep the invariant while the counter does not
  wrap around.
\<close>

section \<open>Nodes\<close>

lemma data_wfI:
  assumes "nodes_wf d" and "names_wf d"
    and "groups_wf (all_groups d) (d_Nodes d) (d_MaxShardGroupID d) (d_MaxShardID d)"
  shows "data_wf d"
  using assms by (simp add: data_wf_def)

lemma data_wf_CreateNode:
  assumes wf: "data_wf d" and op: "Data_CreateNode host d = Inr d'"
    and nowrap: "unat (d_MaxNodeID d) + 1 < 2 ^ 64"
  shows "data_wf d'"
proof -
  let ?n = "\<lparr>ni_ID = d_MaxNodeID d + 1, ni_Host = host\<rparr>"
  from op have d': "d' = d\<lparr>d_MaxNodeID := d_MaxNodeID d + 1, d_Nodes := d_Nodes d @ [?n]\<rparr>"
    by (auto simp: Data_CreateNode_def Let_def split: if_splits)
  have less: "\<And>y. y \<le> d_MaxNodeID d \<Longrightarrow> y < d_MaxNodeID d + 1"
    using less_add_nowrap [of "d_MaxNodeID d" 1] nowrap by simp
  have pos: "0 < d_MaxNodeID d + 1" by (rule less) simp
  show ?thesis
  proof (rule data_wfI)
    from wf have "\<And>n. n \<in> set (d_Nodes d) \<Longrightarrow> 0 < ni_ID n \<and> ni_ID n < d_MaxNodeID d + 1"
      using less by (auto simp: data_wf_def nodes_wf_def)
    then have "d_MaxNodeID d + 1 \<notin> ni_ID ` set (d_Nodes d)"
      and "\<forall>n\<in>set (d_Nodes d). 0 < ni_ID n \<and> ni_ID n \<le> d_MaxNodeID d + 1"
      by (force, auto simp: less_imp_le)
    with wf pos show "nodes_wf d'"
      by (simp add: d' data_wf_def nodes_wf_def)
    from wf show "names_wf d'" by (simp add: d' data_wf_def names_wf_def)
    have "all_groups d' = all_groups d" by (rule all_groups_cong) (simp add: d')
    with wf show "groups_wf (all_groups d') (d_Nodes d') (d_MaxShardGroupID d') (d_MaxShardID d')"
      by (auto simp: d' data_wf_def intro: groups_wf_counters)
  qed
qed

lemma remove_owner_frame [simp]: "si_ID (remove_owner nid si) = si_ID si"
  by (simp add: remove_owner_def)

lemma remove_owner_eq: "remove_owner nid si = si\<lparr>si_Owners := filter (\<lambda>so. so_NodeID so \<noteq> nid) (si_Owners si)\<rparr>"
proof (cases "ShardInfo_OwnedBy si nid")
  case True
  then show ?thesis by (simp add: remove_owner_def)
next
  case False
  then have "filter (\<lambda>so. so_NodeID so \<noteq> nid) (si_Owners si) = si_Owners si"
    by (auto simp: ShardInfo_OwnedBy_def list_ex_iff filter_id_conv)
  with False show ?thesis by (simp add: remove_owner_def)
qed

definition remove_owner_group :: "u64 \<Rightarrow> ShardGroupInfo \<Rightarrow> ShardGroupInfo" where
  "remove_owner_group nid sg = sg\<lparr>sgi_Shards := map (remove_owner nid) (sgi_Shards sg)\<rparr>"

lemma all_groups_remove_owner:
  "d_Databases d' = remove_owner_everywhere nid (d_Databases d) \<Longrightarrow>
   all_groups d' = map (remove_owner_group nid) (all_groups d)"
  by (simp add: all_groups_alt remove_owner_everywhere_def map_concat comp_def
      remove_owner_group_def [abs_def])

lemma shards_of_remove_owner: "shards_of (map (remove_owner_group nid) gs) = map (remove_owner nid) (shards_of gs)"
  by (simp add: shards_of_def map_concat comp_def remove_owner_group_def)

lemma groups_wf_remove_owner:
  assumes "groups_wf gs ns mg ms"
  shows "groups_wf (map (remove_owner_group nid) gs) (filter (\<lambda>n. ni_ID n \<noteq> nid) ns) mg ms"
proof -
  have ids: "map sgi_ID (map (remove_owner_group nid) gs) = map sgi_ID gs"
    "map si_ID (map (remove_owner nid) (shards_of gs)) = map si_ID (shards_of gs)"
    by (simp_all add: remove_owner_group_def)
  have "shard_wf (filter (\<lambda>n. ni_ID n \<noteq> nid) ns) (remove_owner nid si)" if "shard_wf ns si" for si
    using that by (auto simp: shard_wf_def remove_owner_eq distinct_map_filter)
  with assms ids show ?thesis
    by (auto simp: groups_wf_def shards_of_remove_owner remove_owner_group_def comp_def)
qed

lemma names_wf_remove_owner:
  assumes "names_wf d" and "d_Databases d' = remove_owner_everywhere nid (d_Databases d)"
    and "d_Users d' = d_Users d"
  shows "names_wf d'"
  using assms by (auto simp: names_wf_def remove_owner_everywhere_def comp_def database_wf_def policy_wf_def)

lemma Data_DeleteNode_Inr:
  assumes "Data_DeleteNode nid force d = Inr d'"
  shows "nid \<noteq> 0" and "Data_Node d nid \<noteq> None" and "length (d_Nodes d) \<noteq> 1"
    and "force \<or> \<not> unreplicated_shard nid d"
    and "d' = d\<lparr>d_Databases := remove_owner_everywhere nid (d_Databases d),
                d_Nodes := filter (\<lambda>n. ni_ID n \<noteq> nid) (d_Nodes d)\<rparr>"
  using assms by (auto simp: Data_DeleteNode_def split: if_splits)

lemma data_wf_DeleteNode:
  assumes wf: "data_wf d" and op: "Data_DeleteNode nid force d = Inr d'"
  shows "data_wf d'"
proof (rule data_wfI)
  note d' = Data_DeleteNode_Inr(5) [OF op]
  from wf show "nodes_wf d'"
    by (auto simp: d' data_wf_def nodes_wf_def distinct_map_filter)
  from wf show "names_wf d'"
    by (intro names_wf_remove_owner [of d d' nid]) (simp_all add: d' data_wf_def)
  have "all_groups d' = map (remove_owner_group nid) (all_groups d)"
    by (rule all_groups_remove_owner) (simp add: d')
  with wf show "groups_wf (all_groups d') (d_Nodes d') (d_MaxShardGroupID d') (d_MaxShardID d')"
    by (simp add: d' data_wf_def groups_wf_remove_owner)
qed

section \<open>Databases and policies\<close>

lemma data_wf_CreateDatabase:
  assumes wf: "data_wf d" and op: "Data_CreateDatabase name d = Inr d'"
  shows "data_wf d'"
proof -
  let ?di = "\<lparr>di_Name = name, di_DefaultRetentionPolicy = '''', di_RetentionPolicies = [],
    di_ContinuousQueries = []\<rparr>"
  from op have new: "name \<noteq> ''''" "List.find (\<lambda>di. di_Name di = di_Name ?di) (d_Databases d) = None"
      and d': "d' = d\<lparr>d_Databases := d_Databases d @ [?di]\<rparr>"
    by (auto simp: Data_CreateDatabase_def Data_Database_def split: if_splits)
  from wf new(2) have "distinct (map di_Name (d_Databases d'))"
    using databases.distinct_insert [of d ?di] by (simp add: d' data_wf_def names_wf_def)
  moreover have "all_groups d' = all_groups d" by (simp add: d' all_groups_alt)
  ultimately show ?thesis
    using wf new(1) by (simp add: d' data_wf_def nodes_wf_def names_wf_def database_wf_def)
qed

lemma del_first_mset: "del_first P xs = Some ys \<Longrightarrow> mset (concat (map h ys)) \<subseteq># mset (concat (map h xs))"
proof (induction xs arbitrary: ys)
  case Nil
  then show ?case by simp
next
  case (Cons x xs)
  then show ?case by (cases "P x") auto
qed

lemma data_wf_DropDatabase:
  assumes wf: "data_wf d" and op: "Data_DropDatabase name d = Inr d'"
  shows "data_wf d'"
proof -
  from op obtain dis where del: "del_first (\<lambda>di. di_Name di = name) (d_Databases d) = Some dis"
      and d': "d' = d\<lparr>d_Databases := dis\<rparr>"
    by (auto simp: Data_DropDatabase_def split: option.splits)
  from wf del have "names_wf d'"
    using set_del_first [OF del] distinct_map_del_first [OF del]
    by (auto simp: d' data_wf_def names_wf_def)
  moreover have "mset (all_groups d') \<subseteq># mset (all_groups d)"
    using del_first_mset [OF del] by (simp add: d' all_groups_alt)
  ultimately show ?thesis
    using wf groups_wf_mono by (auto simp: d' data_wf_def nodes_wf_def)
qed

lemma data_wf_on_database:
  assumes wf: "data_wf d" and di: "Data_Database d db = Some di"
    and "\<And>x. di_Name (f x) = di_Name x" and "database_wf di \<Longrightarrow> database_wf (f di)"
    and "\<And>x. map rpi_ShardGroups (di_RetentionPolicies (f x)) = map rpi_ShardGroups (di_RetentionPolicies x)"
  shows "data_wf (on_database db f d)"
proof -
  have "names_wf (on_database db f d)"
    using wf assms(2-4) by (intro names_wf_on_database) (simp_all add: data_wf_def)
  with wf all_groups_on_database_same [OF assms(5)] show ?thesis by (simp add: data_wf_def)
qed

lemma data_wf_on_policy:
  assumes wf: "data_wf d" and "find_policy d db p = Inr rp"
    and "\<And>x. rpi_Name (f x) = rpi_Name x" and "policy_wf rp \<Longrightarrow> policy_wf (f rp)"
    and "\<And>x. rpi_ShardGroups (f x) = rpi_ShardGroups x"
  shows "data_wf (on_database db (on_policy p f) d)"
proof -
  have "names_wf (on_database db (on_policy p f) d)"
    using wf assms(2-4) by (intro names_wf_on_policy) (simp_all add: data_wf_def)
  with wf all_groups_on_database_same [OF on_policy_groups_same [OF assms(5)]]
  show ?thesis by (simp add: data_wf_def)
qed

lemma all_groups_on_database:
  assumes "Data_Database d db = Some di"
  obtains R where "mset (all_groups d) = R + mset (concat (map rpi_ShardGroups (di_RetentionPolicies di)))"
    and "\<forall>f. mset (all_groups (on_database db f d)) =
              R + mset (concat (map rpi_ShardGroups (di_RetentionPolicies (f di))))"
proof -
  from assms obtain ys zs where d: "d_Databases d = ys @ di # zs"
      and ud: "\<forall>f. upd_first (\<lambda>x. di_Name x = db) f (d_Databases d) = ys @ f di # zs"
    unfolding Data_Database_def by (rule find_split)
  let ?h = "\<lambda>di. concat (map rpi_ShardGroups (di_RetentionPolicies di))"
  show ?thesis
  proof (rule that [of "mset (concat (map ?h ys)) + mset (concat (map ?h zs))"])
    show "mset (all_groups d) = mset (concat (map ?h ys)) + mset (concat (map ?h zs)) + mset (?h di)"
      by (simp add: all_groups_alt d)
    show "\<forall>f. mset (all_groups (on_database db f d)) =
        mset (concat (map ?h ys)) + mset (concat (map ?h zs)) + mset (?h (f di))"
      by (simp add: all_groups_alt on_database_def ud)
  qed
qed

lemma data_wf_on_database_sub:
  assumes wf: "data_wf d" and di: "Data_Database d db = Some di"
    and "\<And>x. di_Name (f x) = di_Name x" and "database_wf di \<Longrightarrow> database_wf (f di)"
    and sub: "mset (concat (map rpi_ShardGroups (di_RetentionPolicies (f di)))) \<subseteq>#
              mset (concat (map rpi_ShardGroups (di_RetentionPolicies di)))"
  shows "data_wf (on_database db f d)"
proof -
  from di obtain R where R: "mset (all_groups d) = R + mset (concat (map rpi_ShardGroups (di_RetentionPolicies di)))"
      and F: "\<forall>f. mset (all_groups (on_database db f d)) =
              R + mset (concat (map rpi_ShardGroups (di_RetentionPolicies (f di))))"
    by (rule all_groups_on_database)
  have "mset (all_groups (on_database db f d)) \<subseteq># mset (all_groups d)"
    unfolding R F [rule_format] using sub by (rule subset_mset.add_left_mono)
  moreover from wf have "groups_wf (all_groups d) (d_Nodes d) (d_MaxShardGroupID d) (d_MaxShardID d)"
    by (simp add: data_wf_def)
  ultimately have "groups_wf (all_groups (on_database db f d)) (d_Nodes d) (d_MaxShardGroupID d) (d_MaxShardID d)"
    by (rule groups_wf_mono [rotated])
  moreover have "names_wf (on_database db f d)"
    using wf assms(2-4) by (intro names_wf_on_database) (simp_all add: data_wf_def)
  ultimately show ?thesis using wf by (simp add: data_wf_def)
qed


lemma data_wf_CreateRetentionPolicy:
  assumes wf: "data_wf d" and op: "Data_CreateRetentionPolicy db rpi d = Inr d'"
  shows "data_wf d'"
proof -
  let ?rp = "\<lparr>rpi_Name = rpi_Name rpi, rpi_ReplicaN = rpi_ReplicaN rpi, rpi_Duration = rpi_Duration rpi,
    rpi_ShardGroupDuration = shardGroupDuration (rpi_Duration rpi), rpi_ShardGroups = [],
    rpi_Subscriptions = []\<rparr>"
  let ?f = "\<lambda>di. di\<lparr>di_RetentionPolicies := di_RetentionPolicies di @ [?rp]\<rparr>"
  from op obtain di where r: "1 \<le> rpi_ReplicaN rpi" and di: "Data_Database d db = Some di"
      and new: "List.find (\<lambda>x. rpi_Name x = rpi_Name ?rp) (di_RetentionPolicies di) = None"
      and d': "d' = on_database db ?f d"
    by (auto simp: Data_CreateRetentionPolicy_def DatabaseInfo_RetentionPolicy_def
        split: if_splits option.splits)
  have "policy_wf ?rp" using r by (simp add: policy_wf_def)
  with policies.distinct_insert [of di ?rp, OF _ new]
  have "database_wf di \<Longrightarrow> database_wf (?f di)" by (simp add: database_wf_def)
  with wf di show ?thesis unfolding d' by (intro data_wf_on_database_sub) simp_all
qed

lemma data_wf_DropRetentionPolicy:
  assumes wf: "data_wf d" and op: "Data_DropRetentionPolicy db name d = Inr d'"
  shows "data_wf d'"
proof -
  from op obtain di rps where di: "Data_Database d db = Some di"
      and del: "del_first (\<lambda>rp. rpi_Name rp = name) (di_RetentionPolicies di) = Some rps"
      and d': "d' = on_database db (\<lambda>di. di\<lparr>di_RetentionPolicies := rps\<rparr>) d"
    by (auto simp: Data_DropRetentionPolicy_def split: if_splits option.splits)
  have "database_wf di \<Longrightarrow> database_wf (di\<lparr>di_RetentionPolicies := rps\<rparr>)"
    using set_del_first [OF del] distinct_map_del_first [OF del] by (auto simp: database_wf_def)
  with wf di show ?thesis
    unfolding d' using del_first_mset [OF del, of rpi_ShardGroups]
    by (intro data_wf_on_database_sub) simp_all
qed

lemma update_policy_frame [simp]:
  "rpi_ShardGroups (update_policy rpu rp) = rpi_ShardGroups rp"
  "rpi_Subscriptions (update_policy rpu rp) = rpi_Subscriptions rp"
  "rpi_Name (update_policy rpu rp) = (case rpu_Name rpu of None \<Rightarrow> rpi_Name rp | Some n \<Rightarrow> n)"
  by (auto simp: update_policy_def Let_def split: option.splits)

lemma policy_wf_update_policy:
  assumes "policy_wf rp" and "\<And>r. rpu_ReplicaN rpu = Some r \<Longrightarrow> 0 \<le> r"
  shows "policy_wf (update_policy rpu rp)"
  using assms by (auto simp: policy_wf_def update_policy_def Let_def split: option.splits)

lemma distinct_rename:
  assumes d: "distinct (map g xs)" and x: "List.find (\<lambda>x. g x = k) xs = Some x"
    and n: "g (f x) = k \<or> List.find (\<lambda>y. g y = g (f x)) xs = None"
  shows "distinct (map g (upd_first (\<lambda>x. g x = k) f xs))"
proof -
  from x obtain ys zs where xs: "xs = ys @ x # zs" and k: "g x = k"
      and u: "\<forall>f. upd_first (\<lambda>x. g x = k) f xs = ys @ f x # zs"
    by (rule find_split)
  from n d k have "g (f x) \<notin> g ` set (ys @ zs)"
    by (auto simp: xs find_None_iff)
  with d show ?thesis by (auto simp: u [unfolded xs] xs)
qed

lemma data_wf_UpdateRetentionPolicy:
  assumes wf: "data_wf d" and op: "Data_UpdateRetentionPolicy db name rpu d = Inr d'"
    and r: "\<And>r. rpu_ReplicaN rpu = Some r \<Longrightarrow> 0 \<le> r"
  shows "data_wf d'"
proof -
  from op obtain di rp where di: "Data_Database d db = Some di"
      and rp: "List.find (\<lambda>x. rpi_Name x = name) (di_RetentionPolicies di) = Some rp"
      and fresh: "case rpu_Name rpu of None \<Rightarrow> True | Some n \<Rightarrow> n = name \<or>
        List.find (\<lambda>x. rpi_Name x = n) (di_RetentionPolicies di) = None"
      and d': "d' = on_database db (on_policy name (update_policy rpu)) d"
    by (auto simp: Data_UpdateRetentionPolicy_def DatabaseInfo_RetentionPolicy_def
        split: if_splits option.splits)
  from rp have "rpi_Name rp = name" by (auto dest: find_mem)
  with fresh have "rpi_Name (update_policy rpu rp) = name \<or>
      List.find (\<lambda>x. rpi_Name x = rpi_Name (update_policy rpu rp)) (di_RetentionPolicies di) = None"
    by (auto split: option.splits)
  then have names: "distinct (map rpi_Name (di_RetentionPolicies di)) \<Longrightarrow>
      distinct (map rpi_Name (di_RetentionPolicies (on_policy name (update_policy rpu) di)))"
    unfolding on_policy_def by (simp add: distinct_rename [OF _ rp])
  have "database_wf di \<Longrightarrow> database_wf (on_policy name (update_policy rpu) di)"
    using names set_upd_first [of "\<lambda>x. rpi_Name x = name" "update_policy rpu" "di_RetentionPolicies di"]
    by (auto simp: database_wf_def on_policy_def intro: policy_wf_update_policy [OF _ r])
  with wf di show ?thesis
    unfolding d' by (intro data_wf_on_database) (simp_all add: on_policy_groups_same)
qed

lemma data_wf_SetDefaultRetentionPolicy:
  assumes wf: "data_wf d" and op: "Data_SetDefaultRetentionPolicy db name d = Inr d'"
  shows "data_wf d'"
proof -
  from op obtain di where di: "Data_Database d db = Some di"
      and d': "d' = on_database db (\<lambda>di. di\<lparr>di_DefaultRetentionPolicy := name\<rparr>) d"
    by (auto simp: Data_SetDefaultRetentionPolicy_def split: if_splits option.splits)
  with wf show ?thesis unfolding d'
    by (intro data_wf_on_database) (simp_all add: database_wf_def)
qed

section \<open>Continuous queries and subscriptions\<close>

lemma data_wf_CreateContinuousQuery:
  assumes wf: "data_wf d" and op: "Data_CreateContinuousQuery db name q d = Inr d'"
  shows "data_wf d'"
proof -
  let ?cq = "\<lparr>cqi_Name = name, cqi_Query = q\<rparr>"
  let ?f = "\<lambda>di. di\<lparr>di_ContinuousQueries := di_ContinuousQueries di @ [?cq]\<rparr>"
  from op obtain di where di: "Data_Database d db = Some di"
      and new: "List.find (\<lambda>x. cqi_Name x = cqi_Name ?cq) (di_ContinuousQueries di) = None"
      and d': "d' = on_database db ?f d"
    by (auto simp: Data_CreateContinuousQuery_def split: if_splits option.splits)
  from queries.distinct_insert [of di ?cq, OF _ new]
  have "database_wf di \<Longrightarrow> database_wf (?f di)" by (simp add: database_wf_def)
  with wf di show ?thesis unfolding d' by (intro data_wf_on_database) simp_all
qed

lemma data_wf_DropContinuousQuery:
  assumes wf: "data_wf d" and op: "Data_DropContinuousQuery db name d = Inr d'"
  shows "data_wf d'"
proof -
  from op obtain di cqs where di: "Data_Database d db = Some di"
      and del: "del_first (\<lambda>cq. cqi_Name cq = name) (di_ContinuousQueries di) = Some cqs"
      and d': "d' = on_database db (\<lambda>di. di\<lparr>di_ContinuousQueries := cqs\<rparr>) d"
    by (auto simp: Data_DropContinuousQuery_def split: option.splits)
  have "database_wf di \<Longrightarrow> database_wf (di\<lparr>di_ContinuousQueries := cqs\<rparr>)"
    using distinct_map_del_first [OF del, of cqi_Name] by (simp add: database_wf_def)
  with wf di show ?thesis unfolding d' by (intro data_wf_on_database) simp_all
qed

lemma data_wf_CreateSubscription:
  assumes wf: "data_wf d" and op: "Data_CreateSubscription db p name mode dests d = Inr d'"
  shows "data_wf d'"
proof -
  let ?s = "\<lparr>sub_Name = name, sub_Mode = mode, sub_Destinations = dests\<rparr>"
  let ?f = "\<lambda>rp. rp\<lparr>rpi_Subscriptions := rpi_Subscriptions rp @ [?s]\<rparr>"
  from op obtain rp where rp: "find_policy d db p = Inr rp"
      and new: "List.find (\<lambda>x. sub_Name x = sub_Name ?s) (rpi_Subscriptions rp) = None"
      and d': "d' = on_database db (on_policy p ?f) d"
    by (auto simp: Data_CreateSubscription_def split: if_splits sum.splits)
  from subscriptions.distinct_insert [of rp ?s, OF _ new]
  have "policy_wf rp \<Longrightarrow> policy_wf (?f rp)" by (simp add: policy_wf_def)
  with wf rp show ?thesis unfolding d' by (intro data_wf_on_policy) simp_all
qed

lemma Data_DropSubscription_Inr:
  assumes "Data_DropSubscription db p name d = Inr d'"
  obtains rp ss where "find_policy d db p = Inr rp"
    and "del_first (\<lambda>s. sub_Name s = name) (rpi_Subscriptions rp) = Some ss"
    and "d' = on_database db (on_policy p (\<lambda>rp. rp\<lparr>rpi_Subscriptions := ss\<rparr>)) d"
  using assms by (auto simp: Data_DropSubscription_def find_policy_def split: sum.splits option.splits)

lemma data_wf_DropSubscription:
  assumes wf: "data_wf d" and op: "Data_DropSubscription db p name d = Inr d'"
  shows "data_wf d'"
proof -
  from op obtain rp ss where rp: "find_policy d db p = Inr rp"
      and del: "del_first (\<lambda>s. sub_Name s = name) (rpi_Subscriptions rp) = Some ss"
      and d': "d' = on_database db (on_policy p (\<lambda>rp. rp\<lparr>rpi_Subscriptions := ss\<rparr>)) d"
    by (rule Data_DropSubscription_Inr)
  have "policy_wf rp \<Longrightarrow> policy_wf (rp\<lparr>rpi_Subscriptions := ss\<rparr>)"
    using distinct_map_del_first [OF del, of sub_Name] by (simp add: policy_wf_def)
  with wf rp show ?thesis unfolding d' by (intro data_wf_on_policy) simp_all
qed

end
