(* ===== verification/Meta_Groups.thy ===== *)
theory Meta_Groups
  imports Meta_Preserve
begin

text \<open>
  Preservation of the catalogue invariant by the operations on shard groups and on users, which
  completes the list of \<^verbatim>\<open>Meta_Preserve\<close>.  Creating a shard group is the only
  operation that allocates shard identifiers, so this is where the freshness of the counters matters.
\<close>

section \<open>Shard groups\<close>

lemma fresh_ids:
  fixes m :: u64
  assumes "unat m + n < 2 ^ 64"
  shows "distinct (map (\<lambda>i. m + of_nat (Suc i)) [0..<n])"
    and "x \<in> (\<lambda>i. m + of_nat (Suc i)) ` {0..<n} \<Longrightarrow> m < x \<and> x \<le> m + of_nat n"
proof -
  have u: "unat (m + of_nat (Suc i)) = unat m + Suc i" if "i < n" for i
    using that assms by (intro unat_add_nowrap) simp
  have "inj_on (\<lambda>i. m + of_nat (Suc i)) {0..<n}"
  proof (rule inj_onI)
    fix i j assume ij: "i \<in> {0..<n}" "j \<in> {0..<n}" and "m + of_nat (Suc i) = m + of_nat (Suc j)"
    then have "unat (m + of_nat (Suc i)) = unat (m + of_nat (Suc j))" by (rule_tac arg_cong)
    then have "unat m + Suc i = unat m + Suc j" using u [of i] u [of j] ij by (simp only: atLeastLessThan_iff)
    then show "i = j" by simp
  qed
  then show "distinct (map (\<lambda>i. m + of_nat (Suc i)) [0..<n])" by (simp add: distinct_map)
  show "m < x \<and> x \<le> m + of_nat n" if "x \<in> (\<lambda>i. m + of_nat (Suc i)) ` {0..<n}"
  proof -
    from that obtain i where i: "i < n" and x: "x = m + of_nat (Suc i)" by (auto simp del: of_nat_Suc)
    have "unat m < unat x \<and> unat x \<le> unat (m + of_nat n)"
      using i unfolding x u [OF i] unat_add_nowrap [OF assms] by linarith
    then show ?thesis by (simp only: word_less_nat_alt word_le_nat_alt)
  qed
qed

lemma groups_wf_Cons:
  assumes wf: "groups_wf gs ns mg ms" and mg: "unat mg + 1 < 2 ^ 64" and ms: "unat ms + n < 2 ^ 64"
    and g: "sgi_ID g = mg + 1" and ids: "map si_ID (sgi_Shards g) = map (\<lambda>i. ms + of_nat (Suc i)) [0..<n]"
    and sh: "\<forall>si\<in>set (sgi_Shards g). shard_wf ns si"
  shows "groups_wf (g # gs) ns (mg + 1) (ms + of_nat n)"
proof -
  have lt: "y \<le> mg \<Longrightarrow> y < mg + 1" for y
    using less_add_nowrap [of mg 1 y] mg by simp
  have le: "y \<le> ms \<Longrightarrow> y \<le> ms + of_nat n" for y
    using ms by (rule le_add_nowrap)
  from wf have gs: "distinct (map sgi_ID gs)" "\<forall>h\<in>set gs. sgi_ID h \<le> mg"
    and ss: "distinct (map si_ID (shards_of gs))" "\<forall>si\<in>set (shards_of gs). si_ID si \<le> ms \<and> shard_wf ns si"
    by (simp_all add: groups_wf_def)
  have new: "m \<in> si_ID ` set (sgi_Shards g) \<Longrightarrow> ms < m \<and> m \<le> ms + of_nat n" for m
    using fresh_ids(2) [OF ms, of m] arg_cong [OF ids, of set] by simp
  have old: "m \<in> si_ID ` set (shards_of gs) \<Longrightarrow> m \<le> ms" for m using ss(2) by auto
  have "mg + 1 \<notin> sgi_ID ` set gs" using gs(2) lt by force
  moreover have "si_ID ` set (sgi_Shards g) \<inter> si_ID ` set (shards_of gs) = {}"
    unfolding disjoint_iff by (intro allI impI notI) (drule new, drule old, auto dest: leD)
  moreover have "distinct (map si_ID (sgi_Shards g))"
    unfolding ids by (rule fresh_ids(1) [OF ms])
  moreover have "shards_of (g # gs) = sgi_Shards g @ shards_of gs"
    by (simp add: shards_of_def)
  moreover have "\<forall>h\<in>set gs. sgi_ID h \<le> mg + 1" using gs(2) lt less_imp_le by blast
  moreover have "\<forall>si\<in>set (sgi_Shards g). si_ID si \<le> ms + of_nat n" using new by blast
  moreover have "\<forall>si\<in>set (shards_of gs). si_ID si \<le> ms + of_nat n \<and> shard_wf ns si"
    using ss(2) le by blast
  ultimately show ?thesis
    using gs(1) ss(1) sh by (simp add: groups_wf_def g ball_Un)
qed

lemma new_shard_group_shard_wf:
  assumes "d_Nodes d \<noteq> []" and "0 \<le> rpi_ReplicaN rpi" and "distinct (map ni_ID (d_Nodes d))"
    and si: "si \<in> set (sgi_Shards (new_shard_group rpi t d))"
  shows "shard_wf (d_Nodes d) si"
proof -
  have "distinct (concat (map (map so_NodeID \<circ> si_Owners) (sgi_Shards (new_shard_group rpi t d))))"
    using new_shard_group_distinct_owners [OF assms(1-3)] by (simp add: map_concat comp_def)
  with si have "distinct (map so_NodeID (si_Owners si))"
    by (auto simp: distinct_concat_iff)
  moreover have "so_NodeID ` set (si_Owners si) \<subseteq> ni_ID ` set (d_Nodes d)"
    using si node_at_known [OF assms(1)]
    by (auto simp: new_shard_group_shards [OF assms(1,2)])
  ultimately show ?thesis by (simp add: shard_wf_def)
qed

lemma all_groups_CreateShardGroup:
  assumes "find_policy d db p = Inr rpi"
  shows "mset (all_groups (on_database db (on_policy p (\<lambda>rp. rp\<lparr>rpi_ShardGroups :=
      sort_groups (rpi_ShardGroups rp @ [g])\<rparr>)) d)) = mset (g # all_groups d)"
proof -
  from assms obtain R where R: "mset (all_groups d) = R + mset (rpi_ShardGroups rpi)"
      and F: "\<forall>f. mset (all_groups (on_database db (on_policy p f) d)) = R + mset (rpi_ShardGroups (f rpi))"
    by (rule all_groups_on_policy)
  show ?thesis unfolding F [rule_format] mset.simps R by simp
qed

lemma data_wf_CreateShardGroup:
  assumes wf: "data_wf d" and op: "Data_CreateShardGroup db p t d = Inr d'"
    and ng: "unat (d_MaxShardGroupID d) + 1 < 2 ^ 64"
    and ns: "unat (d_MaxShardID d) + length (d_Nodes d) < 2 ^ 64"
  shows "data_wf d'"
proof -
  from op obtain rpi where n: "d_Nodes d \<noteq> []" and rp: "find_policy d db p = Inr rpi"
    and d': "d' = on_database db (on_policy p (\<lambda>rp. rp\<lparr>rpi_ShardGroups :=
               sort_groups (rpi_ShardGroups rp @ [new_shard_group rpi t d])\<rparr>))
             (d\<lparr>d_MaxShardGroupID := d_MaxShardGroupID d + 1,
                d_MaxShardID := snd (new_shards (nat (go_quot (int (length (d_Nodes d)))
                   (effective_replicaN rpi d))) (d_MaxShardID d))\<rparr>)"
    by (rule Data_CreateShardGroup_Inr)
  let ?k = "length (d_Nodes d) div replicas rpi d"
  let ?e = "d\<lparr>d_MaxShardGroupID := d_MaxShardGroupID d + 1, d_MaxShardID := d_MaxShardID d + of_nat ?k\<rparr>"
  from wf rp have pw: "policy_wf rpi"
    by (auto simp: find_policy_Inr data_wf_def names_wf_def database_wf_def Data_Database_def
        DatabaseInfo_RetentionPolicy_def dest!: find_mem)
  then have r: "0 \<le> rpi_ReplicaN rpi" by (simp add: policy_wf_def)
  have q: "nat (go_quot (int (length (d_Nodes d))) (effective_replicaN rpi d)) = ?k"
    using replicas_bounds [OF n r] by (simp add: go_quot_nonneg nat_div_distrib)
  have e: "d' = on_database db (on_policy p (\<lambda>rp. rp\<lparr>rpi_ShardGroups :=
               sort_groups (rpi_ShardGroups rp @ [new_shard_group rpi t d])\<rparr>)) ?e"
    unfolding d' q by (simp add: new_shards_eq)
  have rp': "find_policy ?e db p = Inr rpi" using rp by simp
  have dist: "distinct (map ni_ID (d_Nodes d))" using wf by (simp add: data_wf_def nodes_wf_def)
  have k: "unat (d_MaxShardID d) + ?k < 2 ^ 64"
    using ns div_le_dividend [of "length (d_Nodes d)" "replicas rpi d"] by linarith
  have ids: "map si_ID (sgi_Shards (new_shard_group rpi t d)) =
      map (\<lambda>i. d_MaxShardID d + of_nat (Suc i)) [0..<?k]"
    by (simp add: new_shard_group_shards [OF n r])
  have "groups_wf (new_shard_group rpi t d # all_groups d) (d_Nodes d)
      (d_MaxShardGroupID d + 1) (d_MaxShardID d + of_nat ?k)"
    using wf ng k ids new_shard_group_shard_wf [OF n r dist]
    by (intro groups_wf_Cons) (simp_all add: data_wf_def)
  moreover have "mset (all_groups d') = mset (new_shard_group rpi t d # all_groups d)"
    unfolding e all_groups_CreateShardGroup [OF rp'] by (simp add: all_groups_cong [of ?e d])
  ultimately have "groups_wf (all_groups d') (d_Nodes d) (d_MaxShardGroupID d + 1) (d_MaxShardID d + of_nat ?k)"
    using groups_wf_mset by blast
  moreover have "names_wf d'"
    unfolding e using rp' wf pw
    by (intro names_wf_on_policy) (auto simp: data_wf_def names_wf_def policy_wf_def)
  moreover have "nodes_wf d'" using wf by (simp add: e data_wf_def nodes_wf_def)
  ultimately show ?thesis by (simp add: data_wf_def e)
qed

lemma groups_wf_cong:
  assumes "map (\<lambda>g. (sgi_ID g, sgi_Shards g)) gs = map (\<lambda>g. (sgi_ID g, sgi_Shards g)) hs"
  shows "groups_wf gs ns mg ms = groups_wf hs ns mg ms"
proof -
  have "map fst (map (\<lambda>g. (sgi_ID g, sgi_Shards g)) gs) = map fst (map (\<lambda>g. (sgi_ID g, sgi_Shards g)) hs)"
    and "map snd (map (\<lambda>g. (sgi_ID g, sgi_Shards g)) gs) = map snd (map (\<lambda>g. (sgi_ID g, sgi_Shards g)) hs)"
    by (simp_all only: assms)
  then have ids: "map sgi_ID gs = map sgi_ID hs" and sh: "map sgi_Shards gs = map sgi_Shards hs"
    by (simp_all add: comp_def)
  have "(\<forall>g\<in>set xs. sgi_ID g \<le> mg) = (\<forall>i\<in>set (map sgi_ID xs). i \<le> mg)" for xs :: "ShardGroupInfo list"
    by simp
  then show ?thesis by (simp only: groups_wf_def shards_of_def ids sh)
qed

lemma all_groups_on_policy_map:
  assumes "\<And>rp. map h (rpi_ShardGroups (f rp)) = map h (rpi_ShardGroups rp)"
  shows "map h (all_groups (on_database db (on_policy p f) d)) = map h (all_groups d)"
proof -
  let ?a = "\<lambda>rp. map h (rpi_ShardGroups rp)"
  let ?b = "\<lambda>di. concat (map ?a (di_RetentionPolicies di))"
  have "map ?a (upd_first (\<lambda>rp. rpi_Name rp = p) f rps) = map ?a rps" for rps
    by (rule map_upd_first) (rule assms)
  then have "?b (on_policy p f di) = ?b di" for di
    by (simp add: on_policy_def)
  then have "map ?b (upd_first (\<lambda>di. di_Name di = db) (on_policy p f) dis) = map ?b dis" for dis
    by (intro map_upd_first)
  then show ?thesis
    by (simp add: all_groups_alt on_database_def map_concat comp_def)
qed

lemma data_wf_DeleteShardGroup:
  assumes wf: "data_wf d" and op: "Data_DeleteShardGroup now db p gid d = Inr d'"
  shows "data_wf d'"
proof -
  let ?u = "upd_first (\<lambda>g. sgi_ID g = gid) (\<lambda>g. g\<lparr>sgi_DeletedAt := now\<rparr>)"
  let ?f = "\<lambda>rp. rp\<lparr>rpi_ShardGroups := ?u (rpi_ShardGroups rp)\<rparr>"
  from op obtain rpi where rp: "find_policy d db p = Inr rpi" and d': "d' = on_database db (on_policy p ?f) d"
    by (auto simp: Data_DeleteShardGroup_def split: sum.splits if_splits)
  have start: "map sgi_StartTime (?u gs) = map sgi_StartTime gs" for gs
    by (rule map_upd_first) simp
  have "names_wf d'"
    unfolding d' using rp wf
    by (intro names_wf_on_policy) (simp_all add: data_wf_def policy_wf_def start)
  moreover have "map (\<lambda>g. (sgi_ID g, sgi_Shards g)) (all_groups d') =
      map (\<lambda>g. (sgi_ID g, sgi_Shards g)) (all_groups d)"
    unfolding d' by (rule all_groups_on_policy_map) (simp add: map_upd_first)
  then have "groups_wf (all_groups d') (d_Nodes d) (d_MaxShardGroupID d) (d_MaxShardID d) =
      groups_wf (all_groups d) (d_Nodes d) (d_MaxShardGroupID d) (d_MaxShardID d)"
    by (rule groups_wf_cong)
  ultimately show ?thesis using wf by (simp add: data_wf_def d')
qed

section \<open>Users\<close>

lemma data_wf_users:
  assumes wf: "data_wf d" and "distinct (map ui_Name us)" and "\<forall>ui\<in>set us. ui_Name ui \<noteq> ''''"
  shows "data_wf (d\<lparr>d_Users := us\<rparr>)"
proof -
  have "all_groups (d\<lparr>d_Users := us\<rparr>) = all_groups d" by (rule all_groups_cong) simp
  with assms show ?thesis by (simp add: data_wf_def nodes_wf_def names_wf_def)
qed

lemma data_wf_CreateUser:
  assumes wf: "data_wf d" and op: "Data_CreateUser name hash admin d = Inr d'"
  shows "data_wf d'"
proof -
  let ?u = "\<lparr>ui_Name = name, ui_Hash = hash, ui_Admin = admin, ui_Privileges = []\<rparr>"
  from op have new: "name \<noteq> ''''" "List.find (\<lambda>x. ui_Name x = ui_Name ?u) (d_Users d) = None"
      and d': "d' = d\<lparr>d_Users := d_Users d @ [?u]\<rparr>"
    by (auto simp: Data_CreateUser_def Data_User_def split: if_splits)
  from wf users.distinct_insert [of d ?u, OF _ new(2)] new(1) show ?thesis
    unfolding d' by (intro data_wf_users) (auto simp: data_wf_def names_wf_def)
qed

lemma data_wf_DropUser:
  assumes wf: "data_wf d" and op: "Data_DropUser name d = Inr d'"
  shows "data_wf d'"
proof -
  from op obtain us where del: "del_first (\<lambda>ui. ui_Name ui = name) (d_Users d) = Some us"
      and d': "d' = d\<lparr>d_Users := us\<rparr>"
    by (auto simp: Data_DropUser_def split: option.splits)
  from wf show ?thesis
    unfolding d' using set_del_first [OF del] distinct_map_del_first [OF del, of ui_Name]
    by (intro data_wf_users) (auto simp: data_wf_def names_wf_def)
qed

lemma data_wf_on_user:
  assumes wf: "data_wf d" and f: "\<And>x. ui_Name (f x) = ui_Name x"
  shows "data_wf (on_user name f d)"
proof -
  have m: "map ui_Name (upd_first (\<lambda>ui. ui_Name ui = name) f (d_Users d)) = map ui_Name (d_Users d)"
    by (rule map_upd_first) (rule f)
  then have "ui_Name ` set (upd_first (\<lambda>ui. ui_Name ui = name) f (d_Users d)) = ui_Name ` set (d_Users d)"
    by (metis list.set_map)
  then have "'''' \<notin> ui_Name ` set (upd_first (\<lambda>ui. ui_Name ui = name) f (d_Users d))"
    using wf by (auto simp: data_wf_def names_wf_def)
  then have "\<forall>ui\<in>set (upd_first (\<lambda>ui. ui_Name ui = name) f (d_Users d)). ui_Name ui \<noteq> ''''"
    by (metis imageI)
  with wf m show ?thesis
    unfolding on_user_def by (intro data_wf_users) (simp_all add: data_wf_def names_wf_def)
qed

lemma data_wf_UpdateUser:
  "data_wf d \<Longrightarrow> Data_UpdateUser name hash d = Inr d' \<Longrightarrow> data_wf d'"
  by (auto simp: Data_UpdateUser_def split: if_splits intro!: data_wf_on_user)

lemma data_wf_SetPrivilege:
  "data_wf d \<Longrightarrow> Data_SetPrivilege name db p d = Inr d' \<Longrightarrow> data_wf d'"
  by (auto simp: Data_SetPrivilege_def split: if_splits intro!: data_wf_on_user)

lemma data_wf_SetAdminPrivilege:
  "data_wf d \<Longrightarrow> Data_SetAdminPrivilege name admin d = Inr d' \<Longrightarrow> data_wf d'"
  by (auto simp: Data_SetAdminPrivilege_def split: if_splits intro!: data_wf_on_user)

lemmas data_wf_preserved =
  data_wf_DeleteNode data_wf_CreateDatabase data_wf_DropDatabase
  data_wf_CreateRetentionPolicy data_wf_DropRetentionPolicy data_wf_SetDefaultRetentionPolicy
  data_wf_DeleteShardGroup data_wf_CreateContinuousQuery data_wf_DropContinuousQuery
  data_wf_CreateSubscription data_wf_DropSubscription data_wf_CreateUser data_wf_DropUser
  data_wf_UpdateUser data_wf_SetPrivilege data_wf_SetAdminPrivilege

end
