(* ===== verification/Meta_Wire.thy ===== *)
theory Meta_Wire
  imports Meta_Groups
begin

text \<open>
  The protobuf form of the metadata: the messages of \<open>meta/internal/meta.proto\<close> as records and
  the \<open>marshal\<close>/\<open>unmarshal\<close> methods of \<open>meta/data.go\<close>.  A \<open>required\<close> field is its value, a
  \<open>repeated\<close> field a list, \<open>uint32\<close> and \<open>int32\<close> fields are 32-bit words, \<open>int64\<close> fields the
  integer they denote.  The main result is the exact form of the round trip: what comes back
  is the metadata without its subscriptions, for the values the wire format can carry.
  The protobuf library itself is a parameter.
\<close>

section \<open>Messages\<close>

record pbNodeInfo =
  pbn_ID :: u64
  pbn_Host :: string

record pbShardOwner =
  pbo_NodeID :: u64

record pbShardInfo =
  pbs_ID :: u64
  pbs_OwnerIDs :: "u64 list"
  pbs_Owners :: "pbShardOwner list"

record pbShardGroupInfo =
  pbg_ID :: u64
  pbg_StartTime :: int
  pbg_EndTime :: int
  pbg_DeletedAt :: int
  pbg_Shards :: "pbShardInfo list"

record pbSubscriptionInfo =
  pbu_Name :: string
  pbu_Mode :: string
  pbu_Destinations :: "string list"

record pbContinuousQueryInfo =
  pbq_Name :: string
  pbq_Query :: string

record pbRetentionPolicyInfo =
  pbr_Name :: string
  pbr_Duration :: int
  pbr_ShardGroupDuration :: int
  pbr_ReplicaN :: "32 word"
  pbr_ShardGroups :: "pbShardGroupInfo list"
  pbr_Subscriptions :: "pbSubscriptionInfo list"

record pbDatabaseInfo =
  pbd_Name :: string
  pbd_DefaultRetentionPolicy :: string
  pbd_RetentionPolicies :: "pbRetentionPolicyInfo list"
  pbd_ContinuousQueries :: "pbContinuousQueryInfo list"

record pbUserPrivilege =
  pbp_Database :: string
  pbp_Privilege :: "32 word"

record pbUserInfo =
  pbx_Name :: string
  pbx_Hash :: string
  pbx_Admin :: bool
  pbx_Privileges :: "pbUserPrivilege list"

record pbData =
  pb_Term :: u64
  pb_Index :: u64
  pb_ClusterID :: u64
  pb_Nodes :: "pbNodeInfo list"
  pb_Databases :: "pbDatabaseInfo list"
  pb_Users :: "pbUserInfo list"
  pb_MaxNodeID :: u64
  pb_MaxShardGroupID :: u64
  pb_MaxShardID :: u64

section \<open>Times\<close>

definition MarshalTime :: "time \<Rightarrow> int" where
  "MarshalTime t = (if time_IsZero t then 0 else time_UnixNano t)"

definition UnmarshalTime :: "int \<Rightarrow> time" where
  "UnmarshalTime v = (if v = 0 then 0 else time_Unix0 v)"

section \<open>Conversions\<close>

definition NodeInfo_marshal :: "NodeInfo \<Rightarrow> pbNodeInfo" where
  "NodeInfo_marshal ni = \<lparr>pbn_ID = ni_ID ni, pbn_Host = ni_Host ni\<rparr>"

definition NodeInfo_unmarshal :: "pbNodeInfo \<Rightarrow> NodeInfo" where
  "NodeInfo_unmarshal pb = \<lparr>ni_ID = pbn_ID pb, ni_Host = pbn_Host pb\<rparr>"

definition ShardOwner_marshal :: "ShardOwner \<Rightarrow> pbShardOwner" where
  "ShardOwner_marshal so = \<lparr>pbo_NodeID = so_NodeID so\<rparr>"

definition ShardOwner_unmarshal :: "pbShardOwner \<Rightarrow> ShardOwner" where
  "ShardOwner_unmarshal pb = \<lparr>so_NodeID = pbo_NodeID pb\<rparr>"

definition ShardInfo_marshal :: "ShardInfo \<Rightarrow> pbShardInfo" where
  "ShardInfo_marshal si =
     \<lparr>pbs_ID = si_ID si, pbs_OwnerIDs = [], pbs_Owners = map ShardOwner_marshal (si_Owners si)\<rparr>"

text \<open>The deprecated \<open>OwnerIDs\<close> win over \<open>Owners\<close> when there are any.\<close>

definition ShardInfo_unmarshal :: "pbShardInfo \<Rightarrow> ShardInfo" where
  "ShardInfo_unmarshal pb =
     \<lparr>si_ID = pbs_ID pb,
      si_Owners = (if length (pbs_OwnerIDs pb) > 0
                   then map (\<lambda>x. ShardOwner_unmarshal \<lparr>pbo_NodeID = x\<rparr>) (pbs_OwnerIDs pb)
                   else if length (pbs_Owners pb) > 0 then map ShardOwner_unmarshal (pbs_Owners pb)
                   else [])\<rparr>"

definition ShardGroupInfo_marshal :: "ShardGroupInfo \<Rightarrow> pbShardGroupInfo" where
  "ShardGroupInfo_marshal sgi =
     \<lparr>pbg_ID = sgi_ID sgi, pbg_StartTime = MarshalTime (sgi_StartTime sgi),
      pbg_EndTime = MarshalTime (sgi_EndTime sgi), pbg_DeletedAt = MarshalTime (sgi_DeletedAt sgi),
      pbg_Shards = map ShardInfo_marshal (sgi_Shards sgi)\<rparr>"

definition ShardGroupInfo_unmarshal :: "pbShardGroupInfo \<Rightarrow> ShardGroupInfo" where
  "ShardGroupInfo_unmarshal pb =
     \<lparr>sgi_ID = pbg_ID pb, sgi_StartTime = UnmarshalTime (pbg_StartTime pb),
      sgi_EndTime = UnmarshalTime (pbg_EndTime pb), sgi_DeletedAt = UnmarshalTime (pbg_DeletedAt pb),
      sgi_Shards = (if length (pbg_Shards pb) > 0 then map ShardInfo_unmarshal (pbg_Shards pb) else [])\<rparr>"

definition SubscriptionInfo_marshal :: "SubscriptionInfo \<Rightarrow> pbSubscriptionInfo" where
  "SubscriptionInfo_marshal si =
     \<lparr>pbu_Name = sub_Name si, pbu_Mode = sub_Mode si,
      pbu_Destinations = map (\<lambda>h. h) (sub_Destinations si)\<rparr>"

definition SubscriptionInfo_unmarshal :: "pbSubscriptionInfo \<Rightarrow> SubscriptionInfo" where
  "SubscriptionInfo_unmarshal pb =
     \<lparr>sub_Name = pbu_Name pb, sub_Mode = pbu_Mode pb,
      sub_Destinations = (if length (pbu_Destinations pb) > 0 then map (\<lambda>h. h) (pbu_Destinations pb) else [])\<rparr>"

definition ContinuousQueryInfo_marshal :: "ContinuousQueryInfo \<Rightarrow> pbContinuousQueryInfo" where
  "ContinuousQueryInfo_marshal cqi = \<lparr>pbq_Name = cqi_Name cqi, pbq_Query = cqi_Query cqi\<rparr>"

definition ContinuousQueryInfo_unmarshal :: "pbContinuousQueryInfo \<Rightarrow> ContinuousQueryInfo" where
  "ContinuousQueryInfo_unmarshal pb = \<lparr>cqi_Name = pbq_Name pb, cqi_Query = pbq_Query pb\<rparr>"

text \<open>\<open>RetentionPolicyInfo.marshal\<close> leaves the message's \<open>Subscriptions\<close> empty.\<close>

definition RetentionPolicyInfo_marshal :: "RetentionPolicyInfo \<Rightarrow> pbRetentionPolicyInfo" where
  "RetentionPolicyInfo_marshal rpi =
     \<lparr>pbr_Name = rpi_Name rpi, pbr_Duration = rpi_Duration rpi,
      pbr_ShardGroupDuration = rpi_ShardGroupDuration rpi,
      pbr_ReplicaN = word_of_int (rpi_ReplicaN rpi),
      pbr_ShardGroups = map ShardGroupInfo_marshal (rpi_ShardGroups rpi),
      pbr_Subscriptions = []\<rparr>"

definition RetentionPolicyInfo_unmarshal :: "pbRetentionPolicyInfo \<Rightarrow> RetentionPolicyInfo" where
  "RetentionPolicyInfo_unmarshal pb =
     \<lparr>rpi_Name = pbr_Name pb, rpi_ReplicaN = uint (pbr_ReplicaN pb),
      rpi_Duration = pbr_Duration pb, rpi_ShardGroupDuration = pbr_ShardGroupDuration pb,
      rpi_ShardGroups = (if length (pbr_ShardGroups pb) > 0
                         then map ShardGroupInfo_unmarshal (pbr_ShardGroups pb) else []),
      rpi_Subscriptions = (if length (pbr_Subscriptions pb) > 0
                           then map SubscriptionInfo_unmarshal (pbr_Subscriptions pb) else [])\<rparr>"

definition DatabaseInfo_marshal :: "DatabaseInfo \<Rightarrow> pbDatabaseInfo" where
  "DatabaseInfo_marshal di =
     \<lparr>pbd_Name = di_Name di, pbd_DefaultRetentionPolicy = di_DefaultRetentionPolicy di,
      pbd_RetentionPolicies = map RetentionPolicyInfo_marshal (di_RetentionPolicies di),
      pbd_ContinuousQueries = map ContinuousQueryInfo_marshal (di_ContinuousQueries di)\<rparr>"

definition DatabaseInfo_unmarshal :: "pbDatabaseInfo \<Rightarrow> DatabaseInfo" where
  "DatabaseInfo_unmarshal pb =
     \<lparr>di_Name = pbd_Name pb, di_DefaultRetentionPolicy = pbd_DefaultRetentionPolicy pb,
      di_RetentionPolicies = (if length (pbd_RetentionPolicies pb) > 0
                              then map RetentionPolicyInfo_unmarshal (pbd_RetentionPolicies pb) else []),
      di_ContinuousQueries = (if length (pbd_ContinuousQueries pb) > 0
                              then map ContinuousQueryInfo_unmarshal (pbd_ContinuousQueries pb) else [])\<rparr>"

definition UserInfo_marshal :: "UserInfo \<Rightarrow> pbUserInfo" where
  "UserInfo_marshal ui =
     \<lparr>pbx_Name = ui_Name ui, pbx_Hash = ui_Hash ui, pbx_Admin = ui_Admin ui,
      pbx_Privileges = map (\<lambda>(database, privilege).
        \<lparr>pbp_Database = database, pbp_Privilege = word_of_int privilege\<rparr>) (ui_Privileges ui)\<rparr>"

definition UserInfo_unmarshal :: "pbUserInfo \<Rightarrow> UserInfo" where
  "UserInfo_unmarshal pb =
     \<lparr>ui_Name = pbx_Name pb, ui_Hash = pbx_Hash pb, ui_Admin = pbx_Admin pb,
      ui_Privileges = fold (\<lambda>p m. AList.update (pbp_Database p) (sint (pbp_Privilege p)) m)
        (pbx_Privileges pb) []\<rparr>"

definition Data_marshal :: "Data \<Rightarrow> pbData" where
  "Data_marshal d =
     \<lparr>pb_Term = d_Term d, pb_Index = d_Index d, pb_ClusterID = d_ClusterID d,
      pb_Nodes = map NodeInfo_marshal (d_Nodes d),
      pb_Databases = map DatabaseInfo_marshal (d_Databases d),
      pb_Users = map UserInfo_marshal (d_Users d),
      pb_MaxNodeID = d_MaxNodeID d, pb_MaxShardGroupID = d_MaxShardGroupID d,
      pb_MaxShardID = d_MaxShardID d\<rparr>"

definition Data_unmarshal :: "pbData \<Rightarrow> Data" where
  "Data_unmarshal pb =
     \<lparr>d_Term = pb_Term pb, d_Index = pb_Index pb, d_ClusterID = pb_ClusterID pb,
      d_Nodes = map NodeInfo_unmarshal (pb_Nodes pb),
      d_Databases = map DatabaseInfo_unmarshal (pb_Databases pb),
      d_Users = map UserInfo_unmarshal (pb_Users pb),
      d_MaxNodeID = pb_MaxNodeID pb, d_MaxShardGroupID = pb_MaxShardGroupID pb,
      d_MaxShardID = pb_MaxShardID pb\<rparr>"

text \<open>\<open>proto.Marshal\<close> and \<open>proto.Unmarshal\<close> are the arguments \<open>enc\<close> and \<open>dec\<close>.\<close>

definition Data_MarshalBinary :: "(pbData \<Rightarrow> 'e + byte list) \<Rightarrow> Data \<Rightarrow> 'e + byte list" where
  "Data_MarshalBinary enc d = enc (Data_marshal d)"

definition Data_UnmarshalBinary :: "(byte list \<Rightarrow> 'e + pbData) \<Rightarrow> byte list \<Rightarrow> 'e + Data" where
  "Data_UnmarshalBinary dec buf =
     (case dec buf of Inl e \<Rightarrow> Inl e | Inr pb \<Rightarrow> Inr (Data_unmarshal pb))"

lemmas [wire_defs] =
  NodeInfo_marshal_def NodeInfo_unmarshal_def ShardOwner_marshal_def ShardOwner_unmarshal_def
  ShardInfo_marshal_def ShardInfo_unmarshal_def ShardGroupInfo_marshal_def ShardGroupInfo_unmarshal_def
  SubscriptionInfo_marshal_def SubscriptionInfo_unmarshal_def
  ContinuousQueryInfo_marshal_def ContinuousQueryInfo_unmarshal_def
  RetentionPolicyInfo_marshal_def RetentionPolicyInfo_unmarshal_def
  DatabaseInfo_marshal_def DatabaseInfo_unmarshal_def UserInfo_marshal_def UserInfo_unmarshal_def

section \<open>What the wire format can carry\<close>

definition time_wire_ok :: "time \<Rightarrow> bool" where
  "time_wire_ok t \<longleftrightarrow> t = 0 \<or> (is_int64 (t - unix_epoch) \<and> t \<noteq> unix_epoch)"

definition group_wire_ok :: "ShardGroupInfo \<Rightarrow> bool" where
  "group_wire_ok g \<longleftrightarrow> time_wire_ok (sgi_StartTime g) \<and> time_wire_ok (sgi_EndTime g) \<and>
     time_wire_ok (sgi_DeletedAt g)"

definition policy_wire_ok :: "RetentionPolicyInfo \<Rightarrow> bool" where
  "policy_wire_ok rp \<longleftrightarrow> 0 \<le> rpi_ReplicaN rp \<and> rpi_ReplicaN rp < 2 ^ 32 \<and>
     list_all group_wire_ok (rpi_ShardGroups rp)"

definition user_wire_ok :: "UserInfo \<Rightarrow> bool" where
  "user_wire_ok ui \<longleftrightarrow> distinct (map fst (ui_Privileges ui)) \<and>
     list_all (\<lambda>(_, p). - (2 ^ 31) \<le> p \<and> p < 2 ^ 31) (ui_Privileges ui)"

definition data_wire_ok :: "Data \<Rightarrow> bool" where
  "data_wire_ok d \<longleftrightarrow> list_all policy_wire_ok (all_policies d) \<and> list_all user_wire_ok (d_Users d)"

definition drop_policy_subs :: "RetentionPolicyInfo \<Rightarrow> RetentionPolicyInfo" where
  "drop_policy_subs rp = rp\<lparr>rpi_Subscriptions := []\<rparr>"

definition drop_subscriptions :: "Data \<Rightarrow> Data" where
  "drop_subscriptions d = d\<lparr>d_Databases := map (\<lambda>di. di\<lparr>di_RetentionPolicies :=
     map drop_policy_subs (di_RetentionPolicies di)\<rparr>) (d_Databases d)\<rparr>"

section \<open>Round trips\<close>

lemma time_roundtrip_iff: "UnmarshalTime (MarshalTime t) = t \<longleftrightarrow> time_wire_ok t"
proof -
  have "t - unix_epoch = to_int64 (t - unix_epoch) \<longleftrightarrow> is_int64 (t - unix_epoch)"
    using is_int64_to_int64 [of "t - unix_epoch"] by (metis to_int64_id)
  moreover have "unix_epoch \<noteq> 0" by (simp add: unix_epoch_def)
  moreover have "to_int64 (t - unix_epoch) = 0 \<Longrightarrow> is_int64 (t - unix_epoch) \<Longrightarrow> t = unix_epoch"
    by (simp add: to_int64_id)
  ultimately show ?thesis
    by (auto simp: MarshalTime_def UnmarshalTime_def time_IsZero_def time_UnixNano_def
        time_Unix0_def time_wire_ok_def to_int64_id algebra_simps)
qed

lemma NodeInfo_roundtrip [simp]: "NodeInfo_unmarshal (NodeInfo_marshal x) = x"
  by (simp add: wire_defs)

lemma ShardOwner_roundtrip [simp]: "ShardOwner_unmarshal (ShardOwner_marshal x) = x"
  by (simp add: wire_defs)

lemma ShardInfo_roundtrip [simp]: "ShardInfo_unmarshal (ShardInfo_marshal x) = x"
  by (simp add: ShardInfo_marshal_def ShardInfo_unmarshal_def comp_def)

lemma ShardGroupInfo_roundtrip:
  "group_wire_ok g \<Longrightarrow> ShardGroupInfo_unmarshal (ShardGroupInfo_marshal g) = g"
  by (simp add: ShardGroupInfo_marshal_def ShardGroupInfo_unmarshal_def group_wire_ok_def
      time_roundtrip_iff comp_def)

lemma SubscriptionInfo_roundtrip [simp]: "SubscriptionInfo_unmarshal (SubscriptionInfo_marshal x) = x"
  by (simp add: wire_defs)

lemma ContinuousQueryInfo_roundtrip [simp]:
  "ContinuousQueryInfo_unmarshal (ContinuousQueryInfo_marshal x) = x"
  by (simp add: wire_defs)

lemma RetentionPolicyInfo_roundtrip:
  assumes "policy_wire_ok rp"
  shows "RetentionPolicyInfo_unmarshal (RetentionPolicyInfo_marshal rp) = drop_policy_subs rp"
proof -
  have "map (ShardGroupInfo_unmarshal \<circ> ShardGroupInfo_marshal) (rpi_ShardGroups rp) = rpi_ShardGroups rp"
    using assms by (intro map_idI) (simp add: policy_wire_ok_def list_all_iff ShardGroupInfo_roundtrip)
  moreover have "uint (word_of_int (rpi_ReplicaN rp) :: 32 word) = rpi_ReplicaN rp"
    using assms by (simp add: policy_wire_ok_def uint_word_of_int)
  ultimately show ?thesis
    by (simp add: RetentionPolicyInfo_marshal_def RetentionPolicyInfo_unmarshal_def drop_policy_subs_def)
qed

lemma DatabaseInfo_roundtrip:
  assumes "list_all policy_wire_ok (di_RetentionPolicies di)"
  shows "DatabaseInfo_unmarshal (DatabaseInfo_marshal di) =
    di\<lparr>di_RetentionPolicies := map drop_policy_subs (di_RetentionPolicies di)\<rparr>"
proof -
  have "map (RetentionPolicyInfo_unmarshal \<circ> RetentionPolicyInfo_marshal) (di_RetentionPolicies di)
      = map drop_policy_subs (di_RetentionPolicies di)"
    using assms by (intro map_cong) (simp_all add: list_all_iff RetentionPolicyInfo_roundtrip)
  then show ?thesis
    by (simp add: DatabaseInfo_marshal_def DatabaseInfo_unmarshal_def comp_def)
qed

text \<open>Filling an empty map with the pairs of another map gives that map back.\<close>

lemma sint_int32:
  assumes "- (2 ^ 31) \<le> p" and "p < 2 ^ 31"
  shows "sint (word_of_int p :: 32 word) = p"
  using assms by (simp add: int_word_sint)

lemma UserInfo_roundtrip:
  assumes "user_wire_ok ui"
  shows "UserInfo_unmarshal (UserInfo_marshal ui) = ui"
proof -
  let ?f = "\<lambda>p m. AList.update (pbp_Database p) (sint (pbp_Privilege p)) m"
  have "fold ?f (map (\<lambda>(database, privilege). \<lparr>pbp_Database = database,
      pbp_Privilege = word_of_int privilege\<rparr>) (ui_Privileges ui)) [] =
      fold (\<lambda>(k, v) m. AList.update k v m) (ui_Privileges ui) []"
    unfolding fold_map comp_def
    using assms by (intro List.fold_cong) (auto simp: user_wire_ok_def list_all_iff sint_int32 fun_eq_iff)
  also have "\<dots> = ui_Privileges ui"
    using fold_update_fresh [of "[]" "ui_Privileges ui"] assms by (simp add: user_wire_ok_def)
  finally show ?thesis by (simp add: UserInfo_marshal_def UserInfo_unmarshal_def)
qed

lemma Data_roundtrip:
  assumes "data_wire_ok d"
  shows "Data_unmarshal (Data_marshal d) = drop_subscriptions d"
proof -
  have "map (DatabaseInfo_unmarshal \<circ> DatabaseInfo_marshal) (d_Databases d) =
      map (\<lambda>di. di\<lparr>di_RetentionPolicies := map drop_policy_subs (di_RetentionPolicies di)\<rparr>) (d_Databases d)"
    using assms by (intro map_cong)
      (auto simp: data_wire_ok_def all_policies_def list_all_iff intro!: DatabaseInfo_roundtrip)
  moreover have "map (UserInfo_unmarshal \<circ> UserInfo_marshal) (d_Users d) = d_Users d"
    using assms by (intro map_idI) (simp add: data_wire_ok_def list_all_iff UserInfo_roundtrip)
  ultimately show ?thesis
    by (simp add: Data_marshal_def Data_unmarshal_def drop_subscriptions_def comp_def)
qed

lemma all_groups_drop_subscriptions [simp]: "all_groups (drop_subscriptions d) = all_groups d"
  by (simp add: all_groups_alt drop_subscriptions_def drop_policy_subs_def comp_def)

lemma data_wf_drop_subscriptions: "data_wf d \<Longrightarrow> data_wf (drop_subscriptions d)"
  unfolding data_wf_def all_groups_drop_subscriptions
  by (auto simp: nodes_wf_def names_wf_def database_wf_def policy_wf_def
      drop_subscriptions_def drop_policy_subs_def comp_def)

lemma drop_subscriptions_id_iff:
  "drop_subscriptions d = d \<longleftrightarrow> (\<forall>rp\<in>set (all_policies d). rpi_Subscriptions rp = [])"
proof -
  have p: "drop_policy_subs rp = rp \<longleftrightarrow> rpi_Subscriptions rp = []" for rp
    by (cases rp) (auto simp: drop_policy_subs_def)
  have m: "map f xs = xs \<longleftrightarrow> (\<forall>x\<in>set xs. f x = x)" for f :: "'a \<Rightarrow> 'a" and xs
    by (induction xs) auto
  have d: "di\<lparr>di_RetentionPolicies := map drop_policy_subs (di_RetentionPolicies di)\<rparr> = di \<longleftrightarrow>
      (\<forall>rp\<in>set (di_RetentionPolicies di). rpi_Subscriptions rp = [])" for di
    by (cases di) (simp add: m p)
  have "drop_subscriptions d = d \<longleftrightarrow> d_Databases (drop_subscriptions d) = d_Databases d"
    by (cases d) (simp add: drop_subscriptions_def)
  then show ?thesis
    by (simp add: drop_subscriptions_def all_policies_def m d)
qed

end
