(* ===== verification/Meta_FSM.thy ===== *)
theory Meta_FSM
  imports Meta_Wire
begin

text \<open>
  The raft state machine of the metastore (\<open>storeFSM\<close> in \<open>meta/store.go\<close>): the commands of
  \<open>meta.proto\<close>, one apply function per command, \<open>Apply\<close>, \<open>Snapshot\<close> and \<open>Restore\<close>, and the
  states a replica can reach.  The decoding of a log entry by the protobuf library is the
  argument \<open>dec\<close>; \<open>None\<close> stands for bytes that are no command with its extension, on which
  \<open>Apply\<close> panics.
\<close>

section \<open>Commands\<close>

datatype Command =
    RemovePeerCommand u64 string
  | CreateNodeCommand string u64
  | DeleteNodeCommand u64 bool
  | CreateDatabaseCommand string
  | DropDatabaseCommand string
  | CreateRetentionPolicyCommand string pbRetentionPolicyInfo
  | DropRetentionPolicyCommand string string
  | SetDefaultRetentionPolicyCommand string string
  | UpdateRetentionPolicyCommand string string "string option" "int option" "32 word option"
  | CreateShardGroupCommand string string int
  | DeleteShardGroupCommand string string u64
  | CreateContinuousQueryCommand string string string
  | DropContinuousQueryCommand string string
  | CreateSubscriptionCommand string string string string "string list"
  | DropSubscriptionCommand string string string
  | CreateUserCommand string string bool
  | DropUserCommand string
  | UpdateUserCommand string string
  | SetPrivilegeCommand string string "32 word"
  | SetAdminPrivilegeCommand string bool
  | SetDataCommand pbData
  | UpdateNodeCommand u64 string
  | UnknownCommand

section \<open>State\<close>

record authUser =
  au_salt :: "byte list"
  au_hash :: "byte list"

text \<open>
  The part of \<open>Store\<close> the state machine touches.  The calls on \<open>raftState\<close> are recorded in the
  order they are made; \<open>fsm_changed\<close> counts the broadcasts of \<open>notifyChanged\<close>.
\<close>

datatype raft_call = Raft_removePeer string | Raft_close

record storeFSM =
  fsm_id :: u64
  fsm_data :: Data
  fsm_authCache :: "(string \<times> authUser) list"
  fsm_raft :: "raft_call list"
  fsm_changed :: nat

definition new_storeFSM :: "u64 \<Rightarrow> storeFSM" where
  "new_storeFSM i = \<lparr>fsm_id = i, fsm_data = empty_Data, fsm_authCache = [], fsm_raft = [], fsm_changed = 0\<rparr>"

record raftLog =
  l_Term :: u64
  l_Index :: u64
  l_Data :: "byte list"

type_synonym fsm_step = "storeFSM \<Rightarrow> storeFSM \<times> meta_error option"

section \<open>Applying one command\<close>

text \<open>The shape all commands share: work on a clone, install it if there was no error.\<close>

definition apply_data :: "(Data \<Rightarrow> Data mresult) \<Rightarrow> fsm_step" where
  "apply_data f fsm =
     (case f (Data_Clone (fsm_data fsm)) of
        Inl e \<Rightarrow> (fsm, Some e)
      | Inr other \<Rightarrow> (fsm\<lparr>fsm_data := other\<rparr>, None))"

definition applyRemovePeerCommand :: "bool \<Rightarrow> u64 \<Rightarrow> string \<Rightarrow> fsm_step" where
  "applyRemovePeerCommand isLeader nid addr fsm =
     (let c1 = (if isLeader then [Raft_removePeer addr] else []);
          c2 = (if fsm_id fsm = nid then [Raft_close] else [])
      in (fsm\<lparr>fsm_raft := fsm_raft fsm @ c1 @ c2\<rparr>, None))"

definition applyCreateNodeCommand :: "string \<Rightarrow> u64 \<Rightarrow> fsm_step" where
  "applyCreateNodeCommand host rnd =
     apply_data (\<lambda>d. case Data_CreateNode host d of
        Inl e \<Rightarrow> Inl e
      | Inr other \<Rightarrow> Inr (if d_ClusterID other = 0 then other\<lparr>d_ClusterID := rnd\<rparr> else other))"

definition applyUpdateNodeCommand :: "u64 \<Rightarrow> string \<Rightarrow> fsm_step" where
  "applyUpdateNodeCommand nid host =
     apply_data (\<lambda>d. if Data_Node d nid = None then Inl ErrNodeNotFound
       else Inr (d\<lparr>d_Nodes := upd_first (\<lambda>n. ni_ID n = nid) (\<lambda>n. n\<lparr>ni_Host := host\<rparr>) (d_Nodes d)\<rparr>))"

definition applyDeleteNodeCommand :: "u64 \<Rightarrow> bool \<Rightarrow> fsm_step" where
  "applyDeleteNodeCommand nid force = apply_data (Data_DeleteNode nid force)"

definition applyCreateDatabaseCommand :: "string \<Rightarrow> fsm_step" where
  "applyCreateDatabaseCommand name = apply_data (Data_CreateDatabase name)"

definition applyDropDatabaseCommand :: "string \<Rightarrow> fsm_step" where
  "applyDropDatabaseCommand name = apply_data (Data_DropDatabase name)"

definition applyCreateRetentionPolicyCommand :: "string \<Rightarrow> pbRetentionPolicyInfo \<Rightarrow> fsm_step" where
  "applyCreateRetentionPolicyCommand database pb =
     apply_data (Data_CreateRetentionPolicy database
       \<lparr>rpi_Name = pbr_Name pb, rpi_ReplicaN = uint (pbr_ReplicaN pb), rpi_Duration = pbr_Duration pb,
        rpi_ShardGroupDuration = pbr_ShardGroupDuration pb, rpi_ShardGroups = [], rpi_Subscriptions = []\<rparr>)"

definition applyDropRetentionPolicyCommand :: "string \<Rightarrow> string \<Rightarrow> fsm_step" where
  "applyDropRetentionPolicyCommand database name = apply_data (Data_DropRetentionPolicy database name)"

definition applySetDefaultRetentionPolicyCommand :: "string \<Rightarrow> string \<Rightarrow> fsm_step" where
  "applySetDefaultRetentionPolicyCommand database name =
     apply_data (Data_SetDefaultRetentionPolicy database name)"

definition applyUpdateRetentionPolicyCommand ::
    "string \<Rightarrow> string \<Rightarrow> string option \<Rightarrow> int option \<Rightarrow> 32 word option \<Rightarrow> fsm_step" where
  "applyUpdateRetentionPolicyCommand database name newName dur replicaN =
     apply_data (Data_UpdateRetentionPolicy database name
       \<lparr>rpu_Name = newName, rpu_Duration = dur, rpu_ReplicaN = map_option uint replicaN\<rparr>)"

definition applyCreateShardGroupCommand :: "string \<Rightarrow> string \<Rightarrow> int \<Rightarrow> fsm_step" where
  "applyCreateShardGroupCommand database policy timestamp =
     apply_data (Data_CreateShardGroup database policy (time_Unix0 timestamp))"

definition applyDeleteShardGroupCommand :: "time \<Rightarrow> string \<Rightarrow> string \<Rightarrow> u64 \<Rightarrow> fsm_step" where
  "applyDeleteShardGroupCommand now database policy gid =
     apply_data (Data_DeleteShardGroup now database policy gid)"

definition applyCreateContinuousQueryCommand :: "string \<Rightarrow> string \<Rightarrow> string \<Rightarrow> fsm_step" where
  "applyCreateContinuousQueryCommand database name query =
     apply_data (Data_CreateContinuousQuery database name query)"

definition applyDropContinuousQueryCommand :: "string \<Rightarrow> string \<Rightarrow> fsm_step" where
  "applyDropContinuousQueryCommand database name = apply_data (Data_DropContinuousQuery database name)"

definition applyCreateSubscriptionCommand ::
    "string \<Rightarrow> string \<Rightarrow> string \<Rightarrow> string \<Rightarrow> string list \<Rightarrow> fsm_step" where
  "applyCreateSubscriptionCommand database rp name mode destinations =
     apply_data (Data_CreateSubscription database rp name mode destinations)"

definition applyDropSubscriptionCommand :: "string \<Rightarrow> string \<Rightarrow> string \<Rightarrow> fsm_step" where
  "applyDropSubscriptionCommand database rp name = apply_data (Data_DropSubscription database rp name)"

definition applyCreateUserCommand :: "string \<Rightarrow> string \<Rightarrow> bool \<Rightarrow> fsm_step" where
  "applyCreateUserCommand name hash admin = apply_data (Data_CreateUser name hash admin)"

text \<open>Dropping a user and changing a password also forget the cached credentials.\<close>

definition forget_auth :: "string \<Rightarrow> storeFSM \<times> meta_error option \<Rightarrow> storeFSM \<times> meta_error option" where
  "forget_auth name r =
     (case r of
        (fsm, None) \<Rightarrow> (fsm\<lparr>fsm_authCache := AList.delete name (fsm_authCache fsm)\<rparr>, None)
      | (fsm, Some e) \<Rightarrow> (fsm, Some e))"

definition applyDropUserCommand :: "string \<Rightarrow> fsm_step" where
  "applyDropUserCommand name fsm = forget_auth name (apply_data (Data_DropUser name) fsm)"

definition applyUpdateUserCommand :: "string \<Rightarrow> string \<Rightarrow> fsm_step" where
  "applyUpdateUserCommand name hash fsm = forget_auth name (apply_data (Data_UpdateUser name hash) fsm)"

definition applySetPrivilegeCommand :: "string \<Rightarrow> string \<Rightarrow> 32 word \<Rightarrow> fsm_step" where
  "applySetPrivilegeCommand username database p = apply_data (Data_SetPrivilege username database (sint p))"

definition applySetAdminPrivilegeCommand :: "string \<Rightarrow> bool \<Rightarrow> fsm_step" where
  "applySetAdminPrivilegeCommand username admin = apply_data (Data_SetAdminPrivilege username admin)"

definition applySetDataCommand :: "pbData \<Rightarrow> fsm_step" where
  "applySetDataCommand pb fsm = (fsm\<lparr>fsm_data := Data_unmarshal pb\<rparr>, None)"

text \<open>The \<open>switch\<close> of \<open>Apply\<close>; \<open>now\<close> is the clock of the replica, \<open>isLeader\<close> its raft role.\<close>

fun apply_command :: "time \<Rightarrow> bool \<Rightarrow> Command \<Rightarrow> fsm_step" where
  "apply_command now isLeader (RemovePeerCommand nid addr) = applyRemovePeerCommand isLeader nid addr"
| "apply_command now isLeader (CreateNodeCommand host rnd) = applyCreateNodeCommand host rnd"
| "apply_command now isLeader (DeleteNodeCommand nid force) = applyDeleteNodeCommand nid force"
| "apply_command now isLeader (CreateDatabaseCommand name) = applyCreateDatabaseCommand name"
| "apply_command now isLeader (DropDatabaseCommand name) = applyDropDatabaseCommand name"
| "apply_command now isLeader (CreateRetentionPolicyCommand db pb) = applyCreateRetentionPolicyCommand db pb"
| "apply_command now isLeader (DropRetentionPolicyCommand db name) = applyDropRetentionPolicyCommand db name"
| "apply_command now isLeader (SetDefaultRetentionPolicyCommand db name) =
     applySetDefaultRetentionPolicyCommand db name"
| "apply_command now isLeader (UpdateRetentionPolicyCommand db name nn dur rn) =
     applyUpdateRetentionPolicyCommand db name nn dur rn"
| "apply_command now isLeader (CreateShardGroupCommand db p ts) = applyCreateShardGroupCommand db p ts"
| "apply_command now isLeader (DeleteShardGroupCommand db p gid) = applyDeleteShardGroupCommand now db p gid"
| "apply_command now isLeader (CreateContinuousQueryCommand db name q) =
     applyCreateContinuousQueryCommand db name q"
| "apply_command now isLeader (DropContinuousQueryCommand db name) = applyDropContinuousQueryCommand db name"
| "apply_command now isLeader (CreateSubscriptionCommand db rp name mode dests) =
     applyCreateSubscriptionCommand db rp name mode dests"
| "apply_command now isLeader (DropSubscriptionCommand db rp name) = applyDropSubscriptionCommand db rp name"
| "apply_command now isLeader (CreateUserCommand name hash admin) = applyCreateUserCommand name hash admin"
| "apply_command now isLeader (DropUserCommand name) = applyDropUserCommand name"
| "apply_command now isLeader (UpdateUserCommand name hash) = applyUpdateUserCommand name hash"
| "apply_command now isLeader (SetPrivilegeCommand u db p) = applySetPrivilegeCommand u db p"
| "apply_command now isLeader (SetAdminPrivilegeCommand u admin) = applySetAdminPrivilegeCommand u admin"
| "apply_command now isLeader (SetDataCommand pb) = applySetDataCommand pb"
| "apply_command now isLeader (UpdateNodeCommand nid host) = applyUpdateNodeCommand nid host"
| "apply_command now isLeader UnknownCommand = (\<lambda>fsm. (fsm, Some PanicCannotApply))"

definition is_panic :: "meta_error \<Rightarrow> bool" where
  "is_panic e \<longleftrightarrow> e \<in> {PanicNilDereference, PanicMakeSlice, PanicIndexOutOfRange, PanicDivideByZero,
     PanicCannotUnmarshal, PanicCannotApply}"

text \<open>
  What an entry does: the replica goes on with a new state and the error it reports, or the
  process dies.  \<open>finish_apply\<close> is the part of \<open>Apply\<close> after the switch.
\<close>

datatype apply_result = Applied storeFSM "meta_error option" | Panicked meta_error

definition finish_apply :: "u64 \<Rightarrow> u64 \<Rightarrow> storeFSM \<times> meta_error option \<Rightarrow> apply_result" where
  "finish_apply trm idx r =
     (case r of (fsm, err) \<Rightarrow>
        if (case err of None \<Rightarrow> False | Some e \<Rightarrow> is_panic e) then Panicked (the err)
        else Applied (fsm\<lparr>fsm_data := (fsm_data fsm)\<lparr>d_Term := trm, d_Index := idx\<rparr>,
                          fsm_changed := fsm_changed fsm + 1\<rparr>) err)"

definition storeFSM_Apply ::
    "(byte list \<Rightarrow> Command option) \<Rightarrow> time \<Rightarrow> bool \<Rightarrow> raftLog \<Rightarrow> storeFSM \<Rightarrow> apply_result" where
  "storeFSM_Apply dec now isLeader l fsm =
     (case dec (l_Data l) of
        None \<Rightarrow> Panicked PanicCannotUnmarshal
      | Some cmd \<Rightarrow> finish_apply (l_Term l) (l_Index l) (apply_command now isLeader cmd fsm))"

section \<open>Snapshots\<close>

definition storeFSM_Snapshot :: "storeFSM \<Rightarrow> Data" where
  "storeFSM_Snapshot fsm = fsm_data fsm"

text \<open>\<open>Persist\<close> writes the marshalled data; \<open>Restore\<close> reads it back and replaces the data only.\<close>

definition storeFSMSnapshot_Persist :: "(pbData \<Rightarrow> 'e + byte list) \<Rightarrow> Data \<Rightarrow> 'e + byte list" where
  "storeFSMSnapshot_Persist enc d = Data_MarshalBinary enc d"

definition storeFSM_Restore :: "(byte list \<Rightarrow> 'e + pbData) \<Rightarrow> byte list \<Rightarrow> storeFSM \<Rightarrow> 'e + storeFSM" where
  "storeFSM_Restore dec buf fsm =
     (case Data_UnmarshalBinary dec buf of
        Inl e \<Rightarrow> Inl e
      | Inr d \<Rightarrow> Inr (fsm\<lparr>fsm_data := d\<rparr>))"

end
