(* ===== verification/Meta_FSM_Inv.thy ===== *)
theory Meta_FSM_Inv
  imports Meta_FSM
begin

text \<open>
  What the state machine guarantees.  Its effect on the metadata is refined to a function of
  the command, the clock and the old metadata alone; from that follow the atomicity of failed
  commands, the agreement of replicas that apply the same log, the absence of panics but for one
  command, and the invariant of every state a replica can reach.
\<close>

section \<open>The abstract machine on the metadata\<close>

fun data_command :: "time \<Rightarrow> Command \<Rightarrow> Data \<Rightarrow> Data mresult" where
  "data_command now (RemovePeerCommand nid addr) d = Inr d"
| "data_command now (CreateNodeCommand host rnd) d =
     map_sum id (\<lambda>d'. if d_ClusterID d' = 0 then d'\<lparr>d_ClusterID := rnd\<rparr> else d') (Data_CreateNode host d)"
| "data_command now (DeleteNodeCommand nid force) d = Data_DeleteNode nid force d"
| "data_command now (CreateDatabaseCommand name) d = Data_CreateDatabase name d"
| "data_command now (DropDatabaseCommand name) d = Data_DropDatabase name d"
| "data_command now (CreateRetentionPolicyCommand db pb) d =
     Data_CreateRetentionPolicy db (RetentionPolicyInfo_unmarshal (pb\<lparr>pbr_ShardGroups := [], pbr_Subscriptions := []\<rparr>)) d"
| "data_command now (DropRetentionPolicyCommand db name) d = Data_DropRetentionPolicy db name d"
| "data_command now (SetDefaultRetentionPolicyCommand db name) d = Data_SetDefaultRetentionPolicy db name d"
| "data_command now (UpdateRetentionPolicyCommand db name nn dur rn) d =
     Data_UpdateRetentionPolicy db name \<lparr>rpu_Name = nn, rpu_Duration = dur, rpu_ReplicaN = map_option uint rn\<rparr> d"
| "data_command now (CreateShardGroupCommand db p ts) d = Data_CreateShardGroup db p (time_Unix0 ts) d"
| "data_command now (DeleteShardGroupCommand db p gid) d = Data_DeleteShardGroup now db p gid d"
| "data_command now (CreateContinuousQueryCommand db name q) d = Data_CreateContinuousQuery db name q d"
| "data_command now (DropContinuousQueryCommand db name) d = Data_DropContinuousQuery db name d"
| "data_command now (CreateSubscriptionCommand db rp name mode dests) d =
     Data_CreateSubscription db rp name mode dests d"
| "data_command now (DropSubscriptionCommand db rp name) d = Data_DropSubscription db rp name d"
| "data_command now (CreateUserCommand name hash admin) d = Data_CreateUser name hash admin d"
| "data_command now (DropUserCommand name) d = Data_DropUser name d"
| "data_command now (UpdateUserCommand name hash) d = Data_UpdateUser name hash d"
| "data_command now (SetPrivilegeCommand u db p) d = Data_SetPrivilege u db (sint p) d"
| "data_command now (SetAdminPrivilegeCommand u admin) d = Data_SetAdminPrivilege u admin d"
| "data_command now (SetDataCommand pb) d = Inr (Data_unmarshal pb)"
| "data_command now (UpdateNodeCommand nid host) d =
     (if Data_Node d nid = None then Inl ErrNodeNotFound
      else Inr (d\<lparr>d_Nodes := upd_first (\<lambda>n. ni_ID n = nid) (\<lambda>n. n\<lparr>ni_Host := host\<rparr>) (d_Nodes d)\<rparr>))"
| "data_command now UnknownCommand d = Inl PanicCannotApply"

lemmas apply_defs =
  applyRemovePeerCommand_def applyCreateNodeCommand_def applyUpdateNodeCommand_def
  applyDeleteNodeCommand_def applyCreateDatabaseCommand_def applyDropDatabaseCommand_def
  applyCreateRetentionPolicyCommand_def applyDropRetentionPolicyCommand_def
  applySetDefaultRetentionPolicyCommand_def applyUpdateRetentionPolicyCommand_def
  applyCreateShardGroupCommand_def applyDeleteShardGroupCommand_def
  applyCreateContinuousQueryCommand_def applyDropContinuousQueryCommand_def
  applyCreateSubscriptionCommand_def applyDropSubscriptionCommand_def applyCreateUserCommand_def
  applyDropUserCommand_def applyUpdateUserCommand_def applySetPrivilegeCommand_def
  applySetAdminPrivilegeCommand_def applySetDataCommand_def

text \<open>A command changes nothing on an error, and otherwise installs the abstract result.\<close>

lemma apply_command_refines:
  "apply_command now ld cmd s =
     (case data_command now cmd (fsm_data s) of
        Inl e \<Rightarrow> (s, Some e)
      | Inr d \<Rightarrow> (let s' = fst (apply_command now ld cmd s) in
                   (s\<lparr>fsm_data := d, fsm_authCache := fsm_authCache s', fsm_raft := fsm_raft s'\<rparr>, None)))"
  by (cases cmd)
    (auto simp: apply_defs apply_data_def forget_auth_def Let_def RetentionPolicyInfo_unmarshal_def
      map_sum_def split: sum.splits option.splits prod.splits)

lemma apply_command_error:
  "data_command now cmd (fsm_data s) = Inl e \<Longrightarrow> apply_command now ld cmd s = (s, Some e)"
  by (subst apply_command_refines) simp

lemma apply_command_ok:
  assumes "data_command now cmd (fsm_data s) = Inr d"
  obtains c r where "apply_command now ld cmd s = (s\<lparr>fsm_data := d, fsm_authCache := c, fsm_raft := r\<rparr>, None)"
  using apply_command_refines [of now ld cmd s] assms by (simp add: Let_def)

text \<open>The command with the bookkeeping of \<open>Apply\<close>; \<open>None\<close> is the death of the process.\<close>

definition data_apply :: "time \<Rightarrow> u64 \<Rightarrow> u64 \<Rightarrow> Command \<Rightarrow> Data \<Rightarrow> Data option" where
  "data_apply now trm idx cmd d =
     (case data_command now cmd d of
        Inl e \<Rightarrow> if is_panic e then None else Some (d\<lparr>d_Term := trm, d_Index := idx\<rparr>)
      | Inr d' \<Rightarrow> Some (d'\<lparr>d_Term := trm, d_Index := idx\<rparr>))"

lemma finish_apply_refines:
  "(case finish_apply trm idx (apply_command now ld cmd s) of
      Panicked e \<Rightarrow> None | Applied s' r \<Rightarrow> Some (fsm_data s')) = data_apply now trm idx cmd (fsm_data s)"
proof (cases "data_command now cmd (fsm_data s)")
  case (Inl e)
  then show ?thesis by (simp add: apply_command_error finish_apply_def data_apply_def)
next
  case (Inr d)
  then obtain c r where "apply_command now ld cmd s = (s\<lparr>fsm_data := d, fsm_authCache := c, fsm_raft := r\<rparr>, None)"
    by (rule apply_command_ok)
  with Inr show ?thesis by (simp add: finish_apply_def data_apply_def)
qed

lemma finish_apply_data:
  "finish_apply trm idx (apply_command now ld cmd s) = Applied s' r \<Longrightarrow>
     data_apply now trm idx cmd (fsm_data s) = Some (fsm_data s')"
  using finish_apply_refines [of trm idx now ld cmd s] by simp

section \<open>Running a log\<close>

text \<open>
  The entries of a log as one replica applies them: each with the clock and the raft role the
  replica has at that moment.
\<close>

fun fsm_run :: "(byte list \<Rightarrow> Command option) \<Rightarrow> (time \<times> bool \<times> raftLog) list \<Rightarrow> storeFSM \<Rightarrow> storeFSM option" where
  "fsm_run dec [] s = Some s"
| "fsm_run dec ((now, ld, l) # ls) s =
     (case storeFSM_Apply dec now ld l s of
        Panicked e \<Rightarrow> None
      | Applied s' r \<Rightarrow> fsm_run dec ls s')"

fun data_run :: "(byte list \<Rightarrow> Command option) \<Rightarrow> (time \<times> raftLog) list \<Rightarrow> Data \<Rightarrow> Data option" where
  "data_run dec [] d = Some d"
| "data_run dec ((now, l) # ls) d =
     (case dec (l_Data l) of
        None \<Rightarrow> None
      | Some cmd \<Rightarrow> (case data_apply now (l_Term l) (l_Index l) cmd d of
          None \<Rightarrow> None | Some d' \<Rightarrow> data_run dec ls d'))"

lemma fsm_run_refines:
  "map_option fsm_data (fsm_run dec ls s) = data_run dec (map (\<lambda>(now, ld, l). (now, l)) ls) (fsm_data s)"
proof (induction ls arbitrary: s)
  case (Cons x ls)
  obtain now ld l where x: "x = (now, ld, l)" by (cases x)
  show ?case
  proof (cases "dec (l_Data l)")
    case None
    then show ?thesis by (simp add: x storeFSM_Apply_def)
  next
    case (Some cmd)
    then show ?thesis
      using finish_apply_refines [of "l_Term l" "l_Index l" now ld cmd s] Cons.IH
      by (auto simp: x storeFSM_Apply_def split: apply_result.splits option.splits)
  qed
qed simp

definition uses_clock :: "Command \<Rightarrow> bool" where
  "uses_clock cmd = (case cmd of DeleteShardGroupCommand _ _ _ \<Rightarrow> True | _ \<Rightarrow> False)"

lemma data_command_clock:
  "\<not> uses_clock cmd \<Longrightarrow> data_command now cmd d = data_command now' cmd d"
  by (cases cmd) (simp_all add: uses_clock_def)

lemma data_run_clock:
  assumes "map snd xs = map snd ys"
    and "\<forall>l\<in>set (map snd xs). case dec (l_Data l) of None \<Rightarrow> True | Some cmd \<Rightarrow> \<not> uses_clock cmd"
  shows "data_run dec xs d = data_run dec ys d"
  using assms
proof (induction xs arbitrary: ys d)
  case (Cons x xs)
  obtain now l where x: "x = (now, l)" by (cases x)
  from Cons.prems(1) obtain now' zs where ys: "ys = (now', l) # zs" and zs: "map snd xs = map snd zs"
    by (auto simp: x)
  show ?case
  proof (cases "dec (l_Data l)")
    case (Some cmd)
    then have "\<not> uses_clock cmd" using Cons.prems(2) by (simp add: x)
    then have "data_apply now (l_Term l) (l_Index l) cmd d = data_apply now' (l_Term l) (l_Index l) cmd d"
      using data_command_clock [of cmd now d now'] by (simp add: data_apply_def)
    with Some Cons.IH [OF zs] Cons.prems(2) show ?thesis by (simp add: x ys split: option.splits)
  qed (simp add: x ys)
qed simp

section \<open>Panics\<close>

lemma data_ops_no_panic [simp]:
  "Data_CreateNode host d = Inl e \<Longrightarrow> \<not> is_panic e"
  "Data_DeleteNode nid force d = Inl e \<Longrightarrow> \<not> is_panic e"
  "Data_CreateDatabase name d = Inl e \<Longrightarrow> \<not> is_panic e"
  "Data_DropDatabase name d = Inl e \<Longrightarrow> \<not> is_panic e"
  "Data_CreateRetentionPolicy db rpi d = Inl e \<Longrightarrow> \<not> is_panic e"
  "Data_DropRetentionPolicy db name d = Inl e \<Longrightarrow> \<not> is_panic e"
  "Data_UpdateRetentionPolicy db name rpu d = Inl e \<Longrightarrow> \<not> is_panic e"
  "Data_SetDefaultRetentionPolicy db name d = Inl e \<Longrightarrow> \<not> is_panic e"
  "Data_DeleteShardGroup now db p gid d = Inl e \<Longrightarrow> \<not> is_panic e"
  "Data_CreateContinuousQuery db name q d = Inl e \<Longrightarrow> \<not> is_panic e"
  "Data_DropContinuousQuery db name d = Inl e \<Longrightarrow> \<not> is_panic e"
  "Data_CreateSubscription db rp name mode dests d = Inl e \<Longrightarrow> \<not> is_panic e"
  "Data_CreateUser name hash admin d = Inl e \<Longrightarrow> \<not> is_panic e"
  "Data_DropUser name d = Inl e \<Longrightarrow> \<not> is_panic e"
  "Data_UpdateUser name hash d = Inl e \<Longrightarrow> \<not> is_panic e"
  "Data_SetPrivilege name db priv d = Inl e \<Longrightarrow> \<not> is_panic e"
  "Data_SetAdminPrivilege name admin d = Inl e \<Longrightarrow> \<not> is_panic e"
  by (auto simp: is_panic_def Let_def Data_CreateNode_def Data_DeleteNode_def Data_CreateDatabase_def
      Data_DropDatabase_def Data_CreateRetentionPolicy_def Data_DropRetentionPolicy_def
      Data_UpdateRetentionPolicy_def Data_SetDefaultRetentionPolicy_def Data_DeleteShardGroup_def
      Data_CreateContinuousQuery_def Data_DropContinuousQuery_def Data_CreateSubscription_def
      Data_CreateUser_def Data_DropUser_def Data_UpdateUser_def Data_SetPrivilege_def
      Data_SetAdminPrivilege_def find_policy_def Data_RetentionPolicy_def
      split: if_splits option.splits sum.splits)

text \<open>The replication factor of a well-formed policy never makes the slice of shards negative.\<close>

lemma Data_CreateShardGroup_no_panic:
  assumes "data_wf d" and "Data_CreateShardGroup db p t d = Inl e"
  shows "\<not> is_panic e"
proof (cases "find_policy d db p")
  case (Inl e')
  with assms(2) show ?thesis
    by (auto simp: Data_CreateShardGroup_def is_panic_def find_policy_def Data_RetentionPolicy_def
        split: if_splits option.splits)
next
  case (Inr rpi)
  then have "policy_wf rpi"
    using assms(1) by (auto simp: find_policy_Inr data_wf_def names_wf_def database_wf_def
        Data_Database_def DatabaseInfo_RetentionPolicy_def dest!: find_mem)
  then have "0 \<le> effective_replicaN rpi d"
    by (simp add: policy_wf_def effective_replicaN_def)
  then have "0 \<le> go_quot (int (length (d_Nodes d))) (effective_replicaN rpi d)"
    by (simp add: go_quot_def sgn_if div_int_pos_iff)
  with Inr assms(2) show ?thesis
    by (auto simp: Data_CreateShardGroup_def is_panic_def Let_def split: if_splits)
qed

lemma Data_DropSubscription_panic:
  "Data_DropSubscription db rp name d = Inl e \<Longrightarrow>
     is_panic e \<longleftrightarrow> e = PanicNilDereference \<and> Data_RetentionPolicy d db rp = Inr None"
  by (auto simp: Data_DropSubscription_def is_panic_def Data_RetentionPolicy_def
      split: if_splits option.splits sum.splits)

definition panics :: "Command \<Rightarrow> Data \<Rightarrow> bool" where
  "panics cmd d =
     (case cmd of
        DropSubscriptionCommand db rp name \<Rightarrow> Data_RetentionPolicy d db rp = Inr None
      | UnknownCommand \<Rightarrow> True
      | _ \<Rightarrow> False)"

lemma data_apply_None_iff:
  assumes "data_wf d"
  shows "data_apply now trm idx cmd d = None \<longleftrightarrow> panics cmd d"
proof -
  have "data_apply now trm idx cmd d = None \<longleftrightarrow> (\<exists>e. data_command now cmd d = Inl e \<and> is_panic e)"
    by (auto simp: data_apply_def split: sum.splits)
  also have "\<dots> \<longleftrightarrow> panics cmd d"
  proof (cases cmd)
    case (DropSubscriptionCommand db rp name)
    then show ?thesis
      by (auto simp: panics_def Data_DropSubscription_panic) (simp add: Data_DropSubscription_def is_panic_def)
  next
    case (CreateNodeCommand host rnd)
    then show ?thesis by (auto simp: panics_def map_sum_def split: sum.splits)
  next
    case (UpdateNodeCommand nid host)
    then show ?thesis by (auto simp: panics_def is_panic_def)
  next
    case UnknownCommand
    then show ?thesis by (simp add: panics_def is_panic_def)
  qed (auto simp: panics_def dest: Data_CreateShardGroup_no_panic [OF assms])
  finally show ?thesis .
qed

section \<open>Counters\<close>

text \<open>
  Bounds on what \<open>k\<close> commands can have allocated.  While \<open>k\<close> stays below \<open>2 ^ 32\<close> no counter
  wraps, because a command allocates at most one node, one group and one shard per node.
\<close>

definition counters_within :: "nat \<Rightarrow> Data \<Rightarrow> bool" where
  "counters_within k d \<longleftrightarrow> unat (d_MaxNodeID d) \<le> k \<and> length (d_Nodes d) \<le> k \<and>
     unat (d_MaxShardGroupID d) \<le> k \<and> unat (d_MaxShardID d) \<le> k * k"

lemma counters_within_mono: "counters_within k d \<Longrightarrow> k \<le> k' \<Longrightarrow> counters_within k' d"
  unfolding counters_within_def by (meson le_trans mult_le_mono)

lemma counters_same:
  assumes "counters_within k d" and "d_MaxNodeID d' = d_MaxNodeID d" and "length (d_Nodes d') \<le> length (d_Nodes d)"
    and "d_MaxShardGroupID d' = d_MaxShardGroupID d" and "d_MaxShardID d' = d_MaxShardID d"
  shows "counters_within (Suc k) d'"
proof -
  have "k * k \<le> Suc k * Suc k" by (rule mult_le_mono) simp_all
  with assms show ?thesis unfolding counters_within_def by (metis le_Suc_eq le_trans)
qed

lemma counters_CreateNode:
  assumes "counters_within k d" and "k < 2 ^ 32" and "Data_CreateNode host d = Inr d'"
  shows "counters_within (Suc k) d'"
proof -
  have "unat (d_MaxNodeID d + of_nat 1) = unat (d_MaxNodeID d) + 1"
    using assms(1,2) by (intro unat_add_nowrap) (simp add: counters_within_def)
  moreover have "k * k \<le> Suc k * Suc k" by (rule mult_le_mono) simp_all
  ultimately show ?thesis
    using assms(1,3) by (auto simp: counters_within_def Data_CreateNode_def Let_def split: if_splits)
qed

lemma counters_nowrap:
  assumes "counters_within k d" and "k < 2 ^ 32"
  shows "unat (d_MaxNodeID d) + 1 < 2 ^ 64" and "unat (d_MaxShardGroupID d) + 1 < 2 ^ 64"
    and "unat (d_MaxShardID d) + length (d_Nodes d) < 2 ^ 64"
proof -
  have "k * k + k \<le> (2 ^ 32 - 1) * (2 ^ 32 - 1) + (2 ^ 32 - 1 :: nat)"
    using assms(2) by (intro add_mono mult_mono) simp_all
  then show "unat (d_MaxShardID d) + length (d_Nodes d) < 2 ^ 64"
    using assms by (simp add: counters_within_def)
qed (use assms in \<open>simp_all add: counters_within_def\<close>)

lemma counters_CreateShardGroup:
  assumes wf: "data_wf d" and c: "counters_within k d" and k: "k < 2 ^ 32"
    and op: "Data_CreateShardGroup db p t d = Inr d'"
  shows "counters_within (Suc k) d'"
proof -
  from op obtain rpi where n: "d_Nodes d \<noteq> []" and rp: "find_policy d db p = Inr rpi"
    and d': "d' = on_database db (on_policy p (\<lambda>rp. rp\<lparr>rpi_ShardGroups :=
               sort_groups (rpi_ShardGroups rp @ [new_shard_group rpi t d])\<rparr>))
             (d\<lparr>d_MaxShardGroupID := d_MaxShardGroupID d + 1,
                d_MaxShardID := snd (new_shards (nat (go_quot (int (length (d_Nodes d)))
                   (effective_replicaN rpi d))) (d_MaxShardID d))\<rparr>)"
    by (rule Data_CreateShardGroup_Inr)
  let ?m = "nat (go_quot (int (length (d_Nodes d))) (effective_replicaN rpi d))"
  have "go_quot (int (length (d_Nodes d))) (effective_replicaN rpi d) \<le> int (length (d_Nodes d))"
    by (rule go_quot_le) simp
  then have m: "?m \<le> length (d_Nodes d)" by simp
  have "unat (d_MaxShardID d + of_nat ?m) = unat (d_MaxShardID d) + ?m"
    using counters_nowrap(3) [OF c k] m by (intro unat_add_nowrap) simp
  moreover have "unat (d_MaxShardGroupID d + of_nat 1) = unat (d_MaxShardGroupID d) + 1"
    using counters_nowrap(2) [OF c k] by (intro unat_add_nowrap) simp
  moreover have "k * k + k \<le> Suc k * Suc k" by simp
  ultimately show ?thesis
    using c m by (simp add: counters_within_def d' new_shards_eq)
qed

section \<open>Reachable states\<close>

text \<open>
  A replica starts empty, applies commands, fills its cache of credentials, restores the
  snapshot of a state some replica reached, and has its metadata overwritten (\<open>SetDataCommand\<close>) with
  that of such a state, as \<open>influxd restore\<close> does with a backup of this or of another cluster.  The index counts the commands along
  the longest history.  Metadata that goes through a snapshot or a backup must be representable
  there (\<open>data_wire_ok\<close>): no start, end or deletion time of a group exactly at the Unix epoch or outside the range
  of 64-bit nanoseconds, replication factors below 2 to the 32, and privileges in 32 bits.
\<close>

inductive fsm_reach :: "nat \<Rightarrow> storeFSM \<Rightarrow> bool" where
  fsm_init: "fsm_reach 0 (new_storeFSM i)"
| fsm_apply: "fsm_reach k s \<Longrightarrow> (\<And>pb. cmd \<noteq> SetDataCommand pb) \<Longrightarrow>
    finish_apply trm idx (apply_command now ld cmd s) = Applied s' r \<Longrightarrow> fsm_reach (Suc k) s'"
| fsm_set: "fsm_reach k s \<Longrightarrow> fsm_reach j s0 \<Longrightarrow> data_wire_ok (fsm_data s0) \<Longrightarrow>
    finish_apply trm idx (apply_command now ld (SetDataCommand (Data_marshal (fsm_data s0))) s) = Applied s' r \<Longrightarrow>
    fsm_reach (Suc (max k j)) s'"
| fsm_cache: "fsm_reach k s \<Longrightarrow> fsm_reach k (s\<lparr>fsm_authCache := c\<rparr>)"
| fsm_restore: "fsm_reach k s \<Longrightarrow> fsm_reach j s0 \<Longrightarrow> data_wire_ok (fsm_data s0) \<Longrightarrow>
    fsm_reach (max k j) (s\<lparr>fsm_data := Data_unmarshal (Data_marshal (fsm_data s0))\<rparr>)"

definition fsm_inv :: "nat \<Rightarrow> Data \<Rightarrow> bool" where
  "fsm_inv k d \<longleftrightarrow> data_wf d \<and> counters_within k d"

lemma data_wf_bookkeeping [simp]:
  "data_wf (d\<lparr>d_Term := trm, d_Index := idx\<rparr>) = data_wf d" "data_wf (d\<lparr>d_ClusterID := c\<rparr>) = data_wf d"
  by (simp_all add: data_wf_def nodes_wf_def names_wf_def
      all_groups_cong [of "d\<lparr>d_Term := trm, d_Index := idx\<rparr>" d] all_groups_cong [of "d\<lparr>d_ClusterID := c\<rparr>" d])

lemma counters_bookkeeping [simp]:
  "counters_within k (d\<lparr>d_Term := trm, d_Index := idx\<rparr>) = counters_within k d"
  "counters_within k (d\<lparr>d_ClusterID := c\<rparr>) = counters_within k d"
  by (simp_all add: counters_within_def)

lemma counters_drop_subscriptions: "counters_within k (drop_subscriptions d) = counters_within k d"
  by (simp add: counters_within_def drop_subscriptions_def)

lemma data_wf_UpdateNode:
  assumes "data_wf d"
  shows "data_wf (d\<lparr>d_Nodes := upd_first (\<lambda>n. ni_ID n = nid) (\<lambda>n. n\<lparr>ni_Host := host\<rparr>) (d_Nodes d)\<rparr>)"
proof -
  let ?ns = "upd_first (\<lambda>n. ni_ID n = nid) (\<lambda>n. n\<lparr>ni_Host := host\<rparr>) (d_Nodes d)"
  have m: "map ni_ID ?ns = map ni_ID (d_Nodes d)" by (rule map_upd_first) simp
  have im: "ni_ID ` set ?ns = ni_ID ` set (d_Nodes d)" using arg_cong [OF m, of set] by simp
  have "(\<forall>n\<in>set ?ns. 0 < ni_ID n \<and> ni_ID n \<le> d_MaxNodeID d) =
      (\<forall>i\<in>ni_ID ` set ?ns. 0 < i \<and> i \<le> d_MaxNodeID d)" by simp
  with assms show ?thesis
    unfolding im by (simp add: data_wf_def nodes_wf_def names_wf_def m groups_wf_def shard_wf_def im
        all_groups_cong [of "d\<lparr>d_Nodes := ?ns\<rparr>" d])
qed

definition allocates :: "Command \<Rightarrow> bool" where
  "allocates cmd = (case cmd of CreateNodeCommand _ _ \<Rightarrow> True | CreateShardGroupCommand _ _ _ \<Rightarrow> True
     | SetDataCommand _ \<Rightarrow> True | _ \<Rightarrow> False)"

lemma data_command_counters:
  assumes "\<not> allocates cmd" and "data_command now cmd d = Inr d'"
  shows "d_MaxNodeID d' = d_MaxNodeID d \<and> length (d_Nodes d') \<le> length (d_Nodes d) \<and>
    d_MaxShardGroupID d' = d_MaxShardGroupID d \<and> d_MaxShardID d' = d_MaxShardID d"
  using assms
  by (cases cmd)
    (auto simp: allocates_def Data_DeleteNode_def Data_CreateDatabase_def
      Data_DropDatabase_def Data_CreateRetentionPolicy_def Data_DropRetentionPolicy_def
      Data_UpdateRetentionPolicy_def Data_SetDefaultRetentionPolicy_def Data_DeleteShardGroup_def
      Data_CreateContinuousQuery_def Data_DropContinuousQuery_def Data_CreateSubscription_def
      Data_DropSubscription_def
      Data_CreateUser_def Data_DropUser_def Data_UpdateUser_def Data_SetPrivilege_def
      Data_SetAdminPrivilege_def split: if_splits option.splits sum.splits)

lemma fsm_inv_apply:
  assumes inv: "fsm_inv k d" and k: "k < 2 ^ 32" and cmd: "\<And>pb. cmd \<noteq> SetDataCommand pb"
    and op: "data_command now cmd d = Inr d'"
  shows "fsm_inv (Suc k) d'"
proof -
  from inv have wf: "data_wf d" and c: "counters_within k d" by (simp_all add: fsm_inv_def)
  have "data_wf d'"
  proof (cases cmd)
    case (CreateNodeCommand host rnd)
    with op obtain e where e: "Data_CreateNode host d = Inr e"
        and "d' = (if d_ClusterID e = 0 then e\<lparr>d_ClusterID := rnd\<rparr> else e)"
      by (auto simp: map_sum_def split: sum.splits)
    with data_wf_CreateNode [OF wf e counters_nowrap(1) [OF c k]] show ?thesis by simp
  next
    case (CreateShardGroupCommand db p ts)
    with op show ?thesis
      using data_wf_CreateShardGroup [OF wf _ counters_nowrap(2,3) [OF c k]] by simp
  next
    case (UpdateRetentionPolicyCommand db name nn dur rn)
    with op wf show ?thesis
      by (auto elim!: data_wf_UpdateRetentionPolicy split: option.splits)
  next
    case (UpdateNodeCommand nid host)
    with op wf show ?thesis by (auto simp: data_wf_UpdateNode split: if_splits)
  qed (use op wf cmd in \<open>auto intro: data_wf_preserved\<close>)
  moreover have "counters_within (Suc k) d'"
  proof (cases cmd)
    case (CreateNodeCommand host rnd)
    with op counters_CreateNode [OF c k] show ?thesis
      by (auto simp: map_sum_def split: sum.splits if_splits)
  next
    case (CreateShardGroupCommand db p ts)
    with op counters_CreateShardGroup [OF wf c k] show ?thesis by simp
  qed (use op cmd data_command_counters [OF _ op] in
      \<open>auto intro!: counters_same [OF c] simp: allocates_def simp del: data_command.simps\<close>)
  ultimately show ?thesis by (simp add: fsm_inv_def)
qed

lemma fsm_inv_mono: "fsm_inv k d \<Longrightarrow> k \<le> k' \<Longrightarrow> fsm_inv k' d"
  by (auto simp: fsm_inv_def intro: counters_within_mono)

lemma fsm_inv_data_apply:
  assumes inv: "fsm_inv k d" and k: "k < 2 ^ 32" and cmd: "\<And>pb. cmd \<noteq> SetDataCommand pb"
    and op: "data_apply now trm idx cmd d = Some d'"
  shows "fsm_inv (Suc k) d'"
proof (cases "data_command now cmd d")
  case (Inl e)
  then have "d' = d\<lparr>d_Term := trm, d_Index := idx\<rparr>"
    using op by (simp add: data_apply_def split: if_splits)
  with fsm_inv_mono [OF inv, of "Suc k"] show ?thesis by (simp add: fsm_inv_def)
next
  case (Inr e)
  then have "d' = e\<lparr>d_Term := trm, d_Index := idx\<rparr>"
    using op by (simp add: data_apply_def)
  with fsm_inv_apply [OF inv k cmd Inr] show ?thesis by (simp add: fsm_inv_def)
qed

lemma fsm_inv_roundtrip:
  assumes "fsm_inv k d" and "data_wire_ok d"
  shows "fsm_inv k (Data_unmarshal (Data_marshal d))"
  using assms by (simp add: Data_roundtrip fsm_inv_def data_wf_drop_subscriptions counters_drop_subscriptions)

lemma fsm_reach_inv:
  "fsm_reach k s \<Longrightarrow> k < 2 ^ 32 \<Longrightarrow> fsm_inv k (fsm_data s)"
proof (induction rule: fsm_reach.induct)
  case (fsm_init i)
  then show ?case
    using data_wf_empty by (simp add: fsm_inv_def new_storeFSM_def counters_within_def) (simp add: empty_Data_def)
next
  case (fsm_apply k s cmd trm idx now ld s' r)
  then have "fsm_inv k (fsm_data s)" by simp
  then show ?case
    using fsm_apply.prems fsm_apply.hyps(2) finish_apply_data [OF fsm_apply.hyps(3)]
    by (intro fsm_inv_data_apply [where cmd = cmd]) simp_all
next
  case (fsm_set k s j s0 trm idx now ld s' r)
  then have "fsm_inv (Suc (max k j)) (fsm_data s0)" by (auto intro: fsm_inv_mono [of j])
  from fsm_inv_roundtrip [OF this fsm_set.hyps(3)] fsm_set.hyps(4) show ?case
    by (auto simp: finish_apply_def applySetDataCommand_def fsm_inv_def)
next
  case (fsm_restore k s j s0)
  then have "fsm_inv (max k j) (fsm_data s0)" by (auto intro: fsm_inv_mono [of j])
  from fsm_inv_roundtrip [OF this fsm_restore.hyps(3)] show ?case by simp
qed simp

end
