(* ===== verification/Meta_Store.thy ===== *)
theory Meta_Store
  imports Meta_FSM_Inv
begin

text \<open>
  The client operations of the metastore (\<open>Store\<close> in \<open>meta/store.go\<close>) on the node that leads the
  raft group: every change is encoded, appended to the log and applied to the local state
  machine, every read runs against the local metadata.  The raft library and the protobuf
  library are a parameter, the record \<open>Raft\<close>: how a command is encoded and decoded, and the term,
  index and clock of the entry it becomes (or that raft refuses it).  The hash functions behind
  \<open>Authenticate\<close> are a parameter as well.
\<close>

section \<open>Operations and the raft interface\<close>

type_synonym 'a store_op = "storeFSM \<Rightarrow> storeFSM \<times> 'a mresult"

definition sret :: "'a \<Rightarrow> 'a store_op" where
  "sret x s = (s, Inr x)"

definition sfail :: "meta_error \<Rightarrow> 'a store_op" where
  "sfail e s = (s, Inl e)"

text \<open>\<open>if err := m(); err != nil { return nil, err }\<close>, followed by the rest of the function.\<close>

definition sbind :: "'a store_op \<Rightarrow> ('a \<Rightarrow> 'b store_op) \<Rightarrow> 'b store_op" where
  "sbind m f s = (case m s of (s', Inl e) \<Rightarrow> (s', Inl e) | (s', Inr x) \<Rightarrow> f x s')"

record Raft =
  rft_marshal :: "Command \<Rightarrow> byte list"
  rft_unmarshal :: "byte list \<Rightarrow> Command option"
  rft_next :: "storeFSM \<Rightarrow> (u64 \<times> u64 \<times> time) option"

text \<open>\<open>exec\<close>, \<open>apply\<close> and \<open>localRaft.apply\<close> on the leader.\<close>

definition Store_exec :: "Raft \<Rightarrow> Command \<Rightarrow> unit store_op" where
  "Store_exec R cmd s =
     (case rft_next R s of
        None \<Rightarrow> (s, Inl ErrRaftApply)
      | Some (trm, idx, now) \<Rightarrow>
          (case storeFSM_Apply (rft_unmarshal R) now True
                  \<lparr>l_Term = trm, l_Index = idx, l_Data = rft_marshal R cmd\<rparr> s of
             Panicked p \<Rightarrow> (s, Inl p)
           | Applied s' None \<Rightarrow> (s', Inr ())
           | Applied s' (Some e) \<Rightarrow> (s', Inl e)))"

text \<open>
  \<open>read\<close>: run the function, and again after an error (on the leader \<open>invalidate\<close> has nothing to
  fetch).  \<open>errInvalidate\<close> is not passed on; the results the function had set are.
\<close>

datatype 'a read_result = ROk 'a | RInvalidate 'a | RErr meta_error

definition Store_read :: "(storeFSM \<Rightarrow> storeFSM \<times> 'a read_result) \<Rightarrow> 'a store_op" where
  "Store_read fn s =
     (case fn s of
        (s1, ROk x) \<Rightarrow> (s1, Inr x)
      | (s1, _) \<Rightarrow>
          (case fn s1 of
             (s2, ROk x) \<Rightarrow> (s2, Inr x)
           | (s2, RInvalidate x) \<Rightarrow> (s2, Inr x)
           | (s2, RErr e) \<Rightarrow> (s2, Inl e)))"

definition read_data :: "(Data \<Rightarrow> 'a read_result) \<Rightarrow> 'a store_op" where
  "read_data fn = Store_read (\<lambda>s. (s, fn (fsm_data s)))"

text \<open>A result that is nil asks for a retry.\<close>

definition or_invalidate :: "'a option \<Rightarrow> 'a option read_result" where
  "or_invalidate r = (case r of None \<Rightarrow> RInvalidate None | Some x \<Rightarrow> ROk (Some x))"

definition or_err :: "('a \<Rightarrow> 'b read_result) \<Rightarrow> 'a mresult \<Rightarrow> 'b read_result" where
  "or_err f r = (case r of Inl e \<Rightarrow> RErr e | Inr x \<Rightarrow> f x)"

section \<open>Nodes\<close>

definition Store_ClusterID :: "u64 store_op" where
  "Store_ClusterID = read_data (\<lambda>d. ROk (d_ClusterID d))"

definition Store_Node :: "u64 \<Rightarrow> NodeInfo option store_op" where
  "Store_Node nid = read_data (\<lambda>d. or_invalidate (Data_Node d nid))"

definition Store_NodeByHost :: "string \<Rightarrow> NodeInfo option store_op" where
  "Store_NodeByHost host = read_data (\<lambda>d. or_invalidate (Data_NodeByHost d host))"

definition Store_Nodes :: "NodeInfo list store_op" where
  "Store_Nodes = read_data (\<lambda>d. ROk (d_Nodes d))"

text \<open>\<open>rnd\<close> is the value of \<open>rand.Int63()\<close>.\<close>

definition Store_CreateNode :: "Raft \<Rightarrow> u64 \<Rightarrow> string \<Rightarrow> NodeInfo option store_op" where
  "Store_CreateNode R rnd host =
     sbind (Store_exec R (CreateNodeCommand host rnd)) (\<lambda>_. Store_NodeByHost host)"

definition Store_UpdateNode :: "Raft \<Rightarrow> u64 \<Rightarrow> string \<Rightarrow> NodeInfo option store_op" where
  "Store_UpdateNode R nid host =
     sbind (Store_exec R (UpdateNodeCommand nid host)) (\<lambda>_. Store_NodeByHost host)"

definition Store_DeleteNode :: "Raft \<Rightarrow> u64 \<Rightarrow> bool \<Rightarrow> unit store_op" where
  "Store_DeleteNode R nid force s =
     (case Data_Node (fsm_data s) nid of
        None \<Rightarrow> (s, Inl ErrNodeNotFound)
      | Some ni \<Rightarrow> sbind (Store_exec R (DeleteNodeCommand nid force))
                    (\<lambda>_. Store_exec R (RemovePeerCommand nid (ni_Host ni))) s)"

section \<open>Databases and retention policies\<close>

definition Store_Database :: "string \<Rightarrow> DatabaseInfo option store_op" where
  "Store_Database name = read_data (\<lambda>d. or_invalidate (Data_Database d name))"

definition Store_Databases :: "DatabaseInfo list store_op" where
  "Store_Databases = read_data (\<lambda>d. ROk (d_Databases d))"

definition Store_RetentionPolicy :: "string \<Rightarrow> string \<Rightarrow> RetentionPolicyInfo option store_op" where
  "Store_RetentionPolicy database name =
     read_data (\<lambda>d. or_err or_invalidate (Data_RetentionPolicy d database name))"

definition Store_DefaultRetentionPolicy :: "string \<Rightarrow> RetentionPolicyInfo option store_op" where
  "Store_DefaultRetentionPolicy database =
     read_data (\<lambda>d. case Data_Database d database of
        None \<Rightarrow> RErr ErrDatabaseNotFound
      | Some di \<Rightarrow> or_invalidate (List.find (\<lambda>rp. rpi_Name rp = di_DefaultRetentionPolicy di)
                                          (di_RetentionPolicies di)))"

text \<open>The test for nil of \<open>RetentionPolicies\<close> is the wrong way round.\<close>

definition Store_RetentionPolicies :: "string \<Rightarrow> RetentionPolicyInfo list store_op" where
  "Store_RetentionPolicies database =
     read_data (\<lambda>d. case Data_Database d database of
        Some di \<Rightarrow> RErr ErrDatabaseNotFound
      | None \<Rightarrow> RErr PanicNilDereference)"

definition Store_CreateRetentionPolicy ::
    "Raft \<Rightarrow> string \<Rightarrow> RetentionPolicyInfo \<Rightarrow> RetentionPolicyInfo option store_op" where
  "Store_CreateRetentionPolicy R database rpi =
     (if rpi_Duration rpi < MinRetentionPolicyDuration \<and> rpi_Duration rpi \<noteq> 0
      then sfail ErrRetentionPolicyDurationTooLow
      else sbind (Store_exec R (CreateRetentionPolicyCommand database (RetentionPolicyInfo_marshal rpi)))
             (\<lambda>_. Store_RetentionPolicy database (rpi_Name rpi)))"

definition Store_CreateRetentionPolicyIfNotExists ::
    "Raft \<Rightarrow> string \<Rightarrow> RetentionPolicyInfo \<Rightarrow> RetentionPolicyInfo option store_op" where
  "Store_CreateRetentionPolicyIfNotExists R database rpi =
     sbind (Store_RetentionPolicy database (rpi_Name rpi)) (\<lambda>r.
       case r of
         Some x \<Rightarrow> sret (Some x)
       | None \<Rightarrow> (\<lambda>s. case Store_CreateRetentionPolicy R database rpi s of
            (s', Inl ErrRetentionPolicyExists) \<Rightarrow> Store_RetentionPolicy database (rpi_Name rpi) s'
          | res \<Rightarrow> res))"

definition Store_SetDefaultRetentionPolicy :: "Raft \<Rightarrow> string \<Rightarrow> string \<Rightarrow> unit store_op" where
  "Store_SetDefaultRetentionPolicy R database name = Store_exec R (SetDefaultRetentionPolicyCommand database name)"

definition Store_UpdateRetentionPolicy ::
    "Raft \<Rightarrow> string \<Rightarrow> string \<Rightarrow> RetentionPolicyUpdate \<Rightarrow> unit store_op" where
  "Store_UpdateRetentionPolicy R database name rpu =
     Store_exec R (UpdateRetentionPolicyCommand database name (rpu_Name rpu) (rpu_Duration rpu)
       (map_option word_of_int (rpu_ReplicaN rpu)))"

definition Store_DropRetentionPolicy :: "Raft \<Rightarrow> string \<Rightarrow> string \<Rightarrow> unit store_op" where
  "Store_DropRetentionPolicy R database name = Store_exec R (DropRetentionPolicyCommand database name)"

definition AutoCreateRetentionPolicyName :: string where
  "AutoCreateRetentionPolicyName = ''default''"

definition AutoCreateRetentionPolicyPeriod :: duration where
  "AutoCreateRetentionPolicyPeriod = 0"

definition MaxAutoCreatedRetentionPolicyReplicaN :: int where
  "MaxAutoCreatedRetentionPolicyReplicaN = 3"

text \<open>\<open>auto\<close> is the configuration switch \<open>retentionAutoCreate\<close>.\<close>

definition auto_policy :: "NodeInfo list \<Rightarrow> RetentionPolicyInfo" where
  "auto_policy nodes =
     (NewRetentionPolicyInfo AutoCreateRetentionPolicyName)
       \<lparr>rpi_ReplicaN := (if int (length nodes) > MaxAutoCreatedRetentionPolicyReplicaN
                         then MaxAutoCreatedRetentionPolicyReplicaN else int (length nodes)),
        rpi_Duration := AutoCreateRetentionPolicyPeriod\<rparr>"

definition Store_CreateDatabase :: "Raft \<Rightarrow> bool \<Rightarrow> string \<Rightarrow> DatabaseInfo option store_op" where
  "Store_CreateDatabase R auto name =
     sbind (Store_exec R (CreateDatabaseCommand name)) (\<lambda>_.
       sbind (if auto
              then sbind (read_data (\<lambda>d. ROk (d_Nodes d))) (\<lambda>nodes.
                     sbind (Store_CreateRetentionPolicy R name (auto_policy nodes)) (\<lambda>_.
                       Store_SetDefaultRetentionPolicy R name AutoCreateRetentionPolicyName))
              else sret ()) (\<lambda>_.
         Store_Database name))"

definition Store_CreateDatabaseIfNotExists :: "Raft \<Rightarrow> bool \<Rightarrow> string \<Rightarrow> DatabaseInfo option store_op" where
  "Store_CreateDatabaseIfNotExists R auto name =
     sbind (Store_Database name) (\<lambda>r.
       case r of
         Some di \<Rightarrow> sret (Some di)
       | None \<Rightarrow> (\<lambda>s. case Store_CreateDatabase R auto name s of
            (s', Inl ErrDatabaseExists) \<Rightarrow> Store_Database name s'
          | res \<Rightarrow> res))"

definition Store_DropDatabase :: "Raft \<Rightarrow> string \<Rightarrow> unit store_op" where
  "Store_DropDatabase R name = Store_exec R (DropDatabaseCommand name)"

section \<open>Shard groups\<close>

definition Store_ShardGroups :: "string \<Rightarrow> string \<Rightarrow> ShardGroupInfo list store_op" where
  "Store_ShardGroups database policy = read_data (\<lambda>d. or_err ROk (Data_ShardGroups d database policy))"

definition Store_ShardGroupsByTimeRange ::
    "string \<Rightarrow> string \<Rightarrow> time \<Rightarrow> time \<Rightarrow> ShardGroupInfo list store_op" where
  "Store_ShardGroupsByTimeRange database policy tmin tmax =
     read_data (\<lambda>d. or_err ROk (Data_ShardGroupsByTimeRange d database policy tmin tmax))"

definition Store_ShardGroupByTimestamp :: "string \<Rightarrow> string \<Rightarrow> time \<Rightarrow> ShardGroupInfo option store_op" where
  "Store_ShardGroupByTimestamp database policy timestamp =
     read_data (\<lambda>d. or_err or_invalidate (Data_ShardGroupByTimestamp d database policy timestamp))"

definition Store_CreateShardGroup :: "Raft \<Rightarrow> string \<Rightarrow> string \<Rightarrow> time \<Rightarrow> ShardGroupInfo option store_op" where
  "Store_CreateShardGroup R database policy timestamp =
     sbind (Store_exec R (CreateShardGroupCommand database policy (time_UnixNano timestamp)))
       (\<lambda>_. Store_ShardGroupByTimestamp database policy timestamp)"

definition Store_CreateShardGroupIfNotExists ::
    "Raft \<Rightarrow> string \<Rightarrow> string \<Rightarrow> time \<Rightarrow> ShardGroupInfo option store_op" where
  "Store_CreateShardGroupIfNotExists R database policy timestamp =
     sbind (Store_ShardGroupByTimestamp database policy timestamp) (\<lambda>r.
       if (case r of Some sgi \<Rightarrow> \<not> ShardGroupInfo_Deleted sgi | None \<Rightarrow> False) then sret r
       else (\<lambda>s. case Store_CreateShardGroup R database policy timestamp s of
            (s', Inl ErrShardGroupExists) \<Rightarrow> Store_ShardGroupByTimestamp database policy timestamp s'
          | res \<Rightarrow> res))"

definition Store_DeleteShardGroup :: "Raft \<Rightarrow> string \<Rightarrow> string \<Rightarrow> u64 \<Rightarrow> unit store_op" where
  "Store_DeleteShardGroup R database policy gid = Store_exec R (DeleteShardGroupCommand database policy gid)"

definition Store_VisitRetentionPolicies :: "(DatabaseInfo \<times> RetentionPolicyInfo) list store_op" where
  "Store_VisitRetentionPolicies =
     read_data (\<lambda>d. ROk (concat (map (\<lambda>di. map (Pair di) (di_RetentionPolicies di)) (d_Databases d))))"

text \<open>The nested loops of \<open>ShardOwner\<close> visit the shards of live groups in order.\<close>

definition owned_shards :: "Data \<Rightarrow> (string \<times> string \<times> ShardGroupInfo \<times> ShardInfo) list" where
  "owned_shards d =
     concat (map (\<lambda>dbi. concat (map (\<lambda>rpi. concat (map (\<lambda>g. map (\<lambda>sh. (di_Name dbi, rpi_Name rpi, g, sh))
         (sgi_Shards g))
       (filter (\<lambda>g. \<not> ShardGroupInfo_Deleted g) (rpi_ShardGroups rpi))))
       (di_RetentionPolicies dbi))) (d_Databases d))"

definition Store_ShardOwner :: "u64 \<Rightarrow> (string \<times> string \<times> ShardGroupInfo) option store_op" where
  "Store_ShardOwner shardID =
     read_data (\<lambda>d. or_invalidate (map_option (\<lambda>(db, rp, g, _). (db, rp, g))
       (List.find (\<lambda>(_, _, _, sh). si_ID sh = shardID) (owned_shards d))))"

text \<open>
  \<open>PrecreateShardGroups\<close>: the loops run over the metadata as it was when the read began; a
  failure for one policy is logged and the loop goes on.
\<close>

definition precreate_due :: "time \<Rightarrow> time \<Rightarrow> RetentionPolicyInfo \<Rightarrow> ShardGroupInfo option" where
  "precreate_due from to rp =
     (if length (rpi_ShardGroups rp) = 0 then None
      else let g = rpi_ShardGroups rp ! (length (rpi_ShardGroups rp) - 1)
           in if \<not> ShardGroupInfo_Deleted g \<and> sgi_EndTime g < to \<and> sgi_EndTime g > from then Some g else None)"

definition precreate_one :: "Raft \<Rightarrow> time \<Rightarrow> time \<Rightarrow> string \<times> RetentionPolicyInfo \<Rightarrow> unit store_op" where
  "precreate_one R from to = (\<lambda>(db, rp) s.
     case precreate_due from to rp of
       None \<Rightarrow> (s, Inr ())
     | Some g \<Rightarrow>
         (case Store_CreateShardGroupIfNotExists R db (rpi_Name rp) (sgi_EndTime g + 1) s of
            (s', Inl e) \<Rightarrow> if is_panic e then (s', Inl e) else (s', Inr ())
          | (s', Inr None) \<Rightarrow> (s', Inl PanicNilDereference)
          | (s', Inr (Some newGroup)) \<Rightarrow> (s', Inr ())))"

fun precreate_loop :: "Raft \<Rightarrow> time \<Rightarrow> time \<Rightarrow> (string \<times> RetentionPolicyInfo) list \<Rightarrow> unit store_op" where
  "precreate_loop R from to [] = sret ()"
| "precreate_loop R from to (x # xs) = sbind (precreate_one R from to x) (\<lambda>_. precreate_loop R from to xs)"

definition Store_PrecreateShardGroups :: "Raft \<Rightarrow> time \<Rightarrow> time \<Rightarrow> unit store_op" where
  "Store_PrecreateShardGroups R from to s =
     precreate_loop R from to (concat (map (\<lambda>di. map (Pair (di_Name di)) (di_RetentionPolicies di))
       (d_Databases (fsm_data s)))) s"

section \<open>Continuous queries and subscriptions\<close>

definition Store_CreateContinuousQuery :: "Raft \<Rightarrow> string \<Rightarrow> string \<Rightarrow> string \<Rightarrow> unit store_op" where
  "Store_CreateContinuousQuery R database name query =
     Store_exec R (CreateContinuousQueryCommand database name query)"

definition Store_DropContinuousQuery :: "Raft \<Rightarrow> string \<Rightarrow> string \<Rightarrow> unit store_op" where
  "Store_DropContinuousQuery R database name = Store_exec R (DropContinuousQueryCommand database name)"

definition Store_CreateSubscription ::
    "Raft \<Rightarrow> string \<Rightarrow> string \<Rightarrow> string \<Rightarrow> string \<Rightarrow> string list \<Rightarrow> unit store_op" where
  "Store_CreateSubscription R database rp name mode destinations =
     Store_exec R (CreateSubscriptionCommand database rp name mode destinations)"

definition Store_DropSubscription :: "Raft \<Rightarrow> string \<Rightarrow> string \<Rightarrow> string \<Rightarrow> unit store_op" where
  "Store_DropSubscription R database rp name = Store_exec R (DropSubscriptionCommand database rp name)"

section \<open>Users\<close>

definition Store_User :: "string \<Rightarrow> UserInfo option store_op" where
  "Store_User name = read_data (\<lambda>d. or_invalidate (Data_User d name))"

definition Store_Users :: "UserInfo list store_op" where
  "Store_Users = read_data (\<lambda>d. ROk (d_Users d))"

definition Store_AdminUserExists :: "bool store_op" where
  "Store_AdminUserExists = read_data (\<lambda>d. ROk (list_ex ui_Admin (d_Users d)))"

text \<open>
  The cryptographic functions: \<open>bcrypt.CompareHashAndPassword\<close> (whether it accepts),
  \<open>sha256\<close>, and the hash function for new passwords.
\<close>

record Crypto =
  cr_compare :: "string \<Rightarrow> string \<Rightarrow> bool"
  cr_sha256 :: "byte list \<Rightarrow> byte list"
  cr_hashPassword :: "string \<Rightarrow> string option"

definition bytes_of :: "string \<Rightarrow> byte list" where
  "bytes_of s = map of_char s"

definition Store_hashWithSalt :: "Crypto \<Rightarrow> byte list \<Rightarrow> string \<Rightarrow> byte list" where
  "Store_hashWithSalt C salt password = cr_sha256 C (salt @ bytes_of password)"

text \<open>\<open>salt\<close> is what \<open>crand.Reader\<close> delivers, \<open>None\<close> when it fails.\<close>

definition Store_saltedHash :: "Crypto \<Rightarrow> byte list option \<Rightarrow> string \<Rightarrow> (byte list \<times> byte list) mresult" where
  "Store_saltedHash C salt password =
     (case salt of None \<Rightarrow> Inl ErrSalt | Some sl \<Rightarrow> Inr (sl, Store_hashWithSalt C sl password))"

text \<open>
  The closure that \<open>Authenticate\<close> hands to \<open>read\<close>.  Its argument \<open>data\<close> is the metadata \<open>read\<close> took
  under the read lock; the state \<open>s\<close>, with the cache, is the one after the closure itself has
  taken the write lock.  Commands applied in between make the two differ.
\<close>

definition authenticate_fn ::
    "Crypto \<Rightarrow> byte list option \<Rightarrow> string \<Rightarrow> string \<Rightarrow> Data \<Rightarrow> storeFSM \<Rightarrow> storeFSM \<times> UserInfo option read_result" where
  "authenticate_fn C salt username password data s =
     (case Data_User data username of
        None \<Rightarrow> (s, RErr ErrUserNotFound)
      | Some u \<Rightarrow>
          (case map_of (fsm_authCache s) username of
             Some au \<Rightarrow>
               if Store_hashWithSalt C (au_salt au) password = au_hash au then (s, ROk (Some u))
               else (s, RErr ErrAuthenticate)
           | None \<Rightarrow>
               if \<not> cr_compare C (ui_Hash u) password then (s, RErr ErrAuthenticate)
               else (case Store_saltedHash C salt password of
                   Inl e \<Rightarrow> (s, RErr e)
                 | Inr (sl, hashed) \<Rightarrow>
                     (s\<lparr>fsm_authCache := AList.update username \<lparr>au_salt = sl, au_hash = hashed\<rparr> (fsm_authCache s)\<rparr>,
                      ROk (Some u)))))"

text \<open>\<open>Authenticate\<close> with no command applied between the two locks.\<close>

definition Store_Authenticate ::
    "Crypto \<Rightarrow> byte list option \<Rightarrow> string \<Rightarrow> string \<Rightarrow> UserInfo option store_op" where
  "Store_Authenticate C salt username password = Store_read (\<lambda>s. authenticate_fn C salt username password (fsm_data s) s)"

definition Store_CreateUser :: "Raft \<Rightarrow> Crypto \<Rightarrow> string \<Rightarrow> string \<Rightarrow> bool \<Rightarrow> UserInfo option store_op" where
  "Store_CreateUser R C name password admin =
     (case cr_hashPassword C password of
        None \<Rightarrow> sfail ErrHashPassword
      | Some hash \<Rightarrow> sbind (Store_exec R (CreateUserCommand name hash admin)) (\<lambda>_. Store_User name))"

definition Store_DropUser :: "Raft \<Rightarrow> string \<Rightarrow> unit store_op" where
  "Store_DropUser R name = Store_exec R (DropUserCommand name)"

definition Store_UpdateUser :: "Raft \<Rightarrow> Crypto \<Rightarrow> string \<Rightarrow> string \<Rightarrow> unit store_op" where
  "Store_UpdateUser R C name password =
     (case cr_hashPassword C password of
        None \<Rightarrow> sfail ErrHashPassword
      | Some hash \<Rightarrow> Store_exec R (UpdateUserCommand name hash))"

definition Store_SetPrivilege :: "Raft \<Rightarrow> string \<Rightarrow> string \<Rightarrow> Privilege \<Rightarrow> unit store_op" where
  "Store_SetPrivilege R username database p = Store_exec R (SetPrivilegeCommand username database (word_of_int p))"

definition Store_SetAdminPrivilege :: "Raft \<Rightarrow> string \<Rightarrow> bool \<Rightarrow> unit store_op" where
  "Store_SetAdminPrivilege R username admin = Store_exec R (SetAdminPrivilegeCommand username admin)"

definition Store_UserPrivileges :: "string \<Rightarrow> (string \<times> Privilege) list store_op" where
  "Store_UserPrivileges username = read_data (\<lambda>d. or_err ROk (Data_UserPrivileges d username))"

definition Store_UserPrivilege :: "string \<Rightarrow> string \<Rightarrow> Privilege store_op" where
  "Store_UserPrivilege username database = read_data (\<lambda>d. or_err ROk (Data_UserPrivilege d username database))"

definition Store_UserCount :: "int store_op" where
  "Store_UserCount = read_data (\<lambda>d. ROk (int (length (d_Users d))))"

definition Store_SetData :: "Raft \<Rightarrow> Data \<Rightarrow> unit store_op" where
  "Store_SetData R d = Store_exec R (SetDataCommand (Data_marshal d))"

end
