(* ===== verification/Meta_Auth.thy ===== *)
theory Meta_Auth
  imports Meta_Store
begin

text \<open>
  Proofs about the client operations of \<open>Meta_Store\<close>: what \<open>exec\<close> and \<open>read\<close> do on the leader, that
  asking for the shard group of a time always yields one that contains it, and the invariant
  of the authentication cache that makes a cached answer as good as the stored hash.
\<close>

section \<open>The two entry points\<close>

text \<open>What the store relies on: the protobuf library decodes the command it encoded.\<close>

definition raft_encodes :: "Raft \<Rightarrow> Command \<Rightarrow> bool" where
  "raft_encodes R cmd \<longleftrightarrow> rft_unmarshal R (rft_marshal R cmd) = Some cmd"

lemma Store_exec_eq:
  assumes "raft_encodes R cmd" and "rft_next R s = Some (trm, idx, now)"
  shows "Store_exec R cmd s =
    (case finish_apply trm idx (apply_command now True cmd s) of
       Panicked p \<Rightarrow> (s, Inl p)
     | Applied s' None \<Rightarrow> (s', Inr ())
     | Applied s' (Some e) \<Rightarrow> (s', Inl e))"
  using assms by (simp add: Store_exec_def storeFSM_Apply_def raft_encodes_def)

lemma Store_exec_ok:
  assumes "raft_encodes R cmd" and "rft_next R s = Some (trm, idx, now)"
    and "data_command now cmd (fsm_data s) = Inr d"
  obtains s' where "Store_exec R cmd s = (s', Inr ())"
    and "fsm_data s' = d\<lparr>d_Term := trm, d_Index := idx\<rparr>"
proof -
  obtain c r where "apply_command now True cmd s = (s\<lparr>fsm_data := d, fsm_authCache := c, fsm_raft := r\<rparr>, None)"
    using apply_command_ok [OF assms(3)] .
  then show thesis
    by (intro that [of "s\<lparr>fsm_data := d\<lparr>d_Term := trm, d_Index := idx\<rparr>, fsm_authCache := c, fsm_raft := r,
        fsm_changed := fsm_changed s + 1\<rparr>"]) (simp_all add: Store_exec_eq [OF assms(1,2)] finish_apply_def)
qed

lemma read_data_eq:
  "read_data fn s = (s, case fn (fsm_data s) of ROk x \<Rightarrow> Inr x | RInvalidate x \<Rightarrow> Inr x | RErr e \<Rightarrow> Inl e)"
  by (simp add: read_data_def Store_read_def split: read_result.splits)

lemma Store_ShardGroupByTimestamp_eq:
  "Store_ShardGroupByTimestamp db p t s = (s, Data_ShardGroupByTimestamp (fsm_data s) db p t)"
  by (simp add: Store_ShardGroupByTimestamp_def read_data_eq or_err_def or_invalidate_def
      split: sum.splits option.splits)

section \<open>Getting a shard group\<close>

lemma find_policy_wf: "data_wf d \<Longrightarrow> find_policy d db p = Inr rpi \<Longrightarrow> policy_wf rpi"
  by (auto simp: find_policy_Inr data_wf_def names_wf_def database_wf_def Data_Database_def
      DatabaseInfo_RetentionPolicy_def dest!: find_mem)

lemma find_policy_bookkeeping [simp]:
  "find_policy (d\<lparr>d_Term := a, d_Index := b\<rparr>) db p = find_policy d db p"
  by (simp add: find_policy_def Data_RetentionPolicy_def Data_Database_def)

text \<open>In a well-formed catalogue with a node, a group can be created wherever none is live.\<close>

lemma Data_CreateShardGroup_succeeds:
  assumes r: "0 \<le> rpi_ReplicaN rpi" and n: "d_Nodes d \<noteq> []" and rp: "find_policy d db p = Inr rpi"
    and none: "RetentionPolicyInfo_ShardGroupByTimestamp rpi t = None"
  obtains d' where "Data_CreateShardGroup db p t d = Inr d'" and "d_Nodes d' = d_Nodes d"
    and "find_policy d' db p = Inr (rpi\<lparr>rpi_ShardGroups :=
           sort_groups (rpi_ShardGroups rpi @ [new_shard_group rpi t d])\<rparr>)"
proof -
  have "0 \<le> go_quot (int (length (d_Nodes d))) (effective_replicaN rpi d)"
    using replicas_bounds [OF n r] by (simp add: go_quot_nonneg div_int_pos_iff)
  then obtain d' where op: "Data_CreateShardGroup db p t d = Inr d'"
    using n rp none by (simp add: Data_CreateShardGroup_def Let_def leD)
  then have "find_policy d' db p = Inr (rpi\<lparr>rpi_ShardGroups :=
      sort_groups (rpi_ShardGroups rpi @ [new_shard_group rpi t d])\<rparr>) \<and> d_Nodes d' = d_Nodes d"
  proof (rule Data_CreateShardGroup_Inr)
    fix rpi' assume "find_policy d db p = Inr rpi'"
      and d': "d' = on_database db (on_policy p (\<lambda>rp. rp\<lparr>rpi_ShardGroups :=
               sort_groups (rpi_ShardGroups rp @ [new_shard_group rpi' t d])\<rparr>))
             (d\<lparr>d_MaxShardGroupID := d_MaxShardGroupID d + 1,
                d_MaxShardID := snd (new_shards (nat (go_quot (int (length (d_Nodes d)))
                   (effective_replicaN rpi' d))) (d_MaxShardID d))\<rparr>)"
    with rp have "rpi' = rpi" by simp
    with rp show ?thesis unfolding d' by (subst find_policy_on_policy) simp_all
  qed
  with op show thesis using that by blast
qed

text \<open>Once there is a live group for the time, the lookup finds one.\<close>

lemma ShardGroupByTimestamp_finds:
  assumes "g \<in> set (rpi_ShardGroups rp)" and "ShardGroupInfo_Contains g t" and "\<not> ShardGroupInfo_Deleted g"
  obtains h where "RetentionPolicyInfo_ShardGroupByTimestamp rp t = Some h"
    and "h \<in> set (rpi_ShardGroups rp)" and "ShardGroupInfo_Contains h t" and "\<not> ShardGroupInfo_Deleted h"
proof (cases "RetentionPolicyInfo_ShardGroupByTimestamp rp t")
  case None
  with assms show ?thesis by (auto simp: RetentionPolicyInfo_ShardGroupByTimestamp_def find_None_iff)
next
  case (Some h)
  with ShardGroupByTimestamp_SomeD [OF Some] that show ?thesis by blast
qed

lemma get_shard_group_found:
  assumes "find_policy (fsm_data s) db p = Inr rpi" and "RetentionPolicyInfo_ShardGroupByTimestamp rpi t = Some g"
  shows "Store_CreateShardGroupIfNotExists R db p t s = (s, Inr (Some g))"
  using ShardGroupByTimestamp_SomeD [OF assms(2)] assms
  by (simp add: Store_CreateShardGroupIfNotExists_def sbind_def sret_def Store_ShardGroupByTimestamp_eq Data_ShardGroupByTimestamp_def)

lemma get_shard_group_made:
  assumes raft: "raft_encodes R (CreateShardGroupCommand db p (time_UnixNano t))" and next': "rft_next R s \<noteq> None"
    and r: "0 \<le> rpi_ReplicaN rpi" and pos: "0 < rpi_ShardGroupDuration rpi"
    and n: "d_Nodes (fsm_data s) \<noteq> []" and rp: "find_policy (fsm_data s) db p = Inr rpi"
    and t: "is_int64 (t - unix_epoch)" and none: "RetentionPolicyInfo_ShardGroupByTimestamp rpi t = None"
    and rpi': "rpi' = rpi\<lparr>rpi_ShardGroups := sort_groups (rpi_ShardGroups rpi @ [new_shard_group rpi t (fsm_data s)])\<rparr>"
  obtains s' g where "Store_CreateShardGroupIfNotExists R db p t s = (s', Inr (Some g))"
    and "find_policy (fsm_data s') db p = Inr rpi'" and "d_Nodes (fsm_data s') = d_Nodes (fsm_data s)"
    and "RetentionPolicyInfo_ShardGroupByTimestamp rpi' t = Some g"
proof -
  let ?d = "fsm_data s" and ?g = "new_shard_group rpi t (fsm_data s)"
  obtain d' where op: "Data_CreateShardGroup db p t ?d = Inr d'" and nodes: "d_Nodes d' = d_Nodes ?d"
    and fp: "find_policy d' db p = Inr rpi'"
    using Data_CreateShardGroup_succeeds [OF r n rp none] unfolding rpi' .
  obtain trm idx now where nx: "rft_next R s = Some (trm, idx, now)" using next' by auto
  have "data_command now (CreateShardGroupCommand db p (time_UnixNano t)) ?d = Inr d'"
    using op t by (simp add: time_Unix0_UnixNano)
  then obtain s' where ex: "Store_exec R (CreateShardGroupCommand db p (time_UnixNano t)) s = (s', Inr ())"
      and s': "fsm_data s' = d'\<lparr>d_Term := trm, d_Index := idx\<rparr>"
    by (rule Store_exec_ok [OF raft nx])
  have g: "ShardGroupInfo_Contains ?g t" "\<not> ShardGroupInfo_Deleted ?g"
    using new_shard_group_contains [OF pos, of t ?d] by simp_all
  have "?g \<in> set (rpi_ShardGroups rpi')" by (simp add: rpi')
  then obtain h where h: "RetentionPolicyInfo_ShardGroupByTimestamp rpi' t = Some h"
    using g by (rule ShardGroupByTimestamp_finds)
  have "Store_CreateShardGroupIfNotExists R db p t s = (s', Inr (Some h))"
    using rp none fp ex s' h(1)
    by (simp add: Store_CreateShardGroupIfNotExists_def Store_CreateShardGroup_def sbind_def
        Store_ShardGroupByTimestamp_eq Data_ShardGroupByTimestamp_def)
  then show thesis using fp s' h nodes by (intro that [of s' h]) simp_all
qed

lemma get_shard_group:
  assumes raft: "raft_encodes R (CreateShardGroupCommand db p (time_UnixNano t))" and next': "rft_next R s \<noteq> None" and wf: "data_wf (fsm_data s)"
    and n: "d_Nodes (fsm_data s) \<noteq> []" and rp: "find_policy (fsm_data s) db p = Inr rpi"
    and t: "is_int64 (t - unix_epoch)"
  obtains s' rpi' g where "Store_CreateShardGroupIfNotExists R db p t s = (s', Inr (Some g))"
    and "find_policy (fsm_data s') db p = Inr rpi'" and "g \<in> set (rpi_ShardGroups rpi')"
    and "ShardGroupInfo_Contains g t" and "\<not> ShardGroupInfo_Deleted g"
    and "RetentionPolicyInfo_ShardGroupByTimestamp rpi' t = Some g"
proof (cases "RetentionPolicyInfo_ShardGroupByTimestamp rpi t")
  case (Some g)
  then show ?thesis
    using ShardGroupByTimestamp_SomeD [OF Some] get_shard_group_found [OF rp Some, of R] rp by (intro that [of s g rpi]) simp_all
next
  case None
  have pos: "0 \<le> rpi_ReplicaN rpi" "0 < rpi_ShardGroupDuration rpi"
    using find_policy_wf [OF wf rp] by (simp_all add: policy_wf_def)
  let ?rpi = "rpi\<lparr>rpi_ShardGroups := sort_groups (rpi_ShardGroups rpi @ [new_shard_group rpi t (fsm_data s)])\<rparr>"
  obtain s' g where g: "Store_CreateShardGroupIfNotExists R db p t s = (s', Inr (Some g))"
    "find_policy (fsm_data s') db p = Inr ?rpi" "RetentionPolicyInfo_ShardGroupByTimestamp ?rpi t = Some g"
    using get_shard_group_made [OF raft next' pos n rp t None refl] .
  then show ?thesis using ShardGroupByTimestamp_SomeD [OF g(3)] by (intro that [of s' g ?rpi]) simp_all
qed

section \<open>Aligned groups\<close>

text \<open>The groups of a policy start at multiples of its duration and last for it, and no two live ones start together.\<close>

definition live_starts :: "RetentionPolicyInfo \<Rightarrow> time list" where
  "live_starts rp = map sgi_StartTime (filter (\<lambda>g. \<not> ShardGroupInfo_Deleted g) (rpi_ShardGroups rp))"

definition policy_aligned :: "RetentionPolicyInfo \<Rightarrow> bool" where
  "policy_aligned rp \<longleftrightarrow> (\<forall>g\<in>set (rpi_ShardGroups rp). rpi_ShardGroupDuration rp dvd sgi_StartTime g \<and>
     sgi_EndTime g = sgi_StartTime g + rpi_ShardGroupDuration rp) \<and> distinct (live_starts rp)"

lemma aligned_unique:
  fixes a b k x :: int
  assumes "k dvd a" and "k dvd b" and "a \<le> x" and "x < a + k" and "b \<le> x" and "x < b + k"
  shows "a = b"
proof -
  have "k dvd a - b" using assms(1,2) by simp
  moreover have "\<bar>a - b\<bar> < k" using assms by linarith
  ultimately show ?thesis by (metis abs_ge_zero dvd_imp_le_int eq_iff_diff_eq_0 leD abs_of_pos order_le_less_trans)
qed

lemma policy_aligned_disjoint:
  assumes "policy_aligned rp" and "g \<in> set (rpi_ShardGroups rp)" and "h \<in> set (rpi_ShardGroups rp)"
    and "ShardGroupInfo_Contains g x" and "ShardGroupInfo_Contains h x"
  shows "sgi_StartTime g = sgi_StartTime h"
  using assms aligned_unique [of "rpi_ShardGroupDuration rp" "sgi_StartTime g" "sgi_StartTime h" x]
  by (simp add: policy_aligned_def ShardGroupInfo_Contains_def)

lemma policy_aligned_new:
  assumes al: "policy_aligned rp" and pos: "0 < rpi_ShardGroupDuration rp"
    and none: "RetentionPolicyInfo_ShardGroupByTimestamp rp t = None"
  shows "policy_aligned (rp\<lparr>rpi_ShardGroups := sort_groups (rpi_ShardGroups rp @ [new_shard_group rp t d])\<rparr>)"
proof -
  let ?g = "new_shard_group rp t d"
  have "sgi_StartTime ?g \<notin> set (live_starts rp)"
  proof
    assume "sgi_StartTime ?g \<in> set (live_starts rp)"
    then obtain h where "h \<in> set (rpi_ShardGroups rp)" "\<not> ShardGroupInfo_Deleted h"
        "sgi_StartTime h = sgi_StartTime ?g" by (auto simp: live_starts_def)
    moreover from this al have "ShardGroupInfo_Contains h t"
      using new_shard_group_contains [OF pos, of t d] by (simp add: policy_aligned_def ShardGroupInfo_Contains_def)
    ultimately show False using none
      by (auto simp: RetentionPolicyInfo_ShardGroupByTimestamp_def find_None_iff)
  qed
  then have "distinct (live_starts rp @ [sgi_StartTime ?g])" using al by (simp add: policy_aligned_def)
  moreover have "mset (live_starts (rp\<lparr>rpi_ShardGroups := sort_groups (rpi_ShardGroups rp @ [?g])\<rparr>)) =
      mset (live_starts rp @ [sgi_StartTime ?g])"
    using new_shard_group_contains [OF pos, of t d] by (simp add: live_starts_def mset_filter)
  ultimately have "distinct (live_starts (rp\<lparr>rpi_ShardGroups := sort_groups (rpi_ShardGroups rp @ [?g])\<rparr>))"
    using mset_eq_imp_distinct_iff by blast
  with al show ?thesis by (auto simp: policy_aligned_def time_Truncate_dvd [OF pos])
qed

section \<open>The authentication cache\<close>

text \<open>Every cached entry belongs to a user and was made from a password the stored hash accepts.\<close>

definition cache_ok :: "Crypto \<Rightarrow> storeFSM \<Rightarrow> bool" where
  "cache_ok C s \<longleftrightarrow> (\<forall>u au. map_of (fsm_authCache s) u = Some au \<longrightarrow>
     (\<exists>ui pw. Data_User (fsm_data s) u = Some ui \<and> cr_compare C (ui_Hash ui) pw \<and>
       au_hash au = Store_hashWithSalt C (au_salt au) pw))"

lemma cache_ok_new: "cache_ok C (new_storeFSM i)"
  by (simp add: cache_ok_def new_storeFSM_def)

fun forgets :: "Command \<Rightarrow> string \<Rightarrow> bool" where
  "forgets (DropUserCommand name) u = (u = name)"
| "forgets (UpdateUserCommand name hash) u = (u = name)"
| "forgets (SetDataCommand pb) u = True"
| "forgets cmd u = False"

lemma apply_command_cache:
  assumes "\<And>pb. cmd \<noteq> SetDataCommand pb" and "data_command now cmd (fsm_data s) = Inr d"
  shows "map_of (fsm_authCache (fst (apply_command now ld cmd s))) u =
    (if forgets cmd u then None else map_of (fsm_authCache s) u)"
  using assms
  by (cases cmd)
    (auto simp: apply_defs apply_data_def forget_auth_def Let_def map_sum_def delete_conv'
      split: sum.splits option.splits prod.splits)

lemma Data_User_on_user:
  assumes "\<And>x. ui_Name (f x) = ui_Name x"
  shows "Data_User (on_user name f d) u =
    (if u = name then map_option f (Data_User d name) else Data_User d u)"
  unfolding Data_User_def on_user_def
  by (rule users.lookup_update) (simp add: assms)

lemma Data_User_cong: "d_Users d' = d_Users d \<Longrightarrow> Data_User d' u = Data_User d u"
  by (simp add: Data_User_def)

lemma Data_User_DropUser:
  assumes "Data_DropUser name d = Inr d'" and "u \<noteq> name"
  shows "Data_User d' u = Data_User d u"
proof -
  from assms(1) obtain us where del: "del_first (\<lambda>ui. ui_Name ui = name) (d_Users d) = Some us"
      and d': "d' = d\<lparr>d_Users := us\<rparr>"
    by (auto simp: Data_DropUser_def split: option.splits)
  have "List.find (\<lambda>x. ui_Name x = u) us = List.find (\<lambda>x. ui_Name x = u) (d_Users d)"
    using del assms(2)
  proof (induction "d_Users d" arbitrary: us d)
    case (Cons x xs)
    from Cons(2) [symmetric] Cons(1) [of "d\<lparr>d_Users := xs\<rparr>"] Cons(3,4) show ?case
      by (auto split: if_splits)
  qed simp
  then show ?thesis by (simp add: Data_User_def d')
qed

definition user_command :: "Command \<Rightarrow> bool" where
  "user_command cmd = (case cmd of CreateUserCommand _ _ _ \<Rightarrow> True | DropUserCommand _ \<Rightarrow> True
     | UpdateUserCommand _ _ \<Rightarrow> True | SetPrivilegeCommand _ _ _ \<Rightarrow> True
     | SetAdminPrivilegeCommand _ _ \<Rightarrow> True | SetDataCommand _ \<Rightarrow> True | _ \<Rightarrow> False)"

lemma data_command_users:
  assumes "\<not> user_command cmd" and "data_command now cmd d = Inr d'"
  shows "d_Users d' = d_Users d"
  using assms
  by (cases cmd)
    (auto simp: user_command_def map_sum_def Data_CreateNode_def Data_DeleteNode_def Data_CreateDatabase_def
      Data_DropDatabase_def Data_CreateRetentionPolicy_def Data_DropRetentionPolicy_def
      Data_UpdateRetentionPolicy_def Data_SetDefaultRetentionPolicy_def Data_DeleteShardGroup_def
      Data_CreateShardGroup_def Let_def
      Data_CreateContinuousQuery_def Data_DropContinuousQuery_def Data_CreateSubscription_def
      Data_DropSubscription_def split: if_splits option.splits sum.splits)

text \<open>A command that does not forget a user keeps the user and the stored hash.\<close>

lemma data_command_keeps_hash:
  assumes op: "data_command now cmd d = Inr d'" and nf: "\<not> forgets cmd u" and ui: "Data_User d u = Some ui"
  obtains ui' where "Data_User d' u = Some ui'" and "ui_Hash ui' = ui_Hash ui"
proof (cases "user_command cmd")
  case False
  then have "d_Users d' = d_Users d" using op by (rule data_command_users)
  then have "Data_User d' u = Some ui" using ui by (simp add: Data_User_def)
  then show ?thesis by (rule that) simp
next
  case True
  then show ?thesis
  proof (cases cmd)
    case (DropUserCommand name)
    with op nf ui Data_User_DropUser [of name d d' u] that show ?thesis by simp
  next
    case (UpdateUserCommand name hash)
    with op nf ui that show ?thesis
      by (auto simp: Data_UpdateUser_def Data_User_on_user split: if_splits)
  next
    case (SetPrivilegeCommand name db priv)
    with op ui that show ?thesis
      by (cases "u = name") (auto simp: Data_SetPrivilege_def Data_User_on_user split: if_splits)
  next
    case (SetAdminPrivilegeCommand name admin)
    with op ui that show ?thesis
      by (cases "u = name") (auto simp: Data_SetAdminPrivilege_def Data_User_on_user split: if_splits)
  next
    case (CreateUserCommand name hash admin)
    with op have "Data_User d' u = Data_User d u"
      using ui by (auto simp: Data_CreateUser_def Data_User_def find_append split: if_splits)
    with ui that show ?thesis by simp
  next
    case (SetDataCommand pb)
    with nf show ?thesis by simp
  qed (simp_all add: user_command_def)
qed

lemma cache_ok_apply:
  assumes ok: "cache_ok C s" and cmd: "\<And>pb. cmd \<noteq> SetDataCommand pb"
    and ap: "finish_apply trm idx (apply_command now ld cmd s) = Applied s' r"
  shows "cache_ok C s'"
proof (cases "data_command now cmd (fsm_data s)")
  case (Inl e)
  with ap ok show ?thesis
    by (auto simp: apply_command_error finish_apply_def cache_ok_def Data_User_def split: if_splits)
next
  case (Inr d)
  obtain c r' where ac: "apply_command now ld cmd s = (s\<lparr>fsm_data := d, fsm_authCache := c, fsm_raft := r'\<rparr>, None)"
    using apply_command_ok [OF Inr] .
  have s': "fsm_authCache s' = c" "Data_User (fsm_data s') u = Data_User d u" for u
    using ap by (auto simp: ac finish_apply_def Data_User_def)
  have c: "map_of c u = (if forgets cmd u then None else map_of (fsm_authCache s) u)" for u
    using apply_command_cache [OF cmd Inr, of ld u] by (simp add: ac)
  show ?thesis
    unfolding cache_ok_def s'
  proof (intro allI impI)
    fix u au assume "map_of c u = Some au"
    then have nf: "\<not> forgets cmd u" and "map_of (fsm_authCache s) u = Some au"
      by (simp_all add: c split: if_splits)
    with ok obtain ui pw where ui: "Data_User (fsm_data s) u = Some ui" and pw: "cr_compare C (ui_Hash ui) pw"
        "au_hash au = Store_hashWithSalt C (au_salt au) pw"
      unfolding cache_ok_def by blast
    obtain ui' where "Data_User d u = Some ui'" "ui_Hash ui' = ui_Hash ui"
      using data_command_keeps_hash [OF Inr nf ui] .
    with pw show "\<exists>ui pw. Data_User d u = Some ui \<and> cr_compare C (ui_Hash ui) pw \<and>
        au_hash au = Store_hashWithSalt C (au_salt au) pw" by auto
  qed
qed

lemma authenticate_fn_state:
  "fst (authenticate_fn C salt u pw d s) = s \<or>
     (\<exists>ui sl. Data_User d u = Some ui \<and> cr_compare C (ui_Hash ui) pw \<and>
       fst (authenticate_fn C salt u pw d s) = s\<lparr>fsm_authCache :=
         AList.update u \<lparr>au_salt = sl, au_hash = Store_hashWithSalt C sl pw\<rparr> (fsm_authCache s)\<rparr>)"
  by (simp add: authenticate_fn_def Store_saltedHash_def split: option.split) blast

lemma cache_ok_update:
  assumes "cache_ok C s" and "Data_User (fsm_data s) u = Some ui" and "cr_compare C (ui_Hash ui) pw"
  shows "cache_ok C (s\<lparr>fsm_authCache :=
    AList.update u \<lparr>au_salt = sl, au_hash = Store_hashWithSalt C sl pw\<rparr> (fsm_authCache s)\<rparr>)"
  using assms by (auto simp: cache_ok_def update_conv')

lemma cache_ok_authenticate_fn:
  assumes "cache_ok C s" and "authenticate_fn C salt u pw (fsm_data s) s = (s', r)"
  shows "cache_ok C s'"
proof -
  have "s' = fst (authenticate_fn C salt u pw (fsm_data s) s)" using assms(2) by simp
  then show ?thesis
    using authenticate_fn_state [of C salt u pw "fsm_data s" s] cache_ok_update [OF assms(1)] assms(1)
    by (elim disjE exE conjE) (simp_all only:)
qed

lemma cache_ok_Authenticate:
  assumes "cache_ok C s" and "Store_Authenticate C salt u pw s = (s', r)"
  shows "cache_ok C s'"
proof -
  obtain s1 r1 where 1: "authenticate_fn C salt u pw (fsm_data s) s = (s1, r1)" by fastforce
  obtain s2 r2 where 2: "authenticate_fn C salt u pw (fsm_data s1) s1 = (s2, r2)" by fastforce
  from cache_ok_authenticate_fn [OF assms(1) 1] have ok1: "cache_ok C s1" .
  from cache_ok_authenticate_fn [OF ok1 2] have "cache_ok C s2" .
  with ok1 assms(2) 1 2 show ?thesis
    by (simp add: Store_Authenticate_def Store_read_def split: read_result.splits)
qed

lemma authenticate_fn_error_state:
  "authenticate_fn C salt u pw (fsm_data s) s = (s', r) \<Longrightarrow> (\<And>x. r \<noteq> ROk x) \<Longrightarrow> s' = s"
  by (auto simp: authenticate_fn_def split: option.splits if_splits sum.splits)

text \<open>The retry after an error sees the same state and gives the same answer.\<close>

lemma Store_Authenticate_eq:
  "Store_Authenticate C salt u pw s =
     (case authenticate_fn C salt u pw (fsm_data s) s of
        (s', ROk x) \<Rightarrow> (s', Inr x) | (s', RInvalidate x) \<Rightarrow> (s', Inr x) | (s', RErr e) \<Rightarrow> (s', Inl e))"
proof -
  obtain s1 r1 where 1: "authenticate_fn C salt u pw (fsm_data s) s = (s1, r1)" by fastforce
  show ?thesis
  proof (cases r1)
    case (ROk x)
    with 1 show ?thesis by (simp add: Store_Authenticate_def Store_read_def)
  qed (use 1 authenticate_fn_error_state [OF 1] in
      \<open>simp_all add: Store_Authenticate_def Store_read_def\<close>)
qed

text \<open>
  A login that succeeds did so with a password the stored hash accepts, or with one that
  collides with such a password under the salted hash.
\<close>

lemma Authenticate_sound:
  assumes ok: "cache_ok C s" and r: "Store_Authenticate C salt u pw s = (s', Inr x)"
  obtains ui where "Data_User (fsm_data s) u = Some ui" and "x = Some ui"
    and "cr_compare C (ui_Hash ui) pw \<or> (\<exists>au q. map_of (fsm_authCache s) u = Some au \<and> q \<noteq> pw \<and>
      cr_compare C (ui_Hash ui) q \<and> Store_hashWithSalt C (au_salt au) q = Store_hashWithSalt C (au_salt au) pw)"
proof -
  from r obtain ui where ui: "Data_User (fsm_data s) u = Some ui" and x: "x = Some ui"
    by (auto simp: Store_Authenticate_eq authenticate_fn_def split: option.splits if_splits sum.splits)
  show thesis
  proof (rule that [OF ui x])
    show "cr_compare C (ui_Hash ui) pw \<or> (\<exists>au q. map_of (fsm_authCache s) u = Some au \<and> q \<noteq> pw \<and>
      cr_compare C (ui_Hash ui) q \<and> Store_hashWithSalt C (au_salt au) q = Store_hashWithSalt C (au_salt au) pw)"
    proof (cases "map_of (fsm_authCache s) u")
      case None
      with r ui show ?thesis
        by (auto simp: Store_Authenticate_eq authenticate_fn_def split: if_splits sum.splits)
    next
      case (Some au)
      from ok [unfolded cache_ok_def, rule_format, OF Some] ui
      obtain q where q: "cr_compare C (ui_Hash ui) q" "au_hash au = Store_hashWithSalt C (au_salt au) q"
        by auto
      from r ui Some have "Store_hashWithSalt C (au_salt au) pw = au_hash au"
        by (auto simp: Store_Authenticate_eq authenticate_fn_def split: if_splits)
      with q Some show ?thesis by (cases "q = pw") auto
    qed
  qed
qed

text \<open>After a successful login the same password is accepted from the cache.\<close>

lemma Authenticate_again:
  assumes "Store_Authenticate C salt u pw s = (s', Inr x)"
  shows "Store_Authenticate C salt' u pw s' = (s', Inr x)"
proof (cases "Data_User (fsm_data s) u")
  case None
  with assms show ?thesis by (simp add: Store_Authenticate_eq authenticate_fn_def)
next
  case (Some ui)
  have x: "x = Some ui"
    using assms Some by (simp add: Store_Authenticate_eq authenticate_fn_def Store_saltedHash_def
        split: option.splits if_splits)
  show ?thesis
    using assms Some unfolding x
    by (auto simp: Store_Authenticate_eq authenticate_fn_def Store_saltedHash_def update_conv'
        split: option.splits if_splits)
qed

section \<open>Histories of a store\<close>

text \<open>
  The histories in which the cache follows the stored hashes: commands applied from the log,
  other than the overwriting of all metadata, and logins, in any order, but with no command
  applied while a login is between its two locks.
\<close>

inductive auth_reach :: "Crypto \<Rightarrow> storeFSM \<Rightarrow> bool" for C where
  auth_init: "auth_reach C (new_storeFSM i)"
| auth_apply: "auth_reach C s \<Longrightarrow> (\<And>pb. cmd \<noteq> SetDataCommand pb) \<Longrightarrow>
    finish_apply trm idx (apply_command now ld cmd s) = Applied s' r \<Longrightarrow> auth_reach C s'"
| auth_login: "auth_reach C s \<Longrightarrow> Store_Authenticate C salt u pw s = (s', r) \<Longrightarrow> auth_reach C s'"

lemma auth_reach_cache_ok: "auth_reach C s \<Longrightarrow> cache_ok C s"
  by (induction rule: auth_reach.induct) (auto intro: cache_ok_new cache_ok_apply cache_ok_Authenticate)

text \<open>
  All histories.  Every command may be applied; the metadata may be replaced at any time, as
  \<open>Restore\<close> and \<open>updateMetaData\<close> do; and the closure of a login may run with any metadata the store
  has had, which is what a login delayed between its two locks holds.  The list collects the
  metadata of the history, latest first.
\<close>

inductive auth_history :: "Crypto \<Rightarrow> Data list \<Rightarrow> storeFSM \<Rightarrow> bool" for C where
  hist_init: "auth_history C [fsm_data (new_storeFSM i)] (new_storeFSM i)"
| hist_apply: "auth_history C ds s \<Longrightarrow> finish_apply trm idx (apply_command now ld cmd s) = Applied s' r \<Longrightarrow>
    auth_history C (fsm_data s' # ds) s'"
| hist_replace: "auth_history C ds s \<Longrightarrow> auth_history C (d # ds) (s\<lparr>fsm_data := d\<rparr>)"
| hist_login: "auth_history C ds s \<Longrightarrow> d \<in> set ds \<Longrightarrow> authenticate_fn C salt u pw d s = (s', r) \<Longrightarrow>
    auth_history C ds s'"

text \<open>Every cached entry was made from a password that a hash once stored for its user accepts.\<close>

definition cache_seen :: "Crypto \<Rightarrow> Data list \<Rightarrow> storeFSM \<Rightarrow> bool" where
  "cache_seen C ds s \<longleftrightarrow> (\<forall>u au. map_of (fsm_authCache s) u = Some au \<longrightarrow>
     (\<exists>d\<in>set ds. \<exists>ui pw. Data_User d u = Some ui \<and> cr_compare C (ui_Hash ui) pw \<and>
       au_hash au = Store_hashWithSalt C (au_salt au) pw))"

lemma cache_seen_mono:
  assumes "cache_seen C ds s" and "set ds \<subseteq> set ds'"
    and "\<And>u au. map_of (fsm_authCache s') u = Some au \<Longrightarrow> map_of (fsm_authCache s) u = Some au"
  shows "cache_seen C ds' s'"
  unfolding cache_seen_def
proof (intro allI impI)
  fix u au assume "map_of (fsm_authCache s') u = Some au"
  from assms(1) [unfolded cache_seen_def, rule_format, OF assms(3) [OF this]] assms(2)
  show "\<exists>d\<in>set ds'. \<exists>ui pw. Data_User d u = Some ui \<and> cr_compare C (ui_Hash ui) pw \<and>
      au_hash au = Store_hashWithSalt C (au_salt au) pw" by blast
qed

lemma apply_cache_subset:
  assumes "finish_apply trm idx (apply_command now ld cmd s) = Applied s' r"
    and "map_of (fsm_authCache s') u = Some au"
  shows "map_of (fsm_authCache s) u = Some au"
proof (cases "data_command now cmd (fsm_data s)")
  case (Inl e)
  with assms show ?thesis by (auto simp: apply_command_error finish_apply_def split: if_splits)
next
  case (Inr d)
  have c: "fsm_authCache s' = fsm_authCache (fst (apply_command now ld cmd s))"
    using assms(1) by (auto simp: finish_apply_def split: prod.splits if_splits)
  show ?thesis
  proof (cases "\<exists>pb. cmd = SetDataCommand pb")
    case True
    with c assms(2) show ?thesis by (auto simp: applySetDataCommand_def)
  next
    case False
    then have "map_of (fsm_authCache s') u = (if forgets cmd u then None else map_of (fsm_authCache s) u)"
      using Inr unfolding c by (intro apply_command_cache) auto
    with assms(2) show ?thesis by (simp split: if_splits)
  qed
qed

lemma cache_seen_login:
  assumes "cache_seen C ds s" and "d \<in> set ds" and "authenticate_fn C salt u pw d s = (s', r)"
  shows "cache_seen C ds s'"
proof -
  have "s' = fst (authenticate_fn C salt u pw d s)" using assms(3) by simp
  with authenticate_fn_state [of C salt u pw d s] consider "s' = s"
    | ui sl where "Data_User d u = Some ui" "cr_compare C (ui_Hash ui) pw"
      "s' = s\<lparr>fsm_authCache := AList.update u \<lparr>au_salt = sl, au_hash = Store_hashWithSalt C sl pw\<rparr> (fsm_authCache s)\<rparr>"
    by auto
  then show ?thesis
  proof cases
    case 1
    with assms(1) show ?thesis by simp
  next
    case (2 ui sl)
    with assms(1,2) show ?thesis by (auto simp: cache_seen_def update_conv')
  qed
qed

lemma auth_history_seen: "auth_history C ds s \<Longrightarrow> cache_seen C ds s"
proof (induction rule: auth_history.induct)
  case (hist_init i)
  show ?case by (simp add: cache_seen_def new_storeFSM_def)
next
  case (hist_apply ds s trm idx now ld cmd s' r)
  show ?case by (rule cache_seen_mono [OF hist_apply.IH]) (auto intro: apply_cache_subset [OF hist_apply.hyps(2)])
next
  case (hist_replace ds s d)
  show ?case by (rule cache_seen_mono [OF hist_replace.IH]) auto
next
  case (hist_login ds s d salt u pw s' r)
  show ?case by (rule cache_seen_login [OF hist_login.IH hist_login.hyps(2,3)])
qed

end
