(* ===== verification/Meta_Props.thy ===== *)
theory Meta_Props
  imports Meta_Auth
begin

text \<open>
  The properties of the metastore, each with an instance at a small concrete catalogue:
  three nodes, one database, one policy with replication factor two.
\<close>

section \<open>A concrete catalogue\<close>

definition ex_policy :: RetentionPolicyInfo where
  "ex_policy = \<lparr>rpi_Name = ''p'', rpi_ReplicaN = 2, rpi_Duration = 0,
     rpi_ShardGroupDuration = 7 * 24 * Hour, rpi_ShardGroups = [], rpi_Subscriptions = []\<rparr>"

definition ex_db :: DatabaseInfo where
  "ex_db = \<lparr>di_Name = ''db'', di_DefaultRetentionPolicy = ''p'', di_RetentionPolicies = [ex_policy],
     di_ContinuousQueries = []\<rparr>"

definition ex_user :: UserInfo where
  "ex_user = \<lparr>ui_Name = ''u'', ui_Hash = ''h'', ui_Admin = False, ui_Privileges = []\<rparr>"

definition ex_data :: Data where
  "ex_data = \<lparr>d_Term = 1, d_Index = 7, d_ClusterID = 9,
     d_Nodes = [\<lparr>ni_ID = 1, ni_Host = ''a''\<rparr>, \<lparr>ni_ID = 2, ni_Host = ''b''\<rparr>, \<lparr>ni_ID = 3, ni_Host = ''c''\<rparr>],
     d_Databases = [ex_db], d_Users = [ex_user],
     d_MaxNodeID = 3, d_MaxShardGroupID = 0, d_MaxShardID = 0\<rparr>"

lemma ex_wf: "data_wf ex_data"
  by (simp add: data_wf_def nodes_wf_def names_wf_def database_wf_def policy_wf_def groups_wf_def
      all_groups_def all_policies_def shards_of_def ex_data_def ex_db_def ex_policy_def ex_user_def
      shardGroupDuration_def)

lemma ex_find: "find_policy ex_data ''db'' ''p'' = Inr ex_policy"
  by (simp add: find_policy_Inr Data_Database_def DatabaseInfo_RetentionPolicy_def ex_data_def ex_db_def
      ex_policy_def)

lemma ex_find_database: "Data_Database ex_data ''db'' = Some ex_db"
  by (simp add: Data_Database_def ex_data_def ex_db_def)

lemma ex_no_group: "RetentionPolicyInfo_ShardGroupByTimestamp ex_policy t = None"
  by (simp add: RetentionPolicyInfo_ShardGroupByTimestamp_def ex_policy_def)

lemma ex_create: "\<exists>d'. Data_CreateShardGroup ''db'' ''p'' t ex_data = Inr d'"
proof -
  have "0 \<le> rpi_ReplicaN ex_policy" "d_Nodes ex_data \<noteq> []" by (simp_all add: ex_policy_def ex_data_def)
  from Data_CreateShardGroup_succeeds [OF this ex_find ex_no_group] show ?thesis by metis
qed

definition ex_fsm :: storeFSM where
  "ex_fsm = (new_storeFSM 1)\<lparr>fsm_data := ex_data\<rparr>"

text \<open>
  An encoding for the instances: the bytes of the \<open>i\<close>-th known command are \<open>i\<close> zeros.
\<close>

definition ex_encode :: "Command list \<Rightarrow> Command \<Rightarrow> byte list" where
  "ex_encode cs c = replicate (length (takeWhile (\<lambda>x. x \<noteq> c) cs)) 0"

definition ex_decode :: "Command list \<Rightarrow> byte list \<Rightarrow> Command option" where
  "ex_decode cs bs = (if length bs < length cs then Some (cs ! length bs) else None)"

definition ex_raft :: "Command list \<Rightarrow> Raft" where
  "ex_raft cs = \<lparr>rft_marshal = ex_encode cs, rft_unmarshal = ex_decode cs,
     rft_next = (\<lambda>s. Some (1, d_Index (fsm_data s) + 1, 0))\<rparr>"

lemma ex_raft_encodes: "cmd \<in> set cs \<Longrightarrow> raft_encodes (ex_raft cs) cmd"
proof (induction cs)
  case (Cons c cs)
  then show ?case
    by (auto simp: raft_encodes_def ex_raft_def ex_encode_def ex_decode_def split: if_splits)
qed simp

section \<open>Reachable states\<close>

text \<open>
  C1. Every metadata a replica can reach by applying fewer than 2 to the 32 commands, filling
  its credential cache, restoring snapshots and being overwritten with a backup is well formed: node, shard-group and shard IDs are
  unique in the whole cluster and below their counters, names are unique, shard owners are
  known nodes, every shard owner list is duplicate free, and the groups of each policy are sorted by start time.
  The snapshots and backups are those of reachable metadata that the wire format can represent
  (\<open>data_wire_ok\<close>); a group with a boundary exactly at the Unix epoch cannot be represented, and \<open>epoch_restore_unsorted\<close>
  below shows that sortedness is then lost.
\<close>

theorem reachable_wf:
  assumes "fsm_reach k s" and "k < 2 ^ 32"
  shows "data_wf (fsm_data s) \<and> distinct (map ni_ID (d_Nodes (fsm_data s))) \<and>
    distinct (map sgi_ID (all_groups (fsm_data s))) \<and>
    distinct (map si_ID (shards_of (all_groups (fsm_data s)))) \<and>
    (\<forall>si\<in>set (shards_of (all_groups (fsm_data s))).
       distinct (map so_NodeID (si_Owners si)) \<and>
       so_NodeID ` set (si_Owners si) \<subseteq> ni_ID ` set (d_Nodes (fsm_data s))) \<and>
    (\<forall>rp\<in>set (all_policies (fsm_data s)). sorted (map sgi_StartTime (rpi_ShardGroups rp)))"
proof -
  have wf: "data_wf (fsm_data s)" using fsm_reach_inv [OF assms] by (simp add: fsm_inv_def)
  have "\<forall>rp\<in>set (all_policies (fsm_data s)). sorted (map sgi_StartTime (rpi_ShardGroups rp))"
    using wf by (auto simp: data_wf_def names_wf_def database_wf_def policy_wf_def all_policies_def)
  with wf show ?thesis by (simp add: data_wf_def nodes_wf_def groups_wf_def shard_wf_def)
qed

theorem reachable_wf_witness:
  "\<exists>s. fsm_reach 2 s \<and> length (d_Nodes (fsm_data s)) = 1 \<and> data_wf (fsm_data s)"
proof -
  let ?d = "empty_Data\<lparr>d_Nodes := [\<lparr>ni_ID = 1, ni_Host = ''a''\<rparr>], d_MaxNodeID := 1, d_ClusterID := 5, d_Term := 1, d_Index := 2\<rparr>"
  let ?s = "(new_storeFSM 1)\<lparr>fsm_data := ?d, fsm_changed := 1\<rparr>"
  let ?t = "(new_storeFSM 1)\<lparr>fsm_data := ?d\<lparr>d_Term := 3, d_Index := 4\<rparr>, fsm_changed := 1\<rparr>"
  have "finish_apply 1 2 (apply_command 0 True (CreateNodeCommand ''a'' 5) (new_storeFSM 1)) = Applied ?s None"
    by (simp add: applyCreateNodeCommand_def apply_data_def Data_CreateNode_def Data_NodeByHost_def
        new_storeFSM_def empty_Data_def finish_apply_def)
  then have r: "fsm_reach (Suc 0) ?s"
    by (intro fsm_apply [OF fsm_init, where cmd = "CreateNodeCommand ''a'' 5"]) simp_all
  have ok: "data_wire_ok (fsm_data ?s)" by (simp add: data_wire_ok_def all_policies_def empty_Data_def)
  then have "finish_apply 3 4 (apply_command 0 True (SetDataCommand (Data_marshal (fsm_data ?s))) (new_storeFSM 1)) = Applied ?t None"
    by (simp add: applySetDataCommand_def Data_roundtrip finish_apply_def new_storeFSM_def drop_subscriptions_def empty_Data_def)
  from fsm_set [OF fsm_init r ok this] have t: "fsm_reach 2 ?t" by (simp add: numeral_2_eq_2)
  from reachable_wf [OF t] t show ?thesis by (intro exI [of _ ?t]) simp
qed

text \<open>
  Why restored times must be representable: \<open>MarshalTime\<close> writes the Unix epoch as zero, which is
  read back as the zero time.  Of two daily groups around the epoch the second then starts first.
\<close>

definition ex_epoch :: Data where
  "ex_epoch = ex_data\<lparr>d_Databases := [ex_db\<lparr>di_RetentionPolicies := [ex_policy\<lparr>rpi_ShardGroups :=
     [\<lparr>sgi_ID = 1, sgi_StartTime = unix_epoch - 24 * Hour, sgi_EndTime = unix_epoch, sgi_DeletedAt = 0, sgi_Shards = []\<rparr>,
      \<lparr>sgi_ID = 2, sgi_StartTime = unix_epoch, sgi_EndTime = unix_epoch + 24 * Hour, sgi_DeletedAt = 0, sgi_Shards = []\<rparr>]\<rparr>]\<rparr>],
     d_MaxShardGroupID := 2\<rparr>"

lemma epoch_restore_unsorted:
  "(\<forall>rp\<in>set (all_policies ex_epoch). sorted (map sgi_StartTime (rpi_ShardGroups rp))) \<and>
   (\<exists>rp\<in>set (all_policies (Data_unmarshal (Data_marshal ex_epoch))). \<not> sorted (map sgi_StartTime (rpi_ShardGroups rp)))"
  unfolding ex_epoch_def ex_data_def ex_db_def ex_policy_def
  by (simp add: all_policies_def Data_unmarshal_def Data_marshal_def wire_defs MarshalTime_def UnmarshalTime_def
      time_IsZero_def time_UnixNano_def time_Unix0_def unix_epoch_def Hour_def to_int64_id is_int64_def)

section \<open>Shard groups\<close>

lemma replicas_eq:
  "0 \<le> rpi_ReplicaN rpi \<Longrightarrow> d_Nodes d \<noteq> [] \<Longrightarrow>
     replicas rpi d = max 1 (min (nat (rpi_ReplicaN rpi)) (length (d_Nodes d)))"
  by (auto simp: replicas_def effective_replicaN_def min_def max_def Suc_le_eq)

text \<open>
  C3. A new shard group spreads its shards over the nodes: with \<open>n\<close> nodes and a replication
  factor \<open>r\<close> (at least one, at most \<open>n\<close>) it has \<open>n div r\<close> shards, every shard has exactly \<open>r\<close> owners,
  all of them known nodes, no node owns two replicas anywhere in the group, and the group's
  interval contains the requested time.
\<close>

theorem shard_assignment:
  assumes wf: "data_wf d" and op: "Data_CreateShardGroup db p t d = Inr d'"
    and rp: "find_policy d db p = Inr rpi"
    and r: "r = max 1 (min (nat (rpi_ReplicaN rpi)) (length (d_Nodes d)))"
  shows "\<exists>g. find_policy d' db p = Inr (rpi\<lparr>rpi_ShardGroups := sort_groups (rpi_ShardGroups rpi @ [g])\<rparr>) \<and>
    length (sgi_Shards g) = length (d_Nodes d) div r \<and>
    (\<forall>si\<in>set (sgi_Shards g). length (si_Owners si) = r \<and>
       so_NodeID ` set (si_Owners si) \<subseteq> ni_ID ` set (d_Nodes d)) \<and>
    distinct (map so_NodeID (concat (map si_Owners (sgi_Shards g)))) \<and>
    ShardGroupInfo_Contains g t"
proof -
  have n: "d_Nodes d \<noteq> []" and none: "RetentionPolicyInfo_ShardGroupByTimestamp rpi t = None"
    using op rp by (auto elim!: Data_CreateShardGroup_Inr)
  have pw: "policy_wf rpi" using find_policy_wf [OF wf rp] .
  then have r0: "0 \<le> rpi_ReplicaN rpi" by (simp add: policy_wf_def)
  have re: "replicas rpi d = r" using replicas_eq [OF r0 n] by (simp add: r)
  let ?g = "new_shard_group rpi t d"
  have "find_policy d' db p = Inr (rpi\<lparr>rpi_ShardGroups := sort_groups (rpi_ShardGroups rpi @ [?g])\<rparr>)"
    using Data_CreateShardGroup_succeeds [OF r0 n rp none] op by (metis Inr_inject)
  moreover have "\<forall>si\<in>set (sgi_Shards ?g). length (si_Owners si) = r \<and>
       so_NodeID ` set (si_Owners si) \<subseteq> ni_ID ` set (d_Nodes d)"
    using node_at_known [OF n] by (auto simp: new_shard_group_shards [OF n r0] re)
  moreover have "distinct (map so_NodeID (concat (map si_Owners (sgi_Shards ?g))))"
    using wf by (intro new_shard_group_distinct_owners [OF n r0]) (simp add: data_wf_def nodes_wf_def)
  moreover have "ShardGroupInfo_Contains ?g t"
    using pw new_shard_group_contains by (simp add: policy_wf_def)
  ultimately show ?thesis by (intro exI [of _ ?g]) (simp add: new_shard_group_shards [OF n r0] re)
qed

theorem shard_assignment_witness:
  "\<exists>d' g. Data_CreateShardGroup ''db'' ''p'' unix_epoch ex_data = Inr d' \<and>
    find_policy d' ''db'' ''p'' = Inr (ex_policy\<lparr>rpi_ShardGroups := sort_groups [g]\<rparr>) \<and>
    length (sgi_Shards g) = 1 \<and> (\<forall>si\<in>set (sgi_Shards g). length (si_Owners si) = 2) \<and>
    distinct (map so_NodeID (concat (map si_Owners (sgi_Shards g))))"
proof -
  obtain d' where "Data_CreateShardGroup ''db'' ''p'' unix_epoch ex_data = Inr d'" using ex_create by blast
  from shard_assignment [OF ex_wf this ex_find, of 2] this show ?thesis
    by (auto simp: ex_data_def ex_policy_def)
qed

text \<open>
  C12. Asking the store for the shard group of a time, creating it if need be, always yields a
  live group whose interval contains the time and which is the one later lookups find; asking
  again returns the same group and changes nothing.
\<close>

theorem get_or_create_shard_group:
  assumes "raft_encodes R (CreateShardGroupCommand db p (time_UnixNano t))" and "rft_next R s \<noteq> None" and "data_wf (fsm_data s)"
    and "d_Nodes (fsm_data s) \<noteq> []" and "find_policy (fsm_data s) db p = Inr rpi"
    and "is_int64 (t - unix_epoch)"
  shows "\<exists>s' g. Store_CreateShardGroupIfNotExists R db p t s = (s', Inr (Some g)) \<and>
    ShardGroupInfo_Contains g t \<and> \<not> ShardGroupInfo_Deleted g \<and>
    Data_ShardGroupByTimestamp (fsm_data s') db p t = Inr (Some g) \<and>
    Store_CreateShardGroupIfNotExists R db p t s' = (s', Inr (Some g))"
proof -
  obtain s' rpi' g where 1: "Store_CreateShardGroupIfNotExists R db p t s = (s', Inr (Some g))"
    and 2: "find_policy (fsm_data s') db p = Inr rpi'" "ShardGroupInfo_Contains g t" "\<not> ShardGroupInfo_Deleted g"
      "RetentionPolicyInfo_ShardGroupByTimestamp rpi' t = Some g"
    using get_shard_group [OF assms] .
  then have "Store_CreateShardGroupIfNotExists R db p t s' = (s', Inr (Some g))"
    by (simp add: Store_CreateShardGroupIfNotExists_def sbind_def sret_def
        Store_ShardGroupByTimestamp_eq Data_ShardGroupByTimestamp_def)
  with 1 2 show ?thesis by (auto simp: Data_ShardGroupByTimestamp_def)
qed

theorem get_or_create_shard_group_witness:
  "\<exists>s' g. Store_CreateShardGroupIfNotExists (ex_raft [CreateShardGroupCommand ''db'' ''p'' 5]) ''db'' ''p''
      (unix_epoch + 5) ex_fsm = (s', Inr (Some g)) \<and> ShardGroupInfo_Contains g (unix_epoch + 5)"
proof -
  have t: "time_UnixNano (unix_epoch + 5) = 5" by (simp add: time_UnixNano_def to_int64_def)
  have "raft_encodes (ex_raft [CreateShardGroupCommand ''db'' ''p'' 5])
      (CreateShardGroupCommand ''db'' ''p'' (time_UnixNano (unix_epoch + 5)))"
    unfolding t by (rule ex_raft_encodes) simp
  moreover have "rft_next (ex_raft [CreateShardGroupCommand ''db'' ''p'' 5]) ex_fsm \<noteq> None" by (simp add: ex_raft_def)
  moreover have "data_wf (fsm_data ex_fsm)" "find_policy (fsm_data ex_fsm) ''db'' ''p'' = Inr ex_policy"
    using ex_wf ex_find by (simp_all add: ex_fsm_def)
  moreover have "d_Nodes (fsm_data ex_fsm) \<noteq> []" by (simp add: ex_fsm_def ex_data_def)
  moreover have "is_int64 (unix_epoch + 5 - unix_epoch)" by (simp add: is_int64_def)
  ultimately show ?thesis using get_or_create_shard_group by blast
qed

lemma length_filter_sort_groups: "length (filter P (sort_groups gs)) = length (filter P gs)"
  by (metis mset_filter mset_sort_groups size_mset)

text \<open>
  C13. In a policy whose groups are aligned to its current shard-group duration and whose live
  groups start at different times, a new group keeps both facts, so at any instant at most one
  live group contains it.
\<close>

theorem live_groups_disjoint:
  assumes wf: "data_wf d" and op: "Data_CreateShardGroup db p t d = Inr d'"
    and rp: "find_policy d db p = Inr rpi" and al: "policy_aligned rpi"
  shows "\<exists>rpi'. find_policy d' db p = Inr rpi' \<and> policy_aligned rpi' \<and>
    (\<forall>g\<in>set (rpi_ShardGroups rpi'). \<forall>h\<in>set (rpi_ShardGroups rpi'). \<forall>x.
       \<not> ShardGroupInfo_Deleted g \<and> \<not> ShardGroupInfo_Deleted h \<and>
       ShardGroupInfo_Contains g x \<and> ShardGroupInfo_Contains h x \<longrightarrow> sgi_StartTime g = sgi_StartTime h) \<and>
    length (filter (\<lambda>g. \<not> ShardGroupInfo_Deleted g \<and> ShardGroupInfo_Contains g t) (rpi_ShardGroups rpi')) = 1"
proof -
  have n: "d_Nodes d \<noteq> []" and none: "RetentionPolicyInfo_ShardGroupByTimestamp rpi t = None"
    using op rp by (auto elim!: Data_CreateShardGroup_Inr)
  let ?g = "new_shard_group rpi t d"
  let ?rp = "rpi\<lparr>rpi_ShardGroups := sort_groups (rpi_ShardGroups rpi @ [?g])\<rparr>"
  have r: "0 \<le> rpi_ReplicaN rpi" using find_policy_wf [OF wf rp] by (simp add: policy_wf_def)
  have 1: "find_policy d' db p = Inr ?rp"
    using Data_CreateShardGroup_succeeds [OF r n rp none] op by (metis Inr_inject)
  have pos: "0 < rpi_ShardGroupDuration rpi"
    using find_policy_wf [OF wf rp] by (simp add: policy_wf_def)
  have 2: "policy_aligned ?rp" by (rule policy_aligned_new [OF al pos none])
  have "filter (\<lambda>g. \<not> ShardGroupInfo_Deleted g \<and> ShardGroupInfo_Contains g t) (rpi_ShardGroups rpi) = []"
    using none by (auto simp: RetentionPolicyInfo_ShardGroupByTimestamp_def find_None_iff filter_empty_conv)
  then have "length (filter (\<lambda>g. \<not> ShardGroupInfo_Deleted g \<and> ShardGroupInfo_Contains g t)
      (rpi_ShardGroups rpi @ [?g])) = 1"
    using new_shard_group_contains [OF pos, of t d] by simp
  then have "length (filter (\<lambda>g. \<not> ShardGroupInfo_Deleted g \<and> ShardGroupInfo_Contains g t)
      (rpi_ShardGroups ?rp)) = 1"
    by (simp add: length_filter_sort_groups del: filter_append)
  with 1 2 policy_aligned_disjoint [OF 2] show ?thesis
    by (intro exI [of _ ?rp] conjI ballI allI impI) blast+
qed

theorem live_groups_disjoint_witness:
  "\<exists>d' rpi'. Data_CreateShardGroup ''db'' ''p'' unix_epoch ex_data = Inr d' \<and>
     find_policy d' ''db'' ''p'' = Inr rpi' \<and> policy_aligned rpi' \<and> policy_aligned ex_policy"
proof -
  have al: "policy_aligned ex_policy" by (simp add: policy_aligned_def live_starts_def ex_policy_def)
  obtain d' where "Data_CreateShardGroup ''db'' ''p'' unix_epoch ex_data = Inr d'" using ex_create by blast
  from live_groups_disjoint [OF ex_wf this ex_find al] this al show ?thesis by blast
qed

section \<open>The replicated state machine\<close>

text \<open>
  C14. Replicas agree: two replicas with the same metadata that apply the same log entries end
  with the same metadata or both die, whatever their raft role, their node ID, their credential
  cache and their clocks, provided no entry deletes a shard group (the one command that reads
  the clock).
\<close>

theorem replicas_agree:
  assumes "fsm_data s1 = fsm_data s2" and "map (snd \<circ> snd) ls1 = map (snd \<circ> snd) ls2"
    and "\<forall>l\<in>set (map (snd \<circ> snd) ls1). case dec (l_Data l) of None \<Rightarrow> True | Some cmd \<Rightarrow> \<not> uses_clock cmd"
  shows "map_option fsm_data (fsm_run dec ls1 s1) = map_option fsm_data (fsm_run dec ls2 s2)"
proof -
  let ?f = "\<lambda>(now :: time, ld :: bool, l :: raftLog). (now, l)"
  have s: "map snd (map ?f ls) = map (snd \<circ> snd) ls" for ls by (simp add: comp_def case_prod_unfold)
  have "data_run dec (map ?f ls1) (fsm_data s2) = data_run dec (map ?f ls2) (fsm_data s2)"
    using assms(2,3) by (intro data_run_clock) (simp_all only: s)
  then show ?thesis by (simp add: fsm_run_refines assms(1))
qed

theorem replicas_agree_witness:
  "map_option fsm_data (fsm_run (\<lambda>_. Some (CreateDatabaseCommand ''x''))
       [(3, True, \<lparr>l_Term = 1, l_Index = 8, l_Data = []\<rparr>)] ex_fsm) =
   map_option fsm_data (fsm_run (\<lambda>_. Some (CreateDatabaseCommand ''x''))
       [(9, False, \<lparr>l_Term = 1, l_Index = 8, l_Data = []\<rparr>)] (ex_fsm\<lparr>fsm_id := 2\<rparr>))"
  by (rule replicas_agree) (simp_all add: uses_clock_def ex_fsm_def)

text \<open>
  Deleting a shard group does read the clock: there are replicas with the same metadata
  that apply the same entry and differ afterwards.
\<close>

lemma delete_shard_group_diverges:
  "\<exists>d now1 now2 d1 d2. Data_DeleteShardGroup now1 ''db'' ''p'' 1 d = Inr d1 \<and>
     Data_DeleteShardGroup now2 ''db'' ''p'' 1 d = Inr d2 \<and> now1 \<noteq> 0 \<and> now2 \<noteq> 0 \<and> d1 \<noteq> d2"
proof -
  let ?g = "\<lparr>sgi_ID = 1, sgi_StartTime = 0, sgi_EndTime = 1, sgi_DeletedAt = 0, sgi_Shards = []\<rparr>"
  let ?d = "ex_data\<lparr>d_Databases := [ex_db\<lparr>di_RetentionPolicies := [ex_policy\<lparr>rpi_ShardGroups := [?g]\<rparr>]\<rparr>]\<rparr>"
  let ?r = "\<lambda>now. ex_data\<lparr>d_Databases := [ex_db\<lparr>di_RetentionPolicies :=
      [ex_policy\<lparr>rpi_ShardGroups := [?g\<lparr>sgi_DeletedAt := now\<rparr>]\<rparr>]\<rparr>]\<rparr>"
  have r: "Data_DeleteShardGroup now ''db'' ''p'' 1 ?d = Inr (?r now)" for now
    by (simp add: Data_DeleteShardGroup_def find_policy_def Data_RetentionPolicy_def Data_Database_def
        on_database_def on_policy_def ex_data_def ex_db_def ex_policy_def)
  have "?r 1 \<noteq> ?r 2" by (simp add: ex_data_def ex_db_def ex_policy_def)
  with r [of 1] r [of 2] show ?thesis by (metis zero_neq_one zero_neq_numeral)
qed

text \<open>
  C23. On well-formed metadata exactly two kinds of entry kill the process: a command of unknown
  type, and dropping a subscription from a retention policy that does not exist in a database
  that does.
\<close>

theorem apply_panics_iff:
  assumes "data_wf (fsm_data s)" and "dec (l_Data l) = Some cmd"
  shows "(\<exists>e. storeFSM_Apply dec now ld l s = Panicked e) \<longleftrightarrow>
    cmd = UnknownCommand \<or>
    (\<exists>db rp name. cmd = DropSubscriptionCommand db rp name \<and>
       Data_RetentionPolicy (fsm_data s) db rp = Inr None)"
proof -
  have "(\<exists>e. storeFSM_Apply dec now ld l s = Panicked e) \<longleftrightarrow>
      data_apply now (l_Term l) (l_Index l) cmd (fsm_data s) = None"
    using finish_apply_refines [of "l_Term l" "l_Index l" now ld cmd s, symmetric] assms(2)
    by (auto simp: storeFSM_Apply_def split: apply_result.splits)
  also have "\<dots> \<longleftrightarrow> panics cmd (fsm_data s)" by (rule data_apply_None_iff [OF assms(1)])
  finally show ?thesis by (cases cmd) (simp_all add: panics_def)
qed

theorem apply_panics_iff_witness:
  "\<exists>e. storeFSM_Apply (\<lambda>_. Some (DropSubscriptionCommand ''db'' ''nope'' ''x'')) 0 True
     \<lparr>l_Term = 1, l_Index = 8, l_Data = []\<rparr> ex_fsm = Panicked e"
proof -
  have "Data_RetentionPolicy (fsm_data ex_fsm) ''db'' ''nope'' = Inr None"
    by (simp add: Data_RetentionPolicy_def ex_fsm_def ex_find_database) (simp add: ex_db_def ex_policy_def)
  then show ?thesis
    using apply_panics_iff [of ex_fsm "\<lambda>_. Some (DropSubscriptionCommand ''db'' ''nope'' ''x'')"] ex_wf
    by (simp add: ex_fsm_def)
qed

section \<open>Removing a node\<close>

definition strip_owner :: "u64 \<Rightarrow> ShardGroupInfo \<Rightarrow> ShardGroupInfo" where
  "strip_owner nid g = g\<lparr>sgi_Shards := map (\<lambda>si. si\<lparr>si_Owners := filter (\<lambda>o'. so_NodeID o' \<noteq> nid) (si_Owners si)\<rparr>) (sgi_Shards g)\<rparr>"

lemma remove_owner_group_strip: "remove_owner_group nid g = strip_owner nid g"
  by (simp add: remove_owner_group_def strip_owner_def remove_owner_eq)

lemma not_sole_owner_keeps:
  assumes dist: "distinct (map so_NodeID (si_Owners si))" and ne: "si_Owners si \<noteq> []"
    and sole: "\<not> sole_owner nid si"
  shows "filter (\<lambda>o'. so_NodeID o' \<noteq> nid) (si_Owners si) \<noteq> []"
proof
  assume "filter (\<lambda>o'. so_NodeID o' \<noteq> nid) (si_Owners si) = []"
  then have all: "\<forall>x\<in>set (si_Owners si). so_NodeID x = nid" by (simp add: filter_empty_conv)
  then have "set (map so_NodeID (si_Owners si)) = {nid}"
    using ne by (auto simp: image_iff) (metis list.set_intros(1) neq_Nil_conv)
  then have "length (si_Owners si) = 1" using distinct_card [OF dist] by simp
  with all ne sole show False
    by (cases "si_Owners si") (auto simp: sole_owner_def ShardInfo_OwnedBy_def)
qed

text \<open>
  C22. Removing a node takes it out of the node list and out of every shard's owners, keeps
  every other owner, and without \<open>force\<close> never leaves a shard of an unreplicated policy
  without an owner if it had one.
\<close>

theorem delete_node:
  assumes op: "Data_DeleteNode nid force d = Inr d'"
  shows "d_Nodes d' = filter (\<lambda>n. ni_ID n \<noteq> nid) (d_Nodes d) \<and>
    all_groups d' = map (strip_owner nid) (all_groups d) \<and>
    (\<not> force \<longrightarrow> (\<forall>rp\<in>set (all_policies d). rpi_ReplicaN rp \<le> 1 \<longrightarrow>
      (\<forall>g\<in>set (rpi_ShardGroups rp). \<forall>si\<in>set (sgi_Shards g). distinct (map so_NodeID (si_Owners si)) \<and> si_Owners si \<noteq> [] \<longrightarrow>
        filter (\<lambda>o'. so_NodeID o' \<noteq> nid) (si_Owners si) \<noteq> [])))"
proof -
  note d' = Data_DeleteNode_Inr(5) [OF op]
  have "all_groups d' = map (remove_owner_group nid) (all_groups d)"
    by (rule all_groups_remove_owner) (simp add: d')
  moreover have "filter (\<lambda>o'. so_NodeID o' \<noteq> nid) (si_Owners si) \<noteq> []"
    if "\<not> force" and rp: "rp \<in> set (all_policies d)" "rpi_ReplicaN rp \<le> 1" "g \<in> set (rpi_ShardGroups rp)"
      "si \<in> set (sgi_Shards g)" and own: "distinct (map so_NodeID (si_Owners si)) \<and> si_Owners si \<noteq> []" for rp g si
  proof -
    from that(1) Data_DeleteNode_Inr(4) [OF op] have "\<not> unreplicated_shard nid d" by blast
    with rp have "\<not> sole_owner nid si"
      by (force simp: unreplicated_shard_def list_ex_iff all_policies_def)
    with own show ?thesis using not_sole_owner_keeps by blast
  qed
  ultimately show ?thesis by (simp add: d' remove_owner_group_strip)
qed

definition ex_group :: ShardGroupInfo where
  "ex_group = \<lparr>sgi_ID = 1, sgi_StartTime = 0, sgi_EndTime = 7 * 24 * Hour, sgi_DeletedAt = 0,
     sgi_Shards = [\<lparr>si_ID = 1, si_Owners = [\<lparr>so_NodeID = 1\<rparr>, \<lparr>so_NodeID = 2\<rparr>]\<rparr>]\<rparr>"

definition ex_data2 :: Data where
  "ex_data2 = ex_data\<lparr>d_Databases := [ex_db\<lparr>di_RetentionPolicies := [ex_policy\<lparr>rpi_ReplicaN := 1, rpi_ShardGroups := [ex_group]\<rparr>]\<rparr>],
     d_MaxShardGroupID := 1, d_MaxShardID := 1\<rparr>"

lemma ex_delete_node: "Data_DeleteNode 1 False ex_data2 = Inr (ex_data2\<lparr>d_Databases := remove_owner_everywhere 1 (d_Databases ex_data2),
    d_Nodes := filter (\<lambda>n. ni_ID n \<noteq> 1) (d_Nodes ex_data2)\<rparr>)"
  by (simp add: Data_DeleteNode_def Data_Node_def unreplicated_shard_def sole_owner_def ex_data2_def ex_data_def
      ex_db_def ex_policy_def ex_group_def)

theorem delete_node_witness:
  "\<exists>d'. Data_DeleteNode 1 False ex_data2 = Inr d' \<and> all_groups d' = map (strip_owner 1) (all_groups ex_data2) \<and>
     filter (\<lambda>o'. so_NodeID o' \<noteq> 1) [\<lparr>so_NodeID = 1\<rparr>, \<lparr>so_NodeID = 2\<rparr>] \<noteq> []"
proof -
  have "ex_policy\<lparr>rpi_ReplicaN := 1, rpi_ShardGroups := [ex_group]\<rparr> \<in> set (all_policies ex_data2)"
    by (simp add: all_policies_def ex_data2_def)
  with delete_node [OF ex_delete_node] ex_delete_node show ?thesis by (force simp: ex_group_def)
qed

text \<open>
  The check is by the policy's replication factor, not by the owners: with a factor above
  one, removing a node without \<open>force\<close> can leave a shard with no owner at all.
\<close>

lemma delete_node_loses_shard:
  "\<exists>d d' si. Data_DeleteNode 1 False d = Inr d' \<and> si \<in> set (shards_of (all_groups d)) \<and>
     si_Owners si = [\<lparr>so_NodeID = 1\<rparr>] \<and> si\<lparr>si_Owners := []\<rparr> \<in> set (shards_of (all_groups d'))"
proof -
  let ?si = "\<lparr>si_ID = 1, si_Owners = [\<lparr>so_NodeID = 1\<rparr>]\<rparr>"
  let ?d = "ex_data\<lparr>d_Databases := [ex_db\<lparr>di_RetentionPolicies :=
    [ex_policy\<lparr>rpi_ShardGroups := [ex_group\<lparr>sgi_Shards := [?si]\<rparr>]\<rparr>]\<rparr>]\<rparr>"
  have "Data_DeleteNode 1 False ?d = Inr (?d\<lparr>d_Databases := remove_owner_everywhere 1 (d_Databases ?d),
      d_Nodes := filter (\<lambda>n. ni_ID n \<noteq> 1) (d_Nodes ?d)\<rparr>)"
    by (simp add: Data_DeleteNode_def Data_Node_def unreplicated_shard_def ex_data_def ex_db_def ex_policy_def)
  moreover have "?si\<lparr>si_Owners := []\<rparr> \<in> set (shards_of (all_groups (?d\<lparr>d_Databases := remove_owner_everywhere 1 (d_Databases ?d),
      d_Nodes := filter (\<lambda>n. ni_ID n \<noteq> 1) (d_Nodes ?d)\<rparr>)))"
    by (simp add: shards_of_def all_groups_def all_policies_def remove_owner_everywhere_def remove_owner_def
        ShardInfo_OwnedBy_def)
  moreover have "?si \<in> set (shards_of (all_groups ?d))"
    by (simp add: shards_of_def all_groups_def all_policies_def)
  ultimately show ?thesis by (metis ShardInfo.select_convs(2))
qed

section \<open>Snapshots\<close>

text \<open>
  C24. A snapshot written by \<open>Persist\<close> and read back by \<open>Restore\<close> gives the metadata without
  its subscriptions, for metadata the wire format can carry; it gives exactly the metadata
  back if and only if no policy has a subscription.  The protobuf library is assumed to decode
  what it encoded.
\<close>

theorem snapshot_roundtrip:
  assumes enc: "\<And>m b. enc m = Inr b \<Longrightarrow> dec b = Inr m"
    and p: "storeFSMSnapshot_Persist enc (storeFSM_Snapshot s) = Inr buf"
    and ok: "data_wire_ok (fsm_data s)"
  shows "storeFSM_Restore dec buf s' = Inr (s'\<lparr>fsm_data := drop_subscriptions (fsm_data s)\<rparr>) \<and>
    (storeFSM_Restore dec buf s' = Inr (s'\<lparr>fsm_data := fsm_data s\<rparr>) \<longleftrightarrow>
      (\<forall>rp\<in>set (all_policies (fsm_data s)). rpi_Subscriptions rp = []))"
proof -
  have "dec buf = Inr (Data_marshal (fsm_data s))"
    using enc p by (simp add: storeFSMSnapshot_Persist_def storeFSM_Snapshot_def Data_MarshalBinary_def)
  then have 1: "storeFSM_Restore dec buf s' = Inr (s'\<lparr>fsm_data := drop_subscriptions (fsm_data s)\<rparr>)"
    by (simp add: storeFSM_Restore_def Data_UnmarshalBinary_def Data_roundtrip [OF ok])
  have "s'\<lparr>fsm_data := a\<rparr> = s'\<lparr>fsm_data := b\<rparr> \<longleftrightarrow> a = b" for a b
    by (metis storeFSM.select_convs(2) storeFSM.surjective storeFSM.update_convs(2))
  then show ?thesis
    unfolding 1 by (simp add: drop_subscriptions_id_iff)
qed

theorem snapshot_roundtrip_witness:
  "storeFSM_Restore (\<lambda>b. Inr (Data_marshal ex_data)) [] (new_storeFSM 2) =
     Inr ((new_storeFSM 2)\<lparr>fsm_data := drop_subscriptions ex_data\<rparr>) \<and> data_wire_ok ex_data"
proof -
  have ok: "data_wire_ok (fsm_data ex_fsm)"
    by (simp add: data_wire_ok_def policy_wire_ok_def user_wire_ok_def all_policies_def ex_fsm_def ex_data_def
        ex_db_def ex_policy_def ex_user_def)
  have "storeFSM_Restore (\<lambda>b. Inr (Data_marshal ex_data)) [] (new_storeFSM 2) =
      Inr ((new_storeFSM 2)\<lparr>fsm_data := drop_subscriptions (fsm_data ex_fsm)\<rparr>)"
    by (rule conjunct1 [OF snapshot_roundtrip [where enc = "\<lambda>m. if m = Data_marshal ex_data then Inr [] else Inl ()", OF _ _ ok]])
      (auto simp: storeFSMSnapshot_Persist_def storeFSM_Snapshot_def Data_MarshalBinary_def ex_fsm_def split: if_splits)
  with ok show ?thesis by (simp add: ex_fsm_def)
qed

text \<open>
  \<open>MarshalTime\<close> and \<open>UnmarshalTime\<close> are inverse exactly on the zero time and on the
  instants within 64-bit nanoseconds of the Unix epoch other than the epoch itself, which comes
  back as the zero time.
\<close>

lemma marshal_time_roundtrip_iff:
  "UnmarshalTime (MarshalTime t) = t \<longleftrightarrow>
     t = 0 \<or> (- (2 ^ 63) \<le> t - unix_epoch \<and> t - unix_epoch < 2 ^ 63 \<and> t \<noteq> unix_epoch)"
  by (simp add: time_roundtrip_iff time_wire_ok_def is_int64_def)

section \<open>Authentication and privileges\<close>

text \<open>
  C25. In every history of commands other than \<open>SetDataCommand\<close> and of logins, with no command applied while
  a login is between its read lock and its write lock and with no snapshot restored, a login that succeeds returns the user
  and was made with a password the stored hash accepts, or with one that collides with an accepted
  password under the salted SHA-256 of the cache; the same password is then accepted again
  without changing anything.  So a password changed or a user dropped and recreated by commands of such a
  history is not served from an old entry.  The conditions are needed: \<open>stale_after_race\<close> and
  \<open>stale_after_restore\<close> below.
\<close>

theorem authenticate_sound:
  assumes "auth_reach C s" and "Store_Authenticate C salt u pw s = (s', Inr x)"
  shows "\<exists>ui. Data_User (fsm_data s) u = Some ui \<and> x = Some ui \<and>
    (cr_compare C (ui_Hash ui) pw \<or>
     (\<exists>salt q. q \<noteq> pw \<and> cr_compare C (ui_Hash ui) q \<and>
        cr_sha256 C (salt @ bytes_of q) = cr_sha256 C (salt @ bytes_of pw))) \<and>
    Store_Authenticate C salt' u pw s' = (s', Inr x)"
proof -
  obtain ui where "Data_User (fsm_data s) u = Some ui" and "x = Some ui"
    and "cr_compare C (ui_Hash ui) pw \<or> (\<exists>au q. map_of (fsm_authCache s) u = Some au \<and> q \<noteq> pw \<and>
      cr_compare C (ui_Hash ui) q \<and> Store_hashWithSalt C (au_salt au) q = Store_hashWithSalt C (au_salt au) pw)"
    using Authenticate_sound [OF auth_reach_cache_ok [OF assms(1)] assms(2)] .
  with Authenticate_again [OF assms(2), of salt'] show ?thesis
    unfolding Store_hashWithSalt_def by blast
qed

definition ex_crypto :: Crypto where
  "ex_crypto = \<lparr>cr_compare = (\<lambda>h p. h = p), cr_sha256 = (\<lambda>b. b), cr_hashPassword = Some\<rparr>"

theorem authenticate_sound_witness:
  "\<exists>s s' x. auth_reach ex_crypto s \<and> Store_Authenticate ex_crypto (Some [7]) ''u'' ''pw'' s = (s', Inr (Some x)) \<and>
     Store_Authenticate ex_crypto None ''u'' ''pw'' s' = (s', Inr (Some x))"
proof -
  let ?u = "\<lparr>ui_Name = ''u'', ui_Hash = ''pw'', ui_Admin = False, ui_Privileges = []\<rparr>"
  let ?s = "(new_storeFSM 1)\<lparr>fsm_data := empty_Data\<lparr>d_Users := [?u], d_Term := 1, d_Index := 1\<rparr>, fsm_changed := 1\<rparr>"
  have "finish_apply 1 1 (apply_command 0 True (CreateUserCommand ''u'' ''pw'' False) (new_storeFSM 1)) = Applied ?s None"
    by (simp add: applyCreateUserCommand_def apply_data_def Data_CreateUser_def Data_User_def
        new_storeFSM_def empty_Data_def finish_apply_def)
  then have r: "auth_reach ex_crypto ?s"
    by (intro auth_apply [OF auth_init, where cmd = "CreateUserCommand ''u'' ''pw'' False"]) simp_all
  have "\<exists>s'. Store_Authenticate ex_crypto (Some [7]) ''u'' ''pw'' ?s = (s', Inr (Some ?u))"
    by (simp add: Store_Authenticate_eq authenticate_fn_def Data_User_def empty_Data_def new_storeFSM_def
        ex_crypto_def Store_saltedHash_def)
  then obtain s' where "Store_Authenticate ex_crypto (Some [7]) ''u'' ''pw'' ?s = (s', Inr (Some ?u))" ..
  with authenticate_sound [OF r this, of None] r show ?thesis by blast
qed

text \<open>
  C26. In every history whatever, of all commands, of metadata replaced as a whole and of logins that are delayed between
  their two locks, a login that succeeds returns the user of the metadata it read, and was made with a password that a hash
  accepts which was stored for that user at some time of the history (or with one that collides with such a password
  under the salted SHA-256).
\<close>

theorem authenticate_history:
  assumes "auth_history C ds s" and "d \<in> set ds" and "authenticate_fn C salt u pw d s = (s', ROk x)"
  shows "\<exists>ui. Data_User d u = Some ui \<and> x = Some ui \<and>
    (\<exists>d'\<in>set ds. \<exists>ui'. Data_User d' u = Some ui' \<and>
      (cr_compare C (ui_Hash ui') pw \<or>
       (\<exists>salt q. q \<noteq> pw \<and> cr_compare C (ui_Hash ui') q \<and>
          cr_sha256 C (salt @ bytes_of q) = cr_sha256 C (salt @ bytes_of pw))))"
proof -
  from assms(3) obtain ui where ui: "Data_User d u = Some ui" "x = Some ui"
    by (auto simp: authenticate_fn_def split: option.splits if_splits sum.splits)
  have "\<exists>d'\<in>set ds. \<exists>ui' q. Data_User d' u = Some ui' \<and> cr_compare C (ui_Hash ui') q \<and>
      (q = pw \<or> (\<exists>salt. Store_hashWithSalt C salt q = Store_hashWithSalt C salt pw))"
  proof (cases "map_of (fsm_authCache s) u")
    case None
    with assms(3) ui have "cr_compare C (ui_Hash ui) pw" by (auto simp: authenticate_fn_def split: if_splits)
    with assms(2) ui show ?thesis by blast
  next
    case (Some au)
    with assms(3) ui have "Store_hashWithSalt C (au_salt au) pw = au_hash au"
      by (auto simp: authenticate_fn_def split: if_splits)
    moreover obtain d' ui' q where "d' \<in> set ds" "Data_User d' u = Some ui'" "cr_compare C (ui_Hash ui') q"
        "au_hash au = Store_hashWithSalt C (au_salt au) q"
      using auth_history_seen [OF assms(1), unfolded cache_seen_def, rule_format, OF Some] by blast
    ultimately show ?thesis
      by (intro bexI [of _ d'] exI [of _ ui'] exI [of _ q] conjI disjI2 exI [of _ "au_salt au"]) simp_all
  qed
  then obtain d' ui' q where q: "d' \<in> set ds" "Data_User d' u = Some ui'" "cr_compare C (ui_Hash ui') q"
      "q = pw \<or> (\<exists>salt. cr_sha256 C (salt @ bytes_of q) = cr_sha256 C (salt @ bytes_of pw))"
    by (auto simp: Store_hashWithSalt_def)
  have "cr_compare C (ui_Hash ui') pw \<or> (\<exists>salt q. q \<noteq> pw \<and> cr_compare C (ui_Hash ui') q \<and>
      cr_sha256 C (salt @ bytes_of q) = cr_sha256 C (salt @ bytes_of pw))"
    using q(3,4) by (cases "q = pw") auto
  with q(2) have "\<exists>ui'. Data_User d' u = Some ui' \<and> (cr_compare C (ui_Hash ui') pw \<or>
      (\<exists>salt q. q \<noteq> pw \<and> cr_compare C (ui_Hash ui') q \<and> cr_sha256 C (salt @ bytes_of q) = cr_sha256 C (salt @ bytes_of pw)))"
    by (intro exI [of _ ui'] conjI)
  then have "\<exists>d'\<in>set ds. \<exists>ui'. Data_User d' u = Some ui' \<and> (cr_compare C (ui_Hash ui') pw \<or>
      (\<exists>salt q. q \<noteq> pw \<and> cr_compare C (ui_Hash ui') q \<and> cr_sha256 C (salt @ bytes_of q) = cr_sha256 C (salt @ bytes_of pw)))"
    using q(1) by (rule bexI)
  with ui show ?thesis by simp
qed

text \<open>A user is created with one password and updated to another.\<close>

definition pw_user :: "string \<Rightarrow> UserInfo" where
  "pw_user hash = \<lparr>ui_Name = ''u'', ui_Hash = hash, ui_Admin = False, ui_Privileges = []\<rparr>"

definition ex_created :: storeFSM where
  "ex_created = (new_storeFSM 1)\<lparr>fsm_data := empty_Data\<lparr>d_Users := [pw_user ''old''], d_Term := 1, d_Index := 1\<rparr>, fsm_changed := 1\<rparr>"

definition ex_updated :: storeFSM where
  "ex_updated = (new_storeFSM 1)\<lparr>fsm_data := empty_Data\<lparr>d_Users := [pw_user ''new''], d_Term := 1, d_Index := 2\<rparr>, fsm_changed := 2\<rparr>"

lemma ex_created_apply:
  "finish_apply 1 1 (apply_command 0 True (CreateUserCommand ''u'' ''old'' False) (new_storeFSM 1)) = Applied ex_created None"
  by (simp add: applyCreateUserCommand_def apply_data_def Data_CreateUser_def Data_User_def
      new_storeFSM_def empty_Data_def finish_apply_def ex_created_def pw_user_def)

lemma ex_updated_apply:
  "finish_apply 1 2 (apply_command 0 True (UpdateUserCommand ''u'' ''new'') ex_created) = Applied ex_updated None"
  by (simp add: applyUpdateUserCommand_def apply_data_def Data_UpdateUser_def Data_User_def on_user_def forget_auth_def
      new_storeFSM_def empty_Data_def finish_apply_def ex_created_def ex_updated_def pw_user_def)

lemma ex_created_history:
  "auth_history C [fsm_data ex_created, fsm_data (new_storeFSM 1)] ex_created"
  by (rule hist_apply [OF hist_init ex_created_apply])

lemma ex_updated_history:
  "auth_history C [fsm_data ex_updated, fsm_data ex_created, fsm_data (new_storeFSM 1)] ex_updated"
  by (rule hist_apply [OF ex_created_history ex_updated_apply])

definition ex_entry :: "(string \<times> authUser) list" where
  "ex_entry = [(''u'', \<lparr>au_salt = [7], au_hash = Store_hashWithSalt ex_crypto [7] ''old''\<rparr>)]"

lemma ex_login:
  "fsm_authCache s = [] \<Longrightarrow> authenticate_fn ex_crypto (Some [7]) ''u'' ''old'' (fsm_data ex_created) s =
     (s\<lparr>fsm_authCache := ex_entry\<rparr>, ROk (Some (pw_user ''old'')))"
  by (simp add: authenticate_fn_def Data_User_def empty_Data_def ex_created_def pw_user_def ex_entry_def
      ex_crypto_def Store_saltedHash_def)

lemma ex_stale:
  assumes "fsm_data s = fsm_data ex_updated" and "fsm_authCache s = ex_entry"
  shows "Store_Authenticate ex_crypto salt ''u'' ''old'' s = (s, Inr (Some (pw_user ''new'')))"
    and "Store_Authenticate ex_crypto salt ''u'' ''new'' s = (s, Inl ErrAuthenticate)"
  using assms
  by (simp_all add: Store_Authenticate_eq authenticate_fn_def Data_User_def empty_Data_def ex_updated_def pw_user_def ex_entry_def
      ex_crypto_def Store_hashWithSalt_def bytes_of_def)

theorem authenticate_history_witness:
  "auth_history ex_crypto [fsm_data ex_updated, fsm_data ex_created, fsm_data (new_storeFSM 1)] ex_updated \<and>
   authenticate_fn ex_crypto (Some [7]) ''u'' ''old'' (fsm_data ex_created) ex_updated =
     (ex_updated\<lparr>fsm_authCache := ex_entry\<rparr>, ROk (Some (pw_user ''old''))) \<and>
   (\<exists>ui. Data_User (fsm_data ex_created) ''u'' = Some ui \<and> Some (pw_user ''old'') = Some ui)"
proof -
  have l: "authenticate_fn ex_crypto (Some [7]) ''u'' ''old'' (fsm_data ex_created) ex_updated =
     (ex_updated\<lparr>fsm_authCache := ex_entry\<rparr>, ROk (Some (pw_user ''old'')))"
    by (rule ex_login) (simp add: ex_updated_def new_storeFSM_def)
  from authenticate_history [OF ex_updated_history _ l] ex_updated_history l show ?thesis by auto
qed

text \<open>
  The race.  A login reads the metadata, the password is updated, and the login then compares
  with the old hash and caches the old password: from then on the old password is accepted and
  the new one refused, until the next update of the user.
\<close>

lemma stale_after_race:
  "\<exists>ds s. auth_history ex_crypto ds s \<and> fsm_data s = fsm_data ex_updated \<and>
     Store_Authenticate ex_crypto salt ''u'' ''old'' s = (s, Inr (Some (pw_user ''new''))) \<and>
     Store_Authenticate ex_crypto salt ''u'' ''new'' s = (s, Inl ErrAuthenticate)"
proof -
  have "fsm_authCache ex_updated = []" by (simp add: ex_updated_def new_storeFSM_def)
  from hist_login [OF ex_updated_history _ ex_login [OF this]]
  have "auth_history ex_crypto [fsm_data ex_updated, fsm_data ex_created, fsm_data (new_storeFSM 1)]
      (ex_updated\<lparr>fsm_authCache := ex_entry\<rparr>)" by simp
  then show ?thesis using ex_stale [of "ex_updated\<lparr>fsm_authCache := ex_entry\<rparr>"] by force
qed

text \<open>The same after metadata with another password replaces that under which a login was cached.\<close>

lemma stale_after_restore:
  "\<exists>ds s. auth_history ex_crypto ds s \<and> Store_Authenticate ex_crypto (Some [7]) ''u'' ''old'' ex_created =
       (ex_created\<lparr>fsm_authCache := ex_entry\<rparr>, Inr (Some (pw_user ''old''))) \<and>
     s = ex_created\<lparr>fsm_authCache := ex_entry, fsm_data := fsm_data ex_updated\<rparr> \<and>
     Store_Authenticate ex_crypto salt ''u'' ''old'' s = (s, Inr (Some (pw_user ''new''))) \<and>
     Store_Authenticate ex_crypto salt ''u'' ''new'' s = (s, Inl ErrAuthenticate)"
proof -
  have c: "fsm_authCache ex_created = []" by (simp add: ex_created_def new_storeFSM_def)
  let ?s = "ex_created\<lparr>fsm_authCache := ex_entry, fsm_data := fsm_data ex_updated\<rparr>"
  from hist_login [OF ex_created_history _ ex_login [OF c]]
  have "auth_history ex_crypto [fsm_data ex_created, fsm_data (new_storeFSM 1)] (ex_created\<lparr>fsm_authCache := ex_entry\<rparr>)"
    by simp
  from hist_replace [OF this, of "fsm_data ex_updated"]
  have "\<exists>ds. auth_history ex_crypto ds ?s" by auto
  moreover have "Store_Authenticate ex_crypto (Some [7]) ''u'' ''old'' ex_created =
       (ex_created\<lparr>fsm_authCache := ex_entry\<rparr>, Inr (Some (pw_user ''old'')))"
    using ex_login [OF c] by (simp add: Store_Authenticate_eq)
  moreover note ex_stale [of ?s salt]
  ultimately show ?thesis by simp
qed

lemma map_of_find: "map_of al k = map_option snd (List.find (\<lambda>kv. fst kv = k) al)"
  by (induction al) auto

lemma Data_UserPrivilege_eq:
  "Data_UserPrivilege d u db =
     (case Data_User d u of None \<Rightarrow> Inl ErrUserNotFound
      | Some ui \<Rightarrow> Inr (case map_of (ui_Privileges ui) db of None \<Rightarrow> NoPrivileges | Some p \<Rightarrow> p))"
  by (simp add: Data_UserPrivilege_def map_of_find split: option.splits)

text \<open>
  Granting a privilege on a database changes that one privilege of that one user; for a
  user who is no administrator, \<open>Authorize\<close> then grants exactly that privilege, or everything if
  it was all privileges.
\<close>

lemma set_privilege:
  assumes op: "Data_SetPrivilege u db p d = Inr d'"
  shows "Data_UserPrivilege d' v db' =
      (if v = u \<and> db' = db then Inr p else Data_UserPrivilege d v db') \<and>
    (\<exists>ui. Data_User d' u = Some ui \<and>
      (\<forall>q. UserInfo_Authorize ui q db \<longleftrightarrow> ui_Admin ui \<or> p = q \<or> p = AllPrivileges))"
proof -
  from op obtain x where x: "Data_User d u = Some x"
      and d': "d' = on_user u (\<lambda>ui. ui\<lparr>ui_Privileges := AList.update db p (ui_Privileges ui)\<rparr>) d"
    by (auto simp: Data_SetPrivilege_def split: if_splits)
  then show ?thesis
    by (auto simp: Data_UserPrivilege_eq Data_User_on_user update_conv' UserInfo_Authorize_def
        split: option.splits)
qed

lemma set_privilege_witness:
  "\<exists>d'. Data_SetPrivilege ''u'' ''db'' ReadPrivilege ex_data = Inr d' \<and>
     Data_UserPrivilege d' ''u'' ''db'' = Inr ReadPrivilege"
proof -
  have "\<exists>d'. Data_SetPrivilege ''u'' ''db'' ReadPrivilege ex_data = Inr d'"
    by (simp add: Data_SetPrivilege_def Data_User_def ex_data_def ex_user_def)
  then obtain d' where "Data_SetPrivilege ''u'' ''db'' ReadPrivilege ex_data = Inr d'" ..
  with set_privilege [OF this, of "''u''" "''db''"] show ?thesis by auto
qed

section \<open>Lookups\<close>

text \<open>
  C27. The shard groups of a time range are exactly the live groups whose interval has an
  instant of the range in it, in order of their start times.
\<close>

theorem shard_groups_by_time_range:
  assumes wf: "data_wf d" and rp: "find_policy d db p = Inr rpi" and range: "tmin \<le> tmax"
    and ne: "\<forall>g\<in>set (rpi_ShardGroups rpi). sgi_StartTime g < sgi_EndTime g"
  shows "\<exists>gs. Data_ShardGroupsByTimeRange d db p tmin tmax = Inr gs \<and>
    set gs = {g \<in> set (rpi_ShardGroups rpi). \<not> ShardGroupInfo_Deleted g \<and>
                (\<exists>t. tmin \<le> t \<and> t \<le> tmax \<and> ShardGroupInfo_Contains g t)} \<and>
    sorted (map sgi_StartTime gs)"
proof -
  let ?gs = "filter (\<lambda>g. \<not> (ShardGroupInfo_Deleted g \<or> \<not> ShardGroupInfo_Overlaps g tmin tmax)) (rpi_ShardGroups rpi)"
  have "ShardGroupInfo_Overlaps g tmin tmax \<longleftrightarrow> (\<exists>t. tmin \<le> t \<and> t \<le> tmax \<and> ShardGroupInfo_Contains g t)"
    if "sgi_StartTime g < sgi_EndTime g" for g
  proof
    assume "ShardGroupInfo_Overlaps g tmin tmax"
    then show "\<exists>t. tmin \<le> t \<and> t \<le> tmax \<and> ShardGroupInfo_Contains g t"
      using range that
      by (intro exI [of _ "max tmin (sgi_StartTime g)"])
        (auto simp: ShardGroupInfo_Overlaps_def ShardGroupInfo_Contains_def)
  qed (auto simp: ShardGroupInfo_Overlaps_def ShardGroupInfo_Contains_def)
  then have "set ?gs = {g \<in> set (rpi_ShardGroups rpi). \<not> ShardGroupInfo_Deleted g \<and>
      (\<exists>t. tmin \<le> t \<and> t \<le> tmax \<and> ShardGroupInfo_Contains g t)}" using ne by auto
  moreover have "sorted (map sgi_StartTime ?gs)"
    using find_policy_wf [OF wf rp] by (simp add: policy_wf_def sorted_filter)
  ultimately show ?thesis using rp by (simp add: Data_ShardGroupsByTimeRange_def)
qed

definition ex_data3 :: Data where
  "ex_data3 = ex_data\<lparr>d_Databases := [ex_db\<lparr>di_RetentionPolicies := [ex_policy\<lparr>rpi_ShardGroups := [ex_group]\<rparr>]\<rparr>],
     d_MaxShardGroupID := 1, d_MaxShardID := 1\<rparr>"

lemma ex_wf3: "data_wf ex_data3"
  by (simp add: data_wf_def nodes_wf_def names_wf_def database_wf_def policy_wf_def groups_wf_def
      all_groups_def all_policies_def shards_of_def shard_wf_def ex_data3_def ex_data_def ex_db_def ex_policy_def
      ex_user_def ex_group_def shardGroupDuration_def)

lemma ex_find3: "find_policy ex_data3 ''db'' ''p'' = Inr (ex_policy\<lparr>rpi_ShardGroups := [ex_group]\<rparr>)"
  by (simp add: find_policy_Inr Data_Database_def DatabaseInfo_RetentionPolicy_def ex_data3_def ex_data_def
      ex_db_def ex_policy_def)

theorem shard_groups_by_time_range_witness:
  "\<exists>gs. Data_ShardGroupsByTimeRange ex_data3 ''db'' ''p'' 0 5 = Inr gs \<and> set gs = {ex_group}"
proof -
  have c: "\<not> ShardGroupInfo_Deleted ex_group \<and> (\<exists>t. 0 \<le> t \<and> t \<le> 5 \<and> ShardGroupInfo_Contains ex_group t)"
    by (simp add: ShardGroupInfo_Deleted_def ShardGroupInfo_Contains_def time_IsZero_def ex_group_def Hour_def
        exI [of _ "0 :: int"])
  have "\<forall>g\<in>set (rpi_ShardGroups (ex_policy\<lparr>rpi_ShardGroups := [ex_group]\<rparr>)). sgi_StartTime g < sgi_EndTime g"
    by (simp add: ex_group_def)
  from shard_groups_by_time_range [OF ex_wf3 ex_find3 _ this, of 0 5] c show ?thesis by auto
qed

lemma find_unique_key:
  assumes "distinct (map f xs)" and "x \<in> set xs"
  shows "List.find (\<lambda>y. f y = f x) xs = Some x"
  using assms by (induction xs) (auto simp: image_iff)

lemma concat_of_concat: "concat (concat xss) = concat (map concat xss)"
  by (induction xss) simp_all

lemma distinct_live_shards:
  assumes "distinct (map si_ID (shards_of (all_groups d)))"
  shows "distinct (map (\<lambda>(_, _, _, sh). si_ID sh) (owned_shards d))"
proof -
  let ?live = "filter (\<lambda>g. \<not> ShardGroupInfo_Deleted g)"
  have m: "map (\<lambda>(_, _, _, sh). si_ID sh) (owned_shards d) = map si_ID (shards_of (?live (all_groups d)))"
    by (simp add: owned_shards_def shards_of_def all_groups_alt map_concat filter_concat
        concat_of_concat comp_def)
  have "mset (?live (all_groups d)) \<subseteq># mset (all_groups d)" by (simp add: mset_filter multiset_filter_subset)
  then have "mset (shards_of (?live (all_groups d))) \<subseteq># mset (shards_of (all_groups d))"
    unfolding mset_shards_of by (metis mset_subset_eq_exists_conv image_mset_union sum_mset.union mset_subset_eq_add_left)
  with assms show ?thesis unfolding m by (metis distinct_map_mset_mono)
qed

text \<open>
  \<open>ShardOwner\<close> identifies a shard: for every shard of a live group it returns the database,
  the policy and the group the shard belongs to.
\<close>

lemma shard_owner:
  assumes wf: "data_wf (fsm_data s)" and "di \<in> set (d_Databases (fsm_data s))"
    and "rp \<in> set (di_RetentionPolicies di)" and "g \<in> set (rpi_ShardGroups rp)"
    and "\<not> ShardGroupInfo_Deleted g" and "sh \<in> set (sgi_Shards g)"
  shows "Store_ShardOwner (si_ID sh) s = (s, Inr (Some (di_Name di, rpi_Name rp, g)))"
proof -
  let ?x = "(di_Name di, rpi_Name rp, g, sh)"
  have d: "distinct (map (\<lambda>(_, _, _, sh). si_ID sh) (owned_shards (fsm_data s)))"
    using wf by (intro distinct_live_shards) (simp add: data_wf_def groups_wf_def)
  have "?x \<in> set (owned_shards (fsm_data s))"
    using assms(2-) by (force simp: owned_shards_def)
  from find_unique_key [OF d this] have "List.find (\<lambda>(_, _, _, sh'). si_ID sh' = si_ID sh) (owned_shards (fsm_data s)) = Some ?x"
    by (simp add: case_prod_unfold)
  then show ?thesis by (simp add: Store_ShardOwner_def read_data_eq or_invalidate_def)
qed

lemma shard_owner_witness:
  "Store_ShardOwner 1 (ex_fsm\<lparr>fsm_data := ex_data3\<rparr>) =
     (ex_fsm\<lparr>fsm_data := ex_data3\<rparr>, Inr (Some (''db'', ''p'', ex_group)))"
  using shard_owner [of "ex_fsm\<lparr>fsm_data := ex_data3\<rparr>" "ex_db\<lparr>di_RetentionPolicies := [ex_policy\<lparr>rpi_ShardGroups := [ex_group]\<rparr>]\<rparr>"
      "ex_policy\<lparr>rpi_ShardGroups := [ex_group]\<rparr>" ex_group "\<lparr>si_ID = 1, si_Owners = [\<lparr>so_NodeID = 1\<rparr>, \<lparr>so_NodeID = 2\<rparr>]\<rparr>"] ex_wf3
  by (simp add: ex_data3_def ex_data_def ex_db_def ex_policy_def ex_group_def ShardGroupInfo_Deleted_def time_IsZero_def)

section \<open>Retention policies\<close>

lemma find_renamed:
  "distinct (map key xs) \<Longrightarrow> (\<And>x. key (f x) \<noteq> k) \<Longrightarrow>
     List.find (\<lambda>x. key x = k) (upd_first (\<lambda>x. key x = k) f xs) = None"
  by (induction xs) (auto simp: find_None_iff image_iff)

text \<open>
  Renaming the default retention policy of a database leaves the database without a default
  policy: the default still names the old policy, and looking it up gives nothing.
\<close>

lemma rename_default_policy_dangles:
  assumes wf: "data_wf d" and di: "Data_Database d db = Some di" and default: "di_DefaultRetentionPolicy di = name"
    and op: "Data_UpdateRetentionPolicy db name rpu d = Inr d'" and new: "rpu_Name rpu = Some n" "n \<noteq> name"
    and s: "fsm_data s = d'"
  shows "Store_DefaultRetentionPolicy db s = (s, Inr None)"
proof -
  let ?rps = "upd_first (\<lambda>rp. rpi_Name rp = name) (update_policy rpu) (di_RetentionPolicies di)"
  have d': "d' = on_database db (on_policy name (update_policy rpu)) d"
    using op di by (auto simp: Data_UpdateRetentionPolicy_def split: if_splits option.splits)
  have nm: "rpi_Name (update_policy rpu x) = n" for x
    using new by (simp add: update_policy_def Let_def split: option.splits)
  have dist: "distinct (map rpi_Name (di_RetentionPolicies di))"
    using wf di by (auto simp: data_wf_def names_wf_def database_wf_def Data_Database_def dest!: find_mem)
  have "List.find (\<lambda>rp. rpi_Name rp = name) ?rps = None"
    by (rule find_renamed [OF dist]) (simp add: new)
  moreover have "Data_Database d' db = Some (on_policy name (update_policy rpu) di)"
    using di unfolding d' Data_Database_def on_database_def by (subst databases.lookup_update) simp_all
  ultimately show ?thesis
    using default by (simp add: Store_DefaultRetentionPolicy_def read_data_eq or_invalidate_def s on_policy_def)
qed

definition ex_rename :: RetentionPolicyUpdate where
  "ex_rename = \<lparr>rpu_Name = Some ''q'', rpu_Duration = None, rpu_ReplicaN = None\<rparr>"

lemma rename_default_policy_dangles_witness:
  "\<exists>d'. Data_UpdateRetentionPolicy ''db'' ''p'' ex_rename ex_data = Inr d' \<and>
     Store_DefaultRetentionPolicy ''db'' (ex_fsm\<lparr>fsm_data := d'\<rparr>) = (ex_fsm\<lparr>fsm_data := d'\<rparr>, Inr None)"
proof -
  have "\<exists>d'. Data_UpdateRetentionPolicy ''db'' ''p'' ex_rename ex_data = Inr d'"
    by (simp add: Data_UpdateRetentionPolicy_def ex_find_database DatabaseInfo_RetentionPolicy_def ex_rename_def)
      (simp add: ex_db_def ex_policy_def)
  then obtain d' where op: "Data_UpdateRetentionPolicy ''db'' ''p'' ex_rename ex_data = Inr d'" ..
  have "Store_DefaultRetentionPolicy ''db'' (ex_fsm\<lparr>fsm_data := d'\<rparr>) = (ex_fsm\<lparr>fsm_data := d'\<rparr>, Inr None)"
    by (rule rename_default_policy_dangles [OF ex_wf ex_find_database _ op, where n = "''q''"])
      (simp_all add: ex_db_def ex_rename_def)
  with op show ?thesis by blast
qed

lemma upd_first_append_none: "List.find P xs = None \<Longrightarrow> upd_first P f (xs @ [x]) = xs @ (if P x then [f x] else [x])"
  by (induction xs) (auto split: if_splits)

lemma auto_policy_fields:
  "rpi_Name (auto_policy ns) = ''default''" "rpi_Duration (auto_policy ns) = 0"
  "rpi_ReplicaN (auto_policy ns) = min 3 (int (length ns))"
  by (simp_all add: auto_policy_def NewRetentionPolicyInfo_def AutoCreateRetentionPolicyName_def
      AutoCreateRetentionPolicyPeriod_def MaxAutoCreatedRetentionPolicyReplicaN_def)

lemma auto_policy_marshal:
  "RetentionPolicyInfo_unmarshal ((RetentionPolicyInfo_marshal (auto_policy ns))\<lparr>pbr_ShardGroups := [], pbr_Subscriptions := []\<rparr>) =
     \<lparr>rpi_Name = ''default'', rpi_ReplicaN = uint (word_of_int (min 3 (int (length ns))) :: 32 word),
      rpi_Duration = 0, rpi_ShardGroupDuration = 0, rpi_ShardGroups = [], rpi_Subscriptions = []\<rparr>"
  by (simp add: RetentionPolicyInfo_unmarshal_def RetentionPolicyInfo_marshal_def auto_policy_fields)
    (simp add: auto_policy_def NewRetentionPolicyInfo_def)

text \<open>
  Creating a database on a cluster with at least one node, with automatic policies switched
  on, succeeds and leaves it with a default policy that keeps data forever and is replicated on
  every node, up to three.
\<close>

lemma create_database_auto:
  assumes nx: "\<And>s. rft_next R s \<noteq> None"
    and enc: "raft_encodes R (CreateDatabaseCommand name)"
      "raft_encodes R (CreateRetentionPolicyCommand name (RetentionPolicyInfo_marshal (auto_policy (d_Nodes (fsm_data s)))))"
      "raft_encodes R (SetDefaultRetentionPolicyCommand name AutoCreateRetentionPolicyName)"
    and n: "d_Nodes (fsm_data s) \<noteq> []" and name: "name \<noteq> ''''" "Data_Database (fsm_data s) name = None"
  shows "\<exists>s' di rp. Store_CreateDatabase R True name s = (s', Inr (Some di)) \<and> di_Name di = name \<and>
    Store_DefaultRetentionPolicy name s' = (s', Inr (Some rp)) \<and>
    rpi_ReplicaN rp = min 3 (int (length (d_Nodes (fsm_data s)))) \<and> rpi_Duration rp = 0 \<and>
    di_RetentionPolicies di = [rp]"
proof -
  let ?nodes = "d_Nodes (fsm_data s)"
  let ?r = "min 3 (int (length ?nodes))"
  let ?rp = "\<lparr>rpi_Name = ''default'', rpi_ReplicaN = ?r, rpi_Duration = 0,
    rpi_ShardGroupDuration = shardGroupDuration 0, rpi_ShardGroups = [], rpi_Subscriptions = []\<rparr>"
  let ?di = "\<lambda>def rps. \<lparr>di_Name = name, di_DefaultRetentionPolicy = def, di_RetentionPolicies = rps, di_ContinuousQueries = []\<rparr>"
  let ?db = "\<lambda>def rps d. d_Databases d = d_Databases (fsm_data s) @ [?di def rps] \<and> d_Nodes d = ?nodes"
  have look: "Data_Database d name = Some (?di def rps)" if "?db def rps d" for def rps d
    using that name(2) by (simp add: Data_Database_def find_append)
  have upd: "?db def' rps' (on_database name f d)" if "?db def rps d" "f (?di def rps) = ?di def' rps'" for def rps def' rps' f d
    using that name(2) upd_first_append_none [of "\<lambda>di. di_Name di = name" "d_Databases (fsm_data s)"]
    by (simp add: on_database_def Data_Database_def)
  obtain t1 i1 c1 where nx1: "rft_next R s = Some (t1, i1, c1)" using nx by (metis option.exhaust prod_cases3)
  have op1: "data_command c1 (CreateDatabaseCommand name) (fsm_data s) =
      Inr (fsm_data s\<lparr>d_Databases := d_Databases (fsm_data s) @ [?di '''' []]\<rparr>)"
    using name by (simp add: Data_CreateDatabase_def)
  obtain s1 where ex1: "Store_exec R (CreateDatabaseCommand name) s = (s1, Inr ())"
    and s1: "fsm_data s1 = fsm_data s\<lparr>d_Databases := d_Databases (fsm_data s) @ [?di '''' []]\<rparr>\<lparr>d_Term := t1, d_Index := i1\<rparr>"
    using Store_exec_ok [OF enc(1) nx1 op1] .
  have d1: "?db '''' [] (fsm_data s1)" by (simp add: s1)
  obtain t2 i2 c2 where nx2: "rft_next R s1 = Some (t2, i2, c2)" using nx by (metis option.exhaust prod_cases3)
  let ?cmd2 = "CreateRetentionPolicyCommand name (RetentionPolicyInfo_marshal (auto_policy ?nodes))"
  have r: "uint (word_of_int ?r :: 32 word) = ?r" by (simp add: uint_word_of_int)
  have r1: "\<not> ?r < 1" using n by (cases ?nodes) simp_all
  have op2: "data_command c2 ?cmd2 (fsm_data s1) =
      Inr (on_database name (\<lambda>di. di\<lparr>di_RetentionPolicies := di_RetentionPolicies di @ [?rp]\<rparr>) (fsm_data s1))"
    using r1 r by (simp add: Data_CreateRetentionPolicy_def look [OF d1] auto_policy_marshal
        DatabaseInfo_RetentionPolicy_def)
  obtain s2 where ex2: "Store_exec R ?cmd2 s1 = (s2, Inr ())"
    and s2: "fsm_data s2 = on_database name (\<lambda>di. di\<lparr>di_RetentionPolicies := di_RetentionPolicies di @ [?rp]\<rparr>) (fsm_data s1)
      \<lparr>d_Term := t2, d_Index := i2\<rparr>"
    using Store_exec_ok [OF enc(2) nx2 op2] .
  have d2: "?db '''' [?rp] (fsm_data s2)"
    using upd [OF d1, of "\<lambda>di. di\<lparr>di_RetentionPolicies := di_RetentionPolicies di @ [?rp]\<rparr>" "''''" "[?rp]"] by (simp add: s2)
  obtain t3 i3 c3 where nx3: "rft_next R s2 = Some (t3, i3, c3)" using nx by (metis option.exhaust prod_cases3)
  have op3: "data_command c3 (SetDefaultRetentionPolicyCommand name AutoCreateRetentionPolicyName) (fsm_data s2) =
      Inr (on_database name (\<lambda>di. di\<lparr>di_DefaultRetentionPolicy := ''default''\<rparr>) (fsm_data s2))"
    by (simp add: Data_SetDefaultRetentionPolicy_def look [OF d2] DatabaseInfo_RetentionPolicy_def AutoCreateRetentionPolicyName_def)
  obtain s3 where ex3: "Store_exec R (SetDefaultRetentionPolicyCommand name AutoCreateRetentionPolicyName) s2 = (s3, Inr ())"
      and s3: "fsm_data s3 = on_database name (\<lambda>di. di\<lparr>di_DefaultRetentionPolicy := ''default''\<rparr>) (fsm_data s2)
        \<lparr>d_Term := t3, d_Index := i3\<rparr>"
    using Store_exec_ok [OF enc(3) nx3 op3] .
  have d3: "?db ''default'' [?rp] (fsm_data s3)"
    using upd [OF d2, of "\<lambda>di. di\<lparr>di_DefaultRetentionPolicy := ''default''\<rparr>" "''default''" "[?rp]"] by (simp add: s3)
  have "Store_CreateDatabase R True name s = (s3, Inr (Some (?di ''default'' [?rp])))"
    using ex1 ex2 ex3 d1 d2 look [OF d2] look [OF d3]
    by (simp add: Store_CreateDatabase_def sbind_def read_data_eq Store_CreateRetentionPolicy_def
        Store_SetDefaultRetentionPolicy_def Store_Database_def or_invalidate_def Store_RetentionPolicy_def
        Data_RetentionPolicy_def or_err_def auto_policy_fields)
  moreover have "Store_DefaultRetentionPolicy name s3 = (s3, Inr (Some ?rp))"
    by (simp add: Store_DefaultRetentionPolicy_def read_data_eq look [OF d3] or_invalidate_def)
  ultimately show ?thesis
    by (intro exI [of _ s3] exI [of _ "?di ''default'' [?rp]"] exI [of _ ?rp]) simp
qed

lemma create_database_auto_witness:
  "\<exists>R s' di rp. Store_CreateDatabase R True ''x'' ex_fsm = (s', Inr (Some di)) \<and>
    Store_DefaultRetentionPolicy ''x'' s' = (s', Inr (Some rp)) \<and> rpi_ReplicaN rp = 3"
proof -
  let ?c = "[CreateDatabaseCommand ''x'',
    CreateRetentionPolicyCommand ''x'' (RetentionPolicyInfo_marshal (auto_policy (d_Nodes (fsm_data ex_fsm)))),
    SetDefaultRetentionPolicyCommand ''x'' AutoCreateRetentionPolicyName]"
  have "\<exists>s' di rp. Store_CreateDatabase (ex_raft ?c) True ''x'' ex_fsm = (s', Inr (Some di)) \<and> di_Name di = ''x'' \<and>
    Store_DefaultRetentionPolicy ''x'' s' = (s', Inr (Some rp)) \<and>
    rpi_ReplicaN rp = min 3 (int (length (d_Nodes (fsm_data ex_fsm)))) \<and> rpi_Duration rp = 0 \<and>
    di_RetentionPolicies di = [rp]"
  proof (rule create_database_auto)
    show "rft_next (ex_raft ?c) s \<noteq> None" for s by (simp add: ex_raft_def)
    show "d_Nodes (fsm_data ex_fsm) \<noteq> []" "Data_Database (fsm_data ex_fsm) ''x'' = None"
      by (simp_all add: ex_fsm_def ex_data_def ex_db_def Data_Database_def)
  qed (simp_all add: ex_raft_encodes)
  then show ?thesis by (fastforce simp: ex_fsm_def ex_data_def)
qed

end
