(* ===== verification/Bytes.thy ===== *)
theory Bytes
  imports Go_Prelude
begin

text \<open>
  Fixed-width big-endian integers (\<open>encoding/binary\<close>): the conversions the hinted-handoff queue
  and the storage engine use, and that they are inverse to each other; floats as their bits.
\<close>

unbundle bit_operations_syntax

definition PutUint64 :: "u64 \<Rightarrow> byte list" where
  "PutUint64 v = [ucast (drop_bit 56 v), ucast (drop_bit 48 v), ucast (drop_bit 40 v), ucast (drop_bit 32 v),
     ucast (drop_bit 24 v), ucast (drop_bit 16 v), ucast (drop_bit 8 v), ucast v]"

definition Uint64 :: "byte list \<Rightarrow> u64" where
  "Uint64 b = ucast (b ! 7) OR push_bit 8 (ucast (b ! 6)) OR push_bit 16 (ucast (b ! 5)) OR
     push_bit 24 (ucast (b ! 4)) OR push_bit 32 (ucast (b ! 3)) OR push_bit 40 (ucast (b ! 2)) OR
     push_bit 48 (ucast (b ! 1)) OR push_bit 56 (ucast (b ! 0))"

lemma length_PutUint64 [simp]: "length (PutUint64 v) = 8"
  by (simp add: PutUint64_def)

lemma PutUint64_not_Nil [simp]: "PutUint64 v \<noteq> []"
  by (simp add: PutUint64_def)

lemma Uint64_PutUint64 [simp]: "Uint64 (PutUint64 v @ rest) = v"
proof (rule bit_eqI)
  fix n :: nat assume n: "possible_bit TYPE(64 word) n"
  then have "n < 64" by simp
  then consider "n < 8" | "8 \<le> n" "n < 16" | "16 \<le> n" "n < 24" | "24 \<le> n" "n < 32" | "32 \<le> n" "n < 40"
    | "40 \<le> n" "n < 48" | "48 \<le> n" "n < 56" | "56 \<le> n" "n < 64" by linarith
  then show "bit (Uint64 (PutUint64 v @ rest)) n = bit v n"
    by cases (auto simp: Uint64_def PutUint64_def bit_simps)
qed

lemma PutUint64_Uint64:
  assumes "length b = 8"
  shows "PutUint64 (Uint64 b) = b"
proof (rule nth_equalityI)
  show "length (PutUint64 (Uint64 b)) = length b" by (simp add: assms)
  fix i assume "i < length (PutUint64 (Uint64 b))"
  then have "i \<in> {0, 1, 2, 3, 4, 5, 6, 7}" by auto
  moreover have "ucast (drop_bit (8 * k) (Uint64 b)) = b ! (7 - k)" if "k < 8" for k
  proof (rule bit_eqI)
    fix n :: nat assume "possible_bit TYPE(8 word) n"
    then have n: "n < 8" by simp
    from that consider "k = 0" | "k = 1" | "k = 2" | "k = 3" | "k = 4" | "k = 5" | "k = 6" | "k = 7" by linarith
    then show "bit (ucast (drop_bit (8 * k) (Uint64 b)) :: byte) n = bit (b ! (7 - k)) n"
      using n by cases (auto simp: Uint64_def bit_simps dest: bit_imp_possible_bit)
  qed
  from this [of 7] this [of 6] this [of 5] this [of 4] this [of 3] this [of 2] this [of 1] this [of 0]
  have "PutUint64 (Uint64 b) = [b ! 0, b ! 1, b ! 2, b ! 3, b ! 4, b ! 5, b ! 6, b ! 7]"
    by (simp add: PutUint64_def)
  ultimately show "PutUint64 (Uint64 b) ! i = b ! i" by auto
qed

lemma unat_of_nat_small: "n < 2 ^ 63 \<Longrightarrow> unat (of_nat n :: u64) = n"
  by (simp add: unat_of_nat)

lemma sint_of_nat_small: "n < 2 ^ 63 \<Longrightarrow> sint (of_nat n :: u64) = int n"
  using int_word_sint [where 'a = 64, of "int n"] by simp

text \<open>A \<open>float64\<close> is its bits (\<open>math.Float64bits\<close>).\<close>

definition math_IsNaN :: "u64 \<Rightarrow> bool" where
  "math_IsNaN v \<longleftrightarrow> v AND 0x7FF0000000000000 = 0x7FF0000000000000 \<and> v AND 0x000FFFFFFFFFFFFF \<noteq> 0"

definition math_NaN :: u64 where
  "math_NaN = 0x7FF8000000000001"

lemma IsNaN_NaN [simp]: "math_IsNaN math_NaN"
  by (simp add: math_IsNaN_def math_NaN_def)

end
