(* ===== verification/HH_Segment.thy ===== *)
theory HH_Segment
  imports Bytes
begin

text \<open>
  A segment of the hinted-handoff queue (\<open>services/hh/queue.go\<close>), down to the bytes of its
  file: length-prefixed blocks followed by a footer with the position of the head block.  The
  main result is that a segment is a first-in first-out queue of blocks, also across closing and
  reopening the file.  Reads and writes of the file succeed (errors of the disk are not
  modelled); a read past the end and a seek before the start fail as they do in Go.
\<close>

section \<open>Files\<close>

datatype hh_error = ErrNotOpen | ErrQueueFull | ErrSegmentFull | IoEOF | BadRead | BadSeek
  | RecordSizeOutOfRange | QueueIsOpen | InvalidFile | PanicMakeBytes | PanicNil

type_synonym 'a hh = "hh_error + 'a"

record os_file =
  f_bytes :: "byte list"
  f_off :: nat

definition file_Seek :: "int \<Rightarrow> os_file \<Rightarrow> os_file hh" where
  "file_Seek pos f = (if pos < 0 then Inl BadSeek else Inr (f\<lparr>f_off := nat pos\<rparr>))"

definition file_SeekEnd :: "int \<Rightarrow> os_file \<Rightarrow> os_file hh" where
  "file_SeekEnd pos f = file_Seek (int (length (f_bytes f)) + pos) f"

text \<open>Writing past the end fills the gap with zeros.\<close>

definition file_Write :: "byte list \<Rightarrow> os_file \<Rightarrow> os_file" where
  "file_Write b f =
     f\<lparr>f_bytes := take (f_off f) (f_bytes f) @ replicate (f_off f - length (f_bytes f)) 0 @ b @
          drop (f_off f + length b) (f_bytes f),
       f_off := f_off f + length b\<rparr>"

text \<open>\<open>readBytes\<close>: a read at the end of the file is \<open>io.EOF\<close>, a short read an error.\<close>

definition file_ReadBytes :: "nat \<Rightarrow> os_file \<Rightarrow> (os_file \<times> byte list) hh" where
  "file_ReadBytes n f =
     (if n = 0 then Inr (f, [])
      else if length (f_bytes f) \<le> f_off f then Inl IoEOF
      else if length (f_bytes f) < f_off f + n then Inl BadRead
      else Inr (f\<lparr>f_off := f_off f + n\<rparr>, take n (drop (f_off f) (f_bytes f))))"

section \<open>Segments\<close>

definition footerSize :: int where
  "footerSize = 8"

record segment =
  seg_size :: int
  seg_file :: os_file
  seg_open :: bool
  seg_pos :: int
  seg_currentSize :: int
  seg_maxSize :: int

text \<open>
  \<open>seg_open\<close> is \<open>file != nil\<close>; the file on disk stays when the handle is dropped.  An
  operation returns the segment as it leaves it, also on an error.
\<close>

type_synonym 'a seg_op = "segment \<Rightarrow> segment \<times> 'a hh"

definition u64tob :: "u64 \<Rightarrow> byte list" where
  "u64tob v = PutUint64 v"

definition btou64 :: "byte list \<Rightarrow> u64" where
  "btou64 b = Uint64 b"

definition segment_seek :: "int \<Rightarrow> unit seg_op" where
  "segment_seek pos s = (case file_Seek pos (seg_file s) of
     Inl e \<Rightarrow> (s, Inl e) | Inr f \<Rightarrow> (s\<lparr>seg_file := f\<rparr>, Inr ()))"

definition segment_seekToCurrent :: "unit seg_op" where
  "segment_seekToCurrent s = segment_seek (seg_pos s) s"

definition segment_seekEnd :: "int \<Rightarrow> unit seg_op" where
  "segment_seekEnd pos s = (case file_SeekEnd pos (seg_file s) of
     Inl e \<Rightarrow> (s, Inl e) | Inr f \<Rightarrow> (s\<lparr>seg_file := f\<rparr>, Inr ()))"

definition segment_writeBytes :: "byte list \<Rightarrow> segment \<Rightarrow> segment" where
  "segment_writeBytes b s = s\<lparr>seg_file := file_Write b (seg_file s)\<rparr>"

definition segment_writeUint64 :: "u64 \<Rightarrow> segment \<Rightarrow> segment" where
  "segment_writeUint64 sz s = segment_writeBytes (u64tob sz) s"

definition segment_readBytes :: "nat \<Rightarrow> byte list seg_op" where
  "segment_readBytes n s = (case file_ReadBytes n (seg_file s) of
     Inl e \<Rightarrow> (s, Inl e) | Inr (f, b) \<Rightarrow> (s\<lparr>seg_file := f\<rparr>, Inr b))"

definition segment_readUint64 :: "u64 seg_op" where
  "segment_readUint64 s = (case segment_readBytes 8 s of
     (s', Inl e) \<Rightarrow> (s', Inl e) | (s', Inr b) \<Rightarrow> (s', Inr (btou64 b)))"

text \<open>\<open>if err := m(); err != nil { return err }\<close>, then the rest.\<close>

definition seg_bind :: "'a seg_op \<Rightarrow> ('a \<Rightarrow> 'b seg_op) \<Rightarrow> 'b seg_op" where
  "seg_bind m k s = (case m s of (s', Inl e) \<Rightarrow> (s', Inl e) | (s', Inr x) \<Rightarrow> k x s')"

definition segment_open :: "unit seg_op" where
  "segment_open s =
     (if seg_size s = 0 then
        ((segment_writeUint64 (word_of_int 0) (s\<lparr>seg_pos := 0, seg_currentSize := 0\<rparr>))\<lparr>seg_size := footerSize\<rparr>, Inr ())
      else
        seg_bind (segment_seekEnd (- footerSize)) (\<lambda>_.
        seg_bind segment_readUint64 (\<lambda>pos s1.
          (let s2 = s1\<lparr>seg_pos := sint pos\<rparr> in
           seg_bind segment_seekToCurrent (\<lambda>_ s3.
             if seg_pos s3 < seg_size s3 - footerSize
             then seg_bind segment_readUint64 (\<lambda>sz s4. (s4\<lparr>seg_currentSize := sint sz\<rparr>, Inr ())) s3
             else (s3, Inr ())) s2))) s)"

text \<open>\<open>newSegment\<close> opens the file with these bytes, creating it empty if there are none.\<close>

definition newSegment :: "byte list \<Rightarrow> int \<Rightarrow> segment \<times> unit hh" where
  "newSegment bytes maxSize =
     segment_open \<lparr>seg_size = int (length bytes), seg_file = \<lparr>f_bytes = bytes, f_off = 0\<rparr>, seg_open = True,
       seg_pos = 0, seg_currentSize = 0, seg_maxSize = maxSize\<rparr>"

definition segment_append :: "byte list \<Rightarrow> unit seg_op" where
  "segment_append b s =
     (if \<not> seg_open s then (s, Inl ErrNotOpen)
      else if seg_size s + int (length b) > seg_maxSize s then (s, Inl ErrSegmentFull)
      else
        seg_bind (segment_seekEnd (- footerSize)) (\<lambda>_ s1.
          (let s2 = segment_writeUint64 (of_nat (length b)) s1;
               s3 = segment_writeBytes b s2;
               s4 = segment_writeUint64 (word_of_int (seg_pos s3)) s3;
               s5 = (if seg_currentSize s4 = 0 then s4\<lparr>seg_currentSize := int (length b)\<rparr> else s4)
           in (s5\<lparr>seg_size := seg_size s5 + int (length b) + 8\<rparr>, Inr ()))) s)"

definition segment_current :: "byte list seg_op" where
  "segment_current s =
     (if seg_pos s = seg_size s - 8 then (s, Inl IoEOF)
      else
        seg_bind segment_seekToCurrent (\<lambda>_.
        seg_bind segment_readUint64 (\<lambda>sz s1.
          (let s2 = s1\<lparr>seg_currentSize := sint sz\<rparr> in
           if sint sz > seg_maxSize s2 then (s2, Inl RecordSizeOutOfRange)
           else if sint sz < 0 then (s2, Inl PanicMakeBytes)
           else segment_readBytes (unat sz) s2))) s)"

definition segment_advance :: "unit seg_op" where
  "segment_advance s =
     (if \<not> seg_open s then (s, Inl ErrNotOpen)
      else if seg_pos s = seg_size s - footerSize then (s\<lparr>seg_currentSize := 0\<rparr>, Inl IoEOF)
      else
        seg_bind (segment_seekEnd (- footerSize)) (\<lambda>_ s1.
          (let pos = seg_pos s1 + seg_currentSize s1 + 8;
               s2 = (segment_writeUint64 (word_of_int pos) s1)\<lparr>seg_pos := pos\<rparr>
           in seg_bind segment_seekToCurrent (\<lambda>_.
              seg_bind segment_readUint64 (\<lambda>sz s3.
                (let s4 = s3\<lparr>seg_currentSize := sint sz\<rparr> in
                 if seg_pos s4 = seg_size s4 - footerSize then (s4\<lparr>seg_currentSize := 0\<rparr>, Inl IoEOF)
                 else (s4, Inr ())))) s2)) s)"

definition segment_close :: "segment \<Rightarrow> segment" where
  "segment_close s = s\<lparr>seg_open := False\<rparr>"

definition segment_diskUsage :: "segment \<Rightarrow> int" where
  "segment_diskUsage s = seg_size s"

definition segment_SetMaxSegmentSize :: "int \<Rightarrow> segment \<Rightarrow> segment" where
  "segment_SetMaxSegmentSize sz s = s\<lparr>seg_maxSize := sz\<rparr>"

section \<open>The layout of the file\<close>

definition block :: "byte list \<Rightarrow> byte list" where
  "block b = u64tob (of_nat (length b)) @ b"

definition blocks :: "byte list list \<Rightarrow> byte list" where
  "blocks bs = concat (map block bs)"

definition head_size :: "byte list list \<Rightarrow> int" where
  "head_size q = (case q of [] \<Rightarrow> 0 | b # _ \<Rightarrow> int (length b))"

text \<open>
  \<open>seg_at s cs q\<close>: the segment is open, its file holds the consumed blocks, then the pending
  blocks, then the footer, and the cached fields agree with the file.
\<close>

definition seg_layout :: "segment \<Rightarrow> byte list list \<Rightarrow> byte list list \<Rightarrow> bool" where
  "seg_layout s cs q \<longleftrightarrow>
     f_bytes (seg_file s) = blocks cs @ blocks q @ u64tob (of_nat (length (blocks cs))) \<and>
     length (f_bytes (seg_file s)) < 2 ^ 63 \<and> (\<forall>b\<in>set q. b \<noteq> [])"

definition seg_at :: "segment \<Rightarrow> byte list list \<Rightarrow> byte list list \<Rightarrow> bool" where
  "seg_at s cs q \<longleftrightarrow> seg_open s \<and> seg_layout s cs q \<and>
     seg_size s = int (length (f_bytes (seg_file s))) \<and>
     seg_pos s = int (length (blocks cs)) \<and> seg_currentSize s = head_size q"

lemma length_u64tob [simp]: "length (u64tob v) = 8"
  by (simp add: u64tob_def)

lemma btou64_u64tob [simp]: "btou64 (u64tob v) = v"
  using Uint64_PutUint64 [of v "[]"] by (simp add: u64tob_def btou64_def)

lemma blocks_simps [simp]: "blocks [] = []" "blocks (b # bs) = block b @ blocks bs"
  "blocks (as @ bs) = blocks as @ blocks bs"
  by (simp_all add: blocks_def)

lemma length_block [simp]: "length (block b) = 8 + length b"
  by (simp add: block_def)

lemma blocks_Nil_iff: "blocks q = [] \<longleftrightarrow> q = []"
  by (cases q) (simp_all add: block_def u64tob_def)

section \<open>Reads and writes at known places\<close>

text \<open>Overwriting the last eight bytes of a file, with more.\<close>

lemma seekEnd_write:
  assumes "f_bytes (seg_file s) = xs @ footer" and "length footer = 8"
  shows "segment_seekEnd (- footerSize) s = (s\<lparr>seg_file := \<lparr>f_bytes = xs @ footer, f_off = length xs\<rparr>\<rparr>, Inr ())"
  using assms by (cases "seg_file s") (simp add: segment_seekEnd_def file_SeekEnd_def file_Seek_def footerSize_def)

lemma file_Write_at:
  "file_Write b \<lparr>f_bytes = xs @ old, f_off = length xs\<rparr> = \<lparr>f_bytes = xs @ b @ drop (length b) old, f_off = length xs + length b\<rparr>"
  by (simp add: file_Write_def)

lemma readUint64_at:
  assumes "f_bytes (seg_file s) = xs @ u64tob v @ ys" and "f_off (seg_file s) = length xs"
  shows "segment_readUint64 s = (s\<lparr>seg_file := \<lparr>f_bytes = xs @ u64tob v @ ys, f_off = length xs + 8\<rparr>\<rparr>, Inr v)"
  using assms by (cases "seg_file s") (simp add: segment_readUint64_def segment_readBytes_def file_ReadBytes_def)

lemma readBytes_at:
  assumes "f_bytes (seg_file s) = xs @ b @ ys" and "f_off (seg_file s) = length xs"
  shows "segment_readBytes (length b) s =
    (s\<lparr>seg_file := \<lparr>f_bytes = xs @ b @ ys, f_off = length xs + length b\<rparr>\<rparr>, Inr b)"
  using assms by (cases "seg_file s") (auto simp: segment_readBytes_def file_ReadBytes_def)

lemma seekToCurrent_at:
  assumes "seg_pos s = int n"
  shows "segment_seekToCurrent s = (s\<lparr>seg_file := (seg_file s)\<lparr>f_off := n\<rparr>\<rparr>, Inr ())"
  using assms by (simp add: segment_seekToCurrent_def segment_seek_def file_Seek_def)

section \<open>Every operation on the layout\<close>

lemma seg_atD:
  assumes "seg_at s cs q"
  shows "seg_open s" and "f_bytes (seg_file s) = blocks cs @ blocks q @ u64tob (of_nat (length (blocks cs)))"
    and "seg_size s = int (length (blocks cs) + length (blocks q) + 8)"
    and "seg_pos s = int (length (blocks cs))" and "seg_currentSize s = head_size q"
    and "length (blocks cs) + length (blocks q) + 8 < 2 ^ 63" and "\<forall>b\<in>set q. b \<noteq> []"
  using assms by (auto simp: seg_at_def seg_layout_def)

lemma seg_atI:
  assumes "seg_open s" and "f_bytes (seg_file s) = blocks cs @ blocks q @ u64tob (of_nat (length (blocks cs)))"
    and "seg_size s = int (length (blocks cs) + length (blocks q) + 8)"
    and "seg_pos s = int (length (blocks cs))" and "seg_currentSize s = head_size q"
    and "length (blocks cs) + length (blocks q) + 8 < 2 ^ 63" and "\<forall>b\<in>set q. b \<noteq> []"
  shows "seg_at s cs q"
  using assms by (simp add: seg_at_def seg_layout_def)

lemma head_size_append: "\<forall>b\<in>set q. b \<noteq> [] \<Longrightarrow> b \<noteq> [] \<Longrightarrow>
   head_size (q @ [b]) = (if head_size q = 0 then int (length b) else head_size q)"
  by (cases q) (auto simp: head_size_def)

lemma segment_append_full:
  "seg_at s cs q \<Longrightarrow> seg_size s + int (length b) > seg_maxSize s \<Longrightarrow> segment_append b s = (s, Inl ErrSegmentFull)"
  by (simp add: segment_append_def seg_at_def)

lemma segment_append_ok:
  assumes at: "seg_at s cs q" and room: "seg_size s + int (length b) \<le> seg_maxSize s"
    and b: "b \<noteq> []" and small: "seg_size s + int (length b) + 8 < 2 ^ 63"
  obtains s' where "segment_append b s = (s', Inr ())" and "seg_at s' cs (q @ [b])"
    and "seg_maxSize s' = seg_maxSize s" and "seg_size s' = seg_size s + int (length b) + 8"
proof -
  note D = seg_atD [OF at]
  let ?xs = "blocks cs @ blocks q"
  let ?foot = "u64tob (of_nat (length (blocks cs)))"
  have f: "f_bytes (seg_file s) = ?xs @ ?foot" using D(2) by simp
  let ?s = "s\<lparr>seg_file := \<lparr>f_bytes = ?xs @ block b @ ?foot, f_off = length ?xs + length (block b) + 8\<rparr>,
    seg_currentSize := head_size (q @ [b]), seg_size := seg_size s + int (length b) + 8\<rparr>"
  have w1: "file_Write (u64tob (of_nat (length b))) \<lparr>f_bytes = ?xs @ ?foot, f_off = length ?xs\<rparr> =
      \<lparr>f_bytes = (?xs @ u64tob (of_nat (length b))) @ [], f_off = length (?xs @ u64tob (of_nat (length b)))\<rparr>"
    by (subst file_Write_at) simp
  have w2: "file_Write b \<lparr>f_bytes = (?xs @ u64tob (of_nat (length b))) @ [], f_off = length (?xs @ u64tob (of_nat (length b)))\<rparr> =
      \<lparr>f_bytes = (?xs @ block b) @ [], f_off = length (?xs @ block b)\<rparr>"
    by (subst file_Write_at) (simp add: block_def)
  have w3: "file_Write ?foot \<lparr>f_bytes = (?xs @ block b) @ [], f_off = length (?xs @ block b)\<rparr> =
      \<lparr>f_bytes = ?xs @ block b @ ?foot, f_off = length ?xs + length (block b) + 8\<rparr>"
    by (subst file_Write_at) simp
  have hs: "head_size (q @ [b]) = (if head_size q = 0 then int (length b) else head_size q)"
    by (rule head_size_append [OF D(7) b])
  have "segment_append b s = (?s, Inr ())"
    using room D(1,4,5) hs
    by (simp add: segment_append_def seg_bind_def seekEnd_write [OF f] segment_writeUint64_def
        segment_writeBytes_def w1 [simplified] w2 [simplified] w3 [simplified] Let_def not_less)
  moreover have "seg_at ?s cs (q @ [b])"
    using D b small by (intro seg_atI) auto
  ultimately show thesis by (intro that [of ?s]) simp_all
qed

lemma segment_current_Nil: "seg_at s cs [] \<Longrightarrow> segment_current s = (s, Inl IoEOF)"
  by (simp add: segment_current_def seg_atD)

lemma segment_current_Cons:
  assumes at: "seg_at s cs (b # q)" and fits: "int (length b) \<le> seg_maxSize s"
  obtains s' where "segment_current s = (s', Inr b)" and "seg_at s' cs (b # q)"
    and "seg_maxSize s' = seg_maxSize s" and "seg_size s' = seg_size s"
proof -
  note D = seg_atD [OF at]
  let ?foot = "u64tob (of_nat (length (blocks cs)))"
  let ?F = "blocks cs @ u64tob (of_nat (length b)) @ b @ blocks q @ ?foot"
  have F: "f_bytes (seg_file s) = ?F" using D(2) by (simp add: block_def)
  have len: "length b < 2 ^ 63" using D(6) by simp
  let ?s1 = "s\<lparr>seg_file := (seg_file s)\<lparr>f_off := length (blocks cs)\<rparr>\<rparr>"
  let ?s2 = "s\<lparr>seg_file := \<lparr>f_bytes = ?F, f_off = length (blocks cs) + 8\<rparr>\<rparr>"
  let ?s3 = "s\<lparr>seg_file := \<lparr>f_bytes = ?F, f_off = length (blocks cs) + 8 + length b\<rparr>\<rparr>"
  have 1: "segment_seekToCurrent s = (?s1, Inr ())" by (rule seekToCurrent_at [OF D(4)])
  have 2: "segment_readUint64 ?s1 = (?s2, Inr (of_nat (length b)))"
    using readUint64_at [of ?s1 "blocks cs" "of_nat (length b)"] F by simp
  have cur: "?s2\<lparr>seg_currentSize := int (length b)\<rparr> = ?s2" using D(5) by (cases s) (simp add: head_size_def)
  have 3: "segment_readBytes (length b) ?s2 = (?s3, Inr b)"
    using readBytes_at [of ?s2 "blocks cs @ u64tob (of_nat (length b))" b "blocks q @ ?foot"] by simp
  have ne: "seg_pos s \<noteq> seg_size s - 8" using D(3,4) by simp
  have "segment_current s = (?s3, Inr b)"
    using ne fits cur 3
    by (simp add: segment_current_def seg_bind_def 1 2 Let_def sint_of_nat_small [OF len] unat_of_nat_small [OF len])
  moreover have "seg_at ?s3 cs (b # q)"
    using D F by (intro seg_atI) (simp_all add: block_def)
  ultimately show thesis by (intro that [of ?s3]) simp_all
qed

lemma segment_advance_Nil:
  "seg_at s cs [] \<Longrightarrow> segment_advance s = (s, Inl IoEOF)"
  using seg_atD [of s cs "[]"] by (simp add: segment_advance_def footerSize_def head_size_def)

text \<open>Moving past the last block reports the end of the file as well.\<close>

lemma segment_advance_Cons:
  assumes at: "seg_at s cs (b # q)"
  obtains s' where "segment_advance s = (s', if q = [] then Inl IoEOF else Inr ())" and "seg_at s' (cs @ [b]) q"
    and "seg_maxSize s' = seg_maxSize s" and "seg_size s' = seg_size s"
proof -
  note D = seg_atD [OF at]
  define pre where "pre = blocks (cs @ [b])"
  define n where "n = length pre"
  define v where "v = (case q of [] \<Rightarrow> (of_nat n :: u64) | c # _ \<Rightarrow> of_nat (length c))"
  let ?old = "u64tob (of_nat (length (blocks cs)))"
  let ?F = "pre @ blocks q @ u64tob (of_nat n)"
  have f: "f_bytes (seg_file s) = (pre @ blocks q) @ ?old" using D(2) by (simp add: pre_def)
  have pos: "seg_pos s + seg_currentSize s + 8 = int n" using D(4,5) by (simp add: head_size_def n_def pre_def)
  let ?s1 = "s\<lparr>seg_file := \<lparr>f_bytes = (pre @ blocks q) @ ?old, f_off = length (pre @ blocks q)\<rparr>\<rparr>"
  let ?s2 = "s\<lparr>seg_file := \<lparr>f_bytes = ?F, f_off = length (pre @ blocks q) + 8\<rparr>, seg_pos := int n\<rparr>"
  let ?s3 = "s\<lparr>seg_file := \<lparr>f_bytes = ?F, f_off = n\<rparr>, seg_pos := int n\<rparr>"
  let ?s4 = "s\<lparr>seg_file := \<lparr>f_bytes = ?F, f_off = n + 8\<rparr>, seg_pos := int n\<rparr>"
  let ?s5 = "?s4\<lparr>seg_currentSize := head_size q\<rparr>"
  have 0: "segment_seekEnd (- footerSize) s = (?s1, Inr ())" by (rule seekEnd_write [OF f]) simp
  have w: "(segment_writeUint64 (word_of_int (int n)) ?s1)\<lparr>seg_pos := int n\<rparr> = ?s2"
    using file_Write_at [of "u64tob (of_nat n)" "pre @ blocks q" ?old]
    by (simp add: segment_writeUint64_def segment_writeBytes_def)
  have 1: "segment_seekToCurrent ?s2 = (?s3, Inr ())" using seekToCurrent_at [of ?s2 n] by simp
  obtain ys where ys: "blocks q @ u64tob (of_nat n) = u64tob v @ ys"
    by (cases q) (simp_all add: v_def block_def)
  have 2: "segment_readUint64 ?s3 = (?s4, Inr v)"
    using readUint64_at [of ?s3 pre v ys] ys by (simp add: n_def)
  have v: "q \<noteq> [] \<Longrightarrow> sint v = head_size q"
    using D(6) by (cases q) (auto simp: v_def head_size_def intro!: sint_of_nat_small)
  have ne: "seg_pos s \<noteq> seg_size s - footerSize" using D(3,4) by (simp add: footerSize_def)
  have e: "int n = seg_size s - footerSize \<longleftrightarrow> q = []"
    using D(3) blocks_Nil_iff [of q] by (simp add: footerSize_def n_def pre_def)
  have "segment_advance s = seg_bind segment_seekToCurrent (\<lambda>_. seg_bind segment_readUint64 (\<lambda>sz s3.
      (let s4 = s3\<lparr>seg_currentSize := sint sz\<rparr> in
       if seg_pos s4 = seg_size s4 - footerSize then (s4\<lparr>seg_currentSize := 0\<rparr>, Inl IoEOF) else (s4, Inr ()))))
      ((segment_writeUint64 (word_of_int (seg_pos s + seg_currentSize s + 8)) ?s1)\<lparr>seg_pos := seg_pos s + seg_currentSize s + 8\<rparr>)"
    using ne D(1) by (simp only: segment_advance_def seg_bind_def 0 Let_def if_False prod.case sum.case simp_thms)
      (simp split: prod.split sum.split)
  also have "\<dots> = (?s5, if q = [] then Inl IoEOF else Inr ())"
    unfolding pos w seg_bind_def 1 2 prod.case sum.case Let_def
    using e v by (cases "q = []") (simp_all add: head_size_def)
  finally have "segment_advance s = (?s5, if q = [] then Inl IoEOF else Inr ())" .
  moreover have "seg_at ?s5 (cs @ [b]) q"
    using D by (intro seg_atI) (simp_all add: n_def pre_def add.assoc)
  ultimately show thesis by (intro that [of ?s5]) simp_all
qed

section \<open>Opening\<close>

lemma newSegment_empty:
  obtains s where "newSegment [] m = (s, Inr ())" and "seg_at s [] []" and "seg_maxSize s = m"
    and "seg_size s = 8"
proof -
  let ?s = "\<lparr>seg_size = 8, seg_file = \<lparr>f_bytes = u64tob 0, f_off = 8\<rparr>, seg_open = True,
    seg_pos = 0, seg_currentSize = 0, seg_maxSize = m\<rparr>"
  have "newSegment [] m = (?s, Inr ())"
    by (simp add: newSegment_def segment_open_def segment_writeUint64_def segment_writeBytes_def file_Write_def
        footerSize_def)
  moreover have "seg_at ?s [] []" by (intro seg_atI) (simp_all add: head_size_def)
  ultimately show thesis by (intro that [of ?s]) simp_all
qed

text \<open>Opening an existing file finds the pending blocks where they were left.\<close>

lemma newSegment_layout:
  assumes bytes: "bytes = blocks cs @ blocks q @ u64tob (of_nat (length (blocks cs)))"
    and small: "length bytes < 2 ^ 63" and ne: "\<forall>b\<in>set q. b \<noteq> []"
  obtains s where "newSegment bytes m = (s, Inr ())" and "seg_at s cs q" and "seg_maxSize s = m"
proof -
  define n where "n = length (blocks cs)"
  have n63: "n < 2 ^ 63" using bytes small by (simp add: n_def)
  let ?s0 = "\<lparr>seg_size = int (length bytes), seg_file = \<lparr>f_bytes = bytes, f_off = 0\<rparr>, seg_open = True,
       seg_pos = 0, seg_currentSize = 0, seg_maxSize = m\<rparr>"
  let ?xs = "blocks cs @ blocks q"
  have f: "f_bytes (seg_file ?s0) = ?xs @ u64tob (of_nat n)" using bytes by (simp add: n_def)
  let ?s1 = "?s0\<lparr>seg_file := \<lparr>f_bytes = ?xs @ u64tob (of_nat n), f_off = length ?xs\<rparr>\<rparr>"
  let ?s2 = "?s0\<lparr>seg_file := \<lparr>f_bytes = bytes, f_off = length ?xs + 8\<rparr>\<rparr>"
  let ?s3 = "?s0\<lparr>seg_file := \<lparr>f_bytes = bytes, f_off = n\<rparr>, seg_pos := int n\<rparr>"
  have 1: "segment_seekEnd (- footerSize) ?s0 = (?s1, Inr ())" by (rule seekEnd_write [OF f]) simp
  have 2: "segment_readUint64 ?s1 = (?s2, Inr (of_nat n))"
    using readUint64_at [of ?s1 ?xs "of_nat n" "[]"] f by simp
  have 3: "segment_seekToCurrent (?s2\<lparr>seg_pos := int n\<rparr>) = (?s3, Inr ())"
    using seekToCurrent_at [of "?s2\<lparr>seg_pos := int n\<rparr>" n] by simp
  have "\<exists>s. newSegment bytes m = (s, Inr ()) \<and> seg_at s cs q \<and> seg_maxSize s = m"
  proof (cases q)
    case Nil
    have "newSegment bytes m = (?s3, Inr ())"
      unfolding newSegment_def segment_open_def seg_bind_def 1 2 prod.case sum.case sint_of_nat_small [OF n63] Let_def 3
      using bytes Nil by (simp add: n_def footerSize_def)
    moreover have "seg_at ?s3 cs q"
      using bytes small ne Nil by (intro seg_atI) (simp_all add: n_def head_size_def)
    ultimately show ?thesis by (intro exI [of _ ?s3]) simp
  next
    case (Cons c q')
    let ?s4 = "?s3\<lparr>seg_file := \<lparr>f_bytes = bytes, f_off = n + 8\<rparr>\<rparr>"
    have 4: "segment_readUint64 ?s3 = (?s4, Inr (of_nat (length c)))"
      using readUint64_at [of ?s3 "blocks cs" "of_nat (length c)" "c @ blocks q' @ u64tob (of_nat n)"] bytes Cons
      by (simp add: n_def block_def)
    have c63: "length c < 2 ^ 63" using bytes small Cons by simp
    have "newSegment bytes m = (?s4\<lparr>seg_currentSize := int (length c)\<rparr>, Inr ())"
      unfolding newSegment_def segment_open_def seg_bind_def 1 2 prod.case sum.case sint_of_nat_small [OF n63] Let_def 3
        4 sint_of_nat_small [OF c63]
      using bytes Cons by (simp add: n_def footerSize_def)
    moreover have "seg_at (?s4\<lparr>seg_currentSize := int (length c)\<rparr>) cs q"
      using bytes small ne Cons by (intro seg_atI) (simp_all add: n_def head_size_def)
    ultimately show ?thesis by (intro exI [of _ "?s4\<lparr>seg_currentSize := int (length c)\<rparr>"]) simp
  qed
  with that show thesis by blast
qed

section \<open>First in, first out\<close>

text \<open>
  The interface of a queue that is read by looking at the head and then moving past it:
  \<open>pending s q\<close> relates a state to the items it still holds, \<open>fits s x\<close> says that it takes another.
\<close>

locale fifo_queue =
  fixes pending :: "'s \<Rightarrow> 'a list \<Rightarrow> bool"
    and fits :: "'s \<Rightarrow> 'a \<Rightarrow> bool"
    and enq :: "'a \<Rightarrow> 's \<Rightarrow> 's \<times> ('e + unit)"
    and cur :: "'s \<Rightarrow> 's \<times> ('e + 'a)"
    and adv :: "'s \<Rightarrow> 's \<times> ('e + unit)"
  assumes enq_pending: "pending s q \<Longrightarrow> fits s x \<Longrightarrow> \<exists>s'. enq x s = (s', Inr ()) \<and> pending s' (q @ [x])"
    and cur_Nil: "pending s [] \<Longrightarrow> \<exists>e. cur s = (s, Inl e)"
    and cur_Cons: "pending s (x # q) \<Longrightarrow> \<exists>s'. cur s = (s', Inr x) \<and> pending s' (x # q)"
    and adv_Cons: "pending s (x # q) \<Longrightarrow> \<exists>s' r. adv s = (s', r) \<and> pending s' q"

text \<open>Sending: look at the head, and on success move on, as long as there is something.\<close>

fun drain :: "('s \<Rightarrow> 's \<times> ('e + 'a)) \<Rightarrow> ('s \<Rightarrow> 's \<times> ('e + unit)) \<Rightarrow> nat \<Rightarrow> 's \<Rightarrow> 's \<times> 'a list" where
  "drain cur adv 0 s = (s, [])"
| "drain cur adv (Suc n) s =
     (case cur s of
        (s', Inl e) \<Rightarrow> (s', [])
      | (s', Inr x) \<Rightarrow> (case drain cur adv n (fst (adv s')) of (s'', xs) \<Rightarrow> (s'', x # xs)))"

fun enq_all :: "('s \<Rightarrow> 'a \<Rightarrow> bool) \<Rightarrow> ('a \<Rightarrow> 's \<Rightarrow> 's \<times> ('e + unit)) \<Rightarrow> 'a list \<Rightarrow> 's \<Rightarrow> 's option" where
  "enq_all fits enq [] s = Some s"
| "enq_all fits enq (x # xs) s = (if fits s x then enq_all fits enq xs (fst (enq x s)) else None)"

context fifo_queue begin

lemma drain_prefix:
  "pending s q \<Longrightarrow> \<exists>s'. drain cur adv n s = (s', take n q) \<and> pending s' (drop n q)"
proof (induction n arbitrary: s q)
  case (Suc n)
  show ?case
  proof (cases q)
    case Nil
    with Suc.prems cur_Nil [of s] show ?thesis by auto
  next
    case (Cons x q')
    obtain s1 where s1: "cur s = (s1, Inr x)" "pending s1 (x # q')" using cur_Cons Suc.prems Cons by blast
    obtain s2 r where s2: "adv s1 = (s2, r)" "pending s2 q'" using adv_Cons [OF s1(2)] by blast
    obtain s3 where "drain cur adv n s2 = (s3, take n q')" "pending s3 (drop n q')" using Suc.IH [OF s2(2)] by blast
    with s1 s2 Cons show ?thesis by auto
  qed
qed auto

lemma enq_all_pending:
  "pending s q \<Longrightarrow> enq_all fits enq xs s = Some s' \<Longrightarrow> pending s' (q @ xs)"
proof (induction xs arbitrary: s q)
  case (Cons x xs)
  then have "fits s x" by (simp split: if_splits)
  then obtain s1 where "enq x s = (s1, Inr ())" "pending s1 (q @ [x])" using enq_pending [OF Cons.prems(1)] by blast
  with Cons.IH [of s1 "q @ [x]"] Cons.prems(2) \<open>fits s x\<close> show ?case by simp
qed simp

lemma fifo:
  assumes "pending s q" and "enq_all fits enq xs s = Some s'" and "length (q @ xs) \<le> n"
  shows "\<exists>s''. drain cur adv n s' = (s'', q @ xs) \<and> pending s'' []"
  using drain_prefix [OF enq_all_pending [OF assms(1,2)], of n] assms(3) by simp

end

definition seg_pending :: "segment \<Rightarrow> byte list list \<Rightarrow> bool" where
  "seg_pending s q \<longleftrightarrow> (\<exists>cs. seg_at s cs q) \<and> (\<forall>b\<in>set q. int (length b) \<le> seg_maxSize s)"

definition seg_fits :: "segment \<Rightarrow> byte list \<Rightarrow> bool" where
  "seg_fits s b \<longleftrightarrow> b \<noteq> [] \<and> seg_size s + int (length b) \<le> seg_maxSize s \<and> seg_maxSize s + 8 < 2 ^ 63"

lemma seg_append_pending:
  assumes p: "seg_pending s q" and f: "seg_fits s b"
  obtains s' where "segment_append b s = (s', Inr ())" and "seg_pending s' (q @ [b])"
    and "seg_maxSize s' = seg_maxSize s" and "seg_size s' = seg_size s + int (length b) + 8"
proof -
  from p obtain cs where at: "seg_at s cs q" by (auto simp: seg_pending_def)
  from f have "b \<noteq> []" "seg_size s + int (length b) \<le> seg_maxSize s" "seg_size s + int (length b) + 8 < 2 ^ 63"
    by (simp_all add: seg_fits_def)
  moreover have "0 \<le> seg_size s" using seg_atD(3) [OF at] by simp
  ultimately obtain s' where s': "segment_append b s = (s', Inr ())" "seg_at s' cs (q @ [b])"
      "seg_maxSize s' = seg_maxSize s" "seg_size s' = seg_size s + int (length b) + 8"
    using segment_append_ok [OF at] by metis
  with p f \<open>0 \<le> seg_size s\<close> have "seg_pending s' (q @ [b])" by (auto simp: seg_pending_def seg_fits_def)
  with s' that show thesis by blast
qed

lemma seg_current_pending:
  assumes "seg_pending s (b # q)"
  obtains s' where "segment_current s = (s', Inr b)" and "seg_pending s' (b # q)"
    and "seg_maxSize s' = seg_maxSize s" and "seg_size s' = seg_size s"
  using assms segment_current_Cons [of s _ b q] unfolding seg_pending_def
  by (metis list.set_intros(1))

lemma seg_advance_pending:
  assumes "seg_pending s (b # q)"
  obtains s' where "segment_advance s = (s', if q = [] then Inl IoEOF else Inr ())" and "seg_pending s' q"
    and "seg_maxSize s' = seg_maxSize s" and "seg_size s' = seg_size s"
  using assms segment_advance_Cons [of s _ b q] unfolding seg_pending_def
  by (metis list.set_intros(2))

interpretation seg_fifo: fifo_queue seg_pending seg_fits segment_append segment_current segment_advance
proof unfold_locales
  show "\<exists>s'. segment_append x s = (s', Inr ()) \<and> seg_pending s' (q @ [x])" if "seg_pending s q" "seg_fits s x" for s q x
    using seg_append_pending [OF that] by blast
  show "\<exists>e. segment_current s = (s, Inl e)" if "seg_pending s []" for s
    using that segment_current_Nil by (auto simp: seg_pending_def)
  show "\<exists>s'. segment_current s = (s', Inr x) \<and> seg_pending s' (x # q)" if "seg_pending s (x # q)" for s x q
    using seg_current_pending [OF that] by blast
  show "\<exists>s' r. segment_advance s = (s', r) \<and> seg_pending s' q" if "seg_pending s (x # q)" for s x q
    using seg_advance_pending [OF that] by blast
qed

end
