(* ===== verification/HH_Queue.thy ===== *)
theory HH_Queue
  imports HH_Segment "HOL-Library.List_Lexorder"
begin

text \<open>
  The hinted-handoff queue (\<open>services/hh/queue.go\<close>): a directory of segment files with a head and
  a tail segment.  Segments are objects that head, tail and the list of segments share, so they
  live in a heap and are named by the number that is their file name; a segment whose file was
  removed stays in the heap as a closed object.  Under the invariant that only the last segment
  may be drained, the queue is first in, first out.
\<close>

record queue =
  q_heap :: "nat \<Rightarrow> segment"
  q_mtime :: "nat \<Rightarrow> time"
  q_dir :: "nat list"
  q_head :: "nat option"
  q_tail :: "nat option"
  q_maxSegmentSize :: int
  q_maxSize :: int
  q_segments :: "nat list"

type_synonym 'a q_op = "queue \<Rightarrow> queue \<times> 'a hh"

definition defaultSegmentSize :: int where
  "defaultSegmentSize = 10 * 1024 * 1024"

definition no_segment :: segment where
  "no_segment = \<lparr>seg_size = 0, seg_file = \<lparr>f_bytes = [], f_off = 0\<rparr>, seg_open = False, seg_pos = 0,
     seg_currentSize = 0, seg_maxSize = 0\<rparr>"

definition newQueue :: "int \<Rightarrow> queue" where
  "newQueue maxSize = \<lparr>q_heap = (\<lambda>_. no_segment), q_mtime = (\<lambda>_. 0), q_dir = [], q_head = None, q_tail = None,
     q_maxSegmentSize = defaultSegmentSize, q_maxSize = maxSize, q_segments = []\<rparr>"

text \<open>Running a segment operation on the object with this name.\<close>

definition on_segment :: "nat \<Rightarrow> 'a seg_op \<Rightarrow> 'a q_op" where
  "on_segment i op l = (case op (q_heap l i) of (s, r) \<Rightarrow> (l\<lparr>q_heap := (q_heap l)(i := s)\<rparr>, r))"

definition touch :: "nat \<Rightarrow> time \<Rightarrow> queue \<Rightarrow> queue" where
  "touch i now l = l\<lparr>q_mtime := (q_mtime l)(i := now)\<rparr>"

section \<open>Segments of the directory\<close>

text \<open>File names are decimal, and \<open>ioutil.ReadDir\<close> sorts them as strings.\<close>

fun dec_digits :: "nat \<Rightarrow> nat list" where
  "dec_digits n = (if n < 10 then [n] else dec_digits (n div 10) @ [n mod 10])"

declare dec_digits.simps [simp del]

definition readDir :: "queue \<Rightarrow> nat list" where
  "readDir l = sort_key dec_digits (q_dir l)"

definition queue_nextSegmentID :: "queue \<Rightarrow> nat" where
  "queue_nextSegmentID l = fold (\<lambda>segmentID maxID. if segmentID > maxID then segmentID else maxID) (readDir l) 0 + 1"

definition queue_addSegment :: "time \<Rightarrow> nat q_op" where
  "queue_addSegment now l =
     (let nextID = queue_nextSegmentID l in
      case newSegment [] (q_maxSegmentSize l) of
        (s, Inl e) \<Rightarrow> (l, Inl e)
      | (s, Inr _) \<Rightarrow>
          (touch nextID now (l\<lparr>q_heap := (q_heap l)(nextID := s), q_dir := q_dir l @ [nextID],
             q_segments := q_segments l @ [nextID]\<rparr>), Inr nextID))"

fun load_each :: "nat list \<Rightarrow> queue \<Rightarrow> queue \<times> (nat list) hh" where
  "load_each [] l = (l, Inr [])"
| "load_each (i # js) l =
     (case newSegment (f_bytes (seg_file (q_heap l i))) (q_maxSegmentSize l) of
        (s, Inl e) \<Rightarrow> (l, Inl e)
      | (s, Inr _) \<Rightarrow>
          (case load_each js (l\<lparr>q_heap := (q_heap l)(i := s)\<rparr>) of
             (l', Inl e) \<Rightarrow> (l', Inl e)
           | (l', Inr segs) \<Rightarrow> (l', Inr (i # segs))))"

definition queue_loadSegments :: "(nat list) q_op" where
  "queue_loadSegments l = load_each (readDir l) l"

definition queue_trimHead :: "unit q_op" where
  "queue_trimHead l =
     (if length (q_segments l) > 1 then
        (case q_head l of
           None \<Rightarrow> (l\<lparr>q_segments := tl (q_segments l)\<rparr>, Inl PanicNil)
         | Some h \<Rightarrow>
             if \<not> seg_open (q_heap l h) then (l\<lparr>q_segments := tl (q_segments l)\<rparr>, Inl InvalidFile)
             else (l\<lparr>q_segments := tl (q_segments l),
                     q_heap := (q_heap l)(h := segment_close (q_heap l h)),
                     q_dir := filter (\<lambda>i. i \<noteq> h) (q_dir l),
                     q_head := Some (hd (tl (q_segments l)))\<rparr>, Inr ()))
      else (l, Inr ()))"

section \<open>Operations\<close>

definition queue_Open :: "time \<Rightarrow> unit q_op" where
  "queue_Open now l =
     (case queue_loadSegments l of
        (l1, Inl e) \<Rightarrow> (l1, Inl e)
      | (l1, Inr segs) \<Rightarrow>
          (case (if length segs = 0 then queue_addSegment now (l1\<lparr>q_segments := segs\<rparr>)
                 else (l1\<lparr>q_segments := segs\<rparr>, Inr 0)) of
             (l2, Inl e) \<Rightarrow> (l2, Inl e)
           | (l2, Inr _) \<Rightarrow>
               (let h = hd (q_segments l2);
                    l3 = l2\<lparr>q_head := Some h, q_tail := Some (last (q_segments l2))\<rparr>
                in case on_segment h segment_current l3 of
                     (l4, r) \<Rightarrow> if r = Inl IoEOF then queue_trimHead l4 else (l4, Inr ()))))"

fun close_each :: "nat list \<Rightarrow> unit q_op" where
  "close_each [] l = (l, Inr ())"
| "close_each (i # js) l =
     (if \<not> seg_open (q_heap l i) then (l, Inl InvalidFile)
      else close_each js (l\<lparr>q_heap := (q_heap l)(i := segment_close (q_heap l i))\<rparr>))"

definition queue_Close :: "unit q_op" where
  "queue_Close l =
     (case close_each (q_segments l) l of
        (l', Inl e) \<Rightarrow> (l', Inl e)
      | (l', Inr _) \<Rightarrow> (l'\<lparr>q_head := None, q_tail := None, q_segments := []\<rparr>, Inr ()))"

definition queue_Remove :: "unit q_op" where
  "queue_Remove l =
     (if q_head l \<noteq> None \<or> q_tail l \<noteq> None \<or> q_segments l \<noteq> [] then (l, Inl QueueIsOpen)
      else (l\<lparr>q_dir := []\<rparr>, Inr ()))"

definition queue_SetMaxSegmentSize :: "time \<Rightarrow> int \<Rightarrow> unit q_op" where
  "queue_SetMaxSegmentSize now sz l =
     (let l1 = l\<lparr>q_maxSegmentSize := sz,
                 q_heap := (\<lambda>i. if i \<in> set (q_segments l) then segment_SetMaxSegmentSize sz (q_heap l i) else q_heap l i)\<rparr>
      in case q_tail l1 of
           None \<Rightarrow> (l1, Inl PanicNil)
         | Some t \<Rightarrow>
             if segment_diskUsage (q_heap l1 t) \<ge> q_maxSegmentSize l1
             then (case queue_addSegment now l1 of
                     (l2, Inl e) \<Rightarrow> (l2, Inl e)
                   | (l2, Inr i) \<Rightarrow> (l2\<lparr>q_tail := Some i\<rparr>, Inr ()))
             else (l1, Inr ()))"

text \<open>
  The loop of \<open>PurgeOlderThan\<close>, bounded by fuel: \<open>None\<close> is the loop still running.  The segment it
  adds to a queue of one does not become the tail.
\<close>

fun purge_loop :: "time \<Rightarrow> time \<Rightarrow> nat \<Rightarrow> queue \<Rightarrow> (queue \<times> unit hh) option" where
  "purge_loop now cutoff 0 l = None"
| "purge_loop now cutoff (Suc n) l =
     (case q_head l of
        None \<Rightarrow> Some (l, Inl PanicNil)
      | Some h \<Rightarrow>
          if q_mtime l h > cutoff \<or> q_mtime l h = cutoff then Some (l, Inr ())
          else (case (if length (q_segments l) = 1 then queue_addSegment now l else (l, Inr 0)) of
                  (l1, Inl e) \<Rightarrow> Some (l1, Inl e)
                | (l1, Inr _) \<Rightarrow>
                    (case queue_trimHead l1 of
                       (l2, Inl e) \<Rightarrow> Some (l2, Inl e)
                     | (l2, Inr _) \<Rightarrow> purge_loop now cutoff n l2)))"

definition Second :: duration where
  "Second = 10 ^ 9"

definition queue_PurgeOlderThan :: "nat \<Rightarrow> time \<Rightarrow> time \<Rightarrow> queue \<Rightarrow> (queue \<times> unit hh) option" where
  "queue_PurgeOlderThan fuel now when l =
     (if length (q_segments l) = 0 then Some (l, Inr ())
      else purge_loop now (time_Truncate Second when) fuel l)"

definition queue_LastModified :: "queue \<Rightarrow> time" where
  "queue_LastModified l = (case q_tail l of Some t \<Rightarrow> q_mtime l t | None \<Rightarrow> 0)"

definition queue_diskUsage :: "queue \<Rightarrow> int" where
  "queue_diskUsage l = sum_list (map (\<lambda>i. segment_diskUsage (q_heap l i)) (q_segments l))"

text \<open>Errors of the tail other than a full segment are dropped.\<close>

definition queue_Append :: "time \<Rightarrow> byte list \<Rightarrow> unit q_op" where
  "queue_Append now b l =
     (case q_tail l of
        None \<Rightarrow> (l, Inl ErrNotOpen)
      | Some t \<Rightarrow>
          if queue_diskUsage l + int (length b) > q_maxSize l then (l, Inl ErrQueueFull)
          else (case on_segment t (segment_append b) l of
                  (l1, r) \<Rightarrow>
                    if r = Inl ErrSegmentFull
                    then (case queue_addSegment now l1 of
                            (l2, Inl e) \<Rightarrow> (l2, Inl e)
                          | (l2, Inr i) \<Rightarrow>
                              (case on_segment i (segment_append b) (l2\<lparr>q_tail := Some i\<rparr>) of
                                 (l3, r') \<Rightarrow> (if r' = Inr () then touch i now l3 else l3, r')))
                    else (if r = Inr () then touch t now l1 else l1, Inr ())))"

definition queue_Current :: "byte list q_op" where
  "queue_Current l = (case q_head l of None \<Rightarrow> (l, Inl ErrNotOpen) | Some h \<Rightarrow> on_segment h segment_current l)"

text \<open>Advancing rewrites the footer of the head unless the head is at its end.\<close>

definition queue_Advance :: "time \<Rightarrow> unit q_op" where
  "queue_Advance now l =
     (case q_head l of
        None \<Rightarrow> (l, Inl ErrNotOpen)
      | Some h \<Rightarrow>
          (case on_segment h segment_advance
                  (if seg_open (q_heap l h) \<and> seg_pos (q_heap l h) \<noteq> seg_size (q_heap l h) - footerSize
                   then touch h now l else l) of
             (l1, r) \<Rightarrow>
               if r = Inl IoEOF
               then (case queue_trimHead l1 of (l2, Inl e) \<Rightarrow> (l2, Inl e) | (l2, Inr _) \<Rightarrow> (l2, Inr ()))
               else (l1, Inr ())))"

lemmas [hh_defs] =
  on_segment_def touch_def queue_trimHead_def queue_Append_def queue_Current_def queue_Advance_def

section \<open>The invariant\<close>

text \<open>
  \<open>q_holds l ps\<close>: the queue is open, its segments hold the pending blocks \<open>ps\<close> segment by segment,
  and only the last segment may be drained.
\<close>

definition q_holds :: "queue \<Rightarrow> byte list list list \<Rightarrow> bool" where
  "q_holds l ps \<longleftrightarrow> q_segments l \<noteq> [] \<and> distinct (q_segments l) \<and>
     q_head l = Some (hd (q_segments l)) \<and> q_tail l = Some (last (q_segments l)) \<and>
     set (q_dir l) = set (q_segments l) \<and>
     list_all2 (\<lambda>i p. seg_pending (q_heap l i) p) (q_segments l) ps \<and>
     (\<forall>i\<in>set (q_segments l). seg_maxSize (q_heap l i) = q_maxSegmentSize l) \<and>
     q_maxSegmentSize l + 8 < 2 ^ 63 \<and> (\<forall>p\<in>set (butlast ps). p \<noteq> [])"

definition q_pending :: "queue \<Rightarrow> byte list list \<Rightarrow> bool" where
  "q_pending l q \<longleftrightarrow> (\<exists>ps. q_holds l ps \<and> q = concat ps)"

text \<open>
  A block is taken if the queue has room for it, a fresh segment could hold it, and the last
  segment either has room or is not drained.
\<close>

definition q_fits :: "queue \<Rightarrow> byte list \<Rightarrow> bool" where
  "q_fits l b \<longleftrightarrow> b \<noteq> [] \<and> queue_diskUsage l + int (length b) \<le> q_maxSize l \<and>
     8 + int (length b) \<le> q_maxSegmentSize l \<and>
     (let t = q_heap l (last (q_segments l)) in
      seg_size t + int (length b) \<le> seg_maxSize t \<or> seg_pos t \<noteq> seg_size t - 8)"

lemma seg_pending_drained: "seg_pending s p \<Longrightarrow> seg_pos s = seg_size s - 8 \<longleftrightarrow> p = []"
proof -
  assume "seg_pending s p"
  then obtain cs where "seg_at s cs p" by (auto simp: seg_pending_def)
  from seg_atD(3,4) [OF this] show ?thesis using blocks_Nil_iff [of p] by simp
qed

lemma seg_pending_open: "seg_pending s p \<Longrightarrow> seg_open s"
  by (auto simp: seg_pending_def dest: seg_atD(1))

lemma list_all2_update_other:
  assumes "list_all2 (\<lambda>i p. seg_pending (h i) p) js ps" and "j \<notin> set js"
  shows "list_all2 (\<lambda>i p. seg_pending ((h(j := x)) i) p) js ps"
  using assms by (auto simp: list_all2_conv_all_nth in_set_conv_nth)

lemma sizes_update_other:
  "j \<notin> set js \<Longrightarrow> (\<Sum>x\<leftarrow>js. seg_size (if x = j then s else h x)) = (\<Sum>x\<leftarrow>js. seg_size (h x))"
  by (intro arg_cong [of _ _ sum_list] map_cong) auto

lemma q_holds_nonempty: "q_holds l ps \<Longrightarrow> ps \<noteq> []"
  by (auto simp: q_holds_def)

text \<open>The head of the queue and the rest.\<close>

lemma q_holds_Cons:
  assumes "q_holds l (p # ps)"
  obtains h js where "q_segments l = h # js" and "q_head l = Some h" and "h \<notin> set js" and "seg_pending (q_heap l h) p"
    and "list_all2 (\<lambda>i p. seg_pending (q_heap l i) p) js ps" and "js = [] \<longleftrightarrow> ps = []"
proof -
  from assms obtain h js where s: "q_segments l = h # js" "seg_pending (q_heap l h) p"
      "list_all2 (\<lambda>i p. seg_pending (q_heap l i) p) js ps"
    by (auto simp: q_holds_def list_all2_Cons2)
  from list_all2_lengthD [OF s(3)] have "js = [] \<longleftrightarrow> ps = []" by auto
  with s assms that show thesis by (simp add: q_holds_def)
qed

lemma q_holds_snoc:
  assumes "q_holds l (ps @ [p])"
  obtains js t where "q_segments l = js @ [t]" and "q_tail l = Some t" and "t \<notin> set js" and "seg_pending (q_heap l t) p"
    and "list_all2 (\<lambda>i p. seg_pending (q_heap l i) p) js ps"
proof -
  from assms obtain js ts where s: "q_segments l = js @ ts" "list_all2 (\<lambda>i p. seg_pending (q_heap l i) p) js ps"
      "list_all2 (\<lambda>i p. seg_pending (q_heap l i) p) ts [p]"
    by (auto simp: q_holds_def list_all2_append2)
  from s(3) obtain t where "ts = [t]" "seg_pending (q_heap l t) p"
    by (auto simp: list_all2_Cons2)
  with s assms that show thesis by (simp add: q_holds_def)
qed

section \<open>Fresh segments\<close>

lemma fold_max: "fold (\<lambda>x m. if x > m then x else m) xs m = foldl max m (xs :: nat list)"
  by (induction xs arbitrary: m) (simp_all add: max_def)

lemma foldl_max_ge: "m \<le> foldl max m (xs :: nat list)"
  by (induction xs arbitrary: m) (auto intro: order_trans [OF max.cobounded1])

lemma foldl_max_bound: "x \<in> set xs \<Longrightarrow> x \<le> foldl max m (xs :: nat list)"
proof (induction xs arbitrary: m)
  case (Cons y ys)
  then show ?case using foldl_max_ge [of "max m y" ys] by (cases "x = y") auto
qed simp

lemma nextSegmentID_fresh: "queue_nextSegmentID l \<notin> set (q_dir l)"
proof
  assume "queue_nextSegmentID l \<in> set (q_dir l)"
  then have "queue_nextSegmentID l \<le> foldl max 0 (readDir l)"
    by (intro foldl_max_bound) (simp add: readDir_def)
  then show False by (simp add: queue_nextSegmentID_def fold_max)
qed

lemma queue_addSegment_eq:
  obtains s i where "queue_addSegment now l =
      (l\<lparr>q_heap := (q_heap l)(i := s), q_mtime := (q_mtime l)(i := now), q_dir := q_dir l @ [i],
         q_segments := q_segments l @ [i]\<rparr>, Inr i)"
    and "seg_at s [] []" and "seg_maxSize s = q_maxSegmentSize l" and "seg_size s = 8" and "i \<notin> set (q_dir l)"
proof -
  obtain s where "newSegment [] (q_maxSegmentSize l) = (s, Inr ())" "seg_at s [] []" "seg_maxSize s = q_maxSegmentSize l"
      "seg_size s = 8"
    by (rule newSegment_empty)
  then show thesis
    by (intro that [of "queue_nextSegmentID l" s])
      (simp_all add: queue_addSegment_def Let_def touch_def nextSegmentID_fresh)
qed

lemma seg_at_pending_Nil: "seg_at s cs [] \<Longrightarrow> seg_pending s []"
  by (auto simp: seg_pending_def)

section \<open>The operations keep the invariant\<close>

lemma q_holds_update:
  assumes h: "q_holds l (ps @ p # qs)" and len: "length js = length ps" and segs: "q_segments l = js @ i # ks"
    and s: "seg_pending s p'" "seg_maxSize s = q_maxSegmentSize l" and ne: "qs \<noteq> [] \<Longrightarrow> p' \<noteq> []"
  shows "q_holds (l\<lparr>q_heap := (q_heap l)(i := s), q_mtime := m\<rparr>) (ps @ p' # qs)"
proof -
  let ?h = "q_heap l" and ?g = "(q_heap l)(i := s)"
  have "list_all2 (\<lambda>i p. seg_pending (?h i) p) (js @ i # ks) (ps @ p # qs)" and dist: "distinct (js @ i # ks)"
    using h by (auto simp: q_holds_def segs)
  then have 1: "list_all2 (\<lambda>i p. seg_pending (?h i) p) js ps" and 2: "list_all2 (\<lambda>i p. seg_pending (?h i) p) ks qs"
    using len by (simp_all add: list_all2_append)
  have "list_all2 (\<lambda>i p. seg_pending (?g i) p) js ps" "list_all2 (\<lambda>i p. seg_pending (?g i) p) ks qs"
    using list_all2_update_other [OF 1, of i s] list_all2_update_other [OF 2, of i s] dist by simp_all
  then have "list_all2 (\<lambda>i p. seg_pending (?g i) p) (js @ i # ks) (ps @ p' # qs)"
    using len s(1) by (simp add: list_all2_append)
  moreover have "\<forall>x\<in>set (butlast (ps @ p' # qs)). x \<noteq> []"
    using h ne by (auto simp: q_holds_def butlast_append split: if_splits)
  ultimately show ?thesis using h s(2) by (auto simp: q_holds_def segs)
qed

lemma queue_Append_pending:
  assumes h: "q_holds l ps" and f: "q_fits l b"
  obtains l' where "queue_Append now b l = (l', Inr ())" and "q_pending l' (concat ps @ [b])"
    and "queue_diskUsage l' \<le> queue_diskUsage l + int (length b) + 16"
    and "q_maxSize l' = q_maxSize l" and "q_maxSegmentSize l' = q_maxSegmentSize l"
proof -
  obtain qs p where ps: "ps = qs @ [p]" using q_holds_nonempty [OF h] by (metis rev_exhaust)
  obtain js t where segs: "q_segments l = js @ [t]" and tail: "q_tail l = Some t" and tjs: "t \<notin> set js"
      and t: "seg_pending (q_heap l t) p" and js: "list_all2 (\<lambda>i p. seg_pending (q_heap l i) p) js qs"
    using h unfolding ps by (rule q_holds_snoc)
  have len: "length js = length qs" using js by (rule list_all2_lengthD)
  have mx: "seg_maxSize (q_heap l t) = q_maxSegmentSize l" "q_maxSegmentSize l + 8 < 2 ^ 63"
    using h by (simp_all add: q_holds_def segs)
  from f have b: "b \<noteq> []" "queue_diskUsage l + int (length b) \<le> q_maxSize l" "8 + int (length b) \<le> q_maxSegmentSize l"
    by (simp_all add: q_fits_def)
  note others = sizes_update_other [OF tjs]
  show thesis
  proof (cases "seg_size (q_heap l t) + int (length b) \<le> seg_maxSize (q_heap l t)")
    case True
    then have "seg_fits (q_heap l t) b" using b mx by (simp add: seg_fits_def)
    from seg_append_pending [OF t this] obtain s where s: "segment_append b (q_heap l t) = (s, Inr ())"
        "seg_pending s (p @ [b])" "seg_maxSize s = seg_maxSize (q_heap l t)"
        "seg_size s = seg_size (q_heap l t) + int (length b) + 8" .
    let ?l = "l\<lparr>q_heap := (q_heap l)(t := s), q_mtime := (q_mtime l)(t := now)\<rparr>"
    have "queue_Append now b l = (?l, Inr ())"
      using b s(1) tail by (simp add: queue_Append_def on_segment_def touch_def)
    moreover have "q_holds ?l (qs @ [p @ [b]])"
      using h s mx len by (intro q_holds_update [where p = p and js = js and ks = "[]"]) (simp_all add: ps segs)
    then have "q_pending ?l (concat ps @ [b])" unfolding q_pending_def by (intro exI [of _ "qs @ [p @ [b]]"]) (simp add: ps)
    moreover have "queue_diskUsage ?l \<le> queue_diskUsage l + int (length b) + 16"
      using s(4) by (simp add: queue_diskUsage_def segs segment_diskUsage_def others)
    ultimately show thesis by (intro that [of ?l]) simp_all
  next
    case False
    then have pne: "p \<noteq> []" using f seg_pending_drained [OF t] by (auto simp: q_fits_def segs Let_def)
    have full: "segment_append b (q_heap l t) = (q_heap l t, Inl ErrSegmentFull)"
      using False seg_pending_open [OF t] by (simp add: segment_append_def)
    obtain s0 i where add: "queue_addSegment now l =
        (l\<lparr>q_heap := (q_heap l)(i := s0), q_mtime := (q_mtime l)(i := now), q_dir := q_dir l @ [i],
           q_segments := q_segments l @ [i]\<rparr>, Inr i)"
      and s0: "seg_at s0 [] []" "seg_maxSize s0 = q_maxSegmentSize l" "seg_size s0 = 8" and i: "i \<notin> set (q_dir l)"
      by (rule queue_addSegment_eq)
    have fit: "seg_fits s0 b" using b mx s0 by (simp add: seg_fits_def)
    obtain s where s: "segment_append b s0 = (s, Inr ())" "seg_pending s ([] @ [b])" "seg_maxSize s = seg_maxSize s0"
        "seg_size s = seg_size s0 + int (length b) + 8"
      using seg_append_pending [OF seg_at_pending_Nil [OF s0(1)] fit] .
    have is': "i \<notin> set (js @ [t])" using i h by (simp add: q_holds_def segs)
    let ?l = "l\<lparr>q_heap := (q_heap l)(i := s), q_mtime := (q_mtime l)(i := now), q_dir := q_dir l @ [i],
      q_segments := q_segments l @ [i], q_tail := Some i\<rparr>"
    have "queue_Append now b l = (?l, Inr ())"
      using b tail full add s(1) by (simp add: queue_Append_def on_segment_def touch_def fun_upd_idem)
    moreover have "q_holds ?l (ps @ [[b]])"
    proof -
      have "list_all2 (\<lambda>j p. seg_pending (((q_heap l)(i := s)) j) p) (js @ [t]) ps"
        using h is' by (intro list_all2_update_other) (simp_all add: q_holds_def segs)
      then have "list_all2 (\<lambda>j p. seg_pending (((q_heap l)(i := s)) j) p) ((js @ [t]) @ [i]) (ps @ [[b]])"
        using s(2) by (intro list_all2_appendI) simp_all
      then show ?thesis using h is' s s0 pne by (auto simp: q_holds_def segs ps hd_append butlast_append)
    qed
    then have "q_pending ?l (concat ps @ [b])" unfolding q_pending_def by (intro exI [of _ "ps @ [[b]]"]) simp
    moreover have "queue_diskUsage ?l \<le> queue_diskUsage l + int (length b) + 16"
      using s(4) s0(3) is' sizes_update_other [of i js s "q_heap l"]
      by (simp add: queue_diskUsage_def segs segment_diskUsage_def)
    ultimately show thesis by (intro that [of ?l]) simp_all
  qed
qed

lemma queue_Current_pending:
  assumes h: "q_holds l ps"
  shows "concat ps = [] \<Longrightarrow> queue_Current l = (l, Inl IoEOF)"
    and "concat ps = b # q \<Longrightarrow> \<exists>l'. queue_Current l = (l', Inr b) \<and> q_pending l' (b # q)"
proof -
  obtain p qs where ps: "ps = p # qs" using q_holds_nonempty [OF h] by (cases ps) auto
  obtain i js where segs: "q_segments l = i # js" and hd: "q_head l = Some i" and i: "seg_pending (q_heap l i) p"
      and e: "js = [] \<longleftrightarrow> qs = []"
    using h unfolding ps by (rule q_holds_Cons)
  have p_ne: "qs \<noteq> [] \<Longrightarrow> p \<noteq> []" using h by (auto simp: q_holds_def ps)
  {
    assume "concat ps = []"
    then have "p = []" using p_ne by (simp add: ps)
    with i obtain cs where "seg_at (q_heap l i) cs []" by (auto simp: seg_pending_def)
    from segment_current_Nil [OF this] show "queue_Current l = (l, Inl IoEOF)"
      by (simp add: queue_Current_def hd on_segment_def fun_upd_idem)
  next
    assume c: "concat ps = b # q"
    then obtain p' where p: "p = b # p'" using p_ne by (cases p; cases "qs = []") (auto simp: ps)
    from i [unfolded p] obtain s where s: "segment_current (q_heap l i) = (s, Inr b)" "seg_pending s (b # p')"
        "seg_maxSize s = seg_maxSize (q_heap l i)"
      by (rule seg_current_pending)
    let ?l = "l\<lparr>q_heap := (q_heap l)(i := s)\<rparr>"
    have "q_holds (l\<lparr>q_heap := (q_heap l)(i := s), q_mtime := q_mtime l\<rparr>) ([] @ (b # p') # qs)"
      using h s by (intro q_holds_update [where p = p and js = "[]" and ks = js]) (simp_all add: ps segs q_holds_def)
    then have "q_holds ?l ps" by (simp add: ps p)
    with s(1) c show "\<exists>l'. queue_Current l = (l', Inr b) \<and> q_pending l' (b # q)"
      by (auto simp: queue_Current_def hd on_segment_def q_pending_def)
  }
qed

lemma queue_Advance_pending:
  assumes h: "q_holds l ps" and c: "concat ps = b # q"
  shows "\<exists>l'. queue_Advance now l = (l', Inr ()) \<and> q_pending l' q"
proof -
  obtain p qs where ps: "ps = p # qs" using q_holds_nonempty [OF h] by (cases ps) auto
  obtain i js where segs: "q_segments l = i # js" and hd: "q_head l = Some i" and inj: "i \<notin> set js"
      and i: "seg_pending (q_heap l i) p" and js: "list_all2 (\<lambda>i p. seg_pending (q_heap l i) p) js qs"
      and e: "js = [] \<longleftrightarrow> qs = []"
    using h unfolding ps by (rule q_holds_Cons)
  have p_ne: "qs \<noteq> [] \<Longrightarrow> p \<noteq> []" using h by (auto simp: q_holds_def ps)
  then obtain p' where p: "p = b # p'" using c by (cases p; cases "qs = []") (auto simp: ps)
  from i [unfolded p] obtain s where s: "segment_advance (q_heap l i) = (s, if p' = [] then Inl IoEOF else Inr ())"
      "seg_pending s p'" "seg_maxSize s = seg_maxSize (q_heap l i)"
    by (rule seg_advance_pending)
  have w: "seg_open (q_heap l i) \<and> seg_pos (q_heap l i) \<noteq> seg_size (q_heap l i) - footerSize"
    using seg_pending_open [OF i] seg_pending_drained [OF i] by (simp add: footerSize_def p)
  let ?l = "l\<lparr>q_heap := (q_heap l)(i := s), q_mtime := (q_mtime l)(i := now)\<rparr>"
  have adv: "on_segment i segment_advance (touch i now l) = (?l, if p' = [] then Inl IoEOF else Inr ())"
    using s(1) by (simp add: on_segment_def touch_def)
  have q: "q = p' @ concat qs" using c by (simp add: ps p)
  have mx: "seg_maxSize s = q_maxSegmentSize l" using h s(3) by (simp add: q_holds_def segs)
  show ?thesis
  proof (cases "p' \<noteq> [] \<or> qs = []")
    case True
    then have "q_holds ?l ([] @ p' # qs)"
      using h s(2) mx by (intro q_holds_update [where p = p and js = "[]" and ks = js]) (auto simp: ps segs)
    then have "q_pending ?l q" using q by (auto simp: q_pending_def)
    moreover have "queue_Advance now l = (?l, Inr ())"
      using True e w by (auto simp: queue_Advance_def hd adv queue_trimHead_def segs)
    ultimately show ?thesis by blast
  next
    case False
    then have p': "p' = []" and qs: "qs \<noteq> []" and "js \<noteq> []" using e by auto
    have op: "seg_open s" using seg_pending_open [OF s(2)] .
    let ?l2 = "?l\<lparr>q_segments := js, q_heap := (q_heap l)(i := segment_close s),
      q_dir := filter (\<lambda>x. x \<noteq> i) (q_dir l), q_head := Some (List.hd js)\<rparr>"
    have "queue_Advance now l = (?l2, Inr ())"
      using w p' \<open>js \<noteq> []\<close> op by (cases js) (simp_all add: queue_Advance_def hd adv queue_trimHead_def segs)
    moreover have "list_all2 (\<lambda>x p. seg_pending (((q_heap l)(i := segment_close s)) x) p) js qs"
      by (rule list_all2_update_other [OF js inj])
    then have "q_holds ?l2 qs"
      using h inj \<open>js \<noteq> []\<close> qs by (auto simp: q_holds_def segs ps)
    then have "q_pending ?l2 q" using q p' by (auto simp: q_pending_def)
    ultimately show ?thesis by blast
  qed
qed

interpretation queue_fifo: fifo_queue q_pending q_fits "queue_Append now" queue_Current "queue_Advance now'" for now now'
proof unfold_locales
  show "\<exists>s'. queue_Append now x s = (s', Inr ()) \<and> q_pending s' (q @ [x])" if p: "q_pending s q" and f: "q_fits s x" for s q x
  proof -
    from p obtain ps where h: "q_holds s ps" and q: "q = concat ps" by (auto simp: q_pending_def)
    from queue_Append_pending [OF h f] show ?thesis unfolding q by metis
  qed
  show "\<exists>e. queue_Current s = (s, Inl e)" if p: "q_pending s []" for s
    using p queue_Current_pending(1) unfolding q_pending_def by metis
  show "\<exists>s'. queue_Current s = (s', Inr x) \<and> q_pending s' (x # q)" if p: "q_pending s (x # q)" for s x q
    using p queue_Current_pending(2) unfolding q_pending_def by metis
  show "\<exists>s' r. queue_Advance now' s = (s', r) \<and> q_pending s' q" if p: "q_pending s (x # q)" for s x q
    using p queue_Advance_pending unfolding q_pending_def by metis
qed

section \<open>Opening and closing\<close>

lemma q_holds_open:
  assumes "q_holds l ps"
  shows "\<forall>i\<in>set (q_segments l). seg_open (q_heap l i)"
proof
  fix i
  assume "i \<in> set (q_segments l)"
  then obtain k where "k < length (q_segments l)" "q_segments l ! k = i" by (auto simp: in_set_conv_nth)
  with assms have "seg_pending (q_heap l i) (ps ! k)" by (auto simp: q_holds_def list_all2_conv_all_nth)
  then show "seg_open (q_heap l i)" by (rule seg_pending_open)
qed

lemma close_each_eq:
  assumes "distinct js" and "\<forall>i\<in>set js. seg_open (q_heap l i)"
  shows "close_each js l = (l\<lparr>q_heap := (\<lambda>i. if i \<in> set js then segment_close (q_heap l i) else q_heap l i)\<rparr>, Inr ())"
  using assms
proof (induction js arbitrary: l)
  case (Cons j js)
  let ?g = "(q_heap l)(j := segment_close (q_heap l j))"
  have g: "(\<lambda>i. if i \<in> set js then segment_close (?g i) else ?g i) =
      (\<lambda>i. if i \<in> set (j # js) then segment_close (q_heap l i) else q_heap l i)"
    using Cons.prems(1) by (auto simp: fun_eq_iff)
  have "close_each js (l\<lparr>q_heap := ?g\<rparr>) =
      (l\<lparr>q_heap := ?g, q_heap := (\<lambda>i. if i \<in> set js then segment_close (?g i) else ?g i)\<rparr>, Inr ())"
    using Cons.IH [of "l\<lparr>q_heap := ?g\<rparr>"] Cons.prems by (auto cong: if_cong)
  then have "close_each js (l\<lparr>q_heap := ?g\<rparr>) =
      (l\<lparr>q_heap := (\<lambda>i. if i \<in> set (j # js) then segment_close (q_heap l i) else q_heap l i)\<rparr>, Inr ())"
    unfolding g by simp
  then show ?case using Cons.prems by simp
qed simp

lemma queue_Close_holds:
  assumes "q_holds l ps"
  shows "queue_Close l =
    (l\<lparr>q_heap := (\<lambda>i. if i \<in> set (q_segments l) then segment_close (q_heap l i) else q_heap l i),
       q_head := None, q_tail := None, q_segments := []\<rparr>, Inr ())"
proof -
  have "distinct (q_segments l)" using assms by (simp add: q_holds_def)
  from close_each_eq [OF this q_holds_open [OF assms]] show ?thesis by (simp add: queue_Close_def)
qed

text \<open>A queue over an empty directory gets one empty segment.\<close>

lemma queue_Open_empty:
  assumes "q_dir l = []" and "q_maxSegmentSize l + 8 < 2 ^ 63"
  obtains l' where "queue_Open now l = (l', Inr ())" and "q_holds l' [[]]" and "queue_diskUsage l' = 8"
    and "q_maxSize l' = q_maxSize l" and "q_maxSegmentSize l' = q_maxSegmentSize l"
    and "seg_size (q_heap l' (last (q_segments l'))) = 8"
proof -
  let ?l0 = "l\<lparr>q_segments := []\<rparr>"
  obtain s i where add: "queue_addSegment now ?l0 =
      (?l0\<lparr>q_heap := (q_heap ?l0)(i := s), q_mtime := (q_mtime ?l0)(i := now), q_dir := q_dir ?l0 @ [i],
         q_segments := q_segments ?l0 @ [i]\<rparr>, Inr i)"
    and s: "seg_at s [] []" "seg_maxSize s = q_maxSegmentSize ?l0" "seg_size s = 8"
    by (rule queue_addSegment_eq)
  let ?l = "l\<lparr>q_heap := (q_heap l)(i := s), q_mtime := (q_mtime l)(i := now), q_dir := [i],
    q_head := Some i, q_tail := Some i, q_segments := [i]\<rparr>"
  have "readDir l = []" using assms(1) by (simp add: readDir_def)
  then have "queue_Open now l = (?l, Inr ())"
    using add assms(1) segment_current_Nil [OF s(1)]
    by (simp add: queue_Open_def queue_loadSegments_def on_segment_def queue_trimHead_def Let_def)
  then show thesis
    using s assms seg_at_pending_Nil [OF s(1)]
    by (intro that [of ?l]) (simp_all add: q_holds_def queue_diskUsage_def segment_diskUsage_def)
qed

end
