(* ===== verification/HH_Node.thy ===== *)
theory HH_Node
  imports HH_Queue
begin

text \<open>
  The sender of hinted-handoff data (\<open>services/hh/node_processor.go\<close>): the encoding of a write as
  a block of the queue and the step that sends the head block.  Points and their text format
  (package \<open>models\<close>), the metastore and the shard writer are parameters.
\<close>

section \<open>Blocks\<close>

definition marshalWrite :: "('p \<Rightarrow> byte list) \<Rightarrow> u64 \<Rightarrow> 'p list \<Rightarrow> byte list" where
  "marshalWrite str shardID points = PutUint64 shardID @ concat (map (\<lambda>p. str p @ [10]) points)"

datatype node_error = NodeClosed | NodeOpen | NodePanic | NodeQueue hh_error | NodeTooShort | NodeParse | NodeMeta | NodeWriter

definition unmarshalWrite :: "(byte list \<Rightarrow> 'p list option) \<Rightarrow> byte list \<Rightarrow> node_error + (u64 \<times> 'p list)" where
  "unmarshalWrite parse b =
     (if length b < 8 then Inl NodeTooShort
      else case parse (drop 8 b) of
        None \<Rightarrow> Inl NodeParse
      | Some points \<Rightarrow> Inr (Uint64 (take 8 b), points))"

section \<open>The processor\<close>

text \<open>
  A processor owns the directory of its node, which the queue record holds together with the
  queue object; \<open>np_hasQueue\<close> says whether the pointer to the queue is set.
\<close>

record NodeProcessor =
  np_PurgeInterval :: duration
  np_RetryInterval :: duration
  np_RetryMaxInterval :: duration
  np_MaxSize :: int
  np_MaxAge :: duration
  np_done :: bool
  np_hasQueue :: bool
  np_queue :: queue

definition DefaultMaxSize :: int where
  "DefaultMaxSize = 1024 * 1024 * 1024"

definition DefaultMaxAge :: duration where
  "DefaultMaxAge = 7 * 24 * 3600 * Second"

definition DefaultRetryInterval :: duration where
  "DefaultRetryInterval = Second"

definition DefaultRetryMaxInterval :: duration where
  "DefaultRetryMaxInterval = 60 * Second"

definition DefaultPurgeInterval :: duration where
  "DefaultPurgeInterval = 3600 * Second"

text \<open>A queue object over the files that are already in the directory of another one.\<close>

definition over_dir :: "queue \<Rightarrow> queue \<Rightarrow> queue" where
  "over_dir disk q = q\<lparr>q_heap := q_heap disk, q_mtime := q_mtime disk, q_dir := q_dir disk\<rparr>"

definition NewNodeProcessor :: "queue \<Rightarrow> NodeProcessor" where
  "NewNodeProcessor disk = \<lparr>np_PurgeInterval = DefaultPurgeInterval, np_RetryInterval = DefaultRetryInterval,
     np_RetryMaxInterval = DefaultRetryMaxInterval, np_MaxSize = DefaultMaxSize, np_MaxAge = DefaultMaxAge,
     np_done = False, np_hasQueue = False, np_queue = disk\<rparr>"

text \<open>A failed opening leaves the processor marked as open, with the queue it had before.\<close>

definition NodeProcessor_Open :: "time \<Rightarrow> NodeProcessor \<Rightarrow> NodeProcessor \<times> (node_error + unit)" where
  "NodeProcessor_Open now n =
     (if np_done n then (n, Inr ())
      else case queue_Open now (over_dir (np_queue n) (newQueue (np_MaxSize n))) of
        (q, Inl e) \<Rightarrow> (n\<lparr>np_done := True, np_queue := over_dir q (np_queue n)\<rparr>, Inl (NodeQueue e))
      | (q, Inr _) \<Rightarrow> (n\<lparr>np_done := True, np_hasQueue := True, np_queue := q\<rparr>, Inr ()))"

definition NodeProcessor_Close :: "NodeProcessor \<Rightarrow> NodeProcessor \<times> (node_error + unit)" where
  "NodeProcessor_Close n =
     (if \<not> np_done n then (n, Inr ())
      else if \<not> np_hasQueue n then (n\<lparr>np_done := False\<rparr>, Inl NodePanic)
      else case queue_Close (np_queue n) of
        (q, Inl e) \<Rightarrow> (n\<lparr>np_done := False, np_queue := q\<rparr>, Inl (NodeQueue e))
      | (q, Inr _) \<Rightarrow> (n\<lparr>np_done := False, np_queue := q\<rparr>, Inr ()))"

definition NodeProcessor_Purge :: "NodeProcessor \<Rightarrow> NodeProcessor \<times> (node_error + unit)" where
  "NodeProcessor_Purge n =
     (if np_done n then (n, Inl NodeOpen)
      else (n\<lparr>np_queue := (np_queue n)\<lparr>q_dir := []\<rparr>\<rparr>, Inr ()))"

definition NodeProcessor_WriteShard :: "('p \<Rightarrow> byte list) \<Rightarrow> time \<Rightarrow> u64 \<Rightarrow> 'p list \<Rightarrow> NodeProcessor \<Rightarrow> NodeProcessor \<times> (node_error + unit)" where
  "NodeProcessor_WriteShard str now shardID points n =
     (if \<not> np_done n then (n, Inl NodeClosed)
      else if \<not> np_hasQueue n then (n, Inl NodePanic)
      else case queue_Append now (marshalWrite str shardID points) (np_queue n) of
        (q, Inl e) \<Rightarrow> (n\<lparr>np_queue := q\<rparr>, Inl (NodeQueue e))
      | (q, Inr _) \<Rightarrow> (n\<lparr>np_queue := q\<rparr>, Inr ()))"

definition NodeProcessor_LastModified :: "NodeProcessor \<Rightarrow> node_error + time" where
  "NodeProcessor_LastModified n = (if \<not> np_hasQueue n then Inl NodePanic else Inr (queue_LastModified (np_queue n)))"

text \<open>
  \<open>SendWrite\<close>: \<open>active\<close> is the answer of the metastore, \<open>write\<close> whether the shard writer takes the
  points.  The result lists what the writer was given, and the number of bytes or the error.
\<close>

definition NodeProcessor_SendWrite ::
    "(byte list \<Rightarrow> 'p list option) \<Rightarrow> bool option \<Rightarrow> (u64 \<Rightarrow> 'p list \<Rightarrow> bool) \<Rightarrow> time \<Rightarrow> NodeProcessor \<Rightarrow>
     NodeProcessor \<times> (u64 \<times> 'p list) list \<times> (node_error + int)" where
  "NodeProcessor_SendWrite parse active write now n =
     (case active of
        None \<Rightarrow> (n, [], Inl NodeMeta)
      | Some False \<Rightarrow> (n, [], Inl (NodeQueue IoEOF))
      | Some True \<Rightarrow>
          if \<not> np_hasQueue n then (n, [], Inl NodePanic)
          else (case queue_Current (np_queue n) of
             (q, Inl e) \<Rightarrow> (n\<lparr>np_queue := q\<rparr>, [], Inl (NodeQueue e))
           | (q, Inr buf) \<Rightarrow>
               (case unmarshalWrite parse buf of
                  Inl e \<Rightarrow> (n\<lparr>np_queue := fst (queue_Advance now q)\<rparr>, [], Inl e)
                | Inr (shardID, points) \<Rightarrow>
                    if \<not> write shardID points then (n\<lparr>np_queue := q\<rparr>, [(shardID, points)], Inl NodeWriter)
                    else (n\<lparr>np_queue := fst (queue_Advance now q)\<rparr>, [(shardID, points)], Inr (int (length buf))))))"

text \<open>
  The retry branch of \<open>run\<close>: blocks are sent until a send fails; then the next interval is the
  configured one if there was nothing left to send, and twice the current one up to the maximum
  otherwise.  Each send meets its own environment, an entry of the list; running out of entries is
  \<open>None\<close>.  The waiting times of the rate limiter are left out.
\<close>

type_synonym 'p send_env = "bool option \<times> (u64 \<Rightarrow> 'p list \<Rightarrow> bool) \<times> time"

definition run_initial :: "NodeProcessor \<Rightarrow> duration" where
  "run_initial n = (if np_RetryInterval n > np_RetryMaxInterval n then np_RetryMaxInterval n else np_RetryInterval n)"

definition run_backoff :: "NodeProcessor \<Rightarrow> node_error \<Rightarrow> duration \<Rightarrow> duration" where
  "run_backoff n e currInterval =
     (if e = NodeQueue IoEOF then np_RetryInterval n
      else if currInterval * 2 > np_RetryMaxInterval n then np_RetryMaxInterval n
      else currInterval * 2)"

fun run_retry :: "(byte list \<Rightarrow> 'p list option) \<Rightarrow> 'p send_env list \<Rightarrow> duration \<Rightarrow> NodeProcessor \<Rightarrow>
    (NodeProcessor \<times> (u64 \<times> 'p list) list \<times> duration) option" where
  "run_retry parse [] currInterval n = None"
| "run_retry parse ((active, write, now) # envs) currInterval n =
     (case NodeProcessor_SendWrite parse active write now n of
        (n', out, Inl e) \<Rightarrow> Some (n', out, run_backoff n' e currInterval)
      | (n', out, Inr c) \<Rightarrow>
          (case run_retry parse envs (np_RetryInterval n') n' of
             None \<Rightarrow> None
           | Some (n'', out', i) \<Rightarrow> Some (n'', out @ out', i)))"

definition run_purge :: "nat \<Rightarrow> time \<Rightarrow> NodeProcessor \<Rightarrow> NodeProcessor option" where
  "run_purge fuel now n =
     (case queue_PurgeOlderThan fuel now (now - np_MaxAge n) (np_queue n) of
        None \<Rightarrow> None
      | Some (q, _) \<Rightarrow> Some (n\<lparr>np_queue := q\<rparr>))"

lemma marshalWrite_nonempty: "marshalWrite str sid pts \<noteq> []"
  by (simp add: marshalWrite_def)

lemma unmarshal_marshalWrite:
  assumes "parse (concat (map (\<lambda>p. str p @ [10]) pts)) = Some qts"
  shows "unmarshalWrite parse (marshalWrite str sid pts) = Inr (sid, qts)"
  using assms Uint64_PutUint64 [of sid "[]"] by (simp add: unmarshalWrite_def marshalWrite_def)

section \<open>Sending\<close>

text \<open>An open processor and the writes that wait in its queue, as pairs of a shard and points.\<close>

definition np_waiting :: "('p \<Rightarrow> byte list) \<Rightarrow> NodeProcessor \<Rightarrow> (u64 \<times> 'p list) list \<Rightarrow> bool" where
  "np_waiting str n ws \<longleftrightarrow> np_done n \<and> np_hasQueue n \<and> q_pending (np_queue n) (map (\<lambda>(sid, pts). marshalWrite str sid pts) ws)"

definition np_config :: "NodeProcessor \<Rightarrow> duration \<times> duration \<times> duration \<times> int \<times> duration" where
  "np_config n = (np_PurgeInterval n, np_RetryInterval n, np_RetryMaxInterval n, np_MaxSize n, np_MaxAge n)"

lemma np_waiting_WriteShard:
  assumes "np_waiting str n ws" and "q_fits (np_queue n) (marshalWrite str sid pts)"
  obtains n' where "NodeProcessor_WriteShard str now sid pts n = (n', Inr ())" and "np_waiting str n' (ws @ [(sid, pts)])"
    and "np_config n' = np_config n"
proof -
  from assms(1) have p: "np_done n" "np_hasQueue n" "q_pending (np_queue n) (map (\<lambda>(sid, pts). marshalWrite str sid pts) ws)"
    by (simp_all add: np_waiting_def)
  from queue_fifo.enq_pending [OF p(3) assms(2), of now] obtain q where
      "queue_Append now (marshalWrite str sid pts) (np_queue n) = (q, Inr ())"
      "q_pending q (map (\<lambda>(sid, pts). marshalWrite str sid pts) ws @ [marshalWrite str sid pts])"
    by blast
  with p show thesis
    by (intro that [of "n\<lparr>np_queue := q\<rparr>"]) (simp_all add: NodeProcessor_WriteShard_def np_waiting_def np_config_def)
qed

lemma SendWrite_empty:
  assumes "np_waiting str n []"
  shows "NodeProcessor_SendWrite parse (Some True) write now n = (n, [], Inl (NodeQueue IoEOF))"
proof -
  from assms obtain ps where "np_hasQueue n" "q_holds (np_queue n) ps" "concat ps = []"
    by (auto simp: np_waiting_def q_pending_def)
  with queue_Current_pending(1) show ?thesis by (simp add: NodeProcessor_SendWrite_def)
qed

lemma SendWrite_parsed:
  assumes "np_waiting str n ((sid, pts) # ws)" and "parse (concat (map (\<lambda>p. str p @ [10]) pts)) = Some qts"
  obtains n' where "NodeProcessor_SendWrite parse (Some True) wr now n =
      (n', [(sid, qts)], if wr sid qts then Inr (int (length (marshalWrite str sid pts))) else Inl NodeWriter)"
    and "np_waiting str n' (if wr sid qts then ws else (sid, pts) # ws)" and "np_config n' = np_config n"
proof -
  let ?b = "marshalWrite str sid pts" and ?bs = "map (\<lambda>(sid, pts). marshalWrite str sid pts) ws"
  from assms(1) have n: "np_done n" "np_hasQueue n" "q_pending (np_queue n) (?b # ?bs)" by (simp_all add: np_waiting_def)
  from queue_fifo.cur_Cons [OF n(3)] obtain q where q: "queue_Current (np_queue n) = (q, Inr ?b)" "q_pending q (?b # ?bs)"
    by blast
  from queue_fifo.adv_Cons [OF q(2), of now] obtain q' r where q': "queue_Advance now q = (q', r)" "q_pending q' ?bs"
    by blast
  have u: "unmarshalWrite parse ?b = Inr (sid, qts)"
    using assms(2) by (rule unmarshal_marshalWrite)
  show thesis
    using n q q' u
    by (intro that [of "n\<lparr>np_queue := if wr sid qts then q' else q\<rparr>"])
      (simp_all add: NodeProcessor_SendWrite_def np_waiting_def np_config_def)
qed

text \<open>A retry round delivers what the parser makes of the queued lines.\<close>

lemma run_retry_drains:
  assumes "np_waiting str n ws"
    and "list_all2 (\<lambda>(sid, pts) (sid', qts). sid' = sid \<and> parse (concat (map (\<lambda>p. str p @ [10]) pts)) = Some qts) ws qs"
    and "\<forall>(active, write, now)\<in>set envs. active = Some True \<and> (\<forall>(sid, qts)\<in>set qs. write sid qts)"
    and "length ws < length envs"
  shows "\<exists>n'. run_retry parse envs i n = Some (n', qs, np_RetryInterval n) \<and> np_waiting str n' [] \<and> np_config n' = np_config n"
  using assms
proof (induction ws arbitrary: n envs i qs)
  case Nil
  then obtain a wr now es where "envs = (a, wr, now) # es" by (cases envs) auto
  with Nil SendWrite_empty [OF Nil(1), of parse wr now] show ?case by (auto simp: run_backoff_def)
next
  case (Cons w ws)
  obtain sid pts where w: "w = (sid, pts)" by (cases w)
  from Cons.prems(2) obtain qts qs' where q: "qs = (sid, qts) # qs'" "parse (concat (map (\<lambda>p. str p @ [10]) pts)) = Some qts"
      "list_all2 (\<lambda>(sid, pts) (sid', qts). sid' = sid \<and> parse (concat (map (\<lambda>p. str p @ [10]) pts)) = Some qts) ws qs'"
    by (auto simp: w list_all2_Cons1)
  from Cons.prems(4) obtain a wr now es where e: "envs = (a, wr, now) # es" by (cases envs) auto
  with Cons.prems(3) have a: "a = Some True" "wr sid qts" by (auto simp: q)
  obtain n1 where n1: "NodeProcessor_SendWrite parse (Some True) wr now n =
        (n1, [(sid, qts)], Inr (int (length (marshalWrite str sid pts))))"
      "np_waiting str n1 ws" "np_config n1 = np_config n"
    using SendWrite_parsed [of str n sid pts ws parse qts wr now] Cons.prems(1) q(2) a by (auto simp: w)
  have "\<exists>n'. run_retry parse es (np_RetryInterval n1) n1 = Some (n', qs', np_RetryInterval n1) \<and>
      np_waiting str n' [] \<and> np_config n' = np_config n1"
    using Cons.prems e q(1) by (intro Cons.IH [OF n1(2) q(3)]) auto
  with n1 a e show ?case by (auto simp: q np_config_def)
qed

end
