(* ===== verification/HH_Service.thy ===== *)
theory HH_Service
  imports HH_Node "HOL-Library.AList"
begin

text \<open>
  The hinted-handoff service (\<open>services/hh/service.go\<close>): one node processor for each node that has
  queued writes, created on the first write, and a periodic purge that drops the processors of
  nodes that left the cluster.  The directory of a node without a processor is part of the state.
\<close>

datatype hh_service_error = ErrHintedHandoffDisabled | ServiceNode node_error

record hh_service =
  hs_Enabled :: bool
  hs_MaxAge :: duration
  hs_files :: "u64 list"
  hs_dirs :: "u64 \<Rightarrow> queue"
  hs_processors :: "(u64 \<times> NodeProcessor) list"

fun open_each :: "time \<Rightarrow> u64 list \<Rightarrow> hh_service \<Rightarrow> hh_service \<times> (hh_service_error + unit)" where
  "open_each now [] s = (s, Inr ())"
| "open_each now (nodeID # files) s =
     (case NodeProcessor_Open now (NewNodeProcessor (hs_dirs s nodeID)) of
        (n, Inl e) \<Rightarrow> (s\<lparr>hs_dirs := (hs_dirs s)(nodeID := np_queue n)\<rparr>, Inl (ServiceNode e))
      | (n, Inr _) \<Rightarrow> open_each now files (s\<lparr>hs_processors := AList.update nodeID n (hs_processors s)\<rparr>))"

definition Service_Open :: "time \<Rightarrow> hh_service \<Rightarrow> hh_service \<times> (hh_service_error + unit)" where
  "Service_Open now s = (if \<not> hs_Enabled s then (s, Inr ()) else open_each now (hs_files s) s)"

fun close_processors :: "(u64 \<times> NodeProcessor) list \<Rightarrow> (u64 \<times> NodeProcessor) list \<times> (hh_service_error + unit)" where
  "close_processors [] = ([], Inr ())"
| "close_processors ((k, p) # ps) =
     (case NodeProcessor_Close p of
        (p', Inl e) \<Rightarrow> ((k, p') # ps, Inl (ServiceNode e))
      | (p', Inr _) \<Rightarrow> (case close_processors ps of (ps', r) \<Rightarrow> ((k, p') # ps', r)))"

definition Service_Close :: "hh_service \<Rightarrow> hh_service \<times> (hh_service_error + unit)" where
  "Service_Close s = (case close_processors (hs_processors s) of (ps, r) \<Rightarrow> (s\<lparr>hs_processors := ps\<rparr>, r))"

definition Service_WriteShard ::
    "('p \<Rightarrow> byte list) \<Rightarrow> time \<Rightarrow> u64 \<Rightarrow> u64 \<Rightarrow> 'p list \<Rightarrow> hh_service \<Rightarrow> hh_service \<times> (hh_service_error + unit)" where
  "Service_WriteShard str now shardID ownerID points s =
     (if \<not> hs_Enabled s then (s, Inl ErrHintedHandoffDisabled)
      else
        case (case map_of (hs_processors s) ownerID of
                Some p \<Rightarrow> (s, Inr p)
              | None \<Rightarrow>
                  (case NodeProcessor_Open now (NewNodeProcessor (hs_dirs s ownerID)) of
                     (p, Inl e) \<Rightarrow> (s\<lparr>hs_dirs := (hs_dirs s)(ownerID := np_queue p)\<rparr>, Inl (ServiceNode e))
                   | (p, Inr _) \<Rightarrow> (s\<lparr>hs_processors := AList.update ownerID p (hs_processors s)\<rparr>, Inr p))) of
          (s1, Inl e) \<Rightarrow> (s1, Inl e)
        | (s1, Inr p) \<Rightarrow>
            (case NodeProcessor_WriteShard str now shardID points p of
               (p', Inl e) \<Rightarrow> (s1\<lparr>hs_processors := AList.update ownerID p' (hs_processors s1)\<rparr>, Inl (ServiceNode e))
             | (p', Inr _) \<Rightarrow> (s1\<lparr>hs_processors := AList.update ownerID p' (hs_processors s1)\<rparr>, Inr ())))"

text \<open>
  One tick of the purge.  \<open>active\<close> is the answer of the metastore for a node.  Every entry is
  handled on its own, so the order in which the map is walked does not matter.
\<close>

definition purge_entry :: "time \<Rightarrow> duration \<Rightarrow> (u64 \<Rightarrow> bool option) \<Rightarrow> u64 \<Rightarrow> NodeProcessor \<Rightarrow> NodeProcessor \<times> bool" where
  "purge_entry now maxAge active k v =
     (case NodeProcessor_LastModified v of
        Inl _ \<Rightarrow> (v, False)
      | Inr lm \<Rightarrow>
          (case active k of
             None \<Rightarrow> (v, False)
           | Some True \<Rightarrow> (v, False)
           | Some False \<Rightarrow>
               if \<not> lm < now - maxAge then (v, False)
               else (case NodeProcessor_Close v of
                       (v', Inl _) \<Rightarrow> (v', False)
                     | (v', Inr _) \<Rightarrow>
                         (case NodeProcessor_Purge v' of
                            (v'', Inl _) \<Rightarrow> (v'', False)
                          | (v'', Inr _) \<Rightarrow> (v'', True)))))"

fun purge_each :: "time \<Rightarrow> (u64 \<Rightarrow> bool option) \<Rightarrow> (u64 \<times> NodeProcessor) list \<Rightarrow> hh_service \<Rightarrow> hh_service" where
  "purge_each now active [] s = s"
| "purge_each now active ((k, v) # ps) s =
     (case purge_entry now (hs_MaxAge s) active k v of
        (v', True) \<Rightarrow> purge_each now active ps
          (s\<lparr>hs_processors := AList.delete k (hs_processors s), hs_dirs := (hs_dirs s)(k := np_queue v')\<rparr>)
      | (v', False) \<Rightarrow> purge_each now active ps (s\<lparr>hs_processors := AList.update k v' (hs_processors s)\<rparr>))"

definition Service_purgeInactiveProcessors :: "time \<Rightarrow> (u64 \<Rightarrow> bool option) \<Rightarrow> hh_service \<Rightarrow> hh_service" where
  "Service_purgeInactiveProcessors now active s = purge_each now active (hs_processors s) s"

section \<open>Lemmas\<close>

text \<open>The writes that wait for a node.\<close>

definition hs_waiting :: "('p \<Rightarrow> byte list) \<Rightarrow> hh_service \<Rightarrow> u64 \<Rightarrow> (u64 \<times> 'p list) list \<Rightarrow> bool" where
  "hs_waiting str s k ws \<longleftrightarrow>
     (case map_of (hs_processors s) k of
        Some n \<Rightarrow> np_waiting str n ws
      | None \<Rightarrow> ws = [] \<and> q_dir (hs_dirs s k) = [])"

text \<open>Room for a write: in the queue of the processor, or in the one that will be created.\<close>

definition hs_fits :: "('p \<Rightarrow> byte list) \<Rightarrow> hh_service \<Rightarrow> u64 \<Rightarrow> u64 \<Rightarrow> 'p list \<Rightarrow> bool" where
  "hs_fits str s k sid pts \<longleftrightarrow>
     (case map_of (hs_processors s) k of
        Some n \<Rightarrow> q_fits (np_queue n) (marshalWrite str sid pts)
      | None \<Rightarrow> 8 + int (length (marshalWrite str sid pts)) \<le> defaultSegmentSize)"

lemma NodeProcessor_Open_empty:
  assumes "q_dir d = []"
  obtains n where "NodeProcessor_Open now (NewNodeProcessor d) = (n, Inr ())" and "np_waiting str n []"
    and "\<forall>b. b \<noteq> [] \<and> 8 + int (length b) \<le> defaultSegmentSize \<longrightarrow> q_fits (np_queue n) b"
proof -
  let ?q = "over_dir d (newQueue DefaultMaxSize)"
  have "q_dir ?q = []" "q_maxSegmentSize ?q + 8 < 2 ^ 63"
    using assms by (simp_all add: over_dir_def newQueue_def defaultSegmentSize_def)
  then obtain q where q: "queue_Open now ?q = (q, Inr ())" "q_holds q [[]]" "queue_diskUsage q = 8"
      "q_maxSize q = q_maxSize ?q" "q_maxSegmentSize q = q_maxSegmentSize ?q" "seg_size (q_heap q (last (q_segments q))) = 8"
    by (rule queue_Open_empty)
  let ?n = "(NewNodeProcessor d)\<lparr>np_done := True, np_hasQueue := True, np_queue := q\<rparr>"
  have "NodeProcessor_Open now (NewNodeProcessor d) = (?n, Inr ())"
    using q(1) by (simp add: NodeProcessor_Open_def NewNodeProcessor_def)
  moreover have "np_waiting str ?n []"
    using q(2) by (auto simp: np_waiting_def q_pending_def intro!: exI [of _ "[[]]"])
  moreover have "q_fits (np_queue ?n) b" if "b \<noteq> []" "8 + int (length b) \<le> defaultSegmentSize" for b
  proof -
    have "seg_maxSize (q_heap q (last (q_segments q))) = q_maxSegmentSize q" using q(2) by (simp add: q_holds_def)
    with that q show ?thesis
      by (simp add: q_fits_def over_dir_def newQueue_def defaultSegmentSize_def DefaultMaxSize_def)
  qed
  ultimately show thesis by (intro that [of ?n]) simp_all
qed

lemma Service_WriteShard_waiting:
  assumes en: "hs_Enabled s" and w: "hs_waiting str s k ws" and f: "hs_fits str s k sid pts"
  obtains n where "Service_WriteShard str now sid k pts s =
      (s\<lparr>hs_processors := AList.update k n (hs_processors s)\<rparr>, Inr ())" and "np_waiting str n (ws @ [(sid, pts)])"
proof (cases "map_of (hs_processors s) k")
  case (Some p)
  with w f have "np_waiting str p ws" "q_fits (np_queue p) (marshalWrite str sid pts)"
    by (simp_all add: hs_waiting_def hs_fits_def)
  then obtain p' where "NodeProcessor_WriteShard str now sid pts p = (p', Inr ())" "np_waiting str p' (ws @ [(sid, pts)])"
    by (rule np_waiting_WriteShard)
  with en Some show thesis by (intro that [of p']) (simp_all add: Service_WriteShard_def)
next
  case None
  with w have d: "q_dir (hs_dirs s k) = []" and ws: "ws = []" by (simp_all add: hs_waiting_def)
  obtain p where p: "NodeProcessor_Open now (NewNodeProcessor (hs_dirs s k)) = (p, Inr ())" "np_waiting str p []"
      and room: "\<forall>b. b \<noteq> [] \<and> 8 + int (length b) \<le> defaultSegmentSize \<longrightarrow> q_fits (np_queue p) b"
    using d by (rule NodeProcessor_Open_empty [where now = now and str = str])
  have "q_fits (np_queue p) (marshalWrite str sid pts)"
    using f None room marshalWrite_nonempty [of str sid pts] by (simp add: hs_fits_def)
  with p(2) obtain p' where "NodeProcessor_WriteShard str now sid pts p = (p', Inr ())" "np_waiting str p' ([] @ [(sid, pts)])"
    by (rule np_waiting_WriteShard)
  with en None p ws show thesis by (intro that [of p']) (simp_all add: Service_WriteShard_def)
qed

text \<open>A processor is dropped if its node is gone and its data old.\<close>

definition expired :: "time \<Rightarrow> duration \<Rightarrow> (u64 \<Rightarrow> bool option) \<Rightarrow> u64 \<Rightarrow> NodeProcessor \<Rightarrow> bool" where
  "expired now maxAge active k v \<longleftrightarrow> active k = Some False \<and> queue_LastModified (np_queue v) < now - maxAge"

lemma purge_entry_waiting:
  assumes "np_waiting str v ws"
  shows "\<not> expired now maxAge active k v \<Longrightarrow> purge_entry now maxAge active k v = (v, False)"
    and "expired now maxAge active k v \<Longrightarrow> \<exists>v'. purge_entry now maxAge active k v = (v', True) \<and> q_dir (np_queue v') = []"
proof -
  from assms obtain ps where v: "np_done v" "np_hasQueue v" "q_holds (np_queue v) ps"
    by (auto simp: np_waiting_def q_pending_def)
  show "purge_entry now maxAge active k v = (v, False)" if "\<not> expired now maxAge active k v"
    using that v by (auto simp: purge_entry_def expired_def NodeProcessor_LastModified_def split: option.split bool.split)
  show "\<exists>v'. purge_entry now maxAge active k v = (v', True) \<and> q_dir (np_queue v') = []" if "expired now maxAge active k v"
    using that v queue_Close_holds [OF v(3)]
    by (simp add: purge_entry_def expired_def NodeProcessor_LastModified_def NodeProcessor_Close_def NodeProcessor_Purge_def)
qed

lemma purge_each_waiting:
  assumes "\<forall>(k, v)\<in>set ps. \<exists>ws. np_waiting str v ws" and "distinct (map fst ps)"
    and "\<forall>(k, v)\<in>set ps. map_of (hs_processors s) k = Some v"
  shows "map_of (hs_processors (purge_each now active ps s)) k =
      (case map_of ps k of Some v \<Rightarrow> if expired now (hs_MaxAge s) active k v then None else Some v
       | None \<Rightarrow> map_of (hs_processors s) k) \<and>
    q_dir (hs_dirs (purge_each now active ps s) k) =
      (case map_of ps k of Some v \<Rightarrow> if expired now (hs_MaxAge s) active k v then [] else q_dir (hs_dirs s k)
       | None \<Rightarrow> q_dir (hs_dirs s k))"
  using assms
proof (induction ps arbitrary: s)
  case (Cons p ps)
  obtain k0 v where p: "p = (k0, v)" by (cases p)
  from Cons.prems(1) obtain ws where ws: "np_waiting str v ws" by (auto simp: p)
  have k0: "map_of ps k0 = None" "map_of (hs_processors s) k0 = Some v" and ps: "\<forall>(k, v)\<in>set ps. k \<noteq> k0"
    using Cons.prems(2,3) by (force simp: p map_of_eq_None_iff)+
  show ?case
  proof (cases "expired now (hs_MaxAge s) active k0 v")
    case True
    then obtain v' where v': "purge_entry now (hs_MaxAge s) active k0 v = (v', True)" "q_dir (np_queue v') = []"
      using purge_entry_waiting(2) [OF ws] by blast
    let ?s = "s\<lparr>hs_processors := AList.delete k0 (hs_processors s), hs_dirs := (hs_dirs s)(k0 := np_queue v')\<rparr>"
    have "\<forall>(k, v)\<in>set ps. map_of (hs_processors ?s) k = Some v"
      using Cons.prems(3) ps by (auto simp: delete_conv p)
    from Cons.IH [OF _ _ this] Cons.prems v' True k0 show ?thesis by (auto simp: p delete_conv split: option.splits)
  next
    case False
    from purge_entry_waiting(1) [OF ws this] have e: "purge_entry now (hs_MaxAge s) active k0 v = (v, False)" .
    let ?s = "s\<lparr>hs_processors := AList.update k0 v (hs_processors s)\<rparr>"
    have "\<forall>(k, v)\<in>set ps. map_of (hs_processors ?s) k = Some v"
      using Cons.prems(3) ps by (auto simp: update_conv p)
    from Cons.IH [OF _ _ this] Cons.prems e False k0 show ?thesis by (auto simp: p update_conv split: option.splits)
  qed
qed simp

end
