(* ===== verification/HH_Props.thy ===== *)
theory HH_Props
  imports HH_Service
begin

text \<open>
  The properties of the hinted-handoff queue: order and completeness of what comes out, recovery
  when a file is reopened, the bound on disk space, and two ways a pending or new block is missed.
\<close>

section \<open>Segments\<close>

text \<open>
  A segment is first in, first out: blocks appended to a segment that held \<open>q\<close> come out after
  \<open>q\<close>, all of them, byte for byte and in order, when the reader looks at the head and moves on.
\<close>

lemma segment_fifo:
  assumes "seg_pending s q" and "enq_all seg_fits segment_append bs s = Some s'"
    and "length (q @ bs) \<le> n"
  shows "\<exists>s''. drain segment_current segment_advance n s' = (s'', q @ bs) \<and> seg_pending s'' []"
  by (rule seg_fifo.fifo [OF assms])

lemma enq_all_single: "fits s x \<Longrightarrow> enq_all fits enq [x] s = Some (fst (enq x s))"
  by simp

lemma segment_fifo_witness:
  "\<exists>s s' s''. seg_pending s [] \<and> enq_all seg_fits segment_append [[1, 2]] s = Some s' \<and>
     drain segment_current segment_advance 1 s' = (s'', [[1, 2]])"
proof -
  obtain s where s: "newSegment [] 100 = (s, Inr ())" "seg_at s [] []" "seg_maxSize s = 100" "seg_size s = 8"
    by (rule newSegment_empty)
  have p: "seg_pending s []" using seg_at_pending_Nil [OF s(2)] .
  have e: "enq_all seg_fits segment_append [[1, 2]] s = Some (fst (segment_append [1, 2] s))"
    by (rule enq_all_single) (simp add: seg_fits_def s)
  have "\<exists>s''. drain segment_current segment_advance 1 (fst (segment_append [1, 2] s)) = (s'', [] @ [[1, 2]]) \<and> seg_pending s'' []"
    by (rule segment_fifo [OF p e]) simp
  with p e show ?thesis unfolding append_Nil by blast
qed

text \<open>
  Closing and reopening a segment file, at any point of its life, loses nothing and repeats
  nothing: the reopened segment holds exactly the blocks that were pending.
\<close>

lemma segment_reopen:
  assumes "seg_pending s q" and "\<forall>b\<in>set q. int (length b) \<le> m"
  shows "\<exists>s'. newSegment (f_bytes (seg_file (segment_close s))) m = (s', Inr ()) \<and> seg_pending s' q"
proof -
  from assms(1) obtain cs where at: "seg_at s cs q" by (auto simp: seg_pending_def)
  from seg_atD(2,6,7) [OF at] obtain s' where "newSegment (f_bytes (seg_file s)) m = (s', Inr ())" "seg_at s' cs q" "seg_maxSize s' = m"
    by (rule_tac newSegment_layout [of "f_bytes (seg_file s)" cs q m]) simp_all
  with assms(2) show ?thesis by (auto simp: seg_pending_def segment_close_def)
qed

lemma segment_reopen_witness:
  "\<exists>s s'. seg_pending s [[7]] \<and> newSegment (f_bytes (seg_file (segment_close s))) 100 = (s', Inr ()) \<and> seg_pending s' [[7]]"
proof -
  obtain s where "newSegment (blocks [[3]] @ blocks [[7]] @ u64tob (of_nat (length (blocks [[3]])))) 100 = (s, Inr ())"
      and at: "seg_at s [[3]] [[7]]" "seg_maxSize s = 100"
    by (rule newSegment_layout [OF refl, of "[[3]]" "[[7]]"]) simp_all
  then have "seg_pending s [[7]]" by (auto simp: seg_pending_def)
  with segment_reopen [OF this, of 100] show ?thesis by auto
qed

section \<open>The queue\<close>

text \<open>
  C4. The queue over many segment files is first in, first out as well: if every block
  fits when it is appended, everything appended comes out, in order, across the boundaries of segments, and the
  queue is then empty.  A block fits (\<open>q_fits\<close>) if it is not empty, the queue has room for it, an empty segment could hold it, and it does not
  start a new segment behind one that is already drained; in that last case the code accepts the block and the reader does not find it,
  see \<open>append_behind_drained_head\<close>.
\<close>

theorem queue_is_fifo:
  assumes "q_pending l q" and "enq_all q_fits (queue_Append now) bs l = Some l'"
    and "length (q @ bs) \<le> n"
  shows "\<exists>l''. drain queue_Current (queue_Advance now') n l' = (l'', q @ bs) \<and> q_pending l'' []"
  by (rule queue_fifo.fifo [OF assms])

text \<open>A queue with one fresh or reopened segment.\<close>

definition one_segment :: "segment \<Rightarrow> int \<Rightarrow> queue" where
  "one_segment s maxSize = \<lparr>q_heap = (\<lambda>_. no_segment)(1 := s), q_mtime = (\<lambda>_. 0), q_dir = [1], q_head = Some 1,
     q_tail = Some 1, q_maxSegmentSize = seg_maxSize s, q_maxSize = maxSize, q_segments = [1]\<rparr>"

lemma one_segment_holds:
  assumes "seg_pending s p" and "seg_maxSize s + 8 < 2 ^ 63"
  shows "q_holds (one_segment s m) [p]"
  using assms by (simp add: q_holds_def one_segment_def)

text \<open>Two blocks of which the second needs a new segment; reading the first block then removes the drained segment.\<close>

definition rotated :: queue where
  "rotated = the (enq_all q_fits (queue_Append 5) [[1, 2], [3]] (one_segment (fst (newSegment [] 18)) 1000))"

lemma rotated_enq: "enq_all q_fits (queue_Append 5) [[1, 2], [3]] (one_segment (fst (newSegment [] 18)) 1000) = Some rotated"
  and rotated_segments: "length (q_segments rotated) = 2"
  and rotated_drained: "length (q_segments (fst (drain queue_Current (queue_Advance 6) 2 rotated))) = 1"
proof -
  have "enq_all q_fits (queue_Append 5) [[1, 2], [3]] (one_segment (fst (newSegment [] 18)) 1000) \<noteq> None" by code_simp
  then show "enq_all q_fits (queue_Append 5) [[1, 2], [3]] (one_segment (fst (newSegment [] 18)) 1000) = Some rotated"
    unfolding rotated_def by auto
  show "length (q_segments rotated) = 2" by code_simp
  show "length (q_segments (fst (drain queue_Current (queue_Advance 6) 2 rotated))) = 1" by code_simp
qed

theorem queue_is_fifo_witness:
  "\<exists>l l''. q_pending l [] \<and> enq_all q_fits (queue_Append 5) [[1, 2], [3]] l = Some rotated \<and> length (q_segments rotated) = 2 \<and>
     drain queue_Current (queue_Advance 6) 2 rotated = (l'', [[1, 2], [3]]) \<and> q_pending l'' [] \<and> length (q_segments l'') = 1"
proof -
  obtain s where s: "newSegment [] 18 = (s, Inr ())" "seg_at s [] []" "seg_maxSize s = 18" "seg_size s = 8"
    by (rule newSegment_empty)
  let ?l = "one_segment s 1000"
  have p: "q_pending ?l []"
    using one_segment_holds [OF seg_at_pending_Nil [OF s(2)], of 1000] s(3)
    unfolding q_pending_def by (intro exI [of _ "[[]]"]) simp
  have e: "enq_all q_fits (queue_Append 5) [[1, 2], [3]] ?l = Some rotated" using rotated_enq by (simp add: s(1))
  obtain l'' where d: "drain queue_Current (queue_Advance 6) 2 rotated = (l'', [] @ [[1, 2], [3]])" "q_pending l'' []"
    using queue_is_fifo [OF p e, of 2 6] by auto
  with p e rotated_segments rotated_drained show ?thesis by (intro exI [of _ ?l] exI [of _ l'']) simp
qed

lemma segment_append_size: "seg_size (fst (segment_append b s)) = seg_size s \<or> seg_size (fst (segment_append b s)) = seg_size s + int (length b) + 8"
  by (auto simp: segment_append_def seg_bind_def segment_seekEnd_def Let_def segment_writeUint64_def
      segment_writeBytes_def split: sum.splits)

lemma segment_append_err: "snd (segment_append b s) = Inl e \<Longrightarrow> seg_size (fst (segment_append b s)) = seg_size s"
  by (auto simp: segment_append_def seg_bind_def segment_seekEnd_def Let_def split: sum.splits if_splits)

lemma sizes_update:
  assumes "distinct js"
  shows "(\<Sum>x\<leftarrow>js. seg_size (if x = j then s else h x)) =
    (\<Sum>x\<leftarrow>js. seg_size (h x)) + (if j \<in> set js then seg_size s - seg_size (h j) else 0)"
  using assms by (induction js) auto

text \<open>No append, whatever the state of the queue, takes it past its size by more than the length prefix of the block and the footer of a new segment.\<close>

lemma append_within_bound:
  assumes "distinct (q_segments l)" and "set (q_segments l) \<subseteq> set (q_dir l)"
  shows "queue_diskUsage (fst (queue_Append now b l)) \<le> max (queue_diskUsage l) (q_maxSize l + 16)"
proof (cases "q_tail l")
  case (Some t)
  let ?s = "fst (segment_append b (q_heap l t))" and ?r = "snd (segment_append b (q_heap l t))"
  let ?l1 = "l\<lparr>q_heap := (q_heap l)(t := ?s)\<rparr>"
  have on: "on_segment t (segment_append b) l = (?l1, ?r)"
    by (simp add: on_segment_def case_prod_unfold)
  have d1: "queue_diskUsage ?l1 \<le> queue_diskUsage l + int (length b) + 8"
    using sizes_update [OF assms(1), of t ?s "q_heap l"] segment_append_size [of b "q_heap l t"]
    by (auto simp: queue_diskUsage_def segment_diskUsage_def)
  have d1': "queue_diskUsage ?l1 = queue_diskUsage l" if "?r = Inl e" for e
    using sizes_update [OF assms(1), of t ?s "q_heap l"] segment_append_err [OF that]
    by (auto simp: queue_diskUsage_def segment_diskUsage_def)
  obtain s0 i where add: "queue_addSegment now ?l1 =
        (?l1\<lparr>q_heap := (q_heap ?l1)(i := s0), q_mtime := (q_mtime ?l1)(i := now), q_dir := q_dir ?l1 @ [i],
           q_segments := q_segments ?l1 @ [i]\<rparr>, Inr i)"
      and s0: "seg_size s0 = 8" and i: "i \<notin> set (q_dir ?l1)"
    by (rule queue_addSegment_eq)
  let ?s' = "fst (segment_append b s0)"
  have ii: "i \<notin> set (q_segments l)" using i assms(2) by auto
  have d2: "(\<Sum>x\<leftarrow>q_segments l. seg_size (if x = i then ?s' else if x = t then ?s else q_heap l x)) = queue_diskUsage ?l1"
    using sizes_update_other [OF ii, of ?s' "(q_heap l)(t := ?s)", unfolded fun_upd_apply] by (simp add: queue_diskUsage_def segment_diskUsage_def)
  have s': "seg_size ?s' \<le> 8 + int (length b) + 8"
    using segment_append_size [of b s0] s0 by auto
  have t: "queue_diskUsage (touch x y z) = queue_diskUsage z" for x y z
    by (simp add: queue_diskUsage_def touch_def)
  show ?thesis
  proof (cases "?r = Inl ErrSegmentFull")
    case True
    have "queue_diskUsage (fst (queue_Append now b l)) \<le> max (queue_diskUsage l) (queue_diskUsage l + int (length b) + 16)"
      if "\<not> queue_diskUsage l + int (length b) > q_maxSize l"
      using that True Some add d2 s' d1' [OF True]
      by (simp add: queue_Append_def on case_prod_unfold t on_segment_def [of i] if_distrib [of queue_diskUsage])
        (simp add: queue_diskUsage_def segment_diskUsage_def cong: if_cong)
    then show ?thesis using Some by (cases "queue_diskUsage l + int (length b) > q_maxSize l") (auto simp: queue_Append_def)
  next
    case False
    then show ?thesis using Some d1 by (auto simp: queue_Append_def on t)
  qed
qed (simp add: queue_Append_def)

lemma segment_append_grows: "snd (segment_append b s) = Inr () \<Longrightarrow> seg_size (fst (segment_append b s)) = seg_size s + int (length b) + 8"
  by (auto simp: segment_append_def seg_bind_def segment_seekEnd_def Let_def segment_writeUint64_def
      segment_writeBytes_def split: sum.splits if_splits)

lemma tail_append:
  assumes "distinct (q_segments l)" and "q_tail l = Some t" and "t \<in> set (q_segments l)"
    and "queue_diskUsage l + int (length b) \<le> q_maxSize l" and "segment_append b (q_heap l t) = (s, Inr ())"
  shows "\<exists>l'. queue_Append now b l = (l', Inr ()) \<and> queue_diskUsage l' = queue_diskUsage l + int (length b) + 8"
  using assms sizes_update [OF assms(1), of t s "q_heap l"] segment_append_grows [of b "q_heap l t"]
  by (simp add: queue_Append_def on_segment_def touch_def queue_diskUsage_def segment_diskUsage_def)

lemma rotating_append:
  assumes "set (q_segments l) \<subseteq> set (q_dir l)" and "q_tail l = Some t" and "queue_diskUsage l + int (length b) \<le> q_maxSize l"
    and "segment_append b (q_heap l t) = (q_heap l t, Inl ErrSegmentFull)"
    and "b \<noteq> []" and "8 + int (length b) \<le> q_maxSegmentSize l" and "q_maxSegmentSize l + 8 < 2 ^ 63"
  shows "\<exists>l'. queue_Append now b l = (l', Inr ()) \<and> queue_diskUsage l' = queue_diskUsage l + int (length b) + 16"
proof -
  obtain s0 i where add: "queue_addSegment now l =
        (l\<lparr>q_heap := (q_heap l)(i := s0), q_mtime := (q_mtime l)(i := now), q_dir := q_dir l @ [i],
           q_segments := q_segments l @ [i]\<rparr>, Inr i)"
      and s0: "seg_at s0 [] []" "seg_maxSize s0 = q_maxSegmentSize l" "seg_size s0 = 8" and i: "i \<notin> set (q_dir l)"
    by (rule queue_addSegment_eq)
  have fit: "seg_fits s0 b" using assms(5-7) s0 by (simp add: seg_fits_def)
  obtain s where s: "segment_append b s0 = (s, Inr ())"
    using seg_append_pending [OF seg_at_pending_Nil [OF s0(1)] fit] .
  have "seg_size s = 16 + int (length b)" using segment_append_grows [of b s0] s s0(3) by simp
  moreover have "i \<notin> set (q_segments l)" using i assms(1) by blast
  ultimately show ?thesis
    using assms(2-4) add s sizes_update_other [of i "q_segments l" s "q_heap l"]
    by (simp add: queue_Append_def on_segment_def touch_def fun_upd_idem queue_diskUsage_def segment_diskUsage_def)
qed

text \<open>
  C28. The queue stays within its size.  On an open queue a block that a segment can hold is refused, with nothing changed, exactly if it would take the files
  past the configured maximum; otherwise it is accepted and the files grow by the block and its length prefix, and by the footer of a new segment if the tail has no room.
  So the files never exceed the maximum by more than these sixteen bytes.
\<close>

theorem queue_size_bound:
  assumes "q_pending l q" and "b \<noteq> []" and "8 + int (length b) \<le> q_maxSegmentSize l"
  shows "if queue_diskUsage l + int (length b) > q_maxSize l then queue_Append now b l = (l, Inl ErrQueueFull)
    else \<exists>l'. queue_Append now b l = (l', Inr ()) \<and> queue_diskUsage l' \<le> q_maxSize l + 16 \<and>
      queue_diskUsage l' = queue_diskUsage l + int (length b) +
        (if seg_size (q_heap l (last (q_segments l))) + int (length b) \<le> q_maxSegmentSize l then 8 else 16)"
proof -
  obtain ps where h: "q_holds l ps" using assms(1) by (auto simp: q_pending_def)
  then obtain ps' p where "ps = ps' @ [p]" using q_holds_nonempty [OF h] by (cases ps rule: rev_cases) auto
  with h obtain js t where segs: "q_segments l = js @ [t]" and tail: "q_tail l = Some t" and t: "seg_pending (q_heap l t) p"
    by (auto elim: q_holds_snoc)
  have mx: "seg_maxSize (q_heap l t) = q_maxSegmentSize l" "q_maxSegmentSize l + 8 < 2 ^ 63" "distinct (q_segments l)" "set (q_dir l) = set (q_segments l)"
    using h by (simp_all add: q_holds_def segs)
  show ?thesis
  proof (cases "queue_diskUsage l + int (length b) > q_maxSize l")
    case True
    then show ?thesis using tail by (simp add: queue_Append_def)
  next
    case room: False
    show ?thesis
    proof (cases "seg_size (q_heap l t) + int (length b) \<le> q_maxSegmentSize l")
      case True
      then have "seg_fits (q_heap l t) b" using assms(2,3) mx by (simp add: seg_fits_def)
      then obtain s where "segment_append b (q_heap l t) = (s, Inr ())" using seg_append_pending [OF t] by blast
      with tail_append [OF mx(3) tail, of b s now] room True show ?thesis by (auto simp: segs)
    next
      case False
      then have "segment_append b (q_heap l t) = (q_heap l t, Inl ErrSegmentFull)"
        using mx seg_pending_open [OF t] by (simp add: segment_append_def)
      with rotating_append [OF _ tail _ this assms(2,3) mx(2), of now] room False mx(4) show ?thesis by (auto simp: segs)
    qed
  qed
qed

theorem queue_size_bound_witness:
  "\<exists>l l'. q_pending l [] \<and> queue_Append 5 [1, 2] l = (l', Inr ()) \<and> queue_diskUsage l' = 18 \<and>
     queue_Append 5 (replicate 90 0) l = (l, Inl ErrQueueFull)"
proof -
  obtain s where s: "newSegment [] 100 = (s, Inr ())" "seg_at s [] []" "seg_maxSize s = 100" "seg_size s = 8"
    by (rule newSegment_empty)
  let ?l = "one_segment s 50"
  have p: "q_pending ?l []"
    using one_segment_holds [OF seg_at_pending_Nil [OF s(2)], of 50] s(3)
    unfolding q_pending_def by (intro exI [of _ "[[]]"]) simp
  have u: "queue_diskUsage ?l = 8" "q_maxSize ?l = 50" "q_maxSegmentSize ?l = 100" "seg_size (q_heap ?l (last (q_segments ?l))) = 8"
    by (simp_all add: one_segment_def queue_diskUsage_def segment_diskUsage_def s)
  have "\<exists>l'. queue_Append 5 [1, 2] ?l = (l', Inr ()) \<and> queue_diskUsage l' = 18" using queue_size_bound [OF p, of "[1, 2]" 5] by (auto simp: u)
  moreover have "queue_Append 5 (replicate 90 0) ?l = (?l, Inl ErrQueueFull)" using queue_size_bound [OF p, of "replicate 90 0" 5] by (simp add: u)
  ultimately show ?thesis using p by blast
qed

section \<open>Blocks that are missed\<close>

text \<open>
  When the only segment is drained and full, the next append puts the block into a second
  segment and reports success, but the head still points at the drained segment: the reader is
  told that there is nothing, and would have to advance past nothing to see the block.
\<close>

lemma append_behind_drained_head:
  assumes h: "q_holds l [[]]" and b: "b \<noteq> []" and room: "queue_diskUsage l + int (length b) \<le> q_maxSize l"
    and full: "seg_size (q_heap l (hd (q_segments l))) + int (length b) > q_maxSegmentSize l"
    and fits: "8 + int (length b) \<le> q_maxSegmentSize l"
  shows "\<exists>l' t. queue_Append now b l = (l', Inr ()) \<and> q_tail l' = Some t \<and> t \<in> set (q_segments l') \<and>
    seg_pending (q_heap l' t) [b] \<and> queue_Current l' = (l', Inl IoEOF)"
proof -
  have "q_holds l ([] @ [[]])" using h by simp
  then obtain js t where segs: "q_segments l = js @ [t]" and tail: "q_tail l = Some t"
      and t: "seg_pending (q_heap l t) []" and js: "list_all2 (\<lambda>i p. seg_pending (q_heap l i) p) js []"
    by (rule q_holds_snoc)
  have segs: "q_segments l = [t]" using segs js by simp
  have mx: "seg_maxSize (q_heap l t) = q_maxSegmentSize l" "q_maxSegmentSize l + 8 < 2 ^ 63" "q_head l = Some t"
      "set (q_dir l) = {t}"
    using h by (simp_all add: q_holds_def segs)
  have f: "segment_append b (q_heap l t) = (q_heap l t, Inl ErrSegmentFull)"
    using full mx seg_pending_open [OF t] by (simp add: segment_append_def segs)
  obtain s0 i where add: "queue_addSegment now l =
        (l\<lparr>q_heap := (q_heap l)(i := s0), q_mtime := (q_mtime l)(i := now), q_dir := q_dir l @ [i],
           q_segments := q_segments l @ [i]\<rparr>, Inr i)"
      and s0: "seg_at s0 [] []" "seg_maxSize s0 = q_maxSegmentSize l" "seg_size s0 = 8" and i: "i \<notin> set (q_dir l)"
    by (rule queue_addSegment_eq)
  have fit: "seg_fits s0 b" using b fits mx s0 by (simp add: seg_fits_def)
  obtain s where s: "segment_append b s0 = (s, Inr ())" "seg_pending s ([] @ [b])"
    using seg_append_pending [OF seg_at_pending_Nil [OF s0(1)] fit] .
  have it: "i \<noteq> t" using i mx by auto
  let ?l = "l\<lparr>q_heap := (q_heap l)(i := s), q_mtime := (q_mtime l)(i := now), q_dir := q_dir l @ [i],
      q_segments := q_segments l @ [i], q_tail := Some i\<rparr>"
  have "queue_Append now b l = (?l, Inr ())"
    using room tail f add s(1) by (simp add: queue_Append_def on_segment_def touch_def fun_upd_idem)
  moreover obtain cs where "seg_at (q_heap l t) cs []" using t by (auto simp: seg_pending_def)
  then have "queue_Current ?l = (?l, Inl IoEOF)"
    using it mx(3) by (simp add: queue_Current_def on_segment_def segment_current_Nil fun_upd_idem)
  ultimately show ?thesis using s(2) by (intro exI [of _ ?l] exI [of _ i]) simp
qed

lemma append_behind_drained_head_witness:
  "\<exists>l l'. queue_Append 0 [1] l = (l', Inr ()) \<and> queue_Current l' = (l', Inl IoEOF)"
proof -
  obtain s where "newSegment (blocks [[3]] @ blocks [] @ u64tob (of_nat (length (blocks [[3]])))) 12 = (s, Inr ())"
      and at: "seg_at s [[3]] []" "seg_maxSize s = 12"
    by (rule newSegment_layout [OF refl, of "[[3]]" "[]"]) simp_all
  have h: "q_holds (one_segment s 100) [[]]"
    using one_segment_holds [OF seg_at_pending_Nil [OF at(1)], of 100] at(2) by simp
  have sz: "seg_size s = 17" using seg_atD(3) [OF at(1)] by simp
  from append_behind_drained_head [OF h, of "[1]" 0] show ?thesis
    using at(2) sz by (auto simp: one_segment_def queue_diskUsage_def segment_diskUsage_def)
qed

text \<open>
  Purging a queue whose only segment is too old removes the segment and adds a fresh one, but
  leaves the tail pointing at the removed segment: every later append that fits reports success
  and stores nothing.
\<close>

lemma purge_loses_tail:
  assumes h: "q_holds l [p]" and old: "q_mtime l (hd (q_segments l)) < time_Truncate Second when"
    and clock: "time_Truncate Second when \<le> now"
  shows "\<exists>l'. queue_PurgeOlderThan 2 now when l = Some (l', Inr ()) \<and> queue_Current l' = (l', Inl IoEOF) \<and>
    queue_diskUsage l' = 8 \<and> q_maxSize l' = q_maxSize l \<and>
    (\<forall>now' b. queue_diskUsage l' + int (length b) \<le> q_maxSize l' \<longrightarrow>
       (\<exists>l''. queue_Append now' b l' = (l'', Inr ()) \<and> queue_Current l'' = (l'', Inl IoEOF)))"
proof -
  have "q_holds l ([] @ [p])" using h by simp
  then obtain js t where segs: "q_segments l = js @ [t]" and tail: "q_tail l = Some t"
      and t: "seg_pending (q_heap l t) p" and js: "list_all2 (\<lambda>i p. seg_pending (q_heap l i) p) js []"
    by (rule q_holds_snoc)
  have segs: "q_segments l = [t]" using segs js by simp
  have hd: "q_head l = Some t" "set (q_dir l) = {t}" using h by (simp_all add: q_holds_def segs)
  obtain s0 i where add: "queue_addSegment now l =
        (l\<lparr>q_heap := (q_heap l)(i := s0), q_mtime := (q_mtime l)(i := now), q_dir := q_dir l @ [i],
           q_segments := q_segments l @ [i]\<rparr>, Inr i)"
      and s0: "seg_at s0 [] []" "seg_size s0 = 8" and i: "i \<notin> set (q_dir l)"
    by (rule queue_addSegment_eq)
  have it: "i \<noteq> t" using i hd by auto
  let ?l = "l\<lparr>q_heap := (q_heap l)(i := s0, t := segment_close (q_heap l t)), q_mtime := (q_mtime l)(i := now),
    q_dir := filter (\<lambda>x. x \<noteq> t) (q_dir l @ [i]), q_segments := [i], q_head := Some i\<rparr>"
  have "queue_PurgeOlderThan 2 now when l = Some (?l, Inr ())"
    using old clock hd it seg_pending_open [OF t]
    by (simp add: queue_PurgeOlderThan_def segs numeral_2_eq_2 add queue_trimHead_def order_less_le)
  moreover have "queue_Current ?l = (?l, Inl IoEOF)"
    using it s0(1) by (simp add: queue_Current_def on_segment_def segment_current_Nil fun_upd_idem
        fun_upd_twist [OF it])
  moreover have "queue_Append now' b ?l = (?l, Inr ())" if "queue_diskUsage ?l + int (length b) \<le> q_maxSize ?l" for now' b
    using that tail it by (simp add: queue_Append_def on_segment_def segment_append_def segment_close_def fun_upd_idem)
  moreover have "queue_diskUsage ?l = 8" using it s0(2) by (simp add: queue_diskUsage_def segment_diskUsage_def)
  ultimately show ?thesis by (intro exI [of _ ?l] conjI allI impI) (auto simp del: filter_append)
qed

lemma purge_loses_tail_witness:
  "\<exists>l l' l''. queue_PurgeOlderThan 2 (9 * Second) (5 * Second) l = Some (l', Inr ()) \<and>
     queue_Append (9 * Second) [1, 2, 3] l' = (l'', Inr ()) \<and> queue_Current l'' = (l'', Inl IoEOF)"
proof -
  obtain s where s: "newSegment [] 100 = (s, Inr ())" "seg_at s [] []" "seg_maxSize s = 100" "seg_size s = 8"
    by (rule newSegment_empty)
  let ?l = "one_segment s 1000"
  have h: "q_holds ?l [[]]" using one_segment_holds [OF seg_at_pending_Nil [OF s(2)]] s(3) by simp
  have "\<exists>l'. queue_PurgeOlderThan 2 (9 * Second) (5 * Second) ?l = Some (l', Inr ()) \<and> queue_Current l' = (l', Inl IoEOF) \<and>
    queue_diskUsage l' = 8 \<and> q_maxSize l' = q_maxSize ?l \<and>
    (\<forall>now' b. queue_diskUsage l' + int (length b) \<le> q_maxSize l' \<longrightarrow>
       (\<exists>l''. queue_Append now' b l' = (l'', Inr ()) \<and> queue_Current l'' = (l'', Inl IoEOF)))"
    by (rule purge_loses_tail [OF h]) (simp_all add: one_segment_def time_Truncate_def Second_def)
  then obtain l' where l': "queue_PurgeOlderThan 2 (9 * Second) (5 * Second) ?l = Some (l', Inr ())"
    and sz: "queue_diskUsage l' = 8" "q_maxSize l' = q_maxSize ?l" and all: "\<forall>now' b. queue_diskUsage l' + int (length b) \<le> q_maxSize l' \<longrightarrow>
       (\<exists>l''. queue_Append now' b l' = (l'', Inr ()) \<and> queue_Current l'' = (l'', Inl IoEOF))" by blast
  have "queue_diskUsage l' + int (length [1, 2, 3 :: byte]) \<le> q_maxSize l'"
    by (simp add: sz) (simp add: one_segment_def)
  with l' all show ?thesis by blast
qed

section \<open>Closing and reopening the queue\<close>

lemma load_each_pending:
  assumes "distinct js" and "list_all2 (\<lambda>i p. seg_pending (h i) p) js ps"
    and "\<forall>i\<in>set js. f_bytes (seg_file (q_heap l i)) = f_bytes (seg_file (h i))"
    and "\<forall>p\<in>set ps. \<forall>b\<in>set p. int (length b) \<le> q_maxSegmentSize l"
  shows "\<exists>g. load_each js l = (l\<lparr>q_heap := g\<rparr>, Inr js) \<and> list_all2 (\<lambda>i p. seg_pending (g i) p) js ps \<and>
    (\<forall>i\<in>set js. seg_maxSize (g i) = q_maxSegmentSize l) \<and> (\<forall>i. i \<notin> set js \<longrightarrow> g i = q_heap l i)"
  using assms
proof (induction js arbitrary: ps l)
  case (Cons j js)
  from Cons.prems(2) obtain p qs where ps: "ps = p # qs" and p: "seg_pending (h j) p"
      and qs: "list_all2 (\<lambda>i p. seg_pending (h i) p) js qs"
    by (auto simp: list_all2_Cons1)
  from p obtain cs where at: "seg_at (h j) cs p" by (auto simp: seg_pending_def)
  obtain s where s: "newSegment (f_bytes (seg_file (h j))) (q_maxSegmentSize l) = (s, Inr ())" "seg_at s cs p"
      "seg_maxSize s = q_maxSegmentSize l"
    using seg_atD(2,6,7) [OF at]
    by (rule_tac newSegment_layout [of "f_bytes (seg_file (h j))" cs p "q_maxSegmentSize l"]) simp_all
  have sp: "seg_pending s p" using s Cons.prems(4) by (auto simp: seg_pending_def ps)
  let ?l = "l\<lparr>q_heap := (q_heap l)(j := s)\<rparr>"
  have "\<forall>i\<in>set js. f_bytes (seg_file (q_heap ?l i)) = f_bytes (seg_file (h i))" using Cons.prems(1,3) by auto
  then obtain g where g: "load_each js ?l = (?l\<lparr>q_heap := g\<rparr>, Inr js)" "list_all2 (\<lambda>i p. seg_pending (g i) p) js qs"
      "\<forall>i\<in>set js. seg_maxSize (g i) = q_maxSegmentSize ?l" "\<forall>i. i \<notin> set js \<longrightarrow> g i = q_heap ?l i"
    using Cons.IH [OF _ qs, of ?l] Cons.prems by (auto simp: ps)
  have "g j = s" using g(4) Cons.prems(1) by simp
  with g s sp Cons.prems(1,3) show ?case by (intro exI [of _ g]) (auto simp: ps)
next
  case Nil
  then show ?case by (intro exI [of _ "q_heap l"]) auto
qed

text \<open>
  C29. Closing the queue and opening it again loses and repeats nothing, as long as the directory
  lists the segment files in the order in which they were created.
\<close>

theorem queue_reopen:
  assumes h: "q_holds l ps" and order: "readDir l = q_segments l"
  shows "\<exists>l1 l2. queue_Close l = (l1, Inr ()) \<and> queue_Open now l1 = (l2, Inr ()) \<and> q_pending l2 (concat ps)"
proof -
  let ?js = "q_segments l"
  let ?l1 = "l\<lparr>q_heap := (\<lambda>i. if i \<in> set ?js then segment_close (q_heap l i) else q_heap l i),
    q_head := None, q_tail := None, q_segments := []\<rparr>"
  have js: "list_all2 (\<lambda>i p. seg_pending (q_heap l i) p) ?js ps" "distinct ?js" "?js \<noteq> []"
      "\<forall>i\<in>set ?js. seg_maxSize (q_heap l i) = q_maxSegmentSize l"
    using h by (simp_all add: q_holds_def)
  from queue_Close_holds [OF h] have 1: "queue_Close l = (?l1, Inr ())" .
  have "int (length b) \<le> q_maxSegmentSize l" if "p \<in> set ps" "b \<in> set p" for p b
  proof -
    from that(1) obtain k where k: "k < length ps" "ps ! k = p" by (auto simp: in_set_conv_nth)
    with js(1) have "seg_pending (q_heap l (?js ! k)) p" "?js ! k \<in> set ?js" by (auto simp: list_all2_conv_all_nth)
    with js(4) that(2) show ?thesis by (auto simp: seg_pending_def)
  qed
  then obtain g where g: "load_each ?js ?l1 = (?l1\<lparr>q_heap := g\<rparr>, Inr ?js)" "list_all2 (\<lambda>i p. seg_pending (g i) p) ?js ps"
      "\<forall>i\<in>set ?js. seg_maxSize (g i) = q_maxSegmentSize ?l1"
    using load_each_pending [OF js(2,1), of ?l1] by (auto simp: segment_close_def)
  let ?l3 = "?l1\<lparr>q_heap := g, q_segments := ?js, q_head := Some (hd ?js), q_tail := Some (last ?js)\<rparr>"
  have h3: "q_holds ?l3 ps" using h g(2,3) by (simp add: q_holds_def)
  have rd: "readDir ?l1 = ?js" using order by (simp add: readDir_def)
  have cur: "queue_Current ?l3 = on_segment (hd ?js) segment_current ?l3" by (simp add: queue_Current_def)
  have op: "queue_Open now ?l1 = (case queue_Current ?l3 of (l4, r) \<Rightarrow> if r = Inl IoEOF then queue_trimHead l4 else (l4, Inr ()))"
    unfolding cur using js(3) by (simp add: queue_Open_def queue_loadSegments_def rd g(1) Let_def)
  have "\<exists>l2. queue_Open now ?l1 = (l2, Inr ()) \<and> q_pending l2 (concat ps)"
  proof (cases "concat ps")
    case Nil
    then have c: "queue_Current ?l3 = (?l3, Inl IoEOF)" by (rule queue_Current_pending(1) [OF h3])
    have "length ps = 1"
      using Nil h q_holds_nonempty [OF h] by (cases ps) (auto simp: q_holds_def split: if_splits)
    then have "length ?js = 1" using list_all2_lengthD [OF js(1)] by simp
    then have "queue_Open now ?l1 = (?l3, Inr ())" unfolding op c by (simp add: queue_trimHead_def)
    then show ?thesis using h3 by (auto simp: q_pending_def)
  next
    case (Cons b q)
    then show ?thesis using queue_Current_pending(2) [OF h3 Cons] by (auto simp: op)
  qed
  with 1 show ?thesis by blast
qed

theorem queue_reopen_witness:
  "\<exists>l l1 l2. q_pending l [[7]] \<and> queue_Close l = (l1, Inr ()) \<and> queue_Open 3 l1 = (l2, Inr ()) \<and> q_pending l2 [[7]]"
proof -
  obtain s where "newSegment (blocks [[3]] @ blocks [[7]] @ u64tob (of_nat (length (blocks [[3]])))) 100 = (s, Inr ())"
      and at: "seg_at s [[3]] [[7]]" "seg_maxSize s = 100"
    by (rule newSegment_layout [OF refl, of "[[3]]" "[[7]]"]) simp_all
  then have "seg_pending s [[7]]" by (auto simp: seg_pending_def)
  then have h: "q_holds (one_segment s 1000) [[[7]]]" using one_segment_holds at(2) by simp
  moreover have "readDir (one_segment s 1000) = q_segments (one_segment s 1000)" by (simp add: readDir_def one_segment_def)
  ultimately obtain l1 l2 where "queue_Close (one_segment s 1000) = (l1, Inr ())" "queue_Open 3 l1 = (l2, Inr ())"
      "q_pending l2 [[7]]"
    using queue_reopen [OF h, of 3] by auto
  moreover have "q_pending (one_segment s 1000) [[7]]" using h by (auto simp: q_pending_def intro!: exI [of _ "[[[7]]]"])
  ultimately show ?thesis by blast
qed

text \<open>
  The directory does not always list the files in that order: names are sorted as strings, so
  the tenth segment comes before the ninth.
\<close>

lemma readDir_misorders: "readDir (newQueue m\<lparr>q_dir := [9, 10]\<rparr>) = [10, 9]"
  by (simp add: readDir_def dec_digits.simps)

section \<open>Termination of the purge\<close>

lemma purge_loop_returns:
  assumes "q_segments l \<noteq> []" and "q_head l = Some (hd (q_segments l))" and "distinct (q_segments l)"
    and "set (q_segments l) \<subseteq> set (q_dir l)" and "\<forall>i\<in>set (q_segments l). seg_open (q_heap l i)"
    and "cutoff \<le> now" and "length (q_segments l) + 1 \<le> n"
  shows "\<exists>l' r. purge_loop now cutoff n l = Some (l', r)"
  using assms
proof (induction n arbitrary: l)
  case (Suc n)
  then obtain i js where segs: "q_segments l = i # js" by (cases "q_segments l") auto
  show ?case
  proof (cases "js = []")
    case False
    let ?l = "l\<lparr>q_segments := js, q_heap := (q_heap l)(i := segment_close (q_heap l i)),
      q_dir := filter (\<lambda>x. x \<noteq> i) (q_dir l), q_head := Some (hd js)\<rparr>"
    have t: "queue_trimHead l = (?l, Inr ())"
      using Suc.prems False by (cases js) (auto simp: queue_trimHead_def segs)
    have "\<exists>l' r. purge_loop now cutoff n ?l = Some (l', r)"
      using Suc.prems False by (intro Suc.IH) (auto simp: segs)
    then show ?thesis using Suc.prems(2) False t by (simp add: segs)
  next
    case True
    obtain s0 k where add: "queue_addSegment now l =
        (l\<lparr>q_heap := (q_heap l)(k := s0), q_mtime := (q_mtime l)(k := now), q_dir := q_dir l @ [k],
           q_segments := q_segments l @ [k]\<rparr>, Inr k)"
      and k: "k \<notin> set (q_dir l)"
      by (rule queue_addSegment_eq)
    have ki: "k \<noteq> i" using k Suc.prems(4) by (auto simp: segs)
    from Suc.prems(7) obtain n' where n: "n = Suc n'" by (cases n) (auto simp: segs)
    show ?thesis
      using Suc.prems(2,5,6) ki True
      by (simp add: segs n add queue_trimHead_def order_less_le)
  qed
qed simp

text \<open>
  Purging ends: if the cutoff is not in the future, as many rounds as there are segments and
  one more are enough.
\<close>

lemma purge_terminates:
  assumes "q_holds l ps" and "time_Truncate Second when \<le> now"
  shows "\<exists>l' r. queue_PurgeOlderThan (length (q_segments l) + 1) now when l = Some (l', r)"
proof -
  from q_holds_open [OF assms(1)] assms show ?thesis
    unfolding queue_PurgeOlderThan_def
    by (simp add: q_holds_def del: purge_loop.simps) (intro purge_loop_returns, simp_all)
qed

lemma purge_terminates_witness:
  "\<exists>l l' r. q_pending l [] \<and> queue_PurgeOlderThan 2 (9 * Second) (5 * Second) l = Some (l', r)"
proof -
  obtain s where s: "newSegment [] 100 = (s, Inr ())" "seg_at s [] []" "seg_maxSize s = 100" "seg_size s = 8"
    by (rule newSegment_empty)
  have h: "q_holds (one_segment s 1000) [[]]" using one_segment_holds [OF seg_at_pending_Nil [OF s(2)]] s(3) by simp
  have two: "length (q_segments (one_segment s 1000)) + 1 = 2" by (simp add: one_segment_def)
  have "time_Truncate Second (5 * Second) \<le> 9 * Second" by (simp add: time_Truncate_def Second_def)
  from purge_terminates [OF h this] h show ?thesis unfolding two by (fastforce simp: q_pending_def)
qed

section \<open>Delivery\<close>

text \<open>A processor with one queued write: points are single bytes, printed as themselves.\<close>

definition str_ex :: "byte \<Rightarrow> byte list" where
  "str_ex p = [p]"

lemma waiting_ex: obtains n where "np_waiting str_ex n [(7, [1, 2])]"
proof -
  let ?d = "newQueue 0"
  have "q_dir ?d = []" by (simp add: newQueue_def)
  then obtain n where n: "np_waiting str_ex n []"
      and room: "\<forall>b. b \<noteq> [] \<and> 8 + int (length b) \<le> defaultSegmentSize \<longrightarrow> q_fits (np_queue n) b"
    by (rule NodeProcessor_Open_empty [where now = 0 and str = str_ex])
  have "q_fits (np_queue n) (marshalWrite str_ex 7 [1, 2])"
    using room marshalWrite_nonempty [of str_ex 7 "[1, 2]"]
    by (simp add: marshalWrite_def str_ex_def defaultSegmentSize_def PutUint64_def)
  with n obtain n' where "np_waiting str_ex n' ([] @ [(7, [1, 2])])"
    by (rule np_waiting_WriteShard [where now = 0])
  then show thesis by (intro that [of n']) simp
qed

text \<open>
  C31. The service queues a write for the node it is meant for, behind the writes that wait for
  that node, creating the processor of the node on its first write, and leaves the writes for all
  other nodes alone.  The service is enabled and the write fits into the queue of the node, in the sense of \<open>q_fits\<close>.
\<close>

theorem handoff_write:
  assumes "hs_Enabled s" and "hs_waiting str s k ws" and "hs_fits str s k sid pts"
  shows "\<exists>s'. Service_WriteShard str now sid k pts s = (s', Inr ()) \<and> hs_waiting str s' k (ws @ [(sid, pts)]) \<and>
    (\<forall>k' ws'. k' \<noteq> k \<longrightarrow> hs_waiting str s' k' ws' = hs_waiting str s k' ws')"
proof -
  obtain n where n: "Service_WriteShard str now sid k pts s = (s\<lparr>hs_processors := AList.update k n (hs_processors s)\<rparr>, Inr ())"
      "np_waiting str n (ws @ [(sid, pts)])"
    using assms by (rule Service_WriteShard_waiting)
  then show ?thesis by (simp add: hs_waiting_def update_conv split: option.split)
qed

definition service_ex :: hh_service where
  "service_ex = \<lparr>hs_Enabled = True, hs_MaxAge = 100, hs_files = [], hs_dirs = (\<lambda>_. newQueue 0), hs_processors = []\<rparr>"

lemma service_ex_waiting: "hs_waiting str service_ex k []" "hs_fits str_ex service_ex k 7 [1, 2]"
  by (simp_all add: hs_waiting_def hs_fits_def service_ex_def newQueue_def marshalWrite_def str_ex_def PutUint64_def
      defaultSegmentSize_def)

theorem handoff_write_witness:
  "\<exists>s'. Service_WriteShard str_ex 5 7 3 [1, 2] service_ex = (s', Inr ()) \<and> hs_waiting str_ex s' 3 [(7, [1, 2])]"
proof -
  have en: "hs_Enabled service_ex" by (simp add: service_ex_def)
  from handoff_write [OF en service_ex_waiting, of 5 3] show ?thesis by auto
qed

text \<open>
  The periodic purge drops the queue of a node exactly if the metastore says the node is gone
  and the last segment of its queue was last modified more than \<open>MaxAge\<close> ago; the processors of all other nodes are
  untouched.
\<close>

lemma purge_inactive:
  assumes "\<forall>(k, v)\<in>set (hs_processors s). \<exists>ws. np_waiting str v ws" and "distinct (map fst (hs_processors s))"
  shows "map_of (hs_processors (Service_purgeInactiveProcessors now active s)) k =
      (case map_of (hs_processors s) k of
         None \<Rightarrow> None
       | Some v \<Rightarrow> if active k = Some False \<and> queue_LastModified (np_queue v) < now - hs_MaxAge s then None else Some v)"
proof -
  have "\<forall>(k, v)\<in>set (hs_processors s). map_of (hs_processors s) k = Some v"
    using assms(2) by (auto intro: map_of_is_SomeI)
  from purge_each_waiting [OF assms this] show ?thesis
    by (auto simp: Service_purgeInactiveProcessors_def expired_def split: option.splits)
qed

lemma purge_inactive_witness:
  "\<exists>n. np_waiting str_ex n [(7, [1, 2])] \<and>
     map_of (hs_processors (Service_purgeInactiveProcessors 5 (\<lambda>_. Some True) (service_ex\<lparr>hs_processors := [(3, n)]\<rparr>))) 3 = Some n"
proof -
  obtain n where n: "np_waiting str_ex n [(7, [1, 2])]" by (rule waiting_ex)
  let ?s = "service_ex\<lparr>hs_processors := [(3, n)]\<rparr>"
  have "\<forall>(k, v)\<in>set (hs_processors ?s). \<exists>ws. np_waiting str_ex v ws" using n by auto
  from purge_inactive [OF this, of 5 "\<lambda>_. Some True" 3] n show ?thesis by auto
qed

end
