(* ===== verification/TSM_Varint.thy ===== *)
theory TSM_Varint
  imports Bytes
begin

text \<open>
  Variable-length integers of \<open>encoding/binary\<close> as the storage engine uses them, and the zig-zag
  coding of signed integers (\<open>tsm1/encoding.go\<close>).  A 64-bit value takes at most ten bytes, and
  reading what was written gives the value and the number of bytes back, whatever follows.
\<close>

unbundle bit_operations_syntax

section \<open>Variable-length integers\<close>

function PutUvarint :: "u64 \<Rightarrow> byte list" where
  "PutUvarint x = (if x \<ge> 0x80 then (ucast x OR 0x80) # PutUvarint (drop_bit 7 x) else [ucast x])"
  by auto
termination
proof (relation "measure unat", goal_cases)
  case (2 x)
  then have "128 \<le> unat x" by (simp add: word_le_nat_alt)
  then show ?case by (simp add: unat_drop_bit_eq drop_bit_nat_def del: drop_bit_numeral_bit1)
qed simp

declare PutUvarint.simps [simp del]

text \<open>The result is the value and the number of bytes read, negative on overflow and zero if the
  bytes end early.\<close>

fun Uvarint_loop :: "u64 \<Rightarrow> nat \<Rightarrow> nat \<Rightarrow> byte list \<Rightarrow> u64 \<times> int" where
  "Uvarint_loop x s i [] = (0, 0)"
| "Uvarint_loop x s i (b # buf) =
     (if b < 0x80 then
        (if i > 9 \<or> i = 9 \<and> b > 1 then (0, - (int i + 1))
         else (x OR push_bit s (ucast b), int i + 1))
      else Uvarint_loop (x OR push_bit s (ucast (b AND 0x7f))) (s + 7) (i + 1) buf)"

definition Uvarint :: "byte list \<Rightarrow> u64 \<times> int" where
  "Uvarint buf = Uvarint_loop 0 0 0 buf"

lemma bit_128: "bit (128 :: int) n \<longleftrightarrow> n = 7"
proof -
  have "(128 :: int) = 2 ^ 7" by simp
  then show ?thesis by (simp only: bit_exp_iff) auto
qed

lemma bit_127: "bit (127 :: int) n \<longleftrightarrow> n < 7"
proof -
  have "(127 :: int) = mask 7" by (simp add: mask_eq_exp_minus_1)
  then show ?thesis by (simp only: bit_mask_iff) auto
qed

lemma bit_unat: "bit (unat x) n = bit x n" for x :: "'a::len word"
  by (auto simp: bit_unsigned_iff dest: bit_imp_possible_bit)

lemma not_bit_high:
  fixes x :: "'a::len word"
  assumes "unat x < 2 ^ k" and "k \<le> n"
  shows "\<not> bit x n"
proof -
  from assms have "unat x < 2 ^ n" by (meson less_le_trans one_le_numeral power_increasing)
  then have "\<not> bit (unat x) n" by (simp add: bit_iff_odd)
  then show ?thesis by (simp add: bit_unat)
qed

lemma Uvarint_loop_Put:
  assumes "i \<le> 9" and "unat v < 2 ^ (64 - 7 * i)"
  shows "Uvarint_loop x s i (PutUvarint v @ rest) = (x OR push_bit s v, int i + int (length (PutUvarint v)))"
  using assms
proof (induction v arbitrary: x s i rule: PutUvarint.induct)
  case (1 v)
  show ?case
  proof (cases "v \<ge> 0x80")
    case False
    then have v: "unat v < 128" by (simp add: word_le_nat_alt)
    then have u: "unat (ucast v :: byte) = unat v" by (simp add: unsigned_ucast_eq take_bit_nat_eq_self)
    then have "(ucast v :: byte) < 0x80" using v by (simp add: word_less_nat_alt)
    moreover have "\<not> (i = 9 \<and> (ucast v :: byte) > 1)"
      using 1(3) u by (auto simp: word_less_nat_alt)
    moreover have "ucast (ucast v :: byte) = v" using v by (simp add: word_unat_eq_iff unsigned_ucast_eq unsigned_take_bit_eq take_bit_nat_eq_self)
    ultimately show ?thesis using False 1(2) by (simp add: PutUvarint.simps [of v])
  next
    case True
    then have v: "128 \<le> unat v" by (simp add: word_le_nat_alt)
    with 1(3) have i: "i \<le> 8" by (cases "i = 9") (use 1(2) in auto)
    have "\<not> unat (ucast v OR 128 :: byte) < 2 ^ 7"
      using not_bit_high [of "ucast v OR 128 :: byte" 7 7] by (auto simp: bit_or_iff bit_128)
    then have b: "\<not> (ucast v OR 128 :: byte) < 0x80" by (simp add: word_less_nat_alt)
    have "unat (drop_bit 7 v) < 2 ^ (64 - 7 * (i + 1))"
    proof -
      have "64 - 7 * i = 7 + (64 - 7 * (i + 1))" using i by simp
      with 1(3) have "unat v < 2 ^ 7 * 2 ^ (64 - 7 * (i + 1))" by (metis power_add)
      then show ?thesis by (simp add: unat_drop_bit_eq drop_bit_nat_def less_mult_imp_div_less mult.commute)
    qed
    with 1(1) [OF True, of "i + 1"] i
    have IH: "Uvarint_loop y t (i + 1) (PutUvarint (drop_bit 7 v) @ rest) =
        (y OR push_bit t (drop_bit 7 v), int (i + 1) + int (length (PutUvarint (drop_bit 7 v))))" for y t
      by simp
    have "(x OR push_bit s (ucast ((ucast v OR 128 :: byte) AND 127))) OR push_bit (s + 7) (drop_bit 7 v) = x OR push_bit s v"
    proof (rule bit_eqI)
      fix n :: nat
      assume "possible_bit TYPE(64 word) n"
      then show "bit ((x OR push_bit s (ucast ((ucast v OR 128 :: byte) AND 127))) OR push_bit (s + 7) (drop_bit 7 v)) n =
          bit (x OR push_bit s v) n"
        by (cases "n < s + 7") (auto simp: bit_simps bit_128 bit_127)
    qed
    then show ?thesis using True b IH by (simp add: PutUvarint.simps [of v])
  qed
qed

lemma Uvarint_PutUvarint [simp]: "Uvarint (PutUvarint v @ rest) = (v, int (length (PutUvarint v)))"
  using Uvarint_loop_Put [of 0 v 0 0 rest] unsigned_less [of v] by (simp add: Uvarint_def)

lemma length_PutUvarint: "unat v < 2 ^ (7 * n) \<Longrightarrow> 0 < n \<Longrightarrow> length (PutUvarint v) \<le> n"
proof (induction v arbitrary: n rule: PutUvarint.induct)
  case (1 v)
  show ?case
  proof (cases "v \<ge> 0x80")
    case True
    then have "128 \<le> unat v" by (simp add: word_le_nat_alt)
    with 1(2,3) obtain m where m: "n = Suc m" "0 < m" by (cases n; cases "n = 1") auto
    have "unat (drop_bit 7 v) < 2 ^ (7 * m)"
      using 1(2) by (simp add: m unat_drop_bit_eq drop_bit_nat_def less_mult_imp_div_less mult.commute power_add)
    with 1(1) [OF True] m True show ?thesis by (simp add: PutUvarint.simps [of v])
  qed (use 1(3) in \<open>simp add: PutUvarint.simps [of v]\<close>)
qed

lemma PutUvarint_fits: "length (PutUvarint v) \<le> 10"
proof (rule length_PutUvarint)
  have "unat v < 2 ^ 64" using unsigned_less [of v] by simp
  also have "\<dots> < 2 ^ (7 * 10)" by simp
  finally show "unat v < 2 ^ (7 * 10)" .
qed simp

lemma PutUvarint_not_Nil [simp]: "PutUvarint v \<noteq> []"
  by (simp add: PutUvarint.simps [of v])

section \<open>Zig-zag coding\<close>

definition ZigZagEncode :: "u64 \<Rightarrow> u64" where
  "ZigZagEncode x = push_bit 1 x XOR signed_drop_bit 63 x"

definition ZigZagDecode :: "u64 \<Rightarrow> u64" where
  "ZigZagDecode v = drop_bit 1 v XOR signed_drop_bit 63 (push_bit 63 (v AND 1))"

lemma sign_mask: "signed_drop_bit 63 x = (if bit x 63 then - 1 else 0)" for x :: u64
  by (rule bit_eqI) (auto simp: bit_signed_drop_bit_iff not_le Suc_le_eq)

lemma sign_iff: "bit x 63 \<longleftrightarrow> sint x < 0" for x :: u64
  using bit_last_iff [of x] by simp

lemma ZigZagEncode_eq: "ZigZagEncode x = (if sint x < 0 then - 1 - 2 * x else 2 * x)"
proof -
  have "push_bit 1 x = 2 * x" by simp
  moreover have "NOT y = - 1 - y" for y :: u64 by (simp add: not_eq_complement)
  ultimately show ?thesis by (simp add: ZigZagEncode_def sign_mask sign_iff del: push_bit_numeral)
qed

lemma ZigZagDecode_eq: "ZigZagDecode v = (if bit v 0 then - 1 - drop_bit 1 v else drop_bit 1 v)"
proof -
  have "bit (push_bit 63 (v AND 1)) 63 \<longleftrightarrow> bit v 0" by (simp add: bit_simps)
  moreover have "NOT y = - 1 - y" for y :: u64 by (simp add: not_eq_complement)
  ultimately show ?thesis by (simp only: ZigZagDecode_def sign_mask) (simp del: drop_bit_numeral_bit1)
qed

lemma ZigZagDecode_Encode [simp]: "ZigZagDecode (ZigZagEncode x) = x"
proof (rule bit_eqI)
  fix n :: nat
  assume "possible_bit TYPE(64 word) n"
  then have n: "n < 64" by simp
  have enc: "bit (ZigZagEncode x) k \<longleftrightarrow> k < 64 \<and> (0 < k \<and> bit x (k - 1)) \<noteq> bit x 63" for k
    unfolding ZigZagEncode_def sign_mask bit_xor_iff bit_push_bit_iff by (auto simp: Suc_le_eq)
  have "bit (ZigZagDecode (ZigZagEncode x)) n \<longleftrightarrow> bit (ZigZagEncode x) (1 + n) \<noteq> bit x 63"
    unfolding ZigZagDecode_def sign_mask bit_xor_iff bit_drop_bit_eq
    using n by (auto simp: bit_push_bit_iff bit_and_iff enc)
  also have "\<dots> \<longleftrightarrow> bit x n" using n by (cases "n = 63") (auto simp: enc)
  finally show "bit (ZigZagDecode (ZigZagEncode x)) n = bit x n" .
qed

lemma ZigZagEncode_Decode [simp]: "ZigZagEncode (ZigZagDecode w) = w"
proof -
  have "inj ZigZagEncode" by (rule inj_on_inverseI [where g = ZigZagDecode]) simp
  then have "surj ZigZagEncode" by (rule finite_UNIV_inj_surj [OF finite])
  then obtain x where "w = ZigZagEncode x" by (rule surjE)
  then show ?thesis by simp
qed

lemma ZigZagDecode_eq_iff: "ZigZagDecode w = v \<longleftrightarrow> w = ZigZagEncode v"
  by auto

lemma bit_0_ZigZag: "bit (ZigZagEncode x) 0 \<longleftrightarrow> sint x < 0"
  unfolding ZigZagEncode_def sign_mask bit_xor_iff bit_push_bit_iff by (auto simp: sign_iff)

end
