(* ===== verification/TSM_Iter.thy ===== *)
theory TSM_Iter
  imports TSM_Varint
begin

text \<open>
  What the column codecs of the storage engine (\<open>tsdb/engine/tsm1\<close>) have in common: their
  errors, the third-party libraries they call, and the iterator interface of their decoders.
  The libraries (\<open>simple8b\<close>, \<open>snappy\<close>, the bit stream and the bit counting functions) are fields
  of a record; \<open>libs_ok\<close> states their documented behaviour, and \<open>simple_libs\<close> is an instance of
  it.
\<close>

section \<open>Errors and slices\<close>

datatype tsm_error = PanicRange | UnknownEncoding | Simple8bError | SnappyError | UnsupportedNaN | BitstreamEOF
  | InvalidBlockType | UnsupportedValueType | PanicEmptyBlock | PanicShortBlock | PanicUnknownBlock | PanicTypeAssertion

type_synonym 'a tsm = "tsm_error + 'a"

text \<open>\<open>b[i:]\<close> and \<open>b[i:j]\<close>, which panic if the bounds are not within the slice.\<close>

definition slice_from :: "int \<Rightarrow> 'a list \<Rightarrow> 'a list tsm" where
  "slice_from i b = (if 0 \<le> i \<and> i \<le> int (length b) then Inr (drop (nat i) b) else Inl PanicRange)"

definition slice :: "int \<Rightarrow> int \<Rightarrow> 'a list \<Rightarrow> 'a list tsm" where
  "slice i j b = (if 0 \<le> i \<and> i \<le> j \<and> j \<le> int (length b) then Inr (take (nat (j - i)) (drop (nat i) b)) else Inl PanicRange)"

lemma slice_from_append [simp]: "i = int (length xs) \<Longrightarrow> slice_from i (xs @ ys) = Inr ys"
  by (simp add: slice_from_def)

lemma slice_append [simp]:
  "i = int (length xs) \<Longrightarrow> j = i + int (length ys) \<Longrightarrow> slice i j (xs @ ys @ zs) = Inr ys"
  by (simp add: slice_def)

text \<open>The words of a byte string whose length is a multiple of eight.\<close>

fun read_words :: "byte list \<Rightarrow> u64 list" where
  "read_words b = (if length b < 8 then [] else Uint64 (take 8 b) # read_words (drop 8 b))"

declare read_words.simps [simp del]

definition put_words :: "u64 list \<Rightarrow> byte list" where
  "put_words ws = concat (map PutUint64 ws)"

lemma put_words_simps [simp]: "put_words [] = []" "put_words (w # ws) = PutUint64 w @ put_words ws"
  by (simp_all add: put_words_def)

lemma length_put_words [simp]: "length (put_words ws) = 8 * length ws"
  by (induction ws) simp_all

lemma put_words_Nil [simp]: "put_words ws = [] \<longleftrightarrow> ws = []" "[] = put_words ws \<longleftrightarrow> ws = []"
  by (cases ws; simp)+

lemma Uint64_Put [simp]: "Uint64 (PutUint64 v) = v"
  using Uint64_PutUint64 [of v "[]"] by simp

lemma read_put_words [simp]: "read_words (put_words ws) = ws"
proof (induction ws)
  case (Cons w ws)
  then show ?case by (subst read_words.simps) simp
qed (simp add: read_words.simps)

section \<open>Libraries\<close>

record tsm_libs =
  s8_MaxValue :: u64
  s8_EncodeAll :: "u64 list \<Rightarrow> u64 list option"
  s8_Decode :: "u64 \<Rightarrow> u64 list option"
  s8_Bytes :: "u64 list \<Rightarrow> byte list option"
  s8_ReadAll :: "byte list \<Rightarrow> u64 list"
  snappy_Encode :: "byte list \<Rightarrow> byte list"
  snappy_Decode :: "byte list \<Rightarrow> byte list option"
  bit_Write :: "u64 \<Rightarrow> nat \<Rightarrow> bool list"
  bit_Read :: "nat \<Rightarrow> bool list \<Rightarrow> (u64 \<times> bool list) option"
  bit_Buffered :: "bool list \<Rightarrow> byte list"
  bit_Pack :: "bool list \<Rightarrow> byte list"
  bit_Unpack :: "byte list \<Rightarrow> bool list"
  bits_Clz :: "u64 \<Rightarrow> u64"
  bits_Ctz :: "u64 \<Rightarrow> u64"

text \<open>
  \<open>simple8b\<close> packs up to 240 values of at most \<open>MaxValue\<close> into a word.  The contents of a bit stream
  are a list of bits: \<open>bit_Write u n\<close> are the bits that \<open>WriteBits(u, n)\<close> appends for the \<open>n\<close> low bits
  of \<open>u\<close>, \<open>bit_Read\<close> takes them off again, \<open>bit_Buffered\<close> and \<open>bit_Pack\<close> are the bytes in the buffer
  before and after the flush that pads the last byte.  \<open>Clz\<close> and \<open>Ctz\<close> count the zeros above the highest and below the lowest set bit.
\<close>

definition libs_ok :: "tsm_libs \<Rightarrow> bool" where
  "libs_ok L \<longleftrightarrow>
     (\<forall>vs. (\<forall>v\<in>set vs. v \<le> s8_MaxValue L) \<longrightarrow>
        (\<exists>ws vss. s8_EncodeAll L vs = Some ws \<and> map (s8_Decode L) ws = map Some vss \<and>
           concat vss = vs \<and> (\<forall>us\<in>set vss. us \<noteq> [] \<and> length us \<le> 240))) \<and>
     (\<forall>vs. (\<forall>v\<in>set vs. v \<le> s8_MaxValue L) \<longrightarrow> (\<exists>b. s8_Bytes L vs = Some b \<and> s8_ReadAll L b = vs)) \<and>
     (\<forall>b. snappy_Decode L (snappy_Encode L b) = Some b) \<and>
     (\<forall>u n rest. n \<le> 64 \<longrightarrow> bit_Read L n (bit_Write L u n @ rest) = Some (take_bit n u, rest)) \<and>
     (\<forall>bs. \<exists>n. bit_Unpack L (bit_Pack L bs) = bs @ replicate n False) \<and>
     (\<forall>v. v \<noteq> 0 \<longrightarrow>
        bits_Clz L v < 64 \<and> bit v (63 - unat (bits_Clz L v)) \<and> (\<forall>n. 64 - unat (bits_Clz L v) \<le> n \<longrightarrow> \<not> bit v n) \<and>
        bits_Ctz L v < 64 \<and> bit v (unat (bits_Ctz L v)) \<and> (\<forall>n < unat (bits_Ctz L v). \<not> bit v n))"

definition ctz_ref :: "u64 \<Rightarrow> nat" where
  "ctz_ref v = hd (filter (bit v) [0..<64] @ [64])"

definition clz_ref :: "u64 \<Rightarrow> nat" where
  "clz_ref v = 63 - last (filter (bit v) [0..<64])"

definition simple_libs :: tsm_libs where
  "simple_libs = \<lparr>s8_MaxValue = 2 ^ 60 - 1, s8_EncodeAll = Some, s8_Decode = (\<lambda>w. Some [w]),
     s8_Bytes = (\<lambda>vs. Some (put_words vs)), s8_ReadAll = read_words, snappy_Encode = id, snappy_Decode = Some,
     bit_Write = (\<lambda>u n. map (bit u) (rev [0..<n])),
     bit_Read = (\<lambda>n bs. if length bs < n then None else Some (foldl (\<lambda>a b. 2 * a + of_bool b) 0 (take n bs), drop n bs)),
     bit_Buffered = map (\<lambda>b. if b then 1 else 0), bit_Pack = map (\<lambda>b. if b then 1 else 0), bit_Unpack = map (\<lambda>w. w \<noteq> 0),
     bits_Clz = of_nat \<circ> clz_ref, bits_Ctz = of_nat \<circ> ctz_ref\<rparr>"

lemma filter_upt_sorted: "sorted (filter P [i..<j])"
  by (simp add: sorted_wrt_filter)

lemma sorted_le_last: "sorted xs \<Longrightarrow> x \<in> set xs \<Longrightarrow> x \<le> last xs" for x :: nat
  by (induction xs) fastforce+

lemma nonzero_bits: "v \<noteq> 0 \<Longrightarrow> filter (bit v) [0..<64] \<noteq> []" for v :: u64
proof
  assume "v \<noteq> 0" and "filter (bit v) [0..<64] = []"
  then have "\<forall>n < 64. \<not> bit v n" by (auto simp: filter_empty_conv)
  then have "v = 0" by (intro bit_eqI) auto
  with \<open>v \<noteq> 0\<close> show False by simp
qed

lemma ctz_ref:
  assumes "v \<noteq> 0"
  shows "ctz_ref v < 64" and "bit v (ctz_ref v)" and "n < ctz_ref v \<Longrightarrow> \<not> bit v n"
proof -
  let ?xs = "filter (bit v) [0..<64]"
  have ne: "?xs \<noteq> []" by (rule nonzero_bits [OF assms])
  then have c: "ctz_ref v = hd ?xs" by (simp add: ctz_ref_def)
  with hd_in_set [OF ne] show "ctz_ref v < 64" "bit v (ctz_ref v)" by auto
  show "\<not> bit v n" if "n < ctz_ref v"
  proof
    assume "bit v n"
    with that \<open>ctz_ref v < 64\<close> have "n \<in> set ?xs" by auto
    then have "hd ?xs \<le> n" using filter_upt_sorted [of "bit v" 0 64] ne
      by (cases ?xs) auto
    with that c show False by simp
  qed
qed

lemma clz_ref:
  assumes "v \<noteq> 0"
  shows "clz_ref v < 64" and "bit v (63 - clz_ref v)" and "64 - clz_ref v \<le> n \<Longrightarrow> \<not> bit v n"
proof -
  let ?xs = "filter (bit v) [0..<64]"
  have ne: "?xs \<noteq> []" by (rule nonzero_bits [OF assms])
  from last_in_set [OF ne] have l: "last ?xs < 64" "bit v (last ?xs)" by auto
  then show "clz_ref v < 64" "bit v (63 - clz_ref v)" by (simp_all add: clz_ref_def)
  show "\<not> bit v n" if "64 - clz_ref v \<le> n"
  proof
    assume b: "bit v n"
    then have "n < 64" using bit_imp_possible_bit by fastforce
    with b have "n \<in> set ?xs" by simp
    then have "n \<le> last ?xs" by (rule sorted_le_last [OF filter_upt_sorted])
    with that l show False by (simp add: clz_ref_def)
  qed
qed

lemma take_bit_Suc_word: "take_bit (Suc n) u = 2 ^ n * of_bool (bit u n) + take_bit n u" for u :: u64
proof -
  let ?h = "push_bit n (of_bool (bit u n)) :: u64"
  have "?h + take_bit n u = ?h OR take_bit n u"
    by (rule disjunctive_add_eq_or) (rule bit_eqI, auto simp: bit_simps)
  moreover have "take_bit (Suc n) u = ?h OR take_bit n u"
    by (rule bit_eqI) (auto simp: bit_simps less_Suc_eq)
  ultimately show ?thesis by (cases "bit u n") (simp_all add: push_bit_eq_mult)
qed

lemma foldl_bits: "foldl (\<lambda>a b. 2 * a + of_bool b) a (map (bit u) (rev [0..<n])) = 2 ^ n * a + take_bit n u" for u :: u64
  by (induction n arbitrary: a) (simp_all add: take_bit_Suc_word algebra_simps)

lemma simple_libs_ok: "libs_ok simple_libs"
proof -
  have "unat (of_nat (ctz_ref v) :: u64) = ctz_ref v" "unat (of_nat (clz_ref v) :: u64) = clz_ref v" if "v \<noteq> 0" for v
    using ctz_ref(1) [OF that] clz_ref(1) [OF that] by (simp_all add: unat_of_nat_small)
  with ctz_ref clz_ref have bits: "of_nat (clz_ref v) < (64 :: u64) \<and> bit v (63 - unat (of_nat (clz_ref v) :: u64)) \<and>
        (\<forall>n. 64 - unat (of_nat (clz_ref v) :: u64) \<le> n \<longrightarrow> \<not> bit v n) \<and>
        of_nat (ctz_ref v) < (64 :: u64) \<and> bit v (unat (of_nat (ctz_ref v) :: u64)) \<and>
        (\<forall>n < unat (of_nat (ctz_ref v) :: u64). \<not> bit v n)" if "v \<noteq> 0" for v
    using that by (simp add: word_less_nat_alt)
  have s8: "\<exists>vss. map (\<lambda>w. Some [w]) vs = map Some vss \<and> concat vss = vs \<and> (\<forall>us\<in>set vss. us \<noteq> [] \<and> length us \<le> 240)"
    for vs :: "u64 list"
    by (rule exI [of _ "map (\<lambda>w. [w]) vs"]) (simp add: concat_map_singleton)
  have pack: "\<exists>n. map (\<lambda>w. w \<noteq> 0) (map (\<lambda>b. if b then 1 else 0 :: byte) bs) = bs @ replicate n False" for bs
    by (rule exI [of _ 0]) (simp add: comp_def)
  from bits s8 pack foldl_bits [of 0] show ?thesis by (simp add: libs_ok_def simple_libs_def)
qed

section \<open>Decoders as iterators\<close>

text \<open>
  A decoder is read by calling \<open>Next\<close> until it answers false, and \<open>Read\<close> after each true answer;
  both may change the decoder.  \<open>yields\<close> says that this gives the listed values and no error.
\<close>

type_synonym 's next_op = "'s \<Rightarrow> ('s \<times> bool) tsm"
type_synonym ('s, 'v) read_op = "'s \<Rightarrow> ('s \<times> 'v) tsm"

primrec yields :: "'s next_op \<Rightarrow> ('s, 'v) read_op \<Rightarrow> ('s \<Rightarrow> tsm_error option) \<Rightarrow> 's \<Rightarrow> 'v list \<Rightarrow> bool" where
  "yields nx rd er s [] \<longleftrightarrow> er s = None \<and> (\<exists>s'. nx s = Inr (s', False) \<and> er s' = None)"
| "yields nx rd er s (x # xs) \<longleftrightarrow> er s = None \<and>
     (\<exists>s' s''. nx s = Inr (s', True) \<and> er s' = None \<and> rd s' = Inr (s'', x) \<and> yields nx rd er s'' xs)"

text \<open>The loop \<open>for d.Next() { vs = append(vs, d.Read()) }\<close>, with fuel.\<close>

fun read_all :: "'s next_op \<Rightarrow> ('s, 'v) read_op \<Rightarrow> nat \<Rightarrow> 's \<Rightarrow> ('v list tsm) option" where
  "read_all nx rd 0 s = None"
| "read_all nx rd (Suc n) s =
     (case nx s of
        Inl e \<Rightarrow> Some (Inl e)
      | Inr (s', False) \<Rightarrow> Some (Inr [])
      | Inr (s', True) \<Rightarrow>
          (case rd s' of
             Inl e \<Rightarrow> Some (Inl e)
           | Inr (s'', v) \<Rightarrow>
               (case read_all nx rd n s'' of
                  Some (Inr vs) \<Rightarrow> Some (Inr (v # vs))
                | r \<Rightarrow> r)))"

lemma read_all_yields:
  "yields nx rd er s vs \<Longrightarrow> length vs < n \<Longrightarrow> read_all nx rd n s = Some (Inr vs)"
proof (induction vs arbitrary: s n)
  case Nil
  then show ?case by (cases n) auto
next
  case (Cons v vs)
  then obtain m where n: "n = Suc m" by (cases n) auto
  from Cons.prems(1) obtain s' s'' where "nx s = Inr (s', True)" "rd s' = Inr (s'', v)" "yields nx rd er s'' vs" by auto
  with Cons.IH [of s'' m] Cons.prems(2) n show ?case by simp
qed

text \<open>
  The contract of a column codec: for every column that is \<open>ok\<close>, encoding succeeds and a decoder
  made from the bytes yields the column.
\<close>

locale column_codec =
  fixes ok :: "'v list \<Rightarrow> bool"
    and enc :: "'v list \<Rightarrow> byte list tsm"
    and mk :: "byte list \<Rightarrow> 's tsm"
    and nx :: "'s next_op"
    and rd :: "('s, 'v) read_op"
    and er :: "'s \<Rightarrow> tsm_error option"
  assumes decodes: "ok vs \<Longrightarrow> \<exists>b s. enc vs = Inr b \<and> mk b = Inr s \<and> yields nx rd er s vs"
begin

lemma roundtrip:
  assumes "ok vs" and "length vs < n"
  shows "\<exists>b s. enc vs = Inr b \<and> mk b = Inr s \<and> read_all nx rd n s = Some (Inr vs)"
proof -
  from decodes [OF assms(1)] obtain b s where "enc vs = Inr b" "mk b = Inr s" "yields nx rd er s vs" by auto
  with read_all_yields [of nx rd er s vs n] assms(2) show ?thesis by auto
qed

end

end
