(* ===== verification/TSM_Time.thy ===== *)
theory TSM_Time
  imports TSM_Iter
begin

text \<open>
  The timestamp codec (\<open>tsm1/timestamp.go\<close>): timestamps are stored as differences, run-length
  encoded if the differences are all equal, packed by \<open>simple8b\<close> after division by a common power
  of ten, or raw.  Decoding gives back every list of timestamps, sorted or not.
  The logarithm and power of ten of the source are floating-point operations applied to powers of
  ten up to \<open>10^12\<close> only, where they are exact; they are integer functions here.
\<close>

section \<open>The encoder\<close>

type_synonym time_encoder = "u64 list"

definition encoder_Write :: "time \<Rightarrow> time_encoder \<Rightarrow> time_encoder" where
  "encoder_Write t e = e @ [word_of_int (time_UnixNano t)]"

text \<open>The inner loop of \<open>reduce\<close>: the divisor is divided by ten until it divides the value.\<close>

function shrink :: "u64 \<Rightarrow> u64 \<Rightarrow> u64" where
  "shrink v divisor = (if divisor = 0 \<or> v mod divisor = 0 then divisor else shrink v (divisor div 10))"
  by auto
termination
proof (relation "measure (unat \<circ> snd)", goal_cases)
  case (2 v d)
  then have "0 < unat d" by (simp add: unat_gt_0)
  then show ?case by (simp add: unat_div)
qed simp

declare shrink.simps [simp del]

fun reduce_loop :: "nat \<Rightarrow> u64 list \<Rightarrow> u64 \<times> u64 \<times> bool \<Rightarrow> u64 list \<times> u64 \<times> u64 \<times> bool" where
  "reduce_loop 0 deltas st = (deltas, st)"
| "reduce_loop (Suc j) deltas (mx, divisor, rle) =
     (let i = Suc j;
          deltas' = deltas[i := deltas ! i - deltas ! (i - 1)];
          v = deltas' ! i
      in reduce_loop j deltas'
           (if v > mx then v else mx,
            shrink v divisor,
            i = length deltas' - 1 \<or> rle \<and> deltas' ! (i + 1) = deltas' ! i))"

definition encoder_reduce :: "time_encoder \<Rightarrow> u64 list \<times> u64 \<times> u64 \<times> bool" where
  "encoder_reduce e = reduce_loop (length e - 1) e (0, 10 ^ 12, True)"

function log10 :: "u64 \<Rightarrow> nat" where
  "log10 d = (if d < 10 then 0 else Suc (log10 (d div 10)))"
  by auto
termination
proof (relation "measure unat", goal_cases)
  case (2 d)
  then have "0 < unat d" by (simp add: word_less_nat_alt not_less)
  then show ?case by (simp add: unat_div)
qed simp

declare log10.simps [simp del]

definition timeUncompressed :: byte where "timeUncompressed = 0"
definition timeCompressedPackedSimple :: byte where "timeCompressedPackedSimple = 1"
definition timeCompressedRLE :: byte where "timeCompressedRLE = 2"

definition encoder_encodePacked :: "tsm_libs \<Rightarrow> u64 \<Rightarrow> u64 list \<Rightarrow> byte list tsm" where
  "encoder_encodePacked L dv dts =
     (case s8_Bytes L (map (\<lambda>v. v div dv) (tl dts)) of
        None \<Rightarrow> Inl Simple8bError
      | Some deltas \<Rightarrow>
          Inr ([push_bit 4 timeCompressedPackedSimple OR of_nat (log10 dv)] @ PutUint64 (hd dts) @ deltas))"

definition encoder_encodeRaw :: "u64 list \<Rightarrow> byte list tsm" where
  "encoder_encodeRaw ts = Inr (push_bit 4 timeUncompressed # put_words ts)"

definition encoder_encodeRLE :: "u64 \<Rightarrow> u64 \<Rightarrow> u64 \<Rightarrow> nat \<Rightarrow> byte list tsm" where
  "encoder_encodeRLE first delta dv n =
     Inr ([push_bit 4 timeCompressedRLE OR of_nat (log10 dv)] @ PutUint64 first @ PutUvarint (delta div dv) @
       PutUvarint (of_nat n))"

text \<open>\<open>Bytes\<close> overwrites the timestamps of the encoder with their differences.\<close>

definition encoder_Bytes :: "tsm_libs \<Rightarrow> time_encoder \<Rightarrow> time_encoder \<times> byte list tsm" where
  "encoder_Bytes L e =
     (if length e = 0 then (e, Inr [])
      else case encoder_reduce e of
        (dts, mx, dv, rle) \<Rightarrow>
          (dts,
           if rle \<and> length dts > 1 then encoder_encodeRLE (dts ! 0) (dts ! 1) dv (length dts)
           else if mx > s8_MaxValue L then encoder_encodeRaw dts
           else encoder_encodePacked L dv dts))"

section \<open>The decoder\<close>

record decoder =
  td_v :: time
  td_ts :: "u64 list"
  td_err :: "tsm_error option"

text \<open>The loops that add up differences.\<close>

fun prefix_sums :: "u64 \<Rightarrow> u64 list \<Rightarrow> u64 list" where
  "prefix_sums acc [] = [acc]"
| "prefix_sums acc (d # ds) = acc # prefix_sums (acc + d) ds"

definition decoder_decodePacked :: "tsm_libs \<Rightarrow> byte list \<Rightarrow> decoder \<Rightarrow> decoder tsm" where
  "decoder_decodePacked L b d =
     (if length b < 9 then Inl PanicRange
      else let dv = 10 ^ unat (hd b AND 0xF);
               first = Uint64 (take 8 (drop 1 b));
               deltas = s8_ReadAll L (drop 9 b)
           in Inr (d\<lparr>td_ts := prefix_sums first (map (\<lambda>x. x * dv) deltas)\<rparr>))"

definition decoder_decodeRLE :: "byte list \<Rightarrow> decoder \<Rightarrow> decoder tsm" where
  "decoder_decodeRLE b d =
     (if length b < 9 then Inl PanicRange
      else let md = 10 ^ unat (hd b AND 0xF);
               first = Uint64 (take 8 (drop 1 b))
           in case Uvarint (drop 9 b) of
                (value, n) \<Rightarrow>
                  (case slice_from (9 + n) b of
                     Inl e \<Rightarrow> Inl e
                   | Inr rest \<Rightarrow>
                       (let count = fst (Uvarint rest) in
                        if count = 0 \<or> sint count < 0 then Inl PanicRange
                        else Inr (d\<lparr>td_ts := prefix_sums first (replicate (unat count - 1) (value * md))\<rparr>))))"

definition decoder_decodeRaw :: "byte list \<Rightarrow> decoder \<Rightarrow> decoder" where
  "decoder_decodeRaw b d =
     d\<lparr>td_ts := (case read_words b of [] \<Rightarrow> [] | w # ws \<Rightarrow> prefix_sums w ws)\<rparr>"

definition decoder_decode :: "tsm_libs \<Rightarrow> byte list \<Rightarrow> decoder \<Rightarrow> decoder tsm" where
  "decoder_decode L b d =
     (if length b = 0 then Inr d
      else let encoding = drop_bit 4 (hd b) in
        if encoding = timeUncompressed then Inr (decoder_decodeRaw (tl b) d)
        else if encoding = timeCompressedRLE then decoder_decodeRLE b d
        else if encoding = timeCompressedPackedSimple then decoder_decodePacked L b d
        else Inr (d\<lparr>td_err := Some UnknownEncoding\<rparr>))"

definition NewTimeDecoder :: "tsm_libs \<Rightarrow> byte list \<Rightarrow> decoder tsm" where
  "NewTimeDecoder L b = decoder_decode L b \<lparr>td_v = 0, td_ts = [], td_err = None\<rparr>"

definition decoder_Next :: "decoder \<Rightarrow> decoder \<times> bool" where
  "decoder_Next d =
     (case td_ts d of
        [] \<Rightarrow> (d, False)
      | t # ts \<Rightarrow> (d\<lparr>td_v := time_Unix0 (sint t), td_ts := ts\<rparr>, True))"

definition decoder_Read :: "decoder \<Rightarrow> time" where
  "decoder_Read d = td_v d"

section \<open>Powers of ten\<close>

lemma unat_ten_pow: "k \<le> 12 \<Longrightarrow> unat (10 ^ k :: u64) = 10 ^ k"
proof -
  assume "k \<le> 12"
  then have "(10::nat) ^ k \<le> 10 ^ 12" by (intro power_increasing) simp_all
  then have "(10::nat) ^ k < 2 ^ 63" by simp
  from unat_of_nat_small [OF this] show ?thesis by simp
qed

lemma ten_pow_div: "Suc k \<le> 12 \<Longrightarrow> (10 ^ Suc k :: u64) div 10 = 10 ^ k"
  by (rule word_unat_eq_iff [THEN iffD2]) (simp add: unat_div unat_ten_pow del: power_Suc, simp)

lemma ten_pow_nonzero: "k \<le> 12 \<Longrightarrow> (10 ^ k :: u64) \<noteq> 0"
  using unat_ten_pow [of k] by (metis unat_0 power_not_zero zero_neq_numeral)

lemma shrink_ten_pow:
  assumes "m \<le> 12"
  shows "\<exists>k \<le> m. shrink v (10 ^ m) = 10 ^ k \<and> 10 ^ k dvd unat v"
  using assms
proof (induction m)
  case 0
  then show ?case by (simp add: shrink.simps)
next
  case (Suc m)
  show ?case
  proof (cases "v mod 10 ^ Suc m = 0")
    case True
    then have "unat v mod 10 ^ Suc m = 0"
      using unat_ten_pow [of "Suc m"] Suc.prems by (metis unat_0 unat_mod)
    then have "10 ^ Suc m dvd unat v" by (simp add: dvd_eq_mod_eq_0)
    then show ?thesis using True by (intro exI [of _ "Suc m"]) (simp add: shrink.simps)
  next
    case False
    with ten_pow_nonzero [of "Suc m"] Suc.prems have "shrink v (10 ^ Suc m) = shrink v (10 ^ m)"
      using ten_pow_div [of m] by (subst shrink.simps) simp
    with Suc.IH Suc.prems show ?thesis by (metis Suc_leD le_Suc_eq)
  qed
qed

lemma log10_ten_pow: "k \<le> 12 \<Longrightarrow> log10 (10 ^ k) = k"
proof (induction k)
  case (Suc k)
  have "unat (10 ^ Suc k :: u64) = 10 ^ Suc k" using Suc.prems by (rule unat_ten_pow)
  then have "\<not> (10 ^ Suc k :: u64) < 10" by (simp add: word_less_nat_alt del: power_Suc) simp
  then have "log10 (10 ^ Suc k) = Suc (log10 (10 ^ k))"
    using ten_pow_div [of k] Suc.prems by (subst log10.simps) simp
  with Suc show ?case by simp
qed (simp add: log10.simps)

lemma div_mult_ten_pow:
  assumes "k \<le> 12" and "10 ^ k dvd unat v"
  shows "v div 10 ^ k * 10 ^ k = (v :: u64)"
proof -
  have "unat (v mod 10 ^ k) = 0" using assms by (simp add: unat_mod unat_ten_pow dvd_imp_mod_0)
  then have "v mod 10 ^ k = 0" by (simp add: word_unat_eq_iff)
  then show ?thesis using div_mult_mod_eq [of v "10 ^ k"] by simp
qed

text \<open>The first byte of a block: the encoding above, the logarithm below.\<close>

lemma header_byte:
  assumes "k \<le> 12" and "t \<in> {1, 2}"
  shows "drop_bit 4 (push_bit 4 t OR of_nat k :: byte) = t" and "unat ((push_bit 4 t OR of_nat k :: byte) AND 0xF) = k"
proof -
  have "k \<in> {0, 1, 2, 3, 4, 5, 6, 7, 8, 9, 10, 11, 12}" using assms(1) by simp presburger
  with assms(2) show "drop_bit 4 (push_bit 4 t OR of_nat k :: byte) = t" "unat ((push_bit 4 t OR of_nat k :: byte) AND 0xF) = k"
    by auto
qed

section \<open>Differences\<close>

definition diffs :: "u64 list \<Rightarrow> u64 list" where
  "diffs ts = map2 (-) (tl ts) ts"

lemma length_diffs [simp]: "length (diffs ts) = length ts - 1"
  by (simp add: diffs_def)

lemma prefix_sums_diffs: "ts \<noteq> [] \<Longrightarrow> prefix_sums (hd ts) (diffs ts) = ts"
proof (induction ts)
  case (Cons t ts)
  then show ?case by (cases ts) (auto simp: diffs_def)
qed simp

lemma diffs_nth: "Suc i < length ts \<Longrightarrow> diffs ts ! i = ts ! Suc i - ts ! i"
  by (simp add: diffs_def nth_tl)

lemma reduce_loop_diffs:
  fixes ts :: "u64 list"
  defines "D \<equiv> hd ts # diffs ts"
  assumes "j < length ts" and "ds = take (Suc j) ts @ drop (Suc j) D" and "k \<le> 12"
    and "\<forall>i. j < i \<and> i < length ts \<longrightarrow> D ! i \<le> mx \<and> 10 ^ k dvd unat (D ! i) \<and> (rle \<longrightarrow> D ! i = last D)"
  shows "\<exists>mx' k' rle'. reduce_loop j ds (mx, 10 ^ k, rle) = (D, mx', 10 ^ k', rle') \<and> k' \<le> 12 \<and>
    (\<forall>i. 0 < i \<and> i < length ts \<longrightarrow> D ! i \<le> mx' \<and> 10 ^ k' dvd unat (D ! i) \<and> (rle' \<longrightarrow> D ! i = last D))"
  using assms(2-)
proof (induction j arbitrary: ds mx k rle)
  case 0
  then have "ds = D" by (cases ts) (auto simp: D_def)
  with 0 show ?case by auto
next
  case (Suc j)
  have len: "length D = length ts" using Suc.prems(1) by (cases ts) (simp_all add: D_def)
  have Dj: "D ! Suc j = ts ! Suc j - ts ! j" using Suc.prems(1) by (simp add: D_def diffs_nth)
  let ?ds = "ds[Suc j := ds ! Suc j - ds ! j]"
  have dsl: "length ds = length ts" using Suc.prems(1,2) len by simp
  have nth: "ds ! i = (if i \<le> Suc j then ts ! i else D ! i)" if "i < length ts" for i
  proof -
    define n where "n = Suc (Suc j)"
    with Suc.prems(1,2) have "ds = take n ts @ drop n D" "n \<le> length ts" by simp_all
    then have "ds ! i = (if i < n then ts ! i else D ! i)" using that len by (simp add: nth_append)
    then show ?thesis by (simp add: n_def less_Suc_eq_le)
  qed
  have ds': "?ds = take (Suc j) ts @ drop (Suc j) D"
  proof (rule nth_equalityI)
    show "length ?ds = length (take (Suc j) ts @ drop (Suc j) D)" using dsl len Suc.prems(1) by simp
    fix i assume "i < length ?ds"
    then show "?ds ! i = (take (Suc j) ts @ drop (Suc j) D) ! i"
      using nth Dj dsl len Suc.prems(1) by (cases "i = Suc j") (auto simp: nth_append nth_list_update)
  qed
  have v: "?ds ! Suc j = D ! Suc j" using nth Dj dsl Suc.prems(1) by simp
  obtain k' where k': "k' \<le> k" "shrink (D ! Suc j) (10 ^ k) = 10 ^ k'" "10 ^ k' dvd unat (D ! Suc j)"
    using shrink_ten_pow [OF Suc.prems(3)] by blast
  have dvd: "10 ^ k' dvd unat (D ! i)" if "j < i" "i < length ts" for i
    using that k' Suc.prems(4) le_imp_power_dvd [OF k'(1), of "10 :: nat"] by (cases "i = Suc j") (auto intro: dvd_trans)
  have "D \<noteq> []" by (simp add: D_def)
  then have last: "D ! (length ts - 1) = last D" using len by (simp add: last_conv_nth)
  let ?rle = "Suc j = length ?ds - 1 \<or> rle \<and> ?ds ! (Suc j + 1) = ?ds ! Suc j"
  have eq: "D ! i = last D" if "?rle" "j < i" "i < length ts" for i
  proof (cases "Suc j = length ts - 1")
    case True
    with that have "i = length ts - 1" by simp
    with last show ?thesis by simp
  next
    case False
    with that dsl have rle: "rle" "?ds ! (Suc j + 1) = ?ds ! Suc j" by simp_all
    have "Suc (Suc j) < length ts" using False Suc.prems(1) by simp
    with rle nth dsl v have "D ! Suc (Suc j) = D ! Suc j" by simp
    with rle Suc.prems(4) that \<open>Suc (Suc j) < length ts\<close> show ?thesis by (cases "i = Suc j") auto
  qed
  have "\<forall>i. j < i \<and> i < length ts \<longrightarrow> D ! i \<le> (if D ! Suc j > mx then D ! Suc j else mx) \<and> 10 ^ k' dvd unat (D ! i) \<and>
      (?rle \<longrightarrow> D ! i = last D)"
  proof (intro allI impI conjI)
    fix i assume i: "j < i \<and> i < length ts"
    then have "i = Suc j \<or> D ! i \<le> mx" using Suc.prems(4) [rule_format, of i] by linarith
    then show "D ! i \<le> (if D ! Suc j > mx then D ! Suc j else mx)" by auto
    from i dvd show "10 ^ k' dvd unat (D ! i)" by simp
    assume ?rle
    with i eq show "D ! i = last D" by blast
  qed
  from Suc.IH [OF _ ds' _ this] k'(1) Suc.prems(1,3) k'(2) v show ?case by (simp add: Let_def cong: if_cong split del: if_split)
qed

lemma encoder_reduce_diffs:
  assumes "ts \<noteq> []"
  obtains mx k rle where "encoder_reduce ts = (hd ts # diffs ts, mx, 10 ^ k, rle)" and "k \<le> 12"
    and "\<forall>d\<in>set (diffs ts). d \<le> mx \<and> 10 ^ k dvd unat d" and "rle \<longrightarrow> diffs ts = replicate (length ts - 1) (hd (diffs ts))"
proof -
  let ?D = "hd ts # diffs ts"
  have "\<exists>mx' k' rle'. reduce_loop (length ts - 1) ts (0, 10 ^ 12, True) = (?D, mx', 10 ^ k', rle') \<and> k' \<le> 12 \<and>
    (\<forall>i. 0 < i \<and> i < length ts \<longrightarrow> ?D ! i \<le> mx' \<and> 10 ^ k' dvd unat (?D ! i) \<and> (rle' \<longrightarrow> ?D ! i = last ?D))"
    using assms by (intro reduce_loop_diffs) auto
  then obtain mx k rle where r: "encoder_reduce ts = (?D, mx, 10 ^ k, rle)" "k \<le> 12"
    and all: "\<forall>i. 0 < i \<and> i < length ts \<longrightarrow> ?D ! i \<le> mx \<and> 10 ^ k dvd unat (?D ! i) \<and> (rle \<longrightarrow> ?D ! i = last ?D)"
    unfolding encoder_reduce_def by blast
  have d: "d \<le> mx \<and> 10 ^ k dvd unat d \<and> (rle \<longrightarrow> d = last ?D)" if "d \<in> set (diffs ts)" for d
  proof -
    from that obtain i where "i < length (diffs ts)" "d = diffs ts ! i" by (auto simp: in_set_conv_nth)
    with all [rule_format, of "Suc i"] show ?thesis by auto
  qed
  have "diffs ts = replicate (length ts - 1) (hd (diffs ts))" if rle
  proof (cases "diffs ts")
    case Nil
    then show ?thesis using length_diffs [of ts] by simp
  next
    case (Cons x xs)
    have "y = x" if "y \<in> set (diffs ts)" for y
      using d [OF that] d [of x] \<open>rle\<close> Cons by simp
    then show ?thesis using Cons length_diffs [of ts] by (metis list.sel(1) replicate_length_same)
  qed
  with r d show thesis by (intro that [of mx k rle]) auto
qed

section \<open>Round trip\<close>

lemma decode_RLE:
  assumes "k \<le> 12" and "10 ^ k dvd unat delta" and "0 < n" and "n < 2 ^ 63"
  shows "NewTimeDecoder L ([push_bit 4 timeCompressedRLE OR of_nat k] @ PutUint64 first @ PutUvarint (delta div 10 ^ k) @
      PutUvarint (of_nat n)) = Inr \<lparr>td_v = 0, td_ts = prefix_sums first (replicate (n - 1) delta), td_err = None\<rparr>"
    (is "NewTimeDecoder L ([?h] @ ?f @ ?d @ ?n) = _")
proof -
  have h: "drop_bit 4 ?h = timeCompressedRLE" "unat (?h AND 0xF) = k"
    using header_byte [OF assms(1), of 2] by (simp_all add: timeCompressedRLE_def)
  have cnt: "sint (of_nat n :: u64) \<ge> 0" "(of_nat n :: u64) \<noteq> 0" "unat (of_nat n :: u64) = n"
    using assms(3,4) sint_of_nat_small [of n] unat_of_nat_small [of n] by auto
  have "Uvarint (?d @ ?n) = (delta div 10 ^ k, int (length ?d))" "Uvarint ?n = (of_nat n, int (length ?n))"
    using Uvarint_PutUvarint [of "of_nat n" "[]"] by simp_all
  moreover have "slice_from (9 + int (length ?d)) ([?h] @ ?f @ ?d @ ?n) = Inr ?n"
    using slice_from_append [of "9 + int (length ?d)" "[?h] @ ?f @ ?d" ?n] by simp
  ultimately have "decoder_decodeRLE ([?h] @ ?f @ ?d @ ?n) d =
      Inr (d\<lparr>td_ts := prefix_sums first (replicate (n - 1) (delta div 10 ^ k * 10 ^ k))\<rparr>)" for d
    using h cnt by (simp add: decoder_decodeRLE_def)
  then show ?thesis
    using h div_mult_ten_pow [OF assms(1,2)]
    by (simp add: NewTimeDecoder_def decoder_decode_def timeCompressedRLE_def timeUncompressed_def)
qed

lemma decode_packed:
  assumes "k \<le> 12" and "\<forall>d\<in>set ds. 10 ^ k dvd unat d" and "s8_ReadAll L db = map (\<lambda>d. d div 10 ^ k) ds"
  shows "NewTimeDecoder L ([push_bit 4 timeCompressedPackedSimple OR of_nat k] @ PutUint64 first @ db) =
    Inr \<lparr>td_v = 0, td_ts = prefix_sums first ds, td_err = None\<rparr>"
proof -
  let ?h = "push_bit 4 timeCompressedPackedSimple OR of_nat k :: byte"
  have h: "drop_bit 4 ?h = timeCompressedPackedSimple" "unat (?h AND 0xF) = k"
    using header_byte [OF assms(1), of 1] by (simp_all add: timeCompressedPackedSimple_def)
  have "map (\<lambda>x. x * 10 ^ k) (map (\<lambda>d. d div 10 ^ k) ds) = ds"
    using assms(1,2) by (simp add: comp_def div_mult_ten_pow map_idI)
  with h assms(3) show ?thesis
    by (simp add: NewTimeDecoder_def decoder_decode_def decoder_decodePacked_def timeCompressedPackedSimple_def
        timeCompressedRLE_def timeUncompressed_def)
qed

lemma u64_div_le: "v div d \<le> v" for v d :: u64
  by (simp add: word_le_nat_alt unat_div)

lemma time_encode_decode:
  assumes L: "libs_ok L" and len: "length ts < 2 ^ 63"
  shows "\<exists>b. snd (encoder_Bytes L ts) = Inr b \<and> NewTimeDecoder L b = Inr \<lparr>td_v = 0, td_ts = ts, td_err = None\<rparr>"
proof (cases "ts = []")
  case True
  then show ?thesis by (simp add: encoder_Bytes_def NewTimeDecoder_def decoder_decode_def)
next
  case False
  from False obtain mx k rle where r: "encoder_reduce ts = (hd ts # diffs ts, mx, 10 ^ k, rle)" "k \<le> 12"
      and d: "\<forall>d\<in>set (diffs ts). d \<le> mx \<and> 10 ^ k dvd unat d"
      and rle_eq: "rle \<longrightarrow> diffs ts = replicate (length ts - 1) (hd (diffs ts))"
    by (rule encoder_reduce_diffs)
  have lg: "log10 (10 ^ k) = k" using r(2) by (rule log10_ten_pow)
  have l: "length (hd ts # diffs ts) = length ts" using False by (cases ts) simp_all
  have ps: "prefix_sums (hd ts) (diffs ts) = ts" using False by (rule prefix_sums_diffs)
  consider (rle) "rle" "1 < length ts" | (raw) "\<not> (rle \<and> 1 < length ts)" "s8_MaxValue L < mx"
    | (packed) "\<not> (rle \<and> 1 < length ts)" "mx \<le> s8_MaxValue L" by fastforce
  then show ?thesis
  proof cases
    case rle
    then have ne: "diffs ts \<noteq> []" using length_diffs [of ts] by (metis length_0_conv less_numeral_extra(3) zero_less_diff)
    then have "10 ^ k dvd unat (hd (diffs ts))" using d by simp
    from decode_RLE [OF r(2) this, of "length ts" L "hd ts"] False len ps rle(1) rle_eq
    have "NewTimeDecoder L ([push_bit 4 timeCompressedRLE OR of_nat k] @ PutUint64 (hd ts) @
        PutUvarint (hd (diffs ts) div 10 ^ k) @ PutUvarint (of_nat (length ts))) = Inr \<lparr>td_v = 0, td_ts = ts, td_err = None\<rparr>"
      by simp
    with rle r l lg False ne show ?thesis
      by (simp add: encoder_Bytes_def encoder_encodeRLE_def hd_conv_nth)
  next
    case raw
    then have "snd (encoder_Bytes L ts) = Inr (push_bit 4 timeUncompressed # put_words (hd ts # diffs ts))"
      using r l False by (auto simp: encoder_Bytes_def encoder_encodeRaw_def)
    moreover have "NewTimeDecoder L (push_bit 4 timeUncompressed # put_words (hd ts # diffs ts)) =
        Inr \<lparr>td_v = 0, td_ts = ts, td_err = None\<rparr>"
      using ps by (simp add: NewTimeDecoder_def decoder_decode_def decoder_decodeRaw_def timeUncompressed_def
          del: put_words_simps)
    ultimately show ?thesis by simp
  next
    case packed
    have "v div 10 ^ k \<le> s8_MaxValue L" if "v \<in> set (diffs ts)" for v
      using d packed(2) that u64_div_le [of v "10 ^ k"] by (metis order_trans)
    then have "\<forall>v\<in>set (map (\<lambda>v. v div 10 ^ k) (diffs ts)). v \<le> s8_MaxValue L" by simp
    with L obtain b where b: "s8_Bytes L (map (\<lambda>v. v div 10 ^ k) (diffs ts)) = Some b"
        "s8_ReadAll L b = map (\<lambda>v. v div 10 ^ k) (diffs ts)"
      unfolding libs_ok_def by blast
    with packed r l lg False d decode_packed [OF r(2) _ b(2), of "hd ts"] ps show ?thesis
      by (auto simp: encoder_Bytes_def encoder_encodePacked_def)
  qed
qed

section \<open>The codec\<close>

definition nano_range :: "time \<Rightarrow> bool" where
  "nano_range t \<longleftrightarrow> is_int64 (t - unix_epoch)"

definition time_encode :: "tsm_libs \<Rightarrow> time list \<Rightarrow> byte list tsm" where
  "time_encode L ts = snd (encoder_Bytes L (fold encoder_Write ts []))"

lemma fold_encoder_Write: "fold encoder_Write ts e = e @ map (\<lambda>t. word_of_int (time_UnixNano t)) ts"
  by (induction ts arbitrary: e) (simp_all add: encoder_Write_def)

lemma time_of_nano_word: "nano_range t \<Longrightarrow> time_Unix0 (sint (word_of_int (time_UnixNano t) :: u64)) = t"
proof -
  assume "nano_range t"
  moreover define n where "n = t - unix_epoch"
  ultimately have "is_int64 n" "time_UnixNano t = n" by (simp_all add: nano_range_def time_UnixNano_def to_int64_id)
  then show ?thesis by (simp add: time_Unix0_def int_word_sint is_int64_def) (simp add: n_def)
qed

lemma decoder_yields:
  assumes "\<forall>t\<in>set ts. nano_range t" and "td_ts d = map (\<lambda>t. word_of_int (time_UnixNano t)) ts" and "td_err d = None"
  shows "yields (Inr \<circ> decoder_Next) (\<lambda>d. Inr (d, decoder_Read d)) td_err d ts"
  using assms by (induction ts arbitrary: d) (auto simp: decoder_Next_def decoder_Read_def time_of_nano_word)

interpretation time_codec: column_codec
  "\<lambda>ts. libs_ok L \<and> length ts < 2 ^ 63 \<and> (\<forall>t\<in>set ts. nano_range t)" "time_encode L" "NewTimeDecoder L"
  "Inr \<circ> decoder_Next" "\<lambda>d. Inr (d, decoder_Read d)" td_err for L
proof unfold_locales
  fix ts
  assume ok: "libs_ok L \<and> length ts < 2 ^ 63 \<and> (\<forall>t\<in>set ts. nano_range t)"
  let ?ts = "map (\<lambda>t. word_of_int (time_UnixNano t)) ts :: u64 list"
  from ok time_encode_decode [of L ?ts] obtain b where b: "time_encode L ts = Inr b"
      "NewTimeDecoder L b = Inr \<lparr>td_v = 0, td_ts = ?ts, td_err = None\<rparr>"
    by (auto simp: time_encode_def fold_encoder_Write)
  with ok show "\<exists>b s. time_encode L ts = Inr b \<and> NewTimeDecoder L b = Inr s \<and>
      yields (Inr \<circ> decoder_Next) (\<lambda>d. Inr (d, decoder_Read d)) td_err s ts"
    by (auto intro!: decoder_yields)
qed

end
