(* ===== verification/TSM_Bool.thy ===== *)
theory TSM_Bool
  imports TSM_Iter "HOL-Library.Signed_Division"
begin

text \<open>
  The boolean codec (\<open>tsm1/bool.go\<close>): eight values in a byte, the first in the highest bit, after
  a header and the number of values.
\<close>

section \<open>The encoder\<close>

record boolEncoder =
  be_bytes :: "byte list"
  be_b :: byte
  be_i :: nat
  be_n :: nat

definition NewBoolEncoder :: boolEncoder where
  "NewBoolEncoder = \<lparr>be_bytes = [], be_b = 0, be_i = 0, be_n = 0\<rparr>"

function pad_byte :: "byte \<Rightarrow> nat \<Rightarrow> byte \<times> nat" where
  "pad_byte b i = (if i < 8 then pad_byte (push_bit 1 b) (i + 1) else (b, i))"
  by auto
termination by (relation "measure (\<lambda>(b, i). 8 - i)") auto

declare pad_byte.simps [simp del]

definition boolEncoder_flush :: "boolEncoder \<Rightarrow> boolEncoder" where
  "boolEncoder_flush e =
     (case pad_byte (be_b e) (be_i e) of
        (b, i) \<Rightarrow> if i > 0 then e\<lparr>be_bytes := be_bytes e @ [b], be_b := 0, be_i := 0\<rparr> else e\<lparr>be_b := b, be_i := i\<rparr>)"

definition boolEncoder_Write :: "bool \<Rightarrow> boolEncoder \<Rightarrow> boolEncoder" where
  "boolEncoder_Write b e =
     (let e1 = (if be_i e \<ge> 8 then boolEncoder_flush e else e);
          b1 = push_bit 1 (be_b e1)
      in e1\<lparr>be_b := (if b then b1 OR 1 else b1), be_i := be_i e1 + 1, be_n := be_n e1 + 1\<rparr>)"

definition boolCompressedBitPacked :: byte where "boolCompressedBitPacked = 1"

definition boolEncoder_Bytes :: "boolEncoder \<Rightarrow> boolEncoder \<times> byte list tsm" where
  "boolEncoder_Bytes e =
     (let e1 = boolEncoder_flush e in
      (e1, Inr ([push_bit 4 boolCompressedBitPacked] @ PutUvarint (of_nat (be_n e1)) @ be_bytes e1)))"

section \<open>The decoder\<close>

record boolDecoder =
  bd_b :: "byte list"
  bd_i :: int
  bd_n :: int
  bd_err :: "tsm_error option"

definition NewBoolDecoder :: "byte list \<Rightarrow> boolDecoder tsm" where
  "NewBoolDecoder b =
     (case slice_from 1 b of
        Inl e \<Rightarrow> Inl e
      | Inr b1 \<Rightarrow>
          (case Uvarint b1 of
             (cnt, n) \<Rightarrow>
               (case slice_from n b1 of
                  Inl e \<Rightarrow> Inl e
                | Inr b2 \<Rightarrow> Inr \<lparr>bd_b = b2, bd_i = - 1, bd_n = sint cnt, bd_err = None\<rparr>)))"

definition boolDecoder_Next :: "boolDecoder \<Rightarrow> boolDecoder \<times> bool" where
  "boolDecoder_Next e = (let e1 = e\<lparr>bd_i := bd_i e + 1\<rparr> in (e1, bd_i e1 < bd_n e1))"

definition boolDecoder_Read :: "boolDecoder \<Rightarrow> bool tsm" where
  "boolDecoder_Read e =
     (let idx = bd_i e sdiv 8;
          pos = (8 - bd_i e smod 8) - 1;
          mask = push_bit (nat pos) 1
      in if idx < 0 \<or> int (length (bd_b e)) \<le> idx then Inl PanicRange
         else Inr (bd_b e ! nat idx AND mask = mask))"

section \<open>Round trip\<close>

text \<open>Bit \<open>k\<close> of a packed byte string, and the state of the encoder after the values \<open>bs\<close>.\<close>

definition packed_bit :: "byte list \<Rightarrow> nat \<Rightarrow> bool" where
  "packed_bit b k = bit (b ! (k div 8)) (7 - k mod 8)"

definition be_holds :: "boolEncoder \<Rightarrow> bool list \<Rightarrow> bool" where
  "be_holds e bs \<longleftrightarrow> be_n e = length bs \<and> be_i e \<le> 8 \<and> 8 * length (be_bytes e) + be_i e = length bs \<and>
     (\<forall>k < 8 * length (be_bytes e). packed_bit (be_bytes e) k = bs ! k) \<and>
     (\<forall>j < be_i e. bit (be_b e) (be_i e - 1 - j) = bs ! (8 * length (be_bytes e) + j)) \<and>
     (\<forall>j \<ge> be_i e. \<not> bit (be_b e) j)"

lemma pad_byte_eq: "i \<le> 8 \<Longrightarrow> pad_byte b i = (push_bit (8 - i) b, 8)"
proof (induction "8 - i" arbitrary: b i)
  case 0
  then show ?case by (simp add: pad_byte.simps)
next
  case (Suc n)
  then have "pad_byte (push_bit 1 b) (i + 1) = (push_bit (8 - (i + 1)) (push_bit 1 b), 8)" by simp
  moreover have "8 - i = (8 - (i + 1)) + 1" using Suc by simp
  ultimately show ?case using Suc by (subst pad_byte.simps) (metis push_bit_push_bit Suc_eq_plus1 zero_less_Suc zero_less_diff)
qed

lemma packed_bit_append:
  "k < 8 * length b \<Longrightarrow> packed_bit (b @ c) k = packed_bit b k"
  "j < 8 \<Longrightarrow> packed_bit (b @ [x]) (8 * length b + j) = bit x (7 - j)"
  by (auto simp: packed_bit_def nth_append)

lemma flush_eq:
  assumes "be_holds e bs"
  shows "boolEncoder_flush e = e\<lparr>be_bytes := be_bytes e @ [push_bit (8 - be_i e) (be_b e)], be_b := 0, be_i := 0\<rparr>"
    and "k < length bs \<Longrightarrow> packed_bit (be_bytes e @ [push_bit (8 - be_i e) (be_b e)]) k = bs ! k"
proof -
  from assms have i: "be_i e \<le> 8" and len: "8 * length (be_bytes e) + be_i e = length bs" by (simp_all add: be_holds_def)
  from i show "boolEncoder_flush e = e\<lparr>be_bytes := be_bytes e @ [push_bit (8 - be_i e) (be_b e)], be_b := 0, be_i := 0\<rparr>"
    by (simp add: boolEncoder_flush_def pad_byte_eq)
  assume k: "k < length bs"
  show "packed_bit (be_bytes e @ [push_bit (8 - be_i e) (be_b e)]) k = bs ! k"
  proof (cases "k < 8 * length (be_bytes e)")
    case True
    with assms show ?thesis by (simp add: be_holds_def packed_bit_append)
  next
    case False
    then obtain j where j: "k = 8 * length (be_bytes e) + j" by (metis le_Suc_ex not_less)
    with k len i have "j < be_i e" "j < 8" by simp_all
    moreover from this i have "7 - j - (8 - be_i e) = be_i e - 1 - j" "8 - be_i e \<le> 7 - j" "7 - j < 8" by simp_all
    ultimately show ?thesis
      using assms j by (simp add: packed_bit_append bit_push_bit_iff be_holds_def)
  qed
qed

lemma be_holds_flush:
  assumes "be_holds e bs" and "be_i e = 8"
  shows "be_holds (boolEncoder_flush e) bs"
  using flush_eq [OF assms(1)] assms by (simp add: be_holds_def)

lemma be_holds_Write:
  assumes "be_holds e bs"
  shows "be_holds (boolEncoder_Write b e) (bs @ [b])"
proof -
  define e1 where "e1 = (if be_i e \<ge> 8 then boolEncoder_flush e else e)"
  have h: "be_holds e1 bs" and i: "be_i e1 < 8"
  proof -
    have "be_i e \<le> 8" using assms by (simp add: be_holds_def)
    then show "be_holds e1 bs" "be_i e1 < 8"
      using be_holds_flush [OF assms] flush_eq(1) [OF assms] assms by (auto simp: e1_def)
  qed
  let ?b = "if b then push_bit 1 (be_b e1) OR 1 else push_bit 1 (be_b e1)"
  have w: "boolEncoder_Write b e = e1\<lparr>be_b := ?b, be_i := be_i e1 + 1, be_n := be_n e1 + 1\<rparr>"
    by (simp add: boolEncoder_Write_def e1_def Let_def)
  have bit: "bit ?b n = (if n = 0 then b else n < 8 \<and> bit (be_b e1) (n - 1))" for n
    by (auto simp: bit_or_iff bit_push_bit_iff bit_1_iff Suc_le_eq simp del: push_bit_of_Suc_0 One_nat_def)
  have 1: "(bs @ [b]) ! k = bs ! k" if "k < 8 * length (be_bytes e1)" for k
    using that h by (simp add: be_holds_def nth_append)
  have 2: "bit ?b (be_i e1 - j) = (bs @ [b]) ! (8 * length (be_bytes e1) + j)" if "j < Suc (be_i e1)" for j
    using that h i bit [of "be_i e1 - j"] by (auto simp: be_holds_def nth_append less_Suc_eq)
  have 3: "\<not> bit ?b j" if "Suc (be_i e1) \<le> j" for j
    using that h i bit [of j] by (auto simp: be_holds_def)
  from h i 1 2 3 show ?thesis unfolding w by (simp add: be_holds_def)
qed

lemma be_holds_fold: "be_holds e cs \<Longrightarrow> be_holds (fold boolEncoder_Write bs e) (cs @ bs)"
proof (induction bs arbitrary: e cs)
  case (Cons b bs)
  from Cons.IH [OF be_holds_Write [OF Cons.prems, of b]] show ?case by simp
qed simp

lemma be_holds_New: "be_holds NewBoolEncoder []"
  by (simp add: be_holds_def NewBoolEncoder_def)

section \<open>The codec\<close>

definition bool_encode :: "bool list \<Rightarrow> byte list tsm" where
  "bool_encode bs = snd (boolEncoder_Bytes (fold boolEncoder_Write bs NewBoolEncoder))"

definition bool_read :: "(boolDecoder, bool) read_op" where
  "bool_read d = (case boolDecoder_Read d of Inl e \<Rightarrow> Inl e | Inr v \<Rightarrow> Inr (d, v))"

lemma bool_encode_eq:
  obtains p where "bool_encode bs = Inr ([push_bit 4 boolCompressedBitPacked] @ PutUvarint (of_nat (length bs)) @ p)"
    and "length bs \<le> 8 * length p" and "\<forall>k < length bs. packed_bit p k = bs ! k"
proof -
  define e where "e = fold boolEncoder_Write bs NewBoolEncoder"
  have h: "be_holds e bs" using be_holds_fold [OF be_holds_New] by (simp add: e_def)
  let ?p = "be_bytes e @ [push_bit (8 - be_i e) (be_b e)]"
  have "be_n e = length bs" "length bs \<le> 8 * length ?p" using h by (simp_all add: be_holds_def)
  then show thesis
    using flush_eq [OF h]
    by (intro that [of ?p]) (simp_all add: bool_encode_def boolEncoder_Bytes_def Let_def flip: e_def)
qed

lemma boolDecoder_Read_bit:
  assumes "bd_i d = int k" and "k < 8 * length (bd_b d)"
  shows "boolDecoder_Read d = Inr (packed_bit (bd_b d) k)"
proof -
  have "bd_i d sdiv 8 = int (k div 8)" "bd_i d smod 8 = int (k mod 8)"
    using assms(1) by (cases "k = 0"; simp add: signed_divide_int_def signed_modulo_int_def zdiv_int zmod_int)+
  moreover have "k div 8 < length (bd_b d)" using assms(2) by (simp add: less_mult_imp_div_less mult.commute)
  moreover have "nat (8 - int (k mod 8) - 1) = 7 - k mod 8" by simp
  moreover have "x AND push_bit n 1 = push_bit n 1 \<longleftrightarrow> bit x n" if "n < 8" for x :: byte and n
  proof
    assume "x AND push_bit n 1 = push_bit n 1"
    then have "bit (x AND push_bit n 1) n = bit (push_bit n 1 :: byte) n" by simp
    with that show "bit x n" by (simp add: bit_and_iff bit_exp_iff)
  next
    assume "bit x n"
    then show "x AND push_bit n 1 = push_bit n 1"
      by (intro bit_eqI) (auto simp: bit_and_iff bit_exp_iff)
  qed
  ultimately show ?thesis by (simp add: boolDecoder_Read_def packed_bit_def)
qed

lemma boolDecoder_yields:
  assumes "bd_n d = int (length bs)" and "length bs \<le> 8 * length (bd_b d)" and "bd_err d = None"
    and "\<And>k. k < length bs \<Longrightarrow> packed_bit (bd_b d) k = bs ! k" and "bd_i d = int m - 1" and "m \<le> length bs"
  shows "yields (Inr \<circ> boolDecoder_Next) bool_read bd_err d (drop m bs)"
  using assms
proof (induction "length bs - m" arbitrary: d m)
  case 0
  then show ?case by (simp add: boolDecoder_Next_def)
next
  case (Suc n)
  let ?d = "d\<lparr>bd_i := int m\<rparr>"
  have m: "m < length bs" using Suc.hyps(2) by simp
  have "boolDecoder_Next d = (?d, True)" using Suc.prems m by (simp add: boolDecoder_Next_def)
  moreover have "bool_read ?d = Inr (?d, bs ! m)"
    using boolDecoder_Read_bit [of ?d m] Suc.prems(2,4) m by (simp add: bool_read_def)
  moreover have "yields (Inr \<circ> boolDecoder_Next) bool_read bd_err ?d (drop (Suc m) bs)"
    using Suc.prems m Suc.hyps(2) by (intro Suc.hyps(1)) auto
  ultimately show ?case using m Suc.prems(3) by (simp add: Cons_nth_drop_Suc [symmetric])
qed

interpretation bool_codec: column_codec "\<lambda>bs. length bs < 2 ^ 63" bool_encode NewBoolDecoder
  "Inr \<circ> boolDecoder_Next" bool_read bd_err
proof unfold_locales
  fix bs :: "bool list"
  assume len: "length bs < 2 ^ 63"
  obtain p where p: "bool_encode bs = Inr ([push_bit 4 boolCompressedBitPacked] @ PutUvarint (of_nat (length bs)) @ p)"
      "length bs \<le> 8 * length p" "\<forall>k < length bs. packed_bit p k = bs ! k"
    by (rule bool_encode_eq [of bs])
  let ?d = "\<lparr>bd_b = p, bd_i = - 1, bd_n = int (length bs), bd_err = None\<rparr>"
  have "NewBoolDecoder ([push_bit 4 boolCompressedBitPacked] @ PutUvarint (of_nat (length bs)) @ p) = Inr ?d"
    using sint_of_nat_small [OF len] by (simp add: NewBoolDecoder_def slice_from_def)
  moreover have "yields (Inr \<circ> boolDecoder_Next) bool_read bd_err ?d (drop 0 bs)"
    using p by (intro boolDecoder_yields) simp_all
  ultimately show "\<exists>b s. bool_encode bs = Inr b \<and> NewBoolDecoder b = Inr s \<and>
      yields (Inr \<circ> boolDecoder_Next) bool_read bd_err s bs"
    using p(1) by simp
qed

end
