(* ===== verification/TSM_String.thy ===== *)
theory TSM_String
  imports TSM_Iter
begin

text \<open>
  The string codec (\<open>tsm1/string.go\<close>): the strings with their lengths in front, compressed by
  \<open>snappy\<close> as a whole.  A Go string is the list of its bytes.
\<close>

section \<open>The encoder\<close>

type_synonym stringEncoder = "byte list"

definition stringEncoder_Write :: "byte list \<Rightarrow> stringEncoder \<Rightarrow> stringEncoder" where
  "stringEncoder_Write s e = (e @ PutUvarint (of_nat (length s))) @ s"

definition stringCompressedSnappy :: byte where "stringCompressedSnappy = 1"

definition stringEncoder_Bytes :: "tsm_libs \<Rightarrow> stringEncoder \<Rightarrow> byte list tsm" where
  "stringEncoder_Bytes L e = Inr ([push_bit 4 stringCompressedSnappy] @ snappy_Encode L e)"

section \<open>The decoder\<close>

record stringDecoder =
  sd_b :: "byte list"
  sd_l :: int
  sd_i :: int
  sd_err :: "tsm_error option"

definition NewStringDecoder :: "tsm_libs \<Rightarrow> byte list \<Rightarrow> stringDecoder tsm" where
  "NewStringDecoder L b =
     (case slice_from 1 b of
        Inl e \<Rightarrow> Inl e
      | Inr b1 \<Rightarrow>
          (case snappy_Decode L b1 of
             None \<Rightarrow> Inl SnappyError
           | Some data \<Rightarrow> Inr \<lparr>sd_b = data, sd_l = 0, sd_i = 0, sd_err = None\<rparr>))"

definition stringDecoder_Next :: "stringDecoder \<Rightarrow> stringDecoder \<times> bool" where
  "stringDecoder_Next e = (let e1 = e\<lparr>sd_i := sd_i e + sd_l e\<rparr> in (e1, sd_i e1 < int (length (sd_b e1))))"

definition stringDecoder_Read :: "(stringDecoder, byte list) read_op" where
  "stringDecoder_Read e =
     (case slice_from (sd_i e) (sd_b e) of
        Inl x \<Rightarrow> Inl x
      | Inr b \<Rightarrow>
          (case Uvarint b of
             (len, n) \<Rightarrow>
               (case slice (sd_i e + n) (sd_i e + n + sint len) (sd_b e) of
                  Inl x \<Rightarrow> Inl x
                | Inr s \<Rightarrow> Inr (e\<lparr>sd_l := sint len + n\<rparr>, s))))"

section \<open>The codec\<close>

definition string_encode :: "tsm_libs \<Rightarrow> byte list list \<Rightarrow> byte list tsm" where
  "string_encode L ss = stringEncoder_Bytes L (fold stringEncoder_Write ss [])"

definition entries :: "byte list list \<Rightarrow> byte list" where
  "entries ss = concat (map (\<lambda>s. PutUvarint (of_nat (length s)) @ s) ss)"

lemma entries_simps [simp]: "entries [] = []" "entries (s # ss) = PutUvarint (of_nat (length s)) @ s @ entries ss"
  by (simp_all add: entries_def)

lemma fold_stringEncoder_Write: "fold stringEncoder_Write ss e = e @ entries ss"
  by (induction ss arbitrary: e) (simp_all add: stringEncoder_Write_def)

lemma stringDecoder_yields:
  assumes "sd_b d = pre @ entries ss" and "sd_i d + sd_l d = int (length pre)" and "sd_err d = None"
    and "\<forall>s\<in>set ss. length s < 2 ^ 63"
  shows "yields (Inr \<circ> stringDecoder_Next) stringDecoder_Read sd_err d ss"
  using assms
proof (induction ss arbitrary: d pre)
  case Nil
  then show ?case by (simp add: stringDecoder_Next_def)
next
  case (Cons s ss)
  let ?n = "PutUvarint (of_nat (length s))"
  let ?d = "d\<lparr>sd_i := int (length pre)\<rparr>"
  let ?d' = "?d\<lparr>sd_l := int (length s) + int (length ?n)\<rparr>"
  have "0 < length ?n" by simp
  then have "stringDecoder_Next d = (?d, True)" using Cons.prems by (simp add: stringDecoder_Next_def del: length_greater_0_conv)
  moreover have "stringDecoder_Read ?d = Inr (?d', s)"
  proof -
    have len: "sint (of_nat (length s) :: u64) = int (length s)" using Cons.prems(4) by (intro sint_of_nat_small) simp
    have "slice (int (length pre) + int (length ?n)) (int (length pre) + int (length ?n) + int (length s))
        ((pre @ ?n) @ s @ entries ss) = Inr s"
      by (rule slice_append) simp_all
    with Cons.prems(1) len show ?thesis by (simp add: stringDecoder_Read_def)
  qed
  moreover have "yields (Inr \<circ> stringDecoder_Next) stringDecoder_Read sd_err ?d' ss"
    using Cons.prems by (intro Cons.IH [of _ "pre @ ?n @ s"]) simp_all
  ultimately show ?case using Cons.prems(3) by (simp add: comp_def)
qed

interpretation string_codec: column_codec "\<lambda>ss. libs_ok L \<and> (\<forall>s\<in>set ss. length s < 2 ^ 63)" "string_encode L"
  "NewStringDecoder L" "Inr \<circ> stringDecoder_Next" stringDecoder_Read sd_err for L
proof unfold_locales
  fix ss :: "byte list list"
  assume ok: "libs_ok L \<and> (\<forall>s\<in>set ss. length s < 2 ^ 63)"
  let ?d = "\<lparr>sd_b = entries ss, sd_l = 0, sd_i = 0, sd_err = None\<rparr>"
  have "snappy_Decode L (snappy_Encode L (entries ss)) = Some (entries ss)" using ok by (simp add: libs_ok_def)
  then have "string_encode L ss = Inr ([push_bit 4 stringCompressedSnappy] @ snappy_Encode L (entries ss))"
      "NewStringDecoder L ([push_bit 4 stringCompressedSnappy] @ snappy_Encode L (entries ss)) = Inr ?d"
    by (simp_all add: string_encode_def fold_stringEncoder_Write stringEncoder_Bytes_def NewStringDecoder_def slice_from_def)
  moreover have "yields (Inr \<circ> stringDecoder_Next) stringDecoder_Read sd_err ?d ss"
    using ok by (intro stringDecoder_yields [of _ "[]"]) simp_all
  ultimately show "\<exists>b s. string_encode L ss = Inr b \<and> NewStringDecoder L b = Inr s \<and>
      yields (Inr \<circ> stringDecoder_Next) stringDecoder_Read sd_err s ss"
    by simp
qed

end
