(* ===== verification/TSM_Int.thy ===== *)
theory TSM_Int
  imports TSM_Iter
begin

text \<open>
  The integer codec (\<open>tsm1/int.go\<close>): zig-zag coded differences, run-length encoded if all but the
  first are equal, packed by \<open>simple8b\<close> if they are small, raw otherwise.  An \<open>int64\<close> is a 64-bit
  word, read by \<open>sint\<close>.
\<close>

section \<open>The encoder\<close>

record int64Encoder =
  ie_prev :: u64
  ie_rle :: bool
  ie_values :: "u64 list"

definition NewInt64Encoder :: int64Encoder where
  "NewInt64Encoder = \<lparr>ie_prev = 0, ie_rle = True, ie_values = []\<rparr>"

definition int64Encoder_Write :: "u64 \<Rightarrow> int64Encoder \<Rightarrow> int64Encoder" where
  "int64Encoder_Write v e =
     (let delta = v - ie_prev e;
          enc = ZigZagEncode delta;
          rle = (if length (ie_values e) > 1 then ie_rle e \<and> last (ie_values e) = enc else ie_rle e)
      in \<lparr>ie_prev = v, ie_rle = rle, ie_values = ie_values e @ [enc]\<rparr>)"

definition intUncompressed :: byte where "intUncompressed = 0"
definition intCompressedSimple :: byte where "intCompressedSimple = 1"
definition intCompressedRLE :: byte where "intCompressedRLE = 2"

definition int64Encoder_encodeRLE :: "int64Encoder \<Rightarrow> byte list tsm" where
  "int64Encoder_encodeRLE e =
     Inr ([push_bit 4 intCompressedRLE] @ PutUint64 (ie_values e ! 0) @ PutUvarint (ie_values e ! 1) @
       PutUvarint (of_nat (length (ie_values e) - 1)))"

definition int64Encoder_encodePacked :: "tsm_libs \<Rightarrow> int64Encoder \<Rightarrow> byte list tsm" where
  "int64Encoder_encodePacked L e =
     (if length (ie_values e) = 0 then Inr []
      else case s8_EncodeAll L (tl (ie_values e)) of
        None \<Rightarrow> Inl Simple8bError
      | Some encoded \<Rightarrow> Inr ([push_bit 4 intCompressedSimple] @ PutUint64 (hd (ie_values e)) @ put_words encoded))"

definition int64Encoder_encodeUncompressed :: "int64Encoder \<Rightarrow> byte list tsm" where
  "int64Encoder_encodeUncompressed e =
     (if length (ie_values e) = 0 then Inr [] else Inr ([push_bit 4 intUncompressed] @ put_words (ie_values e)))"

definition int64Encoder_Bytes :: "tsm_libs \<Rightarrow> int64Encoder \<Rightarrow> byte list tsm" where
  "int64Encoder_Bytes L e =
     (if ie_rle e \<and> length (ie_values e) > 2 then int64Encoder_encodeRLE e
      else if list_ex (\<lambda>v. v > s8_MaxValue L) (ie_values e) then int64Encoder_encodeUncompressed e
      else int64Encoder_encodePacked L e)"

section \<open>The decoder\<close>

record int64Decoder =
  id_values :: "u64 list"
  id_bytes :: "byte list"
  id_i :: int
  id_n :: int
  id_prev :: u64
  id_first :: bool
  id_rleFirst :: u64
  id_rleDelta :: u64
  id_encoding :: byte
  id_err :: "tsm_error option"

definition int64Decoder_SetBytes :: "byte list \<Rightarrow> int64Decoder \<Rightarrow> int64Decoder" where
  "int64Decoder_SetBytes b d =
     (if length b > 0 then d\<lparr>id_encoding := drop_bit 4 (hd b), id_bytes := tl b\<rparr> else d)
       \<lparr>id_first := True, id_i := 0, id_n := 0\<rparr>"

definition NewInt64Decoder :: "byte list \<Rightarrow> int64Decoder tsm" where
  "NewInt64Decoder b =
     Inr (int64Decoder_SetBytes b
       \<lparr>id_values = replicate 240 0, id_bytes = [], id_i = 0, id_n = 0, id_prev = 0, id_first = False,
        id_rleFirst = 0, id_rleDelta = 0, id_encoding = 0, id_err = None\<rparr>)"

definition int64Decoder_decodeRLE :: "int64Decoder \<Rightarrow> int64Decoder tsm" where
  "int64Decoder_decodeRLE d =
     (if length (id_bytes d) = 0 then Inr d
      else case slice 0 8 (id_bytes d) of
        Inl e \<Rightarrow> Inl e
      | Inr f \<Rightarrow>
          (case Uvarint (drop 8 (id_bytes d)) of
             (value, n) \<Rightarrow>
               (case slice_from (8 + n) (id_bytes d) of
                  Inl e \<Rightarrow> Inl e
                | Inr rest \<Rightarrow>
                    (case Uvarint rest of
                       (cnt, _) \<Rightarrow>
                         Inr (d\<lparr>id_rleFirst := Uint64 f, id_rleDelta := value, id_n := sint (cnt + 1), id_i := 0,
                                id_bytes := []\<rparr>)))))"

definition int64Decoder_decodePacked :: "tsm_libs \<Rightarrow> int64Decoder \<Rightarrow> int64Decoder tsm" where
  "int64Decoder_decodePacked L d =
     (if length (id_bytes d) = 0 then Inr d
      else case slice 0 8 (id_bytes d) of
        Inl e \<Rightarrow> Inl e
      | Inr w \<Rightarrow>
          (let v = Uint64 w;
               d1 = (if id_first d
                     then d\<lparr>id_first := False, id_n := 1, id_values := (id_values d)[0 := v]\<rparr>
                     else case s8_Decode L v of
                            None \<Rightarrow> d\<lparr>id_err := Some Simple8bError, id_n := 0\<rparr>
                          | Some us \<Rightarrow> d\<lparr>id_values := us @ drop (length us) (id_values d), id_n := int (length us)\<rparr>)
           in Inr (d1\<lparr>id_i := 0, id_bytes := drop 8 (id_bytes d)\<rparr>)))"

definition int64Decoder_decodeUncompressed :: "int64Decoder \<Rightarrow> int64Decoder tsm" where
  "int64Decoder_decodeUncompressed d =
     (if length (id_bytes d) = 0 then Inr d
      else case slice 0 8 (id_bytes d) of
        Inl e \<Rightarrow> Inl e
      | Inr w \<Rightarrow> Inr (d\<lparr>id_values := (id_values d)[0 := Uint64 w], id_i := 0, id_n := 1,
                            id_bytes := drop 8 (id_bytes d)\<rparr>))"

definition int64Decoder_Next :: "tsm_libs \<Rightarrow> int64Decoder next_op" where
  "int64Decoder_Next L d =
     (if id_i d \<ge> id_n d \<and> length (id_bytes d) = 0 then Inr (d, False)
      else
        let d1 = d\<lparr>id_i := id_i d + 1\<rparr> in
        case (if id_i d1 \<ge> id_n d1 then
                (if id_encoding d1 = intUncompressed then int64Decoder_decodeUncompressed d1
                 else if id_encoding d1 = intCompressedSimple then int64Decoder_decodePacked L d1
                 else if id_encoding d1 = intCompressedRLE then int64Decoder_decodeRLE d1
                 else Inr (d1\<lparr>id_err := Some UnknownEncoding\<rparr>))
              else Inr d1) of
          Inl e \<Rightarrow> Inl e
        | Inr d2 \<Rightarrow> Inr (d2, id_i d2 < id_n d2))"

definition int64Decoder_Read :: "(int64Decoder, u64) read_op" where
  "int64Decoder_Read d =
     (if id_encoding d = intCompressedRLE then
        Inr (d, ZigZagDecode (id_rleFirst d + word_of_int (id_i d) * id_rleDelta d))
      else if id_i d < 0 \<or> int (length (id_values d)) \<le> id_i d then Inl PanicRange
      else let v = ZigZagDecode (id_values d ! nat (id_i d)) + id_prev d in Inr (d\<lparr>id_prev := v\<rparr>, v))"

section \<open>The written values\<close>

fun deltas :: "u64 \<Rightarrow> u64 list \<Rightarrow> u64 list" where
  "deltas p [] = []"
| "deltas p (v # vs) = (v - p) # deltas v vs"

fun undelta :: "u64 \<Rightarrow> u64 list \<Rightarrow> u64 list" where
  "undelta p [] = []"
| "undelta p (z # zs) = (ZigZagDecode z + p) # undelta (ZigZagDecode z + p) zs"

definition zigzags :: "u64 list \<Rightarrow> u64 list" where
  "zigzags vs = map ZigZagEncode (deltas 0 vs)"

text \<open>All differences but the first are equal.\<close>

definition equal_steps :: "u64 list \<Rightarrow> bool" where
  "equal_steps vs \<longleftrightarrow> (\<forall>z\<in>set (tl (zigzags vs)). z = zigzags vs ! 1)"

lemma length_deltas [simp]: "length (deltas p vs) = length vs"
  by (induction vs arbitrary: p) simp_all

lemma length_zigzags [simp]: "length (zigzags vs) = length vs"
  by (simp add: zigzags_def)

lemma deltas_snoc: "deltas p (vs @ [v]) = deltas p vs @ [v - last (p # vs)]"
  by (induction vs arbitrary: p) simp_all

lemma zigzags_snoc: "zigzags (vs @ [v]) = zigzags vs @ [ZigZagEncode (v - last (0 # vs))]"
  by (simp add: zigzags_def deltas_snoc)

lemma undelta_zigzags: "undelta p (map ZigZagEncode (deltas p vs)) = vs"
  by (induction vs arbitrary: p) simp_all

lemma equal_steps_snoc:
  "equal_steps (vs @ [v]) \<longleftrightarrow>
     (if length vs > 1 then equal_steps vs \<and> last (zigzags vs) = ZigZagEncode (v - last (0 # vs)) else True)"
proof -
  have l: "length (zigzags vs) = length vs" by simp
  show ?thesis
  proof (cases "length vs > 1")
    case True
    with l have "Suc (Suc 0) \<le> length (zigzags vs)" by simp
    then obtain a xs where "zigzags vs = a # xs" "Suc 0 \<le> length xs" unfolding Suc_le_length_iff by blast
    then obtain b cs where z: "zigzags vs = a # b # cs" by (cases xs) auto
    with True show ?thesis by (cases cs rule: rev_cases) (auto simp: equal_steps_def zigzags_snoc)
  next
    case False
    then consider "vs = []" | x where "vs = [x]" by (cases vs) auto
    then show ?thesis by cases (simp_all add: equal_steps_def zigzags_def)
  qed
qed

lemma fold_int64Encoder_Write:
  "fold int64Encoder_Write vs NewInt64Encoder = \<lparr>ie_prev = last (0 # vs), ie_rle = equal_steps vs, ie_values = zigzags vs\<rparr>"
proof (induction vs rule: rev_induct)
  case (snoc v vs)
  then show ?case
    by (simp add: int64Encoder_Write_def Let_def zigzags_snoc equal_steps_snoc)
      (auto simp: equal_steps_def zigzags_def length_Suc_conv less_Suc_eq not_less_eq le_Suc_eq split: if_splits)
qed (simp add: NewInt64Encoder_def equal_steps_def zigzags_def)

section \<open>Reading raw and packed blocks\<close>

text \<open>
  The groups of values that the bytes of a raw or packed block still hold: a word each if the
  block is raw or for the first word of a packed block, and what \<open>simple8b\<close> unpacks otherwise.
\<close>

definition chunks :: "tsm_libs \<Rightarrow> int64Decoder \<Rightarrow> u64 list list \<Rightarrow> bool" where
  "chunks L d cs \<longleftrightarrow> id_err d = None \<and> length (id_values d) = 240 \<and>
     (\<forall>c\<in>set cs. c \<noteq> [] \<and> length c \<le> 240) \<and>
     (\<exists>ws. id_bytes d = put_words ws \<and>
       (id_encoding d = intUncompressed \<and> cs = map (\<lambda>w. [w]) ws \<or>
        id_encoding d = intCompressedSimple \<and> id_first d \<and> ws \<noteq> [] \<and> (\<exists>cs'. cs = [hd ws] # cs' \<and> map (s8_Decode L) (tl ws) = map Some cs') \<or>
        id_encoding d = intCompressedSimple \<and> \<not> id_first d \<and> map (s8_Decode L) ws = map Some cs))"

definition decode_chunk :: "tsm_libs \<Rightarrow> int64Decoder \<Rightarrow> int64Decoder tsm" where
  "decode_chunk L d = (if id_encoding d = intUncompressed then int64Decoder_decodeUncompressed d else int64Decoder_decodePacked L d)"

lemma slice_word: "slice 0 8 (PutUint64 w @ rest) = Inr (PutUint64 w)"
  by (simp add: slice_def)

lemma decode_chunk_Cons:
  assumes "chunks L d (c # cs)"
  obtains d' where "decode_chunk L d = Inr d'" and "chunks L d' cs" and "id_n d' = int (length c)" and "id_i d' = 0"
    and "take (length c) (id_values d') = c" and "id_prev d' = id_prev d" and "id_encoding d' = id_encoding d"
proof -
  have enc: "intUncompressed \<noteq> intCompressedSimple" by (simp add: intUncompressed_def intCompressedSimple_def)
  have c: "c \<noteq> []" "length c \<le> 240" "id_err d = None" "length (id_values d) = 240" "\<forall>c\<in>set cs. c \<noteq> [] \<and> length c \<le> 240"
    using assms by (simp_all add: chunks_def)
  from assms [unfolded chunks_def] obtain ws where ws: "id_bytes d = put_words ws" and cases: "id_encoding d = intUncompressed \<and> c # cs = map (\<lambda>w. [w]) ws \<or>
      id_encoding d = intCompressedSimple \<and> id_first d \<and> ws \<noteq> [] \<and> (\<exists>cs'. c # cs = [hd ws] # cs' \<and> map (s8_Decode L) (tl ws) = map Some cs') \<or>
      id_encoding d = intCompressedSimple \<and> \<not> id_first d \<and> map (s8_Decode L) ws = map Some (c # cs)"
    by (elim conjE exE) (rule that, assumption, assumption)
  from cases obtain w us where w: "ws = w # us" by (cases ws) auto
  have t: "take (Suc 0) ((id_values d)[0 := w]) = [w]" using c(4) by (cases "id_values d") auto
  let ?u = "d\<lparr>id_values := (id_values d)[0 := w], id_i := 0, id_n := 1, id_bytes := put_words us\<rparr>"
  from cases consider (raw) "id_encoding d = intUncompressed" "c = [w]" "cs = map (\<lambda>w. [w]) us"
    | (first) "id_encoding d = intCompressedSimple" "id_first d" "c = [w]" "map (s8_Decode L) us = map Some cs"
    | (packed) "id_encoding d = intCompressedSimple" "\<not> id_first d" "s8_Decode L w = Some c" "map (s8_Decode L) us = map Some cs"
    by (auto simp: w)
  then show thesis
  proof cases
    case raw
    then have "decode_chunk L d = Inr ?u"
      by (simp add: decode_chunk_def int64Decoder_decodeUncompressed_def ws w slice_word)
    with raw c t show thesis by (intro that [of ?u]) (auto simp: chunks_def)
  next
    case first
    let ?d = "?u\<lparr>id_first := False\<rparr>"
    have "decode_chunk L d = Inr ?d"
      using first enc by (simp add: decode_chunk_def int64Decoder_decodePacked_def ws w slice_word Let_def)
    with first c t show thesis by (intro that [of ?d]) (auto simp: chunks_def)
  next
    case packed
    let ?d = "d\<lparr>id_values := c @ drop (length c) (id_values d), id_n := int (length c), id_i := 0, id_bytes := put_words us\<rparr>"
    have "decode_chunk L d = Inr ?d"
      using packed enc by (simp add: decode_chunk_def int64Decoder_decodePacked_def ws w slice_word Let_def)
    with packed c show thesis by (intro that [of ?d]) (auto simp: chunks_def)
  qed
qed

lemma decode_chunk_Nil: "chunks L d [] \<Longrightarrow> decode_chunk L d = Inr d \<and> id_bytes d = []"
  by (auto simp: chunks_def decode_chunk_def int64Decoder_decodePacked_def int64Decoder_decodeUncompressed_def)

lemma chunks_Next:
  assumes "chunks L d cs"
  shows "int64Decoder_Next L d =
    (if id_i d \<ge> id_n d \<and> length (id_bytes d) = 0 then Inr (d, False)
     else case (if id_i d + 1 \<ge> id_n d then decode_chunk L (d\<lparr>id_i := id_i d + 1\<rparr>) else Inr (d\<lparr>id_i := id_i d + 1\<rparr>)) of
       Inl e \<Rightarrow> Inl e | Inr d2 \<Rightarrow> Inr (d2, id_i d2 < id_n d2))"
proof -
  have "id_encoding d = intUncompressed \<or> id_encoding d = intCompressedSimple" using assms by (auto simp: chunks_def)
  then show ?thesis
    by (auto simp: int64Decoder_Next_def Let_def decode_chunk_def intUncompressed_def intCompressedSimple_def)
qed

lemma chunks_yields:
  assumes "chunks L d cs" and "id_n d = int (length c)" and "take (length c) (id_values d) = c" and "id_i d = int k"
  shows "yields (int64Decoder_Next L) int64Decoder_Read id_err d (undelta (id_prev d) (drop (Suc k) c @ concat cs))"
  using assms
proof (induction "length (drop (Suc k) c @ concat cs)" arbitrary: d c k cs rule: less_induct)
  case less
  note D = less.prems
  have err: "id_err d = None" and len: "length (id_values d) = 240" and
    enc: "id_encoding d \<noteq> intCompressedRLE"
    using D(1) by (auto simp: chunks_def intUncompressed_def intCompressedSimple_def intCompressedRLE_def)
  have upd: "chunks L (d\<lparr>id_i := i\<rparr>) cs" "chunks L (d\<lparr>id_i := i, id_prev := p\<rparr>) cs" for i p
    using D(1) by (simp_all add: chunks_def)
  show ?case
  proof (cases "Suc k < length c")
    case True
    let ?d = "d\<lparr>id_i := int (Suc k)\<rparr>"
    let ?v = "ZigZagDecode (c ! Suc k) + id_prev d"
    have "length c \<le> 240" using arg_cong [OF D(3), of length] len by (simp add: min_def split: if_splits)
    moreover have "take (length c) (id_values d) ! Suc k = id_values d ! Suc k" using True by (rule nth_take)
    then have "id_values d ! Suc k = c ! Suc k" by (simp only: D(3))
    ultimately have r: "int64Decoder_Read ?d = Inr (?d\<lparr>id_prev := ?v\<rparr>, ?v)"
      using True enc len by (simp add: int64Decoder_Read_def nat_add_distrib Let_def)
    have n: "int64Decoder_Next L d = Inr (?d, True)"
      using D True by (subst chunks_Next [OF D(1)]) (auto simp: add.commute)
    have s: "drop (Suc k) c @ concat cs = c ! Suc k # (drop (Suc (Suc k)) c @ concat cs)"
      using True by (simp add: Cons_nth_drop_Suc)
    have "yields (int64Decoder_Next L) int64Decoder_Read id_err (?d\<lparr>id_prev := ?v\<rparr>)
        (undelta (id_prev (?d\<lparr>id_prev := ?v\<rparr>)) (drop (Suc (Suc k)) c @ concat cs))"
      using D upd s by (intro less.hyps) simp_all
    with n r s err show ?thesis by simp
  next
    case False
    note no = False
    show ?thesis
    proof (cases cs)
      case Nil
      let ?d = "d\<lparr>id_i := int k + 1\<rparr>"
      have "decode_chunk L ?d = Inr ?d" "id_bytes d = []"
        using decode_chunk_Nil [of L ?d] decode_chunk_Nil [of L d] upd D(1) Nil by auto
      then show ?thesis
        using D no Nil err by (simp add: chunks_Next [OF D(1)])
    next
      case (Cons c' cs')
      let ?d = "d\<lparr>id_i := int k + 1\<rparr>"
      have "chunks L ?d (c' # cs')" using upd Cons by simp
      then obtain d' where d': "decode_chunk L ?d = Inr d'" "chunks L d' cs'" "id_n d' = int (length c')" "id_i d' = 0"
          "take (length c') (id_values d') = c'" "id_prev d' = id_prev ?d" "id_encoding d' = id_encoding ?d"
        by (rule decode_chunk_Cons)
      have c': "c' \<noteq> []" using D(1) Cons by (auto simp: chunks_def)
      have b: "id_bytes d \<noteq> []" using D(1) Cons by (auto simp: chunks_def)
      let ?v = "ZigZagDecode (hd c') + id_prev d"
      have n: "int64Decoder_Next L d = Inr (d', True)"
        using D no d' b c' by (simp add: chunks_Next [OF D(1)])
      have "length (id_values d') = 240" using d'(2) by (simp add: chunks_def)
      moreover have "id_values d' ! 0 = hd c'" using d'(5) c' by (cases "id_values d'"; cases c') auto
      ultimately have r: "int64Decoder_Read d' = Inr (d'\<lparr>id_prev := ?v\<rparr>, ?v)"
        using d' enc by (simp add: int64Decoder_Read_def Let_def)
      have s: "drop (Suc k) c @ concat cs = hd c' # (drop (Suc 0) c' @ concat cs')"
        using no Cons c' by (cases c') simp_all
      have "yields (int64Decoder_Next L) int64Decoder_Read id_err (d'\<lparr>id_prev := ?v\<rparr>)
          (undelta (id_prev (d'\<lparr>id_prev := ?v\<rparr>)) (drop (Suc 0) c' @ concat cs'))"
        using d' s by (intro less.hyps) (simp_all add: chunks_def)
      moreover have "id_err d' = None" using d'(2) by (simp add: chunks_def)
      ultimately show ?thesis using n r s err by simp
    qed
  qed
qed

definition fresh_decoder :: "byte \<Rightarrow> byte list \<Rightarrow> int64Decoder" where
  "fresh_decoder enc b = \<lparr>id_values = replicate 240 0, id_bytes = b, id_i = 0, id_n = 0, id_prev = 0, id_first = True,
     id_rleFirst = 0, id_rleDelta = 0, id_encoding = enc, id_err = None\<rparr>"

lemma NewInt64Decoder_Cons: "NewInt64Decoder (h # b) = Inr (fresh_decoder (drop_bit 4 h) b)"
  by (simp add: NewInt64Decoder_def int64Decoder_SetBytes_def fresh_decoder_def)

lemma fresh_yields:
  "chunks L (fresh_decoder enc b) cs \<Longrightarrow>
   yields (int64Decoder_Next L) int64Decoder_Read id_err (fresh_decoder enc b) (undelta 0 (concat cs))"
  using chunks_yields [of L "fresh_decoder enc b" cs "[]" 0] by (simp add: fresh_decoder_def)

definition int_encode :: "tsm_libs \<Rightarrow> u64 list \<Rightarrow> byte list tsm" where
  "int_encode L vs = int64Encoder_Bytes L (fold int64Encoder_Write vs NewInt64Encoder)"

text \<open>Columns that are not run-length encoded come back.\<close>

lemma int_plain_yields:
  assumes L: "libs_ok L" and "\<not> (equal_steps vs \<and> length vs > 2)"
  shows "\<exists>b s. int_encode L vs = Inr b \<and> NewInt64Decoder b = Inr s \<and> yields (int64Decoder_Next L) int64Decoder_Read id_err s vs"
proof (cases "vs = []")
  case True
  let ?d = "fresh_decoder 0 []"
  have "int_encode L vs = Inr []"
    using True by (simp add: int_encode_def NewInt64Encoder_def int64Encoder_Bytes_def int64Encoder_encodePacked_def)
  moreover have "NewInt64Decoder [] = Inr ?d"
    by (simp add: NewInt64Decoder_def int64Decoder_SetBytes_def fresh_decoder_def)
  moreover have "chunks L ?d []" by (simp add: chunks_def fresh_decoder_def intUncompressed_def)
  from fresh_yields [OF this] True have "yields (int64Decoder_Next L) int64Decoder_Read id_err ?d vs" by simp
  ultimately show ?thesis by blast
next
  case ne: False
  let ?zs = "zigzags vs"
  have zs: "?zs \<noteq> []" using ne by (metis length_0_conv length_zigzags)
  have und: "undelta 0 ?zs = vs" using undelta_zigzags [of 0 vs] by (simp add: zigzags_def)
  show ?thesis
  proof (cases "list_ex (\<lambda>v. v > s8_MaxValue L) ?zs")
    case True
    let ?d = "fresh_decoder intUncompressed (put_words ?zs)"
    have "int_encode L vs = Inr ([push_bit 4 intUncompressed] @ put_words ?zs)"
      using True assms(2) ne
      by (auto simp: int_encode_def fold_int64Encoder_Write int64Encoder_Bytes_def int64Encoder_encodeUncompressed_def)
    moreover have "NewInt64Decoder ([push_bit 4 intUncompressed] @ put_words ?zs) = Inr ?d"
      by (simp add: NewInt64Decoder_Cons intUncompressed_def)
    moreover have "chunks L ?d (map (\<lambda>w. [w]) ?zs)" by (auto simp: chunks_def fresh_decoder_def)
    from fresh_yields [OF this] und have "yields (int64Decoder_Next L) int64Decoder_Read id_err ?d vs"
      by (simp add: concat_map_singleton)
    ultimately show ?thesis by blast
  next
    case False
    then have "\<forall>v\<in>set (tl ?zs). v \<le> s8_MaxValue L" using zs by (auto simp: list_ex_iff not_less dest: list.set_sel(2))
    with L obtain ws vss where ws: "s8_EncodeAll L (tl ?zs) = Some ws" "map (s8_Decode L) ws = map Some vss"
        "concat vss = tl ?zs" "\<forall>us\<in>set vss. us \<noteq> [] \<and> length us \<le> 240"
      unfolding libs_ok_def by blast
    let ?b = "PutUint64 (hd ?zs) @ put_words ws"
    let ?d = "fresh_decoder intCompressedSimple ?b"
    have "int_encode L vs = Inr ([push_bit 4 intCompressedSimple] @ ?b)"
      using False assms(2) ne ws(1)
      by (auto simp: int_encode_def fold_int64Encoder_Write int64Encoder_Bytes_def int64Encoder_encodePacked_def)
    moreover have "NewInt64Decoder ([push_bit 4 intCompressedSimple] @ ?b) = Inr ?d"
      by (simp add: NewInt64Decoder_Cons intCompressedSimple_def)
    moreover have "chunks L ?d ([hd ?zs] # vss)"
      using ws by (auto simp: chunks_def fresh_decoder_def intro!: exI [of _ "hd ?zs # ws"])
    from fresh_yields [OF this] und zs ws(3) have "yields (int64Decoder_Next L) int64Decoder_Read id_err ?d vs" by simp
    ultimately show ?thesis by blast
  qed
qed

section \<open>Run-length encoded blocks\<close>

lemma Next_RLE:
  assumes "id_encoding d = intCompressedRLE" and "id_bytes d = []" and "id_n d = int n" and "id_i d = int k" and "k < n"
  shows "int64Decoder_Next L d = Inr (d\<lparr>id_i := int (Suc k)\<rparr>, Suc k < n)"
  using assms
  by (auto simp: int64Decoder_Next_def int64Decoder_decodeRLE_def Let_def intCompressedRLE_def intUncompressed_def
      intCompressedSimple_def add.commute)

lemma RLE_yields:
  assumes "id_encoding d = intCompressedRLE" and "id_bytes d = []" and "id_n d = int n" and "id_i d = int k" and "k < n"
    and "id_err d = None"
  shows "yields (int64Decoder_Next L) int64Decoder_Read id_err d
    (map (\<lambda>i. ZigZagDecode (id_rleFirst d + of_nat i * id_rleDelta d)) [Suc k..<n])"
  using assms
proof (induction "n - Suc k" arbitrary: d k)
  case 0
  then show ?case by (simp add: Next_RLE)
next
  case (Suc m)
  let ?d = "d\<lparr>id_i := int (Suc k)\<rparr>"
  have k: "Suc k < n" using Suc.hyps(2) by simp
  have "yields (int64Decoder_Next L) int64Decoder_Read id_err ?d
      (map (\<lambda>i. ZigZagDecode (id_rleFirst ?d + of_nat i * id_rleDelta ?d)) [Suc (Suc k)..<n])"
    using Suc.prems Suc.hyps(2) k by (intro Suc.hyps(1)) simp_all
  moreover have "int64Decoder_Read ?d = Inr (?d, ZigZagDecode (id_rleFirst d + of_nat (Suc k) * id_rleDelta d))"
    using Suc.prems(1) by (simp add: int64Decoder_Read_def)
  moreover have "int64Decoder_Next L d = Inr (?d, True)" using Suc.prems k by (simp add: Next_RLE)
  moreover have "[Suc k..<n] = Suc k # [Suc (Suc k)..<n]" using k by (simp add: upt_conv_Cons)
  ultimately show ?case using Suc.prems(6) by simp
qed

lemma int_rle_yields:
  assumes "equal_steps vs" and "length vs > 2" and "length vs < 2 ^ 63"
  shows "\<exists>b s. int_encode L vs = Inr b \<and> NewInt64Decoder b = Inr s \<and>
    yields (int64Decoder_Next L) int64Decoder_Read id_err s
      (map (\<lambda>i. ZigZagDecode (zigzags vs ! 0 + of_nat i * (zigzags vs ! 1))) [0..<length vs])"
proof -
  let ?z0 = "zigzags vs ! 0" and ?z1 = "zigzags vs ! 1" and ?n = "of_nat (length vs - 1) :: u64"
  let ?b = "PutUint64 ?z0 @ PutUvarint ?z1 @ PutUvarint ?n"
  let ?d = "fresh_decoder intCompressedRLE ?b"
  have ne: "vs \<noteq> []" using assms(2) by auto
  let ?d1 = "?d\<lparr>id_i := 0, id_rleFirst := ?z0, id_rleDelta := ?z1, id_n := int (length vs), id_bytes := []\<rparr>"
  have enc: "int_encode L vs = Inr ([push_bit 4 intCompressedRLE] @ ?b)"
    using assms by (simp add: int_encode_def fold_int64Encoder_Write int64Encoder_Bytes_def int64Encoder_encodeRLE_def)
  have new: "NewInt64Decoder ([push_bit 4 intCompressedRLE] @ ?b) = Inr ?d"
    by (simp add: NewInt64Decoder_Cons intCompressedRLE_def)
  have "?n + 1 = of_nat (length vs)" using assms(2) by (simp add: of_nat_diff)
  then have cnt: "sint (?n + 1) = int (length vs)" using sint_of_nat_small [OF assms(3)] by simp
  have "slice_from (8 + int (length (PutUvarint ?z1))) ?b = Inr (PutUvarint ?n)"
    using slice_from_append [of "8 + int (length (PutUvarint ?z1))" "PutUint64 ?z0 @ PutUvarint ?z1" "PutUvarint ?n"] by simp
  moreover have "Uvarint (PutUvarint ?n) = (?n, int (length (PutUvarint ?n)))" using Uvarint_PutUvarint [of ?n "[]"] by simp
  ultimately have "int64Decoder_decodeRLE (?d\<lparr>id_i := 1\<rparr>) = Inr ?d1"
    using cnt by (simp add: int64Decoder_decodeRLE_def fresh_decoder_def slice_word)
  then have nxt: "int64Decoder_Next L ?d = Inr (?d1, True)"
    using ne by (auto simp: int64Decoder_Next_def Let_def fresh_decoder_def intCompressedRLE_def intUncompressed_def
      intCompressedSimple_def)
  have "yields (int64Decoder_Next L) int64Decoder_Read id_err ?d1
      (map (\<lambda>i. ZigZagDecode (id_rleFirst ?d1 + of_nat i * id_rleDelta ?d1)) [Suc 0..<length vs])"
    using ne by (intro RLE_yields) (simp_all add: fresh_decoder_def)
  moreover have "int64Decoder_Read ?d1 = Inr (?d1, ZigZagDecode ?z0)"
    by (simp add: int64Decoder_Read_def fresh_decoder_def)
  moreover have "[0..<length vs] = 0 # [Suc 0..<length vs]" using ne by (simp add: upt_conv_Cons)
  ultimately have "yields (int64Decoder_Next L) int64Decoder_Read id_err ?d
      (map (\<lambda>i. ZigZagDecode (?z0 + of_nat i * ?z1)) [0..<length vs])"
    using nxt by (simp add: fresh_decoder_def)
  with enc new show ?thesis by blast
qed

text \<open>Which columns survive run-length encoding.\<close>

lemma zigzag_steps:
  assumes 1: "ZigZagEncode v + ZigZagEncode d = ZigZagEncode (v + d)"
    and 2: "ZigZagEncode v + 2 * ZigZagEncode d = ZigZagEncode (v + 2 * d)" and "d \<noteq> 0"
  shows "0 \<le> sint v \<and> 0 \<le> sint d"
proof (rule ccontr)
  assume neg: "\<not> (0 \<le> sint v \<and> 0 \<le> sint d)"
  have even: "\<not> bit (2 * x) 0" for x :: u64 by (simp add: bit_0)
  have odd: "bit (- 1 - 2 * x) 0" for x :: u64
  proof -
    have "- 1 - 2 * x = NOT (2 * x)" by (simp add: not_eq_complement)
    then show ?thesis by (simp only: bit_not_iff) (simp add: bit_0)
  qed
  have four: "\<not> bit (4 * x) 1" for x :: u64
  proof -
    have "4 * x = push_bit 2 x" by (simp add: push_bit_eq_mult)
    then show ?thesis by (simp only: bit_push_bit_iff) simp
  qed
  have minus2: "bit (- 2 :: u64) 1" by (simp add: bit_minus_numeral_Bit0_Suc_iff)
  have inj: "ZigZagEncode x = ZigZagEncode y \<Longrightarrow> x = y" for x y by (metis ZigZagDecode_Encode)
  consider (a) "0 \<le> sint v" "sint d < 0" | (b) "sint v < 0" "0 \<le> sint d" | (c) "sint v < 0" "sint d < 0"
    using neg by linarith
  then show False
  proof cases
    case a
    have "ZigZagEncode (v + 2 * d) = 2 * (v - 1 - 2 * d)" using 2 a by (simp add: ZigZagEncode_eq algebra_simps)
    then have "0 \<le> sint (v + 2 * d)" using even [of "v - 1 - 2 * d"] bit_0_ZigZag [of "v + 2 * d"] by simp
    then have "2 * v + 4 * d = 2 * v - 2 - 4 * d" using 2 a by (simp add: ZigZagEncode_eq algebra_simps)
    then have "4 * (2 * d) = - 2" by (simp add: eq_neg_iff_add_eq_0 algebra_simps)
    with four [of "2 * d"] minus2 show False by simp
  next
    case b
    have "ZigZagEncode (v + d) = - 1 - 2 * (v - d)" using 1 b by (simp add: ZigZagEncode_eq algebra_simps)
    then have "sint (v + d) < 0" using odd [of "v - d"] bit_0_ZigZag [of "v + d"] by simp
    then have d4: "4 * d = 0" using 1 b by (simp add: ZigZagEncode_eq algebra_simps)
    have "ZigZagEncode v + 2 * ZigZagEncode d = ZigZagEncode v + 4 * d" using b by (simp add: ZigZagEncode_eq algebra_simps)
    with 2 d4 have "ZigZagEncode v = ZigZagEncode (v + 2 * d)" by simp
    then have "v = v + 2 * d" by (rule inj)
    then have d2: "2 * d = 0" by simp
    have "ZigZagEncode v + ZigZagEncode d = ZigZagEncode v + 2 * d" using b by (simp add: ZigZagEncode_eq)
    with 1 d2 have "ZigZagEncode v = ZigZagEncode (v + d)" by simp
    then have "v = v + d" by (rule inj)
    with \<open>d \<noteq> 0\<close> show False by simp
  next
    case c
    have "ZigZagEncode (v + d) = 2 * (- 1 - v - d)" using 1 c by (simp add: ZigZagEncode_eq algebra_simps)
    then have "0 \<le> sint (v + d)" using even [of "- 1 - v - d"] bit_0_ZigZag [of "v + d"] by simp
    then have "4 * (v + d) = - 2" using 1 c by (simp add: ZigZagEncode_eq eq_neg_iff_add_eq_0 algebra_simps)
    with four [of "v + d"] minus2 show False by simp
  qed
qed

definition rle_ok :: "u64 list \<Rightarrow> bool" where
  "rle_ok vs \<longleftrightarrow> (equal_steps vs \<and> length vs > 2 \<longrightarrow>
     vs ! 1 = vs ! 0 \<or> (\<forall>v\<in>set vs. 0 \<le> sint v) \<and> 0 \<le> sint (vs ! 1 - vs ! 0))"

lemma deltas_nth: "i < length vs \<Longrightarrow> deltas p vs ! i = vs ! i - (p # vs) ! i"
  by (induction vs arbitrary: p i) (auto simp: less_Suc_eq_0_disj)

lemma equal_steps_nth:
  assumes "equal_steps vs" and "length vs > 1" and "i < length vs"
  shows "vs ! i = vs ! 0 + of_nat i * (vs ! 1 - vs ! 0)"
proof -
  define D where "D = vs ! 1 - vs ! 0"
  from assms(3) have "vs ! i = vs ! 0 + of_nat i * D"
  proof (induction i)
    case (Suc i)
    have "i < length (tl (zigzags vs))" using Suc.prems by simp
    then have "zigzags vs ! Suc i = zigzags vs ! 1"
      using assms(1) unfolding equal_steps_def by (metis nth_mem nth_tl)
    then have "deltas 0 vs ! Suc i = deltas 0 vs ! 1"
      using Suc.prems assms(2) by (simp add: zigzags_def) (metis ZigZagDecode_Encode)
    then have "vs ! Suc i - vs ! i = D" using Suc.prems assms(2) by (simp add: deltas_nth D_def)
    then have "vs ! Suc i = vs ! i + D" by (simp add: algebra_simps)
    with Suc show ?case by (simp add: algebra_simps)
  qed simp
  then show ?thesis by (simp add: D_def)
qed

lemma int_rle_iff:
  assumes "equal_steps vs" and "length vs > 2"
  shows "map (\<lambda>i. ZigZagDecode (zigzags vs ! 0 + of_nat i * (zigzags vs ! 1))) [0..<length vs] = vs \<longleftrightarrow> rle_ok vs"
proof -
  define v where "v = vs ! 0"
  define d where "d = vs ! 1 - vs ! 0"
  have z: "zigzags vs ! 0 = ZigZagEncode v" "zigzags vs ! 1 = ZigZagEncode d"
  proof -
    have "0 < length (deltas 0 vs)" "1 < length (deltas 0 vs)" using assms(2) by (simp_all only: length_deltas)
    then show "zigzags vs ! 0 = ZigZagEncode v" "zigzags vs ! 1 = ZigZagEncode d"
      unfolding zigzags_def by (simp_all only: nth_map length_deltas deltas_nth) (simp_all add: v_def d_def)
  qed
  have gt1: "length vs > 1" using assms(2) by simp
  have nth: "vs ! i = v + of_nat i * d" if "i < length vs" for i using equal_steps_nth [OF assms(1) gt1 that] by (simp only: v_def d_def)
  have dec: "ZigZagDecode w = vs ! i \<longleftrightarrow> w = ZigZagEncode (v + of_nat i * d)" if "i < length vs" for i w
    using nth [OF that] by (simp only: ZigZagDecode_eq_iff)
  have "map (\<lambda>i. ZigZagDecode (zigzags vs ! 0 + of_nat i * (zigzags vs ! 1))) [0..<length vs] = vs \<longleftrightarrow>
      (\<forall>i < length vs. ZigZagEncode v + of_nat i * ZigZagEncode d = ZigZagEncode (v + of_nat i * d))"
    unfolding list_eq_iff_nth_eq z using dec by simp
  also have "\<dots> \<longleftrightarrow> d = 0 \<or> (\<forall>v\<in>set vs. 0 \<le> sint v) \<and> 0 \<le> sint d"
  proof
    assume all: "\<forall>i < length vs. ZigZagEncode v + of_nat i * ZigZagEncode d = ZigZagEncode (v + of_nat i * d)"
    show "d = 0 \<or> (\<forall>v\<in>set vs. 0 \<le> sint v) \<and> 0 \<le> sint d"
    proof (cases "d = 0")
      case d0: False
      have "ZigZagEncode v + ZigZagEncode d = ZigZagEncode (v + d)"
          "ZigZagEncode v + 2 * ZigZagEncode d = ZigZagEncode (v + 2 * d)"
        using all [rule_format, of 1] all [rule_format, of 2] assms(2) by simp_all
      then have nn: "0 \<le> sint v" "0 \<le> sint d" using zigzag_steps d0 by blast+
      have "0 \<le> sint (vs ! i)" if i: "i < length vs" for i
      proof -
        have "ZigZagEncode (vs ! i) = 2 * (vs ! i)"
          using all [rule_format, OF i] nth [OF i] nn by (simp add: ZigZagEncode_eq [of v] ZigZagEncode_eq [of d] distrib_left mult.left_commute)
        then show ?thesis using bit_0_ZigZag [of "vs ! i"] by (simp add: bit_0)
      qed
      with nn show ?thesis by (auto simp: in_set_conv_nth)
    qed simp
  next
    assume ok: "d = 0 \<or> (\<forall>v\<in>set vs. 0 \<le> sint v) \<and> 0 \<le> sint d"
    show "\<forall>i < length vs. ZigZagEncode v + of_nat i * ZigZagEncode d = ZigZagEncode (v + of_nat i * d)"
    proof (intro allI impI)
      fix i assume i: "i < length vs"
      from ok show "ZigZagEncode v + of_nat i * ZigZagEncode d = ZigZagEncode (v + of_nat i * d)"
      proof
        assume "d = 0"
        then show ?thesis by (simp add: ZigZagEncode_eq [of 0])
      next
        assume nn: "(\<forall>v\<in>set vs. 0 \<le> sint v) \<and> 0 \<le> sint d"
        moreover have "v \<in> set vs" unfolding v_def using gt1 by (intro nth_mem) linarith
        ultimately have "0 \<le> sint v" "0 \<le> sint d" "0 \<le> sint (v + of_nat i * d)" using nth_mem [OF i] nth [OF i] by auto
        then show ?thesis by (simp add: ZigZagEncode_eq algebra_simps)
      qed
    qed
  qed
  also have "\<dots> \<longleftrightarrow> rle_ok vs" using assms by (auto simp: rle_ok_def d_def)
  finally show ?thesis .
qed

interpretation int_codec: column_codec "\<lambda>vs. libs_ok L \<and> length vs < 2 ^ 63 \<and> rle_ok vs" "int_encode L" NewInt64Decoder
  "int64Decoder_Next L" int64Decoder_Read id_err for L
proof unfold_locales
  fix vs :: "u64 list"
  assume ok: "libs_ok L \<and> length vs < 2 ^ 63 \<and> rle_ok vs"
  show "\<exists>b s. int_encode L vs = Inr b \<and> NewInt64Decoder b = Inr s \<and> yields (int64Decoder_Next L) int64Decoder_Read id_err s vs"
  proof (cases "equal_steps vs \<and> length vs > 2")
    case True
    with ok int_rle_iff [of vs] int_rle_yields [of vs L] show ?thesis by simp
  next
    case False
    with ok show ?thesis by (intro int_plain_yields) simp_all
  qed
qed

end
