(* ===== verification/TSM_Float.thy ===== *)
theory TSM_Float
  imports TSM_Iter
begin

text \<open>
  The float codec (\<open>tsm1/float.go\<close>): every value is combined with its predecessor by exclusive or,
  and only the significant bits of the result are written.  A float is the 64-bit word that
  represents it; \<open>NaN\<close> ends the stream and cannot be stored.
\<close>

section \<open>The encoder\<close>

record FloatEncoder =
  fe_val :: u64
  fe_err :: "tsm_error option"
  fe_leading :: u64
  fe_trailing :: u64
  fe_bits :: "bool list"
  fe_first :: bool
  fe_finished :: bool

definition NewFloatEncoder :: FloatEncoder where
  "NewFloatEncoder = \<lparr>fe_val = 0, fe_err = None, fe_leading = NOT 0, fe_trailing = 0, fe_bits = [], fe_first = True,
     fe_finished = False\<rparr>"

text \<open>The bits for a value after the first one, and the new window of significant bits.\<close>

definition push_delta :: "tsm_libs \<Rightarrow> u64 \<Rightarrow> u64 \<Rightarrow> u64 \<Rightarrow> bool list \<times> u64 \<times> u64" where
  "push_delta L vDelta s_leading s_trailing =
     (if vDelta = 0 then ([False], s_leading, s_trailing)
      else
        let leading0 = bits_Clz L vDelta AND 0x1F;
            trailing = bits_Ctz L vDelta;
            leading = (if leading0 \<ge> 32 then 31 else leading0)
        in if s_leading \<noteq> NOT 0 \<and> leading \<ge> s_leading \<and> trailing \<ge> s_trailing
           then ([True, False] @ bit_Write L (drop_bit (unat s_trailing) vDelta) (64 - unat s_leading - unat s_trailing),
                 s_leading, s_trailing)
           else let sigbits = 64 - leading - trailing
                in ([True, True] @ bit_Write L leading 5 @ bit_Write L sigbits 6 @
                      bit_Write L (drop_bit (unat trailing) vDelta) (unat sigbits), leading, trailing))"

definition FloatEncoder_Push :: "tsm_libs \<Rightarrow> u64 \<Rightarrow> FloatEncoder \<Rightarrow> FloatEncoder" where
  "FloatEncoder_Push L v s =
     (if math_IsNaN v \<and> \<not> fe_finished s then s\<lparr>fe_err := Some UnsupportedNaN\<rparr>
      else if fe_first s then s\<lparr>fe_val := v, fe_first := False, fe_bits := fe_bits s @ bit_Write L v 64\<rparr>
      else case push_delta L (v XOR fe_val s) (fe_leading s) (fe_trailing s) of
        (bs, leading, trailing) \<Rightarrow>
          s\<lparr>fe_bits := fe_bits s @ bs, fe_leading := leading, fe_trailing := trailing, fe_val := v\<rparr>)"

definition FloatEncoder_Finish :: "tsm_libs \<Rightarrow> FloatEncoder \<Rightarrow> FloatEncoder" where
  "FloatEncoder_Finish L s =
     (if \<not> fe_finished s then FloatEncoder_Push L math_NaN (s\<lparr>fe_finished := True\<rparr>) else s)"

definition floatCompressedGorilla :: byte where "floatCompressedGorilla = 1"

definition FloatEncoder_Bytes :: "tsm_libs \<Rightarrow> FloatEncoder \<Rightarrow> byte list tsm" where
  "FloatEncoder_Bytes L s =
     (case fe_err s of
        Some e \<Rightarrow> Inl e
      | None \<Rightarrow> Inr ([push_bit 4 floatCompressedGorilla] @
                        (if fe_finished s then bit_Pack L (fe_bits s) else bit_Buffered L (fe_bits s))))"

section \<open>The decoder\<close>

record FloatDecoder =
  fd_val :: u64
  fd_leading :: u64
  fd_trailing :: u64
  fd_br :: "bool list"
  fd_first :: bool
  fd_finished :: bool
  fd_err :: "tsm_error option"

definition NewFloatDecoder :: "tsm_libs \<Rightarrow> byte list \<Rightarrow> FloatDecoder tsm" where
  "NewFloatDecoder L b =
     (case slice_from 1 b of
        Inl e \<Rightarrow> Inl e
      | Inr b1 \<Rightarrow>
          (case bit_Read L 64 (bit_Unpack L b1) of
             None \<Rightarrow> Inl BitstreamEOF
           | Some (v, br) \<Rightarrow> Inr \<lparr>fd_val = v, fd_leading = 0, fd_trailing = 0, fd_br = br, fd_first = True,
                                 fd_finished = False, fd_err = None\<rparr>))"

text \<open>Reading from the stream, which ends the decoder with an error if there are no bits left.\<close>

definition fd_ReadBit :: "FloatDecoder \<Rightarrow> (bool \<times> FloatDecoder) option" where
  "fd_ReadBit it = (case fd_br it of [] \<Rightarrow> None | b # bs \<Rightarrow> Some (b, it\<lparr>fd_br := bs\<rparr>))"

definition fd_ReadBits :: "tsm_libs \<Rightarrow> nat \<Rightarrow> FloatDecoder \<Rightarrow> (u64 \<times> FloatDecoder) option" where
  "fd_ReadBits L n it = (case bit_Read L n (fd_br it) of None \<Rightarrow> None | Some (u, bs) \<Rightarrow> Some (u, it\<lparr>fd_br := bs\<rparr>))"

definition fd_fail :: "FloatDecoder \<Rightarrow> FloatDecoder \<times> bool" where
  "fd_fail it = (it\<lparr>fd_err := Some BitstreamEOF\<rparr>, False)"

definition fd_window :: "tsm_libs \<Rightarrow> FloatDecoder \<Rightarrow> FloatDecoder option" where
  "fd_window L it =
     (case fd_ReadBits L 5 it of
        None \<Rightarrow> None
      | Some (l, it1) \<Rightarrow>
          (case fd_ReadBits L 6 (it1\<lparr>fd_leading := l\<rparr>) of
             None \<Rightarrow> None
           | Some (m, it2) \<Rightarrow>
               (let mbits = (if m = 0 then 64 else m) in Some (it2\<lparr>fd_trailing := 64 - fd_leading it2 - mbits\<rparr>))))"

definition fd_delta :: "tsm_libs \<Rightarrow> FloatDecoder \<Rightarrow> FloatDecoder \<times> bool" where
  "fd_delta L it =
     (case fd_ReadBits L (unat (64 - fd_leading it - fd_trailing it)) it of
        None \<Rightarrow> fd_fail it
      | Some (bits, it1) \<Rightarrow>
          (let val = fd_val it1 XOR push_bit (unat (fd_trailing it1)) bits in
           if math_IsNaN val then (it1\<lparr>fd_finished := True\<rparr>, False)
           else (it1\<lparr>fd_val := val\<rparr>, True)))"

definition FloatDecoder_Next :: "tsm_libs \<Rightarrow> FloatDecoder \<Rightarrow> FloatDecoder \<times> bool" where
  "FloatDecoder_Next L it =
     (if fd_err it \<noteq> None \<or> fd_finished it then (it, False)
      else if fd_first it then
        (if math_IsNaN (fd_val it) then (it\<lparr>fd_first := False, fd_finished := True\<rparr>, False)
         else (it\<lparr>fd_first := False\<rparr>, True))
      else
        case fd_ReadBit it of
          None \<Rightarrow> fd_fail it
        | Some (False, it1) \<Rightarrow> (it1, True)
        | Some (True, it1) \<Rightarrow>
            (case fd_ReadBit it1 of
               None \<Rightarrow> fd_fail it1
             | Some (False, it2) \<Rightarrow> fd_delta L it2
             | Some (True, it2) \<Rightarrow>
                 (case fd_window L it2 of
                    None \<Rightarrow> fd_fail it2
                  | Some it3 \<Rightarrow> fd_delta L it3)))"

definition FloatDecoder_Values :: "FloatDecoder \<Rightarrow> u64" where
  "FloatDecoder_Values it = fd_val it"

section \<open>Windows of significant bits\<close>

lemma libs_bits:
  assumes "libs_ok L" and "v \<noteq> 0"
  shows "unat (bits_Clz L v) + unat (bits_Ctz L v) < 64"
    and "64 - unat (bits_Clz L v) \<le> n \<Longrightarrow> \<not> bit v n" and "n < unat (bits_Ctz L v) \<Longrightarrow> \<not> bit v n"
proof -
  have b: "bit v (63 - unat (bits_Clz L v))" "bits_Clz L v < 64" "\<And>n. 64 - unat (bits_Clz L v) \<le> n \<Longrightarrow> \<not> bit v n"
      "\<And>n. n < unat (bits_Ctz L v) \<Longrightarrow> \<not> bit v n"
    using assms by (simp_all add: libs_ok_def)
  from b(2) have "unat (bits_Clz L v) < 64" by (simp add: word_less_nat_alt)
  moreover have "unat (bits_Ctz L v) \<le> 63 - unat (bits_Clz L v)" using b(1,4) by (meson not_le)
  ultimately show "unat (bits_Clz L v) + unat (bits_Ctz L v) < 64" by simp
qed (use assms in \<open>simp_all add: libs_ok_def\<close>)

lemma leading_clamp:
  "unat (x AND 0x1F :: u64) = unat x mod 32" "\<not> x AND 0x1F \<ge> (32 :: u64)"
proof -
  have "(0x1F :: u64) = mask 5" by (simp add: mask_eq_exp_minus_1)
  then have "x AND 0x1F = take_bit 5 x" by (simp add: take_bit_eq_mask)
  then show u: "unat (x AND 0x1F :: u64) = unat x mod 32" by (simp add: unsigned_take_bit_eq take_bit_nat_def)
  show "\<not> x AND 0x1F \<ge> (32 :: u64)" unfolding word_le_nat_alt u by simp
qed

lemma window_delta:
  assumes "libs_ok L" and "v \<noteq> 0" and "l \<le> unat (bits_Clz L v)" and "t \<le> unat (bits_Ctz L v)"
  shows "take_bit (64 - l - t) (drop_bit t v) = drop_bit t v" and "push_bit t (drop_bit t v) = v"
proof -
  have "\<not> bit v (t + n)" if "\<not> n < 64 - l - t" for n
    using libs_bits(2) [OF assms(1,2), of "t + n"] assms(3) that by simp
  then show "take_bit (64 - l - t) (drop_bit t v) = drop_bit t v" by (intro bit_eqI) (auto simp: bit_simps)
  have "\<not> bit v n" if "n < t" for n
    using libs_bits(3) [OF assms(1,2), of n] assms(4) that by simp
  then have "t \<le> n" if "bit v n" for n using that not_le by blast
  then show "push_bit t (drop_bit t v) = v" by (intro bit_eqI) (auto simp: bit_simps)
qed

definition window_ok :: "u64 \<Rightarrow> u64 \<Rightarrow> FloatDecoder \<Rightarrow> bool" where
  "window_ok ld tr d \<longleftrightarrow> ld = NOT 0 \<or> unat ld + unat tr < 64 \<and> fd_leading d = ld \<and> fd_trailing d = tr"

lemma unat_width: "unat a + unat b < 64 \<Longrightarrow> unat (64 - a - b :: u64) = 64 - unat a - unat b"
proof -
  assume *: "unat a + unat b < 64"
  then have "unat (64 - a) = 64 - unat a" by (simp add: unat_sub word_le_nat_alt)
  moreover from this * have "b \<le> 64 - a" by (simp add: word_le_nat_alt)
  ultimately show ?thesis by (simp add: unat_sub)
qed

lemma fd_ReadBits_Write:
  assumes "libs_ok L" and "n \<le> 64" and "fd_br it = bit_Write L u n @ rest"
  shows "fd_ReadBits L n it = Some (take_bit n u, it\<lparr>fd_br := rest\<rparr>)"
  using assms by (simp add: fd_ReadBits_def libs_ok_def)

lemma fd_delta_Write:
  assumes L: "libs_ok L" and v: "v \<noteq> 0" and "unat l \<le> unat (bits_Clz L v)" and "unat t \<le> unat (bits_Ctz L v)"
    and d: "fd_leading it = l" "fd_trailing it = t" and br: "fd_br it = bit_Write L (drop_bit (unat t) v) (64 - unat l - unat t) @ rest"
  shows "fd_delta L it =
    (if math_IsNaN (fd_val it XOR v) then (it\<lparr>fd_br := rest, fd_finished := True\<rparr>, False)
     else (it\<lparr>fd_br := rest, fd_val := fd_val it XOR v\<rparr>, True))"
proof -
  have "unat l + unat t < 64" using libs_bits(1) [OF L v] assms(3,4) by simp
  then have "unat (64 - fd_leading it - fd_trailing it) = 64 - unat l - unat t" using unat_width d by simp
  with fd_ReadBits_Write [OF L _ br] window_delta [OF L v assms(3,4)] d show ?thesis
    by (simp add: fd_delta_def Let_def)
qed

lemma fd_window_Write:
  assumes L: "libs_ok L" and w: "unat l < 32" "unat l + unat t < 64"
    and br: "fd_br it = bit_Write L l 5 @ bit_Write L (64 - l - t) 6 @ rest"
  shows "fd_window L it = Some (it\<lparr>fd_br := rest, fd_leading := l, fd_trailing := t\<rparr>)"
proof -
  have l: "take_bit 5 l = l"
    using w(1) by (simp add: word_unat_eq_iff unsigned_take_bit_eq take_bit_nat_eq_self)
  have "unat (64 - l - t) = 64 - unat l - unat t" using w(2) by (rule unat_width)
  then have m: "(if take_bit 6 (64 - l - t) = 0 then 64 else take_bit 6 (64 - l - t)) = 64 - l - t"
    using w(2) by (cases "unat l = 0 \<and> unat t = 0")
      (auto simp: word_unat_eq_iff unsigned_take_bit_eq take_bit_nat_def)
  have "fd_ReadBits L 5 it = Some (l, it\<lparr>fd_br := bit_Write L (64 - l - t) 6 @ rest\<rparr>)"
    using fd_ReadBits_Write [OF L _ br] l by simp
  moreover have "fd_ReadBits L 6 (it\<lparr>fd_br := bit_Write L (64 - l - t) 6 @ rest, fd_leading := l\<rparr>) =
      Some (take_bit 6 (64 - l - t), it\<lparr>fd_br := rest, fd_leading := l\<rparr>)"
    using fd_ReadBits_Write [OF L, of 6 "it\<lparr>fd_br := bit_Write L (64 - l - t) 6 @ rest, fd_leading := l\<rparr>"] by simp
  ultimately show ?thesis using m by (simp add: fd_window_def Let_def split del: if_split)
qed

text \<open>Reading what the encoder wrote for one value.\<close>

lemma Next_push_delta:
  assumes L: "libs_ok L" and it: "fd_err it = None" "\<not> fd_finished it" "\<not> fd_first it" and w: "window_ok ld tr it"
    and p: "push_delta L (v XOR fd_val it) ld tr = (bs, ld', tr')" and br: "fd_br it = bs @ rest" and old: "\<not> math_IsNaN (fd_val it)"
  obtains it' where "FloatDecoder_Next L it = (it', \<not> math_IsNaN v)" and "fd_err it' = None"
    and "\<not> math_IsNaN v \<longrightarrow> fd_val it' = v \<and> fd_br it' = rest \<and> \<not> fd_finished it' \<and> \<not> fd_first it' \<and> window_ok ld' tr' it'"
proof (cases "v XOR fd_val it = 0")
  case True
  moreover have "v = (v XOR fd_val it) XOR fd_val it" by (simp add: xor.assoc)
  ultimately have "v = fd_val it" by simp
  with True assms show thesis
    by (intro that [of "it\<lparr>fd_br := rest\<rparr>"]) (auto simp: push_delta_def FloatDecoder_Next_def fd_ReadBit_def window_ok_def)
next
  case False
  define x where "x = v XOR fd_val it"
  have x0: "x \<noteq> 0" using False by (simp add: x_def)
  have xv: "fd_val it XOR x = v" by (simp add: x_def xor.assoc xor.commute xor.left_commute)
  let ?l = "bits_Clz L x AND 0x1F" and ?t = "bits_Ctz L x"
  have l: "unat ?l \<le> unat (bits_Clz L x)" "unat ?l < 32" by (simp_all add: leading_clamp)
  have lt: "unat ?l + unat ?t < 64" using libs_bits(1) [OF L x0] l by simp
  let ?reuse = "ld \<noteq> NOT 0 \<and> ?l \<ge> ld \<and> ?t \<ge> tr"
  show thesis
  proof (cases ?reuse)
    case True
    with w have win: "fd_leading it = ld" "fd_trailing it = tr" "unat ld + unat tr < 64" by (simp_all add: window_ok_def)
    have le: "unat ld \<le> unat (bits_Clz L x)" "unat tr \<le> unat ?t" using True l(1) by (simp_all add: word_le_nat_alt)
    let ?w = "bit_Write L (drop_bit (unat tr) x) (64 - unat ld - unat tr)"
    have "bs = [True, False] @ ?w" "ld' = ld" "tr' = tr"
      using p True x0 by (auto simp: push_delta_def leading_clamp Let_def simp flip: x_def)
    with it br have "FloatDecoder_Next L it = fd_delta L (it\<lparr>fd_br := ?w @ rest\<rparr>)"
      by (simp add: FloatDecoder_Next_def fd_ReadBit_def)
    also have "\<dots> = (if math_IsNaN v then (it\<lparr>fd_br := rest, fd_finished := True\<rparr>, False)
        else (it\<lparr>fd_br := rest, fd_val := v\<rparr>, True))"
      using fd_delta_Write [OF L x0 le, of "it\<lparr>fd_br := ?w @ rest\<rparr>" rest] win xv by simp
    finally show thesis
      using it w \<open>ld' = ld\<close> \<open>tr' = tr\<close>
      by (intro that [of "if math_IsNaN v then it\<lparr>fd_br := rest, fd_finished := True\<rparr> else it\<lparr>fd_br := rest, fd_val := v\<rparr>"])
        (auto simp: window_ok_def)
  next
    case False
    let ?w = "bit_Write L (drop_bit (unat ?t) x) (unat (64 - ?l - ?t))"
    have bs: "bs = [True, True] @ bit_Write L ?l 5 @ bit_Write L (64 - ?l - ?t) 6 @ ?w" "ld' = ?l" "tr' = ?t"
      using p False x0 by (auto simp: push_delta_def leading_clamp Let_def simp flip: x_def)
    let ?it1 = "it\<lparr>fd_br := bit_Write L ?l 5 @ bit_Write L (64 - ?l - ?t) 6 @ ?w @ rest\<rparr>"
    let ?it2 = "it\<lparr>fd_br := ?w @ rest, fd_leading := ?l, fd_trailing := ?t\<rparr>"
    have "fd_window L ?it1 = Some ?it2"
      using fd_window_Write [OF L l(2) lt, of ?it1 "?w @ rest"] by simp
    with it br bs have "FloatDecoder_Next L it = fd_delta L ?it2"
      by (simp add: FloatDecoder_Next_def fd_ReadBit_def)
    also have "\<dots> = (if math_IsNaN v then (?it2\<lparr>fd_br := rest, fd_finished := True\<rparr>, False)
        else (?it2\<lparr>fd_br := rest, fd_val := v\<rparr>, True))"
      using fd_delta_Write [OF L x0 l(1) order_refl, of ?it2 rest] unat_width [OF lt] xv by simp
    finally show thesis
      using it lt bs
      by (intro that [of "if math_IsNaN v then ?it2\<lparr>fd_br := rest, fd_finished := True\<rparr> else ?it2\<lparr>fd_br := rest, fd_val := v\<rparr>"])
        (auto simp: window_ok_def)
  qed
qed

section \<open>The codec\<close>

fun encode_deltas :: "tsm_libs \<Rightarrow> u64 \<Rightarrow> u64 \<Rightarrow> u64 \<Rightarrow> u64 list \<Rightarrow> bool list" where
  "encode_deltas L val ld tr [] = []"
| "encode_deltas L val ld tr (v # vs) =
     (case push_delta L (v XOR val) ld tr of (bs, ld', tr') \<Rightarrow> bs @ encode_deltas L v ld' tr' vs)"

definition float_encode :: "tsm_libs \<Rightarrow> u64 list \<Rightarrow> byte list tsm" where
  "float_encode L vs = FloatEncoder_Bytes L (FloatEncoder_Finish L (fold (FloatEncoder_Push L) vs NewFloatEncoder))"

lemma fold_Push_deltas:
  assumes "\<not> fe_first s" and "\<forall>v\<in>set vs. \<not> math_IsNaN v \<or> fe_finished s"
  shows "\<exists>s'. fold (FloatEncoder_Push L) vs s = s' \<and> fe_err s' = fe_err s \<and> fe_finished s' = fe_finished s \<and> \<not> fe_first s' \<and>
    (\<forall>us. fe_bits s' @ encode_deltas L (fe_val s') (fe_leading s') (fe_trailing s') us =
      fe_bits s @ encode_deltas L (fe_val s) (fe_leading s) (fe_trailing s) (vs @ us))"
  using assms
proof (induction vs arbitrary: s)
  case (Cons v vs)
  let ?s = "FloatEncoder_Push L v s"
  obtain bs l t where p: "push_delta L (v XOR fe_val s) (fe_leading s) (fe_trailing s) = (bs, l, t)" by (metis prod_cases3)
  have s: "?s = s\<lparr>fe_bits := fe_bits s @ bs, fe_leading := l, fe_trailing := t, fe_val := v\<rparr>"
    using Cons.prems p by (auto simp: FloatEncoder_Push_def)
  show ?case using Cons.IH [of ?s] Cons.prems p by (simp add: s)
qed simp

lemma FloatDecoder_yields:
  assumes L: "libs_ok L" and "\<forall>v\<in>set vs. \<not> math_IsNaN v" and "\<not> math_IsNaN (fd_val it)"
    and "fd_err it = None" "\<not> fd_finished it" "\<not> fd_first it" "window_ok ld tr it"
    and "fd_br it = encode_deltas L (fd_val it) ld tr (vs @ [math_NaN]) @ rest"
  shows "yields (Inr \<circ> FloatDecoder_Next L) (\<lambda>d. Inr (d, FloatDecoder_Values d)) fd_err it vs"
  using assms(2-)
proof (induction vs arbitrary: it ld tr)
  case Nil
  obtain bs l t where p: "push_delta L (math_NaN XOR fd_val it) ld tr = (bs, l, t)" by (metis prod_cases3)
  obtain it' where "FloatDecoder_Next L it = (it', \<not> math_IsNaN math_NaN)" "fd_err it' = None"
    by (rule Next_push_delta [OF L Nil(3,4,5,6) p, of rest]) (use Nil p in simp_all)
  with Nil show ?case by simp
next
  case (Cons v vs)
  obtain bs l t where p: "push_delta L (v XOR fd_val it) ld tr = (bs, l, t)" by (metis prod_cases3)
  have nn: "\<not> math_IsNaN v" using Cons.prems(1) by simp
  let ?rest = "encode_deltas L v l t (vs @ [math_NaN]) @ rest"
  obtain it' where it': "FloatDecoder_Next L it = (it', \<not> math_IsNaN v)" "fd_err it' = None"
      "\<not> math_IsNaN v \<longrightarrow> fd_val it' = v \<and> fd_br it' = ?rest \<and> \<not> fd_finished it' \<and> \<not> fd_first it' \<and> window_ok l t it'"
    by (rule Next_push_delta [OF L Cons.prems(3,4,5,6) p, of ?rest]) (use Cons.prems p in simp_all)
  have "yields (Inr \<circ> FloatDecoder_Next L) (\<lambda>d. Inr (d, FloatDecoder_Values d)) fd_err it' vs"
    using it' nn Cons.prems(1) by (intro Cons.IH [of it' l t]) simp_all
  with it' nn Cons.prems(3) show ?case by (simp add: FloatDecoder_Values_def comp_def)
qed

lemma float_encode_bits:
  assumes "\<forall>v\<in>set vs. \<not> math_IsNaN v"
  shows "float_encode L vs = Inr ([push_bit 4 floatCompressedGorilla] @ bit_Pack L
    (case vs of [] \<Rightarrow> bit_Write L math_NaN 64
     | v # us \<Rightarrow> bit_Write L v 64 @ encode_deltas L v (NOT 0) 0 (us @ [math_NaN])))"
proof (cases vs)
  case Nil
  then show ?thesis
    by (simp add: float_encode_def NewFloatEncoder_def FloatEncoder_Finish_def FloatEncoder_Push_def FloatEncoder_Bytes_def)
next
  case (Cons v us)
  let ?s0 = "FloatEncoder_Push L v NewFloatEncoder"
  have s0: "?s0 = NewFloatEncoder\<lparr>fe_val := v, fe_first := False, fe_bits := bit_Write L v 64\<rparr>"
    using assms Cons by (simp add: FloatEncoder_Push_def NewFloatEncoder_def)
  have "\<not> fe_first ?s0" "fe_err ?s0 = None" "\<not> fe_finished ?s0" "fe_bits ?s0 = bit_Write L v 64" "fe_val ?s0 = v"
      "fe_leading ?s0 = NOT 0" "fe_trailing ?s0 = 0"
    unfolding s0 by (simp_all add: NewFloatEncoder_def)
  then obtain s where s: "fold (FloatEncoder_Push L) us ?s0 = s" "fe_err s = None" "\<not> fe_finished s" "\<not> fe_first s"
      "\<forall>ws. fe_bits s @ encode_deltas L (fe_val s) (fe_leading s) (fe_trailing s) ws =
        bit_Write L v 64 @ encode_deltas L v (NOT 0) 0 (us @ ws)"
    using fold_Push_deltas [of ?s0 us L] assms Cons by auto
  obtain bs l t where p: "push_delta L (math_NaN XOR fe_val s) (fe_leading s) (fe_trailing s) = (bs, l, t)" by (metis prod_cases3)
  have "fe_bits s @ bs = bit_Write L v 64 @ encode_deltas L v (NOT 0) 0 (us @ [math_NaN])"
    using s(5) [rule_format, of "[math_NaN]"] p by simp
  with s p Cons show ?thesis
    by (simp add: float_encode_def FloatEncoder_Finish_def FloatEncoder_Push_def FloatEncoder_Bytes_def)
qed

interpretation float_codec: column_codec "\<lambda>vs. libs_ok L \<and> (\<forall>v\<in>set vs. \<not> math_IsNaN v)" "float_encode L"
  "NewFloatDecoder L" "Inr \<circ> FloatDecoder_Next L" "\<lambda>d. Inr (d, FloatDecoder_Values d)" fd_err for L
proof unfold_locales
  fix vs
  assume ok: "libs_ok L \<and> (\<forall>v\<in>set vs. \<not> math_IsNaN v)"
  let ?bits = "case vs of [] \<Rightarrow> bit_Write L math_NaN 64
     | v # us \<Rightarrow> bit_Write L v 64 @ encode_deltas L v (NOT 0) 0 (us @ [math_NaN])"
  let ?b = "[push_bit 4 floatCompressedGorilla] @ bit_Pack L ?bits"
  have enc: "float_encode L vs = Inr ?b" using ok by (intro float_encode_bits) simp
  obtain n where n: "bit_Unpack L (bit_Pack L ?bits) = ?bits @ replicate n False" using ok unfolding libs_ok_def by blast
  have rd: "bit_Read L 64 (bit_Write L u 64 @ rest) = Some (u, rest)" for u rest
    using ok by (simp add: libs_ok_def take_bit_word_eq_self)
  let ?it = "\<lambda>v rest. \<lparr>fd_val = v, fd_leading = 0, fd_trailing = 0, fd_br = rest, fd_first = True, fd_finished = False, fd_err = None\<rparr>"
  have "\<exists>s. NewFloatDecoder L ?b = Inr s \<and> yields (Inr \<circ> FloatDecoder_Next L) (\<lambda>d. Inr (d, FloatDecoder_Values d)) fd_err s vs"
  proof (cases vs)
    case Nil
    then have "NewFloatDecoder L ?b = Inr (?it math_NaN (replicate n False))"
      using n rd by (simp add: NewFloatDecoder_def slice_from_def)
    then show ?thesis using Nil by (simp add: FloatDecoder_Next_def)
  next
    case (Cons v us)
    let ?rest = "encode_deltas L v (NOT 0) 0 (us @ [math_NaN]) @ replicate n False"
    have new: "NewFloatDecoder L ?b = Inr (?it v ?rest)"
      using n rd Cons by (simp add: NewFloatDecoder_def slice_from_def)
    have "yields (Inr \<circ> FloatDecoder_Next L) (\<lambda>d. Inr (d, FloatDecoder_Values d)) fd_err ((?it v ?rest)\<lparr>fd_first := False\<rparr>) us"
      using ok Cons by (intro FloatDecoder_yields [where ld = "NOT 0" and tr = 0 and rest = "replicate n False"])
        (simp_all add: window_ok_def)
    moreover have "FloatDecoder_Next L (?it v ?rest) = ((?it v ?rest)\<lparr>fd_first := False\<rparr>, True)"
      using ok Cons by (simp add: FloatDecoder_Next_def)
    ultimately show ?thesis using new Cons by (simp add: FloatDecoder_Values_def comp_def)
  qed
  with enc show "\<exists>b s. float_encode L vs = Inr b \<and> NewFloatDecoder L b = Inr s \<and>
      yields (Inr \<circ> FloatDecoder_Next L) (\<lambda>d. Inr (d, FloatDecoder_Values d)) fd_err s vs"
    by blast
qed

text \<open>A column with a \<open>NaN\<close> is refused.\<close>

lemma Push_err: "fe_err s = Some UnsupportedNaN \<Longrightarrow> fe_err (FloatEncoder_Push L v s) = Some UnsupportedNaN"
  by (simp add: FloatEncoder_Push_def split: prod.split)

lemma fold_Push_err: "fe_err s = Some UnsupportedNaN \<Longrightarrow> fe_err (fold (FloatEncoder_Push L) vs s) = Some UnsupportedNaN"
  by (induction vs arbitrary: s) (simp_all add: Push_err)

lemma Push_finished: "fe_finished (FloatEncoder_Push L v s) = fe_finished s"
  by (simp add: FloatEncoder_Push_def split: prod.split)

lemma fold_Push_NaN:
  "\<exists>v\<in>set vs. math_IsNaN v \<Longrightarrow> \<not> fe_finished s \<Longrightarrow> fe_err (fold (FloatEncoder_Push L) vs s) = Some UnsupportedNaN"
proof (induction vs arbitrary: s)
  case (Cons v vs)
  show ?case
  proof (cases "math_IsNaN v")
    case True
    then have "fe_err (FloatEncoder_Push L v s) = Some UnsupportedNaN" using Cons.prems by (simp add: FloatEncoder_Push_def)
    then show ?thesis by (simp add: fold_Push_err)
  next
    case False
    with Cons show ?thesis by (simp add: Push_finished)
  qed
qed simp

lemma float_encode_NaN:
  assumes "\<exists>v\<in>set vs. math_IsNaN v"
  shows "float_encode L vs = Inl UnsupportedNaN"
proof -
  let ?s = "fold (FloatEncoder_Push L) vs NewFloatEncoder"
  have e: "fe_err ?s = Some UnsupportedNaN" using assms by (rule fold_Push_NaN) (simp add: NewFloatEncoder_def)
  then have "fe_err (FloatEncoder_Finish L ?s) = Some UnsupportedNaN"
    by (simp add: FloatEncoder_Finish_def Push_err)
  then show ?thesis by (simp add: float_encode_def FloatEncoder_Bytes_def)
qed

end
