(* ===== verification/TSM_Block.thy ===== *)
theory TSM_Block
  imports TSM_Time TSM_Bool TSM_String TSM_Int TSM_Float "HOL-Library.AList"
begin

text \<open>
  Blocks of the storage engine (\<open>tsm1/encoding.go\<close>): a column of timestamps and a column of values
  of one type, behind a header with the first timestamp and the type.
\<close>

section \<open>Values\<close>

text \<open>What a field of a point can hold; \<open>GoOther\<close> stands for the types without a value type.\<close>

datatype go_value = GoInt64 u64 | GoFloat64 u64 | GoBool bool | GoString "byte list" | GoOther

datatype Value = FloatValue time u64 | Int64Value time u64 | BoolValue time bool | StringValue time "byte list" | EmptyValue

definition tsdb_EOF :: int where "tsdb_EOF = - 1"

fun NewValue :: "time \<Rightarrow> go_value \<Rightarrow> Value" where
  "NewValue t (GoInt64 v) = Int64Value t v"
| "NewValue t (GoFloat64 v) = FloatValue t v"
| "NewValue t (GoBool v) = BoolValue t v"
| "NewValue t (GoString v) = StringValue t v"
| "NewValue t GoOther = EmptyValue"

fun Value_Time :: "Value \<Rightarrow> time" where
  "Value_Time (FloatValue t _) = t"
| "Value_Time (Int64Value t _) = t"
| "Value_Time (BoolValue t _) = t"
| "Value_Time (StringValue t _) = t"
| "Value_Time EmptyValue = time_Unix0 tsdb_EOF"

fun Value_UnixNano :: "Value \<Rightarrow> int" where
  "Value_UnixNano EmptyValue = tsdb_EOF"
| "Value_UnixNano v = time_UnixNano (Value_Time v)"

fun Value_Value :: "Value \<Rightarrow> go_value option" where
  "Value_Value (FloatValue _ v) = Some (GoFloat64 v)"
| "Value_Value (Int64Value _ v) = Some (GoInt64 v)"
| "Value_Value (BoolValue _ v) = Some (GoBool v)"
| "Value_Value (StringValue _ v) = Some (GoString v)"
| "Value_Value EmptyValue = None"

fun Value_Size :: "Value \<Rightarrow> int" where
  "Value_Size (FloatValue _ _) = 16"
| "Value_Size (Int64Value _ _) = 16"
| "Value_Size (BoolValue _ _) = 9"
| "Value_Size (StringValue _ v) = 8 + int (length v)"
| "Value_Size EmptyValue = 0"

definition Values_MinTime :: "Value list \<Rightarrow> int tsm" where
  "Values_MinTime a = (case a of [] \<Rightarrow> Inl PanicRange | v # _ \<Rightarrow> Inr (time_UnixNano (Value_Time v)))"

definition Values_MaxTime :: "Value list \<Rightarrow> int tsm" where
  "Values_MaxTime a = (if a = [] then Inl PanicRange else Inr (time_UnixNano (Value_Time (last a))))"

text \<open>The map walk of \<open>Deduplicate\<close> has no fixed order; the times are distinct, so sorting fixes it.\<close>

definition Values_Deduplicate :: "Value list \<Rightarrow> Value list" where
  "Values_Deduplicate a =
     sort_key (\<lambda>v. time_UnixNano (Value_Time v))
       (map snd (fold (\<lambda>val m. AList.update (Value_UnixNano val) val m) a []))"

section \<open>Packing\<close>

definition BlockFloat64 :: byte where "BlockFloat64 = 0"
definition BlockInt64 :: byte where "BlockInt64 = 1"
definition BlockBool :: byte where "BlockBool = 2"
definition BlockString :: byte where "BlockString = 3"
definition encodedBlockHeaderSize :: nat where "encodedBlockHeaderSize = 9"

definition packBlockHeader :: "time \<Rightarrow> byte \<Rightarrow> byte list" where
  "packBlockHeader firstTime blockType = PutUint64 (word_of_int (time_UnixNano firstTime)) @ [blockType]"

definition packBlock :: "byte list \<Rightarrow> byte list \<Rightarrow> byte list" where
  "packBlock ts values = (PutUvarint (of_nat (length ts)) @ ts) @ values"

definition unpackBlock :: "byte list \<Rightarrow> (byte list \<times> byte list) tsm" where
  "unpackBlock buf =
     (case Uvarint buf of
        (tsLen, i) \<Rightarrow>
          (case slice i (i + sint tsLen) buf of
             Inl e \<Rightarrow> Inl e
           | Inr ts \<Rightarrow>
               (case slice_from (i + sint tsLen) buf of
                  Inl e \<Rightarrow> Inl e
                | Inr values \<Rightarrow> Inr (ts, values))))"

lemma unpack_packBlock [simp]:
  assumes "length ts < 2 ^ 63"
  shows "unpackBlock (packBlock ts values) = Inr (ts, values)"
proof -
  have "sint (of_nat (length ts) :: u64) = int (length ts)" using assms by (rule sint_of_nat_small)
  moreover have "slice_from (int (length (PutUvarint (of_nat (length ts)))) + int (length ts))
      ((PutUvarint (of_nat (length ts)) @ ts) @ values) = Inr values"
    by (rule slice_from_append) simp
  ultimately show ?thesis by (simp add: unpackBlock_def packBlock_def)
qed

section \<open>Encoding\<close>

text \<open>
  The four encoders have the same shape: \<open>col\<close> is the type assertion of the loop, \<open>venc\<close> the column
  encoder.
\<close>

definition encode_column :: "tsm_libs \<Rightarrow> byte \<Rightarrow> (Value \<Rightarrow> 'v option) \<Rightarrow> ('v list \<Rightarrow> byte list tsm) \<Rightarrow> Value list \<Rightarrow> byte list tsm" where
  "encode_column L blockType col venc values =
     (case those (map col values) of
        None \<Rightarrow> Inl PanicTypeAssertion
      | Some vs \<Rightarrow>
          (case time_encode L (map Value_Time values) of
             Inl e \<Rightarrow> Inl e
           | Inr tb \<Rightarrow>
               (case venc vs of
                  Inl e \<Rightarrow> Inl e
                | Inr vb \<Rightarrow>
                    if values = [] then Inl PanicRange
                    else Inr (packBlockHeader (Value_Time (hd values)) blockType @ packBlock tb vb))))"

fun float_col :: "Value \<Rightarrow> u64 option" where
  "float_col (FloatValue _ v) = Some v" | "float_col _ = None"

fun int_col :: "Value \<Rightarrow> u64 option" where
  "int_col (Int64Value _ v) = Some v" | "int_col _ = None"

fun bool_col :: "Value \<Rightarrow> bool option" where
  "bool_col (BoolValue _ v) = Some v" | "bool_col _ = None"

fun string_col :: "Value \<Rightarrow> byte list option" where
  "string_col (StringValue _ v) = Some v" | "string_col _ = None"

definition encodeFloatBlock :: "tsm_libs \<Rightarrow> Value list \<Rightarrow> byte list tsm" where
  "encodeFloatBlock L values = (if length values = 0 then Inr [] else encode_column L BlockFloat64 float_col (float_encode L) values)"

definition encodeBoolBlock :: "tsm_libs \<Rightarrow> Value list \<Rightarrow> byte list tsm" where
  "encodeBoolBlock L values = (if length values = 0 then Inr [] else encode_column L BlockBool bool_col bool_encode values)"

definition encodeInt64Block :: "tsm_libs \<Rightarrow> Value list \<Rightarrow> byte list tsm" where
  "encodeInt64Block L values = encode_column L BlockInt64 int_col (int_encode L) values"

definition encodeStringBlock :: "tsm_libs \<Rightarrow> Value list \<Rightarrow> byte list tsm" where
  "encodeStringBlock L values = encode_column L BlockString string_col (string_encode L) values"

definition Values_Encode :: "tsm_libs \<Rightarrow> Value list \<Rightarrow> byte list tsm" where
  "Values_Encode L a =
     (case a of
        [] \<Rightarrow> Inl PanicEmptyBlock
      | FloatValue _ _ # _ \<Rightarrow> encodeFloatBlock L a
      | Int64Value _ _ # _ \<Rightarrow> encodeInt64Block L a
      | BoolValue _ _ # _ \<Rightarrow> encodeBoolBlock L a
      | StringValue _ _ # _ \<Rightarrow> encodeStringBlock L a
      | EmptyValue # _ \<Rightarrow> Inl UnsupportedValueType)"

section \<open>Decoding\<close>

text \<open>The loop over both decoders; it ends because the time decoder drops a timestamp in every round.\<close>

lemma decoder_Next_less: "decoder_Next d = (d', True) \<Longrightarrow> length (td_ts d') < length (td_ts d)"
  by (auto simp: decoder_Next_def split: list.splits)

function decode_pairs :: "'s next_op \<Rightarrow> ('s, 'v) read_op \<Rightarrow> decoder \<Rightarrow> 's \<Rightarrow> ((time \<times> 'v) list \<times> decoder \<times> 's) tsm" where
  "decode_pairs nx rd d s =
     (case decoder_Next d of
        (d', False) \<Rightarrow> Inr ([], d', s)
      | (d', True) \<Rightarrow>
          (case nx s of
             Inl e \<Rightarrow> Inl e
           | Inr (s', False) \<Rightarrow> Inr ([], d', s')
           | Inr (s', True) \<Rightarrow>
               (case rd s' of
                  Inl e \<Rightarrow> Inl e
                | Inr (s'', v) \<Rightarrow>
                    (case decode_pairs nx rd d' s'' of
                       Inl e \<Rightarrow> Inl e
                     | Inr (ps, r) \<Rightarrow> Inr ((decoder_Read d', v) # ps, r)))))"
  by pat_completeness auto
termination
  by (relation "measure (\<lambda>(nx, rd, d, s). length (td_ts d))") (auto dest: decoder_Next_less [OF sym])

declare decode_pairs.simps [simp del]

text \<open>
  The four decoders have the same shape, too.  On an error the caller's slice in the source keeps the
  values appended before the error; the model returns the error alone.
\<close>

definition decode_column :: "tsm_libs \<Rightarrow> byte \<Rightarrow> (byte list \<Rightarrow> 's tsm) \<Rightarrow> 's next_op \<Rightarrow> ('s, 'v) read_op \<Rightarrow>
    ('s \<Rightarrow> tsm_error option) \<Rightarrow> (time \<Rightarrow> 'v \<Rightarrow> Value) \<Rightarrow> byte list \<Rightarrow> Value list \<Rightarrow> Value list tsm" where
  "decode_column L exp_type mk nx rd er con block a =
     (if drop 8 block = [] then Inl PanicRange
      else if hd (drop 8 block) \<noteq> exp_type then Inl InvalidBlockType
      else case unpackBlock (tl (drop 8 block)) of
        Inl e \<Rightarrow> Inl e
      | Inr (tb, vb) \<Rightarrow>
          (case NewTimeDecoder L tb of
             Inl e \<Rightarrow> Inl e
           | Inr d \<Rightarrow>
               (case mk vb of
                  Inl e \<Rightarrow> Inl e
                | Inr s \<Rightarrow>
                    (case decode_pairs nx rd d s of
                       Inl e \<Rightarrow> Inl e
                     | Inr (ps, d', s') \<Rightarrow>
                         (case td_err d' of
                            Some e \<Rightarrow> Inl e
                          | None \<Rightarrow>
                              (case er s' of
                                 Some e \<Rightarrow> Inl e
                               | None \<Rightarrow> Inr (a @ map (\<lambda>(t, v). con t v) ps)))))))"

definition decodeFloatBlock :: "tsm_libs \<Rightarrow> byte list \<Rightarrow> Value list \<Rightarrow> Value list tsm" where
  "decodeFloatBlock L = decode_column L BlockFloat64 (NewFloatDecoder L) (Inr \<circ> FloatDecoder_Next L)
     (\<lambda>d. Inr (d, FloatDecoder_Values d)) fd_err FloatValue"

definition decodeBoolBlock :: "tsm_libs \<Rightarrow> byte list \<Rightarrow> Value list \<Rightarrow> Value list tsm" where
  "decodeBoolBlock L = decode_column L BlockBool NewBoolDecoder (Inr \<circ> boolDecoder_Next) bool_read bd_err BoolValue"

definition decodeInt64Block :: "tsm_libs \<Rightarrow> byte list \<Rightarrow> Value list \<Rightarrow> Value list tsm" where
  "decodeInt64Block L = decode_column L BlockInt64 NewInt64Decoder (int64Decoder_Next L) int64Decoder_Read id_err Int64Value"

definition decodeStringBlock :: "tsm_libs \<Rightarrow> byte list \<Rightarrow> Value list \<Rightarrow> Value list tsm" where
  "decodeStringBlock L = decode_column L BlockString (NewStringDecoder L) (Inr \<circ> stringDecoder_Next) stringDecoder_Read sd_err StringValue"

definition DecodeBlock :: "tsm_libs \<Rightarrow> byte list \<Rightarrow> Value list \<Rightarrow> Value list tsm" where
  "DecodeBlock L block vals =
     (if length block \<le> encodedBlockHeaderSize then Inl PanicShortBlock
      else let blockType = block ! 8 in
        if blockType = BlockFloat64 then decodeFloatBlock L block vals
        else if blockType = BlockInt64 then decodeInt64Block L block vals
        else if blockType = BlockBool then decodeBoolBlock L block vals
        else if blockType = BlockString then decodeStringBlock L block vals
        else Inl PanicUnknownBlock)"

section \<open>Round trip\<close>

lemma decode_pairs_yields:
  assumes "yields (Inr \<circ> decoder_Next) (\<lambda>d. Inr (d, decoder_Read d)) td_err d ts" and "yields nx rd er s vs"
    and "length ts = length vs"
  shows "\<exists>d' s'. decode_pairs nx rd d s = Inr (zip ts vs, d', s') \<and> td_err d' = None \<and> er s' = None"
  using assms
proof (induction ts arbitrary: d s vs)
  case Nil
  then show ?case by (subst decode_pairs.simps) auto
next
  case (Cons t ts)
  then obtain v us where vs: "vs = v # us" by (cases vs) auto
  from Cons.prems(1) obtain d' where d: "decoder_Next d = (d', True)" "decoder_Read d' = t"
      "yields (Inr \<circ> decoder_Next) (\<lambda>d. Inr (d, decoder_Read d)) td_err d' ts"
    by (auto simp: comp_def)
  from Cons.prems(2) obtain s' s'' where s: "nx s = Inr (s', True)" "rd s' = Inr (s'', v)" "yields nx rd er s'' us"
    by (auto simp: vs)
  from Cons.IH [OF d(3) s(3)] Cons.prems(3) obtain d2 s2 where
      "decode_pairs nx rd d' s'' = Inr (zip ts us, d2, s2)" "td_err d2 = None" "er s2 = None"
    by (auto simp: vs)
  with d s show ?case by (subst decode_pairs.simps) (simp add: vs)
qed

lemma those_map_Some:
  assumes "those (map f xs) = Some ys"
  shows "length ys = length xs" and "\<forall>(x, y)\<in>set (zip xs ys). f x = Some y"
proof -
  have "length ys = length xs \<and> (\<forall>(x, y)\<in>set (zip xs ys). f x = Some y)"
    using assms by (induction xs arbitrary: ys) (auto split: option.splits)
  then show "length ys = length xs" "\<forall>(x, y)\<in>set (zip xs ys). f x = Some y" by simp_all
qed

lemma those_None: "a \<noteq> [] \<Longrightarrow> f (hd a) = None \<Longrightarrow> those (map f a) = None"
  by (cases a) simp_all

context column_codec begin

text \<open>A block whose value column is coded by this codec comes back.\<close>

lemma block_roundtrip:
  assumes a: "a \<noteq> []" and cols: "those (map col a) = Some vs" and v: "ok vs" and L: "libs_ok L" and len: "length a < 2 ^ 63"
    and t: "\<forall>v\<in>set a. nano_range (Value_Time v)" and con: "\<And>v x. col v = Some x \<Longrightarrow> con (Value_Time v) x = v"
  shows "\<exists>b. encode_column L ty col enc a = Inr b \<and> 9 < length b \<and> b ! 8 = ty \<and>
    (length b < 2 ^ 63 \<longrightarrow> decode_column L ty mk nx rd er con b vals = Inr (vals @ a))"
proof -
  from decodes [OF v] obtain vb s where vb: "enc vs = Inr vb" "mk vb = Inr s" "yields nx rd er s vs" by auto
  obtain tb d where tb: "time_encode L (map Value_Time a) = Inr tb" "NewTimeDecoder L tb = Inr d"
      "yields (Inr \<circ> decoder_Next) (\<lambda>d. Inr (d, decoder_Read d)) td_err d (map Value_Time a)"
    using time_codec.decodes [of L "map Value_Time a"] L len t by auto
  let ?b = "packBlockHeader (Value_Time (hd a)) ty @ packBlock tb vb"
  have enc: "encode_column L ty col enc a = Inr ?b" using a cols vb tb by (simp add: encode_column_def)
  have l: "length vs = length a" and zz: "\<forall>(x, y)\<in>set (zip a vs). col x = Some y" using those_map_Some [OF cols] by simp_all
  have "map (\<lambda>(t, v). con t v) (zip (map Value_Time a) vs) = map (\<lambda>(x, y). con (Value_Time x) y) (zip a vs)"
    by (simp add: zip_map1 comp_def case_prod_beta)
  also have "\<dots> = map fst (zip a vs)" using zz con by (intro map_cong) auto
  also have "\<dots> = a" using l by simp
  finally have again: "map (\<lambda>(t, v). con t v) (zip (map Value_Time a) vs) = a" .
  have "length (map Value_Time a) = length vs" using l by simp
  from decode_pairs_yields [OF tb(3) vb(3) this] obtain d' s' where
      p: "decode_pairs nx rd d s = Inr (zip (map Value_Time a) vs, d', s')" "td_err d' = None" "er s' = None"
    by auto
  have hdr: "drop 8 ?b = ty # packBlock tb vb" by (simp add: packBlockHeader_def)
  have "decode_column L ty mk nx rd er con ?b vals = Inr (vals @ a)" if "length ?b < 2 ^ 63"
  proof -
    have "length tb < 2 ^ 63" using that by (simp add: packBlock_def)
    then show ?thesis using hdr tb(2) vb(2) p again by (simp add: decode_column_def)
  qed
  moreover have "9 < length ?b" by (simp add: packBlockHeader_def packBlock_def)
  moreover have "?b ! 8 = ty" using hdr by (metis nth_via_drop)
  ultimately show ?thesis using enc by blast
qed

end

definition block_ok :: "Value list \<Rightarrow> bool" where
  "block_ok a \<longleftrightarrow> a \<noteq> [] \<and> length a < 2 ^ 63 \<and> (\<forall>v\<in>set a. nano_range (Value_Time v)) \<and>
     (case those (map float_col a) of
        Some vs \<Rightarrow> (\<forall>v\<in>set vs. \<not> math_IsNaN v)
      | None \<Rightarrow>
          (case those (map int_col a) of
             Some vs \<Rightarrow> rle_ok vs
           | None \<Rightarrow>
               (case those (map bool_col a) of
                  Some vs \<Rightarrow> True
                | None \<Rightarrow>
                    (case those (map string_col a) of
                       Some ss \<Rightarrow> (\<forall>s\<in>set ss. length s < 2 ^ 63)
                     | None \<Rightarrow> False))))"

lemma float_col_con: "float_col v = Some x \<Longrightarrow> FloatValue (Value_Time v) x = v" by (cases v) simp_all
lemma int_col_con: "int_col v = Some x \<Longrightarrow> Int64Value (Value_Time v) x = v" by (cases v) simp_all
lemma bool_col_con: "bool_col v = Some x \<Longrightarrow> BoolValue (Value_Time v) x = v" by (cases v) simp_all
lemma string_col_con: "string_col v = Some x \<Longrightarrow> StringValue (Value_Time v) x = v" by (cases v) simp_all

lemma those_hd: "those (map f a) = Some vs \<Longrightarrow> a \<noteq> [] \<Longrightarrow> f (hd a) \<noteq> None"
  by (cases a) (auto split: option.splits)

lemma Values_Encode_decodes:
  assumes ok: "block_ok a" and L: "libs_ok L"
  shows "\<exists>b. Values_Encode L a = Inr b \<and> (length b < 2 ^ 63 \<longrightarrow> DecodeBlock L b vals = Inr (vals @ a))"
proof -
  from ok have a: "a \<noteq> []" "length a < 2 ^ 63" "\<forall>v\<in>set a. nano_range (Value_Time v)" by (simp_all add: block_ok_def)
  then obtain x xs where ax: "a = x # xs" by (cases a) auto
  note types = BlockFloat64_def BlockInt64_def BlockBool_def BlockString_def encodedBlockHeaderSize_def
  from ok consider
      (f) vs where "those (map float_col a) = Some vs" "\<forall>v\<in>set vs. \<not> math_IsNaN v"
    | (i) vs where "those (map int_col a) = Some vs" "rle_ok vs"
    | (b) vs where "those (map bool_col a) = Some vs"
    | (s) vs where "those (map string_col a) = Some vs" "\<forall>s\<in>set vs. length s < 2 ^ 63"
    by (auto simp: block_ok_def split: option.splits)
  then show ?thesis
  proof cases
    case f
    have len: "length vs = length a" using those_map_Some(1) [OF f(1)] .
    have "\<exists>b. encode_column L BlockFloat64 float_col (float_encode L) a = Inr b \<and> 9 < length b \<and> b ! 8 = BlockFloat64 \<and>
        (length b < 2 ^ 63 \<longrightarrow> decodeFloatBlock L b vals = Inr (vals @ a))"
      unfolding decodeFloatBlock_def
      by (rule float_codec.block_roundtrip [OF a(1) f(1) _ L a(2,3) float_col_con]) (use L f(2) in simp_all)
    then obtain bs where bs: "encodeFloatBlock L a = Inr bs" "DecodeBlock L bs vals = decodeFloatBlock L bs vals"
        "length bs < 2 ^ 63 \<longrightarrow> decodeFloatBlock L bs vals = Inr (vals @ a)"
      using a(1) by (auto simp: encodeFloatBlock_def DecodeBlock_def types)
    moreover have "Values_Encode L a = encodeFloatBlock L a"
      using those_hd [OF f(1) a(1)] by (cases x) (simp_all add: Values_Encode_def ax)
    ultimately show ?thesis by simp
  next
    case i
    have len: "length vs = length a" using those_map_Some(1) [OF i(1)] .
    have "\<exists>b. encode_column L BlockInt64 int_col (int_encode L) a = Inr b \<and> 9 < length b \<and> b ! 8 = BlockInt64 \<and>
        (length b < 2 ^ 63 \<longrightarrow> decodeInt64Block L b vals = Inr (vals @ a))"
      unfolding decodeInt64Block_def
      by (rule int_codec.block_roundtrip [OF a(1) i(1) _ L a(2,3) int_col_con]) (use L i(2) len a(2) in simp_all)
    then obtain bs where bs: "encodeInt64Block L a = Inr bs" "DecodeBlock L bs vals = decodeInt64Block L bs vals"
        "length bs < 2 ^ 63 \<longrightarrow> decodeInt64Block L bs vals = Inr (vals @ a)"
      using a(1) by (auto simp: encodeInt64Block_def DecodeBlock_def types)
    moreover have "Values_Encode L a = encodeInt64Block L a"
      using those_hd [OF i(1) a(1)] by (cases x) (simp_all add: Values_Encode_def ax)
    ultimately show ?thesis by simp
  next
    case b
    have len: "length vs = length a" using those_map_Some(1) [OF b(1)] .
    have "\<exists>b. encode_column L BlockBool bool_col bool_encode a = Inr b \<and> 9 < length b \<and> b ! 8 = BlockBool \<and>
        (length b < 2 ^ 63 \<longrightarrow> decodeBoolBlock L b vals = Inr (vals @ a))"
      unfolding decodeBoolBlock_def
      by (rule bool_codec.block_roundtrip [OF a(1) b(1) _ L a(2,3) bool_col_con]) (use len a(2) in simp_all)
    then obtain bs where bs: "encodeBoolBlock L a = Inr bs" "DecodeBlock L bs vals = decodeBoolBlock L bs vals"
        "length bs < 2 ^ 63 \<longrightarrow> decodeBoolBlock L bs vals = Inr (vals @ a)"
      using a(1) by (auto simp: encodeBoolBlock_def DecodeBlock_def types)
    moreover have "Values_Encode L a = encodeBoolBlock L a"
      using those_hd [OF b(1) a(1)] by (cases x) (simp_all add: Values_Encode_def ax)
    ultimately show ?thesis by simp
  next
    case s
    have len: "length vs = length a" using those_map_Some(1) [OF s(1)] .
    have "\<exists>b. encode_column L BlockString string_col (string_encode L) a = Inr b \<and> 9 < length b \<and> b ! 8 = BlockString \<and>
        (length b < 2 ^ 63 \<longrightarrow> decodeStringBlock L b vals = Inr (vals @ a))"
      unfolding decodeStringBlock_def
      by (rule string_codec.block_roundtrip [OF a(1) s(1) _ L a(2,3) string_col_con]) (use L s(2) in simp_all)
    then obtain bs where bs: "encodeStringBlock L a = Inr bs" "DecodeBlock L bs vals = decodeStringBlock L bs vals"
        "length bs < 2 ^ 63 \<longrightarrow> decodeStringBlock L bs vals = Inr (vals @ a)"
      using a(1) by (auto simp: encodeStringBlock_def DecodeBlock_def types)
    moreover have "Values_Encode L a = encodeStringBlock L a"
      using those_hd [OF s(1) a(1)] by (cases x) (simp_all add: Values_Encode_def ax)
    ultimately show ?thesis by simp
  qed
qed

section \<open>Deduplication\<close>

lemma Value_UnixNano_Time: "time_UnixNano (Value_Time v) = Value_UnixNano v"
  by (cases v) (simp_all add: time_UnixNano_def time_Unix0_def tsdb_EOF_def to_int64_def)

lemma dedup_map:
  fixes a :: "Value list"
  defines "m \<equiv> fold (\<lambda>val m. AList.update (Value_UnixNano val) val m) a []"
  shows "distinct (map fst m) \<and> fst ` set m = Value_UnixNano ` set a \<and>
    (\<forall>(k, v)\<in>set m. Value_UnixNano v = k \<and> v = last (filter (\<lambda>w. Value_UnixNano w = k) a))"
  unfolding m_def
proof (induction a rule: rev_induct)
  case (snoc x a)
  let ?m = "fold (\<lambda>val m. AList.update (Value_UnixNano val) val m) a []"
  have last: "Value_UnixNano v = k \<and> v = last (filter (\<lambda>w. Value_UnixNano w = k) (a @ [x]))"
    if "(k, v) \<in> set (AList.update (Value_UnixNano x) x ?m)" for k v
  proof -
    have d: "distinct (map fst (AList.update (Value_UnixNano x) x ?m))" using snoc by (simp add: distinct_update)
    have "map_of (AList.update (Value_UnixNano x) x ?m) k = Some v" using d that by (rule map_of_is_SomeI)
    then have "(if k = Value_UnixNano x then Some x else map_of ?m k) = Some v" by (simp add: update_conv fun_upd_def)
    then consider "k = Value_UnixNano x" "v = x" | "k \<noteq> Value_UnixNano x" "(k, v) \<in> set ?m"
      by (auto split: if_splits dest: map_of_SomeD)
    then show ?thesis using snoc by cases auto
  qed
  have "dom (map_of (AList.update (Value_UnixNano x) x ?m)) = insert (Value_UnixNano x) (dom (map_of ?m))"
    unfolding update_conv' by simp
  then have keys: "fst ` set (AList.update (Value_UnixNano x) x ?m) = Value_UnixNano ` set (a @ [x])"
    using snoc by (simp only: dom_map_of_conv_image_fst) simp
  have "distinct (map fst (AList.update (Value_UnixNano x) x ?m))" using snoc by (simp add: distinct_update)
  moreover have "fold (\<lambda>val m. AList.update (Value_UnixNano val) val m) (a @ [x]) [] = AList.update (Value_UnixNano x) x ?m"
    by simp
  moreover have "\<forall>(k, v)\<in>set (AList.update (Value_UnixNano x) x ?m). Value_UnixNano v = k \<and>
      v = last (filter (\<lambda>w. Value_UnixNano w = k) (a @ [x]))"
    using last by blast
  ultimately show ?case using keys by (simp only: simp_thms)
qed simp

lemma Values_Deduplicate_eq:
  shows "sorted_wrt (<) (map Value_UnixNano (Values_Deduplicate a))"
    and "Value_UnixNano ` set (Values_Deduplicate a) = Value_UnixNano ` set a"
    and "v \<in> set (Values_Deduplicate a) \<Longrightarrow> v = last (filter (\<lambda>w. Value_UnixNano w = Value_UnixNano v) a)"
proof -
  let ?m = "fold (\<lambda>val m. AList.update (Value_UnixNano val) val m) a []"
  define xs where "xs = map snd ?m"
  have D: "Values_Deduplicate a = sort_key Value_UnixNano xs"
    by (simp add: Values_Deduplicate_def Value_UnixNano_Time xs_def)
  have m: "distinct (map fst ?m)" "fst ` set ?m = Value_UnixNano ` set a"
      "\<forall>(k, v)\<in>set ?m. Value_UnixNano v = k \<and> v = last (filter (\<lambda>w. Value_UnixNano w = k) a)"
    using dedup_map [of a] by simp_all
  have keys: "map Value_UnixNano xs = map fst ?m" using m(3) by (auto simp: xs_def)
  have "mset (map Value_UnixNano (Values_Deduplicate a)) = mset (map Value_UnixNano xs)" by (simp only: D mset_map mset_sort)
  then have "distinct (map Value_UnixNano (Values_Deduplicate a))" using m(1) keys by (metis mset_eq_imp_distinct_iff)
  moreover have "sorted (map Value_UnixNano (Values_Deduplicate a))" by (simp add: D)
  ultimately show "sorted_wrt (<) (map Value_UnixNano (Values_Deduplicate a))" by (simp add: strict_sorted_iff)
  show "Value_UnixNano ` set (Values_Deduplicate a) = Value_UnixNano ` set a"
    using m(2) arg_cong [OF keys, of set] by (simp only: D set_sort list.set_map)
  show "v = last (filter (\<lambda>w. Value_UnixNano w = Value_UnixNano v) a)" if "v \<in> set (Values_Deduplicate a)"
    using that m(3) by (auto simp: D xs_def)
qed

end
