(* ===== verification/TSM_Lock.thy ===== *)
theory TSM_Lock
  imports Go_Prelude
begin

text \<open>
  The range lock of the storage engine (\<open>tsm1/write_lock.go\<close>) as a transition system: flushes and
  compactions lock ranges of keys.  Range locks are objects with a mutex of their own, so they live
  in a heap; a thread in \<open>LockRange\<close> works on a snapshot of the locked ranges.  The comparison of
  the snapshot with the current ranges looks at the contents of the objects, mutexes included.
\<close>

record rangeLock =
  rl_locked :: bool
  rl_min :: int
  rl_max :: int

definition rangeLock_overlaps :: "rangeLock \<Rightarrow> rangeLock \<Rightarrow> bool" where
  "rangeLock_overlaps r l =
     (if rl_min l \<ge> rl_min r \<and> rl_min l \<le> rl_max r then True
      else if rl_max l \<ge> rl_min r \<and> rl_max l \<le> rl_max r then True
      else if rl_min l \<le> rl_min r \<and> rl_max l \<ge> rl_max r then True
      else if rl_min l \<ge> rl_min r \<and> rl_max l \<le> rl_max r then True
      else False)"

lemma overlaps_iff:
  assumes "rl_min r \<le> rl_max r" and "rl_min l \<le> rl_max l"
  shows "rangeLock_overlaps r l \<longleftrightarrow> rl_min r \<le> rl_max l \<and> rl_min l \<le> rl_max r"
  using assms by (auto simp: rangeLock_overlaps_def)

section \<open>Threads\<close>

text \<open>
  Where a thread is: outside, in the loop over its snapshot (the rest of it still to be visited),
  holding the mutex of the range it waited for, before the final comparison, or inside.
\<close>

datatype lk_phase = Outside
  | Visiting int int "nat list" "nat list"
  | Grabbed int int "nat list" nat "nat list"
  | Inside int int nat

record WriteLock =
  wl_heap :: "nat \<Rightarrow> rangeLock"
  wl_ranges :: "nat list"
  wl_fresh :: nat
  wl_threads :: "nat \<Rightarrow> lk_phase"

definition wl_init :: WriteLock where
  "wl_init = \<lparr>wl_heap = (\<lambda>_. \<lparr>rl_locked = False, rl_min = 0, rl_max = 0\<rparr>), wl_ranges = [], wl_fresh = 0,
     wl_threads = (\<lambda>_. Outside)\<rparr>"

definition set_phase :: "nat \<Rightarrow> lk_phase \<Rightarrow> WriteLock \<Rightarrow> WriteLock" where
  "set_phase t p w = w\<lparr>wl_threads := (wl_threads w)(t := p)\<rparr>"

definition set_locked :: "nat \<Rightarrow> bool \<Rightarrow> WriteLock \<Rightarrow> WriteLock" where
  "set_locked i b w = w\<lparr>wl_heap := (wl_heap w)(i := (wl_heap w i)\<lparr>rl_locked := b\<rparr>)\<rparr>"

text \<open>
  \<open>reflect.DeepEqual\<close> on slices of pointers: equal pointers or equal contents.  Of the state of a
  mutex the model keeps whether it is locked; the number of its waiters is not modelled.
\<close>

definition DeepEqual :: "(nat \<Rightarrow> rangeLock) \<Rightarrow> nat list \<Rightarrow> nat list \<Rightarrow> bool" where
  "DeepEqual h xs ys \<longleftrightarrow> list_all2 (\<lambda>i j. i = j \<or> h i = h j) xs ys"

definition WriteLock_currentlyLockedRanges :: "WriteLock \<Rightarrow> nat list" where
  "WriteLock_currentlyLockedRanges w = wl_ranges w"

definition WriteLock_UnlockRange :: "int \<Rightarrow> int \<Rightarrow> WriteLock \<Rightarrow> WriteLock" where
  "WriteLock_UnlockRange mn mx w =
     (let hit = (\<lambda>i. rl_min (wl_heap w i) = mn \<and> rl_max (wl_heap w i) = mx) in
      w\<lparr>wl_heap := (\<lambda>i. if i \<in> set (wl_ranges w) \<and> hit i then (wl_heap w i)\<lparr>rl_locked := False\<rparr> else wl_heap w i),
        wl_ranges := filter (\<lambda>i. \<not> hit i) (wl_ranges w)\<rparr>)"

text \<open>The steps of \<open>LockRange\<close> and the release; the parts under \<open>rangesLock\<close> are single steps.\<close>

definition lock_range :: "int \<Rightarrow> int \<Rightarrow> rangeLock" where
  "lock_range mn mx = \<lparr>rl_locked = True, rl_min = mn, rl_max = mx\<rparr>"

inductive lock_step :: "WriteLock \<Rightarrow> WriteLock \<Rightarrow> bool" where
  start: "wl_threads w t = Outside \<Longrightarrow> mn \<le> mx \<Longrightarrow>
    lock_step w (set_phase t (Visiting mn mx (WriteLock_currentlyLockedRanges w) (WriteLock_currentlyLockedRanges w)) w)"
| pass: "wl_threads w t = Visiting mn mx snap (i # rest) \<Longrightarrow> \<not> rangeLock_overlaps (wl_heap w i) (lock_range mn mx) \<Longrightarrow>
    lock_step w (set_phase t (Visiting mn mx snap rest) w)"
| grab: "wl_threads w t = Visiting mn mx snap (i # rest) \<Longrightarrow> rangeLock_overlaps (wl_heap w i) (lock_range mn mx) \<Longrightarrow>
    \<not> rl_locked (wl_heap w i) \<Longrightarrow> lock_step w (set_phase t (Grabbed mn mx snap i rest) (set_locked i True w))"
| release: "wl_threads w t = Grabbed mn mx snap i rest \<Longrightarrow>
    lock_step w (set_phase t (Visiting mn mx snap rest) (set_locked i False w))"
| enter: "wl_threads w t = Visiting mn mx snap [] \<Longrightarrow> wl_ranges w = [] \<or> DeepEqual (wl_heap w) snap (wl_ranges w) \<Longrightarrow>
    lock_step w (set_phase t (Inside mn mx (wl_fresh w))
      (w\<lparr>wl_heap := (wl_heap w)(wl_fresh w := lock_range mn mx), wl_ranges := wl_ranges w @ [wl_fresh w],
         wl_fresh := Suc (wl_fresh w)\<rparr>))"
| again: "wl_threads w t = Visiting mn mx snap [] \<Longrightarrow> \<not> (wl_ranges w = [] \<or> DeepEqual (wl_heap w) snap (wl_ranges w)) \<Longrightarrow>
    lock_step w (set_phase t (Visiting mn mx (WriteLock_currentlyLockedRanges w) (WriteLock_currentlyLockedRanges w)) w)"
| leave: "wl_threads w t = Inside mn mx i \<Longrightarrow> lock_step w (set_phase t Outside (WriteLock_UnlockRange mn mx w))"

definition lock_reach :: "WriteLock \<Rightarrow> bool" where
  "lock_reach w \<longleftrightarrow> lock_step\<^sup>*\<^sup>* wl_init w"

text \<open>Two threads are inside overlapping ranges.\<close>

definition clash :: "WriteLock \<Rightarrow> bool" where
  "clash w \<longleftrightarrow> (\<exists>t t' mn mx i mn' mx' i'. t \<noteq> t' \<and> wl_threads w t = Inside mn mx i \<and> wl_threads w t' = Inside mn' mx' i' \<and>
     mn \<le> mx' \<and> mn' \<le> mx)"

section \<open>Executions without a range grabbed at entry\<close>

definition quiet :: "WriteLock \<Rightarrow> bool" where
  "quiet w \<longleftrightarrow> (\<forall>t mn mx snap i rest. wl_threads w t \<noteq> Grabbed mn mx snap i rest)"

inductive quiet_reach :: "WriteLock \<Rightarrow> bool" where
  init: "quiet_reach wl_init"
| step: "quiet_reach w \<Longrightarrow> lock_step w w' \<Longrightarrow> length (wl_ranges w) < length (wl_ranges w') \<longrightarrow> quiet w \<Longrightarrow> quiet_reach w'"

definition apart :: "rangeLock \<Rightarrow> rangeLock \<Rightarrow> bool" where
  "apart r l \<longleftrightarrow> rl_max r < rl_min l \<or> rl_max l < rl_min r"

text \<open>
  The invariant: the listed ranges are locked, distinct and apart; a locked range that is not listed
  is grabbed; a thread that passed a range of its snapshot knows that it is apart from its own or
  gone; a thread inside owns a listed range.
\<close>

definition heap_inv :: "WriteLock \<Rightarrow> bool" where
  "heap_inv w \<longleftrightarrow> distinct (wl_ranges w) \<and> (\<forall>i\<in>set (wl_ranges w). i < wl_fresh w \<and> rl_locked (wl_heap w i)) \<and>
     (\<forall>i < wl_fresh w. rl_min (wl_heap w i) \<le> rl_max (wl_heap w i)) \<and>
     (\<forall>i\<in>set (wl_ranges w). \<forall>j\<in>set (wl_ranges w). i \<noteq> j \<longrightarrow> apart (wl_heap w i) (wl_heap w j))"

definition passed :: "WriteLock \<Rightarrow> int \<Rightarrow> int \<Rightarrow> nat list \<Rightarrow> bool" where
  "passed w mn mx vis \<longleftrightarrow> mn \<le> mx \<and> (\<forall>j\<in>set vis. j < wl_fresh w \<and> (j \<in> set (wl_ranges w) \<longrightarrow> apart (wl_heap w j) (lock_range mn mx)))"

fun phase_inv :: "WriteLock \<Rightarrow> lk_phase \<Rightarrow> bool" where
  "phase_inv w Outside = True"
| "phase_inv w (Visiting mn mx snap rest) \<longleftrightarrow> (\<exists>vis. snap = vis @ rest \<and> passed w mn mx vis \<and> (\<forall>j\<in>set rest. j < wl_fresh w))"
| "phase_inv w (Grabbed mn mx snap i rest) \<longleftrightarrow>
     (\<exists>vis. snap = vis @ i # rest \<and> passed w mn mx vis \<and> (\<forall>j\<in>set (i # rest). j < wl_fresh w) \<and> i \<notin> set (wl_ranges w))"
| "phase_inv w (Inside mn mx i) \<longleftrightarrow> i \<in> set (wl_ranges w) \<and> rl_min (wl_heap w i) = mn \<and> rl_max (wl_heap w i) = mx"

definition lock_inv :: "WriteLock \<Rightarrow> bool" where
  "lock_inv w \<longleftrightarrow> heap_inv w \<and> (\<forall>t. phase_inv w (wl_threads w t)) \<and>
     (\<forall>i < wl_fresh w. i \<notin> set (wl_ranges w) \<and> rl_locked (wl_heap w i) \<longrightarrow>
        (\<exists>t mn mx snap rest. wl_threads w t = Grabbed mn mx snap i rest)) \<and>
     (\<forall>t t' mn mx i mn' mx'. wl_threads w t = Inside mn mx i \<and> wl_threads w t' = Inside mn' mx' i \<longrightarrow> t = t')"

lemma set_phase_simps [simp]:
  "wl_heap (set_phase t p w) = wl_heap w" "wl_ranges (set_phase t p w) = wl_ranges w" "wl_fresh (set_phase t p w) = wl_fresh w"
  "wl_threads (set_phase t p w) = (wl_threads w)(t := p)"
  by (simp_all add: set_phase_def)

lemma set_locked_simps [simp]:
  "wl_heap (set_locked i b w) = (wl_heap w)(i := (wl_heap w i)\<lparr>rl_locked := b\<rparr>)" "wl_ranges (set_locked i b w) = wl_ranges w"
  "wl_fresh (set_locked i b w) = wl_fresh w" "wl_threads (set_locked i b w) = wl_threads w"
  by (simp_all add: set_locked_def)

lemma apart_locked [simp]: "apart (r\<lparr>rl_locked := b\<rparr>) l = apart r l" "apart l (r\<lparr>rl_locked := b\<rparr>) = apart l r"
  by (simp_all add: apart_def)

lemma not_overlaps_apart:
  assumes "rl_min r \<le> rl_max r" and "mn \<le> mx"
  shows "rangeLock_overlaps r (lock_range mn mx) \<longleftrightarrow> \<not> apart r (lock_range mn mx)"
  using overlaps_iff [of r "lock_range mn mx"] assms by (auto simp: apart_def lock_range_def)

text \<open>A phase keeps its invariant if the objects keep their bounds and ranges only disappear or are new.\<close>

lemma phase_inv_mono:
  assumes "phase_inv w p" and "wl_fresh w \<le> wl_fresh w'" and "\<forall>i < wl_fresh w. apart (wl_heap w' i) = apart (wl_heap w i)"
    and "\<forall>i < wl_fresh w. i \<in> set (wl_ranges w') \<longrightarrow> i \<in> set (wl_ranges w)"
    and "\<And>mn mx i. p \<noteq> Inside mn mx i"
  shows "phase_inv w' p"
proof -
  have passed: "passed w' mn mx vis" if "passed w mn mx vis" for mn mx vis
    using that assms(2-4) unfolding passed_def by (metis less_le_trans)
  show ?thesis
  proof (cases p)
    case (Visiting mn mx snap rest)
    then obtain vis where "snap = vis @ rest" "passed w mn mx vis" "\<forall>j\<in>set rest. j < wl_fresh w" using assms(1) by auto
    with passed assms(2) Visiting show ?thesis by (auto intro!: exI [of _ vis] intro: less_le_trans)
  next
    case (Grabbed mn mx snap i rest)
    then obtain vis where "snap = vis @ i # rest" "passed w mn mx vis" "\<forall>j\<in>set (i # rest). j < wl_fresh w" "i \<notin> set (wl_ranges w)"
      using assms(1) by auto
    with passed assms(2,4) Grabbed show ?thesis by (auto intro!: exI [of _ vis] intro: less_le_trans)
  qed (use assms(5) in auto)
qed

lemma phase_inv_set_phase [simp]: "phase_inv (set_phase t p w) q = phase_inv w q"
  by (cases q) (simp_all add: passed_def)

lemma phase_inv_set_locked [simp]: "phase_inv (set_locked i b w) q = phase_inv w q"
  by (cases q) (auto simp: passed_def)

lemma lock_invD:
  assumes "lock_inv w"
  shows "distinct (wl_ranges w)" and "i \<in> set (wl_ranges w) \<Longrightarrow> i < wl_fresh w \<and> rl_locked (wl_heap w i)"
    and "i < wl_fresh w \<Longrightarrow> rl_min (wl_heap w i) \<le> rl_max (wl_heap w i)"
    and "i \<in> set (wl_ranges w) \<Longrightarrow> j \<in> set (wl_ranges w) \<Longrightarrow> i \<noteq> j \<Longrightarrow> apart (wl_heap w i) (wl_heap w j)"
    and "phase_inv w (wl_threads w t)"
    and "i < wl_fresh w \<Longrightarrow> i \<notin> set (wl_ranges w) \<Longrightarrow> rl_locked (wl_heap w i) \<Longrightarrow>
      \<exists>t mn mx snap rest. wl_threads w t = Grabbed mn mx snap i rest"
    and "wl_threads w t = Inside mn mx i \<Longrightarrow> wl_threads w t' = Inside mn' mx' i \<Longrightarrow> t = t'"
proof -
  note I = assms [unfolded lock_inv_def heap_inv_def]
  show "distinct (wl_ranges w)" using I by simp
  show "i \<in> set (wl_ranges w) \<Longrightarrow> i < wl_fresh w \<and> rl_locked (wl_heap w i)" using I by simp
  show "i < wl_fresh w \<Longrightarrow> rl_min (wl_heap w i) \<le> rl_max (wl_heap w i)" using I by simp
  show "i \<in> set (wl_ranges w) \<Longrightarrow> j \<in> set (wl_ranges w) \<Longrightarrow> i \<noteq> j \<Longrightarrow> apart (wl_heap w i) (wl_heap w j)" using I by simp
  show "phase_inv w (wl_threads w t)" using I by simp
  show "i < wl_fresh w \<Longrightarrow> i \<notin> set (wl_ranges w) \<Longrightarrow> rl_locked (wl_heap w i) \<Longrightarrow>
      \<exists>t mn mx snap rest. wl_threads w t = Grabbed mn mx snap i rest" using I by simp
  have "\<forall>t t' mn mx i mn' mx'. wl_threads w t = Inside mn mx i \<and> wl_threads w t' = Inside mn' mx' i \<longrightarrow> t = t'"
    using I by (elim conjE)
  then show "wl_threads w t = Inside mn mx i \<Longrightarrow> wl_threads w t' = Inside mn' mx' i \<Longrightarrow> t = t'" by blast
qed

lemma lock_invI:
  assumes "heap_inv w" and "\<And>t. phase_inv w (wl_threads w t)"
    and "\<And>i. i < wl_fresh w \<Longrightarrow> i \<notin> set (wl_ranges w) \<Longrightarrow> rl_locked (wl_heap w i) \<Longrightarrow>
      \<exists>t mn mx snap rest. wl_threads w t = Grabbed mn mx snap i rest"
    and "\<And>t t' mn mx i mn' mx'. wl_threads w t = Inside mn mx i \<Longrightarrow> wl_threads w t' = Inside mn' mx' i \<Longrightarrow> t = t'"
  shows "lock_inv w"
  unfolding lock_inv_def by (intro conjI allI impI; (elim conjE)?; (rule assms; assumption)?)

lemma lock_inv_visit:
  assumes inv: "lock_inv w" and p: "phase_inv w p" "\<And>mn mx i. p \<noteq> Inside mn mx i"
    and old: "\<And>mn mx s i r. wl_threads w t \<noteq> Grabbed mn mx s i r"
  shows "lock_inv (set_phase t p w)"
proof -
  have "\<exists>t' mn mx snap rest. ((wl_threads w)(t := p)) t' = Grabbed mn mx snap i rest"
    if i: "i < wl_fresh w" "i \<notin> set (wl_ranges w)" "rl_locked (wl_heap w i)" for i
  proof -
    from lock_invD(6) [OF inv i] obtain t' mn mx snap rest where "wl_threads w t' = Grabbed mn mx snap i rest" by blast
    moreover from this old have "t' \<noteq> t" by metis
    ultimately show ?thesis by (metis fun_upd_other)
  qed
  with inv p show ?thesis by (auto simp: lock_inv_def heap_inv_def)
qed

text \<open>Locking or unlocking the mutex of a range that is not listed.\<close>

lemma lock_inv_mutex:
  assumes inv: "lock_inv w" and i: "i \<notin> set (wl_ranges w)" "i < wl_fresh w" and p: "phase_inv w p" "\<And>mn mx i. p \<noteq> Inside mn mx i"
    and b: "b = (\<exists>mn mx s r. p = Grabbed mn mx s i r)" "\<And>mn mx s j r. wl_threads w t = Grabbed mn mx s j r \<Longrightarrow> j = i"
  shows "lock_inv (set_phase t p (set_locked i b w))"
proof -
  let ?w = "set_phase t p (set_locked i b w)"
  have "\<exists>t' mn mx snap rest. ((wl_threads w)(t := p)) t' = Grabbed mn mx snap j rest"
    if j: "j < wl_fresh w" "j \<notin> set (wl_ranges w)" "rl_locked (wl_heap ?w j)" for j
  proof (cases "j = i")
    case True
    with j b obtain mn mx s r where "p = Grabbed mn mx s j r" by auto
    then show ?thesis by (metis fun_upd_same)
  next
    case False
    with lock_invD(6) [OF inv j(1,2)] j(3) obtain t' mn mx snap rest where t': "wl_threads w t' = Grabbed mn mx snap j rest" by auto
    with b(2) False have "t' \<noteq> t" by metis
    with t' show ?thesis by (metis fun_upd_other)
  qed
  moreover have "heap_inv w" using inv by (simp add: lock_inv_def)
  then have "heap_inv ?w" using i by (auto simp: heap_inv_def)
  ultimately show ?thesis using inv p by (auto simp: lock_inv_def)
qed

lemma lock_inv_enter:
  assumes inv: "lock_inv w" and q: "quiet w" and t: "wl_threads w t = Visiting mn mx snap []"
    and ok: "wl_ranges w = [] \<or> DeepEqual (wl_heap w) snap (wl_ranges w)"
  shows "lock_inv (set_phase t (Inside mn mx (wl_fresh w))
      (w\<lparr>wl_heap := (wl_heap w)(wl_fresh w := lock_range mn mx), wl_ranges := wl_ranges w @ [wl_fresh w],
         wl_fresh := Suc (wl_fresh w)\<rparr>))" (is "lock_inv (set_phase t ?p ?w)")
proof -
  from lock_invD(5) [OF inv, of t] t have snap: "passed w mn mx snap" by simp
  have new: "apart (wl_heap w j) (lock_range mn mx)" if j: "j \<in> set (wl_ranges w)" for j
  proof -
    from ok j have "DeepEqual (wl_heap w) snap (wl_ranges w)" by auto
    with j obtain s where s: "s \<in> set snap" "s = j \<or> wl_heap w s = wl_heap w j"
      by (auto simp: DeepEqual_def list_all2_conv_all_nth in_set_conv_nth) metis
    have "s < wl_fresh w" using s(1) snap by (simp add: passed_def)
    have "s \<in> set (wl_ranges w)"
    proof (rule ccontr)
      assume "s \<notin> set (wl_ranges w)"
      moreover have "rl_locked (wl_heap w s)" using s(2) lock_invD(2) [OF inv j] by auto
      ultimately show False using lock_invD(6) [OF inv \<open>s < wl_fresh w\<close>] q unfolding quiet_def by blast
    qed
    then have "apart (wl_heap w s) (lock_range mn mx)" using s(1) snap by (simp add: passed_def)
    with s(2) show ?thesis by auto
  qed
  have fresh: "wl_fresh w \<notin> set (wl_ranges w)" using lock_invD(2) [OF inv] by blast
  have "heap_inv ?w"
  proof -
    have "mn \<le> mx" using snap by (simp add: passed_def)
    moreover have "apart (lock_range mn mx) r = apart r (lock_range mn mx)" for r by (auto simp: apart_def)
    ultimately show ?thesis
      using new fresh inv by (auto simp: lock_inv_def heap_inv_def lock_range_def less_Suc_eq)
  qed
  then have heap: "heap_inv (set_phase t ?p ?w)" by (simp add: heap_inv_def)
  have old: "i < wl_fresh w" if "wl_threads w t' = Inside c d i" for t' c d i
    using lock_invD(5) [OF inv, of t'] that lock_invD(2) [OF inv] by simp
  have phase: "phase_inv ?w (wl_threads w t')" for t'
  proof (cases "\<exists>a b i. wl_threads w t' = Inside a b i")
    case True
    with lock_invD(5) [OF inv, of t'] fresh show ?thesis by auto
  next
    case False
    then show ?thesis by (intro phase_inv_mono [OF lock_invD(5) [OF inv]]) auto
  qed
  show ?thesis
  proof (rule lock_invI [OF heap])
    show "phase_inv (set_phase t ?p ?w) (wl_threads (set_phase t ?p ?w) t')" for t'
      using phase [of t'] by (simp add: lock_range_def)
  next
    fix i
    assume "i < wl_fresh (set_phase t ?p ?w)" "i \<notin> set (wl_ranges (set_phase t ?p ?w))" "rl_locked (wl_heap (set_phase t ?p ?w) i)"
    then have "i < wl_fresh w" "i \<notin> set (wl_ranges w)" "rl_locked (wl_heap w i)" by auto
    from lock_invD(6) [OF inv this] q show "\<exists>t' a b s r. wl_threads (set_phase t ?p ?w) t' = Grabbed a b s i r"
      unfolding quiet_def by blast
  next
    fix t1 t2 a b a' b' i
    assume in1: "wl_threads (set_phase t ?p ?w) t1 = Inside a b i" and in2: "wl_threads (set_phase t ?p ?w) t2 = Inside a' b' i"
    show "t1 = t2"
    proof (cases "t1 = t \<or> t2 = t")
      case True
      with in1 in2 have "i = wl_fresh w" by auto
      with in1 in2 old [of t1 a b i] old [of t2 a' b' i] show ?thesis by (auto split: if_splits)
    next
      case False
      with in1 in2 lock_invD(7) [OF inv, of t1 a b i t2 a' b'] show ?thesis by simp
    qed
  qed
qed

lemma lock_inv_leave:
  assumes inv: "lock_inv w" and t: "wl_threads w t = Inside mn mx i"
  shows "lock_inv (set_phase t Outside (WriteLock_UnlockRange mn mx w))" (is "lock_inv (set_phase t Outside ?w)")
proof -
  from lock_invD(5) [OF inv, of t] t have i: "i \<in> set (wl_ranges w)" "rl_min (wl_heap w i) = mn" "rl_max (wl_heap w i) = mx" by simp_all
  have only: "j = i" if "j \<in> set (wl_ranges w)" "rl_min (wl_heap w j) = mn" "rl_max (wl_heap w j) = mx" for j
  proof (rule ccontr)
    assume "j \<noteq> i"
    with lock_invD(4) [OF inv that(1) i(1)] have "apart (wl_heap w j) (wl_heap w i)" by simp
    moreover have "mn \<le> mx" using lock_invD(3) [OF inv, of i] lock_invD(2) [OF inv i(1)] i by simp
    ultimately show False using that i by (simp add: apart_def)
  qed
  have w: "?w = w\<lparr>wl_heap := (wl_heap w)(i := (wl_heap w i)\<lparr>rl_locked := False\<rparr>), wl_ranges := filter (\<lambda>j. j \<noteq> i) (wl_ranges w)\<rparr>"
  proof -
    have hit: "(rl_min (wl_heap w j) = mn \<and> rl_max (wl_heap w j) = mx) = (j = i)" if "j \<in> set (wl_ranges w)" for j
      using only [OF that] i by blast
    have "filter (\<lambda>j. \<not> (rl_min (wl_heap w j) = mn \<and> rl_max (wl_heap w j) = mx)) (wl_ranges w) = filter (\<lambda>j. j \<noteq> i) (wl_ranges w)"
      by (rule filter_cong [OF refl]) (simp only: hit)
    moreover have "(\<lambda>j. if j \<in> set (wl_ranges w) \<and> rl_min (wl_heap w j) = mn \<and> rl_max (wl_heap w j) = mx
        then (wl_heap w j)\<lparr>rl_locked := False\<rparr> else wl_heap w j) = (wl_heap w)(i := (wl_heap w i)\<lparr>rl_locked := False\<rparr>)"
    proof
      fix j
      have "(j \<in> set (wl_ranges w) \<and> rl_min (wl_heap w j) = mn \<and> rl_max (wl_heap w j) = mx) = (j = i)" using hit i(1) by blast
      then show "(if j \<in> set (wl_ranges w) \<and> rl_min (wl_heap w j) = mn \<and> rl_max (wl_heap w j) = mx
        then (wl_heap w j)\<lparr>rl_locked := False\<rparr> else wl_heap w j) = ((wl_heap w)(i := (wl_heap w i)\<lparr>rl_locked := False\<rparr>)) j" by simp
    qed
    ultimately show ?thesis by (simp add: WriteLock_UnlockRange_def)
  qed
  have "heap_inv w" using inv by (simp add: lock_inv_def)
  then have "heap_inv ?w" by (auto simp: w heap_inv_def)
  then have heap: "heap_inv (set_phase t Outside ?w)" by (simp add: heap_inv_def)
  have th: "wl_threads ?w = wl_threads w" by (simp add: w)
  show ?thesis
  proof (rule lock_invI [OF heap])
    fix t'
    have ph: "phase_inv w (wl_threads w t')" by (rule lock_invD(5) [OF inv])
    have "t' = t \<or> phase_inv ?w (wl_threads w t')"
    proof (cases "\<exists>a b j. wl_threads w t' = Inside a b j")
      case True
      then obtain a b j where j: "wl_threads w t' = Inside a b j" by blast
      have "t' = t \<or> j \<noteq> i" using lock_invD(7) [OF inv t, of t' a b] j by auto
      with ph j show ?thesis by (auto simp: w)
    next
      case False
      have "phase_inv ?w (wl_threads w t')" using False by (intro phase_inv_mono [OF ph]) (auto simp: w)
      then show ?thesis ..
    qed
    then show "phase_inv (set_phase t Outside ?w) (wl_threads (set_phase t Outside ?w) t')" by (auto simp: th)
  next
    fix j
    assume "j < wl_fresh (set_phase t Outside ?w)" "j \<notin> set (wl_ranges (set_phase t Outside ?w))"
      "rl_locked (wl_heap (set_phase t Outside ?w) j)"
    then have "j < wl_fresh w" "j \<notin> set (wl_ranges w)" "rl_locked (wl_heap w j)" by (auto simp: w split: if_splits)
    from lock_invD(6) [OF inv this] obtain t' a b s r where g: "wl_threads w t' = Grabbed a b s j r" by blast
    with t have "t' \<noteq> t" by auto
    with g have "wl_threads (set_phase t Outside ?w) t' = Grabbed a b s j r" by (simp add: th)
    then show "\<exists>t' a b s r. wl_threads (set_phase t Outside ?w) t' = Grabbed a b s j r" by blast
  next
    show "t1 = t2" if "wl_threads (set_phase t Outside ?w) t1 = Inside a b j" "wl_threads (set_phase t Outside ?w) t2 = Inside a' b' j"
      for t1 t2 a b a' b' j
      using that lock_invD(7) [OF inv, of t1 a b j t2 a' b'] by (auto simp: th split: if_splits)
  qed
qed

lemma lock_inv_step:
  assumes inv: "lock_inv w" and st: "lock_step w w'" and q: "length (wl_ranges w) < length (wl_ranges w') \<longrightarrow> quiet w"
  shows "lock_inv w'"
  using st
proof cases
  case (start t mn mx)
  then show ?thesis
    using lock_invD(2) [OF inv] by (auto intro!: lock_inv_visit [OF inv] simp: passed_def WriteLock_currentlyLockedRanges_def)
next
  case (pass t mn mx snap i rest)
  with lock_invD(5) [OF inv, of t] obtain vis where vis: "snap = vis @ i # rest" "passed w mn mx vis" "\<forall>j\<in>set (i # rest). j < wl_fresh w"
    by auto
  then have "apart (wl_heap w i) (lock_range mn mx)"
    using pass not_overlaps_apart [of "wl_heap w i" mn mx] lock_invD(3) [OF inv, of i] by (simp add: passed_def)
  with vis have "phase_inv w (Visiting mn mx snap rest)" by (auto intro!: exI [of _ "vis @ [i]"] simp: passed_def)
  with pass show ?thesis by (auto intro!: lock_inv_visit [OF inv])
next
  case (grab t mn mx snap i rest)
  with lock_invD(5) [OF inv, of t] obtain vis where vis: "snap = vis @ i # rest" "passed w mn mx vis" "\<forall>j\<in>set (i # rest). j < wl_fresh w"
    by auto
  have "i \<notin> set (wl_ranges w)" using lock_invD(2) [OF inv] grab by blast
  with grab vis show ?thesis unfolding grab(1) by (intro lock_inv_mutex [OF inv]) auto
next
  case (release t mn mx snap i rest)
  with lock_invD(5) [OF inv, of t] obtain vis where vis: "snap = vis @ i # rest" "passed w mn mx vis" "\<forall>j\<in>set (i # rest). j < wl_fresh w"
      "i \<notin> set (wl_ranges w)"
    by auto
  then have "phase_inv w (Visiting mn mx snap rest)" by (auto intro!: exI [of _ "vis @ [i]"] simp: passed_def)
  with release vis show ?thesis unfolding release(1) by (intro lock_inv_mutex [OF inv]) auto
next
  case (enter t mn mx snap)
  with q have "quiet w" by simp
  with enter show ?thesis by (simp only:) (rule lock_inv_enter [OF inv])
next
  case (again t mn mx snap)
  with lock_invD(5) [OF inv, of t] have "mn \<le> mx" by (auto simp: passed_def)
  with again show ?thesis
    using lock_invD(2) [OF inv] by (auto intro!: lock_inv_visit [OF inv] simp: passed_def WriteLock_currentlyLockedRanges_def)
next
  case (leave t mn mx i)
  then show ?thesis using lock_inv_leave [OF inv] by simp
qed

lemma quiet_reach_inv: "quiet_reach w \<Longrightarrow> lock_inv w"
proof (induction rule: quiet_reach.induct)
  case init
  show ?case by (simp add: lock_inv_def heap_inv_def wl_init_def)
qed (rule lock_inv_step)

lemma lock_inv_no_clash:
  assumes inv: "lock_inv w"
  shows "\<not> clash w"
proof
  assume "clash w"
  then obtain t t' mn mx i mn' mx' i' where c: "t \<noteq> t'" "wl_threads w t = Inside mn mx i" "wl_threads w t' = Inside mn' mx' i'"
      "mn \<le> mx'" "mn' \<le> mx"
    unfolding clash_def by blast
  then have "i \<noteq> i'" using lock_invD(7) [OF inv] by metis
  moreover have "i \<in> set (wl_ranges w)" "rl_min (wl_heap w i) = mn" "rl_max (wl_heap w i) = mx"
      "i' \<in> set (wl_ranges w)" "rl_min (wl_heap w i') = mn'" "rl_max (wl_heap w i') = mx'"
    using lock_invD(5) [OF inv, of t] lock_invD(5) [OF inv, of t'] c by simp_all
  ultimately show False using lock_invD(4) [OF inv, of i i'] c by (simp add: apart_def)
qed

section \<open>A run in which two threads are inside the same range\<close>

text \<open>
  Threads 0 and 1 wait for the range object 0 of thread 2; thread 2 leaves and locks the same range
  again as object 1; while thread 1 holds the mutex of the dead object 0, that object has the
  contents of object 1, and thread 0 enters.
\<close>

definition race_0 :: WriteLock where
  "race_0 = set_phase 2 (Inside 0 10 0) (wl_init\<lparr>wl_heap := (wl_heap wl_init)(0 := lock_range 0 10), wl_ranges := [0], wl_fresh := 1\<rparr>)"

definition race_1 :: WriteLock where
  "race_1 = set_phase 1 (Visiting 0 10 [0] [0]) (set_phase 0 (Visiting 0 10 [0] [0]) race_0)"

definition race_2 :: WriteLock where
  "race_2 = race_1\<lparr>wl_heap := (wl_heap wl_init)(0 := \<lparr>rl_locked = False, rl_min = 0, rl_max = 10\<rparr>, 1 := lock_range 0 10),
     wl_ranges := [1], wl_fresh := 2, wl_threads := (wl_threads race_1)(2 := Inside 0 10 1)\<rparr>"

definition race_3 :: WriteLock where
  "race_3 = race_2\<lparr>wl_heap := (wl_heap wl_init)(0 := lock_range 0 10, 1 := lock_range 0 10),
     wl_threads := (wl_threads race_2)(0 := Visiting 0 10 [0] [], 1 := Grabbed 0 10 [0] 0 [])\<rparr>"

definition race_4 :: WriteLock where
  "race_4 = set_phase 0 (Inside 0 10 2) (race_3\<lparr>wl_heap := (wl_heap race_3)(2 := lock_range 0 10), wl_ranges := [1, 2], wl_fresh := 3\<rparr>)"

lemmas race_defs = race_0_def race_1_def race_2_def race_3_def race_4_def wl_init_def set_phase_def set_locked_def
  lock_range_def rangeLock_overlaps_def WriteLock_currentlyLockedRanges_def DeepEqual_def WriteLock_UnlockRange_def

lemma lock_steps_3: "lock_step a b \<Longrightarrow> lock_step b c \<Longrightarrow> lock_step c d \<Longrightarrow> lock_step\<^sup>*\<^sup>* a d"
  by (simp add: converse_rtranclp_into_rtranclp)

lemma race_steps_0: "lock_step\<^sup>*\<^sup>* wl_init race_0"
proof -
  have "lock_step wl_init (set_phase 2 (Visiting 0 10 [] []) wl_init)"
    using lock_step.start [of wl_init 2 0 10] by (simp add: race_defs)
  moreover have "lock_step (set_phase 2 (Visiting 0 10 [] []) wl_init) race_0"
    using lock_step.enter [of "set_phase 2 (Visiting 0 10 [] []) wl_init" 2 0 10 "[]"] by (simp add: race_defs)
  ultimately show ?thesis by (rule converse_rtranclp_into_rtranclp [OF _ r_into_rtranclp])
qed

lemma race_steps_1: "lock_step\<^sup>*\<^sup>* race_0 race_1"
proof -
  have "lock_step race_0 (set_phase 0 (Visiting 0 10 [0] [0]) race_0)"
    using lock_step.start [of race_0 0 0 10] by (simp add: race_defs)
  moreover have "lock_step (set_phase 0 (Visiting 0 10 [0] [0]) race_0) race_1"
    using lock_step.start [of "set_phase 0 (Visiting 0 10 [0] [0]) race_0" 1 0 10] by (simp add: race_defs)
  ultimately show ?thesis by (rule converse_rtranclp_into_rtranclp [OF _ r_into_rtranclp])
qed

lemma race_steps_2: "lock_step\<^sup>*\<^sup>* race_1 race_2"
proof -
  define a where "a = set_phase 2 Outside (WriteLock_UnlockRange 0 10 race_1)"
  have "lock_step race_1 a"
    unfolding a_def by (rule lock_step.leave [where i = 0]) (simp add: race_defs)
  moreover have "lock_step a (set_phase 2 (Visiting 0 10 [] []) a)"
    using lock_step.start [of a 2 0 10] by (simp add: a_def race_defs)
  moreover have "lock_step (set_phase 2 (Visiting 0 10 [] []) a) race_2"
  proof -
    let ?a = "set_phase 2 (Visiting 0 10 [] []) a"
    have "race_2 = set_phase 2 (Inside 0 10 (wl_fresh ?a)) (?a\<lparr>wl_heap := (wl_heap ?a)(wl_fresh ?a := lock_range 0 10),
        wl_ranges := wl_ranges ?a @ [wl_fresh ?a], wl_fresh := Suc (wl_fresh ?a)\<rparr>)"
      by (simp add: a_def race_defs fun_eq_iff)
    moreover have "lock_step ?a \<dots>" by (rule lock_step.enter) (simp_all add: a_def race_defs)
    ultimately show ?thesis by (rule ssubst)
  qed
  ultimately show ?thesis by (rule lock_steps_3)
qed

lemma race_steps_3: "lock_step\<^sup>*\<^sup>* race_2 race_3"
proof -
  define a where "a = set_phase 0 (Grabbed 0 10 [0] 0 []) (set_locked 0 True race_2)"
  define b where "b = set_phase 0 (Visiting 0 10 [0] []) (set_locked 0 False a)"
  have "lock_step race_2 a"
    unfolding a_def by (rule lock_step.grab) (simp_all add: race_defs)
  moreover have "lock_step a b"
    unfolding b_def by (rule lock_step.release) (simp add: a_def race_defs)
  moreover have "lock_step b race_3"
  proof -
    have "race_3 = set_phase 1 (Grabbed 0 10 [0] 0 []) (set_locked 0 True b)" by (simp add: b_def a_def race_defs fun_eq_iff)
    moreover have "lock_step b \<dots>" by (rule lock_step.grab) (simp_all add: b_def a_def race_defs)
    ultimately show ?thesis by (rule ssubst)
  qed
  ultimately show ?thesis by (rule lock_steps_3)
qed

lemma race_steps_4: "lock_step race_3 race_4"
  using lock_step.enter [of race_3 0 0 10 "[0]"] by (simp add: race_defs)

lemma race_reach: "lock_reach race_4"
  unfolding lock_reach_def
  by (rule rtranclp.rtrancl_into_rtrancl,
    rule rtranclp_trans [OF rtranclp_trans [OF race_steps_0 race_steps_1] rtranclp_trans [OF race_steps_2 race_steps_3]],
    rule race_steps_4)

lemma race_clash: "clash race_4"
  unfolding clash_def by (rule exI [of _ 0], rule exI [of _ 2]) (simp add: race_defs)

end
