(* ===== verification/TSM_Props.thy ===== *)
theory TSM_Props
  imports TSM_Block TSM_Lock
begin

text \<open>
  Properties of the storage engine's encodings (\<open>tsdb/engine/tsm1\<close>: \<open>encoding.go\<close> and the column
  codecs) and of its range lock (\<open>write_lock.go\<close>).
\<close>

section \<open>Blocks\<close>

text \<open>
  C20. A block of values of one type is decoded to the values it was encoded from: for every
  non-empty list of float, integer, boolean or string values, with timestamps whose distance from
  the Unix epoch fits into 64 bits, floats that are not NaN and integers that do not hit the faulty
  run-length encoding, \<open>Values.Encode\<close> succeeds, and \<open>DecodeBlock\<close> appends exactly these values, in
  their order and with their timestamps, to the slice it is given.
\<close>

theorem block_encode_decode:
  assumes "block_ok a" and "libs_ok L"
  shows "\<exists>b. Values_Encode L a = Inr b \<and> (length b < 2 ^ 63 \<longrightarrow> DecodeBlock L b vals = Inr (vals @ a))"
  using assms by (rule Values_Encode_decodes)

definition block_example :: "Value list" where
  "block_example = map (\<lambda>(t, v). Int64Value (unix_epoch + t) v) [(1000, 7), (2000, 5), (2500, - 9)]"

lemma block_example_ok: "block_ok block_example"
  by (simp add: block_ok_def block_example_def nano_range_def is_int64_def rle_ok_def equal_steps_def zigzags_def ZigZagEncode_def)

theorem block_encode_decode_witness:
  "block_ok block_example \<and>
   (\<exists>b. Values_Encode simple_libs block_example = Inr b \<and>
      (length b < 2 ^ 63 \<longrightarrow> DecodeBlock simple_libs b [] = Inr ([] @ block_example)))"
  using block_encode_decode [OF block_example_ok simple_libs_ok] block_example_ok by blast

section \<open>Columns\<close>

text \<open>
  C21. Exactly which integer columns survive the integer codec: reading all values of a decoder made
  from the encoded bytes gives the column back if and only if the column is not run-length encoded
  (it has at most two values or its steps differ), or it is constant, or it is an ascending
  arithmetic sequence without negative values.  The decoder repeats the zigzag-encoded step on the
  zigzag-encoded first value, so descending or negative arithmetic sequences come back changed.
\<close>

theorem int_roundtrip_iff:
  assumes "libs_ok L" and "length vs < 2 ^ 63"
  shows "(\<exists>b s. int_encode L vs = Inr b \<and> NewInt64Decoder b = Inr s \<and>
      read_all (int64Decoder_Next L) int64Decoder_Read (Suc (length vs)) s = Some (Inr vs)) \<longleftrightarrow> rle_ok vs" (is "?rt \<longleftrightarrow> _")
proof
  show "rle_ok vs \<Longrightarrow> ?rt"
    using int_codec.roundtrip [of L vs "Suc (length vs)"] assms by simp
next
  assume rt: ?rt
  show "rle_ok vs"
  proof (cases "equal_steps vs \<and> length vs > 2")
    case True
    let ?us = "map (\<lambda>i. ZigZagDecode (zigzags vs ! 0 + of_nat i * (zigzags vs ! 1))) [0..<length vs]"
    from True int_rle_yields [of vs L] assms obtain b s where b: "int_encode L vs = Inr b" "NewInt64Decoder b = Inr s"
        "yields (int64Decoder_Next L) int64Decoder_Read id_err s ?us"
      by auto
    have "read_all (int64Decoder_Next L) int64Decoder_Read (Suc (length vs)) s = Some (Inr ?us)"
      by (rule read_all_yields [OF b(3)]) simp
    with rt b have "?us = vs" by simp
    with True int_rle_iff [of vs] show ?thesis by simp
  qed (auto simp: rle_ok_def)
qed

theorem int_roundtrip_iff_witness:
  "libs_ok simple_libs \<and> length [3 :: u64, 2, 1] < 2 ^ 63 \<and>
   \<not> (\<exists>b s. int_encode simple_libs [3, 2, 1] = Inr b \<and> NewInt64Decoder b = Inr s \<and>
      read_all (int64Decoder_Next simple_libs) int64Decoder_Read (Suc (length [3 :: u64, 2, 1])) s = Some (Inr [3, 2, 1]))"
proof -
  have "\<not> rle_ok [3, 2, 1]" by (simp add: rle_ok_def equal_steps_def zigzags_def ZigZagEncode_def)
  with int_roundtrip_iff [OF simple_libs_ok, of "[3, 2, 1]"] show ?thesis by (simp add: simple_libs_ok)
qed

text \<open>
  C11. A float column is encoded if and only if it contains no NaN (the encoder uses NaN as its end
  marker); with a NaN the error for unsupported values is returned, otherwise the Gorilla-encoded bits are
  decoded to the same floats, bit for bit.
\<close>

theorem float_roundtrip:
  assumes "libs_ok L"
  shows "if \<exists>v\<in>set vs. math_IsNaN v then float_encode L vs = Inl UnsupportedNaN
    else \<exists>b s. float_encode L vs = Inr b \<and> NewFloatDecoder L b = Inr s \<and>
      read_all (Inr \<circ> FloatDecoder_Next L) (\<lambda>d. Inr (d, FloatDecoder_Values d)) (Suc (length vs)) s = Some (Inr vs)"
  using float_encode_NaN [of vs L] float_codec.roundtrip [of L vs "Suc (length vs)"] assms by simp

theorem float_roundtrip_witness:
  "libs_ok simple_libs \<and> (\<exists>b s. float_encode simple_libs [5, 5, 9] = Inr b \<and> NewFloatDecoder simple_libs b = Inr s \<and>
      read_all (Inr \<circ> FloatDecoder_Next simple_libs) (\<lambda>d. Inr (d, FloatDecoder_Values d)) (Suc (length [5 :: u64, 5, 9])) s = Some (Inr [5, 5, 9]))"
proof -
  have "\<not> (\<exists>v\<in>set [5, 5, 9]. math_IsNaN v)" by (simp add: math_IsNaN_def)
  with float_roundtrip [OF simple_libs_ok, of "[5, 5, 9]"] show ?thesis by (simp only: simple_libs_ok if_False simp_thms)
qed

text \<open>
  C32. \<open>Values.Deduplicate\<close> sorts by time and keeps, for every timestamp that occurs, exactly one
  value: the one that was written last.
\<close>

theorem deduplicate_keeps_last:
  "sorted_wrt (<) (map Value_UnixNano (Values_Deduplicate a)) \<and>
   Value_UnixNano ` set (Values_Deduplicate a) = Value_UnixNano ` set a \<and>
   (\<forall>v. v \<in> set (Values_Deduplicate a) \<longrightarrow> v = last (filter (\<lambda>w. Value_UnixNano w = Value_UnixNano v) a))"
  using Values_Deduplicate_eq by blast

theorem deduplicate_keeps_last_witness:
  "let a = [Int64Value (unix_epoch + 20) 1, Int64Value (unix_epoch + 10) 2, Int64Value (unix_epoch + 20) 3];
       v = Int64Value (unix_epoch + 20) 3
   in v \<in> set (Values_Deduplicate a) \<and> v = last (filter (\<lambda>w. Value_UnixNano w = Value_UnixNano v) a)"
proof -
  let ?a = "[Int64Value (unix_epoch + 20) 1, Int64Value (unix_epoch + 10) 2, Int64Value (unix_epoch + 20) 3]"
  have "Int64Value (unix_epoch + 20) 3 \<in> set (Values_Deduplicate ?a)"
    by (simp add: Values_Deduplicate_def time_UnixNano_def to_int64_def)
  with deduplicate_keeps_last [of ?a] show ?thesis unfolding Let_def by blast
qed

section \<open>The range lock\<close>

text \<open>
  C33. Exclusion of the range lock: in every execution in which no thread holds the mutex of a range
  it waited for at the moment another thread passes the final comparison of \<open>LockRange\<close>, two threads
  are never inside overlapping ranges at the same time.
\<close>

theorem write_lock_exclusive:
  assumes "quiet_reach w"
  shows "\<not> clash w"
  using lock_inv_no_clash [OF quiet_reach_inv [OF assms]] .

theorem write_lock_exclusive_witness: "quiet_reach race_0 \<and> \<not> clash race_0"
proof -
  let ?v = "set_phase 2 (Visiting 0 10 [] []) wl_init"
  have s: "lock_step wl_init ?v" "lock_step ?v race_0"
    using lock_step.start [of wl_init 2 0 10] lock_step.enter [of ?v 2 0 10 "[]"] by (simp_all add: race_defs)
  have "quiet wl_init" "quiet ?v" by (simp_all add: quiet_def wl_init_def set_phase_def)
  then have "quiet_reach race_0"
    using quiet_reach.step [OF quiet_reach.step [OF quiet_reach.init s(1)] s(2)] by simp
  with write_lock_exclusive show ?thesis by blast
qed

text \<open>
  Without that restriction the lock is not exclusive: there is an execution of three threads, all
  locking the same range, after which two of them are inside it.  The final comparison of \<open>LockRange\<close>
  compares the contents of the range objects, mutex included, so a dead range whose mutex another
  waiter holds for a moment counts as the range that is locked now.
\<close>

lemma write_lock_race: "\<exists>w. lock_reach w \<and> clash w"
  using race_reach race_clash by blast

end
