(* ===== verification/Models_Base.thy ===== *)
theory Models_Base
  imports Bytes "HOL-Library.Char_ord" "HOL-Library.List_Lexorder"
begin

text \<open>
  What the line-protocol code (\<open>models/points.go\<close>, \<open>pkg/escape\<close>) uses of the language and its
  library: byte slices with their spare capacity, \<open>bytes.Replace\<close>, decimal integers of \<open>strconv\<close>
  and the FNV-1a hash.  A byte is a \<open>char\<close>, so text can be written as string literals; the order on
  strings is the lexicographic order of bytes (\<open>bytes.Compare\<close>, \<open>sort.Strings\<close>).
\<close>

section \<open>Errors\<close>

text \<open>The errors the parser returns, and the run-time panics it can run into.\<close>

datatype pt_error = MissingMeasurement | MissingTagKey | MissingTagValue | InvalidTagFormat | DuplicateTags
  | MissingFields | MissingFieldKey | MissingFieldValue | InvalidFieldFormat | UnbalancedQuotes
  | InvalidNumber | UnableToParseInteger | InvalidFloat | InvalidBoolean | BadTimestamp | NumError | UnsupportedFieldNaN
  | PanicIndexRange | PanicSliceBounds | PanicNumberValue | PanicBoolValue

type_synonym 'a parsed = "pt_error + 'a"

fun is_panic :: "pt_error \<Rightarrow> bool" where
  "is_panic PanicIndexRange = True"
| "is_panic PanicSliceBounds = True"
| "is_panic PanicNumberValue = True"
| "is_panic PanicBoolValue = True"
| "is_panic _ = False"

definition pbind :: "'a parsed \<Rightarrow> ('a \<Rightarrow> 'b parsed) \<Rightarrow> 'b parsed" where
  "pbind m f = (case m of Inl e \<Rightarrow> Inl e | Inr x \<Rightarrow> f x)"

lemma pbind_simps [simp]: "pbind (Inl e) f = Inl e" "pbind (Inr x) f = f x"
  by (simp_all add: pbind_def)

section \<open>Slices\<close>

text \<open>
  A byte slice: its bytes, and the bytes of the underlying array behind them up to the capacity.
  Indexing is limited by the length, slicing \<open>b[i:j]\<close> by the capacity.
\<close>

record gobytes =
  gb :: string
  gx :: string

definition sl :: "gobytes \<Rightarrow> nat \<Rightarrow> nat \<Rightarrow> gobytes parsed" where
  "sl b i j =
     (if i \<le> j \<and> j \<le> length (gb b @ gx b)
      then Inr \<lparr>gb = take (j - i) (drop i (gb b @ gx b)), gx = drop j (gb b @ gx b)\<rparr>
      else Inl PanicSliceBounds)"

abbreviation of_bytes :: "string \<Rightarrow> gobytes" where
  "of_bytes s \<equiv> \<lparr>gb = s, gx = []\<rparr>"

lemma sl_inside:
  "i \<le> j \<Longrightarrow> j \<le> length (gb b) \<Longrightarrow>
   sl b i j = Inr \<lparr>gb = take (j - i) (drop i (gb b)), gx = drop j (gb b) @ gx b\<rparr>"
  by (simp add: sl_def)

section \<open>Characters\<close>

abbreviation bsl :: char where "bsl \<equiv> CHR 0x5C"
abbreviation dquote :: char where "dquote \<equiv> CHR 0x22"
abbreviation comma :: char where "comma \<equiv> CHR 0x2C"
abbreviation space :: char where "space \<equiv> CHR 0x20"
abbreviation equals :: char where "equals \<equiv> CHR 0x3D"
abbreviation newline :: char where "newline \<equiv> CHR 0x0A"

definition is_digit :: "char \<Rightarrow> bool" where
  "is_digit c \<longleftrightarrow> CHR ''0'' \<le> c \<and> c \<le> CHR ''9''"

text \<open>\<open>strings.ToLower\<close> on ASCII characters.\<close>

definition to_lower :: "char \<Rightarrow> char" where
  "to_lower c = (if CHR ''A'' \<le> c \<and> c \<le> CHR ''Z'' then char_of (of_char c + 32 :: nat) else c)"

section \<open>Replacement\<close>

text \<open>\<open>bytes.Replace(in, []byte{c}, esc, -1)\<close> with \<open>esc\<close> a backslash and \<open>c\<close>, and the converse.\<close>

definition escape_byte :: "char \<Rightarrow> string \<Rightarrow> string" where
  "escape_byte c s = concat (map (\<lambda>x. if x = c then [bsl, c] else [x]) s)"

fun unescape_byte :: "char \<Rightarrow> string \<Rightarrow> string" where
  "unescape_byte c (x # y # s) = (if x = bsl \<and> y = c then c # unescape_byte c s else x # unescape_byte c (y # s))"
| "unescape_byte c s = s"

text \<open>
  The loop over a table of escape codes.  The table is a map and its order is not fixed; replacing
  one code does not affect the others, see \<open>escape_all_eq\<close>.
\<close>

definition escape_all :: "char list \<Rightarrow> string \<Rightarrow> string" where
  "escape_all cs s = fold escape_byte cs s"

definition unescape_all :: "char list \<Rightarrow> string \<Rightarrow> string" where
  "unescape_all cs s = fold unescape_byte cs s"

lemma escape_byte_append [simp]: "escape_byte c (s @ t) = escape_byte c s @ escape_byte c t"
  by (simp add: escape_byte_def)

lemma escape_byte_simps [simp]:
  "escape_byte c [] = []" "escape_byte c (x # s) = (if x = c then [bsl, c] else [x]) @ escape_byte c s"
  by (simp_all add: escape_byte_def)

lemma escape_all_eq:
  assumes "bsl \<notin> set cs" and "distinct cs"
  shows "escape_all cs s = concat (map (\<lambda>x. if x \<in> set cs then [bsl, x] else [x]) s)"
  using assms
proof (induction cs arbitrary: s)
  case (Cons c cs)
  have "concat (map (\<lambda>x. if x \<in> set cs then [bsl, x] else [x]) (escape_byte c s)) =
      concat (map (\<lambda>x. if x \<in> set (c # cs) then [bsl, x] else [x]) s)"
    using Cons.prems by (induction s) auto
  with Cons show ?case by (simp add: escape_all_def)
qed (simp add: escape_all_def)

lemma unescape_byte_plain: "bsl \<notin> set s \<Longrightarrow> unescape_byte c s = s"
  by (induction c s rule: unescape_byte.induct) auto

text \<open>Unescaping one code of a text escaped for several.\<close>

definition esc1 :: "char set \<Rightarrow> string \<Rightarrow> string" where
  "esc1 C s = concat (map (\<lambda>x. if x \<in> C then [bsl, x] else [x]) s)"

lemma esc1_simps [simp]: "esc1 C [] = []" "esc1 C (x # s) = (if x \<in> C then [bsl, x] else [x]) @ esc1 C s"
  by (simp_all add: esc1_def)

lemma esc1_append [simp]: "esc1 C (s @ t) = esc1 C s @ esc1 C t"
  by (simp add: esc1_def)

lemma esc1_Nil_iff [simp]: "esc1 C s = [] \<longleftrightarrow> s = []"
  by (cases s) auto

lemma unescape_byte_Cons: "x \<noteq> bsl \<Longrightarrow> unescape_byte c (x # s) = x # unescape_byte c s"
  by (cases s) simp_all

lemma unescape_byte_esc1:
  assumes "bsl \<notin> set s" and "bsl \<notin> C"
  shows "unescape_byte c (esc1 C s) = esc1 (C - {c}) s"
  using assms
proof (induction s)
  case (Cons x s)
  have rest: "unescape_byte c (x # esc1 C s) = x # unescape_byte c (esc1 C s)" using Cons.prems by (intro unescape_byte_Cons) auto
  from Cons rest show ?case by auto
qed simp

lemma unescape_all_esc1:
  assumes "bsl \<notin> set s" and "bsl \<notin> C"
  shows "unescape_all cs (esc1 C s) = esc1 (C - set cs) s"
  using assms
proof (induction cs arbitrary: C)
  case (Cons c cs)
  have "C - {c} - set cs = C - set (c # cs)" by auto
  with Cons.IH [of "C - {c}"] Cons.prems show ?case by (simp add: unescape_all_def unescape_byte_esc1)
qed (simp add: unescape_all_def)

lemma esc1_empty [simp]: "esc1 {} s = s"
  by (induction s) simp_all

lemma unescape_escape_all:
  assumes "bsl \<notin> set s" and "bsl \<notin> set cs" and "distinct cs"
  shows "unescape_all cs (escape_all cs s) = s"
proof -
  have "escape_all cs s = esc1 (set cs) s" using escape_all_eq [OF assms(2,3)] by (simp add: esc1_def)
  then show ?thesis using unescape_all_esc1 [OF assms(1,2), of cs] by simp
qed

lemma esc1_inj:
  assumes "esc1 C s = esc1 C t" and "bsl \<notin> set s" and "bsl \<notin> set t" and "bsl \<notin> C"
  shows "s = t"
proof -
  have "finite C" by (rule finite)
  then obtain cs where cs: "set cs = C" using finite_list by blast
  have "s = unescape_all cs (esc1 C s)" using unescape_all_esc1 [OF assms(2,4), of cs] cs by simp
  also have "\<dots> = t" using unescape_all_esc1 [OF assms(3,4), of cs] cs assms(1) by simp
  finally show ?thesis .
qed

section \<open>Decimal integers\<close>

fun dec :: "nat \<Rightarrow> string" where
  "dec n = (if n < 10 then [char_of (48 + n)] else dec (n div 10) @ [char_of (48 + n mod 10)])"

declare dec.simps [simp del]

definition strconv_FormatInt :: "int \<Rightarrow> string" where
  "strconv_FormatInt i = (if i < 0 then CHR ''-'' # dec (nat (- i)) else dec (nat i))"

definition dec_value :: "string \<Rightarrow> nat" where
  "dec_value s = foldl (\<lambda>a c. 10 * a + (of_char c - 48)) 0 s"

text \<open>\<open>strconv.ParseInt(s, 10, 64)\<close>: an optional sign, at least one digit, and a value in range.\<close>

definition strconv_ParseInt :: "string \<Rightarrow> int option" where
  "strconv_ParseInt s =
     (let neg = (case s of c # _ \<Rightarrow> c = CHR ''-'' | [] \<Rightarrow> False);
          ds = (case s of c # cs \<Rightarrow> if c = CHR ''-'' \<or> c = CHR ''+'' then cs else s | [] \<Rightarrow> s);
          v = (if neg then - int (dec_value ds) else int (dec_value ds))
      in if ds \<noteq> [] \<and> list_all is_digit ds \<and> is_int64 v then Some v else None)"

lemma is_digit_iff: "is_digit c \<longleftrightarrow> 48 \<le> (of_char c :: nat) \<and> of_char c \<le> (57 :: nat)"
  by (simp add: is_digit_def less_eq_char_def)

lemma is_digit_char_of: "n < 10 \<Longrightarrow> is_digit (char_of (48 + n))" for n :: nat
  by (simp add: is_digit_iff)

lemma dec_digits: "dec n \<noteq> [] \<and> list_all is_digit (dec n)"
proof (induction n rule: dec.induct)
  case (1 n)
  then show ?case by (simp add: dec.simps [of n] is_digit_char_of)
qed

lemma dec_value_snoc: "dec_value (s @ [c]) = 10 * dec_value s + (of_char c - 48)"
  by (simp add: dec_value_def)

lemma dec_value_dec [simp]: "dec_value (dec n) = n"
proof (induction n rule: dec.induct)
  case (1 n)
  show ?case
  proof (cases "n < 10")
    case True
    then show ?thesis by (simp add: dec.simps [of n] dec_value_def)
  next
    case False
    have "(of_char (char_of (48 + n mod 10)) :: nat) - 48 = n mod 10" by simp
    with 1 False show ?thesis by (simp add: dec.simps [of n] dec_value_snoc)
  qed
qed

lemma dec_hd: "\<exists>c cs. dec n = c # cs \<and> is_digit c"
  using dec_digits [of n] by (cases "dec n") auto

lemma ParseInt_FormatInt:
  assumes "is_int64 i"
  shows "strconv_ParseInt (strconv_FormatInt i) = Some i"
proof (cases "i < 0")
  case True
  then show ?thesis using dec_digits [of "nat (- i)"] assms
    by (simp add: strconv_ParseInt_def strconv_FormatInt_def Let_def)
next
  case False
  obtain c cs where d: "dec (nat i) = c # cs" "is_digit c" using dec_hd by blast
  then have "c \<noteq> CHR ''-''" "c \<noteq> CHR ''+''" by (auto simp: is_digit_iff)
  with d False show ?thesis using dec_digits [of "nat i"] dec_value_dec [of "nat i"] assms
    by (simp add: strconv_ParseInt_def strconv_FormatInt_def Let_def)
qed

section \<open>FNV-1a\<close>

definition fnv64a :: "string \<Rightarrow> u64" where
  "fnv64a s = fold (\<lambda>c h. (h XOR of_char c) * 1099511628211) s 14695981039346656037"

end
