(* ===== verification/Models_Scan.thy ===== *)
theory Models_Scan
  imports Models_Base
begin

text \<open>
  The scanners of the line protocol (\<open>models/points.go\<close>, from \<open>scanKey\<close> to \<open>unescapeStringField\<close>).
  Every loop over the buffer is a recursive function on the position; positions past the end (the
  scanners step over an escaped byte without looking whether it exists) reach \<open>sl\<close>, which decides
  by the capacity.  \<open>scanNumber\<close> and \<open>scanBoolean\<close> are called behind a \<open>=\<close> and inside the buffer only,
  so the slices of their error results always exist and are left out.
\<close>

section \<open>Blocks up to a byte\<close>

function scanTo_loop :: "char \<Rightarrow> string \<Rightarrow> nat \<Rightarrow> nat" where
  "scanTo_loop stop s i =
     (if i \<ge> length s then i
      else if s ! i = bsl then scanTo_loop stop s (i + 2)
      else if s ! i = stop then i
      else scanTo_loop stop s (i + 1))"
  by pat_completeness auto
termination by (relation "measure (\<lambda>(stop, s, i). length s - i)") auto

definition scanTo :: "gobytes \<Rightarrow> nat \<Rightarrow> char \<Rightarrow> (nat \<times> gobytes) parsed" where
  "scanTo b i stop = (let j = scanTo_loop stop (gb b) i in pbind (sl b i j) (\<lambda>v. Inr (j, v)))"

function scanToSpaceOr_loop :: "char \<Rightarrow> string \<Rightarrow> nat \<Rightarrow> nat" where
  "scanToSpaceOr_loop stop s i =
     (if i \<ge> length s then i
      else if s ! i = bsl then scanToSpaceOr_loop stop s (i + 2)
      else if s ! i = stop \<or> s ! i = space then i
      else scanToSpaceOr_loop stop s (i + 1))"
  by pat_completeness auto
termination by (relation "measure (\<lambda>(stop, s, i). length s - i)") auto

definition scanToSpaceOr :: "gobytes \<Rightarrow> nat \<Rightarrow> char \<Rightarrow> (nat \<times> gobytes) parsed" where
  "scanToSpaceOr b i stop = (let j = scanToSpaceOr_loop stop (gb b) i in pbind (sl b i j) (\<lambda>v. Inr (j, v)))"

function scanTagValue_loop :: "string \<Rightarrow> nat \<Rightarrow> nat" where
  "scanTagValue_loop s i =
     (if i \<ge> length s then i
      else if s ! i = bsl then scanTagValue_loop s (i + 2)
      else if s ! i = comma then i
      else scanTagValue_loop s (i + 1))"
  by pat_completeness auto
termination by (relation "measure (\<lambda>(s, i). length s - i)") auto

definition scanTagValue :: "gobytes \<Rightarrow> nat \<Rightarrow> (nat \<times> gobytes) parsed" where
  "scanTagValue b i = (let j = scanTagValue_loop (gb b) i in pbind (sl b i j) (\<lambda>v. Inr (j, v)))"

function scanFieldValue_loop :: "string \<Rightarrow> nat \<Rightarrow> bool \<Rightarrow> nat" where
  "scanFieldValue_loop s i quoted =
     (if i \<ge> length s then i
      else if s ! i = bsl \<and> i + 1 < length s \<and> s ! (i + 1) = dquote then scanFieldValue_loop s (i + 2) quoted
      else if s ! i = dquote then scanFieldValue_loop s (i + 1) (\<not> quoted)
      else if s ! i = comma \<and> \<not> quoted then i
      else scanFieldValue_loop s (i + 1) quoted)"
  by pat_completeness auto
termination by (relation "measure (\<lambda>(s, i, q). length s - i)") auto

definition scanFieldValue :: "gobytes \<Rightarrow> nat \<Rightarrow> (nat \<times> gobytes) parsed" where
  "scanFieldValue b i = (let j = scanFieldValue_loop (gb b) i False in pbind (sl b i j) (\<lambda>v. Inr (j, v)))"

function skipWhitespace :: "string \<Rightarrow> nat \<Rightarrow> nat" where
  "skipWhitespace s i =
     (if i < length s then
        if s ! i \<noteq> space \<and> s ! i \<noteq> CHR 0x09 \<and> s ! i \<noteq> CHR 0x00 then i else skipWhitespace s (i + 1)
      else i)"
  by pat_completeness auto
termination by (relation "measure (\<lambda>(s, i). length s - i)") auto

function scanLine_loop :: "string \<Rightarrow> nat \<Rightarrow> bool \<Rightarrow> bool \<Rightarrow> nat" where
  "scanLine_loop s i quoted flds =
     (if i \<ge> length s then i
      else let flds = (flds \<or> s ! i = space) in
        if flds \<and> s ! i = dquote \<and> i > 1 \<and> s ! (i - 1) \<noteq> bsl then scanLine_loop s (i + 1) (\<not> quoted) flds
        else if s ! i = newline \<and> \<not> quoted then i
        else scanLine_loop s (i + 1) quoted flds)"
  by pat_completeness auto
termination by (relation "measure (\<lambda>(s, i, q, f). length s - i)") auto

definition scanLine :: "gobytes \<Rightarrow> nat \<Rightarrow> (nat \<times> gobytes) parsed" where
  "scanLine b i = (let j = scanLine_loop (gb b) i False False in pbind (sl b i j) (\<lambda>v. Inr (j, v)))"

lemmas scan_simps_del = scanTo_loop.simps scanToSpaceOr_loop.simps scanTagValue_loop.simps scanFieldValue_loop.simps
  skipWhitespace.simps scanLine_loop.simps

declare scan_simps_del [simp del]

section \<open>Numbers, booleans and timestamps\<close>

text \<open>
  \<open>strconv\<close>'s conversion of floats is a parameter: \<open>fl_Parse\<close> gives the bits of the number or an error,
  \<open>fl_Format\<close> and \<open>fl_Format32\<close> the shortest decimal without exponent.
\<close>

record float_lib =
  fl_Parse :: "string \<Rightarrow> u64 option"
  fl_Format :: "u64 \<Rightarrow> string"
  fl_Format32 :: "32 word \<Rightarrow> string"

definition isNumeric :: "char \<Rightarrow> bool" where
  "isNumeric c \<longleftrightarrow> (CHR ''0'' \<le> c \<and> c \<le> CHR ''9'') \<or> c = CHR ''.''"

function scanNumber_loop :: "string \<Rightarrow> nat \<Rightarrow> nat \<Rightarrow> bool \<Rightarrow> nat \<Rightarrow> bool \<Rightarrow> (nat \<times> bool \<times> nat \<times> bool) parsed" where
  "scanNumber_loop s start i isInt decimals scientific =
     (if i \<ge> length s then Inr (i, isInt, decimals, scientific)
      else let c = s ! i in
        if c = comma \<or> c = space then Inr (i, isInt, decimals, scientific)
        else if c = CHR ''i'' \<and> i > start \<and> \<not> isInt then scanNumber_loop s start (i + 1) True decimals scientific
        else let decimals = (if c = CHR ''.'' then decimals + 1 else decimals) in
          if decimals > 1 then Inl InvalidNumber
          else if i > start \<and> (c = CHR ''e'' \<or> c = CHR ''E'') then scanNumber_loop s start (i + 1) isInt decimals True
          else if (c = CHR ''+'' \<or> c = CHR ''-'') \<and> (s ! (i - 1) = CHR ''e'' \<or> s ! (i - 1) = CHR ''E'')
            then scanNumber_loop s start (i + 1) isInt decimals scientific
          else if i + 2 < length s \<and> (c = CHR ''N'' \<or> c = CHR ''n'') then Inl InvalidNumber
          else if \<not> isNumeric c then Inl InvalidNumber
          else scanNumber_loop s start (i + 1) isInt decimals scientific)"
  by pat_completeness auto
termination by (relation "measure (\<lambda>(s, start, i, a, b, c). length s - i)") auto

declare scanNumber_loop.simps [simp del]

definition maxInt64Digits :: nat where "maxInt64Digits = 19"
definition minInt64Digits :: nat where "minInt64Digits = 20"
definition maxFloat64Digits :: nat where "maxFloat64Digits = 25"
definition minFloat64Digits :: nat where "minFloat64Digits = 27"

definition scanNumber_check :: "float_lib \<Rightarrow> string \<Rightarrow> nat \<Rightarrow> nat \<times> bool \<times> nat \<times> bool \<Rightarrow> nat parsed" where
  "scanNumber_check F s start r =
     (case r of (i, isInt, decimals, scientific) \<Rightarrow>
        if isInt \<and> (decimals > 0 \<or> scientific) then Inl InvalidNumber
        else if isInt then
          if s ! (i - 1) \<noteq> CHR ''i'' then Inl InvalidNumber
          else let n = take (i - 1 - start) (drop start s) in
            if (length n \<ge> maxInt64Digits \<or> length n \<ge> minInt64Digits) \<and> strconv_ParseInt n = None
            then Inl UnableToParseInteger else Inr i
        else let n = take (i - start) (drop start s) in
          if (scientific \<or> length n \<ge> maxFloat64Digits \<or> length n \<ge> minFloat64Digits) \<and> fl_Parse F n = None
          then Inl InvalidFloat else Inr i)"

definition scanNumber :: "float_lib \<Rightarrow> string \<Rightarrow> nat \<Rightarrow> nat parsed" where
  "scanNumber F s start =
     (let neg = (start < length s \<and> s ! start = CHR ''-'');
          i = (if neg then start + 1 else start)
      in if neg \<and> i = length s then Inl InvalidNumber
         else pbind (scanNumber_loop s start i False 0 False) (scanNumber_check F s start))"

function scanBoolean_loop :: "string \<Rightarrow> nat \<Rightarrow> nat" where
  "scanBoolean_loop s i =
     (if i \<ge> length s then i
      else if s ! i = comma \<or> s ! i = space then i
      else scanBoolean_loop s (i + 1))"
  by pat_completeness auto
termination by (relation "measure (\<lambda>(s, i). length s - i)") auto

declare scanBoolean_loop.simps [simp del]

definition scanBoolean :: "string \<Rightarrow> nat \<Rightarrow> nat parsed" where
  "scanBoolean s start =
     (if start < length s \<and> s ! start \<notin> {CHR ''t'', CHR ''f'', CHR ''T'', CHR ''F''} then Inl InvalidBoolean
      else
        let i = scanBoolean_loop s (start + 1); v = take (i - start) (drop start s); c = s ! start in
        if i - start = 1 then Inr i
        else if (c = CHR ''t'' \<or> c = CHR ''T'') \<and> i - start \<noteq> 4 then Inl InvalidBoolean
        else if (c = CHR ''f'' \<or> c = CHR ''F'') \<and> i - start \<noteq> 5 then Inl InvalidBoolean
        else if c = CHR ''t'' \<and> v = ''true'' \<or> c = CHR ''f'' \<and> v = ''false'' \<or>
                c = CHR ''T'' \<and> (v = ''TRUE'' \<or> v = ''True'') \<or> c = CHR ''F'' \<and> (v = ''FALSE'' \<or> v = ''False'')
          then Inr i
        else Inl InvalidBoolean)"

function scanTime_loop :: "string \<Rightarrow> nat \<Rightarrow> nat \<Rightarrow> nat parsed" where
  "scanTime_loop s start i =
     (if i \<ge> length s then Inr i
      else if s ! i < CHR ''0'' \<or> s ! i > CHR ''9'' then
        if i = start \<and> s ! i = CHR ''-'' then scanTime_loop s start (i + 1) else Inl BadTimestamp
      else if s ! i = newline then Inr i
      else scanTime_loop s start (i + 1))"
  by pat_completeness auto
termination by (relation "measure (\<lambda>(s, start, i). length s - i)") auto

declare scanTime_loop.simps [simp del]

definition scanTime :: "gobytes \<Rightarrow> nat \<Rightarrow> (nat \<times> gobytes) parsed" where
  "scanTime b i =
     (let start = skipWhitespace (gb b) i in
      pbind (scanTime_loop (gb b) start start) (\<lambda>j. pbind (sl b start j) (\<lambda>v. Inr (j, v))))"

section \<open>The key: measurement and tags\<close>

text \<open>
  An error result of \<open>scanKey\<close> and \<open>scanFields\<close> carries \<open>buf[start:i]\<close>, which may be out of range.
\<close>

definition scan_fail :: "gobytes \<Rightarrow> nat \<Rightarrow> nat \<Rightarrow> pt_error \<Rightarrow> 'a parsed" where
  "scan_fail b start i e = pbind (sl b start i) (\<lambda>_. Inl e)"

text \<open>
  The first loop: the position, the starts of the tags (with the position behind the block as last
  entry if the block ended at a space), and the numbers of commas and of equal signs.
\<close>

function scanKey_loop :: "gobytes \<Rightarrow> nat \<Rightarrow> nat \<Rightarrow> nat list \<Rightarrow> nat \<Rightarrow> nat \<Rightarrow> (nat \<times> nat list \<times> nat \<times> nat) parsed" where
  "scanKey_loop b start i indices commas eqs =
     (let s = gb b in
      if i \<ge> length s then
        if eqs = 0 \<and> commas > 0 then scan_fail b start i MissingTagValue else Inr (i, indices, commas, eqs)
      else if s ! i = equals \<and> commas > 0 then
        if i < 2 then scan_fail b start i MissingTagKey
        else if s ! (i - 1) = comma \<and> s ! (i - 2) \<noteq> bsl then scan_fail b start i MissingTagKey
        else if s ! (i - 1) = space \<and> s ! (i - 2) \<noteq> bsl then scan_fail b start i MissingTagKey
        else if i + 1 < length s \<and> (s ! (i + 1) = space \<or> s ! (i + 1) = comma) then scan_fail b start (i + 1) MissingTagValue
        else scanKey_loop b start (i + 1) indices commas (eqs + 1)
      else if s ! i = bsl then scanKey_loop b start (i + 2) indices commas eqs
      else if s ! i = comma then
        if eqs = 0 \<and> commas > 0 then scan_fail b start i MissingTagValue
        else if i + 1 < length s \<and> s ! (i + 1) = space then scan_fail b start (i + 1) MissingTagKey
        else scanKey_loop b start (i + 1) (indices @ [i + 1]) (commas + 1) eqs
      else if s ! i = space then
        if eqs = 0 \<and> commas > 0 then scan_fail b start i MissingTagValue
        else if eqs > 0 \<and> commas \<noteq> eqs then scan_fail b start i MissingTagValue
        else Inr (i, indices @ [i + 1], commas, eqs)
      else scanKey_loop b start (i + 1) indices commas eqs)"
  by pat_completeness auto
termination by (relation "measure (\<lambda>(b, start, i, ix, c, e). length (gb b) - i)") auto

declare scanKey_loop.simps [simp del]

text \<open>\<open>less\<close> (here \<open>less_tags\<close>) and \<open>insertionSort\<close> on the starts of the tags.\<close>

definition less_tags :: "gobytes \<Rightarrow> nat list \<Rightarrow> nat \<Rightarrow> nat \<Rightarrow> bool parsed" where
  "less_tags buf indices i j =
     pbind (scanTo buf (indices ! i) equals) (\<lambda>(_, a). pbind (scanTo buf (indices ! j) equals) (\<lambda>(_, b). Inr (gb a < gb b)))"

fun insert_down :: "gobytes \<Rightarrow> nat \<Rightarrow> nat \<Rightarrow> nat list \<Rightarrow> nat list parsed" where
  "insert_down buf l j indices =
     (if j > l then
        pbind (less_tags buf indices j (j - 1)) (\<lambda>lt.
          if lt then insert_down buf l (j - 1) (indices[j := indices ! (j - 1), j - 1 := indices ! j]) else Inr indices)
      else Inr indices)"

declare insert_down.simps [simp del]

definition insertionSort :: "nat \<Rightarrow> nat \<Rightarrow> gobytes \<Rightarrow> nat list \<Rightarrow> nat list parsed" where
  "insertionSort l r buf indices = fold (\<lambda>i acc. pbind acc (insert_down buf l i)) [l + 1..<r] (Inr indices)"

text \<open>
  The second loop compares the tag names from both ends towards the middle; the result is whether the
  tags count as sorted.
\<close>

fun check_tags :: "gobytes \<Rightarrow> nat \<Rightarrow> nat \<Rightarrow> nat list \<Rightarrow> nat \<Rightarrow> nat list \<Rightarrow> bool \<Rightarrow> bool parsed" where
  "check_tags b start i indices commas [] srt = Inr srt"
| "check_tags b start i indices commas (j # js) srt =
     pbind (sl b (indices ! j) (indices ! (j + 1) - 1)) (\<lambda>lt.
     pbind (scanTo lt 0 equals) (\<lambda>(_, left).
     pbind (sl b (indices ! (commas - j - 1)) (indices ! (commas - j) - 1)) (\<lambda>rt.
     pbind (scanTo rt 0 equals) (\<lambda>(_, right).
       if gb left = gb right then scan_fail b start i DuplicateTags
       else check_tags b start i indices commas js (srt \<and> \<not> gb left > gb right)))))"

text \<open>The new key is copied into an array of the length of the old one.\<close>

definition copy_at :: "nat \<Rightarrow> string \<Rightarrow> string \<Rightarrow> string" where
  "copy_at pos v b = take pos b @ take (length b - pos) v @ drop (pos + length v) b"

fun copy_tags :: "gobytes \<Rightarrow> nat list \<Rightarrow> nat \<Rightarrow> string \<Rightarrow> string parsed" where
  "copy_tags buf [] pos b = Inr b"
| "copy_tags buf (i # is') pos b =
     (if pos \<ge> length b then Inl PanicIndexRange
      else let b1 = b[pos := comma]; pos1 = pos + 1 in
        pbind (scanToSpaceOr buf i comma) (\<lambda>(_, v).
          copy_tags buf is' (pos1 + min (length (gb v)) (length b1 - pos1)) (copy_at pos1 (gb v) b1)))"

definition scanKey_finish :: "gobytes \<Rightarrow> nat \<Rightarrow> nat \<times> nat list \<times> nat \<times> nat \<Rightarrow> (nat \<times> gobytes) parsed" where
  "scanKey_finish b start r =
     (case r of (i, indices, commas, eqs) \<Rightarrow>
        if eqs > 0 \<and> commas \<noteq> eqs then scan_fail b start i InvalidTagFormat
        else if i \<ge> length (gb b) then scan_fail b start i MissingFields
        else pbind (check_tags b start i indices commas [0..<commas div 2] True) (\<lambda>srt.
          if \<not> srt \<and> commas > 0 then
            pbind (sl b start (indices ! 0 - 1)) (\<lambda>measurement.
            pbind (insertionSort 0 commas b (take commas indices)) (\<lambda>indices.
            pbind (sl b start i) (\<lambda>key.
            let n = length (gb key) in
            pbind (copy_tags b indices (min n (length (gb measurement)))
                (copy_at 0 (gb measurement) (replicate n (CHR 0x00)))) (\<lambda>k.
            Inr (i, of_bytes k)))))
          else pbind (sl b start i) (\<lambda>key. Inr (i, key))))"

definition scanKey :: "gobytes \<Rightarrow> nat \<Rightarrow> (nat \<times> gobytes) parsed" where
  "scanKey b i =
     (let start = skipWhitespace (gb b) i in pbind (scanKey_loop b start start [] 0 0) (scanKey_finish b start))"

section \<open>The fields\<close>

text \<open>The codes of \<open>pkg/escape\<close>.\<close>

definition escape_Codes :: "char list" where
  "escape_Codes = [comma, dquote, space, equals]"

definition isFieldEscapeChar :: "char \<Rightarrow> bool" where
  "isFieldEscapeChar c = list_ex (\<lambda>x. x = c) escape_Codes"

text \<open>The value behind an equal sign: the position behind a number or a boolean, or none for a string.\<close>

definition scanFields_value :: "float_lib \<Rightarrow> gobytes \<Rightarrow> nat \<Rightarrow> nat \<Rightarrow> nat option parsed" where
  "scanFields_value F b start i =
     (let s = gb b in
      if i < 1 then Inl PanicIndexRange
      else if (s ! (i - 1) = space \<or> s ! (i - 1) = comma) \<and> i < 2 then Inl PanicIndexRange
      else if s ! (i - 1) = space \<and> s ! (i - 2) \<noteq> bsl then scan_fail b start i MissingFieldKey
      else if s ! (i - 1) = comma \<and> s ! (i - 2) \<noteq> bsl then scan_fail b start i MissingFieldKey
      else if i + 1 \<ge> length s then scan_fail b start i MissingFieldValue
      else let c = s ! (i + 1) in
        if c = comma \<or> c = space then scan_fail b start i MissingFieldValue
        else if isNumeric c \<or> c = CHR ''-'' \<or> c = CHR ''N'' \<or> c = CHR ''n'' then
          pbind (scanNumber F s (i + 1)) (\<lambda>j. Inr (Some j))
        else if c \<noteq> dquote then pbind (scanBoolean s (i + 1)) (\<lambda>j. Inr (Some j))
        else Inr None)"

lemma scanNumber_loop_ge: "scanNumber_loop s start i a d e = Inr (j, r) \<Longrightarrow> i \<le> j"
proof (induction s start i a d e rule: scanNumber_loop.induct)
  case (1 s start i a d e)
  note IH = 1(1-4)
  from 1(5) show ?case
    apply (subst (asm) scanNumber_loop.simps)
    apply (simp add: Let_def split: if_splits)
    using IH by (fastforce simp: Let_def)+
qed

lemma scanNumber_ge: "scanNumber F s i = Inr j \<Longrightarrow> i \<le> j"
  by (auto simp: scanNumber_def scanNumber_check_def pbind_def Let_def dest!: scanNumber_loop_ge split: sum.splits if_splits)

lemma scanBoolean_loop_ge: "i \<le> scanBoolean_loop s i"
  by (induction s i rule: scanBoolean_loop.induct) (subst scanBoolean_loop.simps, auto)

lemma scanBoolean_ge: "scanBoolean s i = Inr j \<Longrightarrow> i \<le> j"
  using scanBoolean_loop_ge [of "i + 1" s] by (auto simp: scanBoolean_def Let_def split: if_splits)

lemma scanFields_value_gt: "scanFields_value F b start i = Inr (Some j) \<Longrightarrow> i < j"
  by (auto simp: scanFields_value_def scan_fail_def pbind_def Let_def dest!: scanNumber_ge scanBoolean_ge split: sum.splits if_splits)

function scanFields_loop :: "float_lib \<Rightarrow> gobytes \<Rightarrow> nat \<Rightarrow> nat \<Rightarrow> bool \<Rightarrow> nat \<Rightarrow> nat \<Rightarrow> (nat \<times> bool \<times> nat \<times> nat) parsed" where
  "scanFields_loop F b start i quoted eqs commas =
     (let s = gb b in
      if i \<ge> length s then Inr (i, quoted, eqs, commas)
      else if s ! i = bsl \<and> i + 1 < length s \<and> quoted \<and> (s ! (i + 1) = dquote \<or> s ! (i + 1) = bsl)
        then scanFields_loop F b start (i + 2) quoted eqs commas
      else if s ! i = bsl \<and> i + 1 < length s \<and> \<not> quoted \<and> isFieldEscapeChar (s ! (i + 1))
        then scanFields_loop F b start (i + 2) quoted eqs commas
      else if s ! i = dquote then scanFields_loop F b start (i + 1) (\<not> quoted) eqs commas
      else if s ! i = equals \<and> \<not> quoted then
        (case scanFields_value F b start i of
           Inl e \<Rightarrow> Inl e
         | Inr (Some j) \<Rightarrow> scanFields_loop F b start j quoted (eqs + 1) commas
         | Inr None \<Rightarrow> scanFields_loop F b start (i + 1) quoted (eqs + 1) commas)
      else let commas = (if s ! i = comma \<and> \<not> quoted then commas + 1 else commas) in
        if s ! i = space \<and> \<not> quoted then Inr (i, quoted, eqs, commas)
        else scanFields_loop F b start (i + 1) quoted eqs commas)"
  by pat_completeness auto
termination
  by (relation "measure (\<lambda>(F, b, start, i, q, e, c). length (gb b) - i)") (auto dest: scanFields_value_gt)

declare scanFields_loop.simps [simp del]

definition scanFields :: "float_lib \<Rightarrow> gobytes \<Rightarrow> nat \<Rightarrow> (nat \<times> gobytes) parsed" where
  "scanFields F b i =
     (let start = skipWhitespace (gb b) i in
      pbind (scanFields_loop F b start start False 0 0) (\<lambda>(i, quoted, eqs, commas).
        if quoted then scan_fail b start i UnbalancedQuotes
        else if eqs = 0 \<or> commas \<noteq> eqs - 1 then scan_fail b start i InvalidFieldFormat
        else pbind (sl b start i) (\<lambda>v. Inr (i, v))))"

section \<open>Escaping\<close>

definition measurementEscapeCodes :: "char list" where
  "measurementEscapeCodes = [comma, space]"

definition tagEscapeCodes :: "char list" where
  "tagEscapeCodes = [comma, space, equals]"

definition escapeMeasurement :: "string \<Rightarrow> string" where
  "escapeMeasurement s = escape_all measurementEscapeCodes s"

definition unescapeMeasurement :: "string \<Rightarrow> string" where
  "unescapeMeasurement s = unescape_all measurementEscapeCodes s"

definition escapeTag :: "string \<Rightarrow> string" where
  "escapeTag s = escape_all tagEscapeCodes s"

definition unescapeTag :: "string \<Rightarrow> string" where
  "unescapeTag s = unescape_all tagEscapeCodes s"

text \<open>\<open>escape.String\<close>, which replaces the same codes as \<open>escape.Bytes\<close>, and \<open>escape.Unescape\<close>.\<close>

definition escape_String :: "string \<Rightarrow> string" where
  "escape_String s = escape_all escape_Codes s"

fun escape_Unescape :: "string \<Rightarrow> string" where
  "escape_Unescape (x # y # s) =
     (if x = bsl \<and> y \<in> {comma, dquote, space, equals} then y # escape_Unescape s else x # escape_Unescape (y # s))"
| "escape_Unescape s = s"

fun escapeStringField :: "string \<Rightarrow> string" where
  "escapeStringField [] = []"
| "escapeStringField (c # s) =
     (if c = bsl then bsl # bsl # escapeStringField s
      else if c = dquote then bsl # dquote # escapeStringField s
      else c # escapeStringField s)"

fun unescapeStringField :: "string \<Rightarrow> string" where
  "unescapeStringField (x # y # s) =
     (if x = bsl \<and> y = bsl then bsl # unescapeStringField s
      else if x = bsl \<and> y = dquote then dquote # unescapeStringField s
      else x # unescapeStringField (y # s))"
| "unescapeStringField s = s"

lemma unescapeStringField_Cons: "x \<noteq> bsl \<Longrightarrow> unescapeStringField (x # s) = x # unescapeStringField s"
  by (cases s) simp_all

lemma unescape_escapeStringField [simp]: "unescapeStringField (escapeStringField s) = s"
  by (induction s) (simp_all add: unescapeStringField_Cons)

lemma Unescape_Cons: "x \<noteq> bsl \<Longrightarrow> escape_Unescape (x # s) = x # escape_Unescape s"
  by (cases s) simp_all

lemma Unescape_esc1:
  assumes "bsl \<notin> set s" and "C \<subseteq> {comma, dquote, space, equals}"
  shows "escape_Unescape (esc1 C s) = s"
  using assms
proof (induction s)
  case (Cons x s)
  then have "escape_Unescape (x # esc1 C s) = x # s" by (subst Unescape_Cons) auto
  with Cons show ?case by auto
qed simp

end
