(* ===== verification/Models_Point.thy ===== *)
theory Models_Point
  imports Models_Scan
begin

text \<open>
  Points (\<open>models/points.go\<close>): their key and fields as text, access to name, tags and fields, and
  parsing and printing.  Go maps are association lists with distinct keys.  A slice that \<open>append\<close> or
  a conversion allocates has spare bytes behind it that depend on the allocator: the parameter
  \<open>spare\<close> gives them.
\<close>

section \<open>Field values\<close>

text \<open>
  What a field can hold.  \<open>FInt\<close> stands for all signed and the narrow unsigned integer types, which
  are converted to \<open>int64\<close> without loss, \<open>FUint\<close> for \<open>uint\<close>, \<open>FOther\<close> for a value of any other type,
  by its text under the format \<open>%v\<close>.
\<close>

datatype field_value = FInt int | FUint u64 | FFloat32 "32 word" | FFloat u64 | FBool bool | FBytes string
  | FString string | FNil | FOther string

type_synonym Fields = "(string \<times> field_value) list"
type_synonym Tags = "(string \<times> string) list"

fun parseNumber_loop :: "float_lib \<Rightarrow> string \<Rightarrow> string \<Rightarrow> field_value option" where
  "parseNumber_loop F val [] = map_option FFloat (fl_Parse F val)"
| "parseNumber_loop F val (c # cs) =
     (if c \<in> {CHR ''.'', CHR ''N'', CHR ''n'', CHR ''I'', CHR ''i'', CHR ''e''} then map_option FFloat (fl_Parse F val)
      else if c < CHR ''0'' \<and> c > CHR ''9'' then Some (FString val)
      else parseNumber_loop F val cs)"

definition parseNumber :: "float_lib \<Rightarrow> string \<Rightarrow> field_value option" where
  "parseNumber F val =
     (if last val = CHR ''i'' then map_option FInt (strconv_ParseInt (butlast val)) else parseNumber_loop F val val)"

definition strconv_ParseBool :: "string \<Rightarrow> bool option" where
  "strconv_ParseBool s =
     (if s \<in> {''1'', ''t'', ''T'', ''true'', ''TRUE'', ''True''} then Some True
      else if s \<in> {''0'', ''f'', ''F'', ''false'', ''FALSE'', ''False''} then Some False
      else None)"

definition strconv_FormatBool :: "bool \<Rightarrow> string" where
  "strconv_FormatBool b = (if b then ''true'' else ''false'')"

definition parse_value :: "float_lib \<Rightarrow> string \<Rightarrow> field_value parsed" where
  "parse_value F v =
     (let c = hd v in
      if c = dquote then
        if length v < 2 then Inl PanicSliceBounds else Inr (FString (unescapeStringField (butlast (tl v))))
      else if is_digit c \<or> c \<in> {CHR ''-'', CHR ''+'', CHR ''.'', CHR ''N'', CHR ''n'', CHR ''I'', CHR ''i''} then
        (case parseNumber F v of None \<Rightarrow> Inl PanicNumberValue | Some x \<Rightarrow> Inr x)
      else (case strconv_ParseBool v of None \<Rightarrow> Inl PanicBoolValue | Some x \<Rightarrow> Inr (FBool x)))"

text \<open>
  The loop of \<open>newFieldsFromBinary\<close> does not advance over an empty field name, so it need not end;
  None stands for a loop that does not.
\<close>

partial_function (option) fields_loop :: "float_lib \<Rightarrow> gobytes \<Rightarrow> nat \<Rightarrow> Fields \<Rightarrow> Fields parsed option" where
  "fields_loop F b i fs =
     (if i \<ge> length (gb b) then Some (Inr fs)
      else case scanTo b i equals of
        Inl e \<Rightarrow> Some (Inl e)
      | Inr (i, name) \<Rightarrow>
          if gb name = [] then fields_loop F b i fs
          else let nm = escape_Unescape (gb name) in
            (case scanFieldValue b (i + 1) of
               Inl e \<Rightarrow> Some (Inl e)
             | Inr (i, v) \<Rightarrow>
                 if gb v = [] then fields_loop F b i (AList.update nm FNil fs)
                 else (case parse_value F (gb v) of
                   Inl e \<Rightarrow> Some (Inl e)
                 | Inr x \<Rightarrow> fields_loop F b (i + 1) (AList.update nm x fs))))"

declare fields_loop.simps [code]

definition newFieldsFromBinary :: "float_lib \<Rightarrow> gobytes \<Rightarrow> Fields parsed option" where
  "newFieldsFromBinary F b = fields_loop F b 0 []"

fun field_text :: "float_lib \<Rightarrow> field_value \<Rightarrow> string" where
  "field_text F (FInt i) = strconv_FormatInt i @ ''i''"
| "field_text F (FUint u) = strconv_FormatInt (sint u) @ ''i''"
| "field_text F (FFloat32 v) = fl_Format32 F v"
| "field_text F (FFloat v) = fl_Format F v"
| "field_text F (FBool b) = strconv_FormatBool b"
| "field_text F (FBytes s) = s"
| "field_text F (FString s) = [dquote] @ escapeStringField s @ [dquote]"
| "field_text F FNil = []"
| "field_text F (FOther s) = [dquote] @ escapeStringField s @ [dquote]"

definition Fields_MarshalBinary :: "float_lib \<Rightarrow> Fields \<Rightarrow> string" where
  "Fields_MarshalBinary F p =
     butlast (concat (map (\<lambda>k. escape_String k @ [equals] @ field_text F (the (map_of p k)) @ [comma]) (sort (map fst p))))"

section \<open>Tags\<close>

definition Tags_HashKey :: "Tags \<Rightarrow> string" where
  "Tags_HashKey t =
     (let escaped = fold (\<lambda>(k, v) m. let ek = escapeTag k; ev = escapeTag v in
            if length ev > 0 then AList.update ek ev m else m) t []
      in concat (map (\<lambda>k. [comma] @ k @ [equals] @ the (map_of escaped k)) (sort (map fst escaped))))"

definition MakeKey :: "string \<Rightarrow> Tags \<Rightarrow> string" where
  "MakeKey name tags = escapeMeasurement (unescapeMeasurement name) @ Tags_HashKey tags"

lemma scanTo_loop_ge: "i \<le> scanTo_loop stop s i"
proof (induction stop s i rule: scanTo_loop.induct)
  case (1 stop s i)
  then show ?case by (subst scanTo_loop.simps) auto
qed

lemma scanTagValue_loop_ge: "i \<le> scanTagValue_loop s i"
proof (induction s i rule: scanTagValue_loop.induct)
  case (1 s i)
  then show ?case by (subst scanTagValue_loop.simps) auto
qed

lemma scanTo_ge: "scanTo b i stop = Inr (j, v) \<Longrightarrow> i \<le> j"
  using scanTo_loop_ge [of i stop "gb b"] by (auto simp: scanTo_def Let_def pbind_def split: sum.splits)

lemma scanTagValue_ge: "scanTagValue b i = Inr (j, v) \<Longrightarrow> i \<le> j"
  using scanTagValue_loop_ge [of i "gb b"] by (auto simp: scanTagValue_def Let_def pbind_def split: sum.splits)

function Tags_loop :: "gobytes \<Rightarrow> nat \<Rightarrow> Tags \<Rightarrow> Tags parsed" where
  "Tags_loop b i tags =
     (if i \<ge> length (gb b) then Inr tags
      else case scanTo b i equals of
        Inl e \<Rightarrow> Inl e
      | Inr (i1, key) \<Rightarrow>
          (case scanTagValue b (i1 + 1) of
             Inl e \<Rightarrow> Inl e
           | Inr (i2, val) \<Rightarrow>
               if gb val = [] then Tags_loop b i2 tags
               else Tags_loop b (i2 + 1) (AList.update (unescapeTag (gb key)) (unescapeTag (gb val)) tags)))"
  by pat_completeness auto
termination
  by (relation "measure (\<lambda>(b, i, tags). length (gb b) - i)") (auto dest!: scanTo_ge scanTagValue_ge)

declare Tags_loop.simps [simp del]

section \<open>Points\<close>

record point =
  pt_time :: time
  pt_key :: gobytes
  pt_fields :: gobytes
  pt_ts :: string
  pt_data :: string
  pt_cachedFields :: "Fields option"
  pt_cachedName :: string

definition new_point :: "gobytes \<Rightarrow> gobytes \<Rightarrow> string \<Rightarrow> time \<Rightarrow> point" where
  "new_point key flds ts t = \<lparr>pt_time = t, pt_key = key, pt_fields = flds, pt_ts = ts, pt_data = [],
     pt_cachedFields = None, pt_cachedName = []\<rparr>"

definition alloc :: "(string \<Rightarrow> string) \<Rightarrow> string \<Rightarrow> gobytes" where
  "alloc spare s = \<lparr>gb = s, gx = spare s\<rparr>"

definition NewPoint :: "(string \<Rightarrow> string) \<Rightarrow> float_lib \<Rightarrow> string \<Rightarrow> Tags \<Rightarrow> Fields \<Rightarrow> time \<Rightarrow> point parsed" where
  "NewPoint spare F name tags flds t =
     (if list_ex (\<lambda>(k, v). case v of FFloat x \<Rightarrow> math_IsNaN x | _ \<Rightarrow> False) flds then Inl UnsupportedFieldNaN
      else Inr (new_point (alloc spare (MakeKey name tags)) (alloc spare (Fields_MarshalBinary F flds)) [] t))"

definition point_Data :: "point \<Rightarrow> string" where
  "point_Data p = pt_data p"

definition point_SetData :: "string \<Rightarrow> point \<Rightarrow> point" where
  "point_SetData b p = p\<lparr>pt_data := b\<rparr>"

definition point_Key :: "point \<Rightarrow> gobytes" where
  "point_Key p = pt_key p"

definition point_name :: "point \<Rightarrow> gobytes parsed" where
  "point_name p = pbind (scanTo (pt_key p) 0 comma) (\<lambda>(_, name). Inr name)"

definition point_Name :: "point \<Rightarrow> (point \<times> string) parsed" where
  "point_Name p =
     (if pt_cachedName p \<noteq> [] then Inr (p, pt_cachedName p)
      else pbind (point_name p) (\<lambda>name.
        let n = escape_Unescape (gb name) in Inr (p\<lparr>pt_cachedName := n\<rparr>, n)))"

definition point_Time :: "point \<Rightarrow> time" where
  "point_Time p = pt_time p"

definition point_SetTime :: "time \<Rightarrow> point \<Rightarrow> point" where
  "point_SetTime t p = p\<lparr>pt_time := t\<rparr>"

definition point_Tags :: "point \<Rightarrow> Tags parsed" where
  "point_Tags p =
     (if gb (pt_key p) \<noteq> [] then
        pbind (scanTo (pt_key p) 0 comma) (\<lambda>(pos, name).
          if gb name = [] then Inr [] else Tags_loop (pt_key p) (pos + 1) [])
      else Inr [])"

definition point_SetName :: "(string \<Rightarrow> string) \<Rightarrow> string \<Rightarrow> point \<Rightarrow> point parsed" where
  "point_SetName spare name p =
     (let p = p\<lparr>pt_cachedName := []\<rparr> in
      pbind (point_Tags p) (\<lambda>tags. Inr (p\<lparr>pt_key := alloc spare (MakeKey name tags)\<rparr>)))"

definition point_SetTags :: "(string \<Rightarrow> string) \<Rightarrow> Tags \<Rightarrow> point \<Rightarrow> point parsed" where
  "point_SetTags spare tags p =
     pbind (point_Name p) (\<lambda>(p, name). Inr (p\<lparr>pt_key := alloc spare (MakeKey name tags)\<rparr>))"

definition point_AddTag :: "(string \<Rightarrow> string) \<Rightarrow> string \<Rightarrow> string \<Rightarrow> point \<Rightarrow> point parsed" where
  "point_AddTag spare key val p =
     pbind (point_Tags p) (\<lambda>tags.
     pbind (point_Name p) (\<lambda>(p, name). Inr (p\<lparr>pt_key := alloc spare (MakeKey name (AList.update key val tags))\<rparr>)))"

definition point_Fields :: "float_lib \<Rightarrow> point \<Rightarrow> (point \<times> Fields) parsed option" where
  "point_Fields F p =
     (case pt_cachedFields p of
        Some fs \<Rightarrow> Some (Inr (p, fs))
      | None \<Rightarrow> map_option (\<lambda>r. pbind r (\<lambda>fs. Inr (p\<lparr>pt_cachedFields := Some fs\<rparr>, fs))) (newFieldsFromBinary F (pt_fields p)))"

definition point_AddField :: "(string \<Rightarrow> string) \<Rightarrow> float_lib \<Rightarrow> string \<Rightarrow> field_value \<Rightarrow> point \<Rightarrow> point parsed option" where
  "point_AddField spare F name val p =
     map_option (\<lambda>r. pbind r (\<lambda>(p, fs).
       Inr (p\<lparr>pt_fields := alloc spare (Fields_MarshalBinary F (AList.update name val fs)), pt_cachedFields := None\<rparr>))) (point_Fields F p)"

definition Microsecond :: duration where "Microsecond = 1000"
definition Millisecond :: duration where "Millisecond = 1000000"
definition Second' :: duration where "Second' = 1000000000"
definition Minute :: duration where "Minute = 60000000000"

definition point_SetPrecision :: "string \<Rightarrow> point \<Rightarrow> point" where
  "point_SetPrecision precision p =
     (if precision = ''u'' then point_SetTime (time_Truncate Microsecond (point_Time p)) p
      else if precision = ''ms'' then point_SetTime (time_Truncate Millisecond (point_Time p)) p
      else if precision = ''s'' then point_SetTime (time_Truncate Second' (point_Time p)) p
      else if precision = ''m'' then point_SetTime (time_Truncate Minute (point_Time p)) p
      else if precision = ''h'' then point_SetTime (time_Truncate Hour (point_Time p)) p
      else p)"

definition point_GetPrecisionMultiplier :: "string \<Rightarrow> int" where
  "point_GetPrecisionMultiplier precision =
     (if precision = ''u'' then Microsecond
      else if precision = ''ms'' then Millisecond
      else if precision = ''s'' then Second'
      else if precision = ''m'' then Minute
      else if precision = ''h'' then Hour
      else 1)"

definition point_UnixNano :: "point \<Rightarrow> int" where
  "point_UnixNano p = time_UnixNano (point_Time p)"

definition point_text :: "point \<Rightarrow> int \<Rightarrow> string" where
  "point_text p ts =
     (if time_IsZero (point_Time p) then gb (point_Key p) @ [space] @ gb (pt_fields p)
      else gb (point_Key p) @ [space] @ gb (pt_fields p) @ [space] @ strconv_FormatInt ts)"

definition point_String :: "point \<Rightarrow> string" where
  "point_String p = point_text p (point_UnixNano p)"

definition point_PrecisionString :: "string \<Rightarrow> point \<Rightarrow> string" where
  "point_PrecisionString precision p = point_text p (go_quot (point_UnixNano p) (point_GetPrecisionMultiplier precision))"

text \<open>\<open>time.Time.Round\<close> rounds to the nearest multiple since the zero time, halves up.\<close>

definition time_Round :: "duration \<Rightarrow> time \<Rightarrow> time" where
  "time_Round d t = (if d \<le> 0 then t else let r = t mod d in if r + r < d then t - r else t + (d - r))"

definition point_RoundedString :: "duration \<Rightarrow> point \<Rightarrow> string" where
  "point_RoundedString d p = point_text p (time_UnixNano (time_Round d (pt_time p)))"

definition point_HashID :: "point \<Rightarrow> u64" where
  "point_HashID p = fnv64a (gb (pt_key p))"

section \<open>Parsing\<close>

definition parsePoint :: "float_lib \<Rightarrow> gobytes \<Rightarrow> time \<Rightarrow> string \<Rightarrow> point parsed" where
  "parsePoint F buf defaultTime precision =
     pbind (scanKey buf 0) (\<lambda>(pos, key).
       if gb key = [] then Inl MissingMeasurement
       else pbind (scanFields F buf pos) (\<lambda>(pos, flds).
         if gb flds = [] then Inl MissingFields
         else pbind (scanTime buf pos) (\<lambda>(pos, ts).
           if gb ts = [] then Inr (point_SetPrecision precision (new_point key flds (gb ts) defaultTime))
           else (case strconv_ParseInt (gb ts) of
             None \<Rightarrow> Inl NumError
           | Some n \<Rightarrow> Inr (new_point key flds (gb ts) (time_Unix0 (to_int64 (n * point_GetPrecisionMultiplier precision))))))))"

text \<open>The points of the lines that parse, and the lines that do not with their errors.\<close>

lemma scanLine_loop_ge: "i \<le> scanLine_loop s i q f"
proof (induction "length s - i" arbitrary: i q f rule: less_induct)
  case less
  have IH: "i \<le> scanLine_loop s (Suc i) q' f'" if "i < length s" for q' f'
    using less [of "Suc i" q' f'] that by linarith
  show ?case by (subst scanLine_loop.simps) (simp add: Let_def IH)
qed

lemma scanLine_nonempty:
  assumes "scanLine b i = Inr (j, block)" and "gb block \<noteq> []"
  shows "i < length (gb b)" and "i \<le> j"
proof -
  from assms(1) have j: "j = scanLine_loop (gb b) i False False" and s: "sl b i j = Inr block"
    by (auto simp: scanLine_def Let_def pbind_def split: sum.splits)
  show "i \<le> j" using scanLine_loop_ge j by simp
  show "i < length (gb b)"
  proof (rule ccontr)
    assume "\<not> i < length (gb b)"
    then have "j = i" using j by (subst (asm) scanLine_loop.simps) simp
    with s assms(2) show False by (auto simp: sl_def split: if_splits)
  qed
qed

lemma scanLine_progress:
  "scanLine b i = Inr (j, block) \<Longrightarrow> gb block \<noteq> [] \<Longrightarrow> length (gb b) - Suc j < length (gb b) - i"
  using scanLine_nonempty [of b i j block] by linarith

function parse_lines :: "float_lib \<Rightarrow> gobytes \<Rightarrow> time \<Rightarrow> string \<Rightarrow> nat \<Rightarrow> point list \<Rightarrow> (string \<times> pt_error) list \<Rightarrow>
    (point list \<times> (string \<times> pt_error) list) parsed" where
  "parse_lines F buf defaultTime precision pos points failed =
     (case scanLine buf pos of
        Inl e \<Rightarrow> Inl e
      | Inr (pos1, block) \<Rightarrow>
          if gb block = [] then Inr (points, failed)
          else let start = skipWhitespace (gb block) 0 in
            if start \<ge> length (gb block) then parse_lines F buf defaultTime precision (pos1 + 1) points failed
            else if gb block ! start = CHR ''#'' then parse_lines F buf defaultTime precision (pos1 + 1) points failed
            else let n = length (gb block) - (if last (gb block) = newline then 1 else 0) in
              (case sl block start n of
                 Inl e \<Rightarrow> Inl e
               | Inr line \<Rightarrow>
                   (case parsePoint F line defaultTime precision of
                      Inl e \<Rightarrow>
                        if is_panic e then Inl e
                        else if pos1 + 1 \<ge> length (gb buf) then Inr (points, failed @ [(gb line, e)])
                        else parse_lines F buf defaultTime precision (pos1 + 1) points (failed @ [(gb line, e)])
                    | Inr pt \<Rightarrow>
                        if pos1 + 1 \<ge> length (gb buf) then Inr (points @ [pt], failed)
                        else parse_lines F buf defaultTime precision (pos1 + 1) (points @ [pt]) failed)))"
  by pat_completeness auto
termination
  by (relation "measure (\<lambda>(F, b, d, p, pos, ps, fs). length (gb b) - pos)") (auto dest: scanLine_progress)

declare parse_lines.simps [simp del]

definition ParsePointsWithPrecision :: "float_lib \<Rightarrow> gobytes \<Rightarrow> time \<Rightarrow> string \<Rightarrow> (point list \<times> (string \<times> pt_error) list) parsed" where
  "ParsePointsWithPrecision F buf defaultTime precision = parse_lines F buf defaultTime precision 0 [] []"

definition ParsePoints :: "float_lib \<Rightarrow> time \<Rightarrow> gobytes \<Rightarrow> (point list \<times> (string \<times> pt_error) list) parsed" where
  "ParsePoints F now buf = ParsePointsWithPrecision F buf now ''n''"

end
