(* ===== verification/Models_Text.thy ===== *)
theory Models_Text
  imports Models_Point
begin

text \<open>
  The scanners on text that was printed: how each of the loops of \<open>points.go\<close> runs over an escaped
  name, a number, a boolean or a quoted string, and what it makes of a key and of a list of fields.
\<close>

section \<open>Names\<close>

text \<open>Names without a backslash, a newline or a quote; their escaped form.\<close>

definition plain :: "string \<Rightarrow> bool" where
  "plain s \<longleftrightarrow> s \<noteq> [] \<and> bsl \<notin> set s \<and> newline \<notin> set s \<and> dquote \<notin> set s"

definition tagEsc :: "string \<Rightarrow> string" where
  "tagEsc s = esc1 {comma, space, equals} s"

lemma escapeTag_eq: "escapeTag s = tagEsc s"
  by (simp add: escapeTag_def escape_all_eq tagEscapeCodes_def tagEsc_def esc1_def)

lemma escapeMeasurement_eq: "escapeMeasurement s = esc1 {comma, space} s"
  by (simp add: escapeMeasurement_def escape_all_eq measurementEscapeCodes_def esc1_def)

lemma escape_String_eq: "escape_String s = esc1 {comma, dquote, space, equals} s"
  by (simp add: escape_String_def escape_all_eq escape_Codes_def esc1_def)

lemma escape_String_plain: "plain s \<Longrightarrow> escape_String s = tagEsc s"
  by (auto simp: escape_String_eq tagEsc_def esc1_def plain_def intro!: arg_cong [where f = concat])

lemma unescapeTag_tagEsc: "bsl \<notin> set s \<Longrightarrow> unescapeTag (tagEsc s) = s"
  using unescape_all_esc1 [of s "{comma, space, equals}" tagEscapeCodes]
  by (simp add: unescapeTag_def tagEsc_def tagEscapeCodes_def)

lemma MakeKey_plain: "plain name \<Longrightarrow> MakeKey name tags = esc1 {comma, space} name @ Tags_HashKey tags"
proof -
  assume "plain name"
  then have "unescapeMeasurement name = name"
    by (simp add: unescapeMeasurement_def unescape_all_def measurementEscapeCodes_def unescape_byte_plain plain_def)
  then show ?thesis by (simp add: MakeKey_def escapeMeasurement_eq)
qed

lemma esc1_hd:
  assumes "s \<noteq> []" and "bsl \<notin> set s"
  obtains c t where "esc1 C s = c # t" and "c \<notin> C - {bsl}" and "c = bsl \<or> c = hd s"
proof -
  from assms(1) obtain x r where s: "s = x # r" by (cases s) auto
  show thesis
  proof (cases "x \<in> C")
    case True
    with s show thesis by (intro that [of bsl "x # esc1 C r"]) simp_all
  next
    case False
    with s show thesis by (intro that [of x "esc1 C r"]) simp_all
  qed
qed

text \<open>The byte before a special last byte of an escaped name is the backslash.\<close>

lemma esc1_last:
  assumes "s \<noteq> []" and "last (esc1 C s) \<in> C"
  shows "\<exists>t. esc1 C s = t @ [bsl, last (esc1 C s)]"
proof -
  from assms(1) obtain r x where "s = r @ [x]" by (cases s rule: rev_cases) auto
  with assms(2) show ?thesis by (auto split: if_splits)
qed

lemma scanTo_loop_esc1:
  assumes "bsl \<notin> set s" and "stop \<in> C \<or> stop \<notin> set s"
  shows "scanTo_loop stop (pre @ esc1 C s @ rest) (length pre) =
    scanTo_loop stop (pre @ esc1 C s @ rest) (length pre + length (esc1 C s))"
  using assms
proof (induction s arbitrary: pre)
  case (Cons x s)
  show ?case
  proof (cases "x \<in> C")
    case True
    with Cons.IH [of "pre @ [bsl, x]"] Cons.prems show ?thesis by (subst scanTo_loop.simps) auto
  next
    case False
    with Cons.IH [of "pre @ [x]"] Cons.prems show ?thesis by (subst scanTo_loop.simps) auto
  qed
qed simp

lemma scanTagValue_loop_eq: "scanTagValue_loop s i = scanTo_loop comma s i"
proof (induction s i rule: scanTagValue_loop.induct)
  case (1 s i)
  then show ?case by (subst scanTagValue_loop.simps, subst scanTo_loop.simps) simp
qed

lemma scanTo_loop_stop: "scanTo_loop stop (pre @ stop # rest) (length pre) = length pre" if "stop \<noteq> bsl"
  using that by (subst scanTo_loop.simps) simp

lemma scanTo_loop_end: "length s \<le> i \<Longrightarrow> scanTo_loop stop s i = i"
  by (subst scanTo_loop.simps) simp

text \<open>A scan to a byte that the escaping covers finds the end of the escaped name.\<close>

lemma scanTo_esc1:
  assumes "gb b = pre @ esc1 C s @ stop # rest" and "bsl \<notin> set s" and "stop \<in> C" and "stop \<noteq> bsl"
  shows "scanTo b (length pre) stop = Inr (length pre + length (esc1 C s), \<lparr>gb = esc1 C s, gx = stop # rest @ gx b\<rparr>)"
proof -
  have "scanTo_loop stop (gb b) (length pre) = length pre + length (esc1 C s)"
    using scanTo_loop_esc1 [OF assms(2), of stop C pre "stop # rest"] scanTo_loop_stop [OF assms(4), of "pre @ esc1 C s" rest] assms(1,3)
    by simp
  then show ?thesis using assms(1) by (simp add: scanTo_def Let_def sl_def)
qed

lemma scanTagValue_esc1:
  assumes "gb b = pre @ esc1 C s @ rest" and "bsl \<notin> set s" and "comma \<in> C" and "rest = [] \<or> (\<exists>r. rest = comma # r)"
  shows "scanTagValue b (length pre) = Inr (length pre + length (esc1 C s), \<lparr>gb = esc1 C s, gx = rest @ gx b\<rparr>)"
proof -
  have "scanTo_loop comma (gb b) (length pre) = length pre + length (esc1 C s)"
    using scanTo_loop_esc1 [OF assms(2), of comma C pre rest] scanTo_loop_stop [of comma "pre @ esc1 C s"] assms(1,3,4)
      scanTo_loop_end [of "pre @ esc1 C s" "length pre + length (esc1 C s)" comma]
    by auto
  then show ?thesis using assms(1) by (simp add: scanTagValue_def scanTagValue_loop_eq Let_def sl_def)
qed

text \<open>Both scanners on the escaped names of tags.\<close>

lemma scanTo_tagEsc:
  assumes "gb b = pre @ tagEsc k @ equals # rest" and "plain k"
  shows "scanTo b (length pre) equals = Inr (length pre + length (tagEsc k), \<lparr>gb = tagEsc k, gx = equals # rest @ gx b\<rparr>)"
  using scanTo_esc1 [of b pre "{comma, space, equals}" k equals rest] assms by (simp add: tagEsc_def plain_def)

lemma scanTagValue_tagEsc:
  assumes "gb b = pre @ tagEsc v @ rest" and "plain v" and "rest = [] \<or> (\<exists>r. rest = comma # r)" and "i = length pre"
  shows "scanTagValue b i = Inr (i + length (tagEsc v), \<lparr>gb = tagEsc v, gx = rest @ gx b\<rparr>)"
  using scanTagValue_esc1 [of b pre "{comma, space, equals}" v rest] assms by (simp add: tagEsc_def plain_def)

section \<open>Keys\<close>

definition tag_text :: "string \<times> string \<Rightarrow> string" where
  "tag_text kv = tagEsc (fst kv) @ [equals] @ tagEsc (snd kv)"

definition tags_text :: "(string \<times> string) list \<Rightarrow> string" where
  "tags_text kvs = concat (map (\<lambda>kv. comma # tag_text kv) kvs)"

lemma tags_text_simps [simp]: "tags_text [] = []" "tags_text (kv # kvs) = comma # tag_text kv @ tags_text kvs"
  by (simp_all add: tags_text_def)

text \<open>The starts of the tags of a key text that begins at \<open>n\<close>.\<close>

fun tag_starts :: "nat \<Rightarrow> (string \<times> string) list \<Rightarrow> nat list" where
  "tag_starts n [] = []"
| "tag_starts n (kv # kvs) = (n + 1) # tag_starts (n + 1 + length (tag_text kv)) kvs"

lemma length_tag_starts [simp]: "length (tag_starts n kvs) = length kvs"
  by (induction kvs arbitrary: n) simp_all

text \<open>One step of the key scanner.\<close>

lemma scanKey_bsl:
  assumes "gb b = pre @ bsl # rest"
  shows "scanKey_loop b start (length pre) ix c e = scanKey_loop b start (length pre + 2) ix c e"
  by (subst scanKey_loop.simps) (simp add: assms)

lemma scanKey_other:
  assumes "gb b = pre @ x # rest" and "x \<noteq> bsl" and "x \<noteq> comma" and "x \<noteq> space" and "x \<noteq> equals \<or> c = 0"
  shows "scanKey_loop b start (length pre) ix c e = scanKey_loop b start (length pre + 1) ix c e"
  using assms(2-) by (subst scanKey_loop.simps) (auto simp: assms(1) Let_def)

lemma scanKey_loop_esc1:
  assumes "bsl \<notin> set s" and "{comma, space} \<subseteq> C" and "equals \<in> C \<or> c = 0" and "gb b = pre @ esc1 C s @ rest"
  shows "scanKey_loop b start (length pre) ix c e = scanKey_loop b start (length pre + length (esc1 C s)) ix c e"
  using assms
proof (induction s arbitrary: pre)
  case (Cons x s)
  show ?case
  proof (cases "x \<in> C")
    case True
    with Cons.prems(4) have g: "gb b = pre @ bsl # x # esc1 C s @ rest" by simp
    have "scanKey_loop b start (length (pre @ [bsl, x])) ix c e = scanKey_loop b start (length (pre @ [bsl, x]) + length (esc1 C s)) ix c e"
      using Cons.prems g by (intro Cons.IH) simp_all
    with scanKey_bsl [OF g, of start ix c e] True show ?thesis by simp
  next
    case False
    with Cons.prems(4) have g: "gb b = pre @ x # esc1 C s @ rest" by simp
    have "scanKey_loop b start (length (pre @ [x])) ix c e = scanKey_loop b start (length (pre @ [x]) + length (esc1 C s)) ix c e"
      using Cons.prems g by (intro Cons.IH) simp_all
    with scanKey_other [OF g, of c start ix e] False Cons.prems show ?thesis by auto
  qed
qed simp

lemma tagEsc_hd:
  assumes "plain s"
  obtains c t where "tagEsc s = c # t" and "c \<noteq> comma" and "c \<noteq> space" and "c \<noteq> equals"
proof -
  from assms obtain x r where s: "s = x # r" "x \<noteq> bsl" by (cases s) (auto simp: plain_def)
  show thesis
  proof (cases "x \<in> {comma, space, equals}")
    case True
    with s show thesis by (intro that [of bsl "x # tagEsc r"]) (simp_all add: tagEsc_def)
  next
    case False
    with s show thesis by (intro that [of x "tagEsc r"]) (simp_all add: tagEsc_def)
  qed
qed

text \<open>Before the equal sign of a printed tag or field stands no unescaped separator.\<close>

lemma before_equals:
  assumes "plain k" and "s = pre @ tagEsc k @ equals # rest" and "i = length pre + length (tagEsc k)"
  shows "0 < i" and "s ! i = equals" and "s ! (i - 1) \<in> {comma, space, equals} \<longrightarrow> 2 \<le> i \<and> s ! (i - 2) = bsl"
proof -
  from assms(1) obtain r x where k: "k = r @ [x]" by (cases k rule: rev_cases) (auto simp: plain_def)
  define q where "q = pre @ tagEsc r"
  have "0 < i \<and> s ! i = equals \<and> (s ! (i - 1) \<in> {comma, space, equals} \<longrightarrow> 2 \<le> i \<and> s ! (i - 2) = bsl)"
  proof (cases "x \<in> {comma, space, equals}")
    case True
    then have e: "tagEsc k = tagEsc r @ [bsl, x]" by (simp add: k tagEsc_def)
    then have "i = length q + 2" "s = q @ bsl # x # equals # rest" using assms(2,3) by (simp_all add: q_def)
    then show ?thesis by (simp add: nth_append)
  next
    case False
    then have e: "tagEsc k = tagEsc r @ [x]" by (simp add: k tagEsc_def)
    then have "i = length q + 1" "s = q @ x # equals # rest" using assms(2,3) by (simp_all add: q_def)
    with False show ?thesis by (simp add: nth_append)
  qed
  then show "0 < i" and "s ! i = equals" and "s ! (i - 1) \<in> {comma, space, equals} \<longrightarrow> 2 \<le> i \<and> s ! (i - 2) = bsl"
    by blast+
qed

lemma scanKey_equals:
  assumes "gb b = pre @ tagEsc k @ equals # y # rest" and "plain k" and "pre \<noteq> []" and "y \<noteq> space" and "y \<noteq> comma" and "0 < c"
  shows "scanKey_loop b start (length pre + length (tagEsc k)) ix c e = scanKey_loop b start (length pre + length (tagEsc k) + 1) ix c (e + 1)"
proof -
  define i where "i = length pre + length (tagEsc k)"
  have i: "0 < i" "gb b ! i = equals" "gb b ! (i - 1) \<in> {comma, space, equals} \<longrightarrow> 2 \<le> i \<and> gb b ! (i - 2) = bsl"
    using before_equals [OF assms(2), of "gb b" pre "y # rest" i] assms(1) by (simp_all add: i_def)
  have "tagEsc k \<noteq> []" using assms(2) by (simp add: tagEsc_def plain_def)
  then have two: "2 \<le> i" using assms(3) by (cases pre; cases "tagEsc k") (simp_all add: i_def)
  have split: "gb b = (pre @ tagEsc k) @ equals # y # rest" using assms(1) by simp
  have len: "i + 1 < length (gb b)" using split by (simp add: i_def)
  have y: "gb b ! (i + 1) = y" unfolding split i_def by (simp add: nth_append)
  have "scanKey_loop b start i ix c e = scanKey_loop b start (i + 1) ix c (e + 1)"
    using i two len y assms(4-) by (subst scanKey_loop.simps) (auto simp: Let_def)
  then show ?thesis by (simp add: i_def)
qed

lemma scanKey_comma:
  assumes "gb b = pre @ comma # y # rest" and "y \<noteq> space"
  shows "scanKey_loop b start (length pre) ix c c = scanKey_loop b start (length pre + 1) (ix @ [length pre + 1]) (c + 1) c"
  using assms(2) by (subst scanKey_loop.simps) (auto simp: assms(1) Let_def nth_append)

lemma scanKey_space:
  assumes "gb b = pre @ space # rest"
  shows "scanKey_loop b start (length pre) ix c c = Inr (length pre, ix @ [length pre + 1], c, c)"
  by (subst scanKey_loop.simps) (auto simp: assms)

definition plain_tags :: "(string \<times> string) list \<Rightarrow> bool" where
  "plain_tags kvs \<longleftrightarrow> (\<forall>(k, v)\<in>set kvs. plain k \<and> plain v)"

lemma plain_tags_simps [simp]: "plain_tags []" "plain_tags ((k, v) # kvs) \<longleftrightarrow> plain k \<and> plain v \<and> plain_tags kvs"
  by (auto simp: plain_tags_def)

lemma scanKey_tags:
  assumes "plain_tags kvs" and "gb b = pre @ tags_text kvs @ space # rest" and "pre \<noteq> []"
  shows "scanKey_loop b start (length pre) ix c c =
    Inr (length pre + length (tags_text kvs), ix @ tag_starts (length pre) kvs @ [length pre + length (tags_text kvs) + 1],
      c + length kvs, c + length kvs)"
  using assms
proof (induction kvs arbitrary: pre ix c)
  case Nil
  then show ?case using scanKey_space [of b pre rest start ix c] by simp
next
  case (Cons kv kvs)
  obtain k v where kv: "kv = (k, v)" by fastforce
  have p: "plain k" "plain v" "plain_tags kvs" using Cons.prems(1) by (simp_all add: kv)
  obtain x xs where x: "tagEsc k = x # xs" "x \<noteq> space" using tagEsc_hd [OF p(1)] by metis
  obtain y ys where y: "tagEsc v = y # ys" "y \<noteq> comma" "y \<noteq> space" using tagEsc_hd [OF p(2)] by metis
  let ?r = "tags_text kvs @ space # rest"
  let ?p1 = "pre @ [comma]" let ?p2 = "?p1 @ tagEsc k @ [equals]" let ?p3 = "?p2 @ tagEsc v"
  have g: "gb b = pre @ comma # tagEsc k @ equals # tagEsc v @ ?r" using Cons.prems(2) by (simp add: kv tag_text_def)
  have "scanKey_loop b start (length pre) ix c c = scanKey_loop b start (length ?p1) (ix @ [length pre + 1]) (c + 1) c"
    using scanKey_comma [of b pre x "xs @ equals # tagEsc v @ ?r" start ix c] g x by simp
  also have "\<dots> = scanKey_loop b start (length ?p1 + length (tagEsc k)) (ix @ [length pre + 1]) (c + 1) c"
    unfolding tagEsc_def using p(1) g
    by (intro scanKey_loop_esc1 [where rest = "equals # tagEsc v @ ?r"]) (simp_all add: plain_def tagEsc_def)
  also have "\<dots> = scanKey_loop b start (length ?p2) (ix @ [length pre + 1]) (c + 1) (c + 1)"
    using scanKey_equals [of b ?p1 k y "ys @ ?r" "c + 1" start "ix @ [length pre + 1]" c] g y p(1) by simp
  also have "\<dots> = scanKey_loop b start (length ?p2 + length (tagEsc v)) (ix @ [length pre + 1]) (c + 1) (c + 1)"
    unfolding tagEsc_def using p(2) g
    by (intro scanKey_loop_esc1 [where rest = ?r]) (simp_all add: plain_def tagEsc_def)
  also have "\<dots> = scanKey_loop b start (length ?p3) (ix @ [length pre + 1]) (c + 1) (c + 1)" by (simp add: add.assoc)
  also have "\<dots> = Inr (length ?p3 + length (tags_text kvs),
      (ix @ [length pre + 1]) @ tag_starts (length ?p3) kvs @ [length ?p3 + length (tags_text kvs) + 1], c + 1 + length kvs, c + 1 + length kvs)"
    using p(3) g by (intro Cons.IH) simp_all
  finally show ?case by (simp add: kv tag_text_def add.assoc)
qed

text \<open>The entries of the index of a key: where each tag lies in the text.\<close>

lemma tag_starts_split:
  assumes "s = pre @ tags_text kvs @ space # rest" and "j < length kvs" and "ix = tag_starts (length pre) kvs @ [length pre + length (tags_text kvs) + 1]"
  shows "\<exists>p q. s = p @ tag_text (kvs ! j) @ q \<and> ix ! j = length p \<and> ix ! (j + 1) = length p + length (tag_text (kvs ! j)) + 1"
  using assms
proof (induction kvs arbitrary: pre j ix)
  case (Cons kv kvs)
  let ?p = "pre @ comma # tag_text kv"
  let ?ix = "tag_starts (length ?p) kvs @ [length ?p + length (tags_text kvs) + 1]"
  have ix: "ix = (length pre + 1) # ?ix" using Cons.prems(3) by simp
  show ?case
  proof (cases j)
    case 0
    have "?ix ! 0 = length pre + 1 + length (tag_text kv) + 1"
      by (cases kvs) simp_all
    with 0 ix Cons.prems(1) show ?thesis
      by (intro exI [of _ "pre @ [comma]"] exI [of _ "tags_text kvs @ space # rest"]) simp
  next
    case (Suc i)
    have "\<exists>p q. s = p @ tag_text (kvs ! i) @ q \<and> ?ix ! i = length p \<and> ?ix ! (i + 1) = length p + length (tag_text (kvs ! i)) + 1"
      using Cons.prems Suc by (intro Cons.IH [of ?p]) simp_all
    then show ?thesis by (simp add: ix Suc)
  qed
qed simp

lemma sl_middle: "gb b = p @ t @ q \<Longrightarrow> sl b (length p) (length p + length t) = Inr \<lparr>gb = t, gx = q @ gx b\<rparr>"
  by (simp add: sl_def)

lemma scanTo_tag:
  assumes "plain k"
  shows "scanTo \<lparr>gb = tag_text (k, v), gx = x\<rparr> 0 equals = Inr (length (tagEsc k), \<lparr>gb = tagEsc k, gx = equals # tagEsc v @ x\<rparr>)"
  using scanTo_tagEsc [of "\<lparr>gb = tag_text (k, v), gx = x\<rparr>" "[]" k "tagEsc v"] assms by (simp add: tag_text_def)

lemma check_tags_sorted:
  assumes "gb b = pre @ tags_text kvs @ space # rest" and "plain_tags kvs" and "sorted_wrt (<) (map (tagEsc \<circ> fst) kvs)"
    and "ix = tag_starts (length pre) kvs @ [length pre + length (tags_text kvs) + 1]" and "\<forall>j\<in>set js. j < length kvs div 2"
  shows "check_tags b start i ix (length kvs) js True = Inr True"
  using assms(5)
proof (induction js)
  case (Cons j js)
  let ?n = "length kvs" let ?j = "?n - j - 1"
  have j: "j < ?n" "?j < ?n" "j < ?j" "?n - j = ?j + 1" using Cons.prems by auto
  obtain k v where kv: "kvs ! j = (k, v)" by fastforce
  obtain k' v' where kv': "kvs ! ?j = (k', v')" by fastforce
  have pl: "plain k" "plain k'" using assms(2) kv kv' nth_mem [OF j(1)] nth_mem [OF j(2)] by (auto simp: plain_tags_def)
  have lt: "tagEsc k < tagEsc k'" using sorted_wrt_nth_less [OF assms(3), of j ?j] j kv kv' by simp
  from tag_starts_split [OF assms(1) j(1) assms(4)] kv obtain p q where
    p: "gb b = p @ tag_text (k, v) @ q" "ix ! j = length p" "ix ! (j + 1) - 1 = length p + length (tag_text (k, v))" by auto
  from tag_starts_split [OF assms(1) j(2) assms(4)] kv' obtain p' q' where
    p': "gb b = p' @ tag_text (k', v') @ q'" "ix ! ?j = length p'" "ix ! (?j + 1) - 1 = length p' + length (tag_text (k', v'))" by auto
  have "sl b (ix ! j) (ix ! (j + 1) - 1) = Inr \<lparr>gb = tag_text (k, v), gx = q @ gx b\<rparr>"
    using sl_middle [OF p(1)] p(2,3) by simp
  moreover have "sl b (ix ! ?j) (ix ! (?n - j) - 1) = Inr \<lparr>gb = tag_text (k', v'), gx = q' @ gx b\<rparr>"
    using sl_middle [OF p'(1)] p'(2,3) j(4) by simp
  moreover have "tagEsc k \<noteq> tagEsc k'" using lt by auto
  ultimately show ?case using Cons lt scanTo_tag [OF pl(1)] scanTo_tag [OF pl(2)] by (simp add: order_less_not_sym)
qed simp

text \<open>The key of a printed point is scanned as it stands.\<close>

definition key_text :: "string \<Rightarrow> (string \<times> string) list \<Rightarrow> string" where
  "key_text name kvs = esc1 {comma, space} name @ tags_text kvs"

definition first_ok :: "string \<Rightarrow> bool" where
  "first_ok s \<longleftrightarrow> hd s \<noteq> CHR 0x09 \<and> hd s \<noteq> CHR 0x00"

lemma skipWhitespace_stop:
  assumes "i < length s" and "s ! i \<noteq> space" and "s ! i \<noteq> CHR 0x09" and "s ! i \<noteq> CHR 0x00"
  shows "skipWhitespace s i = i"
  using assms by (subst skipWhitespace.simps) simp

lemma esc1_first:
  assumes "plain s" and "first_ok s" and "space \<in> C"
  obtains c t where "esc1 C s = c # t" and "c \<noteq> space" and "c \<noteq> CHR 0x09" and "c \<noteq> CHR 0x00" and "c = bsl \<or> c = hd s"
proof -
  from assms(1) obtain x r where s: "s = x # r" "x \<noteq> bsl" by (cases s) (auto simp: plain_def)
  show thesis
  proof (cases "x \<in> C")
    case True
    with s show thesis by (intro that [of bsl "x # esc1 C r"]) simp_all
  next
    case False
    with s assms show thesis by (intro that [of x "esc1 C r"]) (auto simp: first_ok_def)
  qed
qed

lemma scanKey_printed:
  assumes "plain name" and "first_ok name" and "plain_tags kvs" and "sorted_wrt (<) (map (tagEsc \<circ> fst) kvs)"
    and g: "gb b = key_text name kvs @ space # rest"
  shows "scanKey b 0 = Inr (length (key_text name kvs), \<lparr>gb = key_text name kvs, gx = space # rest @ gx b\<rparr>)"
proof -
  let ?N = "esc1 {comma, space} name" let ?key = "key_text name kvs"
  let ?ix = "tag_starts (length ?N) kvs @ [length ?N + length (tags_text kvs) + 1]"
  have sp: "space \<in> {comma, space}" by simp
  obtain c t where c: "?N = c # t" "c \<noteq> space" "c \<noteq> CHR 0x09" "c \<noteq> CHR 0x00" and "c = bsl \<or> c = hd name"
    using esc1_first [OF assms(1,2) sp] .
  then have start: "skipWhitespace (gb b) 0 = 0" using g by (intro skipWhitespace_stop) (simp_all add: key_text_def)
  have "scanKey_loop b 0 0 [] 0 0 = scanKey_loop b 0 (length ?N) [] 0 0"
    using scanKey_loop_esc1 [of name "{comma, space}" 0 b "[]" "tags_text kvs @ space # rest" 0 "[]" 0] assms(1) g
    by (simp add: plain_def key_text_def)
  also have "\<dots> = Inr (length ?key, ?ix, length kvs, length kvs)"
    using scanKey_tags [OF assms(3), of b ?N rest 0 "[]" 0] g c(1) by (simp add: key_text_def)
  finally have loop: "scanKey_loop b 0 0 [] 0 0 = Inr (length ?key, ?ix, length kvs, length kvs)" .
  have check: "check_tags b 0 (length ?key) ?ix (length kvs) [0..<length kvs div 2] True = Inr True"
    using g assms(3,4) by (intro check_tags_sorted) (simp_all add: key_text_def)
  have "sl b 0 (length ?key) = Inr \<lparr>gb = ?key, gx = space # rest @ gx b\<rparr>"
    using sl_middle [of b "[]" ?key "space # rest"] g by simp
  then show ?thesis unfolding scanKey_def start Let_def using loop check g by (simp add: scanKey_finish_def)
qed

section \<open>Reading name and tags back\<close>

lemma Tags_loop_end: "length (gb b) \<le> i \<Longrightarrow> Tags_loop b i m = Inr m"
  by (subst Tags_loop.simps) simp

lemma Tags_loop_printed:
  assumes "plain_tags (kv # kvs)" and "gb b = pre @ tag_text kv @ tags_text kvs"
  shows "Tags_loop b (length pre) m = Inr (fold (\<lambda>(k, v). AList.update k v) (kv # kvs) m)"
  using assms
proof (induction kvs arbitrary: kv pre m)
  case Nil
  obtain k v where kv: "kv = (k, v)" by fastforce
  have p: "plain k" "plain v" using Nil.prems(1) by (simp_all add: kv)
  have g: "gb b = pre @ tagEsc k @ equals # tagEsc v" using Nil.prems(2) by (simp add: kv tag_text_def)
  have "scanTagValue b (length pre + length (tagEsc k) + 1) = Inr (length (gb b), \<lparr>gb = tagEsc v, gx = gx b\<rparr>)"
    using scanTagValue_tagEsc [of b "pre @ tagEsc k @ [equals]" v "[]"] p(2) g by simp
  moreover have "tagEsc v \<noteq> []" using p(2) by (simp add: plain_def tagEsc_def)
  ultimately show ?case
    using scanTo_tagEsc [OF g p(1)] p g
    by (subst Tags_loop.simps) (simp add: kv unescapeTag_tagEsc plain_def Tags_loop_end)
next
  case (Cons kv' kvs)
  obtain k v where kv: "kv = (k, v)" by fastforce
  have p: "plain k" "plain v" using Cons.prems(1) by (simp_all add: kv)
  let ?r = "tag_text kv' @ tags_text kvs" let ?p = "pre @ tagEsc k @ equals # tagEsc v @ [comma]"
  have g: "gb b = pre @ tagEsc k @ equals # tagEsc v @ comma # ?r" using Cons.prems(2) by (simp add: kv tag_text_def)
  have "scanTagValue b (length pre + length (tagEsc k) + 1) = Inr (length ?p - 1, \<lparr>gb = tagEsc v, gx = comma # ?r @ gx b\<rparr>)"
    using scanTagValue_tagEsc [of b "pre @ tagEsc k @ [equals]" v "comma # ?r"] p(2) g by simp
  moreover have "Tags_loop b (length ?p) (AList.update k v m) = Inr (fold (\<lambda>(k, v). AList.update k v) (kv' # kvs) (AList.update k v m))"
    using Cons.prems(1) g by (intro Cons.IH) (simp_all add: kv)
  moreover have "tagEsc v \<noteq> []" using p(2) by (simp add: plain_def tagEsc_def)
  ultimately show ?case
    using scanTo_tagEsc [OF g p(1)] p g by (subst Tags_loop.simps) (simp add: kv unescapeTag_tagEsc plain_def)
qed

lemma scanTo_name:
  assumes "plain name" and "k = key_text name kvs"
  shows "scanTo \<lparr>gb = k, gx = x\<rparr> 0 comma =
    Inr (length (esc1 {comma, space} name), \<lparr>gb = esc1 {comma, space} name, gx = tags_text kvs @ x\<rparr>)"
proof (cases kvs)
  case Nil
  then have "scanTo_loop comma k 0 = length (esc1 {comma, space} name)"
    using scanTo_loop_esc1 [of name comma "{comma, space}" "[]" "[]"] scanTo_loop_end [of k "length k" comma] assms
    by (simp add: key_text_def plain_def)
  with Nil assms(2) show ?thesis by (simp add: scanTo_def sl_def key_text_def)
next
  case (Cons kv kvs')
  then show ?thesis
    using scanTo_esc1 [of "\<lparr>gb = k, gx = x\<rparr>" "[]" "{comma, space}" name comma "tag_text kv @ tags_text kvs'"] assms by (simp add: key_text_def plain_def)
qed

lemma point_Tags_printed:
  assumes "plain name" and "plain_tags kvs" and "distinct (map fst kvs)" and "gb (pt_key p) = key_text name kvs"
  shows "point_Tags p = Inr kvs"
proof -
  let ?N = "esc1 {comma, space} name"
  have k: "pt_key p = \<lparr>gb = key_text name kvs, gx = gx (pt_key p)\<rparr>" using assms(4) by simp
  have ne: "?N \<noteq> []" using assms(1) by (simp add: plain_def)
  have name: "scanTo (pt_key p) 0 comma = Inr (length ?N, \<lparr>gb = ?N, gx = tags_text kvs @ gx (pt_key p)\<rparr>)"
    using scanTo_name [OF assms(1) refl, of kvs "gx (pt_key p)"] k by simp
  have "Tags_loop (pt_key p) (Suc (length ?N)) [] = Inr kvs"
  proof (cases kvs)
    case Nil
    then show ?thesis using assms(4) by (subst Tags_loop.simps) (simp add: key_text_def)
  next
    case (Cons kv kvs')
    have "Tags_loop (pt_key p) (length (?N @ [comma])) [] = Inr (fold (\<lambda>(k, v). AList.update k v) (kv # kvs') [])"
      using assms(2,4) Cons by (intro Tags_loop_printed) (simp_all add: key_text_def)
    then show ?thesis using fold_update_fresh [of "[]" kvs] assms(3) Cons by simp
  qed
  with name ne assms(4) show ?thesis by (simp add: point_Tags_def key_text_def)
qed

lemma point_Name_printed:
  assumes "plain name" and "gb (pt_key p) = key_text name kvs" and "pt_cachedName p = []"
  shows "point_Name p = Inr (p\<lparr>pt_cachedName := name\<rparr>, name)"
proof -
  have k: "pt_key p = \<lparr>gb = key_text name kvs, gx = gx (pt_key p)\<rparr>" using assms(2) by simp
  have "escape_Unescape (esc1 {comma, space} name) = name" using assms(1) by (intro Unescape_esc1) (auto simp: plain_def)
  with scanTo_name [OF assms(1) refl, of kvs "gx (pt_key p)"] k assms(3) show ?thesis
    by (simp add: point_Name_def point_name_def)
qed

end
