(* ===== verification/Models_Fields.thy ===== *)
theory Models_Fields
  imports Models_Text
begin

text \<open>
  The scanners on printed field values: numbers, booleans and quoted strings, and on the list of the fields
  of a point.
\<close>

section \<open>Numbers\<close>

text \<open>What ends a value: a comma, a space, or the end of the text.\<close>

definition value_end :: "string \<Rightarrow> bool" where
  "value_end r \<longleftrightarrow> r = [] \<or> hd r = comma \<or> hd r = space"

lemma digit_chars:
  assumes "is_digit c"
  shows "c \<noteq> comma" "c \<noteq> space" "c \<noteq> CHR ''i''" "c \<noteq> CHR ''.''" "c \<noteq> CHR ''e''" "c \<noteq> CHR ''E''" "c \<noteq> CHR ''+''" "c \<noteq> CHR ''-''"
    "c \<noteq> CHR ''N''" "c \<noteq> CHR ''n''" "c \<noteq> dquote" "c \<noteq> bsl" "c \<noteq> equals" "c \<noteq> newline" "c \<noteq> CHR ''I''" "isNumeric c"
  using assms by (auto simp: is_digit_iff isNumeric_def less_eq_char_def)

lemma scanNumber_digits:
  assumes "list_all is_digit ds" and "d \<le> 1" and "s = pre @ ds @ rest"
  shows "scanNumber_loop s start (length pre) a d e = scanNumber_loop s start (length pre + length ds) a d e"
  using assms
proof (induction ds arbitrary: pre)
  case (Cons c ds)
  have c: "is_digit c" using Cons.prems by simp
  have "scanNumber_loop s start (length pre) a d e = scanNumber_loop s start (length (pre @ [c])) a d e"
    using Cons.prems(2) digit_chars [OF c] by (subst scanNumber_loop.simps) (simp add: Cons.prems(3) Let_def)
  also have "\<dots> = scanNumber_loop s start (length (pre @ [c]) + length ds) a d e"
    using Cons.prems by (intro Cons.IH) simp_all
  finally show ?case by simp
qed simp

lemma scanNumber_end:
  assumes "value_end rest" and "s = pre @ rest"
  shows "scanNumber_loop s start (length pre) a d e = Inr (length pre, a, d, e)"
  using assms by (cases rest; subst scanNumber_loop.simps) (auto simp: value_end_def Let_def)

lemma scanNumber_i:
  assumes "s = pre @ CHR ''i'' # rest" and "start < length pre"
  shows "scanNumber_loop s start (length pre) False d e = scanNumber_loop s start (length pre + 1) True d e"
  using assms by (subst scanNumber_loop.simps) (simp add: Let_def)

lemma scanNumber_dot:
  assumes "s = pre @ CHR ''.'' # rest"
  shows "scanNumber_loop s start (length pre) a 0 e = scanNumber_loop s start (length pre + 1) a 1 e"
  using assms by (subst scanNumber_loop.simps) (simp add: Let_def isNumeric_def)

text \<open>A decimal number: an optional sign, digits, and an optional fraction.\<close>

definition sign_text :: "bool \<Rightarrow> string" where
  "sign_text neg = (if neg then [CHR ''-''] else [])"

definition number_text :: "bool \<Rightarrow> string \<Rightarrow> string" where
  "number_text neg ds = sign_text neg @ ds"

lemma scanNumber_sign:
  assumes "s = pre @ number_text neg ds @ rest" and "ds \<noteq> []" and "hd ds \<noteq> CHR ''-''"
  shows "scanNumber F s (length pre) =
    pbind (scanNumber_loop s (length pre) (length pre + length (sign_text neg)) False 0 False) (scanNumber_check F s (length pre))"
proof -
  obtain c cs where "ds = c # cs" using assms(2) by (cases ds) auto
  with assms show ?thesis by (auto simp: scanNumber_def Let_def number_text_def sign_text_def nth_append)
qed

lemma FormatInt_number: "\<exists>neg ds. strconv_FormatInt i = number_text neg ds \<and> ds \<noteq> [] \<and> list_all is_digit ds"
proof (cases "i < 0")
  case True
  then show ?thesis using dec_digits [of "nat (- i)"]
    by (intro exI [of _ True] exI [of _ "dec (nat (- i))"]) (simp add: number_text_def sign_text_def strconv_FormatInt_def)
next
  case False
  then show ?thesis using dec_digits [of "nat i"]
    by (intro exI [of _ False] exI [of _ "dec (nat i)"]) (simp add: number_text_def sign_text_def strconv_FormatInt_def)
qed

lemma hd_digits: "ds \<noteq> [] \<Longrightarrow> list_all is_digit ds \<Longrightarrow> is_digit (hd ds)"
  by (cases ds) simp_all

lemma scanNumber_int:
  assumes "is_int64 i" and "s = pre @ strconv_FormatInt i @ ''i'' @ rest" and "value_end rest"
  shows "scanNumber F s (length pre) = Inr (length pre + length (strconv_FormatInt i) + 1)"
proof -
  obtain neg ds where n: "strconv_FormatInt i = number_text neg ds" "ds \<noteq> []" "list_all is_digit ds"
    using FormatInt_number by blast
  let ?p = "pre @ sign_text neg"
  have s: "s = ?p @ ds @ CHR ''i'' # rest" using assms(2) by (simp add: n(1) number_text_def)
  have hd: "hd ds \<noteq> CHR ''-''" using digit_chars(8) [OF hd_digits [OF n(2,3)]] .
  let ?e = "length pre + length (strconv_FormatInt i) + 1"
  have "scanNumber_loop s (length pre) (length ?p) False 0 False = scanNumber_loop s (length pre) (length ?p + length ds) False 0 False"
    using n(3) s by (intro scanNumber_digits) simp_all
  also have "\<dots> = scanNumber_loop s (length pre) (length (?p @ ds) + 1) True 0 False"
    using scanNumber_i [of s "?p @ ds" rest "length pre" 0 False] s n(2) by (cases ds) (simp_all add: add.assoc)
  also have "\<dots> = Inr (?e, True, 0, False)"
    using scanNumber_end [OF assms(3), of s "?p @ ds @ ''i''" "length pre" True 0 False] s by (simp add: n(1) number_text_def)
  finally have "scanNumber_loop s (length pre) (length pre + length (sign_text neg)) False 0 False = Inr (?e, True, 0, False)" by simp
  moreover have "scanNumber_check F s (length pre) (?e, True, 0, False) = Inr ?e"
    using ParseInt_FormatInt [OF assms(1)] by (simp add: scanNumber_check_def assms(2) nth_append Let_def)
  ultimately show ?thesis
    using scanNumber_sign [of s pre neg ds "CHR ''i'' # rest" F] assms(2) n hd by simp
qed

text \<open>The shape of \<open>strconv.FormatFloat(v, 'f', -1, 64)\<close> for a finite number.\<close>

definition frac_text :: "string \<Rightarrow> string" where
  "frac_text fs = (if fs = [] then [] else CHR ''.'' # fs)"

lemma frac_text_Nil [simp]: "frac_text [] = []"
  by (simp add: frac_text_def)

definition decimal :: "string \<Rightarrow> bool" where
  "decimal t = (let u = (if t \<noteq> [] \<and> hd t = CHR ''-'' then tl t else t);
       ds = takeWhile is_digit u; r = dropWhile is_digit u
     in ds \<noteq> [] \<and> (r = [] \<or> hd r = CHR ''.'' \<and> tl r \<noteq> [] \<and> list_all is_digit (tl r)))"

lemma decimalE:
  assumes "decimal t"
  obtains neg ds fs where "t = number_text neg (ds @ frac_text fs)" and "ds \<noteq> []" and "list_all is_digit ds" and "list_all is_digit fs"
proof -
  define neg where "neg \<longleftrightarrow> t \<noteq> [] \<and> hd t = CHR ''-''"
  define u where "u = (if neg then tl t else t)"
  define ds where "ds = takeWhile is_digit u"
  define r where "r = dropWhile is_digit u"
  have d: "ds \<noteq> []" "r = [] \<or> hd r = CHR ''.'' \<and> tl r \<noteq> [] \<and> list_all is_digit (tl r)"
    using assms by (simp_all add: decimal_def Let_def neg_def u_def ds_def r_def)
  have t: "t = number_text neg (ds @ r)" by (cases t) (auto simp: number_text_def sign_text_def ds_def r_def u_def neg_def)
  have "list_all is_digit ds" unfolding ds_def list_all_iff using set_takeWhileD by metis
  moreover have "r = frac_text (if r = [] then [] else tl r)" using d(2) by (cases r) (auto simp: frac_text_def)
  moreover have "list_all is_digit (if r = [] then [] else tl r)" using d(2) by auto
  ultimately show thesis using that [of neg ds "if r = [] then [] else tl r"] t d(1) by simp
qed

lemma scanNumber_float:
  assumes "decimal t" and "fl_Parse F t = Some x" and "s = pre @ t @ rest" and "value_end rest"
  shows "scanNumber F s (length pre) = Inr (length pre + length t)"
proof -
  obtain neg ds fs where t: "t = number_text neg (ds @ frac_text fs)" "ds \<noteq> []" "list_all is_digit ds" "list_all is_digit fs"
    using decimalE [OF assms(1)] .
  let ?p = "pre @ sign_text neg" let ?f = "frac_text fs"
  have s: "s = ?p @ ds @ ?f @ rest" using assms(3) by (simp add: t(1) number_text_def)
  have hd: "hd (ds @ ?f) \<noteq> CHR ''-''" using digit_chars(8) [OF hd_digits [OF t(2,3)]] t(2) by simp
  have "scanNumber_loop s (length pre) (length ?p) False 0 False = scanNumber_loop s (length pre) (length (?p @ ds)) False 0 False"
    using scanNumber_digits [OF t(3), of 0 s ?p "?f @ rest" "length pre" False False] s by (simp add: add.assoc)
  also have "\<dots> = Inr (length pre + length t, False, if fs = [] then 0 else 1, False)"
  proof (cases "fs = []")
    case True
    then show ?thesis using scanNumber_end [OF assms(4), of s "?p @ ds" "length pre" False 0 False] s by (simp add: t(1) number_text_def add.assoc)
  next
    case False
    have "scanNumber_loop s (length pre) (length (?p @ ds)) False 0 False = scanNumber_loop s (length pre) (length (?p @ ds @ ''.'')) False 1 False"
      using scanNumber_dot [of s "?p @ ds" "fs @ rest" "length pre" False False] s False by (simp add: frac_text_def add.assoc)
    also have "\<dots> = scanNumber_loop s (length pre) (length (?p @ ds @ ''.'') + length fs) False 1 False"
      using s False t(4) by (intro scanNumber_digits) (simp_all add: frac_text_def)
    also have "\<dots> = Inr (length pre + length t, False, 1, False)"
      using scanNumber_end [OF assms(4), of s "?p @ ds @ ''.'' @ fs" "length pre" False 1 False] s False by (simp add: t(1) number_text_def frac_text_def add.assoc)
    finally show ?thesis using False by simp
  qed
  finally have "scanNumber_loop s (length pre) (length pre + length (sign_text neg)) False 0 False =
      Inr (length pre + length t, False, if fs = [] then 0 else 1, False)" by simp
  moreover have "scanNumber_check F s (length pre) (length pre + length t, False, if fs = [] then 0 else 1, False) = Inr (length pre + length t)"
    using assms(2) by (simp add: scanNumber_check_def assms(3) Let_def)
  ultimately show ?thesis
    using scanNumber_sign [of s pre neg "ds @ ?f" rest F] assms(3) t hd by simp
qed

lemma scanBoolean_word:
  assumes "s = pre @ strconv_FormatBool x @ rest" and "value_end rest"
  shows "scanBoolean s (length pre) = Inr (length pre + length (strconv_FormatBool x))"
proof -
  have stop: "scanBoolean_loop s (length p) = length p" if "s = p @ rest" for p
    using assms(2) that by (cases rest; subst scanBoolean_loop.simps) (auto simp: value_end_def)
  have step: "scanBoolean_loop s (length p) = scanBoolean_loop s (length p + 1)" if "s = p @ c # q" "c \<noteq> comma" "c \<noteq> space" for p c q
    using that by (subst scanBoolean_loop.simps) simp
  show ?thesis
  proof (cases x)
    case True
    then have s: "s = pre @ ''true'' @ rest" using assms(1) by (simp add: strconv_FormatBool_def)
    have "scanBoolean_loop s (length (pre @ ''t'')) = length (pre @ ''true'')"
      using step [of "pre @ ''t''" "CHR ''r''" "''ue'' @ rest"] step [of "pre @ ''tr''" "CHR ''u''" "''e'' @ rest"]
        step [of "pre @ ''tru''" "CHR ''e''" rest] stop [of "pre @ ''true''"] s by simp
    then show ?thesis using s True by (simp add: scanBoolean_def Let_def strconv_FormatBool_def)
  next
    case False
    then have s: "s = pre @ ''false'' @ rest" using assms(1) by (simp add: strconv_FormatBool_def)
    have "scanBoolean_loop s (length (pre @ ''f'')) = length (pre @ ''false'')"
      using step [of "pre @ ''f''" "CHR ''a''" "''lse'' @ rest"] step [of "pre @ ''fa''" "CHR ''l''" "''se'' @ rest"]
        step [of "pre @ ''fal''" "CHR ''s''" "''e'' @ rest"] step [of "pre @ ''fals''" "CHR ''e''" rest] stop [of "pre @ ''false''"] s by simp
    then show ?thesis using s False by (simp add: scanBoolean_def Let_def strconv_FormatBool_def)
  qed
qed

section \<open>Fields\<close>

text \<open>
  The values that survive printing: integers of 64 bits, floats that the number formatter writes as
  decimals and reads back, booleans, and strings that do not end in a backslash.
\<close>

fun value_ok :: "float_lib \<Rightarrow> field_value \<Rightarrow> bool" where
  "value_ok F (FInt i) \<longleftrightarrow> is_int64 i"
| "value_ok F (FFloat x) \<longleftrightarrow> \<not> math_IsNaN x \<and> decimal (fl_Format F x) \<and> fl_Parse F (fl_Format F x) = Some x"
| "value_ok F (FBool b) \<longleftrightarrow> True"
| "value_ok F (FString s) \<longleftrightarrow> s = [] \<or> last s \<noteq> bsl"
| "value_ok F _ \<longleftrightarrow> False"

definition field_item :: "float_lib \<Rightarrow> string \<times> field_value \<Rightarrow> string" where
  "field_item F kv = tagEsc (fst kv) @ equals # field_text F (snd kv)"

definition more_items :: "float_lib \<Rightarrow> Fields \<Rightarrow> string" where
  "more_items F kvs = concat (map (\<lambda>kv. comma # field_item F kv) kvs)"

lemma more_items_simps [simp]: "more_items F [] = []" "more_items F (kv # kvs) = comma # field_item F kv @ more_items F kvs"
  by (simp_all add: more_items_def)

definition fields_ok :: "float_lib \<Rightarrow> Fields \<Rightarrow> bool" where
  "fields_ok F kvs \<longleftrightarrow> (\<forall>(k, v)\<in>set kvs. plain k \<and> first_ok k \<and> value_ok F v)"

lemma fields_ok_simps [simp]:
  "fields_ok F []" "fields_ok F ((k, v) # kvs) \<longleftrightarrow> plain k \<and> first_ok k \<and> value_ok F v \<and> fields_ok F kvs"
  by (auto simp: fields_ok_def)

text \<open>The field scanner over a name.\<close>

lemma scanFields_esc:
  assumes "gb b = pre @ bsl # c # rest" and "c \<in> {comma, space, equals}"
  shows "scanFields_loop F b start (length pre) False e n = scanFields_loop F b start (length pre + 2) False e n"
  using assms(2) by (subst scanFields_loop.simps) (auto simp: assms(1) nth_append isFieldEscapeChar_def escape_Codes_def)

lemma scanFields_other:
  assumes "gb b = pre @ c # rest" and "c \<notin> {bsl, dquote, comma, space, equals}"
  shows "scanFields_loop F b start (length pre) False e n = scanFields_loop F b start (length pre + 1) False e n"
  using assms(2) by (subst scanFields_loop.simps) (auto simp: assms(1) Let_def)

lemma scanFields_name:
  assumes "bsl \<notin> set k" and "dquote \<notin> set k" and "gb b = pre @ tagEsc k @ rest"
  shows "scanFields_loop F b start (length pre) False e n = scanFields_loop F b start (length pre + length (tagEsc k)) False e n"
  using assms
proof (induction k arbitrary: pre)
  case (Cons c k)
  show ?case
  proof (cases "c \<in> {comma, space, equals}")
    case True
    then have t: "tagEsc (c # k) = [bsl, c] @ tagEsc k" by (simp add: tagEsc_def)
    have "scanFields_loop F b start (length (pre @ [bsl, c])) False e n = scanFields_loop F b start (length (pre @ [bsl, c]) + length (tagEsc k)) False e n"
      using Cons.prems t by (intro Cons.IH) simp_all
    with scanFields_esc [OF _ True, of b pre "tagEsc k @ rest" F start e n] Cons.prems(3) show ?thesis by (simp add: t)
  next
    case False
    then have t: "tagEsc (c # k) = [c] @ tagEsc k" by (simp add: tagEsc_def)
    have "scanFields_loop F b start (length (pre @ [c])) False e n = scanFields_loop F b start (length (pre @ [c]) + length (tagEsc k)) False e n"
      using Cons.prems t by (intro Cons.IH) simp_all
    with scanFields_other [of b pre c "tagEsc k @ rest" F start e n] Cons.prems False show ?thesis by (auto simp: t)
  qed
qed (simp add: tagEsc_def)

text \<open>The field scanner inside a quoted string.\<close>

lemma scanFields_quote:
  assumes "gb b = pre @ dquote # rest"
  shows "scanFields_loop F b start (length pre) q e n = scanFields_loop F b start (length pre + 1) (\<not> q) e n"
  by (subst scanFields_loop.simps) (simp add: assms)

lemma scanFields_quoted_esc:
  assumes "gb b = pre @ bsl # c # rest" and "c = bsl \<or> c = dquote"
  shows "scanFields_loop F b start (length pre) True e n = scanFields_loop F b start (length pre + 2) True e n"
  using assms(2) by (subst scanFields_loop.simps) (auto simp: assms(1) nth_append)

lemma scanFields_quoted_other:
  assumes "gb b = pre @ c # rest" and "c \<noteq> bsl" and "c \<noteq> dquote"
  shows "scanFields_loop F b start (length pre) True e n = scanFields_loop F b start (length pre + 1) True e n"
  using assms(2,3) by (subst scanFields_loop.simps) (simp add: assms(1))

lemma scanFields_string:
  assumes "gb b = pre @ escapeStringField t @ rest"
  shows "scanFields_loop F b start (length pre) True e n = scanFields_loop F b start (length pre + length (escapeStringField t)) True e n"
  using assms
proof (induction t arbitrary: pre)
  case (Cons c t)
  show ?case
  proof (cases "c = bsl \<or> c = dquote")
    case True
    then have t: "escapeStringField (c # t) = [bsl, c] @ escapeStringField t" by auto
    have "scanFields_loop F b start (length (pre @ [bsl, c])) True e n = scanFields_loop F b start (length (pre @ [bsl, c]) + length (escapeStringField t)) True e n"
      using Cons.prems t by (intro Cons.IH) (simp del: escapeStringField.simps)
    with scanFields_quoted_esc [OF _ True, of b pre "escapeStringField t @ rest" F start e n] Cons.prems show ?thesis by (simp add: t del: escapeStringField.simps)
  next
    case False
    then have t: "escapeStringField (c # t) = [c] @ escapeStringField t" by auto
    have "scanFields_loop F b start (length (pre @ [c])) True e n = scanFields_loop F b start (length (pre @ [c]) + length (escapeStringField t)) True e n"
      using Cons.prems t by (intro Cons.IH) (simp del: escapeStringField.simps)
    with scanFields_quoted_other [of b pre c "escapeStringField t @ rest" F start e n] Cons.prems False show ?thesis by (simp add: t del: escapeStringField.simps)
  qed
qed simp

text \<open>The equal sign and the value behind it.\<close>

lemma number_text_hd:
  assumes "ds \<noteq> []" and "is_digit (hd ds)"
  obtains c cs where "number_text neg ds = c # cs" and "isNumeric c \<or> c = CHR ''-''"
    and "is_digit c \<or> c = CHR ''-''"
proof -
  obtain d ds' where ds: "ds = d # ds'" using assms(1) by (cases ds) auto
  show thesis
  proof (cases neg)
    case True
    then show thesis by (intro that [of "CHR ''-''" ds]) (simp_all add: number_text_def sign_text_def)
  next
    case False
    with ds assms(2) show thesis by (intro that [of d ds']) (simp_all add: number_text_def sign_text_def digit_chars)
  qed
qed

lemma field_text_int_hd:
  obtains c cs where "field_text F (FInt i) = c # cs" and "isNumeric c \<or> c = CHR ''-''" and "is_digit c \<or> c = CHR ''-''"
proof -
  obtain neg ds where n: "strconv_FormatInt i = number_text neg ds" "ds \<noteq> []" "list_all is_digit ds"
    using FormatInt_number by blast
  obtain c cs where c: "number_text neg ds = c # cs" "isNumeric c \<or> c = CHR ''-''" "is_digit c \<or> c = CHR ''-''"
    using number_text_hd [OF n(2) hd_digits [OF n(2,3)]] .
  show thesis by (rule that [of c "cs @ ''i''"]) (simp_all add: n(1) c)
qed

lemma decimal_hd:
  assumes "decimal t"
  obtains c cs where "t = c # cs" and "isNumeric c \<or> c = CHR ''-''" and "is_digit c \<or> c = CHR ''-''"
proof -
  obtain neg ds fs where t: "t = number_text neg (ds @ frac_text fs)" "ds \<noteq> []" "list_all is_digit ds" "list_all is_digit fs"
    using decimalE [OF assms] .
  have n: "ds @ frac_text fs \<noteq> []" "is_digit (hd (ds @ frac_text fs))" using t(2) hd_digits [OF t(2,3)] by simp_all
  show thesis using number_text_hd [OF n] that t(1) by metis
qed

lemma scanFields_value_at:
  assumes "plain k" and "gb b = pre @ tagEsc k @ equals # c # rest" and "c \<noteq> comma" and "c \<noteq> space"
    and "i = length pre + length (tagEsc k)"
  shows "scanFields_value F b start i =
    (if isNumeric c \<or> c = CHR ''-'' \<or> c = CHR ''N'' \<or> c = CHR ''n'' then pbind (scanNumber F (gb b) (i + 1)) (\<lambda>j. Inr (Some j))
     else if c \<noteq> dquote then pbind (scanBoolean (gb b) (i + 1)) (\<lambda>j. Inr (Some j)) else Inr None)"
proof -
  have i: "0 < i" "gb b ! i = equals" "gb b ! (i - 1) \<in> {comma, space, equals} \<longrightarrow> 2 \<le> i \<and> gb b ! (i - 2) = bsl"
    using before_equals [OF assms(1,2,5)] .
  have split: "gb b = (pre @ tagEsc k @ [equals]) @ c # rest" using assms(2) by simp
  have y: "gb b ! (i + 1) = c" "i + 1 < length (gb b)" unfolding split assms(5) by (simp_all add: nth_append)
  show ?thesis using i y assms(3,4) by (auto simp: scanFields_value_def Let_def)
qed

lemma scanFields_at_equals:
  assumes "gb b ! i = equals" and "i < length (gb b)"
  shows "scanFields_loop F b start i False e n =
    (case scanFields_value F b start i of
       Inl x \<Rightarrow> Inl x
     | Inr (Some j) \<Rightarrow> scanFields_loop F b start j False (e + 1) n
     | Inr None \<Rightarrow> scanFields_loop F b start (i + 1) False (e + 1) n)"
  using assms by (subst scanFields_loop.simps) simp

end
