(* ===== verification/Models_Items.thy ===== *)
theory Models_Items
  imports Models_Fields
begin

text \<open>
  The list of the fields of a printed point: what the field scanner makes of it, and that the fields
  are read back.
\<close>

section \<open>Scanning\<close>

lemma scanFields_item:
  assumes "plain k" and "value_ok F v" and "gb b = pre @ tagEsc k @ equals # field_text F v @ rest" and "value_end rest"
  shows "scanFields_loop F b start (length pre) False e n =
    scanFields_loop F b start (length pre + length (field_item F (k, v))) False (e + 1) n"
proof -
  let ?i = "length pre + length (tagEsc k)" let ?q = "pre @ tagEsc k @ [equals]"
  have at: "gb b ! ?i = equals" "?i < length (gb b)" using before_equals(2) [OF assms(1,3) refl] assms(3) by simp_all
  have "scanFields_loop F b start (length pre) False e n = scanFields_loop F b start ?i False e n"
    using assms(1,3) by (intro scanFields_name) (simp_all add: plain_def)
  also have "\<dots> = scanFields_loop F b start (length pre + length (field_item F (k, v))) False (e + 1) n"
  proof (cases v)
    case (FInt i)
    obtain c cs where c: "field_text F v = c # cs" "isNumeric c \<or> c = CHR ''-''" "is_digit c \<or> c = CHR ''-''"
      using field_text_int_hd [of F i] FInt by metis
    have "c \<noteq> comma" "c \<noteq> space" using c(3) digit_chars(1,2) [of c] by auto
    then have "scanFields_value F b start ?i = pbind (scanNumber F (gb b) (?i + 1)) (\<lambda>j. Inr (Some j))"
      using scanFields_value_at [OF assms(1), of b pre c "cs @ rest" ?i F start] assms(3) c by auto
    moreover have "scanNumber F (gb b) (?i + 1) = Inr (?i + 1 + length (field_text F v))"
      using scanNumber_int [of i "gb b" ?q rest F] assms(2-) FInt by simp
    ultimately show ?thesis using scanFields_at_equals [OF at] by (simp add: field_item_def add.assoc)
  next
    case (FFloat x)
    then have d: "decimal (field_text F v)" using assms(2) by simp
    obtain c cs where c: "field_text F v = c # cs" "isNumeric c \<or> c = CHR ''-''" "is_digit c \<or> c = CHR ''-''"
      using decimal_hd [OF d] .
    have "c \<noteq> comma" "c \<noteq> space" using c(3) digit_chars(1,2) [of c] by auto
    then have "scanFields_value F b start ?i = pbind (scanNumber F (gb b) (?i + 1)) (\<lambda>j. Inr (Some j))"
      using scanFields_value_at [OF assms(1), of b pre c "cs @ rest" ?i F start] assms(3) c by auto
    moreover have "scanNumber F (gb b) (?i + 1) = Inr (?i + 1 + length (field_text F v))"
      using scanNumber_float [OF d, of F x "gb b" ?q rest] assms(2-) FFloat by simp
    ultimately show ?thesis using scanFields_at_equals [OF at] by (simp add: field_item_def add.assoc)
  next
    case (FBool x)
    obtain c cs where c: "field_text F v = c # cs" "c \<in> {CHR ''t'', CHR ''f''}" using FBool by (cases x) (auto simp: strconv_FormatBool_def)
    then have "scanFields_value F b start ?i = pbind (scanBoolean (gb b) (?i + 1)) (\<lambda>j. Inr (Some j))"
      using scanFields_value_at [OF assms(1), of b pre c "cs @ rest" ?i F start] assms(3) by (auto simp: isNumeric_def)
    moreover have "scanBoolean (gb b) (?i + 1) = Inr (?i + 1 + length (field_text F v))"
      using scanBoolean_word [of "gb b" ?q x rest] assms(3,4) FBool by simp
    ultimately show ?thesis using scanFields_at_equals [OF at] by (simp add: field_item_def add.assoc)
  next
    case (FString t)
    let ?r = "dquote # rest"
    have g: "gb b = ?q @ dquote # escapeStringField t @ ?r" using assms(3) FString by simp
    have "scanFields_value F b start ?i = Inr None"
      using scanFields_value_at [OF assms(1), of b pre dquote "escapeStringField t @ ?r" ?i F start] g by (simp add: isNumeric_def)
    then have "scanFields_loop F b start ?i False e n = scanFields_loop F b start (length ?q) False (e + 1) n"
      using scanFields_at_equals [OF at] by simp
    also have "\<dots> = scanFields_loop F b start (length (?q @ [dquote])) True (e + 1) n"
      using scanFields_quote [of b ?q "escapeStringField t @ ?r"] g by simp
    also have "\<dots> = scanFields_loop F b start (length (?q @ [dquote]) + length (escapeStringField t)) True (e + 1) n"
      using g by (intro scanFields_string) simp
    also have "\<dots> = scanFields_loop F b start (length (?q @ dquote # escapeStringField t) + 1) False (e + 1) n"
      using scanFields_quote [of b "?q @ dquote # escapeStringField t" rest F start True "e + 1" n] g by (simp add: add.assoc)
    finally show ?thesis by (simp add: FString field_item_def add.assoc)
  qed (use assms(2) in simp_all)
  finally show ?thesis .
qed

text \<open>What follows a list of fields: a space, or the end.\<close>

definition list_end :: "string \<Rightarrow> bool" where
  "list_end r \<longleftrightarrow> r = [] \<or> hd r = space"

lemma scanFields_comma:
  assumes "gb b = pre @ comma # rest"
  shows "scanFields_loop F b start (length pre) False e n = scanFields_loop F b start (length pre + 1) False e (n + 1)"
  by (subst scanFields_loop.simps) (simp add: assms)

lemma scanFields_end:
  assumes "gb b = pre @ rest" and "list_end rest"
  shows "scanFields_loop F b start (length pre) False e n = Inr (length pre, False, e, n)"
  using assms by (cases rest; subst scanFields_loop.simps) (auto simp: list_end_def)

lemma scanFields_items:
  assumes "fields_ok F (kv # kvs)" and "gb b = pre @ field_item F kv @ more_items F kvs @ rest" and "list_end rest"
  shows "scanFields_loop F b start (length pre) False e n =
    Inr (length pre + length (field_item F kv @ more_items F kvs), False, e + 1 + length kvs, n + length kvs)"
  using assms
proof (induction kvs arbitrary: kv pre e n)
  case Nil
  obtain k v where kv: "kv = (k, v)" by fastforce
  have "scanFields_loop F b start (length pre) False e n = scanFields_loop F b start (length pre + length (field_item F (k, v))) False (e + 1) n"
    using Nil.prems by (intro scanFields_item [where rest = rest]) (auto simp: kv field_item_def list_end_def value_end_def)
  also have "\<dots> = Inr (length (pre @ field_item F kv), False, e + 1, n)"
    using scanFields_end [of b "pre @ field_item F kv" rest] Nil.prems by (simp add: kv)
  finally show ?case by simp
next
  case (Cons kv' kvs)
  obtain k v where kv: "kv = (k, v)" by fastforce
  let ?r = "comma # field_item F kv' @ more_items F kvs @ rest" let ?p = "pre @ field_item F kv"
  have "scanFields_loop F b start (length pre) False e n = scanFields_loop F b start (length ?p) False (e + 1) n"
    using scanFields_item [of k F v b pre ?r start e n] Cons.prems by (simp add: kv field_item_def value_end_def)
  also have "\<dots> = scanFields_loop F b start (length (?p @ [comma])) False (e + 1) (n + 1)"
    using scanFields_comma [of b ?p "field_item F kv' @ more_items F kvs @ rest"] Cons.prems(2) by simp
  also have "\<dots> = Inr (length (?p @ [comma]) + length (field_item F kv' @ more_items F kvs), False, e + 1 + 1 + length kvs, n + 1 + length kvs)"
    using Cons.prems by (intro Cons.IH) (simp_all add: kv)
  finally show ?case by (simp add: add.assoc)
qed

lemma skipWhitespace_space:
  assumes "s = pre @ space # rest"
  shows "skipWhitespace s (length pre) = skipWhitespace s (length pre + 1)"
  by (subst skipWhitespace.simps) (simp add: assms)

lemma scanFields_printed:
  assumes "fields_ok F (kv # kvs)" and "gb b = pre @ space # field_item F kv @ more_items F kvs @ rest" and "list_end rest"
  shows "scanFields F b (length pre) = Inr (length pre + 1 + length (field_item F kv @ more_items F kvs),
    \<lparr>gb = field_item F kv @ more_items F kvs, gx = rest @ gx b\<rparr>)"
proof -
  obtain k v where kv: "kv = (k, v)" by fastforce
  let ?t = "field_item F kv @ more_items F kvs" let ?p = "pre @ [space]"
  have k: "plain k" "first_ok k" "space \<in> {comma, space, equals}" using assms(1) by (simp_all add: kv)
  obtain c t where c: "tagEsc k = c # t" "c \<noteq> space" "c \<noteq> CHR 0x09" "c \<noteq> CHR 0x00" and "c = bsl \<or> c = hd k"
    using esc1_first [OF k] unfolding tagEsc_def .
  have "skipWhitespace (gb b) (length pre) = skipWhitespace (gb b) (length ?p)"
    using skipWhitespace_space [OF assms(2)] by simp
  also have "\<dots> = length ?p"
    using assms(2) c by (intro skipWhitespace_stop) (simp_all add: kv field_item_def nth_append)
  finally have start: "skipWhitespace (gb b) (length pre) = length ?p" .
  have g: "gb b = ?p @ ?t @ rest" using assms(2) by simp
  have "scanFields_loop F b (length ?p) (length ?p) False 0 0 = Inr (length ?p + length ?t, False, 0 + 1 + length kvs, 0 + length kvs)"
    using assms g by (intro scanFields_items) simp_all
  moreover have "sl b (length ?p) (length ?p + length ?t) = Inr \<lparr>gb = ?t, gx = rest @ gx b\<rparr>"
    by (rule sl_middle [OF g])
  ultimately show ?thesis unfolding scanFields_def start Let_def by simp
qed

section \<open>Reading the fields back\<close>

lemma scanFieldValue_plain:
  assumes "s = pre @ t @ rest" and "bsl \<notin> set t" and "dquote \<notin> set t" and "comma \<notin> set t \<or> q"
  shows "scanFieldValue_loop s (length pre) q = scanFieldValue_loop s (length pre + length t) q"
  using assms
proof (induction t arbitrary: pre)
  case (Cons c t)
  have "scanFieldValue_loop s (length pre) q = scanFieldValue_loop s (length (pre @ [c])) q"
    using Cons.prems by (subst scanFieldValue_loop.simps) auto
  also have "\<dots> = scanFieldValue_loop s (length (pre @ [c]) + length t) q"
    using Cons.prems by (intro Cons.IH) auto
  finally show ?case by simp
qed simp

lemma scanFieldValue_quote:
  assumes "s = pre @ dquote # rest"
  shows "scanFieldValue_loop s (length pre) q = scanFieldValue_loop s (length pre + 1) (\<not> q)"
  using assms by (subst scanFieldValue_loop.simps) simp

lemma scanFieldValue_step:
  assumes "s = pre @ c # d # rest" and "c \<noteq> dquote" and "c = bsl \<Longrightarrow> d \<noteq> dquote"
  shows "scanFieldValue_loop s (length pre) True = scanFieldValue_loop s (length pre + 1) True"
  using assms by (subst scanFieldValue_loop.simps) (auto simp: nth_append)

lemma scanFieldValue_escaped_quote:
  assumes "s = pre @ bsl # dquote # rest"
  shows "scanFieldValue_loop s (length pre) q = scanFieldValue_loop s (length pre + 2) q"
  using assms by (subst scanFieldValue_loop.simps) (auto simp: nth_append)

text \<open>
  The second byte of an escaped backslash is looked at on its own; it goes wrong only if a quote
  follows, which is the closing one.
\<close>

lemma escapeStringField_hd: "t \<noteq> [] \<Longrightarrow> \<exists>d e. escapeStringField t = d # e \<and> d \<noteq> dquote"
  by (cases t) auto

lemma scanFieldValue_string:
  assumes "s = pre @ escapeStringField t @ dquote # rest" and "t = [] \<or> last t \<noteq> bsl"
  shows "scanFieldValue_loop s (length pre) True = scanFieldValue_loop s (length pre + length (escapeStringField t)) True"
  using assms
proof (induction t arbitrary: pre)
  case (Cons c t)
  have IH: "scanFieldValue_loop s (length p) True = scanFieldValue_loop s (length p + length (escapeStringField t)) True"
    if "s = p @ escapeStringField t @ dquote # rest" for p
    using Cons.prems that by (intro Cons.IH) (auto split: if_splits)
  consider "c = bsl" | "c = dquote" | "c \<noteq> bsl" "c \<noteq> dquote" by blast
  then show ?case
  proof cases
    case 1
    then have "t \<noteq> []" using Cons.prems by auto
    then obtain d e where d: "escapeStringField t = d # e" "d \<noteq> dquote" using escapeStringField_hd by blast
    have s: "s = pre @ bsl # bsl # escapeStringField t @ dquote # rest" using Cons.prems(1) 1 by simp
    have "scanFieldValue_loop s (length pre) True = scanFieldValue_loop s (length (pre @ [bsl])) True"
      using scanFieldValue_step [OF s] by simp
    also have "\<dots> = scanFieldValue_loop s (length (pre @ [bsl, bsl])) True"
      using scanFieldValue_step [of s "pre @ [bsl]" bsl d "e @ dquote # rest"] s d by simp
    also have "\<dots> = scanFieldValue_loop s (length (pre @ [bsl, bsl]) + length (escapeStringField t)) True"
      using s by (intro IH) simp
    finally show ?thesis using 1 by simp
  next
    case 2
    then have s: "s = pre @ bsl # dquote # escapeStringField t @ dquote # rest" using Cons.prems(1) by simp
    have "scanFieldValue_loop s (length pre) True = scanFieldValue_loop s (length (pre @ [bsl, dquote])) True"
      using scanFieldValue_escaped_quote [OF s] by simp
    also have "\<dots> = scanFieldValue_loop s (length (pre @ [bsl, dquote]) + length (escapeStringField t)) True"
      using s by (intro IH) simp
    finally show ?thesis using 2 by simp
  next
    case 3
    then have s: "s = pre @ [c] @ escapeStringField t @ dquote # rest" using Cons.prems(1) by simp
    have "scanFieldValue_loop s (length pre) True = scanFieldValue_loop s (length (pre @ [c])) True"
      using scanFieldValue_plain [OF s] 3 by simp
    also have "\<dots> = scanFieldValue_loop s (length (pre @ [c]) + length (escapeStringField t)) True"
      using s by (intro IH) simp
    finally show ?thesis using 3 by simp
  qed
qed simp

definition item_end :: "string \<Rightarrow> bool" where
  "item_end r \<longleftrightarrow> r = [] \<or> hd r = comma"

lemma scanFieldValue_end:
  assumes "s = pre @ rest" and "item_end rest"
  shows "scanFieldValue_loop s (length pre) False = length pre"
  using assms by (cases rest; subst scanFieldValue_loop.simps) (auto simp: item_end_def)

lemma number_text_set: "set (number_text neg ds) \<subseteq> insert (CHR ''-'') (set ds)"
  by (auto simp: number_text_def sign_text_def)

lemma digits_not:
  assumes "list_all is_digit ds" and "\<not> is_digit c"
  shows "c \<notin> set ds"
  using assms by (auto simp: list_all_iff)

lemma decimal_chars:
  assumes "decimal t" and "\<not> is_digit c" and "c \<noteq> CHR ''-''" and "c \<noteq> CHR ''.''"
  shows "c \<notin> set t"
proof -
  obtain neg ds fs where t: "t = number_text neg (ds @ frac_text fs)" and "ds \<noteq> []" and d: "list_all is_digit ds" "list_all is_digit fs"
    using decimalE [OF assms(1)] .
  have "c \<notin> set (ds @ frac_text fs)" using digits_not [OF d(1) assms(2)] digits_not [OF d(2) assms(2)] assms(4) by (simp add: frac_text_def)
  then show ?thesis using number_text_set [of neg "ds @ frac_text fs"] t assms(3) by auto
qed

lemma FormatInt_chars:
  assumes "\<not> is_digit c" and "c \<noteq> CHR ''-''"
  shows "c \<notin> set (strconv_FormatInt i)"
proof -
  obtain neg ds where n: "strconv_FormatInt i = number_text neg ds" "list_all is_digit ds" using FormatInt_number by blast
  show ?thesis using number_text_set [of neg ds] digits_not [OF n(2) assms(1)] n(1) assms(2) by auto
qed

lemma not_digit: "\<not> is_digit comma" "\<not> is_digit bsl" "\<not> is_digit dquote" "\<not> is_digit newline" "\<not> is_digit space" "\<not> is_digit (CHR ''i'')"
  by (simp_all add: is_digit_iff)

text \<open>The bytes of a value that is not a string.\<close>

lemma value_chars:
  assumes "value_ok F v" and "\<forall>t. v \<noteq> FString t" and "c \<in> {comma, bsl, dquote, newline, space}"
  shows "c \<notin> set (field_text F v)"
proof (cases v)
  case (FInt i)
  with FormatInt_chars [of c i] assms(3) show ?thesis by (auto simp: not_digit)
next
  case (FFloat x)
  with decimal_chars [of "fl_Format F x" c] assms(1,3) show ?thesis by (auto simp: not_digit)
next
  case (FBool x)
  with assms(3) show ?thesis by (auto simp: strconv_FormatBool_def)
qed (use assms in auto)

lemma scanFieldValue_printed:
  assumes "value_ok F v" and "gb b = pre @ field_text F v @ rest" and "item_end rest" and "i = length pre"
  shows "scanFieldValue b i = Inr (i + length (field_text F v), \<lparr>gb = field_text F v, gx = rest @ gx b\<rparr>)"
proof -
  have "scanFieldValue_loop (gb b) (length pre) False = length pre + length (field_text F v)"
  proof (cases "\<exists>t. v = FString t")
    case True
    then obtain t where v: "v = FString t" ..
    let ?q = "pre @ dquote # escapeStringField t @ [dquote]"
    have g: "gb b = pre @ dquote # escapeStringField t @ dquote # rest" using assms(2) v by simp
    have "scanFieldValue_loop (gb b) (length pre) False = scanFieldValue_loop (gb b) (length (pre @ [dquote])) True"
      using scanFieldValue_quote [OF g] by simp
    also have "\<dots> = scanFieldValue_loop (gb b) (length (pre @ [dquote]) + length (escapeStringField t)) True"
      using g assms(1) v by (intro scanFieldValue_string) simp_all
    also have "\<dots> = scanFieldValue_loop (gb b) (length ?q) False"
      using scanFieldValue_quote [of "gb b" "pre @ dquote # escapeStringField t" rest True] g by (simp add: add.assoc)
    also have "\<dots> = length ?q" using g assms(3) by (intro scanFieldValue_end [where rest = rest]) simp_all
    finally show ?thesis by (simp add: v)
  next
    case False
    then have "scanFieldValue_loop (gb b) (length pre) False = scanFieldValue_loop (gb b) (length (pre @ field_text F v)) False"
      using scanFieldValue_plain [OF assms(2), of False] value_chars [OF assms(1)] by simp
    also have "\<dots> = length (pre @ field_text F v)" using assms(2,3) by (intro scanFieldValue_end [where rest = rest]) simp_all
    finally show ?thesis by simp
  qed
  moreover have "sl b (length pre) (length pre + length (field_text F v)) = Inr \<lparr>gb = field_text F v, gx = rest @ gx b\<rparr>"
    by (rule sl_middle [OF assms(2)])
  ultimately show ?thesis by (simp add: scanFieldValue_def assms(4))
qed

lemma parseNumber_loop_float: "parseNumber_loop F val cs = map_option FFloat (fl_Parse F val)"
  by (induction cs) (auto simp: less_char_def)

lemma parse_value_printed:
  assumes "value_ok F v"
  shows "parse_value F (field_text F v) = Inr v"
proof (cases v)
  case (FInt i)
  obtain c cs where c: "field_text F v = c # cs" "is_digit c \<or> c = CHR ''-''" using field_text_int_hd [of F i] FInt by metis
  have "parseNumber F (field_text F v) = Some v"
    using FInt assms by (simp add: parseNumber_def ParseInt_FormatInt)
  with c show ?thesis by (auto simp: parse_value_def Let_def digit_chars)
next
  case (FFloat x)
  then have d: "decimal (field_text F v)" using assms by simp
  obtain c cs where c: "field_text F v = c # cs" "is_digit c \<or> c = CHR ''-''" using decimal_hd [OF d] by metis
  have "last (field_text F v) \<noteq> CHR ''i''"
    using decimal_chars [OF d not_digit(6)] last_in_set [of "field_text F v"] c(1) by auto
  then have "parseNumber F (field_text F v) = Some v" using FFloat assms by (simp add: parseNumber_def parseNumber_loop_float)
  with c show ?thesis by (auto simp: parse_value_def Let_def digit_chars)
next
  case (FBool x)
  then show ?thesis by (cases x) (simp_all add: parse_value_def strconv_FormatBool_def strconv_ParseBool_def is_digit_iff)
qed (use assms in \<open>simp_all add: parse_value_def\<close>)

lemma field_text_Nil: "value_ok F v \<Longrightarrow> field_text F v \<noteq> []"
  by (cases v) (auto simp: strconv_FormatBool_def elim: decimal_hd)

lemma Unescape_tagEsc: "plain k \<Longrightarrow> escape_Unescape (tagEsc k) = k"
  unfolding tagEsc_def plain_def by (intro Unescape_esc1) auto

lemma fields_loop_end: "length (gb b) \<le> i \<Longrightarrow> fields_loop F b i fs = Some (Inr fs)"
  by (subst fields_loop.simps) simp

lemma fields_loop_item:
  assumes "plain k" and "value_ok F v" and "gb b = pre @ field_item F (k, v) @ rest" and "item_end rest"
  shows "fields_loop F b (length pre) fs = fields_loop F b (length pre + length (field_item F (k, v)) + 1) (AList.update k v fs)"
proof -
  let ?p = "pre @ tagEsc k @ [equals]"
  have g: "gb b = pre @ tagEsc k @ equals # field_text F v @ rest" using assms(3) by (simp add: field_item_def)
  have "scanFieldValue b (length pre + length (tagEsc k) + 1) =
      Inr (length pre + length (tagEsc k) + 1 + length (field_text F v), \<lparr>gb = field_text F v, gx = rest @ gx b\<rparr>)"
    using g assms(2,4) by (intro scanFieldValue_printed [where pre = ?p]) simp_all
  moreover have "tagEsc k \<noteq> []" using assms(1) by (simp add: plain_def tagEsc_def)
  ultimately show ?thesis
    using scanTo_tagEsc [OF g assms(1)] g field_text_Nil [OF assms(2)] parse_value_printed [OF assms(2)] Unescape_tagEsc [OF assms(1)]
    by (subst fields_loop.simps) (simp add: field_item_def add.assoc)
qed

lemma fields_loop_printed:
  assumes "fields_ok F (kv # kvs)" and "gb b = pre @ field_item F kv @ more_items F kvs"
  shows "fields_loop F b (length pre) fs = Some (Inr (fold (\<lambda>(k, v). AList.update k v) (kv # kvs) fs))"
  using assms
proof (induction kvs arbitrary: kv pre fs)
  case Nil
  obtain k v where kv: "kv = (k, v)" by fastforce
  show ?case using fields_loop_item [of k F v b pre "[]" fs] Nil.prems
    by (simp add: kv item_end_def fields_loop_end)
next
  case (Cons kv' kvs)
  obtain k v where kv: "kv = (k, v)" by fastforce
  let ?p = "pre @ field_item F kv @ [comma]"
  have "fields_loop F b (length pre) fs = fields_loop F b (length ?p) (AList.update k v fs)"
    using fields_loop_item [of k F v b pre "more_items F (kv' # kvs)" fs] Cons.prems by (simp add: kv item_end_def add.assoc)
  also have "\<dots> = Some (Inr (fold (\<lambda>(k, v). AList.update k v) (kv' # kvs) (AList.update k v fs)))"
    using Cons.prems by (intro Cons.IH) (simp_all add: kv)
  finally show ?case by (simp add: kv)
qed

end
