(* ===== verification/Models_Lines.thy ===== *)
theory Models_Lines
  imports Models_Items
begin

text \<open>
  Printed points as lines: where a line ends, what the parser makes of it, and that the points of a
  text of printed lines are the points that were printed.
\<close>

section \<open>The end of a line\<close>

lemma scanLine_plain:
  assumes "s = pre @ t @ rest" and "newline \<notin> set t" and "dquote \<notin> set t"
  shows "scanLine_loop s (length pre) q f = scanLine_loop s (length pre + length t) q (f \<or> space \<in> set t)"
  using assms
proof (induction t arbitrary: pre f)
  case (Cons c t)
  have "scanLine_loop s (length pre) q f = scanLine_loop s (length (pre @ [c])) q (f \<or> c = space)"
    using Cons.prems by (subst scanLine_loop.simps) (auto simp: Let_def)
  also have "\<dots> = scanLine_loop s (length (pre @ [c]) + length t) q ((f \<or> c = space) \<or> space \<in> set t)"
    using Cons.prems by (intro Cons.IH) simp_all
  finally show ?case by (simp add: disj_assoc eq_commute)
qed simp

lemma scanLine_quoted:
  assumes "s = pre @ c # rest" and "c \<noteq> dquote \<or> last pre = bsl" and "pre \<noteq> []"
  shows "scanLine_loop s (length pre) True True = scanLine_loop s (length pre + 1) True True"
proof -
  have "s ! (length pre - 1) = last pre" using assms(1,3) by (simp add: nth_append last_conv_nth)
  then show ?thesis using assms(1,2) by (subst scanLine_loop.simps) (auto simp: Let_def)
qed

lemma scanLine_quote:
  assumes "s = pre @ dquote # rest" and "last pre \<noteq> bsl" and "1 < length pre"
  shows "scanLine_loop s (length pre) q True = scanLine_loop s (length pre + 1) (\<not> q) True"
proof -
  have "pre \<noteq> []" using assms(3) by auto
  then have "s ! (length pre - 1) = last pre" using assms(1) by (simp add: nth_append last_conv_nth)
  then show ?thesis using assms by (subst scanLine_loop.simps) (auto simp: Let_def)
qed

text \<open>What follows a line: a newline, or the end of the text.\<close>

definition line_end :: "string \<Rightarrow> bool" where
  "line_end r \<longleftrightarrow> r = [] \<or> hd r = newline"

lemma scanLine_stop:
  assumes "s = pre @ rest" and "line_end rest"
  shows "scanLine_loop s (length pre) False f = length pre"
  using assms by (cases rest; subst scanLine_loop.simps) (auto simp: Let_def line_end_def)

lemma scanLine_string:
  assumes "s = pre @ escapeStringField t @ rest" and "pre \<noteq> []"
  shows "scanLine_loop s (length pre) True True = scanLine_loop s (length pre + length (escapeStringField t)) True True"
  using assms
proof (induction t arbitrary: pre)
  case (Cons c t)
  have IH: "scanLine_loop s (length p) True True = scanLine_loop s (length p + length (escapeStringField t)) True True"
    if "s = p @ escapeStringField t @ rest" "p \<noteq> []" for p
    using that by (rule Cons.IH)
  show ?case
  proof (cases "c = bsl \<or> c = dquote")
    case True
    then have e: "escapeStringField (c # t) = [bsl, c] @ escapeStringField t" by auto
    then have s: "s = pre @ bsl # c # escapeStringField t @ rest" using Cons.prems(1) by (simp del: escapeStringField.simps)
    have "scanLine_loop s (length pre) True True = scanLine_loop s (length (pre @ [bsl])) True True"
      using scanLine_quoted [OF s] Cons.prems(2) by simp
    also have "\<dots> = scanLine_loop s (length (pre @ [bsl, c])) True True"
      using scanLine_quoted [of s "pre @ [bsl]" c "escapeStringField t @ rest"] s by simp
    also have "\<dots> = scanLine_loop s (length (pre @ [bsl, c]) + length (escapeStringField t)) True True"
      using s by (intro IH) simp_all
    finally show ?thesis unfolding e by simp
  next
    case False
    then have e: "escapeStringField (c # t) = [c] @ escapeStringField t" by auto
    then have s: "s = pre @ c # escapeStringField t @ rest" using Cons.prems(1) by (simp del: escapeStringField.simps)
    have "scanLine_loop s (length pre) True True = scanLine_loop s (length (pre @ [c])) True True"
      using scanLine_quoted [OF s] Cons.prems(2) False by simp
    also have "\<dots> = scanLine_loop s (length (pre @ [c]) + length (escapeStringField t)) True True"
      using s by (intro IH) simp_all
    finally show ?thesis unfolding e by simp
  qed
qed simp

lemma escapeStringField_last: "t \<noteq> [] \<Longrightarrow> last (escapeStringField t) = last t"
proof (induction t)
  case (Cons c t)
  have "t \<noteq> [] \<Longrightarrow> escapeStringField t \<noteq> []" using escapeStringField_hd [of t] by auto
  with Cons show ?case by auto
qed simp

lemma tagEsc_set: "set (tagEsc k) \<subseteq> insert bsl (set k)"
  by (auto simp: tagEsc_def esc1_def)

lemma plain_tagEsc: "plain k \<Longrightarrow> newline \<notin> set (tagEsc k) \<and> dquote \<notin> set (tagEsc k)"
  using tagEsc_set [of k] by (auto simp: plain_def)

lemma scanLine_item:
  assumes "plain k" and "value_ok F v" and "s = pre @ field_item F (k, v) @ rest" and "1 < length pre"
  shows "scanLine_loop s (length pre) False True = scanLine_loop s (length pre + length (field_item F (k, v))) False True"
proof (cases "\<exists>t. v = FString t")
  case True
  then obtain t where v: "v = FString t" ..
  let ?q = "pre @ tagEsc k @ [equals]" let ?r = "?q @ dquote # escapeStringField t"
  have s: "s = ?q @ dquote # escapeStringField t @ dquote # rest" using assms(3) v by (simp add: field_item_def)
  have last: "last ?r \<noteq> bsl" using assms(2) v escapeStringField_last [of t] by (cases "t = []") (auto simp: last_append)
  have "scanLine_loop s (length pre) False True = scanLine_loop s (length ?q) False True"
    using scanLine_plain [of s pre "tagEsc k @ [equals]" "dquote # escapeStringField t @ dquote # rest" False True] plain_tagEsc [OF assms(1)] s by simp
  also have "\<dots> = scanLine_loop s (length (?q @ [dquote])) True True"
    using scanLine_quote [OF s, of False] assms(4) by (cases pre) simp_all
  also have "\<dots> = scanLine_loop s (length (?q @ [dquote]) + length (escapeStringField t)) True True"
    using s by (intro scanLine_string) simp_all
  also have "\<dots> = scanLine_loop s (length ?r + 1) False True"
    using scanLine_quote [of s ?r rest True] s last assms(4) by (cases pre) (simp_all add: add.assoc)
  finally show ?thesis by (simp add: v field_item_def add.assoc)
next
  case False
  then have "newline \<notin> set (field_item F (k, v))" "dquote \<notin> set (field_item F (k, v))"
    using value_chars [OF assms(2)] plain_tagEsc [OF assms(1)] by (auto simp: field_item_def)
  with scanLine_plain [OF assms(3), of False True] show ?thesis by simp
qed

lemma scanLine_items:
  assumes "fields_ok F (kv # kvs)" and "s = pre @ field_item F kv @ more_items F kvs @ rest" and "1 < length pre"
  shows "scanLine_loop s (length pre) False True = scanLine_loop s (length pre + length (field_item F kv @ more_items F kvs)) False True"
  using assms
proof (induction kvs arbitrary: kv pre)
  case Nil
  then show ?case using scanLine_item [of "fst kv" F "snd kv" s pre rest] by (cases kv) simp
next
  case (Cons kv' kvs)
  obtain k v where kv: "kv = (k, v)" by fastforce
  let ?r = "field_item F kv' @ more_items F kvs" let ?p = "pre @ field_item F kv"
  have "scanLine_loop s (length pre) False True = scanLine_loop s (length ?p) False True"
    using scanLine_item [of k F v s pre "comma # ?r @ rest"] Cons.prems by (simp add: kv)
  also have "\<dots> = scanLine_loop s (length (?p @ [comma])) False True"
    using scanLine_plain [of s ?p "[comma]" "?r @ rest" False True] Cons.prems(2) by simp
  also have "\<dots> = scanLine_loop s (length (?p @ [comma]) + length ?r) False True"
    using Cons.prems by (intro Cons.IH) (auto simp: kv)
  finally show ?case by (simp add: add.assoc)
qed

lemma key_text_chars:
  assumes "plain name" and "plain_tags kvs"
  shows "newline \<notin> set (key_text name kvs) \<and> dquote \<notin> set (key_text name kvs)"
proof -
  have "newline \<notin> set (tags_text kvs) \<and> dquote \<notin> set (tags_text kvs)"
    using assms(2) by (induction kvs) (auto simp: tag_text_def plain_tagEsc)
  moreover have "set (esc1 {comma, space} name) \<subseteq> insert bsl (set name)" by (auto simp: esc1_def)
  ultimately show ?thesis using assms(1) by (auto simp: key_text_def plain_def)
qed

text \<open>A printed line.\<close>

definition line_text :: "float_lib \<Rightarrow> string \<Rightarrow> Tags \<Rightarrow> Fields \<Rightarrow> int \<Rightarrow> string" where
  "line_text F name tags flds ts =
     key_text name tags @ space # (field_item F (hd flds) @ more_items F (tl flds)) @ space # strconv_FormatInt ts"

lemma scanLine_printed:
  assumes "plain name" and "plain_tags tags" and "fields_ok F flds" and "flds \<noteq> []"
    and "s = pre @ line_text F name tags flds ts @ rest" and "line_end rest"
  shows "scanLine_loop s (length pre) False False = length pre + length (line_text F name tags flds ts)"
proof -
  obtain kv kvs where f: "flds = kv # kvs" using assms(4) by (cases flds) auto
  let ?k = "key_text name tags @ [space]" let ?f = "field_item F kv @ more_items F kvs"
  let ?t = "space # strconv_FormatInt ts" let ?p = "pre @ ?k"
  have s: "s = pre @ ?k @ ?f @ ?t @ rest" using assms(5) f by (simp add: line_text_def)
  have two: "1 < length ?p" using assms(1) by (cases name) (auto simp: key_text_def plain_def)
  have "scanLine_loop s (length pre) False False = scanLine_loop s (length ?p) False True"
    using scanLine_plain [OF s, of False False] key_text_chars [OF assms(1,2)] by simp
  also have "\<dots> = scanLine_loop s (length ?p + length ?f) False True"
    using assms(3) f s two by (intro scanLine_items [where rest = "?t @ rest"]) simp_all
  also have "\<dots> = scanLine_loop s (length (?p @ ?f @ ?t)) False True"
    using scanLine_plain [of s "?p @ ?f" ?t rest False True] s
      FormatInt_chars [OF not_digit(4), of ts] FormatInt_chars [OF not_digit(3), of ts] by (simp add: add.assoc)
  also have "\<dots> = length (?p @ ?f @ ?t)"
    using scanLine_stop [of s "?p @ ?f @ ?t" rest] s assms(6) by simp
  finally show ?thesis using f by (simp add: line_text_def)
qed

section \<open>The time stamp\<close>

lemma scanTime_digits:
  assumes "list_all is_digit ds" and "s = pre @ ds"
  shows "scanTime_loop s start (length pre) = Inr (length s)"
  using assms
proof (induction ds arbitrary: pre)
  case Nil
  then show ?case by (subst scanTime_loop.simps) simp
next
  case (Cons c ds)
  have c: "\<not> c < CHR ''0''" "\<not> CHR ''9'' < c" "c \<noteq> newline" using Cons.prems(1) digit_chars [of c] by (auto simp: is_digit_def)
  have "scanTime_loop s start (length pre) = scanTime_loop s start (length (pre @ [c]))"
    using c by (subst scanTime_loop.simps) (simp add: Cons.prems(2))
  also have "\<dots> = Inr (length s)" using Cons.prems by (intro Cons.IH) simp_all
  finally show ?case .
qed

lemma scanTime_printed:
  assumes "gb b = pre @ space # strconv_FormatInt ts"
  shows "scanTime b (length pre) = Inr (length (gb b), \<lparr>gb = strconv_FormatInt ts, gx = gx b\<rparr>)"
proof -
  obtain neg ds where n: "strconv_FormatInt ts = number_text neg ds" "ds \<noteq> []" "list_all is_digit ds" using FormatInt_number by blast
  let ?p = "pre @ [space]"
  obtain c cs where c: "number_text neg ds = c # cs" "is_digit c \<or> c = CHR ''-''"
    using number_text_hd [OF n(2) hd_digits [OF n(2,3)]] by metis
  have g: "gb b = ?p @ number_text neg ds" using assms n(1) by simp
  have "skipWhitespace (gb b) (length pre) = skipWhitespace (gb b) (length ?p)"
    using skipWhitespace_space [OF assms] by simp
  also have "\<dots> = length ?p"
    using g c by (intro skipWhitespace_stop) (auto simp: nth_append is_digit_iff)
  finally have start: "skipWhitespace (gb b) (length pre) = length ?p" .
  have "scanTime_loop (gb b) (length ?p) (length ?p) = Inr (length (gb b))"
  proof (cases neg)
    case True
    have "scanTime_loop (gb b) (length ?p) (length ?p) = scanTime_loop (gb b) (length ?p) (length (?p @ ''-''))"
      using True g by (subst scanTime_loop.simps) (simp add: number_text_def sign_text_def nth_append)
    also have "\<dots> = Inr (length (gb b))"
      using n(3) g True by (intro scanTime_digits) (simp_all add: number_text_def sign_text_def)
    finally show ?thesis .
  next
    case False
    then show ?thesis using n(3) g by (intro scanTime_digits) (simp_all add: number_text_def sign_text_def)
  qed
  moreover have "sl b (length ?p) (length (gb b)) = Inr \<lparr>gb = strconv_FormatInt ts, gx = gx b\<rparr>"
    using sl_middle [of b ?p "strconv_FormatInt ts" "[]"] assms by simp
  ultimately show ?thesis unfolding scanTime_def start Let_def by simp
qed

section \<open>What is printed\<close>

lemma sort_map_key: "sort (map f xs) = map f (sort_key f xs)"
  by (intro properties_for_sort) simp_all

lemma map_of_sort_key: "distinct (map fst xs) \<Longrightarrow> map_of (sort_key f xs) = map_of xs"
  by (subst map_of_inject_set) (auto simp: distinct_map inj_on_def)

lemma the_map_of: "distinct (map fst xs) \<Longrightarrow> (k, v) \<in> set xs \<Longrightarrow> the (map_of xs k) = v"
  by simp

definition sorted_tags :: "Tags \<Rightarrow> Tags" where
  "sorted_tags tags = sort_key (tagEsc \<circ> fst) tags"

lemma tagEsc_inj: "plain k \<Longrightarrow> plain k' \<Longrightarrow> tagEsc k = tagEsc k' \<longleftrightarrow> k = k'"
  using esc1_inj [of "{comma, space, equals}" k k'] by (auto simp: tagEsc_def plain_def)

lemma plain_tags_esc_distinct:
  assumes "plain_tags tags" and "distinct (map fst tags)"
  shows "distinct (map (tagEsc \<circ> fst) tags)"
  using assms by (induction tags) (force simp: plain_tags_def tagEsc_inj)+

lemma escaped_tags:
  assumes "plain_tags tags" and "distinct (map fst (m @ map (map_prod tagEsc tagEsc) tags))"
  shows "fold (\<lambda>(k, v) m. let ek = escapeTag k; ev = escapeTag v in if length ev > 0 then AList.update ek ev m else m) tags m =
    m @ map (map_prod tagEsc tagEsc) tags"
  using assms
proof (induction tags arbitrary: m)
  case (Cons kv tags)
  obtain k v where kv: "kv = (k, v)" by fastforce
  have v: "tagEsc v \<noteq> []" using Cons.prems(1) by (simp add: kv plain_def tagEsc_def)
  have "AList.update (tagEsc k) (tagEsc v) m = m @ [(tagEsc k, tagEsc v)]"
    using fold_update_fresh [of m "[(tagEsc k, tagEsc v)]"] Cons.prems(2) by (simp add: kv)
  with v Cons.IH [of "m @ [(tagEsc k, tagEsc v)]"] Cons.prems show ?case by (simp add: kv escapeTag_eq Let_def)
qed simp

lemma Tags_HashKey_printed:
  assumes "plain_tags tags" and "distinct (map fst tags)"
  shows "Tags_HashKey tags = tags_text (sorted_tags tags)"
proof -
  let ?e = "map (map_prod tagEsc tagEsc) tags"
  have fst_e: "map fst ?e = map (tagEsc \<circ> fst) tags" by simp
  have d: "distinct (map fst ?e)" using plain_tags_esc_distinct [OF assms] fst_e by simp
  have "(\<lambda>k. [comma] @ k @ [equals] @ the (map_of ?e k)) (tagEsc (fst kv)) = comma # tag_text kv"
    if "kv \<in> set (sorted_tags tags)" for kv
  proof -
    have "map_prod tagEsc tagEsc kv \<in> set ?e" using that by (simp add: sorted_tags_def)
    then have "(tagEsc (fst kv), tagEsc (snd kv)) \<in> set ?e" by (cases kv) simp
    with d have "the (map_of ?e (tagEsc (fst kv))) = tagEsc (snd kv)" by (intro the_map_of)
    then show ?thesis by (simp add: tag_text_def)
  qed
  then have "map (\<lambda>k. [comma] @ k @ [equals] @ the (map_of ?e k)) (map (tagEsc \<circ> fst) (sorted_tags tags)) =
      map (\<lambda>kv. comma # tag_text kv) (sorted_tags tags)"
    by simp
  moreover have "sort (map fst ?e) = map (tagEsc \<circ> fst) (sorted_tags tags)"
    by (simp only: fst_e sort_map_key sorted_tags_def)
  moreover have "Tags_HashKey tags = concat (map (\<lambda>k. [comma] @ k @ [equals] @ the (map_of ?e k)) (sort (map fst ?e)))"
    using escaped_tags [of tags "[]"] assms(1) d by (simp add: Tags_HashKey_def)
  ultimately show ?thesis by (simp only: tags_text_def)
qed

lemma sorted_tags_facts:
  assumes "plain_tags tags" and "distinct (map fst tags)"
  shows "plain_tags (sorted_tags tags)" and "distinct (map fst (sorted_tags tags))"
    and "sorted_wrt (<) (map (tagEsc \<circ> fst) (sorted_tags tags))" and "map_of (sorted_tags tags) = map_of tags"
proof -
  show p: "plain_tags (sorted_tags tags)" using assms(1) by (simp add: plain_tags_def sorted_tags_def)
  show d: "distinct (map fst (sorted_tags tags))" using assms(2) by (simp add: sorted_tags_def distinct_map)
  have "sorted (map (tagEsc \<circ> fst) (sorted_tags tags))" by (simp add: sorted_tags_def)
  with plain_tags_esc_distinct [OF p d] show "sorted_wrt (<) (map (tagEsc \<circ> fst) (sorted_tags tags))"
    by (simp add: strict_sorted_iff)
  show "map_of (sorted_tags tags) = map_of tags" using assms(2) by (simp add: sorted_tags_def map_of_sort_key)
qed

definition sorted_fields :: "Fields \<Rightarrow> Fields" where
  "sorted_fields flds = sort_key fst flds"

lemma butlast_items:
  assumes "kvs \<noteq> []"
  shows "butlast (concat (map (\<lambda>kv. field_item F kv @ [comma]) kvs)) = field_item F (hd kvs) @ more_items F (tl kvs)"
proof -
  have "concat (map (\<lambda>kv. field_item F kv @ [comma]) (kv # r)) = field_item F kv @ more_items F r @ [comma]" for kv r
    by (induction r arbitrary: kv) simp_all
  with assms show ?thesis by (cases kvs) (simp_all add: butlast_append)
qed

lemma MarshalBinary_printed:
  assumes "fields_ok F flds" and "distinct (map fst flds)" and "flds \<noteq> []"
  shows "Fields_MarshalBinary F flds = field_item F (hd (sorted_fields flds)) @ more_items F (tl (sorted_fields flds))"
proof -
  have "escape_String (fst kv) @ [equals] @ field_text F (the (map_of flds (fst kv))) @ [comma] = field_item F kv @ [comma]"
    if "kv \<in> set (sorted_fields flds)" for kv
  proof -
    have m: "(fst kv, snd kv) \<in> set flds" using that by (simp add: sorted_fields_def)
    then have "plain (fst kv)" using assms(1) by (auto simp: fields_ok_def)
    with the_map_of [OF assms(2) m] show ?thesis by (simp add: escape_String_plain field_item_def)
  qed
  then have "map (\<lambda>k. escape_String k @ [equals] @ field_text F (the (map_of flds k)) @ [comma]) (map fst (sorted_fields flds)) =
      map (\<lambda>kv. field_item F kv @ [comma]) (sorted_fields flds)"
    by simp
  then have "Fields_MarshalBinary F flds = butlast (concat (map (\<lambda>kv. field_item F kv @ [comma]) (sorted_fields flds)))"
    unfolding Fields_MarshalBinary_def sort_map_key sorted_fields_def by (simp only:)
  moreover have "sorted_fields flds \<noteq> []" using assms(3) by (simp add: sorted_fields_def flip: set_empty)
  ultimately show ?thesis by (simp add: butlast_items)
qed

lemma sorted_fields_facts:
  assumes "fields_ok F flds" and "distinct (map fst flds)" and "flds \<noteq> []"
  shows "fields_ok F (sorted_fields flds)" and "distinct (map fst (sorted_fields flds))" and "sorted_fields flds \<noteq> []"
    and "map_of (sorted_fields flds) = map_of flds"
  using assms by (auto simp: sorted_fields_def fields_ok_def distinct_map map_of_sort_key simp flip: set_empty)

section \<open>Printing and parsing points\<close>

text \<open>The points that survive printing, and what it is to read one back.\<close>

type_synonym point_spec = "string \<times> Tags \<times> Fields \<times> time"

definition printable :: "float_lib \<Rightarrow> point_spec \<Rightarrow> bool" where
  "printable F = (\<lambda>(name, tags, flds, t).
     plain name \<and> first_ok name \<and> hd name \<noteq> CHR ''#'' \<and> plain_tags tags \<and> distinct (map fst tags) \<and>
     fields_ok F flds \<and> distinct (map fst flds) \<and> flds \<noteq> [] \<and> is_int64 (t - unix_epoch))"

definition reads_as :: "float_lib \<Rightarrow> point \<Rightarrow> point_spec \<Rightarrow> bool" where
  "reads_as F p = (\<lambda>(name, tags, flds, t).
     (\<exists>p'. point_Name p = Inr (p', name)) \<and>
     (\<exists>tags'. point_Tags p = Inr tags' \<and> map_of tags' = map_of tags) \<and>
     (\<exists>p' flds'. point_Fields F p = Some (Inr (p', flds')) \<and> map_of flds' = map_of flds) \<and>
     point_Time p = t)"

definition spec_line :: "float_lib \<Rightarrow> point_spec \<Rightarrow> string" where
  "spec_line F = (\<lambda>(name, tags, flds, t). line_text F name (sorted_tags tags) (sorted_fields flds) (t - unix_epoch))"

definition spec_key :: "point_spec \<Rightarrow> string" where
  "spec_key = (\<lambda>(name, tags, flds, t). key_text name (sorted_tags tags))"

lemma fields_ok_NaN: "fields_ok F flds \<Longrightarrow> \<not> list_ex (\<lambda>(k, v). case v of FFloat x \<Rightarrow> math_IsNaN x | _ \<Rightarrow> False) flds"
  by (auto simp: fields_ok_def list_ex_iff split: field_value.splits)

lemma NewPoint_printed:
  assumes "printable F (name, tags, flds, t)"
  shows "\<exists>p. NewPoint spare F name tags flds t = Inr p \<and> point_String p = spec_line F (name, tags, flds, t) \<and>
    gb (point_Key p) = spec_key (name, tags, flds, t)"
proof -
  have a: "plain name" "plain_tags tags" "distinct (map fst tags)" "fields_ok F flds" "distinct (map fst flds)" "flds \<noteq> []"
    "is_int64 (t - unix_epoch)" using assms by (simp_all add: printable_def)
  have t: "\<not> time_IsZero t" using a(7) by (auto simp: time_IsZero_def is_int64_def unix_epoch_def)
  let ?p = "new_point (alloc spare (MakeKey name tags)) (alloc spare (Fields_MarshalBinary F flds)) [] t"
  have "NewPoint spare F name tags flds t = Inr ?p" using fields_ok_NaN [OF a(4)] by (simp add: NewPoint_def)
  moreover have k: "MakeKey name tags = key_text name (sorted_tags tags)"
    using a(1-3) by (simp add: MakeKey_plain Tags_HashKey_printed key_text_def)
  moreover have "point_String ?p = spec_line F (name, tags, flds, t)"
    using t a(7) MarshalBinary_printed [OF a(4-6)] k
    by (simp add: point_String_def point_text_def point_UnixNano_def time_UnixNano_def to_int64_id point_Time_def point_Key_def
      new_point_def alloc_def spec_line_def line_text_def)
  ultimately show ?thesis by (simp add: point_Key_def new_point_def alloc_def spec_key_def)
qed

lemma parsePoint_printed:
  assumes "printable F x" and "gb b = spec_line F x"
  shows "\<exists>q. parsePoint F b now ''n'' = Inr q \<and> reads_as F q x \<and> gb (point_Key q) = spec_key x"
proof -
  obtain name tags flds t where x: "x = (name, tags, flds, t)" by (cases x)
  have a: "plain name" "first_ok name" "plain_tags tags" "distinct (map fst tags)" "fields_ok F flds" "distinct (map fst flds)" "flds \<noteq> []"
    "is_int64 (t - unix_epoch)" using assms(1) by (simp_all add: printable_def x)
  note st = sorted_tags_facts [OF a(3,4)] and sf = sorted_fields_facts [OF a(5-7)]
  obtain kv kvs where f: "sorted_fields flds = kv # kvs" using sf(3) by (cases "sorted_fields flds") auto
  let ?k = "key_text name (sorted_tags tags)" let ?f = "field_item F kv @ more_items F kvs" let ?ts = "strconv_FormatInt (t - unix_epoch)"
  have g: "gb b = ?k @ space # ?f @ space # ?ts" using assms(2) f by (simp add: x spec_line_def line_text_def)
  have key: "scanKey b 0 = Inr (length ?k, \<lparr>gb = ?k, gx = space # (?f @ space # ?ts) @ gx b\<rparr>)"
    using scanKey_printed [OF a(1,2) st(1,3), of b "?f @ space # ?ts"] g by simp
  have flds: "scanFields F b (length ?k) = Inr (length (?k @ space # ?f), \<lparr>gb = ?f, gx = (space # ?ts) @ gx b\<rparr>)"
    using scanFields_printed [of F kv kvs b ?k "space # ?ts"] sf(1) f g by (simp add: list_end_def)
  have ts: "scanTime b (length (?k @ space # ?f)) = Inr (length (gb b), \<lparr>gb = ?ts, gx = gx b\<rparr>)"
    using g by (intro scanTime_printed) simp
  have ne: "?k \<noteq> []" "?f \<noteq> []" "?ts \<noteq> []"
    using a(1) ParseInt_FormatInt [OF a(8)] by (auto simp: key_text_def plain_def field_item_def strconv_ParseInt_def)
  let ?q = "new_point \<lparr>gb = ?k, gx = space # (?f @ space # ?ts) @ gx b\<rparr> \<lparr>gb = ?f, gx = (space # ?ts) @ gx b\<rparr> ?ts t"
  have "parsePoint F b now ''n'' = Inr ?q"
    unfolding parsePoint_def key pbind_simps prod.case flds ts
    using ne ParseInt_FormatInt [OF a(8)] to_int64_id [OF a(8)]
    by (simp add: point_GetPrecisionMultiplier_def time_Unix0_def)
  moreover have "\<exists>p'. point_Name ?q = Inr (p', name)"
    using point_Name_printed [OF a(1), of ?q "sorted_tags tags"] by (simp add: new_point_def)
  moreover have "point_Tags ?q = Inr (sorted_tags tags)"
    using a(1) st by (intro point_Tags_printed) (simp_all add: new_point_def)
  moreover have "newFieldsFromBinary F (pt_fields ?q) = Some (Inr (sorted_fields flds))"
    using fields_loop_printed [of F kv kvs "pt_fields ?q" "[]" "[]"] sf(1,2) f fold_update_fresh [of "[]" "sorted_fields flds"]
    by (simp add: newFieldsFromBinary_def new_point_def)
  then have "\<exists>p'. point_Fields F ?q = Some (Inr (p', sorted_fields flds))" by (simp add: point_Fields_def new_point_def)
  ultimately show ?thesis using st(4) sf(4)
    by (auto simp: reads_as_def x point_Time_def point_Key_def new_point_def spec_key_def)
qed

text \<open>A text of printed lines.\<close>

lemma spec_line_hd:
  assumes "printable F x"
  obtains c t where "spec_line F x = c # t" and "c \<noteq> space" and "c \<noteq> CHR 0x09" and "c \<noteq> CHR 0x00" and "c \<noteq> CHR ''#''"
proof -
  obtain name tags flds t where x: "x = (name, tags, flds, t)" by (cases x)
  have a: "plain name" "first_ok name" "space \<in> {comma, space}" and h: "hd name \<noteq> CHR ''#''" using assms by (simp_all add: printable_def x)
  obtain c r where c: "esc1 {comma, space} name = c # r" "c \<noteq> space" "c \<noteq> CHR 0x09" "c \<noteq> CHR 0x00" and "c = bsl \<or> c = hd name"
    using esc1_first [OF a] .
  then have "c \<noteq> CHR ''#''" using h by auto
  with c show thesis by (intro that) (simp_all add: x spec_line_def line_text_def key_text_def)
qed

lemma spec_line_last: "printable F x \<Longrightarrow> last (spec_line F x) \<noteq> newline"
proof -
  obtain name tags flds t where x: "x = (name, tags, flds, t)" by (cases x)
  let ?ts = "strconv_FormatInt (t - unix_epoch)"
  assume "printable F x"
  then have ne: "?ts \<noteq> []" using ParseInt_FormatInt [of "t - unix_epoch"] by (auto simp: x printable_def strconv_ParseInt_def)
  then have "last (spec_line F x) = last ?ts" by (simp add: x spec_line_def line_text_def)
  moreover have "newline \<notin> set ?ts" by (intro FormatInt_chars) (simp_all add: not_digit)
  ultimately show ?thesis using last_in_set [OF ne] by metis
qed

lemma scanLine_spec:
  assumes "printable F x" and "gb buf = pre @ spec_line F x @ rest" and "line_end rest"
  shows "scanLine buf (length pre) = Inr (length pre + length (spec_line F x), \<lparr>gb = spec_line F x, gx = rest @ gx buf\<rparr>)"
proof -
  obtain name tags flds t where x: "x = (name, tags, flds, t)" by (cases x)
  have a: "plain name" "plain_tags tags" "distinct (map fst tags)" "fields_ok F flds" "distinct (map fst flds)" "flds \<noteq> []"
    using assms(1) by (simp_all add: printable_def x)
  have "scanLine_loop (gb buf) (length pre) False False = length pre + length (spec_line F x)"
    unfolding spec_line_def x prod.case
    using a sorted_tags_facts(1) [OF a(2,3)] sorted_fields_facts [OF a(4-6)] assms(2,3)
    by (intro scanLine_printed [where rest = rest]) (simp_all add: x spec_line_def)
  with sl_middle [OF assms(2)] show ?thesis by (simp add: scanLine_def)
qed

definition lines :: "float_lib \<Rightarrow> point_spec list \<Rightarrow> string" where
  "lines F xs = concat (map (\<lambda>x. spec_line F x @ [newline]) xs)"

lemma lines_simps [simp]: "lines F [] = []" "lines F (x # xs) = spec_line F x @ newline # lines F xs"
  by (simp_all add: lines_def)

lemma lines_Nil_iff: "lines F xs = [] \<longleftrightarrow> xs = []"
  by (cases xs) simp_all

lemma sl_all: "sl b 0 (length (gb b)) = Inr b"
  by (simp add: sl_def)

lemma parse_lines_step:
  assumes "printable F x" and "gb buf = pre @ spec_line F x @ rest" and "line_end rest"
  shows "\<exists>q. reads_as F q x \<and> gb (point_Key q) = spec_key x \<and>
    parse_lines F buf now ''n'' (length pre) ps fs =
      (if tl rest = [] then Inr (ps @ [q], fs)
       else parse_lines F buf now ''n'' (length pre + length (spec_line F x) + 1) (ps @ [q]) fs)"
proof -
  let ?b = "\<lparr>gb = spec_line F x, gx = rest @ gx buf\<rparr>"
  obtain c t where c: "spec_line F x = c # t" "c \<noteq> space" "c \<noteq> CHR 0x09" "c \<noteq> CHR 0x00" "c \<noteq> CHR ''#''"
    using spec_line_hd [OF assms(1)] .
  have start: "skipWhitespace (gb ?b) 0 = 0" using c by (intro skipWhitespace_stop) simp_all
  have sl: "sl ?b 0 (length (spec_line F x)) = Inr ?b" using sl_all [of ?b] by simp
  obtain q where q: "parsePoint F ?b now ''n'' = Inr q" "reads_as F q x" "gb (point_Key q) = spec_key x"
    using parsePoint_printed [OF assms(1), of ?b now] by auto
  have len: "length pre + length (spec_line F x) + 1 \<ge> length (gb buf) \<longleftrightarrow> tl rest = []" using assms(2) by (cases rest) (auto simp: Suc_le_eq)
  have "parse_lines F buf now ''n'' (length pre) ps fs =
      (if tl rest = [] then Inr (ps @ [q], fs)
       else parse_lines F buf now ''n'' (length pre + length (spec_line F x) + 1) (ps @ [q]) fs)"
    using scanLine_spec [OF assms] start sl c q(1) spec_line_last [OF assms(1)] len
    by (subst parse_lines.simps) (simp add: add.assoc)
  with q show ?thesis by blast
qed

lemma parse_lines_printed:
  assumes "list_all (printable F) xs" and "xs \<noteq> []" and "gb buf = pre @ lines F xs"
  shows "\<exists>qs. parse_lines F buf now ''n'' (length pre) ps fs = Inr (ps @ qs, fs) \<and>
    list_all2 (\<lambda>q x. reads_as F q x \<and> gb (point_Key q) = spec_key x) qs xs"
  using assms
proof (induction xs arbitrary: pre ps)
  case (Cons x xs)
  have x: "printable F x" using Cons.prems(1) by simp
  let ?p = "pre @ spec_line F x @ [newline]"
  obtain q where q: "reads_as F q x" "gb (point_Key q) = spec_key x"
    "parse_lines F buf now ''n'' (length pre) ps fs =
      (if lines F xs = [] then Inr (ps @ [q], fs) else parse_lines F buf now ''n'' (length ?p) (ps @ [q]) fs)"
    using parse_lines_step [OF x, of buf pre "newline # lines F xs" now ps fs] Cons.prems(3) by (auto simp: line_end_def add.assoc)
  show ?case
  proof (cases "xs = []")
    case True
    with q show ?thesis by (intro exI [of _ "[q]"]) simp
  next
    case False
    then obtain qs where "parse_lines F buf now ''n'' (length ?p) (ps @ [q]) fs = Inr ((ps @ [q]) @ qs, fs)"
      "list_all2 (\<lambda>q x. reads_as F q x \<and> gb (point_Key q) = spec_key x) qs xs"
      using Cons.IH [of ?p "ps @ [q]"] Cons.prems by auto
    with q False show ?thesis by (intro exI [of _ "q # qs"]) (simp add: lines_Nil_iff)
  qed
qed simp

lemma ParsePoints_printed:
  assumes "list_all (printable F) xs" and "gb buf = lines F xs"
  shows "\<exists>qs. ParsePoints F now buf = Inr (qs, []) \<and>
    list_all2 (\<lambda>q x. reads_as F q x \<and> gb (point_Key q) = spec_key x) qs xs"
proof (cases "xs = []")
  case True
  then have "scanLine buf 0 = Inr (0, \<lparr>gb = [], gx = gx buf\<rparr>)"
    using assms(2) by (simp add: scanLine_def sl_def scanLine_loop.simps [of "[]"])
  then show ?thesis using True by (intro exI [of _ "[]"])
    (simp add: ParsePoints_def ParsePointsWithPrecision_def parse_lines.simps [of F buf now "''n''" 0 "[]" "[]"])
next
  case False
  then show ?thesis using parse_lines_printed [OF assms(1), of buf "[]" now "[]" "[]"] assms(2)
    by (simp add: ParsePoints_def ParsePointsWithPrecision_def)
qed

text \<open>A single line without a newline behind it.\<close>

lemma ParsePoints_line:
  assumes "printable F x" and "gb buf = spec_line F x"
  shows "\<exists>q. ParsePoints F now buf = Inr ([q], []) \<and> reads_as F q x \<and> gb (point_Key q) = spec_key x"
  using parse_lines_step [OF assms(1), of buf "[]" "[]" now "[]" "[]"] assms(2)
  by (auto simp: ParsePoints_def ParsePointsWithPrecision_def line_end_def)

end
