(* ===== verification/Models_Props.thy ===== *)
theory Models_Props
  imports Models_Lines
begin

text \<open>
  Properties of points and of the line protocol (\<open>models/points.go\<close>).
\<close>

section \<open>Lines the parser does not treat as meant\<close>

text \<open>Points that parse from one line; the tags and the key of a parsed point.\<close>

definition the_point :: "float_lib \<Rightarrow> string \<Rightarrow> point option" where
  "the_point F line = (case ParsePoints F unix_epoch (of_bytes line) of Inr ([p], []) \<Rightarrow> Some p | _ \<Rightarrow> None)"

text \<open>
  The key of a parsed point is not always sorted by tags: of three tags, the scanner compares
  the first with the last only, so two lines that differ in the order of their tags only are both
  accepted, give points with the same measurement and the same tags, and yet with different keys
  and different hashes, that is, different series in different shards.  A duplicate tag in the middle is
  not noticed, either.
\<close>

lemma tag_order_splits_series:
  "\<exists>p q r. the_point F ''cpu,b=1,a=2,c=3 v=1i'' = Some p \<and> the_point F ''cpu,a=2,b=1,c=3 v=1i'' = Some q \<and>
     the_point F ''cpu,a=1,a=2,b=3 v=1i'' = Some r \<and>
     point_Tags p = Inr [(''b'', ''1''), (''a'', ''2''), (''c'', ''3'')] \<and>
     point_Tags q = Inr [(''a'', ''2''), (''b'', ''1''), (''c'', ''3'')] \<and>
     point_Tags r = Inr [(''a'', ''2''), (''b'', ''3'')] \<and>
     gb (point_Key p) \<noteq> gb (point_Key q) \<and> point_HashID p \<noteq> point_HashID q"
proof -
  let ?p = "new_point \<lparr>gb = ''cpu,b=1,a=2,c=3'', gx = '' v=1i''\<rparr> \<lparr>gb = ''v=1i'', gx = []\<rparr> [] unix_epoch"
  let ?q = "new_point \<lparr>gb = ''cpu,a=2,b=1,c=3'', gx = '' v=1i''\<rparr> \<lparr>gb = ''v=1i'', gx = []\<rparr> [] unix_epoch"
  let ?r = "new_point \<lparr>gb = ''cpu,a=1,a=2,b=3'', gx = '' v=1i''\<rparr> \<lparr>gb = ''v=1i'', gx = []\<rparr> [] unix_epoch"
  have "the_point F ''cpu,b=1,a=2,c=3 v=1i'' = Some ?p" by code_simp
  moreover have "the_point F ''cpu,a=2,b=1,c=3 v=1i'' = Some ?q" by code_simp
  moreover have "the_point F ''cpu,a=1,a=2,b=3 v=1i'' = Some ?r" by code_simp
  moreover have "point_Tags ?p = Inr [(''b'', ''1''), (''a'', ''2''), (''c'', ''3'')]" by code_simp
  moreover have "point_Tags ?q = Inr [(''a'', ''2''), (''b'', ''1''), (''c'', ''3'')]" by code_simp
  moreover have "point_Tags ?r = Inr [(''a'', ''2''), (''b'', ''3'')]" by code_simp
  moreover have "gb (point_Key ?p) \<noteq> gb (point_Key ?q)" by code_simp
  moreover have "point_HashID ?p \<noteq> point_HashID ?q" by code_simp
  ultimately show ?thesis by blast
qed

text \<open>The loop over the fields never gets past an empty name.\<close>

lemma fields_loop_stuck:
  assumes "fields_loop F b i fs = Some r" and "i < length (gb b)" and "gb b ! i = equals"
  shows False
proof -
  have "\<not> (i < length (gb b) \<and> gb b ! i = equals)"
  proof (rule fields_loop.raw_induct [of "\<lambda>F b i fs r. \<not> (i < length (gb b) \<and> gb b ! i = equals)", OF _ assms(1)])
    fix loop F b i fs r
    assume IH: "\<And>F b i fs r. loop F b i fs = Some r \<Longrightarrow> \<not> (i < length (gb b) \<and> gb b ! i = equals)"
      and run: "(if i \<ge> length (gb b) then Some (Inr fs)
      else case scanTo b i equals of
        Inl e \<Rightarrow> Some (Inl e)
      | Inr (i, name) \<Rightarrow>
          if gb name = [] then loop F b i fs
          else let nm = escape_Unescape (gb name) in
            (case scanFieldValue b (i + 1) of
               Inl e \<Rightarrow> Some (Inl e)
             | Inr (i, v) \<Rightarrow>
                 if gb v = [] then loop F b i (AList.update nm FNil fs)
                 else (case parse_value F (gb v) of
                   Inl e \<Rightarrow> Some (Inl e)
                 | Inr x \<Rightarrow> loop F b (i + 1) (AList.update nm x fs)))) = Some r"
    show "\<not> (i < length (gb b) \<and> gb b ! i = equals)"
    proof
      assume i: "i < length (gb b) \<and> gb b ! i = equals"
      then have "scanTo b i equals = Inr (i, \<lparr>gb = [], gx = drop i (gb b @ gx b)\<rparr>)"
        by (simp add: scanTo_def scanTo_loop.simps [of equals "gb b" i] sl_def)
      with run i have "loop F b i fs = Some r" by simp
      from IH [OF this] i show False by blast
    qed
  qed
  with assms(2,3) show False by blast
qed

text \<open>
  A line whose fields begin with an equal sign behind a tab is accepted, and asking the point
  for its fields then never returns: the check for a missing field name looks for a space before
  the equal sign only, and the loop that reads the fields does not advance over an empty name.
\<close>

lemma fields_never_return:
  "\<exists>p. the_point F (''cpu '' @ [CHR 0x09] @ ''=1'') = Some p \<and> point_Fields F p = None"
proof -
  let ?b = "\<lparr>gb = ''=1'', gx = []\<rparr>"
  let ?p = "new_point \<lparr>gb = ''cpu'', gx = '' '' @ [CHR 0x09] @ ''=1''\<rparr> ?b [] unix_epoch"
  have "the_point F (''cpu '' @ [CHR 0x09] @ ''=1'') = Some ?p" by code_simp
  moreover have "fields_loop F ?b 0 [] = None"
    using fields_loop_stuck [of F ?b 0 "[]"] by (cases "fields_loop F ?b 0 []") auto
  then have "point_Fields F ?p = None" by (simp add: point_Fields_def newFieldsFromBinary_def new_point_def)
  ultimately show ?thesis by blast
qed

text \<open>
  An empty line ends the parsing: the points after it are dropped without an error, while a line of
  blanks and a comment are skipped.
\<close>

lemma blank_line_drops_points:
  "(\<exists>p. ParsePoints F unix_epoch (of_bytes (''a v=1i'' @ [newline, newline] @ ''b v=2i'')) = Inr ([p], [])) \<and>
   (\<exists>p q. ParsePoints F unix_epoch (of_bytes (''a v=1i'' @ [newline, space, newline] @ ''b v=2i'')) = Inr ([p, q], []))"
proof -
  let ?l = "''a v=1i'' @ [newline, newline] @ ''b v=2i''" and ?m = "''a v=1i'' @ [newline, space, newline] @ ''b v=2i''"
  let ?p = "new_point \<lparr>gb = ''a'', gx = drop 1 ?l\<rparr> \<lparr>gb = ''v=1i'', gx = drop 6 ?l\<rparr> [] unix_epoch"
  let ?q = "new_point \<lparr>gb = ''a'', gx = drop 1 ?m\<rparr> \<lparr>gb = ''v=1i'', gx = drop 6 ?m\<rparr> [] unix_epoch"
  let ?r = "new_point \<lparr>gb = ''b'', gx = '' v=2i''\<rparr> \<lparr>gb = ''v=2i'', gx = []\<rparr> [] unix_epoch"
  have "ParsePoints F unix_epoch (of_bytes ?l) = Inr ([?p], [])" by code_simp
  moreover have "ParsePoints F unix_epoch (of_bytes ?m) = Inr ([?q, ?r], [])" by code_simp
  ultimately show ?thesis by blast
qed

text \<open>
  A string field that ends in a backslash swallows the fields behind it: the scanner for field
  values takes the second byte of the escaped backslash for the start of an escaped quote.
\<close>

lemma backslash_swallows_field:
  "\<exists>p q. NewPoint (\<lambda>_. []) F ''cpu'' [] [(''a'', FString [CHR ''x'', bsl]), (''b'', FInt 1)] unix_epoch = Inr p \<and>
     point_Fields F p = Some (Inr (q, [(''a'', FString ([CHR ''x'', bsl, dquote] @ '',b=1''))]))"
proof -
  let ?b = "\<lparr>gb = ''a='' @ [dquote, CHR ''x'', bsl, bsl, dquote] @ '',b=1i'', gx = []\<rparr>"
  let ?p = "new_point \<lparr>gb = ''cpu'', gx = []\<rparr> ?b [] unix_epoch"
  have "NewPoint (\<lambda>_. []) F ''cpu'' [] [(''a'', FString [CHR ''x'', bsl]), (''b'', FInt 1)] unix_epoch = Inr ?p" by code_simp
  moreover have "newFieldsFromBinary F ?b = Some (Inr [(''a'', FString ([CHR ''x'', bsl, dquote] @ '',b=1''))])" by code_simp
  then have "\<exists>q. point_Fields F ?p = Some (Inr (q, [(''a'', FString ([CHR ''x'', bsl, dquote] @ '',b=1''))]))"
    by (simp add: point_Fields_def new_point_def)
  ultimately show ?thesis by blast
qed

section \<open>Printing and parsing\<close>

lemma NewPoints_printed:
  assumes "list_all (printable F) xs"
  shows "\<exists>ps. list_all2 (\<lambda>(name, tags, flds, t) p. NewPoint spare F name tags flds t = Inr p) xs ps \<and>
    concat (map (\<lambda>p. point_String p @ [newline]) ps) = lines F xs \<and> map (gb \<circ> point_Key) ps = map spec_key xs"
  using assms
proof (induction xs)
  case (Cons x xs)
  obtain name tags flds t where x: "x = (name, tags, flds, t)" by (cases x)
  obtain ps where ps: "list_all2 (\<lambda>(name, tags, flds, t) p. NewPoint spare F name tags flds t = Inr p) xs ps"
    "concat (map (\<lambda>p. point_String p @ [newline]) ps) = lines F xs" "map (gb \<circ> point_Key) ps = map spec_key xs"
    using Cons.IH Cons.prems by (auto simp: comp_def)
  obtain p where p: "NewPoint spare F name tags flds t = Inr p" "point_String p = spec_line F x" "gb (point_Key p) = spec_key x"
    using NewPoint_printed [of F name tags flds t spare] Cons.prems x by auto
  show ?case by (rule exI [of _ "p # ps"]) (use p ps in \<open>simp add: x comp_def\<close>)
qed simp

text \<open>
  C7. Printing and parsing.  Points with names, tags and fields free of backslashes, quotes and
  newlines, with 64-bit integers, floats that the number formatter writes as decimals, booleans
  and strings not ending in a backslash as values, and with times in the range of 64-bit
  nanoseconds, can be built; the text of their lines parses without an error into as many points, which have
  the same keys in the same order, and name, tags, fields and time as they were built with.
\<close>

theorem points_roundtrip:
  assumes "list_all (printable F) xs"
  shows "\<exists>ps. list_all2 (\<lambda>(name, tags, flds, t) p. NewPoint spare F name tags flds t = Inr p) xs ps \<and>
    (\<exists>qs. ParsePoints F now \<lparr>gb = concat (map (\<lambda>p. point_String p @ [newline]) ps), gx = behind\<rparr> = Inr (qs, []) \<and>
      list_all2 (reads_as F) qs xs \<and> map (gb \<circ> point_Key) qs = map (gb \<circ> point_Key) ps)"
proof -
  obtain ps where ps: "list_all2 (\<lambda>(name, tags, flds, t) p. NewPoint spare F name tags flds t = Inr p) xs ps"
    "concat (map (\<lambda>p. point_String p @ [newline]) ps) = lines F xs" "map (gb \<circ> point_Key) ps = map spec_key xs"
    using NewPoints_printed [OF assms] by blast
  obtain qs where qs: "ParsePoints F now \<lparr>gb = lines F xs, gx = behind\<rparr> = Inr (qs, [])"
    "list_all2 (\<lambda>q x. reads_as F q x \<and> gb (point_Key q) = spec_key x) qs xs"
    using ParsePoints_printed [OF assms, of "\<lparr>gb = lines F xs, gx = behind\<rparr>" now] by auto
  have "list_all2 (reads_as F) qs xs" using qs(2) by (rule list_all2_mono) simp
  moreover have "map (gb \<circ> point_Key) qs = map spec_key xs"
    using qs(2) by (induction rule: list_all2_induct) simp_all
  ultimately show ?thesis using ps qs(1) by (intro exI [of _ ps]) simp
qed

text \<open>A formatter that knows one number, and a point with a value of every kind.\<close>

definition float_ex :: float_lib where
  "float_ex = \<lparr>fl_Parse = (\<lambda>s. if s = ''1.5'' then Some 0x3FF8000000000000 else None),
     fl_Format = (\<lambda>_. ''1.5''), fl_Format32 = (\<lambda>_. ''1.5'')\<rparr>"

definition spec_ex :: point_spec where
  "spec_ex = (''cpu load'', [(''host'', ''a,b''), (''dc'', ''x=y'')],
     [(''s'', FString [CHR ''a'', newline, bsl, dquote]), (''v w'', FInt (-7)), (''b'', FBool True), (''f'', FFloat 0x3FF8000000000000)],
     unix_epoch - 3)"

lemma printable_ex: "printable float_ex spec_ex"
  by code_simp

theorem points_roundtrip_witness:
  "\<exists>p. NewPoint (\<lambda>_. []) float_ex (fst spec_ex) (fst (snd spec_ex)) (fst (snd (snd spec_ex))) (snd (snd (snd spec_ex))) = Inr p \<and>
     (\<exists>q. ParsePoints float_ex 0 (of_bytes (point_String p @ [newline])) = Inr ([q], []) \<and> reads_as float_ex q spec_ex)"
  using points_roundtrip [of float_ex "[spec_ex]" "\<lambda>_. []" 0 "[]"] printable_ex
  by (auto simp: list_all2_Cons1 list_all2_Cons2 spec_ex_def)

end
