(* ===== verification/Cluster_Balancer.thy ===== *)
theory Cluster_Balancer
  imports Meta_Data
begin

text \<open>
  The node balancer (\<open>cluster/balancer.go\<close>): a shuffled copy of the data nodes that is handed out
  round-robin.  The random source is a parameter: \<open>rnd i\<close> is the value of the call \<open>rand.Intn(i + 1)\<close>
  in round \<open>i\<close> of the shuffle.
\<close>

record nodeBalancer =
  nb_nodes :: "NodeInfo list"
  nb_p :: nat

definition swap_at :: "nat \<Rightarrow> nat \<Rightarrow> 'a list \<Rightarrow> 'a list" where
  "swap_at i j xs = xs[i := xs ! j, j := xs ! i]"

definition nodeBalancer_shuffle :: "(nat \<Rightarrow> nat) \<Rightarrow> nodeBalancer \<Rightarrow> nodeBalancer" where
  "nodeBalancer_shuffle rnd b =
     b\<lparr>nb_nodes := fold (\<lambda>i ns. swap_at i (rnd i) ns) [0..<length (nb_nodes b)] (nb_nodes b)\<rparr>"

definition NewNodeBalancer :: "(nat \<Rightarrow> nat) \<Rightarrow> NodeInfo list \<Rightarrow> nodeBalancer" where
  "NewNodeBalancer rnd nodes = nodeBalancer_shuffle rnd \<lparr>nb_nodes = nodes, nb_p = 0\<rparr>"

definition nodeBalancer_online :: "nodeBalancer \<Rightarrow> NodeInfo list" where
  "nodeBalancer_online b = nb_nodes b"

definition nodeBalancer_Next :: "nodeBalancer \<Rightarrow> nodeBalancer \<times> NodeInfo option" where
  "nodeBalancer_Next b =
     (let up = nodeBalancer_online b in
      if length up = 0 then (b, None)
      else let b = (if nb_p b \<ge> length up then b\<lparr>nb_p := 0\<rparr> else b) in
        (b\<lparr>nb_p := nb_p b + 1\<rparr>, Some (up ! nb_p b)))"

text \<open>The answers of several calls in a row.\<close>

fun next_calls :: "nat \<Rightarrow> nodeBalancer \<Rightarrow> nodeBalancer \<times> NodeInfo option list" where
  "next_calls 0 b = (b, [])"
| "next_calls (Suc n) b =
     (case nodeBalancer_Next b of (b, r) \<Rightarrow> case next_calls n b of (b, rs) \<Rightarrow> (b, r # rs))"

section \<open>Shuffling\<close>

lemma mset_swap_at: "i < length xs \<Longrightarrow> j < length xs \<Longrightarrow> mset (swap_at i j xs) = mset xs"
  by (simp add: swap_at_def mset_swap)

lemma length_swap_at [simp]: "length (swap_at i j xs) = length xs"
  by (simp add: swap_at_def)

lemma mset_fold_swap:
  assumes "\<forall>i\<in>set is'. i < length xs \<and> rnd i \<le> i"
  shows "mset (fold (\<lambda>i ns. swap_at i (rnd i) ns) is' xs) = mset xs"
  using assms
proof (induction is' arbitrary: xs)
  case (Cons i is')
  then have i: "i < length xs" "rnd i < length xs" by auto
  have "mset (fold (\<lambda>i ns. swap_at i (rnd i) ns) is' (swap_at i (rnd i) xs)) = mset (swap_at i (rnd i) xs)"
    using Cons.prems by (intro Cons.IH) simp
  with mset_swap_at [OF i] show ?case by simp
qed simp

lemma mset_shuffle:
  assumes "\<forall>i. rnd i \<le> i"
  shows "mset (nb_nodes (NewNodeBalancer rnd nodes)) = mset nodes"
  using mset_fold_swap [of "[0..<length nodes]" nodes rnd] assms
  by (simp add: NewNodeBalancer_def nodeBalancer_shuffle_def)

section \<open>Round robin\<close>

lemma Next_at:
  assumes "nb_nodes b \<noteq> []" and "nb_p b \<le> length (nb_nodes b)"
  shows "nodeBalancer_Next b =
    (b\<lparr>nb_p := nb_p b mod length (nb_nodes b) + 1\<rparr>, Some (nb_nodes b ! (nb_p b mod length (nb_nodes b))))"
  using assms by (auto simp: nodeBalancer_Next_def nodeBalancer_online_def Let_def le_eq_less_or_eq)

text \<open>The answers go through the nodes from the current position on, modulo their number.\<close>

lemma next_calls_at:
  assumes "nb_nodes b \<noteq> []" and "nb_p b \<le> length (nb_nodes b)"
  shows "snd (next_calls n b) = map (\<lambda>i. Some (nb_nodes b ! ((nb_p b + i) mod length (nb_nodes b)))) [0..<n]"
  using assms
proof (induction n arbitrary: b)
  case (Suc n)
  let ?l = "length (nb_nodes b)" let ?b = "b\<lparr>nb_p := nb_p b mod ?l + 1\<rparr>"
  have "Suc (nb_p b mod ?l) \<le> ?l" using Suc.prems by (simp add: Suc_leI)
  then have "snd (next_calls n ?b) = map (\<lambda>i. Some (nb_nodes ?b ! ((nb_p ?b + i) mod length (nb_nodes ?b)))) [0..<n]"
    using Suc.prems by (intro Suc.IH) simp_all
  also have "\<dots> = map (\<lambda>i. Some (nb_nodes b ! ((nb_p b + Suc i) mod ?l))) [0..<n]"
  proof -
    have "Suc (nb_p b mod ?l + i) mod ?l = Suc (nb_p b + i) mod ?l" for i
      using mod_add_left_eq [of "nb_p b" ?l "Suc i"] by simp
    then show ?thesis by simp
  qed
  finally show ?case using Suc.prems
    by (simp add: Next_at map_upt_Suc case_prod_beta del: upt_Suc)
qed simp

end
