(* ===== verification/Cluster_Rpc.thy ===== *)
theory Cluster_Rpc
  imports Models_Lines Meta_Store
begin

text \<open>
  The messages the nodes of a cluster exchange (\<open>cluster/rpc.go\<close>) and their framing on a connection
  (\<open>ReadTLV\<close> and \<open>WriteTLV\<close> in \<open>cluster/service.go\<close>).  A connection is the list of the bytes that are
  still to be read from it.  The protobuf library is a parameter, the record \<open>codec\<close>.
\<close>

section \<open>Framing\<close>

definition MaxMessageSize :: int where
  "MaxMessageSize = 1024 * 1024 * 1024"

definition writeShardRequestMessage :: byte where "writeShardRequestMessage = 1"
definition writeShardResponseMessage :: byte where "writeShardResponseMessage = 2"
definition mapShardRequestMessage :: byte where "mapShardRequestMessage = 3"
definition mapShardResponseMessage :: byte where "mapShardResponseMessage = 4"

text \<open>
  The errors of reading a record, told apart by the part that was missing, and the panic of a slice
  of negative length.
\<close>

datatype tlv_error = TlvReadType | TlvReadSize | TlvInvalidSize int | TlvMaxSize int | TlvReadValue | TlvPanicMakeSlice

definition ReadTLV :: "byte list \<Rightarrow> tlv_error + (byte \<times> byte list \<times> byte list)" where
  "ReadTLV r =
     (case r of
        [] \<Rightarrow> Inl TlvReadType
      | typ # r \<Rightarrow>
          if length r < 8 then Inl TlvReadSize
          else let sz = sint (Uint64 (take 8 r)); r = drop 8 r in
            if sz = 0 then Inl (TlvInvalidSize sz)
            else if sz \<ge> MaxMessageSize then Inl (TlvMaxSize sz)
            else if sz < 0 then Inl TlvPanicMakeSlice
            else if length r < nat sz then Inl TlvReadValue
            else Inr (typ, take (nat sz) r, drop (nat sz) r))"

definition WriteTLV :: "byte \<Rightarrow> byte list \<Rightarrow> byte list" where
  "WriteTLV typ buf = [typ] @ PutUint64 (of_nat (length buf)) @ buf"

lemma ReadTLV_WriteTLV:
  assumes "buf \<noteq> []" and "int (length buf) < MaxMessageSize"
  shows "ReadTLV (WriteTLV typ buf @ rest) = Inr (typ, buf, rest)"
proof -
  have "sint (of_nat (length buf) :: u64) = int (length buf)"
    using assms(2) by (intro sint_of_nat_small) (simp add: MaxMessageSize_def)
  then show ?thesis using assms Uint64_PutUint64 [of "of_nat (length buf)" "[]"]
    by (simp add: ReadTLV_def WriteTLV_def Let_def)
qed

lemma ReadTLV_less: "ReadTLV r = Inr (typ, buf, rest) \<Longrightarrow> length rest < length r"
  by (auto simp: ReadTLV_def Let_def split: list.splits if_splits)

section \<open>Messages\<close>

text \<open>A conversion to \<open>int32\<close>.\<close>

definition to_int32 :: "int \<Rightarrow> int" where
  "to_int32 x = (x + 2 ^ 31) mod 2 ^ 32 - 2 ^ 31"

record WriteShardRequest =
  wsq_ShardID :: "u64 option"
  wsq_Points :: "byte list list"

record WriteShardResponse =
  wsp_Code :: "int option"
  wsp_Message :: "string option"

record MapShardRequest =
  msq_ShardID :: "u64 option"
  msq_Query :: "string option"
  msq_ChunkSize :: "int option"

record MapShardResponse =
  msp_Code :: "int option"
  msp_Message :: "string option"
  msp_Data :: "byte list option"
  msp_TagSets :: "string list"
  msp_Fields :: "string list"

abbreviation new_WriteShardRequest :: WriteShardRequest where
  "new_WriteShardRequest \<equiv> \<lparr>wsq_ShardID = None, wsq_Points = []\<rparr>"

abbreviation new_WriteShardResponse :: WriteShardResponse where
  "new_WriteShardResponse \<equiv> \<lparr>wsp_Code = None, wsp_Message = None\<rparr>"

abbreviation new_MapShardRequest :: MapShardRequest where
  "new_MapShardRequest \<equiv> \<lparr>msq_ShardID = None, msq_Query = None, msq_ChunkSize = None\<rparr>"

abbreviation new_MapShardResponse :: MapShardResponse where
  "new_MapShardResponse \<equiv> \<lparr>msp_Code = None, msp_Message = None, msp_Data = None, msp_TagSets = [], msp_Fields = []\<rparr>"

text \<open>A field that is not set reads as the zero value of its type.\<close>

definition get_or :: "'a \<Rightarrow> 'a option \<Rightarrow> 'a" where
  "get_or z v = (case v of None \<Rightarrow> z | Some x \<Rightarrow> x)"

lemma get_or_simps [simp]: "get_or z None = z" "get_or z (Some x) = x"
  by (simp_all add: get_or_def)

definition MapShardRequest_ShardID :: "MapShardRequest \<Rightarrow> u64" where "MapShardRequest_ShardID m = get_or 0 (msq_ShardID m)"
definition MapShardRequest_Query :: "MapShardRequest \<Rightarrow> string" where "MapShardRequest_Query m = get_or [] (msq_Query m)"
definition MapShardRequest_ChunkSize :: "MapShardRequest \<Rightarrow> int" where "MapShardRequest_ChunkSize m = get_or 0 (msq_ChunkSize m)"

definition MapShardRequest_SetShardID :: "u64 \<Rightarrow> MapShardRequest \<Rightarrow> MapShardRequest" where
  "MapShardRequest_SetShardID i m = m\<lparr>msq_ShardID := Some i\<rparr>"
definition MapShardRequest_SetQuery :: "string \<Rightarrow> MapShardRequest \<Rightarrow> MapShardRequest" where
  "MapShardRequest_SetQuery q m = m\<lparr>msq_Query := Some q\<rparr>"
definition MapShardRequest_SetChunkSize :: "int \<Rightarrow> MapShardRequest \<Rightarrow> MapShardRequest" where
  "MapShardRequest_SetChunkSize n m = m\<lparr>msq_ChunkSize := Some n\<rparr>"

definition MapShardResponse_Code :: "MapShardResponse \<Rightarrow> int" where "MapShardResponse_Code r = get_or 0 (msp_Code r)"
definition MapShardResponse_Message :: "MapShardResponse \<Rightarrow> string" where "MapShardResponse_Message r = get_or [] (msp_Message r)"
definition MapShardResponse_TagSets :: "MapShardResponse \<Rightarrow> string list" where "MapShardResponse_TagSets r = msp_TagSets r"
definition MapShardResponse_Fields :: "MapShardResponse \<Rightarrow> string list" where "MapShardResponse_Fields r = msp_Fields r"
definition MapShardResponse_Data :: "MapShardResponse \<Rightarrow> byte list option" where "MapShardResponse_Data r = msp_Data r"

definition MapShardResponse_SetCode :: "int \<Rightarrow> MapShardResponse \<Rightarrow> MapShardResponse" where
  "MapShardResponse_SetCode c r = r\<lparr>msp_Code := Some (to_int32 c)\<rparr>"
definition MapShardResponse_SetMessage :: "string \<Rightarrow> MapShardResponse \<Rightarrow> MapShardResponse" where
  "MapShardResponse_SetMessage s r = r\<lparr>msp_Message := Some s\<rparr>"
definition MapShardResponse_SetTagSets :: "string list \<Rightarrow> MapShardResponse \<Rightarrow> MapShardResponse" where
  "MapShardResponse_SetTagSets ts r = r\<lparr>msp_TagSets := ts\<rparr>"
definition MapShardResponse_SetFields :: "string list \<Rightarrow> MapShardResponse \<Rightarrow> MapShardResponse" where
  "MapShardResponse_SetFields fs r = r\<lparr>msp_Fields := fs\<rparr>"
definition MapShardResponse_SetData :: "byte list \<Rightarrow> MapShardResponse \<Rightarrow> MapShardResponse" where
  "MapShardResponse_SetData b r = r\<lparr>msp_Data := Some b\<rparr>"

definition NewMapShardResponse :: "int \<Rightarrow> string \<Rightarrow> MapShardResponse" where
  "NewMapShardResponse code message = MapShardResponse_SetMessage message (MapShardResponse_SetCode code new_MapShardResponse)"

definition WriteShardResponse_SetCode :: "int \<Rightarrow> WriteShardResponse \<Rightarrow> WriteShardResponse" where
  "WriteShardResponse_SetCode c w = w\<lparr>wsp_Code := Some (to_int32 c)\<rparr>"
definition WriteShardResponse_SetMessage :: "string \<Rightarrow> WriteShardResponse \<Rightarrow> WriteShardResponse" where
  "WriteShardResponse_SetMessage s w = w\<lparr>wsp_Message := Some s\<rparr>"
definition WriteShardResponse_Code :: "WriteShardResponse \<Rightarrow> int" where "WriteShardResponse_Code w = get_or 0 (wsp_Code w)"
definition WriteShardResponse_Message :: "WriteShardResponse \<Rightarrow> string" where "WriteShardResponse_Message w = get_or [] (wsp_Message w)"

definition WriteShardRequest_SetShardID :: "u64 \<Rightarrow> WriteShardRequest \<Rightarrow> WriteShardRequest" where
  "WriteShardRequest_SetShardID i w = w\<lparr>wsq_ShardID := Some i\<rparr>"
definition WriteShardRequest_ShardID :: "WriteShardRequest \<Rightarrow> u64" where "WriteShardRequest_ShardID w = get_or 0 (wsq_ShardID w)"

section \<open>Points in messages\<close>

definition string_of :: "byte list \<Rightarrow> string" where
  "string_of b = map (\<lambda>x. char_of (unat x)) b"

lemma char_of_byte: "char_of (unat (of_char c :: byte)) = c"
proof -
  have "(of_char c :: byte) = of_nat (of_char c)" by (rule of_nat_of_char [symmetric])
  moreover have "(of_char c :: nat) < 256" by simp
  ultimately have "unat (of_char c :: byte) = of_char c" by (simp only: unat_of_nat) simp
  then show ?thesis by simp
qed

lemma string_of_bytes_of [simp]: "string_of (bytes_of s) = s"
  by (induction s) (simp_all add: string_of_def bytes_of_def char_of_byte)

definition WriteShardRequest_AddPoints :: "point list \<Rightarrow> WriteShardRequest \<Rightarrow> WriteShardRequest" where
  "WriteShardRequest_AddPoints points w = fold (\<lambda>p w. w\<lparr>wsq_Points := wsq_Points w @ [bytes_of (point_String p)]\<rparr>) points w"

definition WriteShardRequest_AddPoint ::
    "(string \<Rightarrow> string) \<Rightarrow> float_lib \<Rightarrow> string \<Rightarrow> field_value \<Rightarrow> time \<Rightarrow> Tags \<Rightarrow> WriteShardRequest \<Rightarrow> WriteShardRequest" where
  "WriteShardRequest_AddPoint spare F name val timestamp tags w =
     (case NewPoint spare F name tags [(''value'', val)] timestamp of
        Inl _ \<Rightarrow> w
      | Inr pt \<Rightarrow> WriteShardRequest_AddPoints [pt] w)"

text \<open>A point that does not parse is a panic, and so is a text without a point.\<close>

datatype cl_panic = PanicParsePoint string | PanicNoPoint | PanicMakeSlice' | PanicNilPointer | PanicIndexOwners

definition unmarshal_point :: "float_lib \<Rightarrow> time \<Rightarrow> byte list \<Rightarrow> cl_panic + point" where
  "unmarshal_point F now p =
     (case ParsePoints F now (of_bytes (string_of p)) of
        Inl e \<Rightarrow> Inl (PanicParsePoint (string_of p))
      | Inr (pts, failed) \<Rightarrow>
          if failed \<noteq> [] then Inl (PanicParsePoint (string_of p))
          else (case pts of [] \<Rightarrow> Inl PanicNoPoint | pt # _ \<Rightarrow> Inr pt))"

fun unmarshal_each :: "float_lib \<Rightarrow> time \<Rightarrow> byte list list \<Rightarrow> cl_panic + point list" where
  "unmarshal_each F now [] = Inr []"
| "unmarshal_each F now (p # ps) =
     (case unmarshal_point F now p of
        Inl e \<Rightarrow> Inl e
      | Inr pt \<Rightarrow> map_sum (\<lambda>e. e) (\<lambda>pts. pt # pts) (unmarshal_each F now ps))"

definition WriteShardRequest_unmarshalPoints :: "float_lib \<Rightarrow> time \<Rightarrow> WriteShardRequest \<Rightarrow> cl_panic + point list" where
  "WriteShardRequest_unmarshalPoints F now w = unmarshal_each F now (wsq_Points w)"

definition WriteShardRequest_Points :: "float_lib \<Rightarrow> time \<Rightarrow> WriteShardRequest \<Rightarrow> cl_panic + point list" where
  "WriteShardRequest_Points F now w = WriteShardRequest_unmarshalPoints F now w"

lemma AddPoints_eq: "WriteShardRequest_AddPoints points w = w\<lparr>wsq_Points := wsq_Points w @ map (\<lambda>p. bytes_of (point_String p)) points\<rparr>"
  unfolding WriteShardRequest_AddPoints_def by (induction points arbitrary: w) simp_all

text \<open>Points that survive printing survive the message.\<close>

lemma unmarshal_printed:
  assumes "list_all2 (\<lambda>x p. printable F x \<and> point_String p = spec_line F x) xs ps"
  shows "\<exists>qs. unmarshal_each F now (map (\<lambda>p. bytes_of (point_String p)) ps) = Inr qs \<and>
    list_all2 (\<lambda>q x. reads_as F q x \<and> gb (point_Key q) = spec_key x) qs xs"
  using assms
proof (induction rule: list_all2_induct)
  case (Cons x xs p ps)
  obtain q where q: "ParsePoints F now (of_bytes (spec_line F x)) = Inr ([q], [])" "reads_as F q x" "gb (point_Key q) = spec_key x"
    using ParsePoints_line [of F x "of_bytes (spec_line F x)" now] Cons.hyps(1) by auto
  then have "unmarshal_point F now (bytes_of (point_String p)) = Inr q"
    using Cons.hyps(1) by (simp add: unmarshal_point_def)
  moreover obtain qs where "unmarshal_each F now (map (\<lambda>p. bytes_of (point_String p)) ps) = Inr qs"
    "list_all2 (\<lambda>q x. reads_as F q x \<and> gb (point_Key q) = spec_key x) qs xs" using Cons.IH by blast
  ultimately show ?case using q by (intro exI [of _ "q # qs"]) simp
qed simp

section \<open>Encoding\<close>

text \<open>
  \<open>proto.Marshal\<close> and \<open>proto.Unmarshal\<close> of the four messages; encoding fails if a required field is not
  set, decoding if the bytes are not an encoding.
\<close>

record codec =
  cd_marshal_wsq :: "WriteShardRequest \<Rightarrow> byte list option"
  cd_unmarshal_wsq :: "byte list \<Rightarrow> WriteShardRequest option"
  cd_marshal_wsp :: "WriteShardResponse \<Rightarrow> byte list option"
  cd_unmarshal_wsp :: "byte list \<Rightarrow> WriteShardResponse option"
  cd_marshal_msq :: "MapShardRequest \<Rightarrow> byte list option"
  cd_unmarshal_msq :: "byte list \<Rightarrow> MapShardRequest option"
  cd_marshal_msp :: "MapShardResponse \<Rightarrow> byte list option"
  cd_unmarshal_msp :: "byte list \<Rightarrow> MapShardResponse option"

text \<open>A message is carried: it is encoded into a record of admissible size and decoded again.\<close>

definition carries :: "('m \<Rightarrow> byte list option) \<Rightarrow> (byte list \<Rightarrow> 'm option) \<Rightarrow> 'm \<Rightarrow> bool" where
  "carries mar unm m \<longleftrightarrow> (case mar m of None \<Rightarrow> False
     | Some b \<Rightarrow> b \<noteq> [] \<and> int (length b) < MaxMessageSize \<and> unm b = Some m)"

lemma carriesE:
  assumes "carries mar unm m"
  obtains b where "mar m = Some b" and "unm b = Some m" and "\<And>typ rest. ReadTLV (WriteTLV typ b @ rest) = Inr (typ, b, rest)"
  using assms ReadTLV_WriteTLV by (auto simp: carries_def split: option.splits)

end
