(* ===== verification/Cluster_Service.thy ===== *)
theory Cluster_Service
  imports Cluster_Rpc "HOL-Library.Sublist"
begin

text \<open>
  Remote shard writes and queries: the service that answers the requests of other nodes
  (\<open>cluster/service.go\<close>), the client that sends them (\<open>cluster/shard_writer.go\<close>,
  \<open>cluster/client_pool.go\<close>) and the remote mapper (\<open>cluster/shard_mapper.go\<close>).  The shard store is the
  interface \<open>TSDBStore\<close> of the service, the record \<open>tsdb\<close> over a state \<open>'w\<close>; log lines, statistics and
  deadlines are left out.
\<close>

section \<open>Interfaces\<close>

text \<open>Errors: the one the code compares with, and others by their text.\<close>

datatype werr = EShardNotFound | EText string

fun err_text :: "werr \<Rightarrow> string" where
  "err_text EShardNotFound = ''shard not found''"
| "err_text (EText s) = s"

definition IsRetryable :: "werr option \<Rightarrow> bool" where
  "IsRetryable err = (case err of None \<Rightarrow> True | Some e \<Rightarrow> \<not> sublist ''field type conflict'' (err_text e))"

text \<open>
  A mapper of a shard: whether it opens, its tag sets and fields, and what the calls of \<open>NextChunk\<close>
  return one after the other, each with its JSON encoding; behind the list there is the nil chunk.
\<close>

datatype chunk = ChunkError werr | ChunkNoJSON werr | ChunkData "byte list"

record mapper =
  mp_Open :: "werr option"
  mp_TagSets :: "string list"
  mp_Fields :: "string list"
  mp_chunks :: "chunk list"

record ('w, 'q) tsdb =
  ts_WriteToShard :: "u64 \<Rightarrow> point list \<Rightarrow> 'w \<Rightarrow> 'w \<times> werr option"
  ts_CreateShard :: "string \<Rightarrow> string \<Rightarrow> u64 \<Rightarrow> 'w \<Rightarrow> 'w \<times> werr option"
  ts_CreateMapper :: "u64 \<Rightarrow> 'q \<Rightarrow> int \<Rightarrow> 'w \<Rightarrow> werr + mapper option"

section \<open>Write requests\<close>

text \<open>
  The body of \<open>processWriteShardRequest\<close> behind the decoding: a shard that the store does not have yet
  is created if the metastore knows it, and the write is dropped otherwise.
\<close>

definition write_or_create :: "('w, 'q) tsdb \<Rightarrow> storeFSM \<Rightarrow> u64 \<Rightarrow> point list \<Rightarrow> 'w \<Rightarrow> 'w \<times> werr option" where
  "write_or_create T ms sid pts w =
     (case ts_WriteToShard T sid pts w of
        (w, Some EShardNotFound) \<Rightarrow>
          (case snd (Store_ShardOwner sid ms) of
             Inr (Some (database, policy, sgi)) \<Rightarrow>
               (case ts_CreateShard T database policy sid w of
                  (w, Some e) \<Rightarrow> (w, Some e)
                | (w, None) \<Rightarrow> ts_WriteToShard T sid pts w)
           | _ \<Rightarrow> (w, None))
      | (w, Some e) \<Rightarrow> (w, Some (EText (''write shard '' @ strconv_FormatInt (uint sid) @ '': '' @ err_text e)))
      | (w, None) \<Rightarrow> (w, None))"

definition Service_processWriteShardRequest ::
    "codec \<Rightarrow> float_lib \<Rightarrow> time \<Rightarrow> ('w, 'q) tsdb \<Rightarrow> storeFSM \<Rightarrow> byte list \<Rightarrow> 'w \<Rightarrow> 'w \<times> (cl_panic + werr option)" where
  "Service_processWriteShardRequest D F now T ms buf w =
     (case cd_unmarshal_wsq D buf of
        None \<Rightarrow> (w, Inr (Some (EText ''unmarshal'')))
      | Some req \<Rightarrow>
          (case WriteShardRequest_Points F now req of
             Inl p \<Rightarrow> (w, Inl p)
           | Inr pts \<Rightarrow> (case write_or_create T ms (WriteShardRequest_ShardID req) pts w of (w, e) \<Rightarrow> (w, Inr e))))"

text \<open>The bytes that go out; an encoding that fails is logged only.\<close>

definition write_response :: "werr option \<Rightarrow> WriteShardResponse" where
  "write_response e =
     (case e of
        Some e \<Rightarrow> WriteShardResponse_SetMessage (err_text e) (WriteShardResponse_SetCode 1 new_WriteShardResponse)
      | None \<Rightarrow> WriteShardResponse_SetCode 0 new_WriteShardResponse)"

definition Service_writeShardResponse :: "codec \<Rightarrow> werr option \<Rightarrow> byte list" where
  "Service_writeShardResponse D e =
     (case cd_marshal_wsp D (write_response e) of
        None \<Rightarrow> []
      | Some buf \<Rightarrow> WriteTLV writeShardResponseMessage buf)"

section \<open>Map requests\<close>

definition writeMapShardResponseMessage :: "codec \<Rightarrow> MapShardResponse \<Rightarrow> werr + byte list" where
  "writeMapShardResponseMessage D msg =
     (case cd_marshal_msp D msg of None \<Rightarrow> Inl (EText ''marshal'') | Some buf \<Rightarrow> Inr (WriteTLV mapShardResponseMessage buf))"

definition map_response :: "mapper \<Rightarrow> bool \<Rightarrow> MapShardResponse" where
  "map_response m metaSent =
     (if \<not> metaSent then MapShardResponse_SetFields (mp_Fields m) (MapShardResponse_SetTagSets (mp_TagSets m) new_MapShardResponse)
      else new_MapShardResponse)"

fun send_chunks :: "codec \<Rightarrow> mapper \<Rightarrow> bool \<Rightarrow> chunk list \<Rightarrow> byte list \<times> werr option" where
  "send_chunks D m metaSent [] =
     (case writeMapShardResponseMessage D (MapShardResponse_SetCode 0 (map_response m metaSent)) of
        Inl e \<Rightarrow> ([], Some e)
      | Inr out \<Rightarrow> (out, None))"
| "send_chunks D m metaSent (ChunkError e # cs) = ([], Some (EText (''next chunk: '' @ err_text e)))"
| "send_chunks D m metaSent (ChunkNoJSON e # cs) = ([], Some (EText (''encoding: '' @ err_text e)))"
| "send_chunks D m metaSent (ChunkData b # cs) =
     (case writeMapShardResponseMessage D (MapShardResponse_SetCode 0 (MapShardResponse_SetData b (map_response m metaSent))) of
        Inl e \<Rightarrow> ([], Some e)
      | Inr out \<Rightarrow> (case send_chunks D m True cs of (out', r) \<Rightarrow> (out @ out', r)))"

text \<open>\<open>parse\<close> is \<open>influxql.ParseQuery\<close>, the list of the statements of a query.\<close>

definition Service_processMapShardRequest ::
    "codec \<Rightarrow> (string \<Rightarrow> werr + 'q list) \<Rightarrow> ('w, 'q) tsdb \<Rightarrow> byte list \<Rightarrow> 'w \<Rightarrow> byte list \<times> werr option" where
  "Service_processMapShardRequest D parse T buf w =
     (case cd_unmarshal_msq D buf of
        None \<Rightarrow> ([], Some (EText ''unmarshal''))
      | Some req \<Rightarrow>
          (case parse (MapShardRequest_Query req) of
             Inl e \<Rightarrow> ([], Some (EText (''processing map shard: '' @ err_text e)))
           | Inr stmts \<Rightarrow>
               if length stmts \<noteq> 1 then ([], Some (EText (''processing map shard: expected 1 statement but got '' @ dec (length stmts))))
               else (case ts_CreateMapper T (MapShardRequest_ShardID req) (hd stmts) (MapShardRequest_ChunkSize req) w of
                  Inl e \<Rightarrow> ([], Some (EText (''create mapper: '' @ err_text e)))
                | Inr None \<Rightarrow>
                    (case writeMapShardResponseMessage D (NewMapShardResponse 0 []) of
                       Inl e \<Rightarrow> ([], Some e)
                     | Inr out \<Rightarrow> (out, None))
                | Inr (Some m) \<Rightarrow>
                    (case mp_Open m of
                       Some e \<Rightarrow> ([], Some (EText (''mapper open: '' @ err_text e)))
                     | None \<Rightarrow> send_chunks D m False (mp_chunks m)))))"

section \<open>Connections\<close>

text \<open>
  The loop of \<open>handleConn\<close> over the bytes of a connection: the state of the store behind it, the bytes that are sent
  back, and the panic that ended it, if any.
\<close>

function Service_handleConn ::
    "codec \<Rightarrow> float_lib \<Rightarrow> time \<Rightarrow> (string \<Rightarrow> werr + 'q list) \<Rightarrow> ('w, 'q) tsdb \<Rightarrow> storeFSM \<Rightarrow> byte list \<Rightarrow> 'w \<Rightarrow>
      'w \<times> byte list \<times> cl_panic option" where
  "Service_handleConn D F now parse T ms r w =
     (case ReadTLV r of
        Inl e \<Rightarrow> (w, [], if e = TlvPanicMakeSlice then Some PanicMakeSlice' else None)
      | Inr (typ, buf, rest) \<Rightarrow>
          if typ = writeShardRequestMessage then
            (case Service_processWriteShardRequest D F now T ms buf w of
               (w, Inl p) \<Rightarrow> (w, [], Some p)
             | (w, Inr err) \<Rightarrow>
                 (case Service_handleConn D F now parse T ms rest w of
                    (w, out, p) \<Rightarrow> (w, Service_writeShardResponse D err @ out, p)))
          else if typ = mapShardRequestMessage then
            (case Service_processMapShardRequest D parse T buf w of
               (sent, err) \<Rightarrow>
                 let answer = (case err of
                        None \<Rightarrow> []
                      | Some e \<Rightarrow> (case writeMapShardResponseMessage D (NewMapShardResponse 1 (err_text e)) of Inl _ \<Rightarrow> [] | Inr out \<Rightarrow> out))
                 in (case Service_handleConn D F now parse T ms rest w of
                       (w, out, p) \<Rightarrow> (w, sent @ answer @ out, p)))
          else Service_handleConn D F now parse T ms rest w)"
  by pat_completeness auto
termination
  by (relation "measure (\<lambda>(D, F, now, parse, T, ms, r, w). length r)") (auto dest: ReadTLV_less)

declare Service_handleConn.simps [simp del]

section \<open>Clients\<close>

text \<open>
  The pool of connections per node.  The pool library is a parameter: the number of idle connections
  of a pool, and taking one from it.
\<close>

record 'p clientPool =
  cp_pool :: "(u64 \<times> 'p) list"

definition newClientPool :: "'p clientPool" where
  "newClientPool = \<lparr>cp_pool = []\<rparr>"

definition clientPool_setPool :: "u64 \<Rightarrow> 'p \<Rightarrow> 'p clientPool \<Rightarrow> 'p clientPool" where
  "clientPool_setPool nodeID p c = c\<lparr>cp_pool := AList.update nodeID p (cp_pool c)\<rparr>"

definition clientPool_getPool :: "u64 \<Rightarrow> 'p clientPool \<Rightarrow> 'p option" where
  "clientPool_getPool nodeID c = map_of (cp_pool c) nodeID"

definition clientPool_size :: "('p \<Rightarrow> nat) \<Rightarrow> 'p clientPool \<Rightarrow> nat" where
  "clientPool_size len c = sum_list (map (\<lambda>(_, p). len p) (cp_pool c))"

definition clientPool_conn :: "('p \<Rightarrow> werr + 'c) \<Rightarrow> u64 \<Rightarrow> 'p clientPool \<Rightarrow> cl_panic + (werr + 'c)" where
  "clientPool_conn get nodeID c =
     (case map_of (cp_pool c) nodeID of None \<Rightarrow> Inl PanicNilPointer | Some p \<Rightarrow> Inr (get p))"

definition maxConnections :: nat where
  "maxConnections = 500"

text \<open>\<open>net\<close> dials a host and writes the marker byte.\<close>

definition connFactory_dial :: "('p \<Rightarrow> nat) \<Rightarrow> storeFSM \<Rightarrow> (string \<Rightarrow> werr + 'c) \<Rightarrow> u64 \<Rightarrow> 'p clientPool \<Rightarrow> werr + 'c" where
  "connFactory_dial len ms net nodeID c =
     (if clientPool_size len c > maxConnections then Inl (EText ''can not exceed max connections of 500'')
      else case snd (Store_Node nodeID ms) of
        Inl e \<Rightarrow> Inl (EText ''metastore'')
      | Inr None \<Rightarrow> Inl (EText (''node '' @ strconv_FormatInt (uint nodeID) @ '' does not exist''))
      | Inr (Some ni) \<Rightarrow> net (ni_Host ni))"

text \<open>\<open>create\<close> makes a new pool from a factory, as \<open>pool.NewChannelPool(1, 3, factory.dial)\<close>.\<close>

definition ShardWriter_dial ::
    "('p \<Rightarrow> nat) \<Rightarrow> ('p \<Rightarrow> werr + 'c) \<Rightarrow> ((werr + 'c) \<Rightarrow> werr + 'p) \<Rightarrow> storeFSM \<Rightarrow> (string \<Rightarrow> werr + 'c) \<Rightarrow> u64 \<Rightarrow> 'p clientPool \<Rightarrow>
      'p clientPool \<times> (cl_panic + (werr + 'c))" where
  "ShardWriter_dial len get create ms net nodeID c =
     (case clientPool_getPool nodeID c of
        Some _ \<Rightarrow> (c, clientPool_conn get nodeID c)
      | None \<Rightarrow>
          (case create (connFactory_dial len ms net nodeID c) of
             Inl e \<Rightarrow> (c, Inr (Inl e))
           | Inr p \<Rightarrow> let c = clientPool_setPool nodeID p c in (c, clientPool_conn get nodeID c)))"

text \<open>A connection: whether bytes can be written to it, and the bytes that come back for them.\<close>

record conn =
  cn_write :: "byte list \<Rightarrow> werr option"
  cn_reply :: "byte list \<Rightarrow> byte list"

definition ShardWriter_WriteShard ::
    "codec \<Rightarrow> (cl_panic + (werr + conn)) \<Rightarrow> u64 \<Rightarrow> point list \<Rightarrow> cl_panic + werr option" where
  "ShardWriter_WriteShard D dialed shardID points =
     (case dialed of
        Inl p \<Rightarrow> Inl p
      | Inr (Inl e) \<Rightarrow> Inr (Some e)
      | Inr (Inr c) \<Rightarrow>
          let request = WriteShardRequest_AddPoints points (WriteShardRequest_SetShardID shardID new_WriteShardRequest) in
          (case cd_marshal_wsq D request of
             None \<Rightarrow> Inr (Some (EText ''marshal''))
           | Some buf \<Rightarrow>
               let msg = WriteTLV writeShardRequestMessage buf in
               (case cn_write c msg of
                  Some e \<Rightarrow> Inr (Some e)
                | None \<Rightarrow>
                    (case ReadTLV (cn_reply c msg) of
                       Inl e \<Rightarrow> if e = TlvPanicMakeSlice then Inl PanicMakeSlice' else Inr (Some (EText ''read''))
                     | Inr (_, buf, _) \<Rightarrow>
                         (case cd_unmarshal_wsp D buf of
                            None \<Rightarrow> Inr (Some (EText ''unmarshal''))
                          | Some response \<Rightarrow>
                              if WriteShardResponse_Code response \<noteq> 0
                              then Inr (Some (EText (''error code '' @ strconv_FormatInt (WriteShardResponse_Code response) @ '': '' @
                                     WriteShardResponse_Message response)))
                              else Inr None)))))"

section \<open>A write over a connection\<close>

text \<open>A connection to a node that answers from its state \<open>w\<close>.\<close>

definition peer :: "codec \<Rightarrow> float_lib \<Rightarrow> time \<Rightarrow> (string \<Rightarrow> werr + 'q list) \<Rightarrow> ('w, 'q) tsdb \<Rightarrow> storeFSM \<Rightarrow> 'w \<Rightarrow> conn" where
  "peer D F now parse T ms w =
     \<lparr>cn_write = (\<lambda>_. None), cn_reply = (\<lambda>msg. fst (snd (Service_handleConn D F now parse T ms msg w)))\<rparr>"

definition write_request :: "u64 \<Rightarrow> point list \<Rightarrow> WriteShardRequest" where
  "write_request sid ps = WriteShardRequest_AddPoints ps (WriteShardRequest_SetShardID sid new_WriteShardRequest)"

text \<open>The bytes that go over the connection for a write.\<close>

definition write_message :: "codec \<Rightarrow> u64 \<Rightarrow> point list \<Rightarrow> byte list" where
  "write_message D sid ps = WriteTLV writeShardRequestMessage (the (cd_marshal_wsq D (write_request sid ps)))"

lemma handleConn_end: "Service_handleConn D F now parse T ms [] w = (w, [], None)"
  by (subst Service_handleConn.simps) (simp add: ReadTLV_def)

lemma handleConn_write:
  assumes "carries (cd_marshal_wsq D) (cd_unmarshal_wsq D) req" and "cd_marshal_wsq D req = Some buf"
    and "WriteShardRequest_Points F now req = Inr qs"
    and "write_or_create T ms (WriteShardRequest_ShardID req) qs w = (w', e)"
  shows "Service_handleConn D F now parse T ms (WriteTLV writeShardRequestMessage buf) w =
    (w', Service_writeShardResponse D e, None)"
proof -
  have r: "ReadTLV (WriteTLV writeShardRequestMessage buf) = Inr (writeShardRequestMessage, buf, [])" and u: "cd_unmarshal_wsq D buf = Some req"
    using assms(1,2) ReadTLV_WriteTLV [of buf writeShardRequestMessage "[]"] by (simp_all add: carries_def)
  have "Service_processWriteShardRequest D F now T ms buf w = (w', Inr e)"
    using u assms(3,4) by (simp add: Service_processWriteShardRequest_def)
  with r show ?thesis by (subst Service_handleConn.simps) (simp add: handleConn_end)
qed

lemma dec_1: "strconv_FormatInt 1 = ''1''"
  by code_simp

lemma write_over_connection:
  assumes "carries (cd_marshal_wsq D) (cd_unmarshal_wsq D) (write_request sid ps)"
    and car: "carries (cd_marshal_wsp D) (cd_unmarshal_wsp D) (write_response e)"
    and "WriteShardRequest_Points F now (write_request sid ps) = Inr qs"
    and "write_or_create T ms sid qs w = (w', e)"
  shows "ShardWriter_WriteShard D (Inr (Inr (peer D F now parse T ms w))) sid ps =
      Inr (map_option (\<lambda>e. EText (''error code 1: '' @ err_text e)) e)"
    and "\<exists>out. Service_handleConn D F now parse T ms (write_message D sid ps) w = (w', out, None)"
proof -
  obtain buf where buf: "cd_marshal_wsq D (write_request sid ps) = Some buf" using assms(1) by (auto elim: carriesE)
  have sid: "WriteShardRequest_ShardID (write_request sid ps) = sid"
    by (simp add: write_request_def AddPoints_eq WriteShardRequest_ShardID_def WriteShardRequest_SetShardID_def)
  have h: "Service_handleConn D F now parse T ms (WriteTLV writeShardRequestMessage buf) w = (w', Service_writeShardResponse D e, None)"
    using handleConn_write [OF assms(1) buf assms(3)] assms(4) by (simp add: sid)
  then show "\<exists>out. Service_handleConn D F now parse T ms (write_message D sid ps) w = (w', out, None)"
    using buf by (simp add: write_message_def)
  obtain b where b: "cd_marshal_wsp D (write_response e) = Some b" "cd_unmarshal_wsp D b = Some (write_response e)"
      "\<And>typ rest. ReadTLV (WriteTLV typ b @ rest) = Inr (typ, b, rest)"
    using carriesE [OF car] by metis
  have "ReadTLV (Service_writeShardResponse D e) = Inr (writeShardResponseMessage, b, [])"
    using b(1) b(3) [of writeShardResponseMessage "[]"] by (simp add: Service_writeShardResponse_def)
  then show "ShardWriter_WriteShard D (Inr (Inr (peer D F now parse T ms w))) sid ps =
      Inr (map_option (\<lambda>e. EText (''error code 1: '' @ err_text e)) e)"
    using buf h b(2)
    by (cases e) (simp_all add: ShardWriter_WriteShard_def peer_def flip: write_request_def,
      simp_all add: write_response_def WriteShardResponse_Code_def WriteShardResponse_Message_def WriteShardResponse_SetCode_def
        WriteShardResponse_SetMessage_def to_int32_def dec_1)
qed

end
