(* ===== verification/Cluster_Mapper.thy ===== *)
theory Cluster_Mapper
  imports Cluster_Service
begin

text \<open>
  Mappers of remote shards (\<open>cluster/shard_mapper.go\<close>): a query of a shard that another node owns runs on
  that node, and its tag sets, fields and chunks come back over the connection.  The decoding of a
  chunk from JSON and the set-up of the decoders for the functions of the query are parameters.
\<close>

section \<open>The remote mapper\<close>

record RemoteMapper =
  rm_shardID :: u64
  rm_query :: string
  rm_chunkSize :: int
  rm_tagsets :: "string list"
  rm_fields :: "string list"
  rm_in :: "byte list"
  rm_bufferedResponse :: "MapShardResponse option"

definition NewRemoteMapper :: "u64 \<Rightarrow> string \<Rightarrow> int \<Rightarrow> RemoteMapper" where
  "NewRemoteMapper shardID stmt chunkSize = \<lparr>rm_shardID = shardID, rm_query = stmt, rm_chunkSize = chunkSize, rm_tagsets = [],
     rm_fields = [], rm_in = [], rm_bufferedResponse = None\<rparr>"

text \<open>Reading a response: the next record of the connection, decoded, with its code looked at.\<close>

definition response_error :: "MapShardResponse \<Rightarrow> werr option" where
  "response_error r =
     (if MapShardResponse_Code r \<noteq> 0
      then Some (EText (''error code '' @ strconv_FormatInt (MapShardResponse_Code r) @ '': '' @ MapShardResponse_Message r)) else None)"

definition read_response :: "codec \<Rightarrow> byte list \<Rightarrow> cl_panic + (werr + MapShardResponse \<times> byte list)" where
  "read_response D input =
     (case ReadTLV input of
        Inl e \<Rightarrow> if e = TlvPanicMakeSlice then Inl PanicMakeSlice' else Inr (Inl (EText ''read''))
      | Inr (_, buf, rest) \<Rightarrow>
          (case cd_unmarshal_msp D buf of
             None \<Rightarrow> Inr (Inl (EText ''unmarshal''))
           | Some r \<Rightarrow> (case response_error r of Some e \<Rightarrow> Inr (Inl e) | None \<Rightarrow> Inr (Inr (r, rest)))))"

definition map_request :: "RemoteMapper \<Rightarrow> MapShardRequest" where
  "map_request r = MapShardRequest_SetChunkSize (to_int32 (rm_chunkSize r))
     (MapShardRequest_SetQuery (rm_query r) (MapShardRequest_SetShardID (rm_shardID r) new_MapShardRequest))"

text \<open>\<open>Open\<close>; \<open>unmarshallers\<close> is the error of setting up the decoders of the statement, if any.\<close>

definition RemoteMapper_Open :: "codec \<Rightarrow> conn \<Rightarrow> werr option \<Rightarrow> RemoteMapper \<Rightarrow> RemoteMapper \<times> (cl_panic + werr option)" where
  "RemoteMapper_Open D c unmarshallers r =
     (case cd_marshal_msq D (map_request r) of
        None \<Rightarrow> (r, Inr (Some (EText ''marshal'')))
      | Some buf \<Rightarrow>
          let msg = WriteTLV mapShardRequestMessage buf in
          (case cn_write c msg of
             Some e \<Rightarrow> (r, Inr (Some e))
           | None \<Rightarrow>
               (case read_response D (cn_reply c msg) of
                  Inl p \<Rightarrow> (r, Inl p)
                | Inr (Inl e) \<Rightarrow> (r, Inr (Some e))
                | Inr (Inr (resp, rest)) \<Rightarrow>
                    (r\<lparr>rm_in := rest, rm_bufferedResponse := Some resp, rm_tagsets := MapShardResponse_TagSets resp,
                       rm_fields := MapShardResponse_Fields resp\<rparr>, Inr unmarshallers))))"

definition RemoteMapper_TagSets :: "RemoteMapper \<Rightarrow> string list" where
  "RemoteMapper_TagSets r = rm_tagsets r"

definition RemoteMapper_Fields :: "RemoteMapper \<Rightarrow> string list" where
  "RemoteMapper_Fields r = rm_fields r"

text \<open>\<open>decode\<close> turns the data of a response into the output of a mapper.\<close>

definition decode_response :: "(byte list \<Rightarrow> werr + 'o) \<Rightarrow> MapShardResponse \<Rightarrow> werr + 'o option" where
  "decode_response decode resp =
     (case MapShardResponse_Data resp of None \<Rightarrow> Inr None | Some b \<Rightarrow> map_sum (\<lambda>e. e) Some (decode b))"

definition RemoteMapper_NextChunk ::
    "codec \<Rightarrow> (byte list \<Rightarrow> werr + 'o) \<Rightarrow> RemoteMapper \<Rightarrow> RemoteMapper \<times> (cl_panic + (werr + 'o option))" where
  "RemoteMapper_NextChunk D decode r =
     (case rm_bufferedResponse r of
        Some resp \<Rightarrow> (r\<lparr>rm_bufferedResponse := None\<rparr>, Inr (decode_response decode resp))
      | None \<Rightarrow>
          (case read_response D (rm_in r) of
             Inl p \<Rightarrow> (r, Inl p)
           | Inr (Inl e) \<Rightarrow> (r, Inr (Inl e))
           | Inr (Inr (resp, rest)) \<Rightarrow> (r\<lparr>rm_in := rest\<rparr>, Inr (decode_response decode resp))))"

section \<open>Choosing a mapper\<close>

text \<open>
  \<open>CreateMapper\<close>: the local store if this node owns the shard, else a connection to one of the owners,
  the one \<open>rand.Intn\<close> picks.  The metastore returns no node and no error for an unknown
  node, which \<open>dial\<close> does not look at.
\<close>

definition ShardMapper_dial :: "storeFSM \<Rightarrow> (string \<Rightarrow> werr + conn) \<Rightarrow> u64 \<Rightarrow> cl_panic + (werr + conn)" where
  "ShardMapper_dial ms net nodeID =
     (case snd (Store_Node nodeID ms) of
        Inl e \<Rightarrow> Inr (Inl (EText ''metastore''))
      | Inr None \<Rightarrow> Inl PanicNilPointer
      | Inr (Some ni) \<Rightarrow> Inr (net (ni_Host ni)))"

datatype a_mapper = LocalMapper "mapper option" | Remote conn RemoteMapper

definition ShardMapper_CreateMapper ::
    "bool \<Rightarrow> ('w, 'q) tsdb \<Rightarrow> storeFSM \<Rightarrow> (string \<Rightarrow> werr + conn) \<Rightarrow> ('q \<Rightarrow> string) \<Rightarrow> (nat \<Rightarrow> nat) \<Rightarrow> ShardInfo \<Rightarrow> 'q \<Rightarrow> int \<Rightarrow> 'w \<Rightarrow>
      cl_panic + (werr + a_mapper)" where
  "ShardMapper_CreateMapper force T ms net str rnd sh stmt chunkSize w =
     (if \<not> ShardInfo_OwnedBy sh (fsm_id ms) \<or> force then
        if si_Owners sh = [] then Inl PanicIndexOwners
        else (case ShardMapper_dial ms net (so_NodeID (si_Owners sh ! rnd (length (si_Owners sh)))) of
           Inl p \<Rightarrow> Inl p
         | Inr (Inl e) \<Rightarrow> Inr (Inl e)
         | Inr (Inr c) \<Rightarrow> Inr (Inr (Remote c (NewRemoteMapper (si_ID sh) (str stmt) chunkSize))))
      else (case ts_CreateMapper T (si_ID sh) stmt chunkSize w of
         Inl e \<Rightarrow> Inr (Inl e)
       | Inr m \<Rightarrow> Inr (Inr (LocalMapper m))))"

section \<open>A query over a connection\<close>

text \<open>The responses the service sends for a mapper with the given chunks of data.\<close>

fun map_responses :: "mapper \<Rightarrow> bool \<Rightarrow> byte list list \<Rightarrow> MapShardResponse list" where
  "map_responses m metaSent [] = [MapShardResponse_SetCode 0 (map_response m metaSent)]"
| "map_responses m metaSent (b # bs) =
     MapShardResponse_SetCode 0 (MapShardResponse_SetData b (map_response m metaSent)) # map_responses m True bs"

definition carries_all :: "codec \<Rightarrow> MapShardResponse list \<Rightarrow> bool" where
  "carries_all D rs \<longleftrightarrow> list_all (carries (cd_marshal_msp D) (cd_unmarshal_msp D)) rs"

lemma msp_simps [simp]:
  "MapShardResponse_Code (MapShardResponse_SetCode 0 r) = 0"
  "MapShardResponse_Data (MapShardResponse_SetCode c r) = MapShardResponse_Data r"
  "MapShardResponse_Data (MapShardResponse_SetData b r) = Some b"
  "MapShardResponse_Data (map_response m s) = None"
  "MapShardResponse_TagSets (MapShardResponse_SetCode c r) = MapShardResponse_TagSets r"
  "MapShardResponse_TagSets (MapShardResponse_SetData b r) = MapShardResponse_TagSets r"
  "MapShardResponse_Fields (MapShardResponse_SetCode c r) = MapShardResponse_Fields r"
  "MapShardResponse_Fields (MapShardResponse_SetData b r) = MapShardResponse_Fields r"
  "MapShardResponse_TagSets (map_response m False) = mp_TagSets m"
  "MapShardResponse_Fields (map_response m False) = mp_Fields m"
  by (simp_all add: MapShardResponse_Code_def MapShardResponse_SetCode_def MapShardResponse_Data_def MapShardResponse_SetData_def
    MapShardResponse_TagSets_def MapShardResponse_Fields_def map_response_def MapShardResponse_SetTagSets_def
    MapShardResponse_SetFields_def to_int32_def)

lemma read_response_sent:
  assumes "carries (cd_marshal_msp D) (cd_unmarshal_msp D) r" and "MapShardResponse_Code r = 0"
  obtains b where "writeMapShardResponseMessage D r = Inr b" and "\<And>rest. read_response D (b @ rest) = Inr (Inr (r, rest))"
proof -
  obtain b where b: "cd_marshal_msp D r = Some b" "cd_unmarshal_msp D b = Some r" "\<And>typ rest. ReadTLV (WriteTLV typ b @ rest) = Inr (typ, b, rest)"
    using carriesE [OF assms(1)] by metis
  show thesis
    by (rule that [of "WriteTLV mapShardResponseMessage b"])
      (simp_all add: writeMapShardResponseMessage_def read_response_def response_error_def b assms(2))
qed

text \<open>What a reader of the sent bytes gets: the responses, one after the other.\<close>

fun reads_back :: "codec \<Rightarrow> byte list \<Rightarrow> MapShardResponse list \<Rightarrow> byte list \<Rightarrow> bool" where
  "reads_back D input [] rest = (input = rest)"
| "reads_back D input (r # rs) rest = (\<exists>input'. read_response D input = Inr (Inr (r, input')) \<and> reads_back D input' rs rest)"

lemma send_chunks_read:
  assumes "carries_all D (map_responses m s bs)"
  shows "\<exists>out. send_chunks D m s (map ChunkData bs) = (out, None) \<and> (\<forall>rest. reads_back D (out @ rest) (map_responses m s bs) rest)"
  using assms
proof (induction bs arbitrary: s)
  case Nil
  then obtain b where b: "writeMapShardResponseMessage D (MapShardResponse_SetCode 0 (map_response m s)) = Inr b"
      "\<And>rest. read_response D (b @ rest) = Inr (Inr (MapShardResponse_SetCode 0 (map_response m s), rest))"
    using read_response_sent [of D "MapShardResponse_SetCode 0 (map_response m s)"] by (auto simp: carries_all_def)
  then show ?case by simp
next
  case (Cons c bs)
  let ?r = "MapShardResponse_SetCode 0 (MapShardResponse_SetData c (map_response m s))"
  obtain b where b: "writeMapShardResponseMessage D ?r = Inr b" "\<And>rest. read_response D (b @ rest) = Inr (Inr (?r, rest))"
    using read_response_sent [of D ?r] Cons.prems by (auto simp: carries_all_def)
  obtain out where "send_chunks D m True (map ChunkData bs) = (out, None)" "\<forall>rest. reads_back D (out @ rest) (map_responses m True bs) rest"
    using Cons by (auto simp: carries_all_def)
  with b show ?case by simp
qed

text \<open>The results of calling \<open>NextChunk\<close> again and again.\<close>

fun next_chunks :: "codec \<Rightarrow> (byte list \<Rightarrow> werr + 'o) \<Rightarrow> nat \<Rightarrow> RemoteMapper \<Rightarrow> (cl_panic + (werr + 'o option)) list" where
  "next_chunks D decode 0 r = []"
| "next_chunks D decode (Suc n) r = (case RemoteMapper_NextChunk D decode r of (r, c) \<Rightarrow> c # next_chunks D decode n r)"

lemma next_chunks_read:
  assumes "reads_back D (rm_in r) rs rest" and "rm_bufferedResponse r = None"
  shows "next_chunks D decode (length rs) r = map (\<lambda>resp. Inr (decode_response decode resp)) rs"
  using assms
proof (induction rs arbitrary: r)
  case (Cons resp rs)
  then obtain input where i: "read_response D (rm_in r) = Inr (Inr (resp, input))" "reads_back D input rs rest" by auto
  have "next_chunks D decode (length rs) (r\<lparr>rm_in := input\<rparr>) = map (\<lambda>resp. Inr (decode_response decode resp)) rs"
    using Cons.prems i(2) by (intro Cons.IH) simp_all
  with i(1) Cons.prems(2) show ?case by (simp add: RemoteMapper_NextChunk_def)
qed simp

lemma length_map_responses: "length (map_responses m s bs) = Suc (length bs)"
  by (induction bs arbitrary: s) simp_all

lemma decode_responses:
  "map (decode_response decode) (map_responses m s bs) = map (\<lambda>b. map_sum (\<lambda>e. e) Some (decode b)) bs @ [Inr None]"
  by (induction bs arbitrary: s) (simp_all add: decode_response_def)

lemma map_responses_first:
  "\<exists>r rs. map_responses m False bs = r # rs \<and> MapShardResponse_TagSets r = mp_TagSets m \<and> MapShardResponse_Fields r = mp_Fields m"
  by (cases bs) simp_all

lemma handleConn_map:
  assumes "carries (cd_marshal_msq D) (cd_unmarshal_msq D) req" and "cd_marshal_msq D req = Some buf"
    and "parse (MapShardRequest_Query req) = Inr [stmt]"
    and "ts_CreateMapper T (MapShardRequest_ShardID req) stmt (MapShardRequest_ChunkSize req) w = Inr (Some m)"
    and "mp_Open m = None" and "mp_chunks m = map ChunkData bs" and "send_chunks D m False (map ChunkData bs) = (out, None)"
  shows "Service_handleConn D F now parse T ms (WriteTLV mapShardRequestMessage buf) w = (w, out, None)"
proof -
  have r: "ReadTLV (WriteTLV mapShardRequestMessage buf) = Inr (mapShardRequestMessage, buf, [])" and u: "cd_unmarshal_msq D buf = Some req"
    using assms(1,2) ReadTLV_WriteTLV [of buf mapShardRequestMessage "[]"] by (simp_all add: carries_def)
  have "Service_processMapShardRequest D parse T buf w = (out, None)"
    using u assms(3-) by (simp add: Service_processMapShardRequest_def)
  with r show ?thesis
    by (subst Service_handleConn.simps) (simp add: handleConn_end mapShardRequestMessage_def writeShardRequestMessage_def)
qed

end
