(* ===== verification/Cluster_Writer.thy ===== *)
theory Cluster_Writer
  imports Cluster_Service
begin

text \<open>
  Writing the points of one shard to its owners (\<open>writeToShard\<close> in \<open>cluster/points_writer.go\<close>).  One goroutine per
  owner writes to the local store, or to the remote node with the hinted handoff behind it, and sends its
  result to a channel; the caller collects results until the consistency level is met, or until the
  writer is closed or the timeout fires.  The stores behind the interfaces are a state \<open>'w\<close>; statistics and log lines are left out.
\<close>

section \<open>Consistency levels\<close>

datatype ConsistencyLevel = ConsistencyLevelAny | ConsistencyLevelOne | ConsistencyLevelQuorum | ConsistencyLevelAll

definition ParseConsistencyLevel :: "string \<Rightarrow> ConsistencyLevel option" where
  "ParseConsistencyLevel level =
     (let l = map to_lower level in
      if l = ''any'' then Some ConsistencyLevelAny
      else if l = ''one'' then Some ConsistencyLevelOne
      else if l = ''quorum'' then Some ConsistencyLevelQuorum
      else if l = ''all'' then Some ConsistencyLevelAll
      else None)"

fun required_acks :: "ConsistencyLevel \<Rightarrow> nat \<Rightarrow> nat" where
  "required_acks ConsistencyLevelAny n = 1"
| "required_acks ConsistencyLevelOne n = 1"
| "required_acks ConsistencyLevelQuorum n = n div 2 + 1"
| "required_acks ConsistencyLevelAll n = n"

section \<open>One owner\<close>

record 'w writers =
  wr_NodeID :: u64
  wr_WriteToShard :: "u64 \<Rightarrow> point list \<Rightarrow> 'w \<Rightarrow> 'w \<times> werr option"
  wr_CreateShard :: "string \<Rightarrow> string \<Rightarrow> u64 \<Rightarrow> 'w \<Rightarrow> 'w \<times> werr option"
  wr_WriteShard :: "u64 \<Rightarrow> u64 \<Rightarrow> point list \<Rightarrow> 'w \<Rightarrow> 'w \<times> werr option"
  wr_HintedHandoff :: "u64 \<Rightarrow> u64 \<Rightarrow> point list \<Rightarrow> 'w \<Rightarrow> 'w \<times> werr option"

definition local_write :: "'w writers \<Rightarrow> string \<Rightarrow> string \<Rightarrow> u64 \<Rightarrow> point list \<Rightarrow> 'w \<Rightarrow> 'w \<times> werr option" where
  "local_write W database policy sid pts w =
     (case wr_WriteToShard W sid pts w of
        (w, Some EShardNotFound) \<Rightarrow>
          (case wr_CreateShard W database policy sid w of
             (w, Some e) \<Rightarrow> (w, Some e)
           | (w, None) \<Rightarrow> wr_WriteToShard W sid pts w)
      | (w, r) \<Rightarrow> (w, r))"

definition remote_write :: "'w writers \<Rightarrow> ConsistencyLevel \<Rightarrow> u64 \<Rightarrow> u64 \<Rightarrow> point list \<Rightarrow> 'w \<Rightarrow> 'w \<times> werr option" where
  "remote_write W level sid node pts w =
     (case wr_WriteShard W sid node pts w of
        (w, err) \<Rightarrow>
          if err \<noteq> None \<and> IsRetryable err then
            (case wr_HintedHandoff W sid node pts w of
               (w, hherr) \<Rightarrow> if hherr = None \<and> level = ConsistencyLevelAny then (w, None) else (w, err))
          else (w, err))"

definition owner_write ::
    "'w writers \<Rightarrow> string \<Rightarrow> string \<Rightarrow> ConsistencyLevel \<Rightarrow> u64 \<Rightarrow> point list \<Rightarrow> ShardOwner \<Rightarrow> 'w \<Rightarrow> 'w \<times> werr option" where
  "owner_write W database policy level sid pts ow w =
     (if wr_NodeID W = so_NodeID ow then local_write W database policy sid pts w
      else remote_write W level sid (so_NodeID ow) pts w)"

section \<open>The goroutines and the collector\<close>

datatype shard_outcome = WriteOK | WriteFailed | WriteTimedOut | WritePartial | WriteFailedWith werr

text \<open>
  The owners whose goroutine has not sent its result, the channel, what is left of the collecting loop, and the
  outcome once the call has returned.  \<open>ws_log\<close> is history: all results in the order they were sent.
\<close>

record 'w wstate =
  ws_world :: 'w
  ws_running :: "ShardOwner list"
  ws_chan :: "(ShardOwner \<times> werr option) list"
  ws_left :: nat
  ws_wrote :: nat
  ws_err :: "werr option"
  ws_outcome :: "shard_outcome option"
  ws_log :: "(ShardOwner \<times> werr option) list"

definition ws_start :: "ShardOwner list \<Rightarrow> 'w \<Rightarrow> 'w wstate" where
  "ws_start owners w = \<lparr>ws_world = w, ws_running = owners, ws_chan = [], ws_left = length owners, ws_wrote = 0, ws_err = None,
     ws_outcome = None, ws_log = []\<rparr>"

text \<open>One result taken from the channel.\<close>

definition ws_collect :: "nat \<Rightarrow> werr option \<Rightarrow> 'w wstate \<Rightarrow> 'w wstate" where
  "ws_collect req r s =
     (case r of
        Some e \<Rightarrow> s\<lparr>ws_err := (if ws_err s = None then Some e else ws_err s), ws_left := ws_left s - 1\<rparr>
      | None \<Rightarrow>
          let s = s\<lparr>ws_wrote := ws_wrote s + 1\<rparr> in
          if ws_wrote s \<ge> req then s\<lparr>ws_outcome := Some WriteOK\<rparr> else s\<lparr>ws_left := ws_left s - 1\<rparr>)"

text \<open>Behind the loop.\<close>

definition ws_final :: "'w wstate \<Rightarrow> shard_outcome" where
  "ws_final s = (if ws_wrote s > 0 then WritePartial else case ws_err s of Some e \<Rightarrow> WriteFailedWith e | None \<Rightarrow> WriteFailed)"

inductive shard_step :: "(ShardOwner \<Rightarrow> 'w \<Rightarrow> 'w \<times> werr option) \<Rightarrow> nat \<Rightarrow> 'w wstate \<Rightarrow> 'w wstate \<Rightarrow> bool"
  for wr :: "ShardOwner \<Rightarrow> 'w \<Rightarrow> 'w \<times> werr option" and req :: nat where
  owner_done: "ws_running s = xs @ ow # ys \<Longrightarrow> wr ow (ws_world s) = (w, r) \<Longrightarrow>
    shard_step wr req s (s\<lparr>ws_world := w, ws_running := xs @ ys, ws_chan := ws_chan s @ [(ow, r)], ws_log := ws_log s @ [(ow, r)]\<rparr>)"
| received: "ws_outcome s = None \<Longrightarrow> 0 < ws_left s \<Longrightarrow> ws_chan s = (ow, r) # rest \<Longrightarrow>
    shard_step wr req s (ws_collect req r (s\<lparr>ws_chan := rest\<rparr>))"
| loop_end: "ws_outcome s = None \<Longrightarrow> ws_left s = 0 \<Longrightarrow> shard_step wr req s (s\<lparr>ws_outcome := Some (ws_final s)\<rparr>)"

text \<open>The environment: the writer is closed, or the timeout fires, while results are awaited.\<close>

inductive shard_interrupt :: "'w wstate \<Rightarrow> 'w wstate \<Rightarrow> bool" where
  closing: "ws_outcome s = None \<Longrightarrow> 0 < ws_left s \<Longrightarrow> shard_interrupt s (s\<lparr>ws_outcome := Some WriteFailed\<rparr>)"
| timed_out: "ws_outcome s = None \<Longrightarrow> 0 < ws_left s \<Longrightarrow> shard_interrupt s (s\<lparr>ws_outcome := Some WriteTimedOut\<rparr>)"

definition shard_reach :: "(ShardOwner \<Rightarrow> 'w \<Rightarrow> 'w \<times> werr option) \<Rightarrow> nat \<Rightarrow> 'w wstate \<Rightarrow> 'w wstate \<Rightarrow> bool" where
  "shard_reach wr req = (\<lambda>s s'. shard_step wr req s s' \<or> shard_interrupt s s')\<^sup>*\<^sup>*"

definition writeToShard_reaches ::
    "'w writers \<Rightarrow> ShardInfo \<Rightarrow> string \<Rightarrow> string \<Rightarrow> ConsistencyLevel \<Rightarrow> point list \<Rightarrow> 'w \<Rightarrow> 'w wstate \<Rightarrow> bool" where
  "writeToShard_reaches W shard database policy level pts w =
     shard_reach (owner_write W database policy level (si_ID shard) pts) (required_acks level (length (si_Owners shard)))
       (ws_start (si_Owners shard) w)"

section \<open>The invariant\<close>

definition acks :: "(ShardOwner \<times> werr option) list \<Rightarrow> ShardOwner list" where
  "acks l = map fst (filter (\<lambda>(_, r). r = None) l)"

lemma acks_simps [simp]: "acks [] = []" "acks ((ow, r) # l) = (if r = None then ow # acks l else acks l)" "acks (l @ l') = acks l @ acks l'"
  by (simp_all add: acks_def)

definition first_err :: "(ShardOwner \<times> werr option) list \<Rightarrow> werr option" where
  "first_err l = (case filter (\<lambda>(_, r). r \<noteq> None) l of [] \<Rightarrow> None | (_, r) # _ \<Rightarrow> r)"

lemma first_err_snoc: "first_err (l @ [(ow, r)]) = (if first_err l = None then r else first_err l)"
  by (auto simp: first_err_def split: list.splits) (auto simp: filter_eq_Cons_iff)

lemma first_err_None: "first_err l = None \<longleftrightarrow> (\<forall>(ow, r)\<in>set l. r = None)"
  by (auto simp: first_err_def filter_empty_conv filter_eq_Cons_iff split: list.splits)

text \<open>
  Every owner is running or has sent its one result; the results taken from the channel are a prefix of those sent, and the
  counters are those of that prefix.
\<close>

fun outcome_ok :: "nat \<Rightarrow> nat \<Rightarrow> nat \<Rightarrow> (ShardOwner \<times> werr option) list \<Rightarrow> shard_outcome option \<Rightarrow> bool" where
  "outcome_ok n req left got None \<longleftrightarrow> left + length got = n \<and> (length (acks got) < req \<or> acks got = [])"
| "outcome_ok n req left got (Some WriteOK) \<longleftrightarrow> req \<le> length (acks got) \<and> acks got \<noteq> []"
| "outcome_ok n req left got (Some WritePartial) \<longleftrightarrow> length got = n \<and> acks got \<noteq> [] \<and> length (acks got) < req"
| "outcome_ok n req left got (Some (WriteFailedWith e)) \<longleftrightarrow> length got = n \<and> acks got = [] \<and> first_err got = Some e"
| "outcome_ok n req left got (Some WriteFailed) \<longleftrightarrow> length got < n \<or> n = 0"
| "outcome_ok n req left got (Some WriteTimedOut) \<longleftrightarrow> length got < n"

definition ws_inv :: "ShardOwner list \<Rightarrow> nat \<Rightarrow> 'w wstate \<Rightarrow> bool" where
  "ws_inv owners req s \<longleftrightarrow>
     mset (map fst (ws_log s)) + mset (ws_running s) = mset owners \<and>
     (\<exists>got. ws_log s = got @ ws_chan s \<and> ws_wrote s = length (acks got) \<and> ws_err s = first_err got \<and>
       outcome_ok (length owners) req (ws_left s) got (ws_outcome s))"

lemma ws_inv_start: "ws_inv owners req (ws_start owners w)"
  by (simp add: ws_inv_def ws_start_def first_err_def)

lemma acks_all_None: "acks got = [] \<Longrightarrow> first_err got = None \<Longrightarrow> got = []"
  by (cases got) (auto simp: first_err_None)

lemma outcome_ok_received:
  assumes "outcome_ok n req l got None" and "0 < l"
  shows "outcome_ok n req (l - 1) (got @ [(ow, Some e)]) None"
    and "req \<le> Suc (length (acks got)) \<Longrightarrow> outcome_ok n req l (got @ [(ow, None)]) (Some WriteOK)"
    and "\<not> req \<le> Suc (length (acks got)) \<Longrightarrow> outcome_ok n req (l - 1) (got @ [(ow, None)]) None"
  using assms by auto

lemma outcome_ok_final:
  assumes "outcome_ok n req 0 got None" and "ws_wrote s = length (acks got)" and "ws_err s = first_err got"
  shows "outcome_ok n req 0 got (Some (ws_final s))"
  using assms acks_all_None [of got] by (auto simp: ws_final_def split: option.splits)

lemma ws_inv_step:
  assumes "shard_step wr req s s'" and "ws_inv owners req s"
  shows "ws_inv owners req s'"
proof -
  obtain got where g: "mset (map fst (ws_log s)) + mset (ws_running s) = mset owners" "ws_log s = got @ ws_chan s"
      "ws_wrote s = length (acks got)" "ws_err s = first_err got"
    and ok: "outcome_ok (length owners) req (ws_left s) got (ws_outcome s)"
    using assms(2) by (auto simp: ws_inv_def)
  from assms(1) show ?thesis
  proof cases
    case (owner_done xs ow ys w r)
    then show ?thesis using g ok by (auto simp: ws_inv_def)
  next
    case (received ow r rest)
    have m: "mset (map fst ((got @ [(ow, r)]) @ rest)) + mset (ws_running s) = mset owners" using g(1,2) received(4) by simp
    note o = outcome_ok_received [OF ok [unfolded received(2)] received(3), of ow]
    show ?thesis
    proof (cases r)
      case None
      then show ?thesis using g m o(2,3) received unfolding ws_inv_def
        by (intro conjI exI [of _ "got @ [(ow, r)]"]) (simp_all add: ws_collect_def Let_def first_err_snoc del: outcome_ok.simps)
    next
      case (Some e)
      then show ?thesis using g m o(1) received unfolding ws_inv_def
        by (intro conjI exI [of _ "got @ [(ow, r)]"]) (simp_all add: ws_collect_def first_err_snoc del: outcome_ok.simps)
    qed
  next
    case loop_end
    then show ?thesis using g ok outcome_ok_final [of "length owners" req got s] unfolding ws_inv_def
      by (intro conjI exI [of _ got]) (simp_all del: outcome_ok.simps)
  qed
qed

lemma ws_inv_interrupt: "shard_interrupt s s' \<Longrightarrow> ws_inv owners req s \<Longrightarrow> ws_inv owners req s'"
  by (cases rule: shard_interrupt.cases, assumption) (auto simp: ws_inv_def)

lemma ws_inv_reach:
  assumes "shard_reach wr req (ws_start owners w) s"
  shows "ws_inv owners req s"
  using assms unfolding shard_reach_def
  by (induction rule: rtranclp_induct) (auto intro: ws_inv_start ws_inv_step ws_inv_interrupt)

section \<open>Progress\<close>

definition ws_measure :: "'w wstate \<Rightarrow> nat" where
  "ws_measure s = 2 * length (ws_running s) + length (ws_chan s) + (if ws_outcome s = None then 1 else 0)"

lemma ws_measure_step: "shard_step wr req s s' \<Longrightarrow> ws_measure s' < ws_measure s"
  by (cases rule: shard_step.cases, assumption) (auto simp: ws_measure_def ws_collect_def Let_def split: option.splits)

lemma ws_measure_interrupt: "shard_interrupt s s' \<Longrightarrow> ws_measure s' < ws_measure s"
  by (cases rule: shard_interrupt.cases, assumption) (auto simp: ws_measure_def)

lemma ws_run_bound:
  assumes "((\<lambda>s s'. shard_step wr req s s' \<or> shard_interrupt s s') ^^ k) s s'"
  shows "k + ws_measure s' \<le> ws_measure s"
  using assms
proof (induction k arbitrary: s')
  case (Suc k)
  then obtain t where t: "((\<lambda>s s'. shard_step wr req s s' \<or> shard_interrupt s s') ^^ k) s t"
    "shard_step wr req t s' \<or> shard_interrupt t s'" by auto
  from t(2) have "ws_measure s' < ws_measure t" using ws_measure_step ws_measure_interrupt by blast
  with Suc.IH [OF t(1)] show ?case by simp
qed simp

text \<open>A state from which no step is possible has an outcome and no running goroutine.\<close>

lemma ws_stuck:
  assumes "ws_inv owners req s" and "\<not> (\<exists>s'. shard_step wr req s s')"
  shows "ws_running s = []" and "ws_outcome s \<noteq> None"
proof -
  show r: "ws_running s = []"
  proof (rule ccontr)
    assume "ws_running s \<noteq> []"
    then obtain ow ys where o: "ws_running s = [] @ ow # ys" by (cases "ws_running s") auto
    obtain w r where "wr ow (ws_world s) = (w, r)" by (cases "wr ow (ws_world s)")
    then have "shard_step wr req s (s\<lparr>ws_world := w, ws_running := [] @ ys, ws_chan := ws_chan s @ [(ow, r)], ws_log := ws_log s @ [(ow, r)]\<rparr>)"
      by (rule owner_done [OF o])
    with assms(2) show False by (metis (no_types))
  qed
  show "ws_outcome s \<noteq> None"
  proof
    assume n: "ws_outcome s = None"
    obtain got where g: "mset (map fst (ws_log s)) + mset (ws_running s) = mset owners" "ws_log s = got @ ws_chan s"
        "outcome_ok (length owners) req (ws_left s) got None" using assms(1) n by (auto simp: ws_inv_def)
    have "ws_left s \<noteq> 0" using loop_end [OF n, of wr req] assms(2) by auto
    then have left: "0 < ws_left s" by simp
    have chan: "ws_chan s = []"
    proof (rule ccontr)
      assume "ws_chan s \<noteq> []"
      then obtain ow r cs where c: "ws_chan s = (ow, r) # cs" by (cases "ws_chan s") auto
      have "shard_step wr req s (ws_collect req r (s\<lparr>ws_chan := cs\<rparr>))" by (rule received [OF n left c])
      with assms(2) show False by (metis (no_types))
    qed
    have "size (mset (map fst (ws_log s)) + mset (ws_running s)) = length owners" unfolding g(1) by simp
    then show False using g(2,3) chan r left by simp
  qed
qed

text \<open>Without interruption a failure without an error means that there are no owners.\<close>

definition ws_quiet :: "ShardOwner list \<Rightarrow> 'w wstate \<Rightarrow> bool" where
  "ws_quiet owners s \<longleftrightarrow> ws_outcome s \<noteq> Some WriteTimedOut \<and> (ws_outcome s = Some WriteFailed \<longrightarrow> owners = [])"

lemma ws_quiet_step:
  assumes "shard_step wr req s s'" and "ws_inv owners req s" and "ws_quiet owners s"
  shows "ws_quiet owners s'"
  using assms(1)
proof cases
  case (owner_done xs ow ys w r)
  then show ?thesis using assms(3) by (simp add: ws_quiet_def)
next
  case (received ow r rest)
  then show ?thesis by (auto simp: ws_quiet_def ws_collect_def Let_def split: option.splits)
next
  case loop_end
  obtain got where g: "ws_wrote s = length (acks got)" "ws_err s = first_err got" "length got = length owners"
    using assms(2) loop_end by (auto simp: ws_inv_def)
  have "ws_final s = WriteFailed \<Longrightarrow> owners = []"
    using acks_all_None [of got] g by (auto simp: ws_final_def split: if_splits option.splits)
  then show ?thesis using loop_end by (auto simp: ws_quiet_def ws_final_def split: option.splits)
qed

lemma ws_quiet_reach:
  assumes "(shard_step wr req)\<^sup>*\<^sup>* (ws_start owners w) s"
  shows "ws_inv owners req s \<and> ws_quiet owners s"
  using assms
proof (induction rule: rtranclp_induct)
  case base
  then show ?case by (simp add: ws_inv_start ws_quiet_def) (simp add: ws_start_def)
next
  case (step s t)
  then show ?case using ws_inv_step ws_quiet_step by blast
qed

section \<open>What an acknowledgement means\<close>

text \<open>
  What a client knows of a run from what its writers promise: a property that a successful write of an owner establishes
  and every write keeps holds of all owners that have acknowledged.
\<close>

lemma ws_acks_step:
  assumes est: "\<And>ow v v'. wr ow v = (v', None) \<Longrightarrow> P ow v'"
    and keep: "\<And>ow ow' v v' r. P ow v \<Longrightarrow> wr ow' v = (v', r) \<Longrightarrow> P ow v'"
    and st: "shard_step wr req s t \<or> shard_interrupt s t" and inv: "\<forall>ow\<in>set (acks (ws_log s)). P ow (ws_world s)"
  shows "\<forall>ow\<in>set (acks (ws_log t)). P ow (ws_world t)"
  using st
proof
  assume "shard_step wr req s t"
  then show ?thesis
  proof cases
    case (owner_done xs ow ys w r)
    then show ?thesis using inv est [of ow] keep [of _ _ ow] by auto
  next
    case (received ow r rest)
    then show ?thesis using inv by (simp add: ws_collect_def Let_def split: option.split)
  next
    case loop_end
    then show ?thesis using inv by simp
  qed
next
  assume "shard_interrupt s t"
  then show ?thesis using inv by cases simp_all
qed

lemma ws_acks_reach:
  assumes est: "\<And>ow v v'. wr ow v = (v', None) \<Longrightarrow> P ow v'"
    and keep: "\<And>ow ow' v v' r. P ow v \<Longrightarrow> wr ow' v = (v', r) \<Longrightarrow> P ow v'"
    and "shard_reach wr req (ws_start owners w) s"
  shows "\<forall>ow\<in>set (acks (ws_log s)). P ow (ws_world s)"
  using assms(3) unfolding shard_reach_def
proof (induction rule: rtranclp_induct)
  case base
  then show ?case by (simp add: ws_start_def)
next
  case (step s t)
  show ?case by (rule ws_acks_step [of wr P, OF est keep step.hyps(2) step.IH])
qed

text \<open>
  The contract of the interfaces behind the writer.  \<open>holds node sid pts w\<close> is that the store of that node has the points of that shard:
  a write that returns without an error makes it true of the node written to, and no operation makes it false.  That a write is queued
  for a node (\<open>wr_HintedHandoff\<close>) does not make it true.
\<close>

definition stores :: "'w writers \<Rightarrow> (u64 \<Rightarrow> u64 \<Rightarrow> point list \<Rightarrow> 'w \<Rightarrow> bool) \<Rightarrow> bool" where
  "stores W holds \<longleftrightarrow>
     (\<forall>sid pts w w'. wr_WriteToShard W sid pts w = (w', None) \<longrightarrow> holds (wr_NodeID W) sid pts w') \<and>
     (\<forall>sid node pts w w'. wr_WriteShard W sid node pts w = (w', None) \<longrightarrow> holds node sid pts w') \<and>
     (\<forall>sid pts w w' r. wr_WriteToShard W sid pts w = (w', r) \<longrightarrow> (\<forall>n i ps. holds n i ps w \<longrightarrow> holds n i ps w')) \<and>
     (\<forall>db rp sid w w' r. wr_CreateShard W db rp sid w = (w', r) \<longrightarrow> (\<forall>n i ps. holds n i ps w \<longrightarrow> holds n i ps w')) \<and>
     (\<forall>sid node pts w w' r. wr_WriteShard W sid node pts w = (w', r) \<longrightarrow> (\<forall>n i ps. holds n i ps w \<longrightarrow> holds n i ps w')) \<and>
     (\<forall>sid node pts w w' r. wr_HintedHandoff W sid node pts w = (w', r) \<longrightarrow> (\<forall>n i ps. holds n i ps w \<longrightarrow> holds n i ps w'))"

lemmas storesD =
  stores_def [THEN iffD1, THEN conjunct1, rule_format]
  stores_def [THEN iffD1, THEN conjunct2, THEN conjunct1, rule_format]
  stores_def [THEN iffD1, THEN conjunct2, THEN conjunct2, THEN conjunct1, rule_format]
  stores_def [THEN iffD1, THEN conjunct2, THEN conjunct2, THEN conjunct2, THEN conjunct1, rule_format]
  stores_def [THEN iffD1, THEN conjunct2, THEN conjunct2, THEN conjunct2, THEN conjunct2, THEN conjunct1, rule_format]
  stores_def [THEN iffD1, THEN conjunct2, THEN conjunct2, THEN conjunct2, THEN conjunct2, THEN conjunct2, rule_format]

lemma local_write_ok:
  assumes "local_write W db rp sid pts w = (w', None)"
  shows "\<exists>v. wr_WriteToShard W sid pts v = (w', None)"
  using assms by (auto simp: local_write_def split: prod.splits option.splits werr.splits)

lemma local_write_keeps:
  assumes "stores W holds" and "local_write W db rp sid pts w = (w', r)" and "holds n i ps w"
  shows "holds n i ps w'"
proof -
  obtain w1 r1 where 1: "wr_WriteToShard W sid pts w = (w1, r1)" by fastforce
  obtain w2 r2 where 2: "wr_CreateShard W db rp sid w1 = (w2, r2)" by fastforce
  obtain w3 r3 where 3: "wr_WriteToShard W sid pts w2 = (w3, r3)" by fastforce
  have h: "holds n i ps w1" by (rule storesD(3) [OF assms(1) 1 assms(3)])
  have h2: "holds n i ps w2" by (rule storesD(4) [OF assms(1) 2 h])
  have "holds n i ps w3" by (rule storesD(3) [OF assms(1) 3 h2])
  with h h2 assms(2) 1 2 3 show ?thesis by (auto simp: local_write_def split: option.splits werr.splits)
qed

lemma remote_write_keeps:
  assumes "stores W holds" and "remote_write W level sid node pts w = (w', r)" and "holds n i ps w"
  shows "holds n i ps w'"
proof -
  obtain w1 r1 where 1: "wr_WriteShard W sid node pts w = (w1, r1)" by fastforce
  obtain w2 r2 where 2: "wr_HintedHandoff W sid node pts w1 = (w2, r2)" by fastforce
  have h: "holds n i ps w1" by (rule storesD(5) [OF assms(1) 1 assms(3)])
  have "holds n i ps w2" by (rule storesD(6) [OF assms(1) 2 h])
  with h assms(2) 1 2 show ?thesis by (auto simp: remote_write_def split: if_splits)
qed

lemma owner_write_keeps:
  assumes "stores W holds" and "owner_write W db rp level sid pts ow w = (w', r)" and "holds n i ps w"
  shows "holds n i ps w'"
  using local_write_keeps [OF assms(1) _ assms(3)] remote_write_keeps [OF assms(1) _ assms(3)] assms(2)
  by (auto simp: owner_write_def split: if_splits)

lemma owner_write_holds:
  assumes "stores W holds" and "level \<noteq> ConsistencyLevelAny" and "owner_write W db rp level sid pts ow w = (w', None)"
  shows "holds (so_NodeID ow) sid pts w'"
proof (cases "wr_NodeID W = so_NodeID ow")
  case True
  with assms(3) obtain v where "wr_WriteToShard W sid pts v = (w', None)"
    using local_write_ok [of W db rp sid pts w w'] by (auto simp: owner_write_def)
  from storesD(1) [OF assms(1) this] show ?thesis by (simp add: True)
next
  case False
  with assms(2,3) have "wr_WriteShard W sid (so_NodeID ow) pts w = (w', None)"
    by (auto simp: owner_write_def remote_write_def split: prod.splits if_splits)
  from storesD(2) [OF assms(1) this] show ?thesis .
qed

text \<open>Every owner that has acknowledged a write at a level other than \<open>any\<close> holds the points.\<close>

lemma acks_hold:
  assumes "stores W holds" and "level \<noteq> ConsistencyLevelAny"
    and "writeToShard_reaches W shard db rp level pts w s" and "ow \<in> set (acks (ws_log s))"
  shows "holds (so_NodeID ow) (si_ID shard) pts (ws_world s)"
proof -
  let ?wr = "owner_write W db rp level (si_ID shard) pts" and ?P = "\<lambda>ow. holds (so_NodeID ow) (si_ID shard) pts"
  have "\<forall>ow\<in>set (acks (ws_log s)). ?P ow (ws_world s)"
  proof (rule ws_acks_reach [of ?wr ?P])
    show "?P ow v'" if "?wr ow v = (v', None)" for ow v v' by (rule owner_write_holds [OF assms(1,2) that])
    show "?P ow v'" if "?P ow v" "?wr ow' v = (v', r)" for ow ow' v v' r by (rule owner_write_keeps [OF assms(1) that(2,1)])
  qed (fact assms(3) [unfolded writeToShard_reaches_def])
  with assms(4) show ?thesis by blast
qed

lemma reach_keeps:
  assumes "stores W holds" and "writeToShard_reaches W shard db rp level pts w s" and "holds n i ps w"
  shows "holds n i ps (ws_world s)"
  using assms(2) unfolding writeToShard_reaches_def shard_reach_def
proof (induction rule: rtranclp_induct)
  case base
  then show ?case using assms(3) by (simp add: ws_start_def)
next
  case (step s t)
  from step.hyps(2) show ?case
  proof
    assume "shard_step (owner_write W db rp level (si_ID shard) pts) (required_acks level (length (si_Owners shard))) s t"
    then show ?thesis
      using step.IH owner_write_keeps [OF assms(1)] by cases (auto simp: ws_collect_def Let_def split: option.split)
  next
    assume "shard_interrupt s t"
    then show ?thesis using step.IH by cases simp_all
  qed
qed

lemma length_acks_inv:
  assumes "ws_inv owners req s" and "ws_outcome s = Some WriteOK"
  shows "req \<le> length (acks (ws_log s))" and "acks (ws_log s) \<noteq> []"
  using assms by (auto simp: ws_inv_def)

lemma acks_submset: "mset (acks l) \<subseteq># mset (map fst l)"
  by (simp add: acks_def image_mset_subseteq_mono mset_filter multiset_filter_subset)

lemma acks_subset:
  assumes "ws_inv owners req s"
  shows "mset (acks (ws_log s)) \<subseteq># mset owners"
proof -
  have "mset owners = mset (map fst (ws_log s)) + mset (ws_running s)" using assms by (simp add: ws_inv_def)
  then show ?thesis using acks_submset [of "ws_log s"] by (metis mset_subset_eq_add_left subset_mset.order_trans)
qed

end
