(* ===== verification/Cluster_Map.thy ===== *)
theory Cluster_Map
  imports Cluster_Writer Meta_Auth
begin

text \<open>
  Mapping the points of a request to shards and writing them all (\<open>MapShards\<close>, \<open>WritePoints\<close> in
  \<open>cluster/points_writer.go\<close>), over the operations of the metastore.  The order in which Go visits a map is a parameter:
  \<open>order\<close> arranges the start times.
\<close>

section \<open>Mapping points to shards\<close>

record WritePointsRequest =
  wpr_Database :: string
  wpr_RetentionPolicy :: string
  wpr_ConsistencyLevel :: ConsistencyLevel
  wpr_Points :: "point list"

definition WritePointsRequest_AddPoint ::
    "(string \<Rightarrow> string) \<Rightarrow> float_lib \<Rightarrow> string \<Rightarrow> field_value \<Rightarrow> time \<Rightarrow> Tags \<Rightarrow> WritePointsRequest \<Rightarrow> WritePointsRequest" where
  "WritePointsRequest_AddPoint spare F name val timestamp tags w =
     (case NewPoint spare F name tags [(''value'', val)] timestamp of
        Inl _ \<Rightarrow> w
      | Inr pt \<Rightarrow> w\<lparr>wpr_Points := wpr_Points w @ [pt]\<rparr>)"

record ShardMapping =
  sm_Points :: "(u64 \<times> point list) list"
  sm_Shards :: "(u64 \<times> ShardInfo) list"

definition NewShardMapping :: ShardMapping where
  "NewShardMapping = \<lparr>sm_Points = [], sm_Shards = []\<rparr>"

definition ShardMapping_MapPoint :: "ShardInfo \<Rightarrow> point \<Rightarrow> ShardMapping \<Rightarrow> ShardMapping" where
  "ShardMapping_MapPoint sh p m =
     m\<lparr>sm_Points := (case map_of (sm_Points m) (si_ID sh) of
           None \<Rightarrow> AList.update (si_ID sh) [p] (sm_Points m)
         | Some pts \<Rightarrow> AList.update (si_ID sh) (pts @ [p]) (sm_Points m)),
       sm_Shards := AList.update (si_ID sh) sh (sm_Shards m)\<rparr>"

type_synonym timeRanges = "(time \<times> ShardGroupInfo option) list"

fun range_groups :: "Raft \<Rightarrow> string \<Rightarrow> string \<Rightarrow> time list \<Rightarrow> timeRanges store_op" where
  "range_groups R database policy [] = sret []"
| "range_groups R database policy (t # ts) =
     sbind (Store_CreateShardGroupIfNotExists R database policy t) (\<lambda>sg.
     sbind (range_groups R database policy ts) (\<lambda>trs. sret ((t, sg) # trs)))"

fun map_points :: "duration \<Rightarrow> timeRanges \<Rightarrow> point list \<Rightarrow> ShardMapping \<Rightarrow> ShardMapping mresult" where
  "map_points dur trs [] m = Inr m"
| "map_points dur trs (p # ps) m =
     (case map_of trs (time_Truncate dur (point_Time p)) of
        Some (Some sg) \<Rightarrow>
          (case ShardGroupInfo_ShardFor sg (point_HashID p) of
             Inl e \<Rightarrow> Inl e
           | Inr sh \<Rightarrow> map_points dur trs ps (ShardMapping_MapPoint sh p m))
      | _ \<Rightarrow> Inl PanicNilDereference)"

definition PointsWriter_MapShards :: "Raft \<Rightarrow> (time list \<Rightarrow> time list) \<Rightarrow> WritePointsRequest \<Rightarrow> ShardMapping store_op" where
  "PointsWriter_MapShards R order wp =
     sbind (Store_RetentionPolicy (wpr_Database wp) (wpr_RetentionPolicy wp)) (\<lambda>r.
       case r of
         None \<Rightarrow> sfail ErrRetentionPolicyNotFound
       | Some rp \<Rightarrow>
           sbind (range_groups R (wpr_Database wp) (wpr_RetentionPolicy wp)
               (order (remdups (map (\<lambda>p. time_Truncate (rpi_ShardGroupDuration rp) (point_Time p)) (wpr_Points wp))))) (\<lambda>trs s.
             (s, map_points (rpi_ShardGroupDuration rp) trs (wpr_Points wp) NewShardMapping)))"

section \<open>Writing\<close>

text \<open>
  The waiting loop of \<open>WritePoints\<close>: each event is the closing of the writer (None) or the result of the goroutine
  of a shard; while events are missing the call has not returned (None).
\<close>

fun await_shards :: "nat \<Rightarrow> shard_outcome option list \<Rightarrow> shard_outcome option" where
  "await_shards 0 evs = Some WriteOK"
| "await_shards (Suc n) [] = None"
| "await_shards (Suc n) (None # evs) = Some WriteFailed"
| "await_shards (Suc n) (Some r # evs) = (if r = WriteOK then await_shards n evs else Some r)"

text \<open>\<open>evs\<close> gives the events for a mapping.  Points go to the subscriptions as well, if their channel takes them.\<close>

definition PointsWriter_WritePoints ::
    "Raft \<Rightarrow> (time list \<Rightarrow> time list) \<Rightarrow> (ShardMapping \<Rightarrow> shard_outcome option list) \<Rightarrow> WritePointsRequest \<Rightarrow> (ShardMapping \<times> shard_outcome option) store_op" where
  "PointsWriter_WritePoints R order evs p =
     sbind (if wpr_RetentionPolicy p = [] then
              sbind (Store_Database (wpr_Database p)) (\<lambda>db.
                case db of None \<Rightarrow> sfail ErrDatabaseNotFound
                | Some db \<Rightarrow> sret (p\<lparr>wpr_RetentionPolicy := di_DefaultRetentionPolicy db\<rparr>))
            else sret p) (\<lambda>p.
     sbind (PointsWriter_MapShards R order p) (\<lambda>m. sret (m, await_shards (length (sm_Points m)) (evs m))))"

definition PointsWriter_WritePointsInto ::
    "Raft \<Rightarrow> (time list \<Rightarrow> time list) \<Rightarrow> (ShardMapping \<Rightarrow> shard_outcome option list) \<Rightarrow> string \<Rightarrow> string \<Rightarrow> point list \<Rightarrow>
      (ShardMapping \<times> shard_outcome option) store_op" where
  "PointsWriter_WritePointsInto R order evs database policy points =
     PointsWriter_WritePoints R order evs
       \<lparr>wpr_Database = database, wpr_RetentionPolicy = policy, wpr_ConsistencyLevel = ConsistencyLevelAny, wpr_Points = points\<rparr>"

section \<open>Groups for the time ranges\<close>

definition map_ready :: "string \<Rightarrow> string \<Rightarrow> Data \<Rightarrow> RetentionPolicyInfo \<Rightarrow> bool" where
  "map_ready db p d rpi \<longleftrightarrow> d_Nodes d \<noteq> [] \<and> find_policy d db p = Inr rpi \<and> 0 \<le> rpi_ReplicaN rpi \<and>
     0 < rpi_ShardGroupDuration rpi \<and> policy_aligned rpi \<and> (\<forall>g\<in>set (rpi_ShardGroups rpi). sgi_Shards g \<noteq> [])"

text \<open>A policy that only gained groups, with owners for all their shards.\<close>

definition grown :: "RetentionPolicyInfo \<Rightarrow> RetentionPolicyInfo \<Rightarrow> bool" where
  "grown rpi rpi' \<longleftrightarrow> rpi_ShardGroupDuration rpi' = rpi_ShardGroupDuration rpi \<and> set (rpi_ShardGroups rpi) \<subseteq> set (rpi_ShardGroups rpi') \<and>
     (\<forall>g\<in>set (rpi_ShardGroups rpi') - set (rpi_ShardGroups rpi). \<forall>si\<in>set (sgi_Shards g). si_Owners si \<noteq> [])"

definition live_for :: "RetentionPolicyInfo \<Rightarrow> time \<Rightarrow> ShardGroupInfo \<Rightarrow> bool" where
  "live_for rpi t g \<longleftrightarrow> g \<in> set (rpi_ShardGroups rpi) \<and> ShardGroupInfo_Contains g t \<and> \<not> ShardGroupInfo_Deleted g"

lemma new_group_nonempty:
  assumes "0 \<le> rpi_ReplicaN rpi" and "d_Nodes d \<noteq> []"
  shows "sgi_Shards (new_shard_group rpi t d) \<noteq> []"
proof -
  have "length (sgi_Shards (new_shard_group rpi t d)) = length (d_Nodes d) div replicas rpi d"
    by (simp add: new_shard_group_shards [OF assms(2,1)])
  moreover have "0 < replicas rpi d" "replicas rpi d \<le> length (d_Nodes d)" using replicas_bounds [OF assms(2,1)] by simp_all
  ultimately show ?thesis by (metis div_greater_zero_iff length_0_conv not_gr_zero)
qed

lemma new_group_owners:
  assumes "0 \<le> rpi_ReplicaN rpi" and "d_Nodes d \<noteq> []" and "si \<in> set (sgi_Shards (new_shard_group rpi t d))"
  shows "si_Owners si \<noteq> []"
  using assms(3) replicas_bounds(1) [OF assms(2,1)] by (auto simp: new_shard_group_shards [OF assms(2,1)])

lemma group_for_time:
  assumes "raft_encodes R (CreateShardGroupCommand db p (time_UnixNano t))" and "rft_next R s \<noteq> None"
    and "map_ready db p (fsm_data s) rpi" and "is_int64 (t - unix_epoch)"
  obtains s' rpi' g where "Store_CreateShardGroupIfNotExists R db p t s = (s', Inr (Some g))"
    and "map_ready db p (fsm_data s') rpi'" and "grown rpi rpi'" and "live_for rpi' t g"
proof (cases "RetentionPolicyInfo_ShardGroupByTimestamp rpi t")
  case (Some g)
  then show ?thesis
    using ShardGroupByTimestamp_SomeD [OF Some] get_shard_group_found [OF _ Some, of s db p R] assms(3)
    by (intro that [of s g rpi]) (simp_all add: map_ready_def grown_def live_for_def)
next
  case None
  note r = assms(3) [unfolded map_ready_def]
  define rpi' where "rpi' = rpi\<lparr>rpi_ShardGroups := sort_groups (rpi_ShardGroups rpi @ [new_shard_group rpi t (fsm_data s)])\<rparr>"
  obtain s' g where g: "Store_CreateShardGroupIfNotExists R db p t s = (s', Inr (Some g))"
      "find_policy (fsm_data s') db p = Inr rpi'" "d_Nodes (fsm_data s') = d_Nodes (fsm_data s)"
      "RetentionPolicyInfo_ShardGroupByTimestamp rpi' t = Some g"
    using get_shard_group_made [OF assms(1,2) _ _ _ _ assms(4) None rpi'_def] r by metis
  have al: "policy_aligned rpi'" unfolding rpi'_def using r None by (intro policy_aligned_new) simp_all
  have "sgi_Shards (new_shard_group rpi t (fsm_data s)) \<noteq> []" using r by (intro new_group_nonempty) simp_all
  then have ready: "map_ready db p (fsm_data s') rpi'" using r g(2,3) al by (auto simp: map_ready_def rpi'_def)
  have "grown rpi rpi'" using r new_group_owners [of rpi "fsm_data s" _ t] by (auto simp: grown_def rpi'_def)
  then show ?thesis
    using ShardGroupByTimestamp_SomeD [OF g(4)] g(1) ready by (intro that [of s' g rpi']) (simp_all add: live_for_def)
qed

lemma grown_trans: "grown a b \<Longrightarrow> grown b c \<Longrightarrow> grown a c"
  by (auto simp: grown_def)

lemma live_for_grown: "grown a b \<Longrightarrow> live_for a t g \<Longrightarrow> live_for b t g"
  by (auto simp: grown_def live_for_def)

lemma range_groups_ok:
  assumes "\<forall>t\<in>set ts. raft_encodes R (CreateShardGroupCommand db p (time_UnixNano t)) \<and> is_int64 (t - unix_epoch)"
    and "\<forall>s. rft_next R s \<noteq> None" and "map_ready db p (fsm_data s) rpi" and "distinct ts"
  shows "\<exists>s' rpi' trs. range_groups R db p ts s = (s', Inr trs) \<and> map_ready db p (fsm_data s') rpi' \<and> grown rpi rpi' \<and>
    (\<forall>t\<in>set ts. \<exists>g. map_of trs t = Some (Some g) \<and> live_for rpi' t g)"
  using assms
proof (induction ts arbitrary: s rpi)
  case Nil
  then show ?case by (intro exI [of _ s] exI [of _ rpi]) (simp add: sret_def grown_def)
next
  case (Cons t ts)
  have pre: "raft_encodes R (CreateShardGroupCommand db p (time_UnixNano t))" "rft_next R s \<noteq> None" "is_int64 (t - unix_epoch)"
    using Cons.prems by simp_all
  obtain s1 rpi1 g where 1: "Store_CreateShardGroupIfNotExists R db p t s = (s1, Inr (Some g))"
      "map_ready db p (fsm_data s1) rpi1" "grown rpi rpi1" "live_for rpi1 t g"
    using group_for_time [OF pre(1,2) Cons.prems(3) pre(3)] .
  obtain s2 rpi2 trs where 2: "range_groups R db p ts s1 = (s2, Inr trs)" "map_ready db p (fsm_data s2) rpi2" "grown rpi1 rpi2"
      "\<forall>t\<in>set ts. \<exists>g. map_of trs t = Some (Some g) \<and> live_for rpi2 t g"
    using Cons.IH [OF _ Cons.prems(2) 1(2)] Cons.prems(1,4) by auto
  have "range_groups R db p (t # ts) s = (s2, Inr ((t, Some g) # trs))" using 1(1) 2(1) by (simp add: sbind_def sret_def)
  moreover have "\<exists>g'. map_of ((t, Some g) # trs) t' = Some (Some g') \<and> live_for rpi2 t' g'" if "t' \<in> set (t # ts)" for t'
    using that 2(4) live_for_grown [OF 2(3) 1(4)] Cons.prems(4) by (cases "t' = t") auto
  ultimately show ?case using 2(2) grown_trans [OF 1(3) 2(3)] by blast
qed

section \<open>The mapping\<close>

lemma map_points_ok:
  assumes "\<forall>p\<in>set ps. \<exists>g. map_of trs (time_Truncate dur (point_Time p)) = Some (Some g) \<and> ShardGroupInfo_ShardFor g (point_HashID p) = Inr (sh p)"
  shows "map_points dur trs ps m = Inr (fold (\<lambda>p. ShardMapping_MapPoint (sh p) p) ps m)"
  using assms by (induction ps arbitrary: m) auto

lemma MapPoint_lookup:
  "map_of (sm_Points (ShardMapping_MapPoint sh p m)) sid =
     (if sid = si_ID sh then Some ((case map_of (sm_Points m) sid of None \<Rightarrow> [] | Some pts \<Rightarrow> pts) @ [p]) else map_of (sm_Points m) sid)"
  "map_of (sm_Shards (ShardMapping_MapPoint sh p m)) sid = (if sid = si_ID sh then Some sh else map_of (sm_Shards m) sid)"
  by (auto simp: ShardMapping_MapPoint_def update_conv' split: option.splits)

lemma MapPoint_distinct:
  "distinct (map fst (sm_Points m)) \<Longrightarrow> distinct (map fst (sm_Points (ShardMapping_MapPoint sh p m)))"
  by (auto simp: ShardMapping_MapPoint_def distinct_update split: option.splits)

abbreviation map_all :: "(point \<Rightarrow> ShardInfo) \<Rightarrow> point list \<Rightarrow> ShardMapping \<Rightarrow> ShardMapping" where
  "map_all sh \<equiv> fold (\<lambda>p. ShardMapping_MapPoint (sh p) p)"

lemma map_all_distinct: "distinct (map fst (sm_Points m)) \<Longrightarrow> distinct (map fst (sm_Points (map_all sh ps m)))"
  by (induction ps arbitrary: m) (simp_all add: MapPoint_distinct)

lemma map_all_points:
  "map_of (sm_Points (map_all sh ps m)) sid = (if filter (\<lambda>p. si_ID (sh p) = sid) ps = [] then map_of (sm_Points m) sid
     else Some ((case map_of (sm_Points m) sid of None \<Rightarrow> [] | Some pts \<Rightarrow> pts) @ filter (\<lambda>p. si_ID (sh p) = sid) ps))"
  by (induction ps arbitrary: m) (auto simp: MapPoint_lookup split: option.splits)

lemma map_all_shards:
  "map_of (sm_Shards (map_all sh ps m)) sid = (case filter (\<lambda>p. si_ID (sh p) = sid) ps of [] \<Rightarrow> map_of (sm_Shards m) sid
     | qs \<Rightarrow> Some (sh (last qs)))"
  by (induction ps arbitrary: m) (auto simp: MapPoint_lookup split: list.splits)

lemma map_all_shards_new:
  assumes "filter (\<lambda>p. si_ID (sh p) = sid) ps \<noteq> []"
  obtains q where "q \<in> set ps" and "si_ID (sh q) = sid" and "map_of (sm_Shards (map_all sh ps m)) sid = Some (sh q)"
proof -
  let ?q = "last (filter (\<lambda>p. si_ID (sh p) = sid) ps)"
  have "?q \<in> set (filter (\<lambda>p. si_ID (sh p) = sid) ps)" using assms by (rule last_in_set)
  then show thesis using map_all_shards [of sh ps m sid] assms by (intro that [of ?q]) (auto split: list.splits)
qed

lemma live_for_truncated:
  assumes "policy_aligned rpi" and "0 < rpi_ShardGroupDuration rpi" and "live_for rpi (time_Truncate (rpi_ShardGroupDuration rpi) t) g"
  shows "live_for rpi t g"
proof -
  let ?d = "rpi_ShardGroupDuration rpi"
  have g: "?d dvd sgi_StartTime g" "sgi_EndTime g = sgi_StartTime g + ?d" "sgi_StartTime g \<le> time_Truncate ?d t" "time_Truncate ?d t < sgi_EndTime g"
    using assms(1,3) by (auto simp: policy_aligned_def live_for_def ShardGroupInfo_Contains_def)
  have "sgi_StartTime g = time_Truncate ?d t"
    using g time_Truncate_dvd [OF assms(2), of t] assms(2) by (intro aligned_unique [of ?d _ _ "time_Truncate ?d t"]) simp_all
  then show ?thesis using assms(3) g(2) time_Truncate_le [of ?d t] time_Truncate_upper [OF assms(2), of t]
    by (simp add: live_for_def ShardGroupInfo_Contains_def)
qed

lemma ShardFor_nonempty:
  assumes "sgi_Shards g \<noteq> []"
  obtains sh where "ShardGroupInfo_ShardFor g h = Inr sh" and "sh \<in> set (sgi_Shards g)"
  using assms ShardGroupInfo_ShardFor_mem [of g h] by (simp add: ShardGroupInfo_ShardFor_def)

lemma Store_RetentionPolicy_found:
  "find_policy (fsm_data s) db p = Inr rpi \<Longrightarrow> Store_RetentionPolicy db p s = (s, Inr (Some rpi))"
  by (auto simp: find_policy_def Store_RetentionPolicy_def read_data_eq or_err_def or_invalidate_def split: sum.splits option.splits)

text \<open>
  Where a point belongs: a shard of a live group of the policy whose interval contains the time of the point, the one its hash selects.
\<close>

definition belongs_to :: "RetentionPolicyInfo \<Rightarrow> point \<Rightarrow> ShardInfo \<Rightarrow> bool" where
  "belongs_to rpi p sh \<longleftrightarrow> (\<exists>g. live_for rpi (point_Time p) g \<and> sh \<in> set (sgi_Shards g) \<and>
     ShardGroupInfo_ShardFor g (point_HashID p) = Inr sh)"

text \<open>A mapping of points: every point goes to one shard where it belongs, and the points of a shard keep their order.\<close>

definition maps_points :: "RetentionPolicyInfo \<Rightarrow> point list \<Rightarrow> ShardMapping \<Rightarrow> bool" where
  "maps_points rpi pts m \<longleftrightarrow> (\<exists>sh. (\<forall>p\<in>set pts. belongs_to rpi p (sh p)) \<and>
     distinct (map fst (sm_Points m)) \<and>
     (\<forall>sid. map_of (sm_Points m) sid = (case filter (\<lambda>p. si_ID (sh p) = sid) pts of [] \<Rightarrow> None | ps \<Rightarrow> Some ps)) \<and>
     (\<forall>sid ps. map_of (sm_Points m) sid = Some ps \<longrightarrow> (\<exists>q\<in>set ps. map_of (sm_Shards m) sid = Some (sh q))))"

lemma maps_pointsE:
  assumes "maps_points rpi pts m"
  obtains sh :: "point \<Rightarrow> ShardInfo" where "\<forall>p\<in>set pts. belongs_to rpi p (sh p)" and "distinct (map fst (sm_Points m))"
    and "\<forall>sid. map_of (sm_Points m) sid = (case filter (\<lambda>p. si_ID (sh p) = sid) pts of [] \<Rightarrow> None | ps \<Rightarrow> Some ps)"
    and "\<forall>sid ps. map_of (sm_Points m) sid = Some ps \<longrightarrow> (\<exists>q\<in>set ps. map_of (sm_Shards m) sid = Some (sh q))"
  using assms unfolding maps_points_def by blast

lemma mset_partition:
  assumes "distinct ks"
  shows "mset (concat (map (\<lambda>k. filter (\<lambda>p. f p = k) ps) ks)) = mset (filter (\<lambda>p. f p \<in> set ks) ps)"
  using assms
proof (induction ks)
  case (Cons k ks)
  have "mset (filter (\<lambda>p. f p = k) ps) + mset (filter (\<lambda>p. f p \<in> set ks) ps) = mset (filter (\<lambda>p. f p \<in> set (k # ks)) ps)"
    using Cons.prems by (induction ps) auto
  with Cons show ?case by simp
qed simp

lemma maps_points_once:
  assumes "maps_points rpi pts m"
  shows "mset (concat (map snd (sm_Points m))) = mset pts"
proof -
  obtain sh :: "point \<Rightarrow> ShardInfo" where "\<forall>p\<in>set pts. belongs_to rpi p (sh p)" and d: "distinct (map fst (sm_Points m))"
    and m0: "\<forall>sid. map_of (sm_Points m) sid = (case filter (\<lambda>p. si_ID (sh p) = sid) pts of [] \<Rightarrow> None | ps \<Rightarrow> Some ps)"
    and "\<forall>sid ps. map_of (sm_Points m) sid = Some ps \<longrightarrow> (\<exists>q\<in>set ps. map_of (sm_Shards m) sid = Some (sh q))"
    using maps_pointsE [OF assms] .
  note m = m0 [rule_format]
  let ?f = "\<lambda>k. filter (\<lambda>p. si_ID (sh p) = k) pts"
  have "snd x = ?f (fst x)" if "x \<in> set (sm_Points m)" for x
    using that m [of "fst x"] map_of_is_SomeI [OF d, of "fst x" "snd x"] by (cases "?f (fst x)") simp_all
  then have "map snd (sm_Points m) = map ?f (map fst (sm_Points m))" by simp
  then have "mset (concat (map snd (sm_Points m))) = mset (filter (\<lambda>p. si_ID (sh p) \<in> set (map fst (sm_Points m))) pts)"
    using mset_partition [OF d, of "\<lambda>p. si_ID (sh p)" pts] by (simp only:)
  moreover have "si_ID (sh p) \<in> set (map fst (sm_Points m))" if "p \<in> set pts" for p
  proof -
    have "?f (si_ID (sh p)) \<noteq> []" using that by (auto simp: filter_empty_conv)
    then obtain ps where "map_of (sm_Points m) (si_ID (sh p)) = Some ps" using m [of "si_ID (sh p)"] by (auto split: list.splits)
    then show ?thesis by (metis map_of_SomeD fst_conv image_eqI image_set)
  qed
  then have "filter (\<lambda>p. si_ID (sh p) \<in> set (map fst (sm_Points m))) pts = pts" by (intro filter_True) blast
  ultimately show ?thesis by (simp only:)
qed

lemma MapShards_ok:
  assumes "map_ready (wpr_Database wp) (wpr_RetentionPolicy wp) (fsm_data s) rpi"
    and "\<forall>p\<in>set (wpr_Points wp). \<forall>t. t = time_Truncate (rpi_ShardGroupDuration rpi) (point_Time p) \<longrightarrow>
      raft_encodes R (CreateShardGroupCommand (wpr_Database wp) (wpr_RetentionPolicy wp) (time_UnixNano t)) \<and> is_int64 (t - unix_epoch)"
    and "\<forall>s. rft_next R s \<noteq> None" and "\<forall>ts. mset (order ts) = mset ts"
  shows "\<exists>s' rpi' m. PointsWriter_MapShards R order wp s = (s', Inr m) \<and>
    map_ready (wpr_Database wp) (wpr_RetentionPolicy wp) (fsm_data s') rpi' \<and> grown rpi rpi' \<and> maps_points rpi' (wpr_Points wp) m"
proof -
  let ?db = "wpr_Database wp" and ?rp = "wpr_RetentionPolicy wp" and ?pts = "wpr_Points wp" and ?d = "rpi_ShardGroupDuration rpi"
  let ?t = "\<lambda>p. time_Truncate ?d (point_Time p)" let ?ts = "order (remdups (map ?t ?pts))"
  have ts: "set ?ts = ?t ` set ?pts" "distinct ?ts"
    using assms(4) mset_eq_setD [of ?ts "remdups (map ?t ?pts)"] mset_eq_imp_distinct_iff [of ?ts "remdups (map ?t ?pts)"] by simp_all
  obtain s' rpi' trs where r: "range_groups R ?db ?rp ?ts s = (s', Inr trs)" "map_ready ?db ?rp (fsm_data s') rpi'" "grown rpi rpi'"
      "\<forall>t\<in>set ?ts. \<exists>g. map_of trs t = Some (Some g) \<and> live_for rpi' t g"
    using range_groups_ok [of ?ts R ?db ?rp s rpi] assms ts by auto
  have dur: "rpi_ShardGroupDuration rpi' = ?d" using r(3) by (simp add: grown_def)
  have "\<exists>sh. \<forall>p\<in>set ?pts. \<exists>g. map_of trs (?t p) = Some (Some g) \<and> ShardGroupInfo_ShardFor g (point_HashID p) = Inr (sh p) \<and> belongs_to rpi' p (sh p)"
  proof (rule bchoice, rule ballI)
    fix p assume "p \<in> set ?pts"
    then have "?t p \<in> set ?ts" unfolding ts(1) by (rule imageI)
    from bspec [OF r(4) this] obtain g where g: "map_of trs (?t p) = Some (Some g)" "live_for rpi' (?t p) g" by (elim exE conjE)
    have l: "live_for rpi' (point_Time p) g" using live_for_truncated [of rpi' "point_Time p" g] r(2) g(2) dur by (simp add: map_ready_def)
    have "sgi_Shards g \<noteq> []" using r(2) g(2) by (auto simp: map_ready_def live_for_def)
    then obtain sh where "ShardGroupInfo_ShardFor g (point_HashID p) = Inr sh" "sh \<in> set (sgi_Shards g)" by (rule ShardFor_nonempty)
    with g l show "\<exists>sh g. map_of trs (?t p) = Some (Some g) \<and> ShardGroupInfo_ShardFor g (point_HashID p) = Inr sh \<and> belongs_to rpi' p sh"
      by (auto simp: belongs_to_def)
  qed
  then obtain sh where sh: "\<forall>p\<in>set ?pts. \<exists>g. map_of trs (?t p) = Some (Some g) \<and> ShardGroupInfo_ShardFor g (point_HashID p) = Inr (sh p)"
      "\<forall>p\<in>set ?pts. belongs_to rpi' p (sh p)" by blast
  let ?m = "map_all sh ?pts NewShardMapping"
  have "map_points ?d trs ?pts NewShardMapping = Inr ?m" using sh(1) by (rule map_points_ok)
  moreover have "find_policy (fsm_data s) ?db ?rp = Inr rpi" using assms(1) by (simp add: map_ready_def)
  ultimately have "PointsWriter_MapShards R order wp s = (s', Inr ?m)"
    using r(1) Store_RetentionPolicy_found [of s ?db ?rp rpi] by (simp add: PointsWriter_MapShards_def sbind_def)
  moreover have pts: "map_of (sm_Points ?m) sid = (case filter (\<lambda>p. si_ID (sh p) = sid) ?pts of [] \<Rightarrow> None | ps \<Rightarrow> Some ps)" for sid
    using map_all_points [of sh ?pts NewShardMapping sid] by (simp add: NewShardMapping_def split: list.splits)
  have "\<exists>q\<in>set ps. map_of (sm_Shards ?m) sid = Some (sh q)" if "map_of (sm_Points ?m) sid = Some ps" for sid ps
  proof -
    have ps: "ps = filter (\<lambda>p. si_ID (sh p) = sid) ?pts" "ps \<noteq> []" using that unfolding pts by (auto split: list.splits)
    with map_all_shards_new [of sh sid ?pts NewShardMapping] show ?thesis by auto
  qed
  then have "maps_points rpi' ?pts ?m" using sh(2) pts map_all_distinct [of NewShardMapping sh ?pts]
    unfolding maps_points_def by (intro exI [of _ sh]) (simp add: NewShardMapping_def)
  ultimately show ?thesis using r(2,3) by blast
qed

section \<open>Waiting for all shards\<close>

lemma await_ok:
  assumes "await_shards n evs = Some WriteOK"
  shows "n \<le> length evs \<and> (\<forall>r\<in>set (take n evs). r = Some WriteOK)"
  using assms by (induction n evs rule: await_shards.induct) (auto split: if_splits)

lemma await_all_ok: "await_shards (length rs) (map Some rs) = Some WriteOK \<longleftrightarrow> (\<forall>r\<in>set rs. r = WriteOK)"
  by (induction rs) auto

lemma await_first_error:
  assumes "r \<noteq> WriteOK"
  shows "await_shards (Suc (length oks + n)) (map Some (map (\<lambda>_. WriteOK) oks) @ Some r # evs) = Some r"
  using assms by (induction oks) simp_all

end
