(* ===== verification/Cluster_Props.thy ===== *)
theory Cluster_Props
  imports Cluster_Balancer Cluster_Mapper Cluster_Map Models_Props Meta_Props
begin

text \<open>
  Properties of the cluster layer (\<open>cluster/\<close>): where points go, what a successful write means, and what
  arrives at the other end of a connection.
\<close>

section \<open>Mapping points to shards\<close>

text \<open>
  C34. Mapping a request to shards.  On the leader of a metastore that answers, for a policy whose groups are aligned to its
  duration, every request can be mapped whatever the order in which the start times are visited: every
  point goes to exactly one shard, which is the one its hash selects in a live group whose interval contains the
  time of the point, the points of a shard keep their order, and the policy only gains groups, all of whose shards have owners.
\<close>

theorem map_shards:
  assumes "map_ready (wpr_Database wp) (wpr_RetentionPolicy wp) (fsm_data s) rpi"
    and "\<forall>p\<in>set (wpr_Points wp). \<forall>t. t = time_Truncate (rpi_ShardGroupDuration rpi) (point_Time p) \<longrightarrow>
      raft_encodes R (CreateShardGroupCommand (wpr_Database wp) (wpr_RetentionPolicy wp) (time_UnixNano t)) \<and> is_int64 (t - unix_epoch)"
    and "\<forall>s. rft_next R s \<noteq> None" and "\<forall>ts. mset (order ts) = mset ts"
  shows "\<exists>s' rpi' m sh. PointsWriter_MapShards R order wp s = (s', Inr m) \<and>
    find_policy (fsm_data s') (wpr_Database wp) (wpr_RetentionPolicy wp) = Inr rpi' \<and>
    set (rpi_ShardGroups rpi) \<subseteq> set (rpi_ShardGroups rpi') \<and>
    (\<forall>g\<in>set (rpi_ShardGroups rpi') - set (rpi_ShardGroups rpi). \<forall>si\<in>set (sgi_Shards g). si_Owners si \<noteq> []) \<and>
    (\<forall>p\<in>set (wpr_Points wp). \<exists>g\<in>set (rpi_ShardGroups rpi'). \<not> ShardGroupInfo_Deleted g \<and> ShardGroupInfo_Contains g (point_Time p) \<and>
       ShardGroupInfo_ShardFor g (point_HashID p) = Inr (sh p)) \<and>
    (\<forall>sid. map_of (sm_Points m) sid = (case filter (\<lambda>p. si_ID (sh p) = sid) (wpr_Points wp) of [] \<Rightarrow> None | ps \<Rightarrow> Some ps)) \<and>
    (\<forall>sid ps. map_of (sm_Points m) sid = Some ps \<longrightarrow> (\<exists>q\<in>set ps. map_of (sm_Shards m) sid = Some (sh q)))"
proof -
  obtain s' rpi' m where m: "PointsWriter_MapShards R order wp s = (s', Inr m)"
      "map_ready (wpr_Database wp) (wpr_RetentionPolicy wp) (fsm_data s') rpi'" "grown rpi rpi'" "maps_points rpi' (wpr_Points wp) m"
    using MapShards_ok [OF assms] by blast
  obtain sh :: "point \<Rightarrow> ShardInfo" where sh: "\<forall>p\<in>set (wpr_Points wp). belongs_to rpi' p (sh p)" "distinct (map fst (sm_Points m))"
      "\<forall>sid. map_of (sm_Points m) sid = (case filter (\<lambda>p. si_ID (sh p) = sid) (wpr_Points wp) of [] \<Rightarrow> None | ps \<Rightarrow> Some ps)"
      "\<forall>sid ps. map_of (sm_Points m) sid = Some ps \<longrightarrow> (\<exists>q\<in>set ps. map_of (sm_Shards m) sid = Some (sh q))"
    using maps_pointsE [OF m(4)] .
  have "\<forall>p\<in>set (wpr_Points wp). \<exists>g\<in>set (rpi_ShardGroups rpi'). \<not> ShardGroupInfo_Deleted g \<and> ShardGroupInfo_Contains g (point_Time p) \<and>
       ShardGroupInfo_ShardFor g (point_HashID p) = Inr (sh p)"
    using sh(1) by (auto simp: belongs_to_def live_for_def)
  with m sh(3,4) show ?thesis
    by (intro exI [of _ s'] exI [of _ rpi'] exI [of _ m] exI [of _ sh]) (simp add: map_ready_def grown_def)
qed

text \<open>A request with two points of the catalogue of three nodes.\<close>

definition cpu_at :: "time \<Rightarrow> point" where
  "cpu_at t = new_point (of_bytes ''cpu'') (of_bytes ''v=1i'') [] t"

definition request_ex :: WritePointsRequest where
  "request_ex = \<lparr>wpr_Database = ''db'', wpr_RetentionPolicy = ''p'', wpr_ConsistencyLevel = ConsistencyLevelQuorum,
     wpr_Points = [cpu_at (unix_epoch + 5), cpu_at (unix_epoch + 7)]\<rparr>"

definition trunc_ex :: time where
  "trunc_ex = time_Truncate (7 * 24 * Hour) (unix_epoch + 5)"

definition raft_ex :: Raft where
  "raft_ex = ex_raft [CreateShardGroupCommand ''db'' ''p'' (time_UnixNano trunc_ex)]"

lemma request_ex_ready:
  "map_ready ''db'' ''p'' (fsm_data ex_fsm) ex_policy"
  "\<forall>p\<in>set (wpr_Points request_ex). \<forall>t. t = time_Truncate (rpi_ShardGroupDuration ex_policy) (point_Time p) \<longrightarrow>
      raft_encodes raft_ex (CreateShardGroupCommand ''db'' ''p'' (time_UnixNano t)) \<and> is_int64 (t - unix_epoch)"
  "\<forall>s. rft_next raft_ex s \<noteq> None"
proof -
  show "map_ready ''db'' ''p'' (fsm_data ex_fsm) ex_policy"
    using ex_find by (simp add: map_ready_def ex_fsm_def ex_data_def) (simp add: ex_policy_def policy_aligned_def live_starts_def Hour_def)
  have t: "time_Truncate (168 * Hour) (unix_epoch + 5) = trunc_ex" "time_Truncate (168 * Hour) (unix_epoch + 7) = trunc_ex"
    "is_int64 (trunc_ex - unix_epoch)" by code_simp+
  have "raft_encodes raft_ex (CreateShardGroupCommand ''db'' ''p'' (time_UnixNano trunc_ex))"
    unfolding raft_ex_def by (rule ex_raft_encodes) simp
  with t show "\<forall>p\<in>set (wpr_Points request_ex). \<forall>t. t = time_Truncate (rpi_ShardGroupDuration ex_policy) (point_Time p) \<longrightarrow>
      raft_encodes raft_ex (CreateShardGroupCommand ''db'' ''p'' (time_UnixNano t)) \<and> is_int64 (t - unix_epoch)"
    by (simp add: request_ex_def cpu_at_def new_point_def point_Time_def ex_policy_def)
  show "\<forall>s. rft_next raft_ex s \<noteq> None" by (simp add: raft_ex_def ex_raft_def)
qed

theorem map_shards_witness:
  "\<exists>s' m. PointsWriter_MapShards raft_ex rev request_ex ex_fsm = (s', Inr m) \<and> (\<exists>sid ps. map_of (sm_Points m) sid = Some ps)"
proof -
  have r: "wpr_Database request_ex = ''db''" "wpr_RetentionPolicy request_ex = ''p''" by (simp_all add: request_ex_def)
  have rv: "\<forall>ts :: time list. mset (rev ts) = mset ts" by simp
  have "\<exists>s' m (sh :: point \<Rightarrow> ShardInfo). PointsWriter_MapShards raft_ex rev request_ex ex_fsm = (s', Inr m) \<and>
      (\<forall>sid. map_of (sm_Points m) sid = (case filter (\<lambda>p. si_ID (sh p) = sid) (wpr_Points request_ex) of [] \<Rightarrow> None | ps \<Rightarrow> Some ps))"
    using map_shards [of request_ex ex_fsm ex_policy raft_ex rev, unfolded r, OF request_ex_ready rv]
    by (elim exE conjE) (intro exI conjI)
  then obtain s' m and sh :: "point \<Rightarrow> ShardInfo" where m: "PointsWriter_MapShards raft_ex rev request_ex ex_fsm = (s', Inr m)"
      "\<And>sid. map_of (sm_Points m) sid = (case filter (\<lambda>p. si_ID (sh p) = sid) (wpr_Points request_ex) of [] \<Rightarrow> None | ps \<Rightarrow> Some ps)"
    by (elim exE conjE) blast
  have "map_of (sm_Points m) (si_ID (sh (cpu_at (unix_epoch + 5)))) \<noteq> None"
    unfolding m(2) by (simp add: request_ex_def)
  with m(1) show ?thesis by blast
qed

section \<open>Consistency levels\<close>

text \<open>
  C15. The outcome of writing to the owners of a shard.  However the goroutines and the collector are interleaved, no run makes more than
  three steps per owner and one more; and a run that is not interrupted and can make no further step has returned, with every owner having written
  exactly once: the outcome is a success if and only if some owner and as many as the level requires have acknowledged, partial if some but
  too few did, and otherwise the first error, or the plain failure if there are no owners.
\<close>

theorem write_to_shard_outcome:
  assumes "(shard_step wr req)\<^sup>*\<^sup>* (ws_start owners w) s" and "\<not> (\<exists>s'. shard_step wr req s s')"
  shows "mset (map fst (ws_log s)) = mset owners \<and>
    ws_outcome s = Some (if acks (ws_log s) \<noteq> [] \<and> req \<le> length (acks (ws_log s)) then WriteOK
      else if acks (ws_log s) \<noteq> [] then WritePartial
      else case first_err (ws_log s) of Some e \<Rightarrow> WriteFailedWith e | None \<Rightarrow> WriteFailed) \<and>
    (\<forall>k t. ((\<lambda>s s'. shard_step wr req s s' \<or> shard_interrupt s s') ^^ k) (ws_start owners w) t \<longrightarrow> k \<le> 3 * length owners + 1)"
proof -
  have inv: "ws_inv owners req s" and quiet: "ws_quiet owners s" using ws_quiet_reach [OF assms(1)] by simp_all
  have r: "ws_running s = []" and "ws_outcome s \<noteq> None" using ws_stuck [OF inv assms(2)] by simp_all
  then obtain r where o: "ws_outcome s = Some r" by blast
  have m: "mset (map fst (ws_log s)) = mset owners" using inv r by (simp add: ws_inv_def)
  then have len: "length (ws_log s) = length owners" by (metis length_map size_mset)
  obtain got where got: "ws_log s = got @ ws_chan s" "outcome_ok (length owners) req (ws_left s) got (Some r)"
    using inv o by (auto simp: ws_inv_def)
  have all: "ws_log s = got" if "length got = length owners" using got(1) len that by simp
  have "r = (if acks (ws_log s) \<noteq> [] \<and> req \<le> length (acks (ws_log s)) then WriteOK
      else if acks (ws_log s) \<noteq> [] then WritePartial
      else case first_err (ws_log s) of Some e \<Rightarrow> WriteFailedWith e | None \<Rightarrow> WriteFailed)"
  proof (cases r)
    case WriteOK
    then show ?thesis using got by auto
  next
    case WriteFailed
    then have "owners = []" using quiet o by (simp add: ws_quiet_def)
    then show ?thesis using m WriteFailed by (simp add: first_err_def)
  qed (use got all quiet o in \<open>auto simp: ws_quiet_def\<close>)
  moreover have "k \<le> 3 * length owners + 1" if "((\<lambda>s s'. shard_step wr req s s' \<or> shard_interrupt s s') ^^ k) (ws_start owners w) t" for k t
    using ws_run_bound [OF that] by (simp add: ws_measure_def ws_start_def)
  ultimately show ?thesis using m o by simp
qed

text \<open>Two owners, of which the second refuses, at the level that requires both.\<close>

definition owners_ex :: "ShardOwner list" where
  "owners_ex = [\<lparr>so_NodeID = 1\<rparr>, \<lparr>so_NodeID = 2\<rparr>]"

definition wr_ex :: "ShardOwner \<Rightarrow> nat \<Rightarrow> nat \<times> werr option" where
  "wr_ex ow w = (w + 1, if so_NodeID ow = 1 then None else Some EShardNotFound)"

definition partial_ex :: "nat wstate" where
  "partial_ex = \<lparr>ws_world = 2, ws_running = [], ws_chan = [], ws_left = 0, ws_wrote = 1, ws_err = Some EShardNotFound,
     ws_outcome = Some WritePartial, ws_log = [(\<lparr>so_NodeID = 1\<rparr>, None), (\<lparr>so_NodeID = 2\<rparr>, Some EShardNotFound)]\<rparr>"

lemma partial_ex_reached: "(shard_step wr_ex 2)\<^sup>*\<^sup>* (ws_start owners_ex 0) partial_ex"
proof -
  let ?o1 = "\<lparr>so_NodeID = 1\<rparr> :: ShardOwner" let ?o2 = "\<lparr>so_NodeID = 2\<rparr> :: ShardOwner"
  let ?s0 = "ws_start owners_ex (0 :: nat)"
  let ?s1 = "?s0\<lparr>ws_world := 1, ws_running := [] @ [?o2], ws_chan := ws_chan ?s0 @ [(?o1, None)], ws_log := ws_log ?s0 @ [(?o1, None)]\<rparr>"
  let ?s2 = "ws_collect 2 None (?s1\<lparr>ws_chan := []\<rparr>)"
  let ?s3 = "?s2\<lparr>ws_world := 2, ws_running := [] @ [], ws_chan := ws_chan ?s2 @ [(?o2, Some EShardNotFound)],
    ws_log := ws_log ?s2 @ [(?o2, Some EShardNotFound)]\<rparr>"
  let ?s4 = "ws_collect 2 (Some EShardNotFound) (?s3\<lparr>ws_chan := []\<rparr>)"
  let ?s5 = "?s4\<lparr>ws_outcome := Some (ws_final ?s4)\<rparr>"
  have a1: "shard_step wr_ex 2 ?s0 ?s1" by (rule owner_done) (simp_all add: ws_start_def owners_ex_def wr_ex_def)
  have a2: "shard_step wr_ex 2 ?s1 ?s2" by (rule received) (simp_all add: ws_start_def owners_ex_def)
  have a3: "shard_step wr_ex 2 ?s2 ?s3" by (rule owner_done) (simp_all add: ws_start_def owners_ex_def wr_ex_def ws_collect_def)
  have a4: "shard_step wr_ex 2 ?s3 ?s4" by (rule received) (simp_all add: ws_start_def owners_ex_def ws_collect_def)
  have a5: "shard_step wr_ex 2 ?s4 ?s5" by (rule loop_end) (simp_all add: ws_start_def owners_ex_def ws_collect_def)
  have e: "?s5 = partial_ex" by (simp add: ws_start_def owners_ex_def ws_collect_def ws_final_def partial_ex_def)
  note r = converse_rtranclp_into_rtranclp
  from r [OF a1 r [OF a2 r [OF a3 r [OF a4 r_into_rtranclp [of "shard_step wr_ex 2", OF a5]]]]] show ?thesis unfolding e .
qed

lemma partial_ex_stuck: "\<not> (\<exists>s'. shard_step wr_ex 2 partial_ex s')"
  by (auto simp: partial_ex_def elim: shard_step.cases)

theorem write_to_shard_outcome_witness:
  "(shard_step wr_ex 2)\<^sup>*\<^sup>* (ws_start owners_ex 0) partial_ex \<and> \<not> (\<exists>s'. shard_step wr_ex 2 partial_ex s') \<and>
   ws_outcome partial_ex = Some WritePartial"
  using write_to_shard_outcome [OF partial_ex_reached partial_ex_stuck] partial_ex_reached partial_ex_stuck by (simp add: partial_ex_def)

lemma ok_acks:
  assumes "writeToShard_reaches W shard db rp level pts w s" and "ws_outcome s = Some WriteOK" and "distinct (si_Owners shard)"
  shows "set (acks (ws_log s)) \<subseteq> set (si_Owners shard)" and "required_acks level (length (si_Owners shard)) \<le> card (set (acks (ws_log s)))"
    and "set (acks (ws_log s)) \<noteq> {}"
proof -
  have inv: "ws_inv (si_Owners shard) (required_acks level (length (si_Owners shard))) s"
    using assms(1) unfolding writeToShard_reaches_def by (rule ws_inv_reach)
  have sub: "mset (acks (ws_log s)) \<subseteq># mset (si_Owners shard)" by (rule acks_subset [OF inv])
  then show "set (acks (ws_log s)) \<subseteq> set (si_Owners shard)" using set_mset_mono by fastforce
  have "distinct (acks (ws_log s))"
    using distinct_map_mset_mono [OF sub, of "\<lambda>x. x"] assms(3) by simp
  then show "required_acks level (length (si_Owners shard)) \<le> card (set (acks (ws_log s)))"
    using length_acks_inv(1) [OF inv assms(2)] by (simp add: distinct_card)
  show "set (acks (ws_log s)) \<noteq> {}" using length_acks_inv(2) [OF inv assms(2)] by simp
qed

text \<open>
  C16. Two successful writes to the same shard, made one after the other by any two nodes, share an owner that holds the points of both,
  if both are at level quorum or all, or one is at level all and the other at level one.  At level any there is no such owner, since a queued write
  counts as an acknowledgement.  The stores are assumed to keep what they have taken (\<open>stores\<close>); a node that does not
  know the shard answers a write without taking it, as the remote write below shows.
\<close>

theorem quorum_writes_intersect:
  assumes "stores W holds" and "stores W' holds"
    and "writeToShard_reaches W shard db rp level pts w s" and "ws_outcome s = Some WriteOK"
    and "\<forall>n i ps. holds n i ps (ws_world s) \<longrightarrow> holds n i ps w'"
    and "writeToShard_reaches W' shard db rp level' pts' w' s'" and "ws_outcome s' = Some WriteOK"
    and "distinct (si_Owners shard)"
    and "(level, level') \<in> {(ConsistencyLevelQuorum, ConsistencyLevelQuorum), (ConsistencyLevelQuorum, ConsistencyLevelAll),
      (ConsistencyLevelAll, ConsistencyLevelQuorum), (ConsistencyLevelAll, ConsistencyLevelAll),
      (ConsistencyLevelAll, ConsistencyLevelOne), (ConsistencyLevelOne, ConsistencyLevelAll)}"
  shows "\<exists>ow\<in>set (si_Owners shard). holds (so_NodeID ow) (si_ID shard) pts (ws_world s') \<and>
    holds (so_NodeID ow) (si_ID shard) pts' (ws_world s')"
proof -
  let ?A = "set (acks (ws_log s))" and ?B = "set (acks (ws_log s'))" and ?O = "set (si_Owners shard)"
  have A: "?A \<subseteq> ?O" "required_acks level (length (si_Owners shard)) \<le> card ?A" "?A \<noteq> {}" using ok_acks [OF assms(3,4,8)] by simp_all
  have B: "?B \<subseteq> ?O" "required_acks level' (length (si_Owners shard)) \<le> card ?B" "?B \<noteq> {}" using ok_acks [OF assms(6-8)] by simp_all
  have "0 < length (si_Owners shard)" using A(1,3) by auto
  then have n: "length (si_Owners shard) < required_acks level (length (si_Owners shard)) + required_acks level' (length (si_Owners shard))"
    using assms(9) by auto
  have "?A \<inter> ?B \<noteq> {}"
  proof
    assume "?A \<inter> ?B = {}"
    then have "card (?A \<union> ?B) = card ?A + card ?B" by (intro card_Un_disjoint) simp_all
    moreover have "card (?A \<union> ?B) \<le> card ?O" using A(1) B(1) by (intro card_mono) simp_all
    moreover have "card ?O = length (si_Owners shard)" using assms(8) by (rule distinct_card)
    ultimately show False using A(2) B(2) n by simp
  qed
  then obtain ow where ow: "ow \<in> ?A" "ow \<in> ?B" by blast
  have l: "level \<noteq> ConsistencyLevelAny" "level' \<noteq> ConsistencyLevelAny" using assms(9) by auto
  have "holds (so_NodeID ow) (si_ID shard) pts w'"
    using acks_hold [OF assms(1) l(1) assms(3) ow(1)] assms(5) by simp
  then have "holds (so_NodeID ow) (si_ID shard) pts (ws_world s')" by (rule reach_keeps [OF assms(2,6)])
  moreover have "holds (so_NodeID ow) (si_ID shard) pts' (ws_world s')" by (rule acks_hold [OF assms(2) l(2) assms(6) ow(2)])
  ultimately show ?thesis using A(1) ow(1) by blast
qed

text \<open>
  A shard with three owners; the stores keep the list of what was written where.  The first write returns after nodes 1 and
  2 have acknowledged, the second, made by node 2, after nodes 2 and 3.
\<close>

type_synonym taken = "(u64 \<times> u64 \<times> point list) list"

definition shard_ex :: ShardInfo where
  "shard_ex = \<lparr>si_ID = 1, si_Owners = [\<lparr>so_NodeID = 1\<rparr>, \<lparr>so_NodeID = 2\<rparr>, \<lparr>so_NodeID = 3\<rparr>]\<rparr>"

definition writers_ex :: "u64 \<Rightarrow> taken writers" where
  "writers_ex node = \<lparr>wr_NodeID = node, wr_WriteToShard = (\<lambda>sid pts w. ((node, sid, pts) # w, None)), wr_CreateShard = (\<lambda>_ _ _ w. (w, None)),
     wr_WriteShard = (\<lambda>sid n pts w. ((n, sid, pts) # w, None)), wr_HintedHandoff = (\<lambda>_ _ _ w. (w, None))\<rparr>"

definition holds_ex :: "u64 \<Rightarrow> u64 \<Rightarrow> point list \<Rightarrow> taken \<Rightarrow> bool" where
  "holds_ex node sid pts w \<longleftrightarrow> (node, sid, pts) \<in> set w"

lemma stores_ex: "stores (writers_ex node) holds_ex"
  by (auto simp: stores_def writers_ex_def holds_ex_def)

lemma owner_write_ex: "owner_write (writers_ex node) db rp level sid pts ow w = ((so_NodeID ow, sid, pts) # w, None)"
  by (simp add: owner_write_def local_write_def remote_write_def writers_ex_def)

text \<open>An owner writes and its result is collected at once.\<close>

lemma owner_round:
  assumes "ws_running s = xs @ ow # ys" and "ws_chan s = []" and "ws_outcome s = None" and "0 < ws_left s"
    and "wr ow (ws_world s) = (w, r)"
  shows "shard_reach wr req s (ws_collect req r (s\<lparr>ws_world := w, ws_running := xs @ ys, ws_log := ws_log s @ [(ow, r)]\<rparr>))"
proof -
  let ?R = "\<lambda>s s'. shard_step wr req s s' \<or> shard_interrupt s s'"
  let ?t = "s\<lparr>ws_world := w, ws_running := xs @ ys, ws_chan := ws_chan s @ [(ow, r)], ws_log := ws_log s @ [(ow, r)]\<rparr>"
  have a: "?R s ?t" using owner_done [where s = s and xs = xs and ow = ow and ys = ys and wr = wr and w = w and r = r and req = req, OF assms(1,5)] by blast
  have "shard_step wr req ?t (ws_collect req r (?t\<lparr>ws_chan := []\<rparr>))" using assms by (intro received) simp_all
  then have b: "?R ?t (ws_collect req r (?t\<lparr>ws_chan := []\<rparr>))" by blast
  have "?t\<lparr>ws_chan := []\<rparr> = s\<lparr>ws_world := w, ws_running := xs @ ys, ws_log := ws_log s @ [(ow, r)]\<rparr>" using assms(2) by simp
  with converse_rtranclp_into_rtranclp [of ?R, OF a r_into_rtranclp [of ?R, OF b]] show ?thesis by (simp only: shard_reach_def)
qed

lemma shard_reach_trans: "shard_reach wr req s t \<Longrightarrow> shard_reach wr req t u \<Longrightarrow> shard_reach wr req s u"
  by (simp add: shard_reach_def)

definition written_ex :: "taken \<Rightarrow> ShardOwner \<Rightarrow> ShardOwner \<Rightarrow> ShardOwner list \<Rightarrow> point list \<Rightarrow> taken wstate" where
  "written_ex w o1 o2 rest pts = \<lparr>ws_world = (so_NodeID o2, 1, pts) # (so_NodeID o1, 1, pts) # w, ws_running = rest, ws_chan = [], ws_left = 2,
     ws_wrote = 2, ws_err = None, ws_outcome = Some WriteOK, ws_log = [(o1, None), (o2, None)]\<rparr>"

lemma written_ex_reached:
  assumes "si_Owners shard_ex = xs @ o1 # ys" and "xs @ ys = us @ o2 # vs"
  shows "writeToShard_reaches (writers_ex node) shard_ex db rp ConsistencyLevelQuorum pts w (written_ex w o1 o2 (us @ vs) pts)"
proof -
  let ?wr = "owner_write (writers_ex node) db rp ConsistencyLevelQuorum 1 pts"
  let ?s0 = "ws_start (si_Owners shard_ex) w" and ?w1 = "(so_NodeID o1, 1, pts) # w"
  let ?s1 = "ws_collect 2 None (?s0\<lparr>ws_world := ?w1, ws_running := xs @ ys, ws_log := ws_log ?s0 @ [(o1, None)]\<rparr>)"
  have r1: "shard_reach ?wr 2 ?s0 ?s1"
    by (rule owner_round) (simp_all add: ws_start_def assms(1) owner_write_ex)
  have l: "length (si_Owners shard_ex) = 3" by (simp add: shard_ex_def)
  have s1: "?s1 = \<lparr>ws_world = ?w1, ws_running = us @ o2 # vs, ws_chan = [], ws_left = 2, ws_wrote = 1, ws_err = None, ws_outcome = None,
      ws_log = [(o1, None)]\<rparr>"
    by (simp add: ws_start_def ws_collect_def l assms(2))
  have r2: "shard_reach ?wr 2 ?s1 (ws_collect 2 None (?s1\<lparr>ws_world := (so_NodeID o2, 1, pts) # ?w1, ws_running := us @ vs,
      ws_log := ws_log ?s1 @ [(o2, None)]\<rparr>))"
    unfolding s1 by (rule owner_round) (simp_all add: owner_write_ex)
  have "shard_reach ?wr 2 ?s0 (written_ex w o1 o2 (us @ vs) pts)"
    using shard_reach_trans [OF r1 r2] unfolding s1 by (simp add: ws_collect_def written_ex_def flip: numeral_2_eq_2)
  then show ?thesis by (simp add: writeToShard_reaches_def l flip: numeral_2_eq_2) (simp add: shard_ex_def)
qed

theorem quorum_writes_intersect_witness:
  "\<exists>ow\<in>set (si_Owners shard_ex). \<exists>w. holds_ex (so_NodeID ow) 1 [cpu_at 5] w \<and> holds_ex (so_NodeID ow) 1 [cpu_at 7] w"
proof -
  let ?o1 = "\<lparr>so_NodeID = 1\<rparr> :: ShardOwner" and ?o2 = "\<lparr>so_NodeID = 2\<rparr> :: ShardOwner" and ?o3 = "\<lparr>so_NodeID = 3\<rparr> :: ShardOwner"
  let ?s = "written_ex [] ?o1 ?o2 [?o3] [cpu_at 5]"
  have 1: "writeToShard_reaches (writers_ex 1) shard_ex ''db'' ''p'' ConsistencyLevelQuorum [cpu_at 5] [] ?s"
    using written_ex_reached [of "[]" ?o1 "[?o2, ?o3]" "[]" ?o2 "[?o3]"] by (simp add: shard_ex_def)
  have 2: "writeToShard_reaches (writers_ex 2) shard_ex ''db'' ''p'' ConsistencyLevelQuorum [cpu_at 7] (ws_world ?s)
      (written_ex (ws_world ?s) ?o2 ?o3 [?o1] [cpu_at 7])"
    using written_ex_reached [of "[?o1]" ?o2 "[?o3]" "[?o1]" ?o3 "[]"] by (simp add: shard_ex_def)
  from quorum_writes_intersect [OF stores_ex stores_ex 1 _ _ 2] show ?thesis
    by (auto simp: written_ex_def shard_ex_def)
qed

section \<open>Writing a request\<close>







section \<open>Over a connection\<close>

text \<open>
  What the other node does with a write, written without reference to the service: a live group of its metadata has the shard
  or not, and the store takes the write, refuses it, or does not have the shard.
\<close>

definition live_shard :: "Data \<Rightarrow> string \<Rightarrow> string \<Rightarrow> u64 \<Rightarrow> bool" where
  "live_shard d db rp sid \<longleftrightarrow> (\<exists>di\<in>set (d_Databases d). \<exists>p\<in>set (di_RetentionPolicies di). \<exists>g\<in>set (rpi_ShardGroups p). \<exists>sh\<in>set (sgi_Shards g).
     di_Name di = db \<and> rpi_Name p = rp \<and> sgi_DeletedAt g = 0 \<and> si_ID sh = sid)"

inductive remote_effect :: "('w, 'q) tsdb \<Rightarrow> Data \<Rightarrow> u64 \<Rightarrow> point list \<Rightarrow> 'w \<Rightarrow> 'w \<Rightarrow> string option \<Rightarrow> bool" for T d sid pts w where
  taken: "ts_WriteToShard T sid pts w = (w', None) \<Longrightarrow> remote_effect T d sid pts w w' None"
| refused: "ts_WriteToShard T sid pts w = (w', Some e) \<Longrightarrow> e \<noteq> EShardNotFound \<Longrightarrow>
    remote_effect T d sid pts w w' (Some (''write shard '' @ strconv_FormatInt (uint sid) @ '': '' @ err_text e))"
| dropped: "ts_WriteToShard T sid pts w = (w', Some EShardNotFound) \<Longrightarrow> \<not> (\<exists>db rp. live_shard d db rp sid) \<Longrightarrow>
    remote_effect T d sid pts w w' None"
| created: "ts_WriteToShard T sid pts w = (v, Some EShardNotFound) \<Longrightarrow> live_shard d db rp sid \<Longrightarrow>
    ts_CreateShard T db rp sid v = (u, None) \<Longrightarrow> ts_WriteToShard T sid pts u = (w', r) \<Longrightarrow>
    remote_effect T d sid pts w w' (map_option err_text r)"
| not_created: "ts_WriteToShard T sid pts w = (v, Some EShardNotFound) \<Longrightarrow> live_shard d db rp sid \<Longrightarrow>
    ts_CreateShard T db rp sid v = (w', Some e) \<Longrightarrow> remote_effect T d sid pts w w' (Some (err_text e))"

lemma live_shard_iff: "live_shard d db rp sid \<longleftrightarrow> (\<exists>g sh. (db, rp, g, sh) \<in> set (owned_shards d) \<and> si_ID sh = sid)"
  by (auto simp: live_shard_def owned_shards_def ShardGroupInfo_Deleted_def time_IsZero_def) blast+

lemma find_SomeD: "List.find P xs = Some x \<Longrightarrow> x \<in> set xs \<and> P x"
  by (induction xs) (auto split: if_splits)

lemma ShardOwner_live:
  "snd (Store_ShardOwner sid ms) = Inr (Some (db, rp, g)) \<Longrightarrow> live_shard (fsm_data ms) db rp sid"
  "snd (Store_ShardOwner sid ms) = Inr None \<Longrightarrow> \<not> live_shard (fsm_data ms) db rp sid"
  "snd (Store_ShardOwner sid ms) \<noteq> Inl e"
  by (auto simp: Store_ShardOwner_def read_data_eq or_invalidate_def live_shard_iff find_None_iff dest!: find_SomeD split: option.splits)

lemma write_or_create_effect:
  assumes "write_or_create T ms sid pts w = (w', e)"
  shows "remote_effect T (fsm_data ms) sid pts w w' (map_option err_text e)"
proof -
  obtain v r where v: "ts_WriteToShard T sid pts w = (v, r)" by fastforce
  consider "r = None" | x where "r = Some x" "x \<noteq> EShardNotFound" | "r = Some EShardNotFound" by (cases r) auto
  then show ?thesis
  proof cases
    case 1
    with assms v show ?thesis by (auto simp: write_or_create_def intro: taken)
  next
    case (2 x)
    then obtain t where "x = EText t" by (cases x) auto
    with assms v 2 refused [of T sid pts w v x "fsm_data ms"] show ?thesis by (auto simp: write_or_create_def)
  next
    case 3
    show ?thesis
    proof (cases "snd (Store_ShardOwner sid ms)")
      case (Inl e')
      with ShardOwner_live(3) show ?thesis by blast
    next
      case (Inr found)
      show ?thesis
      proof (cases found)
        case None
        with assms v 3 Inr have "w' = v" "e = None" by (simp_all add: write_or_create_def)
        with dropped [of T sid pts w v "fsm_data ms"] v 3 ShardOwner_live(2) [of sid ms] Inr None show ?thesis by auto
      next
        case (Some x)
        obtain db rp g where x: "x = (db, rp, g)" by (cases x)
        have l: "live_shard (fsm_data ms) db rp sid" using ShardOwner_live(1) Inr Some x by simp
        obtain u r' where u: "ts_CreateShard T db rp sid v = (u, r')" by fastforce
        note v3 = v [unfolded 3]
        show ?thesis
        proof (cases r')
          case None
          with assms v3 Inr Some x u have "ts_WriteToShard T sid pts u = (w', e)" by (simp add: write_or_create_def)
          from created [OF v3 l _ this] u None show ?thesis by simp
        next
          case (Some y)
          with assms v3 Inr \<open>found = Some x\<close> x u have "w' = u" "e = Some y" by (simp_all add: write_or_create_def)
          with not_created [OF v3 l, of u y] u Some show ?thesis by simp
        qed
      qed
    qed
  qed
qed

text \<open>
  C17. A remote write.  Points that survive printing, sent to another node over a connection, reach the store of that node as points with the
  same names, tags, fields and times in the same order, and that node does exactly this with them: its store takes them, or refuses them with an error, or,
  if it does not have the shard, the shard is created if a live group of the metadata has it and the write is made again, and the write is dropped and answered with
  success otherwise (as for a shard whose group has been deleted).  The caller gets the text of the error, if there was one, and success otherwise.
\<close>

theorem remote_write_delivers:
  assumes "list_all (printable F) xs" and "list_all2 (\<lambda>(name, tags, flds, t) p. NewPoint spare F name tags flds t = Inr p) xs ps"
    and "carries (cd_marshal_wsq D) (cd_unmarshal_wsq D) (write_request sid ps)"
    and "\<forall>qs. carries (cd_marshal_wsp D) (cd_unmarshal_wsp D) (write_response (snd (write_or_create T ms sid qs w)))"
  shows "\<exists>qs w' e. list_all2 (reads_as F) qs xs \<and> remote_effect T (fsm_data ms) sid qs w w' e \<and>
    (\<exists>out. Service_handleConn D F now parse T ms (write_message D sid ps) w = (w', out, None)) \<and>
    ShardWriter_WriteShard D (Inr (Inr (peer D F now parse T ms w))) sid ps = Inr (map_option (\<lambda>t. EText (''error code 1: '' @ t)) e)"
proof -
  have "list_all2 (\<lambda>x p. printable F x \<and> point_String p = spec_line F x) xs ps"
    using assms(2,1)
  proof (induction rule: list_all2_induct)
    case (Cons x xs p ps)
    then show ?case using NewPoint_printed [of F "fst x" "fst (snd x)" "fst (snd (snd x))" "snd (snd (snd x))" spare]
      by (auto simp: case_prod_beta)
  qed simp
  then obtain qs where qs: "unmarshal_each F now (map (\<lambda>p. bytes_of (point_String p)) ps) = Inr qs"
      "list_all2 (\<lambda>q x. reads_as F q x \<and> gb (point_Key q) = spec_key x) qs xs"
    using unmarshal_printed [of F xs ps now] by blast
  have pts: "WriteShardRequest_Points F now (write_request sid ps) = Inr qs"
    using qs(1) by (simp add: WriteShardRequest_Points_def WriteShardRequest_unmarshalPoints_def write_request_def AddPoints_eq
      WriteShardRequest_SetShardID_def)
  obtain w' e where we: "write_or_create T ms sid qs w = (w', e)" by (cases "write_or_create T ms sid qs w")
  have car: "carries (cd_marshal_wsp D) (cd_unmarshal_wsp D) (write_response e)" using assms(4) [rule_format, of qs] we by simp
  have "list_all2 (reads_as F) qs xs" using qs(2) by (rule list_all2_mono) simp
  moreover note write_or_create_effect [OF we]
  moreover note write_over_connection [OF assms(3) car pts we, of parse]
  ultimately show ?thesis by (intro exI [of _ qs] exI [of _ w'] exI [of _ "map_option err_text e"]) (simp add: option.map_comp comp_def)
qed

text \<open>A codec that knows one request, a store that counts points, and a node with an empty metastore.\<close>

definition codec_ex :: "WriteShardRequest \<Rightarrow> MapShardRequest \<Rightarrow> MapShardResponse list \<Rightarrow> codec" where
  "codec_ex q mq mps = \<lparr>cd_marshal_wsq = (\<lambda>m. if m = q then Some [1] else None), cd_unmarshal_wsq = (\<lambda>b. if b = [1] then Some q else None),
     cd_marshal_wsp = (\<lambda>m. if m = write_response None then Some [1] else None), cd_unmarshal_wsp = (\<lambda>b. if b = [1] then Some (write_response None) else None),
     cd_marshal_msq = (\<lambda>m. if m = mq then Some [1] else None), cd_unmarshal_msq = (\<lambda>b. if b = [1] then Some mq else None),
     cd_marshal_msp = (\<lambda>m. map_option (\<lambda>i. replicate (Suc i) 1) (List.find (\<lambda>i. mps ! i = m) [0..<length mps])),
     cd_unmarshal_msp = (\<lambda>b. if 0 < length b \<and> length b \<le> length mps then Some (mps ! (length b - 1)) else None)\<rparr>"

definition mapper_ex :: mapper where
  "mapper_ex = \<lparr>mp_Open = None, mp_TagSets = [''host=a''], mp_Fields = [''v''], mp_chunks = [ChunkData [7], ChunkData [8]]\<rparr>"

definition tsdb_ex :: "(nat, string) tsdb" where
  "tsdb_ex = \<lparr>ts_WriteToShard = (\<lambda>_ pts w. (w + length pts, None)), ts_CreateShard = (\<lambda>_ _ _ w. (w, None)),
     ts_CreateMapper = (\<lambda>_ _ _ _. Inr (Some mapper_ex))\<rparr>"

text \<open>A store that does not have its shard until it is created (\<open>None\<close>), and then counts points.\<close>

definition tsdb_new :: "(nat option, string) tsdb" where
  "tsdb_new = \<lparr>ts_WriteToShard = (\<lambda>_ pts w. case w of None \<Rightarrow> (None, Some EShardNotFound) | Some n \<Rightarrow> (Some (n + length pts), None)),
     ts_CreateShard = (\<lambda>_ _ _ w. (Some 0, None)), ts_CreateMapper = (\<lambda>_ _ _ _. Inr None)\<rparr>"

lemma live_ex: "live_shard ex_data3 db rp 1 \<longleftrightarrow> db = ''db'' \<and> rp = ''p''"
  by (auto simp: live_shard_def ex_data3_def ex_db_def ex_policy_def ex_group_def)

lemma tsdb_new_effect:
  assumes "remote_effect tsdb_new ex_data3 1 qs None w' e"
  shows "w' = Some (length qs) \<and> e = None"
  using assms by cases (auto simp: tsdb_new_def live_ex)

theorem remote_write_delivers_witness:
  "\<exists>p D. NewPoint (\<lambda>_. []) float_ex (fst spec_ex) (fst (snd spec_ex)) (fst (snd (snd spec_ex))) (snd (snd (snd spec_ex))) = Inr p \<and>
     (\<exists>out. Service_handleConn D float_ex 0 (\<lambda>_. Inr []) tsdb_new (ex_fsm\<lparr>fsm_data := ex_data3\<rparr>) (write_message D 1 [p]) None = (Some 1, out, None)) \<and>
     ShardWriter_WriteShard D (Inr (Inr (peer D float_ex 0 (\<lambda>_. Inr []) tsdb_new (ex_fsm\<lparr>fsm_data := ex_data3\<rparr>) None))) 1 [p] = Inr None"
proof -
  let ?ms = "ex_fsm\<lparr>fsm_data := ex_data3\<rparr>"
  obtain name tags flds t where x: "spec_ex = (name, tags, flds, t)" by (cases spec_ex)
  obtain p where p: "NewPoint (\<lambda>_. []) float_ex name tags flds t = Inr p"
    using NewPoint_printed [of float_ex name tags flds t "\<lambda>_. []"] printable_ex x by auto
  let ?D = "codec_ex (write_request 1 [p]) new_MapShardRequest []"
  have pr: "list_all (printable float_ex) [spec_ex]" using printable_ex by simp
  have ps: "list_all2 (\<lambda>(name, tags, flds, t) p. NewPoint (\<lambda>_. []) float_ex name tags flds t = Inr p) [spec_ex] [p]" using p by (simp add: x)
  have w: "snd (write_or_create tsdb_new ?ms 1 qs None) = None" for qs
    using tsdb_new_effect [of qs "fst (write_or_create tsdb_new ?ms 1 qs None)"]
      write_or_create_effect [of tsdb_new ?ms 1 qs None "fst (write_or_create tsdb_new ?ms 1 qs None)" "snd (write_or_create tsdb_new ?ms 1 qs None)"]
    by auto
  have c: "carries (cd_marshal_wsq ?D) (cd_unmarshal_wsq ?D) (write_request 1 [p])" by (simp add: carries_def codec_ex_def MaxMessageSize_def)
  have r: "\<forall>qs. carries (cd_marshal_wsp ?D) (cd_unmarshal_wsp ?D) (write_response (snd (write_or_create tsdb_new ?ms 1 qs None)))"
    by (simp add: w carries_def codec_ex_def MaxMessageSize_def)
  obtain qs w' e where q: "list_all2 (reads_as float_ex) qs [spec_ex]" "remote_effect tsdb_new ex_data3 1 qs None w' e"
      "\<exists>out. Service_handleConn ?D float_ex 0 (\<lambda>_. Inr []) tsdb_new ?ms (write_message ?D 1 [p]) None = (w', out, None)"
      "ShardWriter_WriteShard ?D (Inr (Inr (peer ?D float_ex 0 (\<lambda>_. Inr []) tsdb_new ?ms None))) 1 [p] =
        Inr (map_option (\<lambda>t. EText (''error code 1: '' @ t)) e)"
    using remote_write_delivers [OF pr ps c r, of 0 "\<lambda>_. Inr []"] by auto
  have "w' = Some 1" "e = None" using tsdb_new_effect [OF q(2)] list_all2_lengthD [OF q(1)] by simp_all
  with q p show ?thesis unfolding x fst_conv snd_conv by (intro exI [of _ p] exI [of _ ?D]) simp
qed

text \<open>
  C35. A query of a remote shard.  A mapper that another node runs, used over the connection, has the tag sets and the fields of that
  mapper, and calling \<open>NextChunk\<close> again and again returns its chunks, each decoded, in their order and once, and then the end.
\<close>

theorem remote_mapper_refines:
  assumes "carries (cd_marshal_msq D) (cd_unmarshal_msq D) (map_request (NewRemoteMapper sid query n))"
    and "carries_all D (map_responses m False bs)"
    and "parse query = Inr [stmt]" and "ts_CreateMapper T sid stmt (to_int32 n) w = Inr (Some m)"
    and "mp_Open m = None" and "mp_chunks m = map ChunkData bs"
  shows "\<exists>r. RemoteMapper_Open D (peer D F now parse T ms w) None (NewRemoteMapper sid query n) = (r, Inr None) \<and>
    RemoteMapper_TagSets r = mp_TagSets m \<and> RemoteMapper_Fields r = mp_Fields m \<and>
    next_chunks D decode (Suc (length bs)) r = map (\<lambda>b. Inr (map_sum (\<lambda>e. e) Some (decode b))) bs @ [Inr (Inr None)]"
proof -
  let ?start = "NewRemoteMapper sid query n" let ?req = "map_request ?start"
  have req: "MapShardRequest_Query ?req = query" "MapShardRequest_ShardID ?req = sid" "MapShardRequest_ChunkSize ?req = to_int32 n"
    by (simp_all add: map_request_def NewRemoteMapper_def MapShardRequest_Query_def MapShardRequest_ShardID_def MapShardRequest_ChunkSize_def
      MapShardRequest_SetChunkSize_def MapShardRequest_SetQuery_def MapShardRequest_SetShardID_def)
  obtain buf where buf: "cd_marshal_msq D ?req = Some buf" using assms(1) by (auto elim: carriesE)
  obtain out where out: "send_chunks D m False (map ChunkData bs) = (out, None)" "\<forall>rest. reads_back D (out @ rest) (map_responses m False bs) rest"
    using send_chunks_read [OF assms(2)] by blast
  have h: "Service_handleConn D F now parse T ms (WriteTLV mapShardRequestMessage buf) w = (w, out, None)"
    using handleConn_map [OF assms(1) buf _ _ assms(5,6) out(1)] assms(3,4) by (simp add: req)
  obtain resp rs where first: "map_responses m False bs = resp # rs" "MapShardResponse_TagSets resp = mp_TagSets m" "MapShardResponse_Fields resp = mp_Fields m"
    using map_responses_first [of m bs] by blast
  obtain rest where rest: "read_response D out = Inr (Inr (resp, rest))" "reads_back D rest rs []"
    using out(2) [rule_format, of "[]"] first(1) by auto
  let ?r = "?start\<lparr>rm_in := rest, rm_bufferedResponse := Some resp, rm_tagsets := mp_TagSets m, rm_fields := mp_Fields m\<rparr>"
  have "RemoteMapper_Open D (peer D F now parse T ms w) None ?start = (?r, Inr None)"
    using buf h rest(1) first by (simp add: RemoteMapper_Open_def peer_def)
  moreover have "next_chunks D decode (Suc (length bs)) ?r = map (\<lambda>resp. Inr (decode_response decode resp)) (map_responses m False bs)"
    using next_chunks_read [of D "?r\<lparr>rm_bufferedResponse := None\<rparr>" rs "[]" decode] rest(2) length_map_responses [of m False bs] first(1)
    by (simp add: RemoteMapper_NextChunk_def)
  moreover have "map (\<lambda>resp. Inr (decode_response decode resp)) (map_responses m False bs) = map Inr (map (decode_response decode) (map_responses m False bs))"
    by simp
  ultimately show ?thesis unfolding decode_responses
    by (intro exI [of _ ?r]) (simp add: RemoteMapper_TagSets_def RemoteMapper_Fields_def comp_def)
qed

theorem remote_mapper_refines_witness:
  "\<exists>D r. RemoteMapper_Open D (peer D float_ex 0 (\<lambda>_. Inr [''q'']) tsdb_ex ex_fsm 0) None (NewRemoteMapper 7 ''q'' 10) = (r, Inr None) \<and>
     RemoteMapper_TagSets r = [''host=a''] \<and> next_chunks D Inr 3 r = [Inr (Inr (Some [7])), Inr (Inr (Some [8])), Inr (Inr None)]"
proof -
  let ?q = "map_request (NewRemoteMapper 7 ''q'' 10)" let ?rs = "map_responses mapper_ex False [[7], [8]]"
  let ?D = "codec_ex new_WriteShardRequest ?q ?rs"
  have c: "carries (cd_marshal_msq ?D) (cd_unmarshal_msq ?D) ?q" by (simp add: carries_def codec_ex_def MaxMessageSize_def)
  have "carries_all ?D ?rs" by code_simp
  from remote_mapper_refines [OF c this, of "\<lambda>_. Inr [''q'']" "''q''" tsdb_ex 0 float_ex 0 ex_fsm Inr]
  show ?thesis by (intro exI [of _ ?D]) (auto simp: tsdb_ex_def mapper_ex_def numeral_3_eq_3)
qed

section \<open>Balancing\<close>

lemma mset_window:
  assumes "xs \<noteq> []"
  shows "mset (map (\<lambda>i. xs ! (i mod length xs)) [k..<k + length xs]) = mset xs"
proof (induction k)
  case 0
  have "map (\<lambda>i. xs ! (i mod length xs)) [0..<length xs] = xs" by (rule nth_equalityI) simp_all
  then show ?case by simp
next
  case (Suc k)
  have e: "[k..<k + length xs] = k # [Suc k..<k + length xs]" "[Suc k..<Suc k + length xs] = [Suc k..<k + length xs] @ [k + length xs]"
    using assms by (simp_all add: upt_conv_Cons Suc_le_eq)
  show ?case using Suc unfolding e by simp
qed

text \<open>
  C40. The balancer is fair: whatever the random numbers, out of as many answers in a row as there are nodes, at any point, every node is
  returned exactly once; without nodes there is no answer.
\<close>

theorem balancer_fair:
  assumes "\<forall>i. rnd i \<le> i"
  shows "mset (drop k (snd (next_calls (k + length nodes) (NewNodeBalancer rnd nodes)))) = mset (map Some nodes) \<and>
    (nodes = [] \<longrightarrow> nodeBalancer_Next (NewNodeBalancer rnd nodes) = (NewNodeBalancer rnd nodes, None))"
proof (cases "nodes = []")
  case True
  then have n: "nodeBalancer_Next (NewNodeBalancer rnd nodes) = (NewNodeBalancer rnd nodes, None)"
    by (simp add: nodeBalancer_Next_def nodeBalancer_online_def NewNodeBalancer_def nodeBalancer_shuffle_def)
  then have "length (snd (next_calls j (NewNodeBalancer rnd nodes))) = j" for j by (induction j) (simp_all add: case_prod_beta)
  with n True show ?thesis by simp
next
  case False
  let ?b = "NewNodeBalancer rnd nodes" let ?n = "nb_nodes ?b"
  have m: "mset ?n = mset nodes" by (rule mset_shuffle [OF assms])
  then have l: "length ?n = length nodes" by (metis size_mset)
  have ne: "?n \<noteq> []" using False l by auto
  have p: "nb_p ?b = 0" by (simp add: NewNodeBalancer_def nodeBalancer_shuffle_def)
  have "snd (next_calls (k + length nodes) ?b) = map (\<lambda>i. Some (?n ! (i mod length ?n))) [0..<k + length nodes]"
    using next_calls_at [OF ne, of "k + length nodes"] p by simp
  then have "drop k (snd (next_calls (k + length nodes) ?b)) = map Some (map (\<lambda>i. ?n ! (i mod length ?n)) [k..<k + length ?n])"
    using l by (simp add: drop_map)
  then have "mset (drop k (snd (next_calls (k + length nodes) ?b))) = image_mset Some (mset ?n)"
    using mset_window [OF ne, of k] by (metis mset_map)
  with m False show ?thesis by simp
qed

theorem balancer_fair_witness:
  "mset (drop 1 (snd (next_calls (1 + 3) (NewNodeBalancer (\<lambda>_. 0) (d_Nodes ex_data))))) = mset (map Some (d_Nodes ex_data))"
proof -
  have n: "length (d_Nodes ex_data) = 3" by (simp add: ex_data_def)
  show ?thesis using balancer_fair [of "\<lambda>_. 0" 1 "d_Nodes ex_data"] unfolding n by blast
qed

end
