(* ===== verification/Go_Float.thy ===== *)
theory Go_Float
  imports Bytes
begin

text \<open>
  Go's \<open>float64\<close>: IEEE 754 binary64 numbers as their bits, with the comparisons, the arithmetic rounded to
  nearest (ties to even) and the conversions from and to \<open>int64\<close>.  Every finite number is an integral multiple
  of \<open>2\<^sup>-\<^sup>1\<^sup>0\<^sup>7\<^sup>4\<close>, so its value is kept as that integer and all roundings are roundings of a fraction of natural
  numbers.  The payload of a NaN that an operation returns is not observable by comparisons; it is the one of
  \<open>math.NaN\<close>.  A conversion to \<open>int64\<close> out of range gives the least \<open>int64\<close>, as on amd64.
\<close>

definition f64_neg :: "u64 \<Rightarrow> bool" where
  "f64_neg x = bit x 63"

definition f64_exp :: "u64 \<Rightarrow> nat" where
  "f64_exp x = (unat x div 2 ^ 52) mod 2 ^ 11"

definition f64_frac :: "u64 \<Rightarrow> nat" where
  "f64_frac x = unat x mod 2 ^ 52"

definition f64_mag :: "u64 \<Rightarrow> nat" where
  "f64_mag x = (if f64_exp x = 0 then f64_frac x else (2 ^ 52 + f64_frac x) * 2 ^ (f64_exp x - 1))"

text \<open>The value in units of \<open>2\<^sup>-\<^sup>1\<^sup>0\<^sup>7\<^sup>4\<close>; an infinity counts as the power of two behind the largest number.\<close>

definition f64_val :: "u64 \<Rightarrow> int" where
  "f64_val x = (if f64_neg x then - int (f64_mag x) else int (f64_mag x))"

definition f64_isinf :: "u64 \<Rightarrow> bool" where
  "f64_isinf x \<longleftrightarrow> f64_exp x = 2047 \<and> f64_frac x = 0"

definition f64_inf :: u64 where "f64_inf = 0x7FF0000000000000"
definition f64_sign :: u64 where "f64_sign = 0x8000000000000000"
definition f64_unit :: nat where "f64_unit = 2 ^ 1074"

section \<open>Comparisons\<close>

definition f64_eq :: "u64 \<Rightarrow> u64 \<Rightarrow> bool" where
  "f64_eq x y \<longleftrightarrow> \<not> math_IsNaN x \<and> \<not> math_IsNaN y \<and> f64_val x = f64_val y"

definition f64_lt :: "u64 \<Rightarrow> u64 \<Rightarrow> bool" where
  "f64_lt x y \<longleftrightarrow> \<not> math_IsNaN x \<and> \<not> math_IsNaN y \<and> f64_val x < f64_val y"

definition f64_le :: "u64 \<Rightarrow> u64 \<Rightarrow> bool" where
  "f64_le x y \<longleftrightarrow> \<not> math_IsNaN x \<and> \<not> math_IsNaN y \<and> f64_val x \<le> f64_val y"

section \<open>Rounding\<close>

text \<open>How many low bits of the quotient do not fit into the 53 bits of a significand.\<close>

fun f64_shift :: "nat \<Rightarrow> nat" where
  "f64_shift q = (if q < 2 ^ 53 then 0 else Suc (f64_shift (q div 2)))"

declare f64_shift.simps [simp del]

definition f64_pack :: "bool \<Rightarrow> nat \<Rightarrow> u64" where
  "f64_pack neg b = (if neg then f64_sign else 0) + of_nat (min b (unat f64_inf))"

text \<open>The float nearest to \<open>num / den\<close> units.\<close>

definition f64_round :: "bool \<Rightarrow> nat \<Rightarrow> nat \<Rightarrow> u64" where
  "f64_round neg num den =
     (let s = f64_shift (num div den); d = den * 2 ^ s; m = num div d; r = num mod d;
          m = (if 2 * r > d \<or> 2 * r = d \<and> odd m then m + 1 else m)
      in f64_pack neg (s * 2 ^ 52 + m))"

section \<open>Arithmetic\<close>

definition f64_add :: "u64 \<Rightarrow> u64 \<Rightarrow> u64" where
  "f64_add x y =
     (if math_IsNaN x \<or> math_IsNaN y then math_NaN
      else if f64_isinf x then (if f64_isinf y \<and> f64_neg x \<noteq> f64_neg y then math_NaN else x)
      else if f64_isinf y then y
      else let v = f64_val x + f64_val y in
        if v = 0 then (if f64_neg x \<and> f64_neg y then f64_sign else 0) else f64_round (v < 0) (nat \<bar>v\<bar>) 1)"

definition f64_sub :: "u64 \<Rightarrow> u64 \<Rightarrow> u64" where
  "f64_sub x y = f64_add x (y XOR f64_sign)"

definition f64_mul :: "u64 \<Rightarrow> u64 \<Rightarrow> u64" where
  "f64_mul x y =
     (let neg = (f64_neg x \<noteq> f64_neg y) in
      if math_IsNaN x \<or> math_IsNaN y then math_NaN
      else if f64_isinf x \<or> f64_isinf y then
        (if f64_mag x = 0 \<or> f64_mag y = 0 then math_NaN else f64_pack neg (unat f64_inf))
      else f64_round neg (f64_mag x * f64_mag y) f64_unit)"

definition f64_div :: "u64 \<Rightarrow> u64 \<Rightarrow> u64" where
  "f64_div x y =
     (let neg = (f64_neg x \<noteq> f64_neg y) in
      if math_IsNaN x \<or> math_IsNaN y \<or> f64_isinf x \<and> f64_isinf y then math_NaN
      else if f64_isinf x then f64_pack neg (unat f64_inf)
      else if f64_isinf y then f64_pack neg 0
      else if f64_mag y = 0 then (if f64_mag x = 0 then math_NaN else f64_pack neg (unat f64_inf))
      else f64_round neg (f64_mag x * f64_unit) (f64_mag y))"

definition f64_of_int :: "int \<Rightarrow> u64" where
  "f64_of_int i = f64_round (i < 0) (nat \<bar>i\<bar> * f64_unit) 1"

definition f64_to_int :: "u64 \<Rightarrow> int" where
  "f64_to_int x =
     (let i = go_quot (f64_val x) (int f64_unit) in if math_IsNaN x \<or> \<not> is_int64 i then - (2 ^ 63) else i)"

section \<open>Rounding is exact on floats\<close>

lemma f64_shift_0 [simp]: "q < 2 ^ 53 \<Longrightarrow> f64_shift q = 0"
  by (simp add: f64_shift.simps)

lemma f64_shift_mult:
  assumes "2 ^ 52 \<le> m" and "m < 2 ^ 53"
  shows "f64_shift (m * 2 ^ s) = s"
proof (induction s)
  case 0
  then show ?case using assms by simp
next
  case (Suc s)
  have "2 ^ 52 * 2 ^ 1 \<le> m * (2 * 2 ^ s :: nat)" using assms(1) by (intro mult_le_mono) simp_all
  then have "\<not> m * 2 ^ Suc s < 2 ^ 53" by simp
  moreover have "m * 2 ^ Suc s div 2 = m * 2 ^ s" by simp
  ultimately show ?case using Suc by (subst f64_shift.simps) simp
qed

lemma f64_bits: "unat x = (if f64_neg x then 2 ^ 63 else 0) + f64_exp x * 2 ^ 52 + f64_frac x"
proof -
  have u: "unat x < 2 ^ 64" using unsigned_less [of x] by simp
  have neg: "f64_neg x \<longleftrightarrow> 2 ^ 63 \<le> unat x"
  proof -
    have "f64_neg x \<longleftrightarrow> bit (unat x) 63" by (simp add: f64_neg_def bit_unsigned_iff)
    then have "f64_neg x \<longleftrightarrow> odd (unat x div 2 ^ 63)" by (simp only: bit_iff_odd)
    moreover have "unat x div 2 ^ 63 < 2" using u by (simp add: less_mult_imp_div_less)
    moreover have "unat x div 2 ^ 63 = 0 \<longleftrightarrow> unat x < 2 ^ 63" by (simp add: div_eq_0_iff)
    ultimately show ?thesis by (metis less_2_cases not_le odd_one even_zero One_nat_def)
  qed
  have "unat x div 2 ^ 52 = (if f64_neg x then 2 ^ 11 else 0) + f64_exp x"
  proof -
    have "unat x div 2 ^ 52 = (unat x div 2 ^ 52) div 2 ^ 11 * 2 ^ 11 + f64_exp x"
      unfolding f64_exp_def by (simp add: mult.commute)
    moreover have "(unat x div 2 ^ 52) div 2 ^ 11 = unat x div 2 ^ 63" by (simp add: div_mult2_eq [symmetric])
    moreover have "unat x div 2 ^ 63 = (if f64_neg x then 1 else 0)"
      using u neg by (auto simp: div_eq_0_iff intro!: div_nat_eqI)
    ultimately show ?thesis by simp
  qed
  moreover have "unat x = unat x div 2 ^ 52 * 2 ^ 52 + f64_frac x" by (simp add: f64_frac_def)
  ultimately show ?thesis by (simp split: if_splits)
qed

lemma f64_exp_less: "f64_exp x < 2048" by (simp add: f64_exp_def)
lemma f64_frac_less: "f64_frac x < 2 ^ 52" by (simp add: f64_frac_def)

lemma f64_pack_bits:
  assumes "f64_exp x < 2047 \<or> f64_frac x = 0"
  shows "f64_pack (f64_neg x) (f64_exp x * 2 ^ 52 + f64_frac x) = x"
proof -
  have "f64_exp x * 2 ^ 52 + f64_frac x \<le> unat f64_inf"
    using assms f64_exp_less [of x] f64_frac_less [of x] by (auto simp: f64_inf_def)
  then have "f64_pack (f64_neg x) (f64_exp x * 2 ^ 52 + f64_frac x) = of_nat (unat x)"
    by (simp add: f64_pack_def f64_bits [of x] f64_sign_def)
  then show ?thesis by simp
qed

text \<open>A float is the float nearest to its own value, so operations with an exact result return it.\<close>

lemma f64_round_exact:
  assumes "f64_exp x < 2047"
  shows "f64_round (f64_neg x) (f64_mag x) 1 = x"
proof (cases "f64_exp x = 0")
  case True
  then show ?thesis using f64_frac_less [of x] f64_pack_bits [of x] assms
    by (simp add: f64_round_def f64_mag_def Let_def)
next
  case False
  then obtain s where e: "f64_exp x = Suc s" by (cases "f64_exp x") simp_all
  have "f64_shift ((2 ^ 52 + f64_frac x) * 2 ^ s) = s" using f64_frac_less [of x] by (intro f64_shift_mult) simp_all
  then show ?thesis using f64_pack_bits [of x] assms
    by (simp add: f64_round_def f64_mag_def Let_def e ac_simps)
qed

end
