(* ===== verification/Query_Expr.thy ===== *)
theory Query_Expr
  imports Go_Float Models_Base
begin

text \<open>
  Expressions of the query language (\<open>influxql/ast.go\<close>): the tree, evaluation against the values of a point
  (\<open>Eval\<close>) and reduction (\<open>Reduce\<close>).  Trees come from the parser, so no operand is nil; a nil expression is an
  option where the sources have one.  \<open>None\<close> as the result of a reduction is a run-time panic.  A regular
  expression is its source text; matching it is a parameter of the code that does so.  The tokens \<open>AND\<close> and \<open>OR\<close> are
  \<open>LAND\<close> and \<open>LOR\<close> here.
\<close>

datatype Token = ADD | SUB | MUL | DIV | LAND | LOR | EQ | NEQ | EQREGEX | NEQREGEX | LT | LTE | GT | GTE

datatype Expr =
    BinaryExpr Token Expr Expr
  | BooleanLiteral bool
  | Call string "Expr list"
  | Distinct string
  | DurationLiteral duration
  | nilLiteral
  | NumberLiteral u64
  | ParenExpr Expr
  | RegexLiteral string
  | StringLiteral string
  | TimeLiteral time
  | VarRef string
  | Wildcard

text \<open>The values an \<open>interface{}\<close> holds here.\<close>

datatype gval = VNil | VBool bool | VFloat u64 | VInt int | VString string | VTime time | VDuration duration

section \<open>Evaluation\<close>

definition as_bool :: "gval \<Rightarrow> bool" where
  "as_bool v = (case v of VBool b \<Rightarrow> b | _ \<Rightarrow> False)"

definition as_float :: "gval \<Rightarrow> u64" where
  "as_float v = (case v of VFloat f \<Rightarrow> f | _ \<Rightarrow> 0)"

definition as_string :: "gval \<Rightarrow> string" where
  "as_string v = (case v of VString s \<Rightarrow> s | _ \<Rightarrow> [])"

definition eval_bools :: "Token \<Rightarrow> bool \<Rightarrow> bool \<Rightarrow> gval" where
  "eval_bools op lhs rhs =
     (case op of LAND \<Rightarrow> VBool (lhs \<and> rhs) | LOR \<Rightarrow> VBool (lhs \<or> rhs) | EQ \<Rightarrow> VBool (lhs = rhs) | NEQ \<Rightarrow> VBool (lhs \<noteq> rhs)
      | _ \<Rightarrow> VNil)"

definition eval_floats :: "Token \<Rightarrow> u64 \<Rightarrow> u64 \<Rightarrow> gval" where
  "eval_floats op lhs rhs =
     (case op of
        EQ \<Rightarrow> VBool (f64_eq lhs rhs) | NEQ \<Rightarrow> VBool (\<not> f64_eq lhs rhs)
      | LT \<Rightarrow> VBool (f64_lt lhs rhs) | LTE \<Rightarrow> VBool (f64_le lhs rhs)
      | GT \<Rightarrow> VBool (f64_lt rhs lhs) | GTE \<Rightarrow> VBool (f64_le rhs lhs)
      | ADD \<Rightarrow> VFloat (f64_add lhs rhs) | SUB \<Rightarrow> VFloat (f64_sub lhs rhs) | MUL \<Rightarrow> VFloat (f64_mul lhs rhs)
      | DIV \<Rightarrow> VFloat (if f64_eq rhs 0 then 0 else f64_div lhs rhs)
      | _ \<Rightarrow> VNil)"

definition eval_ints :: "Token \<Rightarrow> int \<Rightarrow> int \<Rightarrow> gval" where
  "eval_ints op lhs rhs =
     (case op of
        EQ \<Rightarrow> VBool (lhs = rhs) | NEQ \<Rightarrow> VBool (lhs \<noteq> rhs)
      | LT \<Rightarrow> VBool (lhs < rhs) | LTE \<Rightarrow> VBool (lhs \<le> rhs) | GT \<Rightarrow> VBool (lhs > rhs) | GTE \<Rightarrow> VBool (lhs \<ge> rhs)
      | ADD \<Rightarrow> VInt (to_int64 (lhs + rhs)) | SUB \<Rightarrow> VInt (to_int64 (lhs - rhs)) | MUL \<Rightarrow> VInt (to_int64 (lhs * rhs))
      | DIV \<Rightarrow> VInt (if rhs = 0 then 0 else to_int64 (go_quot lhs rhs))
      | _ \<Rightarrow> VNil)"

definition eval_strings :: "Token \<Rightarrow> string \<Rightarrow> string \<Rightarrow> gval" where
  "eval_strings op lhs rhs = (case op of EQ \<Rightarrow> VBool (lhs = rhs) | NEQ \<Rightarrow> VBool (lhs \<noteq> rhs) | _ \<Rightarrow> VNil)"

definition evalBinaryExpr :: "Token \<Rightarrow> gval \<Rightarrow> gval \<Rightarrow> gval" where
  "evalBinaryExpr op lhs rhs =
     (case lhs of
        VBool l \<Rightarrow> eval_bools op l (as_bool rhs)
      | VFloat l \<Rightarrow> eval_floats op l (as_float rhs)
      | VInt l \<Rightarrow> eval_ints op l (f64_to_int (as_float rhs))
      | VString l \<Rightarrow> eval_strings op l (as_string rhs)
      | _ \<Rightarrow> VNil)"

fun Eval :: "(string \<rightharpoonup> gval) \<Rightarrow> Expr \<Rightarrow> gval" where
  "Eval m (BinaryExpr op lhs rhs) = evalBinaryExpr op (Eval m lhs) (Eval m rhs)"
| "Eval m (BooleanLiteral b) = VBool b"
| "Eval m (NumberLiteral f) = VFloat f"
| "Eval m (ParenExpr e) = Eval m e"
| "Eval m (StringLiteral s) = VString s"
| "Eval m (VarRef x) = (case m x of None \<Rightarrow> VNil | Some v \<Rightarrow> v)"
| "Eval m _ = VNil"

definition EvalBool :: "(string \<rightharpoonup> gval) \<Rightarrow> Expr \<Rightarrow> bool" where
  "EvalBool m e = as_bool (Eval m e)"

section \<open>Reduction\<close>

type_synonym Valuer = "string \<Rightarrow> gval option"

text \<open>A deep copy; the internal nil literal is not among the cases and panics.\<close>

fun CloneExpr :: "Expr \<Rightarrow> Expr option" where
  "CloneExpr (BinaryExpr op lhs rhs) =
     (case (CloneExpr lhs, CloneExpr rhs) of (Some l, Some r) \<Rightarrow> Some (BinaryExpr op l r) | _ \<Rightarrow> None)"
| "CloneExpr (Call f args) = map_option (Call f) (those (map CloneExpr args))"
| "CloneExpr (ParenExpr e) = map_option ParenExpr (CloneExpr e)"
| "CloneExpr nilLiteral = None"
| "CloneExpr e = Some e"

definition isTrueLiteral :: "Expr \<Rightarrow> bool" where
  "isTrueLiteral e \<longleftrightarrow> e = BooleanLiteral True"

definition isFalseLiteral :: "Expr \<Rightarrow> bool" where
  "isFalseLiteral e \<longleftrightarrow> e = BooleanLiteral False"

definition reduceBinaryExprBooleanLHS :: "Token \<Rightarrow> bool \<Rightarrow> Expr \<Rightarrow> Expr" where
  "reduceBinaryExprBooleanLHS op lhs rhs =
     (case rhs of
        BooleanLiteral r \<Rightarrow>
          (case op of EQ \<Rightarrow> BooleanLiteral (lhs = r) | NEQ \<Rightarrow> BooleanLiteral (lhs \<noteq> r)
           | LAND \<Rightarrow> BooleanLiteral (lhs \<and> r) | LOR \<Rightarrow> BooleanLiteral (lhs \<or> r)
           | _ \<Rightarrow> BinaryExpr op (BooleanLiteral lhs) rhs)
      | nilLiteral \<Rightarrow> BooleanLiteral False
      | _ \<Rightarrow> BinaryExpr op (BooleanLiteral lhs) rhs)"

text \<open>The division converts the divisor to an integer behind the test for zero.\<close>

definition reduceBinaryExprDurationLHS :: "Token \<Rightarrow> duration \<Rightarrow> Expr \<Rightarrow> Expr option" where
  "reduceBinaryExprDurationLHS op lhs rhs =
     (case rhs of
        DurationLiteral r \<Rightarrow>
          Some (case op of ADD \<Rightarrow> DurationLiteral (to_int64 (lhs + r)) | SUB \<Rightarrow> DurationLiteral (to_int64 (lhs - r))
           | EQ \<Rightarrow> BooleanLiteral (lhs = r) | NEQ \<Rightarrow> BooleanLiteral (lhs \<noteq> r)
           | GT \<Rightarrow> BooleanLiteral (lhs > r) | GTE \<Rightarrow> BooleanLiteral (lhs \<ge> r)
           | LT \<Rightarrow> BooleanLiteral (lhs < r) | LTE \<Rightarrow> BooleanLiteral (lhs \<le> r)
           | _ \<Rightarrow> BinaryExpr op (DurationLiteral lhs) rhs)
      | NumberLiteral r \<Rightarrow>
          (case op of MUL \<Rightarrow> Some (DurationLiteral (to_int64 (lhs * f64_to_int r)))
           | DIV \<Rightarrow>
               (if f64_eq r 0 then Some (DurationLiteral 0)
                else if f64_to_int r = 0 then None
                else Some (DurationLiteral (to_int64 (go_quot lhs (f64_to_int r)))))
           | _ \<Rightarrow> Some (BinaryExpr op (DurationLiteral lhs) rhs))
      | TimeLiteral r \<Rightarrow>
          Some (case op of ADD \<Rightarrow> TimeLiteral (r + lhs) | _ \<Rightarrow> BinaryExpr op (DurationLiteral lhs) rhs)
      | nilLiteral \<Rightarrow> Some (BooleanLiteral False)
      | _ \<Rightarrow> Some (BinaryExpr op (DurationLiteral lhs) rhs))"

definition reduceBinaryExprNilLHS :: "Token \<Rightarrow> Expr \<Rightarrow> Expr" where
  "reduceBinaryExprNilLHS op rhs =
     (case op of EQ \<Rightarrow> BooleanLiteral False | NEQ \<Rightarrow> BooleanLiteral False | _ \<Rightarrow> BinaryExpr op nilLiteral rhs)"

definition reduceBinaryExprNumberLHS :: "Token \<Rightarrow> u64 \<Rightarrow> Expr \<Rightarrow> Expr" where
  "reduceBinaryExprNumberLHS op lhs rhs =
     (case rhs of
        NumberLiteral r \<Rightarrow>
          (case op of
             ADD \<Rightarrow> NumberLiteral (f64_add lhs r) | SUB \<Rightarrow> NumberLiteral (f64_sub lhs r) | MUL \<Rightarrow> NumberLiteral (f64_mul lhs r)
           | DIV \<Rightarrow> NumberLiteral (if f64_eq r 0 then 0 else f64_div lhs r)
           | EQ \<Rightarrow> BooleanLiteral (f64_eq lhs r) | NEQ \<Rightarrow> BooleanLiteral (\<not> f64_eq lhs r)
           | GT \<Rightarrow> BooleanLiteral (f64_lt r lhs) | GTE \<Rightarrow> BooleanLiteral (f64_le r lhs)
           | LT \<Rightarrow> BooleanLiteral (f64_lt lhs r) | LTE \<Rightarrow> BooleanLiteral (f64_le lhs r)
           | _ \<Rightarrow> BinaryExpr op (NumberLiteral lhs) rhs)
      | nilLiteral \<Rightarrow> BooleanLiteral False
      | _ \<Rightarrow> BinaryExpr op (NumberLiteral lhs) rhs)"

definition reduceBinaryExprStringLHS :: "Token \<Rightarrow> string \<Rightarrow> Expr \<Rightarrow> Expr" where
  "reduceBinaryExprStringLHS op lhs rhs =
     (case rhs of
        StringLiteral r \<Rightarrow>
          (case op of EQ \<Rightarrow> BooleanLiteral (lhs = r) | NEQ \<Rightarrow> BooleanLiteral (lhs \<noteq> r) | ADD \<Rightarrow> StringLiteral (lhs @ r)
           | _ \<Rightarrow> BinaryExpr op (StringLiteral lhs) rhs)
      | nilLiteral \<Rightarrow>
          (case op of EQ \<Rightarrow> BooleanLiteral False | NEQ \<Rightarrow> BooleanLiteral False | _ \<Rightarrow> BinaryExpr op (StringLiteral lhs) rhs)
      | _ \<Rightarrow> BinaryExpr op (StringLiteral lhs) rhs)"

text \<open>\<open>time.Time.Sub\<close> saturates; the unary minus of a duration wraps around.\<close>

definition time_Sub :: "time \<Rightarrow> time \<Rightarrow> duration" where
  "time_Sub t u = max (- (2 ^ 63)) (min (2 ^ 63 - 1) (t - u))"

definition reduceBinaryExprTimeLHS :: "Token \<Rightarrow> time \<Rightarrow> Expr \<Rightarrow> Expr" where
  "reduceBinaryExprTimeLHS op lhs rhs =
     (case rhs of
        DurationLiteral r \<Rightarrow>
          (case op of ADD \<Rightarrow> TimeLiteral (lhs + r) | SUB \<Rightarrow> TimeLiteral (lhs + to_int64 (- r))
           | _ \<Rightarrow> BinaryExpr op (TimeLiteral lhs) rhs)
      | TimeLiteral r \<Rightarrow>
          (case op of SUB \<Rightarrow> DurationLiteral (time_Sub lhs r)
           | EQ \<Rightarrow> BooleanLiteral (lhs = r) | NEQ \<Rightarrow> BooleanLiteral (lhs \<noteq> r)
           | GT \<Rightarrow> BooleanLiteral (lhs > r) | GTE \<Rightarrow> BooleanLiteral (lhs > r \<or> lhs = r)
           | LT \<Rightarrow> BooleanLiteral (lhs < r) | LTE \<Rightarrow> BooleanLiteral (lhs < r \<or> lhs = r)
           | _ \<Rightarrow> BinaryExpr op (TimeLiteral lhs) rhs)
      | nilLiteral \<Rightarrow> BooleanLiteral False
      | _ \<Rightarrow> BinaryExpr op (TimeLiteral lhs) rhs)"

text \<open>What is left of \<open>reduceBinaryExpr\<close> once both operands are reduced.\<close>

definition reduce_operands :: "Token \<Rightarrow> Expr \<Rightarrow> Expr \<Rightarrow> Expr option" where
  "reduce_operands op lhs rhs =
     (case lhs of
        BooleanLiteral l \<Rightarrow> Some (reduceBinaryExprBooleanLHS op l rhs)
      | DurationLiteral l \<Rightarrow> reduceBinaryExprDurationLHS op l rhs
      | nilLiteral \<Rightarrow> Some (reduceBinaryExprNilLHS op rhs)
      | NumberLiteral l \<Rightarrow> Some (reduceBinaryExprNumberLHS op l rhs)
      | StringLiteral l \<Rightarrow> Some (reduceBinaryExprStringLHS op l rhs)
      | TimeLiteral l \<Rightarrow> Some (reduceBinaryExprTimeLHS op l rhs)
      | _ \<Rightarrow> Some (BinaryExpr op lhs rhs))"

definition reduceBinaryExpr :: "Token \<Rightarrow> Expr \<Rightarrow> Expr \<Rightarrow> Expr option" where
  "reduceBinaryExpr op lhs rhs =
     (if op = LAND \<and> (isFalseLiteral lhs \<or> isFalseLiteral rhs) then Some (BooleanLiteral False)
      else if op = LAND \<and> isTrueLiteral lhs then Some rhs
      else if op = LAND \<and> isTrueLiteral rhs then Some lhs
      else if op = LOR \<and> (isTrueLiteral lhs \<or> isTrueLiteral rhs) then Some (BooleanLiteral True)
      else if op = LOR \<and> isFalseLiteral lhs then Some rhs
      else if op = LOR \<and> isFalseLiteral rhs then Some lhs
      else reduce_operands op lhs rhs)"

definition reduceParenExpr :: "Expr \<Rightarrow> Expr" where
  "reduceParenExpr e = (case e of BinaryExpr _ _ _ \<Rightarrow> ParenExpr e | _ \<Rightarrow> e)"

definition reduceVarRef :: "Valuer option \<Rightarrow> string \<Rightarrow> Expr" where
  "reduceVarRef valuer x =
     (case valuer of None \<Rightarrow> VarRef x
      | Some V \<Rightarrow>
          (case V x of None \<Rightarrow> VarRef x
           | Some v \<Rightarrow>
               (case v of VBool b \<Rightarrow> BooleanLiteral b | VDuration d \<Rightarrow> DurationLiteral d | VFloat f \<Rightarrow> NumberLiteral f
                | VString s \<Rightarrow> StringLiteral s | VTime t \<Rightarrow> TimeLiteral t | _ \<Rightarrow> nilLiteral)))"

text \<open>The value of \<open>now()\<close>, if the valuer has one.\<close>

definition now_literal :: "Valuer option \<Rightarrow> string \<Rightarrow> 'a list \<Rightarrow> Expr option" where
  "now_literal valuer f args =
     (if f = ''now'' \<and> args = [] then
        case valuer of None \<Rightarrow> None
        | Some V \<Rightarrow> map_option (\<lambda>v. TimeLiteral (case v of VTime t \<Rightarrow> t | _ \<Rightarrow> 0)) (V ''now()'')
      else None)"

fun reduce :: "Valuer option \<Rightarrow> Expr \<Rightarrow> Expr option" where
  "reduce V (BinaryExpr op lhs rhs) =
     (case reduce V lhs of None \<Rightarrow> None
      | Some l \<Rightarrow> (case reduce V rhs of None \<Rightarrow> None | Some r \<Rightarrow> reduceBinaryExpr op l r))"
| "reduce V (Call f args) =
     (case now_literal V f args of Some e \<Rightarrow> Some e | None \<Rightarrow> map_option (Call f) (those (map (reduce V) args)))"
| "reduce V (ParenExpr e) = map_option reduceParenExpr (reduce V e)"
| "reduce V (VarRef x) = Some (reduceVarRef V x)"
| "reduce V e = CloneExpr e"

definition Reduce :: "Valuer option \<Rightarrow> Expr \<Rightarrow> Expr option" where
  "Reduce V e = map_option (\<lambda>e. case e of ParenExpr e \<Rightarrow> e | _ \<Rightarrow> e) (reduce V e)"

text \<open>The valuer of the planner.\<close>

definition NowValuer_Value :: "time \<Rightarrow> Valuer" where
  "NowValuer_Value now key = (if key = ''now()'' then Some (VTime now) else None)"

end
