(* ===== verification/Query_Types.thy ===== *)
theory Query_Types
  imports Query_Expr
begin

text \<open>
  A type system for expressions that describes what \<open>Eval\<close> supports, with the proof that well-typed expressions
  evaluate to values of their type and that reduction never panics on them and keeps type and value.  Number
  literals are floats, and an integer field can only be compared and combined with a float on its right: this is
  what the conversion of the right operand in \<open>evalBinaryExpr\<close> comes down to.
\<close>

datatype ty = TBool | TFloat | TInt | TString

fun val_type :: "gval \<Rightarrow> ty option" where
  "val_type (VBool _) = Some TBool"
| "val_type (VFloat _) = Some TFloat"
| "val_type (VInt _) = Some TInt"
| "val_type (VString _) = Some TString"
| "val_type _ = None"

definition comparison :: "Token \<Rightarrow> bool" where
  "comparison op \<longleftrightarrow> op \<in> {EQ, NEQ, LT, LTE, GT, GTE}"

definition arithmetic :: "Token \<Rightarrow> bool" where
  "arithmetic op \<longleftrightarrow> op \<in> {ADD, SUB, MUL, DIV}"

fun op_type :: "Token \<Rightarrow> ty \<Rightarrow> ty \<Rightarrow> ty option" where
  "op_type op TBool TBool = (if op \<in> {LAND, LOR, EQ, NEQ} then Some TBool else None)"
| "op_type op TFloat TFloat = (if comparison op then Some TBool else if arithmetic op then Some TFloat else None)"
| "op_type op TInt TFloat = (if comparison op then Some TBool else if arithmetic op then Some TInt else None)"
| "op_type op TString TString = (if op \<in> {EQ, NEQ} then Some TBool else None)"
| "op_type op _ _ = None"

fun type_of :: "(string \<rightharpoonup> ty) \<Rightarrow> Expr \<Rightarrow> ty option" where
  "type_of G (BinaryExpr op lhs rhs) =
     (case type_of G lhs of None \<Rightarrow> None
      | Some a \<Rightarrow> (case type_of G rhs of None \<Rightarrow> None | Some b \<Rightarrow> op_type op a b))"
| "type_of G (BooleanLiteral _) = Some TBool"
| "type_of G (NumberLiteral _) = Some TFloat"
| "type_of G (ParenExpr e) = type_of G e"
| "type_of G (StringLiteral _) = Some TString"
| "type_of G (VarRef x) = G x"
| "type_of G _ = None"

text \<open>The values conform to the types of the fields; a valuer knows some of the same values, none of them an integer.\<close>

definition conforms :: "(string \<rightharpoonup> ty) \<Rightarrow> (string \<rightharpoonup> gval) \<Rightarrow> bool" where
  "conforms G m \<longleftrightarrow> (\<forall>x t. G x = Some t \<longrightarrow> (\<exists>v. m x = Some v \<and> val_type v = Some t))"

definition agrees :: "Valuer option \<Rightarrow> (string \<rightharpoonup> gval) \<Rightarrow> bool" where
  "agrees V m \<longleftrightarrow>
     (case V of None \<Rightarrow> True
      | Some V \<Rightarrow> \<forall>x v. V x = Some v \<longrightarrow> m x = Some v \<and> val_type v \<in> {Some TBool, Some TFloat, Some TString})"

section \<open>Values\<close>

lemma val_typeE:
  assumes "val_type v = Some t"
  obtains (bool) b where "t = TBool" "v = VBool b" | (float) f where "t = TFloat" "v = VFloat f"
  | (int) i where "t = TInt" "v = VInt i" | (string) s where "t = TString" "v = VString s"
  using assms by (cases v) auto

lemma op_typeE:
  assumes "op_type op a b = Some t"
  obtains (bools) "a = TBool" "b = TBool" "t = TBool" "op \<in> {LAND, LOR, EQ, NEQ}"
  | (floats) "a = TFloat" "b = TFloat" "comparison op \<and> t = TBool \<or> arithmetic op \<and> t = TFloat"
  | (ints) "a = TInt" "b = TFloat" "comparison op \<and> t = TBool \<or> arithmetic op \<and> t = TInt"
  | (strings) "a = TString" "b = TString" "t = TBool" "op \<in> {EQ, NEQ}"
  using assms by (cases "(op, a, b)" rule: op_type.cases) (auto split: if_splits)

lemma eval_op_typed:
  assumes "val_type l = Some a" and "val_type r = Some b" and "op_type op a b = Some t"
  shows "val_type (evalBinaryExpr op l r) = Some t"
  using assms(3)
proof (cases rule: op_typeE)
  case bools
  with assms(1,2) show ?thesis by (auto elim!: val_typeE simp: evalBinaryExpr_def eval_bools_def)
next
  case floats
  with assms(1,2) show ?thesis
    by (auto elim!: val_typeE simp: evalBinaryExpr_def eval_floats_def comparison_def arithmetic_def)
next
  case ints
  with assms(1,2) show ?thesis
    by (auto elim!: val_typeE simp: evalBinaryExpr_def eval_ints_def comparison_def arithmetic_def)
next
  case strings
  with assms(1,2) show ?thesis by (auto elim!: val_typeE simp: evalBinaryExpr_def eval_strings_def)
qed

lemma Eval_typed:
  assumes "conforms G m"
  shows "type_of G e = Some t \<Longrightarrow> val_type (Eval m e) = Some t"
proof (induction e arbitrary: t)
  case (BinaryExpr op l r)
  then show ?case by (auto split: option.splits intro: eval_op_typed)
next
  case (VarRef x)
  with assms obtain v where "m x = Some v" "val_type v = Some t" by (auto simp: conforms_def)
  then show ?case by simp
qed simp_all

section \<open>Reduction\<close>

text \<open>What a reduced expression has to keep.\<close>

definition means :: "(string \<rightharpoonup> ty) \<Rightarrow> (string \<rightharpoonup> gval) \<Rightarrow> Expr \<Rightarrow> ty \<Rightarrow> gval \<Rightarrow> bool" where
  "means G m e t v \<longleftrightarrow> type_of G e = Some t \<and> Eval m e = v"

lemma means_literals [simp]:
  "means G m (BooleanLiteral b) t v \<longleftrightarrow> t = TBool \<and> v = VBool b"
  "means G m (NumberLiteral f) t v \<longleftrightarrow> t = TFloat \<and> v = VFloat f"
  "means G m (StringLiteral s) t v \<longleftrightarrow> t = TString \<and> v = VString s"
  by (auto simp: means_def)

lemma means_binary:
  assumes "means G m l a u" and "means G m r b v" and "op_type op a b = Some t"
  shows "means G m (BinaryExpr op l r) t (evalBinaryExpr op u v)"
  using assms by (simp add: means_def)

lemma reduce_literals_means:
  "op \<in> {LAND, LOR, EQ, NEQ} \<Longrightarrow>
   means G m (reduceBinaryExprBooleanLHS op c (BooleanLiteral d)) TBool (evalBinaryExpr op (VBool c) (VBool d))"
  "comparison op \<Longrightarrow>
   means G m (reduceBinaryExprNumberLHS op x (NumberLiteral y)) TBool (evalBinaryExpr op (VFloat x) (VFloat y))"
  "arithmetic op \<Longrightarrow>
   means G m (reduceBinaryExprNumberLHS op x (NumberLiteral y)) TFloat (evalBinaryExpr op (VFloat x) (VFloat y))"
  "op \<in> {EQ, NEQ} \<Longrightarrow>
   means G m (reduceBinaryExprStringLHS op a (StringLiteral b)) TBool (evalBinaryExpr op (VString a) (VString b))"
  by (cases op; simp add: reduceBinaryExprBooleanLHS_def reduceBinaryExprNumberLHS_def reduceBinaryExprStringLHS_def
      evalBinaryExpr_def eval_bools_def eval_floats_def eval_strings_def as_bool_def as_float_def as_string_def
      comparison_def arithmetic_def)+

lemma reduce_operands_unchanged:
  assumes "means G m l a u" and "means G m r b v" and "op_type op a b = Some t"
    and "\<nexists>c d. l = BooleanLiteral c \<and> r = BooleanLiteral d" and "\<nexists>x y. l = NumberLiteral x \<and> r = NumberLiteral y"
    and "\<nexists>x y. l = StringLiteral x \<and> r = StringLiteral y"
  shows "reduce_operands op l r = Some (BinaryExpr op l r)"
  using assms
  by (cases l; cases r; simp add: reduce_operands_def reduceBinaryExprBooleanLHS_def reduceBinaryExprNumberLHS_def
      reduceBinaryExprStringLHS_def means_def)

lemma reduce_operands_means:
  assumes l: "means G m l a u" and r: "means G m r b v" and t: "op_type op a b = Some t"
  shows "\<exists>e. reduce_operands op l r = Some e \<and> means G m e t (evalBinaryExpr op u v)"
proof -
  consider (bools) c d where "l = BooleanLiteral c" "r = BooleanLiteral d"
    | (numbers) x y where "l = NumberLiteral x" "r = NumberLiteral y"
    | (strings) x y where "l = StringLiteral x" "r = StringLiteral y"
    | (other) "reduce_operands op l r = Some (BinaryExpr op l r)"
    using reduce_operands_unchanged [OF l r t] by blast
  then show ?thesis
  proof cases
    case bools
    with l r t have "op \<in> {LAND, LOR, EQ, NEQ}" "t = TBool" "u = VBool c" "v = VBool d" by (auto split: if_splits)
    with bools show ?thesis using reduce_literals_means(1) by (simp add: reduce_operands_def)
  next
    case numbers
    with l r t have "comparison op \<and> t = TBool \<or> arithmetic op \<and> t = TFloat" "u = VFloat x" "v = VFloat y"
      by (auto split: if_splits)
    with numbers show ?thesis using reduce_literals_means(2,3) by (auto simp: reduce_operands_def)
  next
    case strings
    with l r t have "op \<in> {EQ, NEQ}" "t = TBool" "u = VString x" "v = VString y" by (auto split: if_splits)
    with strings show ?thesis using reduce_literals_means(4) by (simp add: reduce_operands_def)
  next
    case other
    then show ?thesis using means_binary [OF l r t] by blast
  qed
qed

lemma means_bool:
  assumes "means G m e TBool v" and "conforms G m"
  obtains b where "v = VBool b"
  using assms Eval_typed [of G m e TBool] by (auto simp: means_def elim: val_typeE)

lemma reduceBinaryExpr_means:
  assumes "conforms G m" and l: "means G m l a u" and r: "means G m r b v" and t: "op_type op a b = Some t"
  shows "\<exists>e. reduceBinaryExpr op l r = Some e \<and> means G m e t (evalBinaryExpr op u v)"
proof (cases "op \<in> {LAND, LOR}")
  case False
  then show ?thesis using reduce_operands_means [OF l r t] by (simp add: reduceBinaryExpr_def)
next
  case True
  with t have ty: "a = TBool" "b = TBool" "t = TBool"
    by (auto elim!: op_typeE simp: comparison_def arithmetic_def)
  obtain x where u: "u = VBool x" using means_bool [OF _ assms(1)] l ty by blast
  obtain y where v: "v = VBool y" using means_bool [OF _ assms(1)] r ty by blast
  have E: "evalBinaryExpr LAND u v = VBool (x \<and> y)" "evalBinaryExpr LOR u v = VBool (x \<or> y)"
    by (simp_all add: u v evalBinaryExpr_def eval_bools_def as_bool_def)
  consider "isTrueLiteral l" | "isFalseLiteral l" | "isTrueLiteral r" | "isFalseLiteral r"
    | "\<not> isTrueLiteral l" "\<not> isFalseLiteral l" "\<not> isTrueLiteral r" "\<not> isFalseLiteral r" by blast
  then show ?thesis
    by cases (use True l r ty u v E reduce_operands_means [OF l r t] in
      \<open>auto simp: reduceBinaryExpr_def isTrueLiteral_def isFalseLiteral_def\<close>)
qed

lemma reduceVarRef_means:
  assumes "conforms G m" and "agrees V m" and "G x = Some t"
  shows "means G m (reduceVarRef V x) t (Eval m (VarRef x))"
proof -
  from assms(1,3) obtain v where v: "m x = Some v" "val_type v = Some t" by (auto simp: conforms_def)
  show ?thesis
  proof (cases "\<exists>W. V = Some W \<and> W x \<noteq> None")
    case True
    then obtain W w where W: "V = Some W" "W x = Some w" by auto
    with assms(2) have "m x = Some w" "val_type w \<in> {Some TBool, Some TFloat, Some TString}" by (auto simp: agrees_def)
    with v W show ?thesis by (auto simp: reduceVarRef_def elim!: val_typeE)
  next
    case False
    with v assms(3) show ?thesis by (auto simp: reduceVarRef_def means_def split: option.splits)
  qed
qed

lemma reduceParenExpr_means: "means G m e t v \<Longrightarrow> means G m (reduceParenExpr e) t v"
  by (cases e) (simp_all add: reduceParenExpr_def means_def)

lemma reduce_means:
  assumes "conforms G m" and "agrees V m"
  shows "type_of G e = Some t \<Longrightarrow> \<exists>e'. reduce V e = Some e' \<and> means G m e' t (Eval m e)"
proof (induction e arbitrary: t)
  case (BinaryExpr op l r)
  then obtain a b where ab: "type_of G l = Some a" "type_of G r = Some b" "op_type op a b = Some t"
    by (auto split: option.splits)
  with BinaryExpr.IH obtain l' r' where "reduce V l = Some l'" "means G m l' a (Eval m l)"
    "reduce V r = Some r'" "means G m r' b (Eval m r)" by blast
  with reduceBinaryExpr_means [OF assms(1) this(2) this(4) ab(3)] show ?case by auto
next
  case (ParenExpr e)
  then show ?case by (auto intro: reduceParenExpr_means)
next
  case (VarRef x)
  then show ?case using reduceVarRef_means [OF assms] by simp
qed (simp_all add: means_def)

lemma Reduce_means:
  assumes "conforms G m" and "agrees V m" and "type_of G e = Some t"
  obtains e' where "Reduce V e = Some e'" and "means G m e' t (Eval m e)"
proof -
  from reduce_means [OF assms] obtain e1 where e1: "reduce V e = Some e1" "means G m e1 t (Eval m e)" by blast
  show thesis
    by (rule that [of "case e1 of ParenExpr e \<Rightarrow> e | _ \<Rightarrow> e1"])
      (use e1 in \<open>auto simp: Reduce_def means_def split: Expr.splits\<close>)
qed

end
