(* ===== verification/Query_Props.thy ===== *)
theory Query_Props
  imports Query_Types
begin

text \<open>
  Properties of the query language (\<open>influxql/ast.go\<close>).
\<close>

section \<open>Types\<close>

text \<open>
  C19. Type soundness and reduction.  A well-typed expression evaluates, on a point whose fields have their types, to a
  value of its type.  \<open>Reduce\<close> with a valuer that knows some of the values does not panic on it and returns an expression of
  the same type with the same value.
\<close>

theorem reduce_sound:
  assumes "conforms G m" and "agrees V m" and "type_of G e = Some t"
  shows "val_type (Eval m e) = Some t \<and> (\<exists>e'. Reduce V e = Some e' \<and> type_of G e' = Some t \<and> Eval m e' = Eval m e)"
proof -
  obtain e' where "Reduce V e = Some e'" "means G m e' t (Eval m e)" using Reduce_means [OF assms] .
  then show ?thesis using Eval_typed [OF assms(1,3)] by (auto simp: means_def)
qed

definition types_ex :: "string \<rightharpoonup> ty" where
  "types_ex = [''value'' \<mapsto> TInt, ''host'' \<mapsto> TString]"

definition values_ex :: "string \<rightharpoonup> gval" where
  "values_ex = [''value'' \<mapsto> VInt 7, ''host'' \<mapsto> VString ''a'']"

definition tag_valuer_ex :: Valuer where
  "tag_valuer_ex = [''host'' \<mapsto> VString ''a'']"

text \<open>\<open>host = 'a' AND value > 5 + 1\<close>; \<open>0x4014\<dots>\<close> is 5 and \<open>0x3FF0\<dots>\<close> is 1.\<close>

definition cond_ex :: Expr where
  "cond_ex = BinaryExpr LAND (BinaryExpr EQ (VarRef ''host'') (StringLiteral ''a''))
     (BinaryExpr GT (VarRef ''value'') (BinaryExpr ADD (NumberLiteral 0x4014000000000000) (NumberLiteral 0x3FF0000000000000)))"

theorem reduce_sound_witness:
  "val_type (Eval values_ex cond_ex) = Some TBool \<and>
   (\<exists>e'. Reduce (Some tag_valuer_ex) cond_ex = Some e' \<and> type_of types_ex e' = Some TBool \<and> Eval values_ex e' = Eval values_ex cond_ex)"
proof (rule reduce_sound)
  show "conforms types_ex values_ex" by (simp add: conforms_def types_ex_def values_ex_def)
  show "agrees (Some tag_valuer_ex) values_ex" by (simp add: agrees_def tag_valuer_ex_def values_ex_def)
  show "type_of types_ex cond_ex = Some TBool" by (simp add: cond_ex_def types_ex_def comparison_def arithmetic_def)
qed

lemmas f64_eval = f64_to_int_def f64_val_def f64_mag_def f64_exp_def f64_frac_def f64_neg_def f64_unit_def math_IsNaN_def f64_eq_def
  go_quot_def is_int64_def Let_def

text \<open>The divisor of a duration is tested for zero before it is cut to an integer: \<open>10s / 0.5\<close> divides by zero.\<close>

lemma half_to_int: "f64_to_int 0x3FE0000000000000 = 0"
  by (simp add: f64_eval)

lemma duration_division_panics:
  "Reduce None (BinaryExpr DIV (DurationLiteral (10 * 10 ^ 9)) (NumberLiteral 0x3FE0000000000000)) = None"
  by (simp add: Reduce_def reduceBinaryExpr_def reduce_operands_def reduceBinaryExprDurationLHS_def half_to_int f64_eval)

text \<open>An integer field is compared with the integer part of a number: 2 counts as at least 2.5.\<close>

lemma two_and_a_half_to_int: "f64_to_int 0x4004000000000000 = 2"
  by (simp add: f64_eval)

lemma int_comparison_truncates:
  "EvalBool [''value'' \<mapsto> VInt 2] (BinaryExpr GTE (VarRef ''value'') (NumberLiteral 0x4004000000000000))"
  by (simp add: EvalBool_def evalBinaryExpr_def eval_ints_def as_float_def as_bool_def two_and_a_half_to_int)

end
