(* ===== verification/Index_IDs.thy ===== *)
theory Index_IDs
  imports Go_Prelude
begin

text \<open>
  Sets as sorted slices (\<open>SeriesIDs\<close> and \<open>Measurements\<close> in \<open>tsdb/meta.go\<close>): the merging loops of union, intersection and
  difference.  The loops of \<open>SeriesIDs\<close> compare the IDs, those of \<open>Measurements\<close> the names; \<open>key\<close> is what is compared.
\<close>

section \<open>The loops\<close>

fun intersect_loop :: "('a \<Rightarrow> 'k::linorder) \<Rightarrow> 'a list \<Rightarrow> 'a list \<Rightarrow> 'a list" where
  "intersect_loop key (x # l) (y # r) =
     (if key x = key y then x # intersect_loop key l r
      else if key x < key y then intersect_loop key l (y # r)
      else intersect_loop key (x # l) r)"
| "intersect_loop key l r = []"

fun union_loop :: "('a \<Rightarrow> 'k::linorder) \<Rightarrow> 'a list \<Rightarrow> 'a list \<Rightarrow> 'a list" where
  "union_loop key (x # l) (y # r) =
     (if key x = key y then x # union_loop key l r
      else if key x < key y then x # union_loop key l (y # r)
      else y # union_loop key (x # l) r)"
| "union_loop key [] r = r"
| "union_loop key l [] = l"

fun reject_loop :: "('a \<Rightarrow> 'k::linorder) \<Rightarrow> 'a list \<Rightarrow> 'a list \<Rightarrow> 'a list" where
  "reject_loop key (x # l) (y # r) =
     (if key x = key y then reject_loop key l r
      else if key x < key y then x # reject_loop key l (y # r)
      else reject_loop key (x # l) r)"
| "reject_loop key l r = l"

text \<open>The intersection walks the shorter slice first.\<close>

definition shorter_first :: "('a list \<Rightarrow> 'a list \<Rightarrow> 'b) \<Rightarrow> 'a list \<Rightarrow> 'a list \<Rightarrow> 'b" where
  "shorter_first f a other = (if length other < length a then f other a else f a other)"

section \<open>Series IDs\<close>

type_synonym SeriesIDs = "u64 list"

fun SeriesIDs_Equals :: "SeriesIDs \<Rightarrow> SeriesIDs \<Rightarrow> bool" where
  "SeriesIDs_Equals (x # a) (y # other) = (x = y \<and> SeriesIDs_Equals a other)"
| "SeriesIDs_Equals [] [] = True"
| "SeriesIDs_Equals _ _ = False"

definition SeriesIDs_Intersect :: "SeriesIDs \<Rightarrow> SeriesIDs \<Rightarrow> SeriesIDs" where
  "SeriesIDs_Intersect = shorter_first (intersect_loop (\<lambda>i. i))"

definition SeriesIDs_Union :: "SeriesIDs \<Rightarrow> SeriesIDs \<Rightarrow> SeriesIDs" where
  "SeriesIDs_Union = union_loop (\<lambda>i. i)"

definition SeriesIDs_Reject :: "SeriesIDs \<Rightarrow> SeriesIDs \<Rightarrow> SeriesIDs" where
  "SeriesIDs_Reject = reject_loop (\<lambda>i. i)"

section \<open>The loops on sorted slices\<close>

definition ascending :: "('a \<Rightarrow> 'k::linorder) \<Rightarrow> 'a list \<Rightarrow> bool" where
  "ascending key l \<longleftrightarrow> sorted_wrt (\<lambda>x y. key x < key y) l"

lemma ascending_simps [simp]:
  "ascending key []" "ascending key (x # l) \<longleftrightarrow> (\<forall>y\<in>set l. key x < key y) \<and> ascending key l"
  by (simp_all add: ascending_def)

lemma ascending_snoc: "ascending key (l @ [x]) \<longleftrightarrow> ascending key l \<and> (\<forall>y\<in>set l. key y < key x)"
  by (auto simp: ascending_def sorted_wrt_append)

lemma ascending_filter: "ascending key l \<Longrightarrow> ascending key (filter P l)"
  by (simp add: ascending_def sorted_wrt_filter)

lemma ascending_sort_key: "distinct (map key l) \<Longrightarrow> ascending key (sort_key key l)"
proof -
  assume d: "distinct (map key l)"
  have "sorted (map key (sort_key key l))" by simp
  moreover have "distinct (map key (sort_key key l))" using d by (simp add: distinct_map)
  ultimately have "sorted_wrt (<) (map key (sort_key key l))" by (simp add: strict_sorted_iff)
  then show ?thesis by (simp add: ascending_def sorted_wrt_map)
qed

lemma ascending_distinct: "ascending key l \<Longrightarrow> distinct (map key l)"
  by (induction l) auto

lemma ascending_eq:
  assumes "ascending key l" and "ascending key r" and "set l = set r"
  shows "l = r"
proof -
  have l: "sorted_wrt (<) (map key l)" and r: "sorted_wrt (<) (map key r)"
    using assms(1,2) by (simp_all add: ascending_def sorted_wrt_map)
  have "map key l = map key r"
    using strict_sorted_equal [OF l r] assms(3) by (metis list.set_map)
  moreover have "inj_on key (set l \<union> set r)"
    using ascending_distinct [OF assms(1)] assms(3) by (simp add: distinct_map)
  ultimately show ?thesis by (rule map_inj_on)
qed

lemma set_union_loop_subset: "set (union_loop key l r) \<subseteq> set l \<union> set r"
  by (induction key l r rule: union_loop.induct) auto

lemma ascending_union_loop:
  "ascending key l \<Longrightarrow> ascending key r \<Longrightarrow> ascending key (union_loop key l r)"
proof (induction key l r rule: union_loop.induct)
  case (1 key x l y r)
  note sub = set_union_loop_subset [of key l r] set_union_loop_subset [of key l "y # r"] set_union_loop_subset [of key "x # l" r]
  consider (eq) "key x = key y" | (lt) "key x < key y" | (gt) "key y < key x" by (rule linorder_cases)
  then show ?case
  proof cases
    case eq
    have "key x < key z" if "z \<in> set (union_loop key l r)" for z using that sub(1) "1.prems" eq by auto
    with eq 1 show ?thesis by simp
  next
    case lt
    have "key x < key z" if "z \<in> set (union_loop key l (y # r))" for z
      using that sub(2) "1.prems" lt by (auto intro: less_trans)
    with lt 1 show ?thesis by simp
  next
    case gt
    have "key y < key z" if "z \<in> set (union_loop key (x # l) r)" for z
      using that sub(3) "1.prems" gt by (auto intro: less_trans)
    moreover have "key x \<noteq> key y" "\<not> key x < key y" using gt by simp_all
    ultimately show ?thesis using 1 by simp
  qed
qed simp_all

lemma keys_union_loop: "key ` set (union_loop key l r) = key ` set l \<union> key ` set r"
  by (induction key l r rule: union_loop.induct) auto

lemma intersect_loop_eq:
  "ascending key l \<Longrightarrow> ascending key r \<Longrightarrow> intersect_loop key l r = filter (\<lambda>x. key x \<in> key ` set r) l"
proof (induction key l r rule: intersect_loop.induct)
  case (1 key x l y r)
  show ?case
  proof (cases "key x = key y")
    case True
    then have "\<forall>z\<in>set l. key z \<noteq> key y" using 1(4) by auto
    then have "filter (\<lambda>z. key z \<in> key ` set (y # r)) l = filter (\<lambda>z. key z \<in> key ` set r) l"
      by (intro filter_cong) auto
    with True 1 show ?thesis by simp
  next
    case False
    show ?thesis
    proof (cases "key x < key y")
      case True
      with 1(5) have "key x \<notin> key ` set (y # r)" by auto
      with True False 1 show ?thesis by simp
    next
      case gt: False
      with False have yx: "key y < key x" by simp
      with 1(4) have "\<forall>z\<in>set (x # l). key z \<noteq> key y" by auto
      then have "filter (\<lambda>z. key z \<in> key ` set (y # r)) (x # l) = filter (\<lambda>z. key z \<in> key ` set r) (x # l)"
        by (intro filter_cong) auto
      with gt False 1 show ?thesis by simp
    qed
  qed
qed (simp_all add: filter_False)

lemma reject_loop_eq:
  "ascending key l \<Longrightarrow> ascending key r \<Longrightarrow> reject_loop key l r = filter (\<lambda>x. key x \<notin> key ` set r) l"
proof (induction key l r rule: reject_loop.induct)
  case (1 key x l y r)
  show ?case
  proof (cases "key x = key y")
    case True
    then have "\<forall>z\<in>set l. key z \<noteq> key y" using 1(4) by auto
    then have "filter (\<lambda>z. key z \<notin> key ` set (y # r)) l = filter (\<lambda>z. key z \<notin> key ` set r) l"
      by (intro filter_cong) auto
    with True 1 show ?thesis by simp
  next
    case False
    show ?thesis
    proof (cases "key x < key y")
      case True
      with 1(5) have "key x \<notin> key ` set (y # r)" by auto
      with True False 1 show ?thesis by simp
    next
      case gt: False
      with False have yx: "key y < key x" by simp
      with 1(4) have "\<forall>z\<in>set (x # l). key z \<noteq> key y" by auto
      then have "filter (\<lambda>z. key z \<notin> key ` set (y # r)) (x # l) = filter (\<lambda>z. key z \<notin> key ` set r) (x # l)"
        by (intro filter_cong) auto
      with gt False 1 show ?thesis by simp
    qed
  qed
qed simp_all

section \<open>The interface of a set\<close>

text \<open>
  What the users of the slices rely on.  All slices of one index are taken from a common universe \<open>U\<close> on which the key
  determines the element.
\<close>

locale sorted_sets =
  fixes key :: "'a \<Rightarrow> 'k::linorder" and inter union :: "'a list \<Rightarrow> 'a list \<Rightarrow> 'a list" and U :: "'a set"
  assumes key_inj: "inj_on key U"
    and inter_wf: "ascending key l \<Longrightarrow> ascending key r \<Longrightarrow> set l \<subseteq> U \<Longrightarrow> set r \<subseteq> U \<Longrightarrow> ascending key (inter l r)"
    and set_inter: "ascending key l \<Longrightarrow> ascending key r \<Longrightarrow> set l \<subseteq> U \<Longrightarrow> set r \<subseteq> U \<Longrightarrow> set (inter l r) = set l \<inter> set r"
    and union_wf: "ascending key l \<Longrightarrow> ascending key r \<Longrightarrow> set l \<subseteq> U \<Longrightarrow> set r \<subseteq> U \<Longrightarrow> ascending key (union l r)"
    and set_union: "ascending key l \<Longrightarrow> ascending key r \<Longrightarrow> set l \<subseteq> U \<Longrightarrow> set r \<subseteq> U \<Longrightarrow> set (union l r) = set l \<union> set r"
begin

definition slice :: "'a list \<Rightarrow> bool" where
  "slice l \<longleftrightarrow> ascending key l \<and> set l \<subseteq> U"

lemma slice_Nil [simp]: "slice []"
  by (simp add: slice_def)

lemma slice_inter: "slice l \<Longrightarrow> slice r \<Longrightarrow> slice (inter l r) \<and> set (inter l r) = set l \<inter> set r"
  using inter_wf [of l r] set_inter [of l r] by (auto simp: slice_def)

lemma slice_union: "slice l \<Longrightarrow> slice r \<Longrightarrow> slice (union l r) \<and> set (union l r) = set l \<union> set r"
  using union_wf [of l r] set_union [of l r] by (auto simp: slice_def)

lemma slice_unions:
  "slice acc \<Longrightarrow> (\<forall>l\<in>set ls. slice l) \<Longrightarrow>
   slice (fold (\<lambda>l acc. union acc l) ls acc) \<and> set (fold (\<lambda>l acc. union acc l) ls acc) = set acc \<union> \<Union> (set ` set ls)"
proof (induction ls arbitrary: acc)
  case (Cons l ls)
  then show ?case using slice_union [of acc l] by auto
qed simp

lemma slice_eq: "slice l \<Longrightarrow> slice r \<Longrightarrow> set l = set r \<Longrightarrow> l = r"
  by (auto simp: slice_def intro: ascending_eq)

end

text \<open>Slices that can also be subtracted.\<close>

locale sorted_sets_diff = sorted_sets +
  fixes diff :: "'a list \<Rightarrow> 'a list \<Rightarrow> 'a list"
  assumes diff_wf: "ascending key l \<Longrightarrow> ascending key r \<Longrightarrow> set l \<subseteq> U \<Longrightarrow> set r \<subseteq> U \<Longrightarrow> ascending key (diff l r)"
    and set_diff: "ascending key l \<Longrightarrow> ascending key r \<Longrightarrow> set l \<subseteq> U \<Longrightarrow> set r \<subseteq> U \<Longrightarrow> set (diff l r) = set l - set r"
begin

lemma slice_diff: "slice l \<Longrightarrow> slice r \<Longrightarrow> slice (diff l r) \<and> set (diff l r) = set l - set r"
  using diff_wf [of l r] set_diff [of l r] by (auto simp: slice_def)

lemma slice_diffs:
  "slice acc \<Longrightarrow> (\<forall>l\<in>set ls. slice l) \<Longrightarrow>
   slice (fold (\<lambda>l acc. diff acc l) ls acc) \<and> set (fold (\<lambda>l acc. diff acc l) ls acc) = set acc - \<Union> (set ` set ls)"
proof (induction ls arbitrary: acc)
  case (Cons l ls)
  then show ?case using slice_diff [of acc l] by auto
qed simp

end

lemma loops_sorted_sets:
  assumes "inj_on key U"
  shows "sorted_sets key (shorter_first (intersect_loop key)) (union_loop key) U"
proof
  fix l r assume lr: "ascending key l" "ascending key r" "set l \<subseteq> U" "set r \<subseteq> U"
  have mem: "key x \<in> key ` set r' \<longleftrightarrow> x \<in> set r'" if "x \<in> U" "set r' \<subseteq> U" for x r'
    using assms that by (auto simp: inj_on_def)
  show "ascending key (shorter_first (intersect_loop key) l r)"
    using lr by (simp add: shorter_first_def intersect_loop_eq ascending_filter)
  show "set (shorter_first (intersect_loop key) l r) = set l \<inter> set r"
  proof -
    have "{x \<in> set l. key x \<in> key ` set r} = set l \<inter> set r" using mem [of _ r] lr(3,4) by blast
    moreover have "{x \<in> set r. key x \<in> key ` set l} = set l \<inter> set r" using mem [of _ l] lr(3,4) by blast
    ultimately show ?thesis using lr by (simp add: shorter_first_def intersect_loop_eq)
  qed
  show "ascending key (union_loop key l r)" using lr by (simp add: ascending_union_loop)
  have "set (union_loop key l r) \<subseteq> U" using lr set_union_loop_subset [of key l r] by blast
  then show "set (union_loop key l r) = set l \<union> set r"
    using keys_union_loop [of key l r] lr(3,4) inj_on_image_eq_iff [OF assms, of "set (union_loop key l r)" "set l \<union> set r"]
    by (simp add: image_Un)
qed (fact assms)

interpretation ids: sorted_sets_diff "\<lambda>i::u64. i" SeriesIDs_Intersect SeriesIDs_Union UNIV SeriesIDs_Reject
  unfolding SeriesIDs_Intersect_def SeriesIDs_Union_def
  by (intro sorted_sets_diff.intro loops_sorted_sets)
    (unfold_locales, auto simp: SeriesIDs_Reject_def reject_loop_eq ascending_filter)

lemma SeriesIDs_Equals_iff: "SeriesIDs_Equals a b \<longleftrightarrow> a = b"
  by (induction a b rule: SeriesIDs_Equals.induct) auto

end
