(* ===== verification/Index_Meas.thy ===== *)
theory Index_Meas
  imports Index_IDs
begin

text \<open>
  Series and measurements of the index in memory (\<open>tsdb/meta.go\<close>).  A measurement holds its series by ID and, for every tag
  key and value, the sorted IDs of the series with that tag.  A Go map is an association list.  A series points to its
  measurement; the pointer is an address in the heap of \<open>Index_DB\<close>.
\<close>

section \<open>State\<close>

record Series =
  ser_Key :: string
  ser_Tags :: "(string \<times> string) list"
  ser_id :: u64
  ser_measurement :: "nat option"
  ser_shardIDs :: "u64 list"

type_synonym tag_index = "(string \<times> (string \<times> SeriesIDs) list) list"

record Measurement =
  meas_Name :: string
  meas_fieldNames :: "string list"
  meas_seriesByID :: "(u64 \<times> Series) list"
  meas_seriesByTagKeyValue :: tag_index
  meas_seriesIDs :: SeriesIDs

definition NewSeries :: "string \<Rightarrow> (string \<times> string) list \<Rightarrow> Series" where
  "NewSeries k tags = \<lparr>ser_Key = k, ser_Tags = tags, ser_id = 0, ser_measurement = None, ser_shardIDs = []\<rparr>"

definition NewMeasurement :: "string \<Rightarrow> Measurement" where
  "NewMeasurement name =
     \<lparr>meas_Name = name, meas_fieldNames = [], meas_seriesByID = [], meas_seriesByTagKeyValue = [], meas_seriesIDs = []\<rparr>"

section \<open>Operations\<close>

definition Measurement_HasField :: "string \<Rightarrow> Measurement \<Rightarrow> bool" where
  "Measurement_HasField name m = (name \<in> set (meas_fieldNames m))"

definition Measurement_SeriesByID :: "u64 \<Rightarrow> Measurement \<Rightarrow> Series option" where
  "Measurement_SeriesByID i m = map_of (meas_seriesByID m) i"

definition Measurement_SeriesKeys :: "Measurement \<Rightarrow> string list" where
  "Measurement_SeriesKeys m = map (\<lambda>(i, s). ser_Key s) (meas_seriesByID m)"

definition Measurement_HasTagKey :: "string \<Rightarrow> Measurement \<Rightarrow> bool" where
  "Measurement_HasTagKey k m = (k \<in> fst ` set (meas_seriesByTagKeyValue m))"

definition Measurement_HasSeries :: "Measurement \<Rightarrow> bool" where
  "Measurement_HasSeries m = (meas_seriesByID m \<noteq> [])"

definition Measurement_SetFieldName :: "string \<Rightarrow> Measurement \<Rightarrow> Measurement" where
  "Measurement_SetFieldName name m = m\<lparr>meas_fieldNames := List.insert name (meas_fieldNames m)\<rparr>"

text \<open>An ID is appended, and the slice is sorted only if the ID is not above the last one.\<close>

definition append_id :: "u64 \<Rightarrow> SeriesIDs \<Rightarrow> SeriesIDs" where
  "append_id i ids = (if ids \<noteq> [] \<and> i < last ids then sort (ids @ [i]) else ids @ [i])"

definition get_list :: "'k \<Rightarrow> ('k \<times> 'v list) list \<Rightarrow> 'v list" where
  "get_list k l = (case map_of l k of None \<Rightarrow> [] | Some v \<Rightarrow> v)"

definition index_tag :: "u64 \<Rightarrow> string \<times> string \<Rightarrow> tag_index \<Rightarrow> tag_index" where
  "index_tag i kv idx =
     (let (k, v) = kv; valueMap = get_list k idx; ids = get_list v valueMap
      in AList.update k (AList.update v (append_id i ids) valueMap) idx)"

definition Measurement_AddSeries :: "Series \<Rightarrow> Measurement \<Rightarrow> Measurement \<times> bool" where
  "Measurement_AddSeries s m =
     (if map_of (meas_seriesByID m) (ser_id s) \<noteq> None then (m, False)
      else (m\<lparr>meas_seriesByID := AList.update (ser_id s) s (meas_seriesByID m),
              meas_seriesIDs := append_id (ser_id s) (meas_seriesIDs m),
              meas_seriesByTagKeyValue := fold (index_tag (ser_id s)) (ser_Tags s) (meas_seriesByTagKeyValue m)\<rparr>, True))"

text \<open>Removing an ID from the tag index drops values and keys that no series has any more.\<close>

definition drop_from_values :: "u64 \<Rightarrow> (string \<times> SeriesIDs) list \<Rightarrow> (string \<times> SeriesIDs) list" where
  "drop_from_values i vals = filter (\<lambda>(v, ids). ids \<noteq> []) (map (\<lambda>(v, ids). (v, filter (\<lambda>j. j \<noteq> i) ids)) vals)"

definition drop_from_index :: "u64 \<Rightarrow> tag_index \<Rightarrow> tag_index" where
  "drop_from_index i idx = filter (\<lambda>(k, vals). vals \<noteq> []) (map (\<lambda>(k, vals). (k, drop_from_values i vals)) idx)"

definition Measurement_DropSeries :: "u64 \<Rightarrow> Measurement \<Rightarrow> Measurement" where
  "Measurement_DropSeries i m =
     (if map_of (meas_seriesByID m) i = None then m
      else m\<lparr>meas_seriesByID := AList.delete i (meas_seriesByID m),
             meas_seriesIDs := filter (\<lambda>j. j \<noteq> i) (meas_seriesIDs m),
             meas_seriesByTagKeyValue := drop_from_index i (meas_seriesByTagKeyValue m)\<rparr>)"

section \<open>Slices of IDs\<close>

abbreviation asc :: "SeriesIDs \<Rightarrow> bool" where "asc \<equiv> ascending (\<lambda>i. i)"

lemma set_append_id [simp]: "set (append_id i ids) = insert i (set ids)"
  by (simp add: append_id_def)

lemma append_id_not_Nil [simp]: "append_id i ids \<noteq> []"
  by (metis set_append_id insert_not_empty list.set(1))

lemma asc_append_id:
  assumes "asc ids" and "i \<notin> set ids"
  shows "asc (append_id i ids)"
proof (cases "ids \<noteq> [] \<and> i < last ids")
  case True
  have "distinct (ids @ [i])" using ascending_distinct [OF assms(1)] assms(2) by simp
  then have "asc (sort (ids @ [i]))" using ascending_sort_key [of "\<lambda>i. i" "ids @ [i]"] by simp
  with True show ?thesis by (simp add: append_id_def)
next
  case False
  have "j < i" if "j \<in> set ids" for j
  proof -
    from that have "ids \<noteq> []" by auto
    then obtain l x where ids: "ids = l @ [x]" by (cases ids rule: rev_cases) auto
    with assms(1) have "j \<le> x" using that by (auto simp: ascending_snoc intro: less_imp_le)
    moreover have "x \<le> i" using False ids by auto
    moreover have "j \<noteq> i" using that assms(2) by auto
    ultimately show "j < i" by simp
  qed
  with False assms(1) show ?thesis by (auto simp: append_id_def ascending_snoc)
qed

section \<open>The tag index\<close>

definition tag_ids :: "tag_index \<Rightarrow> string \<Rightarrow> string \<Rightarrow> SeriesIDs" where
  "tag_ids idx k v = get_list v (get_list k idx)"

definition vals_wf :: "(string \<times> SeriesIDs) list \<Rightarrow> bool" where
  "vals_wf vals \<longleftrightarrow> vals \<noteq> [] \<and> distinct (map fst vals) \<and> (\<forall>(v, ids) \<in> set vals. ids \<noteq> [] \<and> asc ids)"

definition idx_wf :: "tag_index \<Rightarrow> bool" where
  "idx_wf idx \<longleftrightarrow> distinct (map fst idx) \<and> (\<forall>(k, vals) \<in> set idx. vals_wf vals)"

lemma idx_wf_Nil [simp]: "idx_wf []"
  by (simp add: idx_wf_def)

lemma idx_wf_values:
  assumes "idx_wf idx"
  shows "distinct (map fst (get_list k idx))" "\<And>v ids. (v, ids) \<in> set (get_list k idx) \<Longrightarrow> ids \<noteq> [] \<and> asc ids"
proof -
  have *: "distinct (map fst (get_list k idx)) \<and> (\<forall>(v, ids) \<in> set (get_list k idx). ids \<noteq> [] \<and> asc ids)"
  proof (cases "map_of idx k")
    case (Some vals)
    then have "(k, vals) \<in> set idx" by (rule map_of_SomeD)
    with assms show ?thesis using Some by (auto simp: idx_wf_def vals_wf_def get_list_def)
  qed (simp add: get_list_def)
  then show "distinct (map fst (get_list k idx))" by simp
  show "\<And>v ids. (v, ids) \<in> set (get_list k idx) \<Longrightarrow> ids \<noteq> [] \<and> asc ids" using * by auto
qed

lemma asc_tag_ids: "idx_wf idx \<Longrightarrow> asc (tag_ids idx k v)"
  using idx_wf_values(2) [of idx v _ k]
  by (cases "map_of (get_list k idx) v") (auto simp: tag_ids_def get_list_def [of v] dest!: map_of_SomeD)

text \<open>A value is in the index exactly if it has IDs, and a key exactly if it has values.\<close>

lemma get_list_outside: "k \<notin> fst ` set l \<Longrightarrow> get_list k l = []"
  by (metis get_list_def map_of_eq_None_iff option.case(1))

lemma get_list_iff:
  assumes "\<forall>(k, v) \<in> set l. v \<noteq> []"
  shows "get_list k l \<noteq> [] \<longleftrightarrow> k \<in> fst ` set l"
proof (cases "map_of l k")
  case None
  then have "k \<notin> fst ` set l" by (simp add: map_of_eq_None_iff)
  with None show ?thesis by (simp add: get_list_def)
next
  case (Some v)
  then have "(k, v) \<in> set l" by (rule map_of_SomeD)
  with Some assms show ?thesis by (auto simp: get_list_def intro: rev_image_eqI)
qed

lemma set_update_iff:
  assumes "distinct (map fst l)"
  shows "(k', v') \<in> set (AList.update k v l) \<longleftrightarrow> (if k' = k then v' = v else (k', v') \<in> set l)"
proof -
  have "(k', v') \<in> set (AList.update k v l) \<longleftrightarrow> map_of (AList.update k v l) k' = Some v'"
    by (rule map_of_eq_Some_iff [symmetric]) (rule distinct_update [OF assms])
  also have "\<dots> \<longleftrightarrow> (if k' = k then v' = v else map_of l k' = Some v')" by (auto simp: update_conv')
  also have "\<dots> \<longleftrightarrow> (if k' = k then v' = v else (k', v') \<in> set l)" by (simp only: map_of_eq_Some_iff [OF assms])
  finally show ?thesis .
qed

lemma update_not_Nil [simp]: "AList.update k v l \<noteq> []"
  by (cases l) auto

lemma get_list_update: "get_list k' (AList.update k v l) = (if k' = k then v else get_list k' l)"
  by (simp add: get_list_def update_conv')

lemma tag_ids_index_tag: "tag_ids (index_tag i (k, v) idx) k' v' =
  (if k' = k \<and> v' = v then append_id i (tag_ids idx k v) else tag_ids idx k' v')"
  by (simp add: tag_ids_def index_tag_def get_list_update Let_def)

lemma idx_wf_index_tag:
  assumes "idx_wf idx" and "i \<notin> set (tag_ids idx k v)"
  shows "idx_wf (index_tag i (k, v) idx)"
proof -
  let ?vals = "get_list k idx"
  let ?new = "AList.update v (append_id i (get_list v ?vals)) ?vals"
  have dv: "distinct (map fst ?vals)" by (rule idx_wf_values(1) [OF assms(1)])
  have "asc (append_id i (get_list v ?vals))"
    using asc_append_id [OF asc_tag_ids [OF assms(1)] assms(2)] by (simp add: tag_ids_def)
  then have "ids \<noteq> [] \<and> asc ids" if "(v', ids) \<in> set ?new" for v' ids
    using that idx_wf_values(2) [OF assms(1), of v' ids k] append_id_not_Nil by (simp add: set_update_iff [OF dv] split: if_splits)
  then have "vals_wf ?new" using distinct_update [OF dv] unfolding vals_wf_def by auto
  moreover have di: "distinct (map fst idx)" using assms(1) by (simp add: idx_wf_def)
  ultimately have "vals_wf vals" if "(k', vals) \<in> set (AList.update k ?new idx)" for k' vals
    using that assms(1) by (auto simp: set_update_iff [OF di] idx_wf_def split: if_splits)
  then show ?thesis using distinct_update [OF di] by (auto simp: idx_wf_def index_tag_def Let_def)
qed

lemma index_tags:
  assumes "idx_wf idx" and "\<forall>k v. i \<notin> set (tag_ids idx k v)" and "distinct (map fst tags)"
  shows "idx_wf (fold (index_tag i) tags idx) \<and>
    (\<forall>k v. set (tag_ids (fold (index_tag i) tags idx) k v) = set (tag_ids idx k v) \<union> (if map_of tags k = Some v then {i} else {}))"
proof -
  have "idx_wf (fold (index_tag i) tags idx) \<and>
    (\<forall>k v. set (tag_ids (fold (index_tag i) tags idx) k v) = set (tag_ids idx k v) \<union> (if map_of tags k = Some v then {i} else {}))"
    if "idx_wf idx" "\<forall>k\<in>fst ` set tags. \<forall>v. i \<notin> set (tag_ids idx k v)" for idx
    using that assms(3)
  proof (induction tags arbitrary: idx)
    case (Cons kv tags)
    obtain k v where kv: "kv = (k, v)" by fastforce
    have "idx_wf (index_tag i (k, v) idx)" using Cons.prems kv by (intro idx_wf_index_tag) auto
    moreover have "\<forall>k'\<in>fst ` set tags. \<forall>v'. i \<notin> set (tag_ids (index_tag i (k, v) idx) k' v')"
      using Cons.prems kv by (auto simp: tag_ids_index_tag)
    ultimately have "idx_wf (fold (index_tag i) tags (index_tag i (k, v) idx))"
      and E: "\<And>k' v'. set (tag_ids (fold (index_tag i) tags (index_tag i (k, v) idx)) k' v') =
        set (tag_ids (index_tag i (k, v) idx) k' v') \<union> (if map_of tags k' = Some v' then {i} else {})"
      using Cons.IH Cons.prems by auto
    moreover have "map_of tags k = None" using Cons.prems(3) kv by (simp add: map_of_eq_None_iff)
    ultimately show ?case by (auto simp: kv tag_ids_index_tag)
  qed simp
  with assms show ?thesis by blast
qed

lemma get_list_simps [simp]:
  "get_list k [] = []" "get_list k ((k', v) # l) = (if k = k' then v else get_list k l)"
  by (simp_all add: get_list_def)

lemma map_of_drop_empty:
  "distinct (map fst l) \<Longrightarrow> get_list k (filter (\<lambda>(k, v). v \<noteq> []) (map (\<lambda>(k, v). (k, f v)) l)) = (if k \<in> fst ` set l then f (get_list k l) else [])"
proof (induction l)
  case (Cons kv l)
  obtain k' v where kv: "kv = (k', v)" by fastforce
  from Cons have IH: "get_list k (filter (\<lambda>(k, v). v \<noteq> []) (map (\<lambda>(k, v). (k, f v)) l)) = (if k \<in> fst ` set l then f (get_list k l) else [])"
    and "k' \<notin> fst ` set l" using kv by simp_all
  then show ?case by (cases "k = k'") (simp_all add: kv)
qed simp

lemma tag_ids_drop:
  assumes "idx_wf idx"
  shows "tag_ids (drop_from_index i idx) k v = filter (\<lambda>j. j \<noteq> i) (tag_ids idx k v)"
proof -
  have get: "get_list k (drop_from_index i idx) = (if k \<in> fst ` set idx then drop_from_values i (get_list k idx) else [])"
    unfolding drop_from_index_def by (rule map_of_drop_empty) (use assms in \<open>simp add: idx_wf_def\<close>)
  have "get_list v (drop_from_values i (get_list k idx)) = filter (\<lambda>j. j \<noteq> i) (get_list v (get_list k idx))"
    unfolding drop_from_values_def
    using map_of_drop_empty [OF idx_wf_values(1) [OF assms], of v "filter (\<lambda>j. j \<noteq> i)" k] get_list_outside [of v "get_list k idx"]
    by simp
  then show ?thesis using get get_list_outside [of k idx] by (auto simp: tag_ids_def)
qed

lemma distinct_fst_filter_map:
  "distinct (map fst l) \<Longrightarrow> distinct (map fst (filter P (map (\<lambda>(k, v). (k, f v)) l)))"
  by (induction l) (auto simp: rev_image_eqI)

lemma idx_wf_drop:
  assumes "idx_wf idx"
  shows "idx_wf (drop_from_index i idx)"
proof -
  have "vals_wf vals'" if kv: "(k, vals') \<in> set (drop_from_index i idx)" for k vals'
  proof -
    from kv obtain vals where v: "(k, vals) \<in> set idx" "vals' = drop_from_values i vals" "vals' \<noteq> []"
      by (auto simp: drop_from_index_def)
    with assms have "distinct (map fst vals)" "\<forall>(v, ids) \<in> set vals. ids \<noteq> [] \<and> asc ids" by (auto simp: idx_wf_def vals_wf_def)
    with v show ?thesis by (auto simp: drop_from_values_def vals_wf_def intro: distinct_fst_filter_map ascending_filter)
  qed
  moreover have "distinct (map fst (drop_from_index i idx))"
    unfolding drop_from_index_def using assms by (intro distinct_fst_filter_map) (simp add: idx_wf_def)
  ultimately show ?thesis unfolding idx_wf_def by blast
qed

section \<open>The invariant of a measurement\<close>

definition meas_wf :: "Measurement \<Rightarrow> bool" where
  "meas_wf m \<longleftrightarrow>
     distinct (map fst (meas_seriesByID m)) \<and>
     (\<forall>(i, s) \<in> set (meas_seriesByID m). ser_id s = i \<and> distinct (map fst (ser_Tags s))) \<and>
     asc (meas_seriesIDs m) \<and> set (meas_seriesIDs m) = fst ` set (meas_seriesByID m) \<and>
     idx_wf (meas_seriesByTagKeyValue m) \<and>
     (\<forall>k v i. i \<in> set (tag_ids (meas_seriesByTagKeyValue m) k v) \<longleftrightarrow>
        (\<exists>s. map_of (meas_seriesByID m) i = Some s \<and> map_of (ser_Tags s) k = Some v))"

lemma meas_wf_ids:
  assumes "meas_wf m"
  shows "asc (meas_seriesIDs m)" "i \<in> set (meas_seriesIDs m) \<longleftrightarrow> (\<exists>s. map_of (meas_seriesByID m) i = Some s)"
proof -
  show "asc (meas_seriesIDs m)" using assms by (simp add: meas_wf_def)
  have "i \<in> set (meas_seriesIDs m) \<longleftrightarrow> map_of (meas_seriesByID m) i \<noteq> None"
    using assms by (simp add: meas_wf_def map_of_eq_None_iff)
  then show "i \<in> set (meas_seriesIDs m) \<longleftrightarrow> (\<exists>s. map_of (meas_seriesByID m) i = Some s)" by simp
qed

lemma meas_wf_tags:
  assumes "meas_wf m"
  shows "asc (tag_ids (meas_seriesByTagKeyValue m) k v)"
    and "i \<in> set (tag_ids (meas_seriesByTagKeyValue m) k v) \<longleftrightarrow>
      (\<exists>s. map_of (meas_seriesByID m) i = Some s \<and> map_of (ser_Tags s) k = Some v)"
  using assms by (auto simp: meas_wf_def asc_tag_ids)

lemma meas_wf_series:
  assumes "meas_wf m" and "map_of (meas_seriesByID m) i = Some s"
  shows "ser_id s = i" and "distinct (map fst (ser_Tags s))"
  using assms by (auto simp: meas_wf_def dest!: map_of_SomeD)

text \<open>A tag key is in the index exactly if some series has it.\<close>

lemma meas_wf_HasTagKey:
  assumes "meas_wf m"
  shows "Measurement_HasTagKey k m \<longleftrightarrow> (\<exists>i s v. map_of (meas_seriesByID m) i = Some s \<and> map_of (ser_Tags s) k = Some v)"
proof -
  let ?idx = "meas_seriesByTagKeyValue m"
  have wf: "idx_wf ?idx" using assms by (simp add: meas_wf_def)
  have "Measurement_HasTagKey k m \<longleftrightarrow> get_list k ?idx \<noteq> []"
    unfolding Measurement_HasTagKey_def by (rule get_list_iff [symmetric]) (use wf in \<open>auto simp: idx_wf_def vals_wf_def\<close>)
  also have "\<dots> \<longleftrightarrow> (\<exists>v. v \<in> fst ` set (get_list k ?idx))" by (cases "get_list k ?idx") auto
  also have "\<dots> \<longleftrightarrow> (\<exists>v. tag_ids ?idx k v \<noteq> [])"
    unfolding tag_ids_def by (subst get_list_iff) (use idx_wf_values [OF wf] in auto)
  also have "\<dots> \<longleftrightarrow> (\<exists>v i. i \<in> set (tag_ids ?idx k v))" by (metis last_in_set list.set(1) empty_iff)
  finally show ?thesis using meas_wf_tags(2) [OF assms] by metis
qed

lemma meas_wf_New: "meas_wf (NewMeasurement name)"
  by (simp add: meas_wf_def NewMeasurement_def tag_ids_def get_list_def)

lemma meas_wf_AddSeries:
  assumes "meas_wf m" and "map_of (meas_seriesByID m) (ser_id s) = None" and "distinct (map fst (ser_Tags s))"
  shows "meas_wf (fst (Measurement_AddSeries s m))"
proof -
  let ?i = "ser_id s" and ?idx = "meas_seriesByTagKeyValue m"
  let ?new = "fold (index_tag ?i) (ser_Tags s) ?idx" and ?by = "AList.update ?i s (meas_seriesByID m)"
  have d: "distinct (map fst (meas_seriesByID m))" using assms(1) by (simp add: meas_wf_def)
  have "\<forall>k v. ?i \<notin> set (tag_ids ?idx k v)" using meas_wf_tags(2) [OF assms(1)] assms(2) by auto
  moreover have "idx_wf ?idx" using assms(1) by (simp add: meas_wf_def)
  ultimately have new: "idx_wf ?new"
      "\<And>k v. set (tag_ids ?new k v) = set (tag_ids ?idx k v) \<union> (if map_of (ser_Tags s) k = Some v then {?i} else {})"
    using index_tags [of ?idx ?i "ser_Tags s"] assms(3) by auto
  have "j \<in> set (tag_ids ?new k v) \<longleftrightarrow> (\<exists>s'. map_of ?by j = Some s' \<and> map_of (ser_Tags s') k = Some v)" for j k v
    using meas_wf_tags(2) [OF assms(1), of j k v] assms(2) by (auto simp: new(2) update_conv')
  moreover have "asc (append_id ?i (meas_seriesIDs m))"
    using assms(1,2) meas_wf_ids(1) [OF assms(1)] meas_wf_ids(2) [OF assms(1), of ?i] by (intro asc_append_id) auto
  moreover have "\<forall>(i, s') \<in> set ?by. ser_id s' = i \<and> distinct (map fst (ser_Tags s'))"
    using assms(1,3) by (auto simp: set_update_iff [OF d] meas_wf_def split: if_splits)
  moreover have "distinct (map fst ?by)" using d by (rule distinct_update)
  moreover have "fst ` set ?by = insert ?i (fst ` set (meas_seriesByID m))" by (simp add: dom_update)
  ultimately show ?thesis using assms(1,2) new(1) by (simp add: Measurement_AddSeries_def meas_wf_def)
qed

lemma meas_wf_DropSeries:
  assumes "meas_wf m"
  shows "meas_wf (Measurement_DropSeries i m)"
proof (cases "map_of (meas_seriesByID m) i = None")
  case False
  have "j \<in> set (tag_ids (drop_from_index i (meas_seriesByTagKeyValue m)) k v) \<longleftrightarrow>
      (\<exists>s'. map_of (AList.delete i (meas_seriesByID m)) j = Some s' \<and> map_of (ser_Tags s') k = Some v)" for j k v
    using meas_wf_tags(2) [OF assms, of j k v] assms by (auto simp: tag_ids_drop meas_wf_def delete_conv')
  moreover have "fst ` set (AList.delete i (meas_seriesByID m)) = fst ` set (meas_seriesByID m) - {i}" by (auto simp: AList.delete_eq image_iff)
  moreover have "set (filter (\<lambda>j. j \<noteq> i) (meas_seriesIDs m)) = fst ` set (meas_seriesByID m) - {i}" using assms by (auto simp: meas_wf_def)
  moreover have "\<forall>(j, s) \<in> set (AList.delete i (meas_seriesByID m)). ser_id s = j \<and> distinct (map fst (ser_Tags s))"
    using assms by (auto simp: meas_wf_def AList.delete_eq)
  ultimately show ?thesis using False assms
    by (simp add: Measurement_DropSeries_def meas_wf_def idx_wf_drop ascending_filter distinct_delete)
qed (simp add: Measurement_DropSeries_def assms)

lemma meas_wf_SetFieldName: "meas_wf m \<Longrightarrow> meas_wf (Measurement_SetFieldName name m)"
  by (simp add: meas_wf_def Measurement_SetFieldName_def)

lemma AddSeries_simps:
  assumes "map_of (meas_seriesByID m) (ser_id s) = None"
  shows "meas_Name (fst (Measurement_AddSeries s m)) = meas_Name m"
    and "map_of (meas_seriesByID (fst (Measurement_AddSeries s m))) = (map_of (meas_seriesByID m))(ser_id s \<mapsto> s)"
    and "meas_fieldNames (fst (Measurement_AddSeries s m)) = meas_fieldNames m"
  using assms by (simp_all add: Measurement_AddSeries_def update_conv')

lemma DropSeries_simps [simp]:
  "meas_Name (Measurement_DropSeries i m) = meas_Name m"
  "map_of (meas_seriesByID (Measurement_DropSeries i m)) = (map_of (meas_seriesByID m))(i := None)"
  "meas_fieldNames (Measurement_DropSeries i m) = meas_fieldNames m"
  by (auto simp: Measurement_DropSeries_def delete_conv')

end
