(* ===== verification/Index_DB.thy ===== *)
theory Index_DB
  imports Index_Meas Models_Scan
begin

text \<open>
  The index of a database (\<open>DatabaseIndex\<close> in \<open>tsdb/meta.go\<close>): measurements by name and series by key.  Measurements are
  shared by the map of the index and by their series, so they live in a heap and the maps hold addresses.  A series is
  reached by its key and by its ID; both places hold the same value.
\<close>

section \<open>State\<close>

record DatabaseIndex =
  ix_measurements :: "(string \<times> nat) list"
  ix_heap :: "Measurement list"
  ix_series :: "(string \<times> Series) list"
  ix_lastID :: u64

definition NewDatabaseIndex :: DatabaseIndex where
  "NewDatabaseIndex = \<lparr>ix_measurements = [], ix_heap = [], ix_series = [], ix_lastID = 0\<rparr>"

section \<open>Reading\<close>

definition DatabaseIndex_Series :: "string \<Rightarrow> DatabaseIndex \<Rightarrow> Series option" where
  "DatabaseIndex_Series k d = map_of (ix_series d) k"

definition DatabaseIndex_SeriesN :: "DatabaseIndex \<Rightarrow> nat" where
  "DatabaseIndex_SeriesN d = length (ix_series d)"

definition DatabaseIndex_Measurement :: "string \<Rightarrow> DatabaseIndex \<Rightarrow> Measurement option" where
  "DatabaseIndex_Measurement name d = map_option ((!) (ix_heap d)) (map_of (ix_measurements d) name)"

definition DatabaseIndex_MeasurementsByName :: "string list \<Rightarrow> DatabaseIndex \<Rightarrow> Measurement list" where
  "DatabaseIndex_MeasurementsByName names d = List.map_filter (\<lambda>n. DatabaseIndex_Measurement n d) names"

definition DatabaseIndex_MeasurementSeriesCounts :: "DatabaseIndex \<Rightarrow> nat \<times> nat" where
  "DatabaseIndex_MeasurementSeriesCounts d = (length (ix_measurements d), length (ix_series d))"

definition DatabaseIndex_TagsForSeries :: "string \<Rightarrow> DatabaseIndex \<Rightarrow> (string \<times> string) list option" where
  "DatabaseIndex_TagsForSeries k d = map_option ser_Tags (map_of (ix_series d) k)"

definition DatabaseIndex_Measurements :: "DatabaseIndex \<Rightarrow> Measurement list" where
  "DatabaseIndex_Measurements d = map (\<lambda>(n, a). ix_heap d ! a) (ix_measurements d)"

definition DatabaseIndex_measurementsByRegex :: "(string \<Rightarrow> bool) \<Rightarrow> DatabaseIndex \<Rightarrow> Measurement list" where
  "DatabaseIndex_measurementsByRegex re d = filter (\<lambda>m. re (meas_Name m)) (DatabaseIndex_Measurements d)"

text \<open>The name is the key up to the first comma, also if that comma is escaped.\<close>

definition MeasurementFromSeriesKey :: "string \<Rightarrow> string" where
  "MeasurementFromSeriesKey k = takeWhile (\<lambda>c. c \<noteq> comma) k"

section \<open>Changing\<close>

definition escape_UnescapeString :: "string \<Rightarrow> string" where
  "escape_UnescapeString s = unescape_all escape_Codes s"

definition CreateMeasurementIndexIfNotExists :: "string \<Rightarrow> DatabaseIndex \<Rightarrow> DatabaseIndex \<times> nat" where
  "CreateMeasurementIndexIfNotExists name d =
     (let name = escape_UnescapeString name in
      case map_of (ix_measurements d) name of
        Some a \<Rightarrow> (d, a)
      | None \<Rightarrow> (d\<lparr>ix_heap := ix_heap d @ [NewMeasurement name],
                   ix_measurements := AList.update name (length (ix_heap d)) (ix_measurements d)\<rparr>, length (ix_heap d)))"

definition CreateSeriesIndexIfNotExists :: "string \<Rightarrow> Series \<Rightarrow> DatabaseIndex \<Rightarrow> DatabaseIndex \<times> Series" where
  "CreateSeriesIndexIfNotExists name series d =
     (case map_of (ix_series d) (ser_Key series) of
        Some ss \<Rightarrow> (d, ss)
      | None \<Rightarrow>
          let (d, a) = CreateMeasurementIndexIfNotExists name d;
              series = series\<lparr>ser_id := ix_lastID d + 1, ser_measurement := Some a\<rparr>
          in (d\<lparr>ix_lastID := ix_lastID d + 1, ix_series := AList.update (ser_Key series) series (ix_series d),
               ix_heap := (ix_heap d)[a := fst (Measurement_AddSeries series (ix_heap d ! a))]\<rparr>, series))"

definition DatabaseIndex_DropMeasurement :: "string \<Rightarrow> DatabaseIndex \<Rightarrow> DatabaseIndex" where
  "DatabaseIndex_DropMeasurement name d =
     (case map_of (ix_measurements d) name of
        None \<Rightarrow> d
      | Some a \<Rightarrow>
          d\<lparr>ix_measurements := AList.delete name (ix_measurements d),
            ix_series := fold (\<lambda>(i, s). AList.delete (ser_Key s)) (meas_seriesByID (ix_heap d ! a)) (ix_series d)\<rparr>)"

text \<open>\<open>None\<close> is the panic on a series without a measurement.\<close>

fun DatabaseIndex_DropSeries :: "string list \<Rightarrow> DatabaseIndex \<Rightarrow> DatabaseIndex option" where
  "DatabaseIndex_DropSeries [] d = Some d"
| "DatabaseIndex_DropSeries (k # ks) d =
     (case map_of (ix_series d) k of
        None \<Rightarrow> DatabaseIndex_DropSeries ks d
      | Some s \<Rightarrow>
          (case ser_measurement s of
             None \<Rightarrow> None
           | Some a \<Rightarrow>
               DatabaseIndex_DropSeries ks
                 (d\<lparr>ix_heap := (ix_heap d)[a := Measurement_DropSeries (ser_id s) (ix_heap d ! a)],
                    ix_series := AList.delete k (ix_series d)\<rparr>)))"

text \<open>\<open>ss.shardIDs[id] = true\<close> for the series of a key, in \<open>Shard.WritePoints\<close>.\<close>

definition mark_series :: "u64 \<Rightarrow> Series \<Rightarrow> Series" where
  "mark_series sid s = s\<lparr>ser_shardIDs := List.insert sid (ser_shardIDs s)\<rparr>"

definition mark_shard :: "u64 \<Rightarrow> string \<Rightarrow> DatabaseIndex \<Rightarrow> DatabaseIndex" where
  "mark_shard sid k d =
     (case map_of (ix_series d) k of
        None \<Rightarrow> d
      | Some s \<Rightarrow>
          let d = d\<lparr>ix_series := AList.update k (mark_series sid s) (ix_series d)\<rparr> in
          case ser_measurement s of
            None \<Rightarrow> d
          | Some a \<Rightarrow>
              d\<lparr>ix_heap := (ix_heap d)[a := (ix_heap d ! a)\<lparr>meas_seriesByID :=
                 AList.update (ser_id s) (mark_series sid s) (meas_seriesByID (ix_heap d ! a))\<rparr>]\<rparr>)"

text \<open>\<open>measurement.fieldNames[name] = struct{}{}\<close> for the measurement of a name, which is created if needed.\<close>

definition create_field_name :: "string \<Rightarrow> string \<Rightarrow> DatabaseIndex \<Rightarrow> DatabaseIndex" where
  "create_field_name name field d =
     (let (d, a) = CreateMeasurementIndexIfNotExists name d
      in d\<lparr>ix_heap := (ix_heap d)[a := Measurement_SetFieldName field (ix_heap d ! a)]\<rparr>)"

section \<open>The invariant\<close>

definition measurements_wf :: "DatabaseIndex \<Rightarrow> bool" where
  "measurements_wf d \<longleftrightarrow> distinct (map fst (ix_measurements d)) \<and>
     (\<forall>n a. map_of (ix_measurements d) n = Some a \<longrightarrow>
        a < length (ix_heap d) \<and> meas_Name (ix_heap d ! a) = n \<and> meas_wf (ix_heap d ! a))"

definition live :: "DatabaseIndex \<Rightarrow> nat \<Rightarrow> bool" where
  "live d a \<longleftrightarrow> (\<exists>n. map_of (ix_measurements d) n = Some a)"

text \<open>The series of the measurement at an address.\<close>

definition at :: "DatabaseIndex \<Rightarrow> nat \<Rightarrow> u64 \<Rightarrow> Series option" where
  "at d a = map_of (meas_seriesByID (ix_heap d ! a))"

definition placed :: "DatabaseIndex \<Rightarrow> Series \<Rightarrow> nat \<Rightarrow> bool" where
  "placed d s a \<longleftrightarrow> ser_measurement s = Some a \<and> live d a \<and> at d a (ser_id s) = Some s"

abbreviation ser :: "DatabaseIndex \<Rightarrow> string \<Rightarrow> Series option" where
  "ser d \<equiv> map_of (ix_series d)"

definition series_wf :: "DatabaseIndex \<Rightarrow> bool" where
  "series_wf d \<longleftrightarrow> (\<forall>k s. ser d k = Some s \<longrightarrow> ser_Key s = k \<and> (\<exists>a. placed d s a))"

definition heap_wf :: "DatabaseIndex \<Rightarrow> bool" where
  "heap_wf d \<longleftrightarrow> (\<forall>a i s. live d a \<longrightarrow> at d a i = Some s \<longrightarrow> ser d (ser_Key s) = Some s \<and> ser_measurement s = Some a)"

definition ids_wf :: "DatabaseIndex \<Rightarrow> bool" where
  "ids_wf d \<longleftrightarrow>
     (\<forall>k s. ser d k = Some s \<longrightarrow> ser_id s \<le> ix_lastID d) \<and>
     (\<forall>k s k' s'. ser d k = Some s \<longrightarrow> ser d k' = Some s' \<longrightarrow> ser_id s = ser_id s' \<longrightarrow> k = k')"

definition index_wf :: "DatabaseIndex \<Rightarrow> bool" where
  "index_wf d \<longleftrightarrow> distinct (map fst (ix_series d)) \<and> measurements_wf d \<and> series_wf d \<and> heap_wf d \<and> ids_wf d"

lemma index_wfD:
  assumes "index_wf d"
  shows "measurements_wf d" "series_wf d" "heap_wf d" "ids_wf d" "distinct (map fst (ix_series d))"
  using assms by (simp_all add: index_wf_def)

lemma measurement_at:
  assumes "measurements_wf d" and "map_of (ix_measurements d) n = Some a"
  shows "meas_Name (ix_heap d ! a) = n" "a < length (ix_heap d)" "meas_wf (ix_heap d ! a)"
  using assms unfolding measurements_wf_def by blast+

lemma live_meas:
  assumes "measurements_wf d" and "live d a"
  shows "map_of (ix_measurements d) (meas_Name (ix_heap d ! a)) = Some a" "a < length (ix_heap d)" "meas_wf (ix_heap d ! a)"
  using assms by (auto simp: measurements_wf_def live_def)

lemma index_wf_New: "index_wf NewDatabaseIndex"
  by (simp add: index_wf_def measurements_wf_def series_wf_def heap_wf_def ids_wf_def live_def NewDatabaseIndex_def)

lemma series_wf_same:
  assumes "series_wf d" and "ix_series d' = ix_series d" and "\<forall>s a. placed d s a \<longrightarrow> placed d' s a"
  shows "series_wf d'"
  using assms(1,3) unfolding series_wf_def assms(2) by blast

text \<open>A measurement is changed in place.\<close>

lemma set_heap_simps [simp]:
  "live (d\<lparr>ix_heap := h\<rparr>) = live d" "live (d\<lparr>ix_series := l\<rparr>) = live d" "live (d\<lparr>ix_lastID := i\<rparr>) = live d"
  "at (d\<lparr>ix_series := l\<rparr>) = at d" "at (d\<lparr>ix_lastID := i\<rparr>) = at d"
  by (simp_all add: live_def at_def fun_eq_iff)

lemma at_update:
  "a < length (ix_heap d) \<Longrightarrow> at (d\<lparr>ix_heap := (ix_heap d)[a := m]\<rparr>) b = (if b = a then map_of (meas_seriesByID m) else at d b)"
  by (simp add: at_def)

lemma measurements_wf_update:
  assumes "measurements_wf d" and "meas_Name m = meas_Name (ix_heap d ! a)" and "meas_wf m"
  shows "measurements_wf (d\<lparr>ix_heap := (ix_heap d)[a := m]\<rparr>)"
proof -
  have "(ix_heap d)[a := m] ! b = (if b = a then m else ix_heap d ! b)" if "map_of (ix_measurements d) n = Some b" for n b
    using assms(1) that by (auto simp: measurements_wf_def nth_list_update)
  with assms show ?thesis unfolding measurements_wf_def by simp
qed

section \<open>Creating\<close>

lemma CreateMeasurement:
  assumes "index_wf d" and "CreateMeasurementIndexIfNotExists name d = (d', a)"
  shows "index_wf d'" "ix_series d' = ix_series d" "ix_lastID d' = ix_lastID d" "live d' a"
    and "meas_Name (ix_heap d' ! a) = escape_UnescapeString name"
    and "\<And>b. live d b \<Longrightarrow> live d' b \<and> ix_heap d' ! b = ix_heap d ! b"
    and "\<not> live d a \<Longrightarrow> ix_heap d' ! a = NewMeasurement (escape_UnescapeString name)"
proof -
  let ?n = "escape_UnescapeString name"
  have M: "measurements_wf d" using assms(1) by (rule index_wfD)
  have "index_wf d' \<and> ix_series d' = ix_series d \<and> ix_lastID d' = ix_lastID d \<and> live d' a \<and> meas_Name (ix_heap d' ! a) = ?n \<and>
    (\<forall>b. live d b \<longrightarrow> live d' b \<and> ix_heap d' ! b = ix_heap d ! b) \<and> (\<not> live d a \<longrightarrow> ix_heap d' ! a = NewMeasurement ?n)"
  proof (cases "map_of (ix_measurements d) ?n")
    case (Some b)
    then have "d' = d" "a = b" "live d b" "meas_Name (ix_heap d ! b) = ?n"
      using assms(2) M by (auto simp: CreateMeasurementIndexIfNotExists_def Let_def live_def measurements_wf_def)
    then show ?thesis using assms(1) by simp
  next
    case None
    let ?a = "length (ix_heap d)"
    have a: "a = ?a" and d': "d' = d\<lparr>ix_heap := ix_heap d @ [NewMeasurement ?n], ix_measurements := AList.update ?n ?a (ix_measurements d)\<rparr>"
      using assms(2) None by (auto simp: CreateMeasurementIndexIfNotExists_def Let_def)
    have new: "ix_heap d' ! ?a = NewMeasurement ?n" by (simp add: d')
    have heap: "ix_heap d' ! b = ix_heap d ! b" if "live d b" for b
      using live_meas(2) [OF M that] by (simp add: d' nth_append)
    have meas: "map_of (ix_measurements d') = (map_of (ix_measurements d))(?n \<mapsto> ?a)" by (simp add: d' update_conv')
    have live: "live d' b \<longleftrightarrow> b = ?a \<or> live d b" for b
      using None unfolding live_def meas by (metis fun_upd_apply option.distinct(1) option.inject)
    have "b < length (ix_heap d') \<and> meas_Name (ix_heap d' ! b) = n \<and> meas_wf (ix_heap d' ! b)"
      if "map_of (ix_measurements d') n = Some b" for n b
    proof (cases "n = ?n")
      case True
      with that meas have "b = ?a" by simp
      with True show ?thesis by (simp add: d' meas_wf_New) (simp add: NewMeasurement_def)
    next
      case False
      with that meas have "map_of (ix_measurements d) n = Some b" by simp
      with M have "b < ?a" "meas_Name (ix_heap d ! b) = n" "meas_wf (ix_heap d ! b)" by (auto simp: measurements_wf_def)
      then show ?thesis by (simp add: d' nth_append)
    qed
    moreover have "distinct (map fst (ix_measurements d'))" using M by (simp add: d' measurements_wf_def distinct_update)
    ultimately have M': "measurements_wf d'" unfolding measurements_wf_def by blast
    have "placed d s b \<Longrightarrow> placed d' s b" for s b using heap live by (auto simp: placed_def at_def)
    moreover have "ix_series d' = ix_series d" by (simp add: d')
    ultimately have "series_wf d'" using index_wfD(2) [OF assms(1)] series_wf_same [of d d'] by blast
    moreover have "heap_wf d'"
    proof -
      have "ser d (ser_Key s) = Some s \<and> ser_measurement s = Some b" if "live d' b" "at d' b i = Some s" for b i s
      proof -
        have "b \<noteq> ?a" using that(2) new by (auto simp: at_def NewMeasurement_def)
        with that live have "live d b" by simp
        with that(2) heap have "at d b i = Some s" by (simp add: at_def)
        with \<open>live d b\<close> show ?thesis using index_wfD(3) [OF assms(1)] unfolding heap_wf_def by blast
      qed
      then show ?thesis by (simp add: heap_wf_def d')
    qed
    moreover have "ids_wf d'" using index_wfD(4) [OF assms(1)] by (simp add: ids_wf_def d')
    ultimately have "index_wf d'" using M' index_wfD(5) [OF assms(1)] by (simp add: index_wf_def d')
    then show ?thesis using heap live new a by (simp add: d' NewMeasurement_def)
  qed
  then show "index_wf d'" "ix_series d' = ix_series d" "ix_lastID d' = ix_lastID d" "live d' a"
    "meas_Name (ix_heap d' ! a) = ?n"
    "\<And>b. live d b \<Longrightarrow> live d' b \<and> ix_heap d' ! b = ix_heap d ! b"
    "\<not> live d a \<Longrightarrow> ix_heap d' ! a = NewMeasurement ?n"
    by simp_all
qed

lemma at_ids:
  assumes "index_wf d" and "live d a" and "at d a i = Some s"
  shows "ser d (ser_Key s) = Some s" "ser_measurement s = Some a" "ser_id s = i" "i \<le> ix_lastID d" "distinct (map fst (ser_Tags s))"
proof -
  show 1: "ser d (ser_Key s) = Some s" and "ser_measurement s = Some a"
    using index_wfD(3) [OF assms(1)] assms(2,3) unfolding heap_wf_def by blast+
  show 2: "ser_id s = i" and "distinct (map fst (ser_Tags s))"
    using meas_wf_series [OF live_meas(3) [OF index_wfD(1) [OF assms(1)] assms(2)]] assms(3) by (auto simp: at_def)
  have "ser_id s \<le> ix_lastID d" using index_wfD(4) [OF assms(1)] 1 unfolding ids_wf_def by blast
  with 2 show "i \<le> ix_lastID d" by simp
qed

lemma less_succ_u64:
  fixes x :: u64
  assumes "x \<noteq> - 1"
  shows "x < x + 1"
proof -
  have "unat x \<noteq> unat (- 1 :: u64)" using assms by (metis word_unat_eq_iff)
  moreover have "unat (- 1 :: u64) = 2 ^ 64 - 1" by (simp add: unsigned_minus_1_eq_mask mask_eq_exp_minus_1)
  moreover have "unat x < 2 ^ 64" using unsigned_less [of x] by simp
  ultimately show ?thesis using less_add_nowrap [of x 1 x] by simp
qed

lemma CreateSeries_existing:
  "ser d (ser_Key s) = Some ss \<Longrightarrow> CreateSeriesIndexIfNotExists name s d = (d, ss)"
  by (simp add: CreateSeriesIndexIfNotExists_def)

lemma CreateSeries_new:
  assumes "index_wf d" and "ser d (ser_Key s) = None" and "ix_lastID d \<noteq> - 1" and "distinct (map fst (ser_Tags s))"
    and "CreateSeriesIndexIfNotExists name s d = (d', s')"
  shows "index_wf d'" and "ser d' = (ser d)(ser_Key s \<mapsto> s')"
    and "\<exists>a. s' = s\<lparr>ser_id := ix_lastID d + 1, ser_measurement := Some a\<rparr> \<and> live d' a \<and> meas_Name (ix_heap d' ! a) = escape_UnescapeString name"
    and "\<And>b. live d b \<Longrightarrow> live d' b \<and> meas_Name (ix_heap d' ! b) = meas_Name (ix_heap d ! b) \<and> meas_fieldNames (ix_heap d' ! b) = meas_fieldNames (ix_heap d ! b)"
    and "ix_lastID d' = ix_lastID d + 1"
proof -
  obtain d1 a where d1: "CreateMeasurementIndexIfNotExists name d = (d1, a)" by fastforce
  note C = CreateMeasurement [OF assms(1) d1]
  let ?i = "ix_lastID d + 1" and ?m = "ix_heap d1 ! a"
  let ?s = "s\<lparr>ser_id := ?i, ser_measurement := Some a\<rparr>"
  let ?m' = "fst (Measurement_AddSeries ?s ?m)"
  let ?h = "d1\<lparr>ix_heap := (ix_heap d1)[a := ?m']\<rparr>"
  have s': "s' = ?s" and d': "d' = ?h\<lparr>ix_lastID := ?i, ix_series := AList.update (ser_Key s) ?s (ix_series d1)\<rparr>"
    using assms(2,5) d1 C(3) by (auto simp: CreateSeriesIndexIfNotExists_def Let_def)
  have succ: "ix_lastID d < ?i" using assms(3) by (rule less_succ_u64)
  have fresh: "j \<noteq> ?i" if "j \<le> ix_lastID d" for j
    using that succ by auto
  have M1: "measurements_wf d1" using C(1) by (rule index_wfD)
  have al: "a < length (ix_heap d1)" by (rule live_meas(2) [OF M1 C(4)])
  have none: "map_of (meas_seriesByID ?m) (ser_id ?s) = None"
  proof (rule ccontr)
    assume "\<not> ?thesis"
    then obtain t where "at d1 a ?i = Some t" by (auto simp: at_def)
    with at_ids(4) [OF C(1) C(4) this] succ C(3) show False by simp
  qed
  note A = AddSeries_simps [OF none]
  have at': "at d' b = (if b = a then (at d1 a)(?i \<mapsto> ?s) else at d1 b)" for b
    using al A(2) by (simp add: d' at_update) (simp add: at_def)
  have ser': "ser d' = (ser d)(ser_Key s \<mapsto> ?s)" by (simp add: d' C(2) update_conv')
  have live': "live d' = live d1" by (simp add: d')
  have heap': "ix_heap d' ! b = (if b = a then ?m' else ix_heap d1 ! b)" for b using al by (simp add: d')
  have "measurements_wf ?h"
    using M1 A(1) meas_wf_AddSeries [OF live_meas(3) [OF M1 C(4)] none] assms(4) by (intro measurements_wf_update) simp_all
  then have M': "measurements_wf d'" by (simp add: d' measurements_wf_def)
  have old: "placed d' t b" if "placed d1 t b" "ser d k = Some t" for t b k
    using that at_ids(4) [OF C(1), of b "ser_id t" t] fresh C(3) by (auto simp: placed_def at' live')
  have new: "placed d' ?s a" using C(4) by (simp add: placed_def at' live')
  have S: "series_wf d'"
    unfolding series_wf_def
  proof (intro allI impI)
    fix k t assume t: "ser d' k = Some t"
    show "ser_Key t = k \<and> (\<exists>b. placed d' t b)"
    proof (cases "k = ser_Key s")
      case True
      with t new show ?thesis by (auto simp: ser')
    next
      case False
      with t have "ser d k = Some t" by (simp add: ser')
      moreover from this have "ser_Key t = k \<and> (\<exists>b. placed d1 t b)"
        using index_wfD(2) [OF C(1)] unfolding series_wf_def C(2) by blast
      ultimately show ?thesis using old by blast
    qed
  qed
  have H: "heap_wf d'"
    unfolding heap_wf_def live'
  proof (intro allI impI)
    fix b i t assume b: "live d1 b" and t: "at d' b i = Some t"
    show "ser d' (ser_Key t) = Some t \<and> ser_measurement t = Some b"
    proof (cases "b = a \<and> i = ?i")
      case True
      with t show ?thesis by (auto simp: at' ser')
    next
      case False
      with t have "at d1 b i = Some t" by (auto simp: at' split: if_splits)
      note T = at_ids [OF C(1) b this]
      with assms(2) C(2) have "ser_Key t \<noteq> ser_Key s" by auto
      with T C(2) show ?thesis by (simp add: ser')
    qed
  qed
  have last: "ix_lastID d \<le> ?i" using succ by simp
  have I: "ids_wf d'"
  proof -
    have old_id: "ser_id t \<le> ix_lastID d" if "ser d k = Some t" for k t
      using index_wfD(4) [OF assms(1)] that unfolding ids_wf_def by blast
    have inj: "k = k'" if "ser d k = Some t" "ser d k' = Some t'" "ser_id t = ser_id t'" for k k' t t'
      using index_wfD(4) [OF assms(1)] that unfolding ids_wf_def by blast
    have "ser_id t \<le> ?i" if "ser d' k = Some t" for k t
      using that old_id [of k t] last by (auto simp: ser' split: if_splits)
    moreover have "k = k'" if "ser d' k = Some t" "ser d' k' = Some t'" "ser_id t = ser_id t'" for k k' t t'
      using that inj [of k t k' t'] old_id [of k t] old_id [of k' t'] fresh [of "ser_id t"] fresh [of "ser_id t'"]
      by (auto simp: ser' split: if_splits)
    moreover have "ix_lastID d' = ?i" by (simp add: d')
    ultimately show ?thesis unfolding ids_wf_def by metis
  qed
  have "distinct (map fst (ix_series d'))" using index_wfD(5) [OF C(1)] by (simp add: d' distinct_update)
  then show "index_wf d'" using M' S H I by (simp add: index_wf_def)
  show "ser d' = (ser d)(ser_Key s \<mapsto> s')" using ser' s' by simp
  show "\<exists>a. s' = s\<lparr>ser_id := ix_lastID d + 1, ser_measurement := Some a\<rparr> \<and> live d' a \<and> meas_Name (ix_heap d' ! a) = escape_UnescapeString name"
    using s' C(4,5) A(1) by (auto simp: live' heap' intro!: exI [of _ a])
  show "live d' b \<and> meas_Name (ix_heap d' ! b) = meas_Name (ix_heap d ! b) \<and> meas_fieldNames (ix_heap d' ! b) = meas_fieldNames (ix_heap d ! b)"
    if "live d b" for b using C(6) [OF that] A(1,3) by (auto simp: live' heap')
  show "ix_lastID d' = ix_lastID d + 1" by (simp add: d')
qed

section \<open>Dropping and marking\<close>

lemma ser_placed:
  assumes "index_wf d" and "ser d k = Some s"
  shows "ser_Key s = k" and "\<exists>a. placed d s a"
  using index_wfD(2) [OF assms(1)] assms(2) unfolding series_wf_def by blast+

lemma ser_id_inj:
  assumes "index_wf d" and "ser d k = Some s" and "ser d k' = Some s'" and "ser_id s = ser_id s'"
  shows "k = k'"
  using index_wfD(4) [OF assms(1)] assms(2-4) unfolding ids_wf_def by blast

lemma drop_one:
  assumes "index_wf d" and "ser d k = Some s" and "placed d s a"
    and "d' = d\<lparr>ix_heap := (ix_heap d)[a := Measurement_DropSeries (ser_id s) (ix_heap d ! a)], ix_series := AList.delete k (ix_series d)\<rparr>"
  shows "index_wf d'" and "ser d' = (ser d)(k := None)" and "live d' = live d"
    and "\<And>b. meas_Name (ix_heap d' ! b) = meas_Name (ix_heap d ! b) \<and> meas_fieldNames (ix_heap d' ! b) = meas_fieldNames (ix_heap d ! b)"
proof -
  let ?m = "Measurement_DropSeries (ser_id s) (ix_heap d ! a)"
  let ?h = "d\<lparr>ix_heap := (ix_heap d)[a := ?m]\<rparr>"
  have a: "live d a" using assms(3) by (simp add: placed_def)
  have M: "measurements_wf d" using assms(1) by (rule index_wfD)
  have al: "a < length (ix_heap d)" by (rule live_meas(2) [OF M a])
  have d': "d' = ?h\<lparr>ix_series := AList.delete k (ix_series d)\<rparr>" using assms(4) by simp
  show ser': "ser d' = (ser d)(k := None)" by (simp add: d' delete_conv')
  show live': "live d' = live d" by (simp add: d')
  have at': "at d' b = (if b = a then (at d a)(ser_id s := None) else at d b)" for b
    using al by (simp add: d' at_update) (simp add: at_def)
  show "meas_Name (ix_heap d' ! b) = meas_Name (ix_heap d ! b) \<and> meas_fieldNames (ix_heap d' ! b) = meas_fieldNames (ix_heap d ! b)" for b
    using al by (simp add: d' nth_list_update)
  have "measurements_wf ?h"
    by (rule measurements_wf_update [OF M]) (simp_all add: meas_wf_DropSeries live_meas(3) [OF M a])
  then have M': "measurements_wf d'" by (simp add: d' measurements_wf_def)
  have S: "series_wf d'"
    unfolding series_wf_def
  proof (intro allI impI)
    fix k' t assume "ser d' k' = Some t"
    then have t: "ser d k' = Some t" "k' \<noteq> k" by (auto simp: ser' split: if_splits)
    obtain b where b: "placed d t b" using ser_placed(2) [OF assms(1) t(1)] by blast
    have "ser_id t \<noteq> ser_id s" using ser_id_inj [OF assms(1) t(1) assms(2)] t(2) by blast
    with b have "placed d' t b" by (auto simp: placed_def at' live')
    with ser_placed(1) [OF assms(1) t(1)] show "ser_Key t = k' \<and> (\<exists>b. placed d' t b)" by blast
  qed
  have H: "heap_wf d'"
    unfolding heap_wf_def live'
  proof (intro allI impI)
    fix b i t assume b: "live d b" and "at d' b i = Some t"
    then have t: "at d b i = Some t" and ne: "b = a \<Longrightarrow> i \<noteq> ser_id s" by (auto simp: at' split: if_splits)
    note T = at_ids [OF assms(1) b t]
    have "ser_Key t \<noteq> k"
    proof
      assume "ser_Key t = k"
      with T(1) assms(2) have "t = s" by simp
      with T(2,3) ne assms(3) show False by (simp add: placed_def)
    qed
    with T show "ser d' (ser_Key t) = Some t \<and> ser_measurement t = Some b" by (simp add: ser')
  qed
  have "ids_wf d'"
    using index_wfD(4) [OF assms(1)] unfolding ids_wf_def ser' by (simp add: d')
  then show "index_wf d'" using M' S H index_wfD(5) [OF assms(1)] by (simp add: index_wf_def d' distinct_delete)
qed

lemma DropSeries:
  "index_wf d \<Longrightarrow> \<exists>d'. DatabaseIndex_DropSeries ks d = Some d' \<and> index_wf d' \<and> ser d' = (ser d) |` (- set ks) \<and> live d' = live d \<and>
     (\<forall>b. meas_Name (ix_heap d' ! b) = meas_Name (ix_heap d ! b) \<and> meas_fieldNames (ix_heap d' ! b) = meas_fieldNames (ix_heap d ! b)) \<and>
     ix_lastID d' = ix_lastID d"
proof (induction ks arbitrary: d)
  case (Cons k ks)
  show ?case
  proof (cases "ser d k")
    case None
    then have "ser d |` (- set ks) = ser d |` (- set (k # ks))" by (auto simp: restrict_map_def fun_eq_iff)
    with None Cons.IH [OF Cons.prems] show ?thesis by simp
  next
    case (Some s)
    obtain a where a: "placed d s a" using ser_placed(2) [OF Cons.prems Some] by blast
    let ?d = "d\<lparr>ix_heap := (ix_heap d)[a := Measurement_DropSeries (ser_id s) (ix_heap d ! a)], ix_series := AList.delete k (ix_series d)\<rparr>"
    note D = drop_one [OF Cons.prems Some a refl]
    have R: "(ser d)(k := None) |` (- set ks) = ser d |` (- set (k # ks))" by (auto simp: restrict_map_def fun_eq_iff)
    have E: "DatabaseIndex_DropSeries (k # ks) d = DatabaseIndex_DropSeries ks ?d" using Some a by (simp add: placed_def)
    have L: "ix_lastID ?d = ix_lastID d" by simp
    show ?thesis using Cons.IH [OF D(1)] unfolding D(2,3) R E L using D(4) by metis
  qed
qed (simp add: restrict_map_def)

lemma ser_fold_delete:
  "map_of (fold (\<lambda>(i, s). AList.delete (ser_Key s)) l ss) k = (if k \<in> ser_Key ` snd ` set l then None else map_of ss k)"
  by (induction l arbitrary: ss) (auto simp: delete_conv')

lemma distinct_fold_delete:
  "distinct (map fst ss) \<Longrightarrow> distinct (map fst (fold (\<lambda>(i, s). AList.delete (ser_Key s)) l ss))"
  by (induction l arbitrary: ss) (auto simp: distinct_delete split: prod.splits)

lemma DropMeasurement:
  assumes "index_wf d" and "map_of (ix_measurements d) name = Some a" and "d' = DatabaseIndex_DropMeasurement name d"
  shows "index_wf d'" and "ix_heap d' = ix_heap d" and "live d' b \<longleftrightarrow> live d b \<and> b \<noteq> a"
    and "ser d' k = (case ser d k of None \<Rightarrow> None | Some s \<Rightarrow> if ser_measurement s = Some a then None else Some s)"
proof -
  have M: "measurements_wf d" using assms(1) by (rule index_wfD)
  have la: "live d a" using assms(2) by (auto simp: live_def)
  have dist: "distinct (map fst (meas_seriesByID (ix_heap d ! a)))" using live_meas(3) [OF M la] by (simp add: meas_wf_def)
  have d': "d' = d\<lparr>ix_measurements := AList.delete name (ix_measurements d),
      ix_series := fold (\<lambda>(i, s). AList.delete (ser_Key s)) (meas_seriesByID (ix_heap d ! a)) (ix_series d)\<rparr>"
    using assms(2,3) by (simp add: DatabaseIndex_DropMeasurement_def)
  show heap: "ix_heap d' = ix_heap d" by (simp add: d')
  have meas: "map_of (ix_measurements d') = (map_of (ix_measurements d))(name := None)" by (simp add: d' delete_conv')
  have name: "n = name" if "map_of (ix_measurements d) n = Some a" for n
    using measurement_at(1) [OF M that] measurement_at(1) [OF M assms(2)] by (rule subst)
  show live': "live d' b \<longleftrightarrow> live d b \<and> b \<noteq> a" for b
    unfolding live_def meas using name [of name] name assms(2) by (metis fun_upd_apply option.distinct(1) option.inject)
  have at': "at d' = at d" by (simp add: at_def heap fun_eq_iff)
  have keys: "k \<in> ser_Key ` snd ` set (meas_seriesByID (ix_heap d ! a)) \<longleftrightarrow> (\<exists>s. ser d k = Some s \<and> ser_measurement s = Some a)" for k
  proof
    assume "k \<in> ser_Key ` snd ` set (meas_seriesByID (ix_heap d ! a))"
    then obtain i s where "(i, s) \<in> set (meas_seriesByID (ix_heap d ! a))" "k = ser_Key s" by auto
    with dist have "at d a i = Some s" by (simp add: at_def)
    from at_ids [OF assms(1) la this] \<open>k = ser_Key s\<close> show "\<exists>s. ser d k = Some s \<and> ser_measurement s = Some a" by blast
  next
    assume "\<exists>s. ser d k = Some s \<and> ser_measurement s = Some a"
    then obtain s where s: "ser d k = Some s" "ser_measurement s = Some a" by blast
    with ser_placed [OF assms(1) s(1)] have "at d a (ser_id s) = Some s" "ser_Key s = k" by (auto simp: placed_def)
    then show "k \<in> ser_Key ` snd ` set (meas_seriesByID (ix_heap d ! a))"
      by (force simp: at_def dest: map_of_SomeD)
  qed
  show ser': "ser d' k = (case ser d k of None \<Rightarrow> None | Some s \<Rightarrow> if ser_measurement s = Some a then None else Some s)" for k
    using keys [of k] by (auto simp: d' ser_fold_delete split: option.splits)
  then have sub: "ser d' k = Some s \<longleftrightarrow> ser d k = Some s \<and> ser_measurement s \<noteq> Some a" for k s
    by (auto split: option.splits if_splits)
  have "measurements_wf d'" using M unfolding measurements_wf_def meas heap by (auto simp: d' distinct_delete split: if_splits)
  moreover have "series_wf d'"
    unfolding series_wf_def sub
  proof (intro allI impI)
    fix k s assume s: "ser d k = Some s \<and> ser_measurement s \<noteq> Some a"
    then obtain b where "placed d s b" using ser_placed(2) [OF assms(1)] by blast
    with s have "placed d' s b" by (auto simp: placed_def live' at')
    with s ser_placed(1) [OF assms(1)] show "ser_Key s = k \<and> (\<exists>b. placed d' s b)" by blast
  qed
  moreover have "heap_wf d'" using at_ids(1,2) [OF assms(1)] unfolding heap_wf_def live' at' sub by auto
  moreover have "ids_wf d'" using index_wfD(4) [OF assms(1)] unfolding ids_wf_def sub by (simp add: d') blast
  ultimately show "index_wf d'" using distinct_fold_delete [OF index_wfD(5) [OF assms(1)]] by (simp add: index_wf_def d')
qed

lemma DropMeasurement_unknown: "map_of (ix_measurements d) name = None \<Longrightarrow> DatabaseIndex_DropMeasurement name d = d"
  by (simp add: DatabaseIndex_DropMeasurement_def)

text \<open>A change of a measurement that keeps its name and its series.\<close>

lemma index_wf_in_place:
  assumes "index_wf d" and "live d a" and "meas_Name m = meas_Name (ix_heap d ! a)" and "meas_wf m"
    and "map_of (meas_seriesByID m) = map_of (meas_seriesByID (ix_heap d ! a))"
  shows "index_wf (d\<lparr>ix_heap := (ix_heap d)[a := m]\<rparr>)" (is "index_wf ?d")
proof -
  have M: "measurements_wf d" using assms(1) by (rule index_wfD)
  have at': "at ?d = at d"
    using live_meas(2) [OF M assms(2)] assms(5) by (simp add: fun_eq_iff at_update) (simp add: at_def)
  have "placed ?d = placed d" by (simp add: fun_eq_iff placed_def at')
  then show ?thesis
    using assms(1) measurements_wf_update [OF M assms(3,4)]
    by (simp add: index_wf_def series_wf_def heap_wf_def ids_wf_def at')
qed

lemma create_field_name:
  assumes "index_wf d"
  shows "index_wf (create_field_name name field d)" and "ix_series (create_field_name name field d) = ix_series d"
    and "ix_lastID (create_field_name name field d) = ix_lastID d"
    and "\<exists>m. DatabaseIndex_Measurement (escape_UnescapeString name) (create_field_name name field d) = Some m \<and> Measurement_HasField field m"
    and "\<And>b. live d b \<Longrightarrow> live (create_field_name name field d) b \<and>
      meas_Name (ix_heap (create_field_name name field d) ! b) = meas_Name (ix_heap d ! b) \<and>
      set (meas_fieldNames (ix_heap d ! b)) \<subseteq> set (meas_fieldNames (ix_heap (create_field_name name field d) ! b))"
proof -
  obtain d1 a where d1: "CreateMeasurementIndexIfNotExists name d = (d1, a)" by fastforce
  note C = CreateMeasurement [OF assms d1]
  let ?m = "Measurement_SetFieldName field (ix_heap d1 ! a)"
  have E: "create_field_name name field d = d1\<lparr>ix_heap := (ix_heap d1)[a := ?m]\<rparr>" by (simp add: create_field_name_def d1)
  have M: "measurements_wf d1" using C(1) by (rule index_wfD)
  have al: "a < length (ix_heap d1)" by (rule live_meas(2) [OF M C(4)])
  show wf: "index_wf (create_field_name name field d)" unfolding E
    by (rule index_wf_in_place [OF C(1,4)])
      (use meas_wf_SetFieldName [OF live_meas(3) [OF M C(4)]] in \<open>simp_all add: Measurement_SetFieldName_def\<close>)
  show "ix_series (create_field_name name field d) = ix_series d" "ix_lastID (create_field_name name field d) = ix_lastID d"
    using C(2,3) by (simp_all add: E)
  have "map_of (ix_measurements d1) (escape_UnescapeString name) = Some a" using live_meas(1) [OF M C(4)] C(5) by simp
  then show "\<exists>m. DatabaseIndex_Measurement (escape_UnescapeString name) (create_field_name name field d) = Some m \<and> Measurement_HasField field m"
    using al by (simp add: E DatabaseIndex_Measurement_def Measurement_HasField_def Measurement_SetFieldName_def)
  show "live (create_field_name name field d) b \<and>
      meas_Name (ix_heap (create_field_name name field d) ! b) = meas_Name (ix_heap d ! b) \<and>
      set (meas_fieldNames (ix_heap d ! b)) \<subseteq> set (meas_fieldNames (ix_heap (create_field_name name field d) ! b))" if "live d b" for b
    using C(6) [OF that] al by (auto simp: E nth_list_update Measurement_SetFieldName_def)
qed

lemma mark_series_simps [simp]:
  "ser_Key (mark_series sid s) = ser_Key s" "ser_Tags (mark_series sid s) = ser_Tags s" "ser_id (mark_series sid s) = ser_id s"
  "ser_measurement (mark_series sid s) = ser_measurement s" "set (ser_shardIDs (mark_series sid s)) = insert sid (set (ser_shardIDs s))"
  by (simp_all add: mark_series_def)

lemma meas_wf_mark:
  assumes "meas_wf m" and "map_of (meas_seriesByID m) i = Some s" and "ser_Tags s' = ser_Tags s" and "ser_id s' = ser_id s"
  shows "meas_wf (m\<lparr>meas_seriesByID := AList.update i s' (meas_seriesByID m)\<rparr>)"
proof -
  have d: "distinct (map fst (meas_seriesByID m))" using assms(1) by (simp add: meas_wf_def)
  have s: "ser_id s = i" "distinct (map fst (ser_Tags s))" by (rule meas_wf_series [OF assms(1,2)])+
  have "\<forall>(j, t) \<in> set (AList.update i s' (meas_seriesByID m)). ser_id t = j \<and> distinct (map fst (ser_Tags t))"
    using assms(1,3,4) s by (auto simp: set_update_iff [OF d] meas_wf_def split: if_splits)
  moreover have "i \<in> fst ` set (meas_seriesByID m)" using assms(2) by (force dest: map_of_SomeD)
  then have "fst ` set (AList.update i s' (meas_seriesByID m)) = fst ` set (meas_seriesByID m)" by (auto simp: dom_update)
  moreover have "(\<exists>t. map_of (AList.update i s' (meas_seriesByID m)) j = Some t \<and> map_of (ser_Tags t) k = Some v) \<longleftrightarrow>
      (\<exists>t. map_of (meas_seriesByID m) j = Some t \<and> map_of (ser_Tags t) k = Some v)" for j k v
    using assms(2,3) by (simp only: update_conv') auto
  ultimately show ?thesis using assms(1) distinct_update [OF d] by (simp add: meas_wf_def)
qed

lemma mark_shard:
  assumes "index_wf d"
  shows "index_wf (mark_shard sid k d)" and "ser (mark_shard sid k d) = (ser d)(k := map_option (mark_series sid) (ser d k))"
    and "live (mark_shard sid k d) = live d" and "ix_lastID (mark_shard sid k d) = ix_lastID d"
    and "meas_Name (ix_heap (mark_shard sid k d) ! b) = meas_Name (ix_heap d ! b)"
    and "meas_fieldNames (ix_heap (mark_shard sid k d) ! b) = meas_fieldNames (ix_heap d ! b)"
proof -
  have "index_wf (mark_shard sid k d) \<and> ser (mark_shard sid k d) = (ser d)(k := map_option (mark_series sid) (ser d k)) \<and>
    live (mark_shard sid k d) = live d \<and> ix_lastID (mark_shard sid k d) = ix_lastID d \<and>
    meas_Name (ix_heap (mark_shard sid k d) ! b) = meas_Name (ix_heap d ! b) \<and>
    meas_fieldNames (ix_heap (mark_shard sid k d) ! b) = meas_fieldNames (ix_heap d ! b)"
  proof (cases "ser d k")
    case None
    then show ?thesis using assms by (simp add: mark_shard_def fun_upd_idem)
  next
    case (Some s)
    obtain a where a: "placed d s a" using ser_placed(2) [OF assms Some] by blast
    let ?s = "mark_series sid s" and ?m = "ix_heap d ! a"
    let ?m' = "?m\<lparr>meas_seriesByID := AList.update (ser_id s) (mark_series sid s) (meas_seriesByID ?m)\<rparr>"
    let ?h = "d\<lparr>ix_heap := (ix_heap d)[a := ?m']\<rparr>" and ?d = "mark_shard sid k d"
    have D: "?d = ?h\<lparr>ix_series := AList.update k ?s (ix_series d)\<rparr>" using Some a by (simp add: mark_shard_def placed_def)
    have M: "measurements_wf d" using assms by (rule index_wfD)
    have la: "live d a" using a by (simp add: placed_def)
    have al: "a < length (ix_heap d)" by (rule live_meas(2) [OF M la])
    have key: "ser_Key s = k" by (rule ser_placed(1) [OF assms Some])
    have ser': "ser ?d = (ser d)(k \<mapsto> ?s)" by (simp add: D update_conv')
    have live': "live ?d = live d" by (simp add: D)
    have at': "at ?d b = (if b = a then (at d a)(ser_id s \<mapsto> ?s) else at d b)" for b
      using al by (simp add: D at_update) (simp add: at_def update_conv')
    have "measurements_wf ?h"
      by (rule measurements_wf_update [OF M])
        (use meas_wf_mark [OF live_meas(3) [OF M la], of "ser_id s" s ?s] a in \<open>simp_all add: placed_def at_def\<close>)
    then have M': "measurements_wf ?d" by (simp add: D measurements_wf_def)
    have S: "series_wf ?d"
      unfolding series_wf_def
    proof (intro allI impI)
      fix k' t assume t: "ser ?d k' = Some t"
      show "ser_Key t = k' \<and> (\<exists>b. placed ?d t b)"
      proof (cases "k' = k")
        case True
        with t have "t = ?s" by (simp add: ser')
        then show ?thesis using True key a by (auto simp: placed_def at' live')
      next
        case False
        with t have t: "ser d k' = Some t" by (simp add: ser')
        obtain b where b: "placed d t b" using ser_placed(2) [OF assms t] by blast
        have "ser_id t \<noteq> ser_id s" using ser_id_inj [OF assms t Some] False by blast
        with b have "placed ?d t b" by (auto simp: placed_def at' live')
        with ser_placed(1) [OF assms t] show ?thesis by blast
      qed
    qed
    have H: "heap_wf ?d"
      unfolding heap_wf_def live'
    proof (intro allI impI)
      fix b i t assume b: "live d b" and t: "at ?d b i = Some t"
      show "ser ?d (ser_Key t) = Some t \<and> ser_measurement t = Some b"
      proof (cases "b = a \<and> i = ser_id s")
        case True
        with t have "t = ?s" by (simp add: at')
        with True a key show ?thesis by (simp add: ser' placed_def)
      next
        case False
        with t have t: "at d b i = Some t" by (auto simp: at' split: if_splits)
        note T = at_ids [OF assms b t]
        have "ser_Key t \<noteq> k"
        proof
          assume "ser_Key t = k"
          with T(1) Some have "t = s" by simp
          with T(2,3) a False show False by (simp add: placed_def)
        qed
        with T show ?thesis by (simp add: ser')
      qed
    qed
    have "ids_wf ?d"
    proof -
      have "\<exists>t'. ser d k' = Some t' \<and> ser_id t' = ser_id t" if "ser ?d k' = Some t" for k' t
        using that Some by (auto simp: ser' split: if_splits)
      moreover have "ix_lastID ?d = ix_lastID d" by (simp add: D)
      ultimately show ?thesis using index_wfD(4) [OF assms] unfolding ids_wf_def by metis
    qed
    then have "index_wf ?d" using M' S H index_wfD(5) [OF assms] by (simp add: index_wf_def D distinct_update)
    then show ?thesis using ser' live' al Some by (simp add: D nth_list_update)
  qed
  then show "index_wf (mark_shard sid k d)" "ser (mark_shard sid k d) = (ser d)(k := map_option (mark_series sid) (ser d k))"
    "live (mark_shard sid k d) = live d" "ix_lastID (mark_shard sid k d) = ix_lastID d"
    "meas_Name (ix_heap (mark_shard sid k d) ! b) = meas_Name (ix_heap d ! b)"
    "meas_fieldNames (ix_heap (mark_shard sid k d) ! b) = meas_fieldNames (ix_heap d ! b)" by simp_all
qed

end
