(* ===== verification/Index_Spec.thy ===== *)
theory Index_Spec
  imports Index_DB
begin

text \<open>
  What the index of a database promises, as a catalogue that gives for every series key the measurement and the tags, and the proof
  that every operation of the index implements the operation on the catalogue.
\<close>

section \<open>The catalogue\<close>

type_synonym catalogue = "string \<rightharpoonup> string \<times> (string \<rightharpoonup> string)"

definition entry :: "DatabaseIndex \<Rightarrow> Series \<Rightarrow> string \<times> (string \<rightharpoonup> string)" where
  "entry d s = (meas_Name (ix_heap d ! the (ser_measurement s)), map_of (ser_Tags s))"

definition catalogue :: "DatabaseIndex \<Rightarrow> catalogue" where
  "catalogue d k = map_option (entry d) (ser d k)"

datatype index_op = OpCreateSeries string string "(string \<times> string) list" | OpCreateField string string
  | OpDropSeries "string list" | OpDropMeasurement string | OpMarkShard u64 string

fun index_apply :: "index_op \<Rightarrow> DatabaseIndex \<Rightarrow> DatabaseIndex option" where
  "index_apply (OpCreateSeries name k tags) d = Some (fst (CreateSeriesIndexIfNotExists name (NewSeries k tags) d))"
| "index_apply (OpCreateField name field) d = Some (create_field_name name field d)"
| "index_apply (OpDropSeries ks) d = DatabaseIndex_DropSeries ks d"
| "index_apply (OpDropMeasurement name) d = Some (DatabaseIndex_DropMeasurement name d)"
| "index_apply (OpMarkShard sid k) d = Some (mark_shard sid k d)"

fun spec_apply :: "index_op \<Rightarrow> catalogue \<Rightarrow> catalogue" where
  "spec_apply (OpCreateSeries name k tags) C = (if C k = None then C(k \<mapsto> (escape_UnescapeString name, map_of tags)) else C)"
| "spec_apply (OpCreateField name field) C = C"
| "spec_apply (OpDropSeries ks) C = C |` (- set ks)"
| "spec_apply (OpDropMeasurement name) C = (\<lambda>k. case C k of None \<Rightarrow> None | Some (n, T) \<Rightarrow> if n = name then None else Some (n, T))"
| "spec_apply (OpMarkShard sid k) C = C"

fun index_run :: "index_op list \<Rightarrow> DatabaseIndex \<Rightarrow> DatabaseIndex option" where
  "index_run [] d = Some d"
| "index_run (x # ops) d = (case index_apply x d of None \<Rightarrow> None | Some d \<Rightarrow> index_run ops d)"

text \<open>Tags come from a Go map, so no key occurs twice.\<close>

fun op_ok :: "index_op \<Rightarrow> bool" where
  "op_ok (OpCreateSeries name k tags) = distinct (map fst tags)"
| "op_ok _ = True"

section \<open>Refinement\<close>

lemma entry_same:
  assumes "index_wf d" and "ser d k = Some s" and "\<And>b. live d b \<Longrightarrow> meas_Name (ix_heap d' ! b) = meas_Name (ix_heap d ! b)"
  shows "entry d' s = entry d s"
  using ser_placed(2) [OF assms(1,2)] assms(3) by (auto simp: entry_def placed_def)

lemma catalogue_same:
  assumes "index_wf d" and "ser d' = ser d" and "\<And>b. live d b \<Longrightarrow> meas_Name (ix_heap d' ! b) = meas_Name (ix_heap d ! b)"
  shows "catalogue d' = catalogue d"
proof
  fix k show "catalogue d' k = catalogue d k"
    using entry_same [OF assms(1) _ assms(3)] by (cases "ser d k") (simp_all add: catalogue_def assms(2))
qed

lemma catalogue_New: "catalogue NewDatabaseIndex = Map.empty"
  by (simp add: catalogue_def NewDatabaseIndex_def fun_eq_iff)

lemma catalogue_CreateSeries:
  assumes "index_wf d" and "ix_lastID d \<noteq> - 1" and "distinct (map fst tags)"
  shows "index_wf (fst (CreateSeriesIndexIfNotExists name (NewSeries k tags) d))"
    and "catalogue (fst (CreateSeriesIndexIfNotExists name (NewSeries k tags) d)) = spec_apply (OpCreateSeries name k tags) (catalogue d)"
    and "ix_lastID (fst (CreateSeriesIndexIfNotExists name (NewSeries k tags) d)) \<in> {ix_lastID d, ix_lastID d + 1}"
proof -
  let ?s = "NewSeries k tags"
  obtain d' s' where C: "CreateSeriesIndexIfNotExists name ?s d = (d', s')" by fastforce
  have s: "ser_Key ?s = k" "ser_Tags ?s = tags" by (simp_all add: NewSeries_def)
  have "index_wf d' \<and> catalogue d' = spec_apply (OpCreateSeries name k tags) (catalogue d) \<and> ix_lastID d' \<in> {ix_lastID d, ix_lastID d + 1}"
  proof (cases "ser d k")
    case (Some ss)
    then have "d' = d" using C CreateSeries_existing [of d ?s] s by simp
    then show ?thesis using assms(1) Some by (simp add: catalogue_def)
  next
    case None
    note N = CreateSeries_new [OF assms(1) _ assms(2) _ C, unfolded s, OF None assms(3)]
    obtain a where a: "s' = ?s\<lparr>ser_id := ix_lastID d + 1, ser_measurement := Some a\<rparr>" "meas_Name (ix_heap d' ! a) = escape_UnescapeString name"
      using N(3) by blast
    have "catalogue d' k' = spec_apply (OpCreateSeries name k tags) (catalogue d) k'" for k'
    proof (cases "k' = k")
      case True
      then show ?thesis using None a s by (simp add: catalogue_def N(2) entry_def)
    next
      case False
      then show ?thesis using entry_same [OF assms(1), of k' _ d'] N(4)
        by (cases "ser d k'") (simp_all add: catalogue_def N(2))
    qed
    then show ?thesis using N(1,5) by auto
  qed
  then show "index_wf (fst (CreateSeriesIndexIfNotExists name ?s d))"
    "catalogue (fst (CreateSeriesIndexIfNotExists name ?s d)) = spec_apply (OpCreateSeries name k tags) (catalogue d)"
    "ix_lastID (fst (CreateSeriesIndexIfNotExists name ?s d)) \<in> {ix_lastID d, ix_lastID d + 1}"
    by (simp_all add: C)
qed

lemma catalogue_DropMeasurement:
  assumes "index_wf d"
  shows "index_wf (DatabaseIndex_DropMeasurement name d)"
    and "catalogue (DatabaseIndex_DropMeasurement name d) = spec_apply (OpDropMeasurement name) (catalogue d)"
proof -
  have M: "measurements_wf d" using assms by (rule index_wfD)
  have name: "meas_Name (ix_heap d ! a) = name \<longleftrightarrow> map_of (ix_measurements d) name = Some a" if "live d a" for a
    using live_meas(1) [OF M that] measurement_at(1) [OF M] by blast
  have "index_wf (DatabaseIndex_DropMeasurement name d) \<and>
    (\<forall>k. catalogue (DatabaseIndex_DropMeasurement name d) k = spec_apply (OpDropMeasurement name) (catalogue d) k)"
  proof (cases "map_of (ix_measurements d) name")
    case None
    have "fst (entry d s) \<noteq> name" if s: "ser d k = Some s" for k s
    proof -
      obtain b where "placed d s b" using ser_placed(2) [OF assms s] by blast
      then show ?thesis using name [of b] None by (auto simp: placed_def entry_def)
    qed
    then show ?thesis using assms None
      by (auto simp: DropMeasurement_unknown catalogue_def case_prod_beta split: option.splits)
  next
    case (Some a)
    note D = DropMeasurement [OF assms Some refl]
    have E: "entry (DatabaseIndex_DropMeasurement name d) s = entry d s" for s by (simp add: entry_def D(2))
    have "fst (entry d s) = name \<longleftrightarrow> ser_measurement s = Some a" if s: "ser d k = Some s" for k s
    proof -
      obtain b where "placed d s b" using ser_placed(2) [OF assms s] by blast
      then show ?thesis using name [of b] Some by (auto simp: placed_def entry_def)
    qed
    then have "catalogue (DatabaseIndex_DropMeasurement name d) k = spec_apply (OpDropMeasurement name) (catalogue d) k" for k
      by (cases "ser d k") (auto simp: catalogue_def D(4) E case_prod_beta)
    then show ?thesis using D(1) by blast
  qed
  then show "index_wf (DatabaseIndex_DropMeasurement name d)"
    "catalogue (DatabaseIndex_DropMeasurement name d) = spec_apply (OpDropMeasurement name) (catalogue d)" by auto
qed

lemma catalogue_create_field:
  assumes "index_wf d"
  shows "catalogue (create_field_name name field d) = catalogue d"
  by (rule catalogue_same [OF assms]) (use create_field_name [OF assms, where name = name and field = field] in auto)

lemma catalogue_mark_shard:
  assumes "index_wf d"
  shows "catalogue (mark_shard sid k d) = catalogue d"
proof
  note K = mark_shard [OF assms, where sid = sid and k = k]
  fix k' show "catalogue (mark_shard sid k d) k' = catalogue d k'"
    by (cases "ser d k'") (auto simp: catalogue_def K(2) entry_def K(5) mark_series_def)
qed

lemma index_apply_refines:
  assumes "index_wf d" and "op_ok x" and "ix_lastID d \<noteq> - 1"
  shows "\<exists>d'. index_apply x d = Some d' \<and> index_wf d' \<and> catalogue d' = spec_apply x (catalogue d) \<and> ix_lastID d' \<in> {ix_lastID d, ix_lastID d + 1}"
proof (cases x)
  case (OpCreateSeries name k tags)
  with assms show ?thesis using catalogue_CreateSeries [of d tags name k] by simp
next
  case (OpCreateField name field)
  then show ?thesis using create_field_name(1,3) [OF assms(1)] catalogue_create_field [OF assms(1)] by simp
next
  case (OpDropSeries ks)
  obtain d' where d': "DatabaseIndex_DropSeries ks d = Some d'" "index_wf d'" "ser d' = ser d |` (- set ks)"
      "\<forall>b. meas_Name (ix_heap d' ! b) = meas_Name (ix_heap d ! b)" "ix_lastID d' = ix_lastID d"
    using DropSeries [OF assms(1), of ks] by blast
  have "catalogue d' = catalogue d |` (- set ks)"
    using d'(3,4) by (auto simp: fun_eq_iff catalogue_def restrict_map_def entry_def [abs_def])
  with d' OpDropSeries show ?thesis by simp
next
  case (OpDropMeasurement name)
  have "ix_lastID (DatabaseIndex_DropMeasurement name d) = ix_lastID d"
    by (simp add: DatabaseIndex_DropMeasurement_def split: option.splits)
  with catalogue_DropMeasurement [OF assms(1)] OpDropMeasurement show ?thesis by simp
next
  case (OpMarkShard sid k)
  then show ?thesis using mark_shard(1,4) [OF assms(1)] catalogue_mark_shard [OF assms(1)] by simp
qed

lemma unat_succ_le: "unat ((x :: u64) + 1) \<le> unat x + 1"
  by (metis unat_1 unat_word_ariths(1) mod_less_eq_dividend)

lemma index_run_refines:
  assumes "index_wf d" and "list_all op_ok ops" and "unat (ix_lastID d) + length ops < 2 ^ 64"
  shows "\<exists>d'. index_run ops d = Some d' \<and> index_wf d' \<and> catalogue d' = fold spec_apply ops (catalogue d)"
  using assms
proof (induction ops arbitrary: d)
  case (Cons x ops)
  have "unat (- 1 :: u64) = 2 ^ 64 - 1" by (simp add: unsigned_minus_1_eq_mask mask_eq_exp_minus_1)
  with Cons.prems(3) have "ix_lastID d \<noteq> - 1" by auto
  with Cons.prems obtain d1 where d1: "index_apply x d = Some d1" "index_wf d1" "catalogue d1 = spec_apply x (catalogue d)"
      "ix_lastID d1 \<in> {ix_lastID d, ix_lastID d + 1}"
    using index_apply_refines [of d x] by auto
  have "unat (ix_lastID d1) + length ops < 2 ^ 64" using d1(4) Cons.prems(3) unat_succ_le [of "ix_lastID d"] by auto
  with Cons.IH [OF d1(2)] Cons.prems(2) d1(1,3) show ?case by simp
qed simp

text \<open>What a measurement holds and what its tag index answers, in terms of the catalogue.\<close>

lemma series_catalogue:
  assumes "index_wf d" and "DatabaseIndex_Measurement n d = Some m"
  shows "(\<exists>i s. Measurement_SeriesByID i m = Some s \<and> ser_Key s = key \<and> map_of (ser_Tags s) = T) \<longleftrightarrow> catalogue d key = Some (n, T)"
proof -
  obtain a where a: "map_of (ix_measurements d) n = Some a" "m = ix_heap d ! a"
    using assms(2) by (auto simp: DatabaseIndex_Measurement_def)
  have M: "measurements_wf d" using assms(1) by (rule index_wfD)
  have la: "live d a" using a(1) by (auto simp: live_def)
  have "(\<exists>i s. Measurement_SeriesByID i m = Some s \<and> ser_Key s = key \<and> map_of (ser_Tags s) = T) \<longleftrightarrow>
      (\<exists>s. ser d key = Some s \<and> map_of (ser_Tags s) = T \<and> ser_measurement s = Some a)"
    unfolding Measurement_SeriesByID_def a(2) at_def [symmetric]
  proof
    assume "\<exists>i s. at d a i = Some s \<and> ser_Key s = key \<and> map_of (ser_Tags s) = T"
    then show "\<exists>s. ser d key = Some s \<and> map_of (ser_Tags s) = T \<and> ser_measurement s = Some a"
      using at_ids(1,2) [OF assms(1) la] by blast
  next
    assume "\<exists>s. ser d key = Some s \<and> map_of (ser_Tags s) = T \<and> ser_measurement s = Some a"
    then obtain s where s: "ser d key = Some s" "map_of (ser_Tags s) = T" "ser_measurement s = Some a" by blast
    with ser_placed [OF assms(1) s(1)] show "\<exists>i s. at d a i = Some s \<and> ser_Key s = key \<and> map_of (ser_Tags s) = T"
      by (auto simp: placed_def)
  qed
  also have "\<dots> \<longleftrightarrow> catalogue d key = Some (n, T)"
  proof -
    have "ser_measurement s = Some a \<longleftrightarrow> fst (entry d s) = n" if s: "ser d key = Some s" for s
    proof -
      obtain b where b: "placed d s b" using ser_placed(2) [OF assms(1) s] by blast
      then have "live d b" by (simp add: placed_def)
      then have "b = a \<longleftrightarrow> meas_Name (ix_heap d ! b) = n" using live_meas(1) [OF M] a measurement_at(1) [OF M a(1)] by (metis option.inject)
      with b show ?thesis by (simp add: placed_def entry_def)
    qed
    then show ?thesis by (cases "ser d key") (auto simp: catalogue_def entry_def)
  qed
  finally show ?thesis .
qed

lemma measurement_wf:
  assumes "index_wf d" and "DatabaseIndex_Measurement n d = Some m"
  shows "meas_wf m"
  using assms measurement_at(3) [OF index_wfD(1) [OF assms(1)]] by (auto simp: DatabaseIndex_Measurement_def)

lemma catalogue_measurement:
  assumes "index_wf d" and "catalogue d key = Some (n, T)"
  shows "\<exists>m. DatabaseIndex_Measurement n d = Some m"
proof -
  obtain s where s: "ser d key = Some s" "entry d s = (n, T)" using assms(2) by (auto simp: catalogue_def)
  obtain b where "placed d s b" using ser_placed(2) [OF assms(1) s(1)] by blast
  then show ?thesis using live_meas(1) [OF index_wfD(1) [OF assms(1)], of b] s(2)
    by (auto simp: placed_def entry_def DatabaseIndex_Measurement_def)
qed

lemma tag_index_catalogue:
  assumes "index_wf d" and "DatabaseIndex_Measurement n d = Some m"
  shows "(\<exists>i s. i \<in> set (tag_ids (meas_seriesByTagKeyValue m) k v) \<and> Measurement_SeriesByID i m = Some s \<and> ser_Key s = key) \<longleftrightarrow>
    (\<exists>T. catalogue d key = Some (n, T) \<and> T k = Some v)"
  unfolding series_catalogue [OF assms, symmetric] Measurement_SeriesByID_def meas_wf_tags(2) [OF measurement_wf [OF assms]]
  by (metis option.inject)

end
