(* ===== verification/Index_Where.thy ===== *)
theory Index_Where
  imports Index_Meas Query_Types
begin

text \<open>
  From a condition to series (\<open>tsdb/meta.go\<close>): which series of a measurement a \<open>WHERE\<close> clause selects, and the expression that
  filters the points of each of them.  Matching a regular expression against a string is a parameter.
\<close>

section \<open>Time conditions\<close>

definition is_time_ref :: "Expr \<Rightarrow> bool" where
  "is_time_ref e = (case e of VarRef x \<Rightarrow> map to_lower x = ''time'' | _ \<Rightarrow> False)"

fun OnlyTimeExpr :: "Expr \<Rightarrow> bool" where
  "OnlyTimeExpr (BinaryExpr op l r) = (if op = LAND \<or> op = LOR then OnlyTimeExpr l \<and> OnlyTimeExpr r else is_time_ref l)"
| "OnlyTimeExpr (ParenExpr e) = OnlyTimeExpr e"
| "OnlyTimeExpr _ = False"

fun HasTimeExpr :: "Expr \<Rightarrow> bool" where
  "HasTimeExpr (BinaryExpr op l r) = (if op = LAND \<or> op = LOR then HasTimeExpr l \<or> HasTimeExpr r else is_time_ref l)"
| "HasTimeExpr (ParenExpr e) = HasTimeExpr e"
| "HasTimeExpr _ = False"

section \<open>Series of a comparison\<close>

datatype where_error = InvalidExpression | PanicReduce | PanicNilMap

text \<open>The reference and the value it is compared with, on either side.\<close>

definition ref_and_value :: "Expr \<Rightarrow> Expr \<Rightarrow> (string \<times> Expr) option" where
  "ref_and_value l r = (case l of VarRef x \<Rightarrow> Some (x, r) | _ \<Rightarrow> (case r of VarRef x \<Rightarrow> Some (x, l) | _ \<Rightarrow> None))"

definition is_time_literal :: "Expr \<Rightarrow> bool" where
  "is_time_literal e = (case e of TimeLiteral t \<Rightarrow> True | _ \<Rightarrow> False)"

definition tag_equals :: "Token \<Rightarrow> SeriesIDs \<Rightarrow> SeriesIDs \<Rightarrow> SeriesIDs" where
  "tag_equals op all ids = (if op = EQ then ids else if op = NEQ then SeriesIDs_Reject all ids else [])"

definition tag_matches :: "(string \<Rightarrow> bool) \<Rightarrow> Token \<Rightarrow> SeriesIDs \<Rightarrow> (string \<times> SeriesIDs) list \<Rightarrow> SeriesIDs" where
  "tag_matches match op all tagVals =
     fold (\<lambda>(k, l) ids. if match k \<and> op = EQREGEX then SeriesIDs_Union ids l
                        else if match k \<and> op = NEQREGEX then SeriesIDs_Reject ids l else ids)
       tagVals (if op = NEQREGEX then all else [])"

definition Measurement_idsForExpr ::
    "(string \<Rightarrow> string \<Rightarrow> bool) \<Rightarrow> Measurement \<Rightarrow> Token \<Rightarrow> Expr \<Rightarrow> Expr \<Rightarrow> where_error + SeriesIDs \<times> Expr option" where
  "Measurement_idsForExpr re m op l r =
     (case ref_and_value l r of
        None \<Rightarrow> Inl InvalidExpression
      | Some (name, v) \<Rightarrow>
          if is_time_literal v \<or> name = ''time'' then Inr (meas_seriesIDs m, Some (BooleanLiteral True))
          else if Measurement_HasField name m then Inr (meas_seriesIDs m, Some (BinaryExpr op l r))
          else
            (case map_of (meas_seriesByTagKeyValue m) name of
               None \<Rightarrow> Inr ([], None)
             | Some tagVals \<Rightarrow>
                 (case v of
                    StringLiteral s \<Rightarrow> Inr (tag_equals op (meas_seriesIDs m) (get_list s tagVals), Some (BooleanLiteral True))
                  | RegexLiteral x \<Rightarrow> Inr (tag_matches (re x) op (meas_seriesIDs m) tagVals, Some (BooleanLiteral True))
                  | _ \<Rightarrow> Inr ([], None))))"

section \<open>Walking the condition\<close>

type_synonym FilterExprs = "(u64 \<times> Expr option) list"

definition filter_of :: "FilterExprs \<Rightarrow> u64 \<Rightarrow> Expr option" where
  "filter_of fs i = (case map_of fs i of None \<Rightarrow> None | Some e \<Rightarrow> e)"

fun mergeSeriesFilters :: "Token \<Rightarrow> SeriesIDs \<Rightarrow> FilterExprs \<Rightarrow> FilterExprs \<Rightarrow> (SeriesIDs \<times> FilterExprs) option" where
  "mergeSeriesFilters op [] lf rf = Some ([], [])"
| "mergeSeriesFilters op (i # ids) lf rf =
     (let dflt = BooleanLiteral (op = LOR);
          l = (case filter_of lf i of None \<Rightarrow> dflt | Some e \<Rightarrow> e);
          r = (case filter_of rf i of None \<Rightarrow> dflt | Some e \<Rightarrow> e)
      in case Reduce None (BinaryExpr op l r) of
           None \<Rightarrow> None
         | Some e \<Rightarrow>
             (case mergeSeriesFilters op ids lf rf of
                None \<Rightarrow> None
              | Some (series, fs) \<Rightarrow>
                  if isFalseLiteral e then Some (series, fs) else Some (i # series, (i, Some e) # fs)))"

definition is_condition :: "Token \<Rightarrow> bool" where
  "is_condition op \<longleftrightarrow> op \<in> {EQ, NEQ, LT, LTE, GT, GTE, EQREGEX, NEQREGEX}"

text \<open>The map of filters is nil (\<open>None\<close>) where the code returns no map.\<close>

fun Measurement_walkWhereForSeriesIds ::
    "(string \<Rightarrow> string \<Rightarrow> bool) \<Rightarrow> Measurement \<Rightarrow> Expr \<Rightarrow> where_error + SeriesIDs \<times> FilterExprs option" where
  "Measurement_walkWhereForSeriesIds re m (BinaryExpr op l r) =
     (if is_condition op then
        (case Measurement_idsForExpr re m op l r of
           Inl e \<Rightarrow> Inl e
         | Inr (ids, e) \<Rightarrow> Inr (ids, Some (map (\<lambda>i. (i, e)) ids)))
      else if op = LAND \<or> op = LOR then
        (case Measurement_walkWhereForSeriesIds re m l of
           Inl e \<Rightarrow> Inl e
         | Inr (lids, lf) \<Rightarrow>
             (case Measurement_walkWhereForSeriesIds re m r of
                Inl e \<Rightarrow> Inl e
              | Inr (rids, rf) \<Rightarrow>
                  let ids = (if op = LAND then SeriesIDs_Intersect lids rids else SeriesIDs_Union lids rids) in
                  (case mergeSeriesFilters op ids (case lf of None \<Rightarrow> [] | Some f \<Rightarrow> f) (case rf of None \<Rightarrow> [] | Some f \<Rightarrow> f) of
                     None \<Rightarrow> Inl PanicReduce
                   | Some (ids, fs) \<Rightarrow> Inr (ids, Some fs))))
      else
        (case Measurement_idsForExpr re m op l r of Inl e \<Rightarrow> Inl e | Inr (ids, e) \<Rightarrow> Inr (ids, None)))"
| "Measurement_walkWhereForSeriesIds re m (ParenExpr e) = Measurement_walkWhereForSeriesIds re m e"
| "Measurement_walkWhereForSeriesIds re m _ = Inr ([], None)"

text \<open>The loop over the selected IDs: every ID gets an entry, and a literal true becomes nil.\<close>

definition settle_filter :: "u64 \<Rightarrow> FilterExprs \<Rightarrow> FilterExprs" where
  "settle_filter i fs =
     (case map_of fs i of
        None \<Rightarrow> AList.update i None fs
      | Some e \<Rightarrow> if e = Some (BooleanLiteral True) then AList.update i None fs else fs)"

definition Measurement_filters ::
    "(string \<Rightarrow> string \<Rightarrow> bool) \<Rightarrow> Measurement \<Rightarrow> Expr option \<Rightarrow> where_error + FilterExprs" where
  "Measurement_filters re m cond =
     (case cond of
        None \<Rightarrow> Inr (map (\<lambda>i. (i, None)) (meas_seriesIDs m))
      | Some c \<Rightarrow>
          if OnlyTimeExpr c then Inr (map (\<lambda>i. (i, None)) (meas_seriesIDs m))
          else
            (case Measurement_walkWhereForSeriesIds re m c of
               Inl e \<Rightarrow> Inl e
             | Inr (ids, None) \<Rightarrow> if ids = [] then Inr [] else Inl PanicNilMap
             | Inr (ids, Some fs) \<Rightarrow> Inr (fold settle_filter ids fs)))"

definition Measurement_seriesIDsAllOrByExpr ::
    "(string \<Rightarrow> string \<Rightarrow> bool) \<Rightarrow> Measurement \<Rightarrow> Expr option \<Rightarrow> where_error + SeriesIDs" where
  "Measurement_seriesIDsAllOrByExpr re m cond =
     (case cond of
        None \<Rightarrow> Inr (meas_seriesIDs m)
      | Some c \<Rightarrow>
          if meas_seriesIDs m = [] then Inr []
          else (case Measurement_walkWhereForSeriesIds re m c of Inl e \<Rightarrow> Inl e | Inr (ids, fs) \<Rightarrow> Inr ids))"

text \<open>Whether a point of a series passes: the mapper evaluates the filter of the series on the fields of the point.\<close>

definition passes :: "FilterExprs \<Rightarrow> u64 \<Rightarrow> (string \<rightharpoonup> gval) \<Rightarrow> bool" where
  "passes fs i flds = (case map_of fs i of None \<Rightarrow> False | Some None \<Rightarrow> True | Some (Some e) \<Rightarrow> EvalBool flds e)"

section \<open>The meaning of a condition\<close>

text \<open>
  What a condition says of one point, by its tags and fields.  A key that no series of the measurement has matches nothing,
  not even with an inequality.
\<close>

definition atom_sat ::
    "(string \<Rightarrow> string \<Rightarrow> bool) \<Rightarrow> Measurement \<Rightarrow> (string \<rightharpoonup> string) \<Rightarrow> (string \<rightharpoonup> gval) \<Rightarrow> Token \<Rightarrow> Expr \<Rightarrow> Expr \<Rightarrow> bool" where
  "atom_sat re m tags flds op l r =
     (case ref_and_value l r of
        None \<Rightarrow> False
      | Some (name, v) \<Rightarrow>
          if is_time_literal v \<or> name = ''time'' then True
          else if Measurement_HasField name m then EvalBool flds (BinaryExpr op l r)
          else Measurement_HasTagKey name m \<and>
            (case v of
               StringLiteral s \<Rightarrow> op = EQ \<and> tags name = Some s \<or> op = NEQ \<and> tags name \<noteq> Some s
             | RegexLiteral x \<Rightarrow>
                 op = EQREGEX \<and> (\<exists>s. tags name = Some s \<and> re x s) \<or> op = NEQREGEX \<and> (\<nexists>s. tags name = Some s \<and> re x s)
             | _ \<Rightarrow> False))"

fun sat :: "(string \<Rightarrow> string \<Rightarrow> bool) \<Rightarrow> Measurement \<Rightarrow> (string \<rightharpoonup> string) \<Rightarrow> (string \<rightharpoonup> gval) \<Rightarrow> Expr \<Rightarrow> bool" where
  "sat re m tags flds (BinaryExpr op l r) =
     (if op = LAND then sat re m tags flds l \<and> sat re m tags flds r
      else if op = LOR then sat re m tags flds l \<or> sat re m tags flds r
      else atom_sat re m tags flds op l r)"
| "sat re m tags flds (ParenExpr e) = sat re m tags flds e"
| "sat re m tags flds _ = False"

text \<open>
  Conditions that make sense: comparisons have a reference on one side, comparisons of fields are well-typed, and time is
  spelled \<open>time\<close>.
\<close>

definition atom_kind :: "Measurement \<Rightarrow> Expr \<Rightarrow> Expr \<Rightarrow> bool option" where
  "atom_kind m l r =
     (case ref_and_value l r of
        None \<Rightarrow> None
      | Some (name, v) \<Rightarrow> if is_time_literal v \<or> name = ''time'' then None else Some (Measurement_HasField name m))"

fun where_ok :: "Measurement \<Rightarrow> (string \<rightharpoonup> ty) \<Rightarrow> Expr \<Rightarrow> bool" where
  "where_ok m G (BinaryExpr op l r) =
     (if op = LAND \<or> op = LOR then where_ok m G l \<and> where_ok m G r
      else is_condition op \<and> ref_and_value l r \<noteq> None \<and> (is_time_ref l \<longrightarrow> l = VarRef ''time'') \<and>
        (atom_kind m l r = Some True \<longrightarrow> type_of G (BinaryExpr op l r) = Some TBool))"
| "where_ok m G (ParenExpr e) = where_ok m G e"
| "where_ok m G _ = True"

text \<open>Conditions on tags and time only, on fields and time only, and those in which a disjunction does not mix them.\<close>

fun all_atoms :: "(bool option \<Rightarrow> bool) \<Rightarrow> Measurement \<Rightarrow> Expr \<Rightarrow> bool" where
  "all_atoms P m (BinaryExpr op l r) =
     (if op = LAND \<or> op = LOR then all_atoms P m l \<and> all_atoms P m r else P (atom_kind m l r))"
| "all_atoms P m (ParenExpr e) = all_atoms P m e"
| "all_atoms P m _ = False"

abbreviation tag_only :: "Measurement \<Rightarrow> Expr \<Rightarrow> bool" where
  "tag_only \<equiv> all_atoms (\<lambda>k. k \<noteq> Some True)"

abbreviation field_only :: "Measurement \<Rightarrow> Expr \<Rightarrow> bool" where
  "field_only \<equiv> all_atoms (\<lambda>k. k \<noteq> Some False)"

fun unmixed :: "Measurement \<Rightarrow> Expr \<Rightarrow> bool" where
  "unmixed m (BinaryExpr op l r) =
     (if op = LAND then unmixed m l \<and> unmixed m r
      else if op = LOR then unmixed m l \<and> unmixed m r \<and> (tag_only m l \<and> tag_only m r \<or> field_only m l \<and> field_only m r)
      else True)"
| "unmixed m (ParenExpr e) = unmixed m e"
| "unmixed m _ = True"

end
