(* ===== verification/Index_Select.thy ===== *)
theory Index_Select
  imports Index_Where
begin

text \<open>
  The series and filters of a condition against its meaning: no point that satisfies the condition is lost, and no other
  point passes as long as no disjunction mixes tags and fields.
\<close>

section \<open>Slices of tag values\<close>

lemma slice_asc: "ids.slice l \<longleftrightarrow> asc l"
  by (simp add: ids.slice_def)

lemma Intersect_asc: "asc l \<Longrightarrow> asc r \<Longrightarrow> asc (SeriesIDs_Intersect l r) \<and> set (SeriesIDs_Intersect l r) = set l \<inter> set r"
  using ids.slice_inter by (simp add: slice_asc)

lemma Union_asc: "asc l \<Longrightarrow> asc r \<Longrightarrow> asc (SeriesIDs_Union l r) \<and> set (SeriesIDs_Union l r) = set l \<union> set r"
  using ids.slice_union by (simp add: slice_asc)

lemma Reject_asc: "asc l \<Longrightarrow> asc r \<Longrightarrow> asc (SeriesIDs_Reject l r) \<and> set (SeriesIDs_Reject l r) = set l - set r"
  using ids.slice_diff by (simp add: slice_asc)

lemma tag_matches_fold:
  "tag_matches match op all tagVals =
     (if op = EQREGEX then fold (\<lambda>l ids. SeriesIDs_Union ids l) (map snd (filter (\<lambda>(k, l). match k) tagVals)) []
      else if op = NEQREGEX then fold (\<lambda>l ids. SeriesIDs_Reject ids l) (map snd (filter (\<lambda>(k, l). match k) tagVals)) all
      else [])"
proof -
  have "fold (\<lambda>(k, l) ids. if match k \<and> op = EQREGEX then SeriesIDs_Union ids l
      else if match k \<and> op = NEQREGEX then SeriesIDs_Reject ids l else ids) tagVals acc =
    (if op = EQREGEX then fold (\<lambda>l ids. SeriesIDs_Union ids l) (map snd (filter (\<lambda>(k, l). match k) tagVals)) acc
     else if op = NEQREGEX then fold (\<lambda>l ids. SeriesIDs_Reject ids l) (map snd (filter (\<lambda>(k, l). match k) tagVals)) acc
     else acc)" for acc
    by (induction tagVals arbitrary: acc) auto
  then show ?thesis by (simp add: tag_matches_def)
qed

lemma tag_matches_asc:
  assumes "asc all" and "\<forall>(k, l) \<in> set tagVals. asc l"
  shows "asc (tag_matches match op all tagVals) \<and> set (tag_matches match op all tagVals) =
    (if op = EQREGEX then (\<Union>(k, l) \<in> set tagVals. if match k then set l else {})
     else if op = NEQREGEX then set all - (\<Union>(k, l) \<in> set tagVals. if match k then set l else {}) else {})"
proof -
  let ?ls = "map snd (filter (\<lambda>(k, l). match k) tagVals)"
  have ls: "\<forall>l\<in>set ?ls. ids.slice l" using assms(2) by (auto simp: slice_asc)
  have U: "\<Union> (set ` set ?ls) = (\<Union>(k, l) \<in> set tagVals. if match k then set l else {})"
    by (auto split: if_splits intro!: bexI)
  have "ids.slice all" using assms(1) by (simp add: slice_asc)
  then show ?thesis
    using ids.slice_unions [OF ids.slice_Nil ls] ids.slice_diffs [OF _ ls, of all] unfolding U tag_matches_fold slice_asc
    by (cases "op = EQREGEX"; cases "op = NEQREGEX") simp_all
qed

section \<open>Comparisons\<close>

text \<open>What a walk returns, and when it selects a point.\<close>

definition good :: "Measurement \<Rightarrow> (string \<rightharpoonup> ty) \<Rightarrow> SeriesIDs \<Rightarrow> FilterExprs \<Rightarrow> bool" where
  "good m G ids fs \<longleftrightarrow> asc ids \<and> distinct (map fst fs) \<and> set ids \<subseteq> set (meas_seriesIDs m) \<and>
     (\<forall>i. i \<in> set ids \<longrightarrow> (\<exists>e. filter_of fs i = Some e \<and> type_of G e = Some TBool)) \<and>
     (\<forall>i. i \<notin> set ids \<longrightarrow> map_of fs i = None)"

definition sel :: "FilterExprs \<Rightarrow> u64 \<Rightarrow> (string \<rightharpoonup> gval) \<Rightarrow> bool" where
  "sel fs i flds \<longleftrightarrow> (\<exists>e. filter_of fs i = Some e \<and> EvalBool flds e)"

abbreviation map_or_nil :: "FilterExprs option \<Rightarrow> FilterExprs" where
  "map_or_nil f \<equiv> (case f of None \<Rightarrow> [] | Some f \<Rightarrow> f)"

lemma filter_of_Nil [simp]: "filter_of [] i = None"
  by (simp add: filter_of_def)

lemma map_of_const [simp]: "map_of (map (\<lambda>i. (i, f i)) ids) i = (if i \<in> set ids then Some (f i) else None)"
  by (induction ids) auto

lemma map_fst_const [simp]: "map (fst \<circ> (\<lambda>i. (i, f i))) ids = ids"
  by (induction ids) auto

lemma asc_distinct [simp]: "asc ids \<Longrightarrow> distinct ids"
  using ascending_distinct [of "\<lambda>i. i" ids] by simp

lemma filter_of_const [simp]: "filter_of (map (\<lambda>i. (i, f i)) ids) i = (if i \<in> set ids then f i else None)"
  by (simp add: filter_of_def)

lemma EvalBool_True [simp]: "EvalBool flds (BooleanLiteral b) = b"
  by (simp add: EvalBool_def as_bool_def)

lemma tag_values:
  assumes "meas_wf m" and "map_of (meas_seriesByTagKeyValue m) name = Some tagVals"
  shows "\<forall>(k, l) \<in> set tagVals. asc l" and "distinct (map fst tagVals)"
    and "get_list v tagVals = tag_ids (meas_seriesByTagKeyValue m) name v" and "Measurement_HasTagKey name m"
proof -
  have wf: "idx_wf (meas_seriesByTagKeyValue m)" using assms(1) by (simp add: meas_wf_def)
  have g: "get_list name (meas_seriesByTagKeyValue m) = tagVals" using assms(2) by (simp add: get_list_def)
  show "\<forall>(k, l) \<in> set tagVals. asc l" using idx_wf_values(2) [OF wf, of _ _ name] g by auto
  show "distinct (map fst tagVals)" using idx_wf_values(1) [OF wf, of name] g by simp
  show "get_list v tagVals = tag_ids (meas_seriesByTagKeyValue m) name v" by (simp add: tag_ids_def g)
  show "Measurement_HasTagKey name m" using map_of_SomeD [OF assms(2)] by (auto simp: Measurement_HasTagKey_def intro: rev_image_eqI)
qed

lemma tag_values_series:
  assumes "meas_wf m" and "map_of (meas_seriesByTagKeyValue m) name = Some tagVals" and "map_of (meas_seriesByID m) i = Some s"
  shows "(\<exists>k l. (k, l) \<in> set tagVals \<and> P k \<and> i \<in> set l) \<longleftrightarrow> (\<exists>v. map_of (ser_Tags s) name = Some v \<and> P v)"
proof -
  note T = tag_values [OF assms(1,2)]
  have "(\<exists>k l. (k, l) \<in> set tagVals \<and> P k \<and> i \<in> set l) \<longleftrightarrow> (\<exists>k. P k \<and> i \<in> set (get_list k tagVals))"
  proof
    assume "\<exists>k l. (k, l) \<in> set tagVals \<and> P k \<and> i \<in> set l"
    then show "\<exists>k. P k \<and> i \<in> set (get_list k tagVals)" using T(2) by (auto simp: get_list_def)
  next
    assume "\<exists>k. P k \<and> i \<in> set (get_list k tagVals)"
    then obtain k where k: "P k" "i \<in> set (get_list k tagVals)" by blast
    then obtain l where "map_of tagVals k = Some l" by (cases "map_of tagVals k") (auto simp: get_list_def)
    with k show "\<exists>k l. (k, l) \<in> set tagVals \<and> P k \<and> i \<in> set l" by (auto simp: get_list_def dest: map_of_SomeD)
  qed
  also have "\<dots> \<longleftrightarrow> (\<exists>v. map_of (ser_Tags s) name = Some v \<and> P v)"
    using meas_wf_tags(2) [OF assms(1), of i name] assms(3) by (auto simp: T(3))
  finally show ?thesis .
qed

lemma tag_equals_series:
  fixes op :: Token and x :: string
  assumes "meas_wf m" and "map_of (meas_seriesByTagKeyValue m) name = Some tagVals"
  defines "ids \<equiv> tag_equals op (meas_seriesIDs m) (get_list x tagVals)"
  shows "asc ids" and "set ids \<subseteq> set (meas_seriesIDs m)"
    and "map_of (meas_seriesByID m) i = Some s \<Longrightarrow>
      i \<in> set ids \<longleftrightarrow> op = EQ \<and> map_of (ser_Tags s) name = Some x \<or> op = NEQ \<and> map_of (ser_Tags s) name \<noteq> Some x"
proof -
  let ?t = "tag_ids (meas_seriesByTagKeyValue m) name x"
  have t: "asc ?t" "i \<in> set ?t \<longleftrightarrow> (\<exists>s. map_of (meas_seriesByID m) i = Some s \<and> map_of (ser_Tags s) name = Some x)" for i
    by (rule meas_wf_tags [OF assms(1)])+
  note all = meas_wf_ids [OF assms(1)]
  have R: "asc (SeriesIDs_Reject (meas_seriesIDs m) ?t)" "set (SeriesIDs_Reject (meas_seriesIDs m) ?t) = set (meas_seriesIDs m) - set ?t"
    using Reject_asc [OF all(1) t(1)] by blast+
  have ids: "ids = (if op = EQ then ?t else if op = NEQ then SeriesIDs_Reject (meas_seriesIDs m) ?t else [])"
    by (simp only: ids_def tag_equals_def tag_values(3) [OF assms(1,2)])
  show "asc ids" using t(1) R(1) by (simp add: ids)
  show "set ids \<subseteq> set (meas_seriesIDs m)" using t(2) all(2) R(2) by (auto simp: ids)
  show "map_of (meas_seriesByID m) i = Some s \<Longrightarrow>
      i \<in> set ids \<longleftrightarrow> op = EQ \<and> map_of (ser_Tags s) name = Some x \<or> op = NEQ \<and> map_of (ser_Tags s) name \<noteq> Some x"
    using t(2) [of i] all(2) [of i] R(2) by (auto simp: ids)
qed

lemma tag_matches_series:
  fixes op :: Token and match :: "string \<Rightarrow> bool"
  assumes "meas_wf m" and "map_of (meas_seriesByTagKeyValue m) name = Some tagVals"
  defines "ids \<equiv> tag_matches match op (meas_seriesIDs m) tagVals"
  shows "asc ids" and "set ids \<subseteq> set (meas_seriesIDs m)"
    and "map_of (meas_seriesByID m) i = Some s \<Longrightarrow>
      i \<in> set ids \<longleftrightarrow> op = EQREGEX \<and> (\<exists>v. map_of (ser_Tags s) name = Some v \<and> match v) \<or>
        op = NEQREGEX \<and> (\<nexists>v. map_of (ser_Tags s) name = Some v \<and> match v)"
proof -
  let ?U = "\<Union>(k, l) \<in> set tagVals. if match k then set l else {}"
  note T = tag_values [OF assms(1,2)] and all = meas_wf_ids [OF assms(1)]
  note I = tag_matches_asc [OF all(1) T(1), of match op, folded ids_def]
  have U: "i \<in> ?U \<longleftrightarrow> (\<exists>k l. (k, l) \<in> set tagVals \<and> match k \<and> i \<in> set l)" for i
    by (simp add: case_prod_beta' Bex_def)
  have sub: "?U \<subseteq> set (meas_seriesIDs m)"
  proof
    fix i assume "i \<in> ?U"
    then obtain k l where kl: "(k, l) \<in> set tagVals" "i \<in> set l" by (auto split: if_splits)
    with T(2) have "i \<in> set (get_list k tagVals)" by (simp add: get_list_def)
    then show "i \<in> set (meas_seriesIDs m)" using meas_wf_tags(2) [OF assms(1), of i name k] all(2) [of i] by (auto simp: T(3))
  qed
  show "asc ids" using I by blast
  show "set ids \<subseteq> set (meas_seriesIDs m)" using I sub by (auto split: if_splits)
  show "i \<in> set ids \<longleftrightarrow> op = EQREGEX \<and> (\<exists>v. map_of (ser_Tags s) name = Some v \<and> match v) \<or>
      op = NEQREGEX \<and> (\<nexists>v. map_of (ser_Tags s) name = Some v \<and> match v)" if s: "map_of (meas_seriesByID m) i = Some s"
  proof -
    have "i \<in> set (meas_seriesIDs m)" using all(2) s by blast
    moreover have "i \<in> ?U \<longleftrightarrow> (\<exists>v. map_of (ser_Tags s) name = Some v \<and> match v)"
      unfolding U by (rule tag_values_series [OF assms(1,2) s])
    ultimately show ?thesis using I by simp
  qed
qed

text \<open>What is known of a comparison.\<close>

definition atom_correct :: "(string \<Rightarrow> string \<Rightarrow> bool) \<Rightarrow> Measurement \<Rightarrow> (string \<rightharpoonup> ty) \<Rightarrow> Token \<Rightarrow> Expr \<Rightarrow> Expr \<Rightarrow> SeriesIDs \<Rightarrow> Expr option \<Rightarrow> bool" where
  "atom_correct re m G op l r ids e \<longleftrightarrow>
     Measurement_idsForExpr re m op l r = Inr (ids, e) \<and> good m G ids (map (\<lambda>i. (i, e)) ids) \<and>
     (\<forall>i s flds. map_of (meas_seriesByID m) i = Some s \<longrightarrow>
        sel (map (\<lambda>i. (i, e)) ids) i flds = atom_sat re m (map_of (ser_Tags s)) flds op l r) \<and>
     (atom_kind m l r \<noteq> Some True \<longrightarrow> ids \<noteq> [] \<longrightarrow> e = Some (BooleanLiteral True)) \<and>
     (atom_kind m l r \<noteq> Some False \<longrightarrow> ids = meas_seriesIDs m) \<and>
     (atom_kind m l r = Some True \<longrightarrow> e = Some (BinaryExpr op l r))"

lemma good_True: "asc ids \<Longrightarrow> set ids \<subseteq> set (meas_seriesIDs m) \<Longrightarrow> good m G ids (map (\<lambda>i. (i, Some (BooleanLiteral True))) ids)"
  by (simp add: good_def)

lemma tag_atom_correct:
  assumes "meas_wf m" and nv: "ref_and_value l r = Some (name, v)" and "\<not> (is_time_literal v \<or> name = ''time'')" "\<not> Measurement_HasField name m"
  shows "\<exists>ids e. atom_correct re m G op l r ids e"
proof (cases "map_of (meas_seriesByTagKeyValue m) name")
  case None
  have "\<not> Measurement_HasTagKey name m" using None by (auto simp: Measurement_HasTagKey_def map_of_eq_None_iff)
  then have "atom_correct re m G op l r [] None"
    using assms None by (auto simp: atom_correct_def Measurement_idsForExpr_def atom_sat_def atom_kind_def sel_def good_def)
  then show ?thesis by blast
next
  case (Some tagVals)
  note k = tag_values(4) [OF assms(1) Some]
  consider (string) x where "v = StringLiteral x" | (regex) x where "v = RegexLiteral x"
    | (other) "Measurement_idsForExpr re m op l r = Inr ([], None)" "\<And>tags flds. \<not> atom_sat re m tags flds op l r"
    using assms Some by (cases v) (auto simp: Measurement_idsForExpr_def atom_sat_def)
  then show ?thesis
  proof cases
    case string
    note E = tag_equals_series [OF assms(1) Some, where op = op and x = x]
    have "atom_correct re m G op l r (tag_equals op (meas_seriesIDs m) (get_list x tagVals)) (Some (BooleanLiteral True))"
      using assms Some string E(3) good_True [OF E(1,2)] k
      by (simp add: atom_correct_def Measurement_idsForExpr_def atom_sat_def atom_kind_def sel_def)
    then show ?thesis by blast
  next
    case regex
    note E = tag_matches_series [OF assms(1) Some, where match = "re x" and op = op]
    have "atom_correct re m G op l r (tag_matches (re x) op (meas_seriesIDs m) tagVals) (Some (BooleanLiteral True))"
      using assms Some regex E(3) good_True [OF E(1,2)] k
      by (simp add: atom_correct_def Measurement_idsForExpr_def atom_sat_def atom_kind_def sel_def)
    then show ?thesis by blast
  next
    case other
    then have "atom_correct re m G op l r [] None"
      using assms by (auto simp: atom_correct_def atom_kind_def sel_def good_def)
    then show ?thesis by blast
  qed
qed

lemma idsForExpr_correct:
  assumes "meas_wf m" and ok: "where_ok m G (BinaryExpr op l r)" and op: "op \<noteq> LAND" "op \<noteq> LOR"
  shows "\<exists>ids e. atom_correct re m G op l r ids e"
proof -
  obtain name v where nv: "ref_and_value l r = Some (name, v)" using ok op by auto
  note all = meas_wf_ids [OF assms(1)]
  consider (time) "is_time_literal v \<or> name = ''time''"
    | (field) "\<not> (is_time_literal v \<or> name = ''time'')" "Measurement_HasField name m"
    | (tag) "\<not> (is_time_literal v \<or> name = ''time'')" "\<not> Measurement_HasField name m" by blast
  then show ?thesis
  proof cases
    case time
    have "atom_correct re m G op l r (meas_seriesIDs m) (Some (BooleanLiteral True))"
      using time nv all good_True [OF all(1) subset_refl]
      by (auto simp: atom_correct_def Measurement_idsForExpr_def atom_sat_def atom_kind_def sel_def)
    then show ?thesis by blast
  next
    case field
    have k: "atom_kind m l r = Some True" using field nv by (simp add: atom_kind_def)
    with ok op have "type_of G (BinaryExpr op l r) = Some TBool" by simp
    then have "good m G (meas_seriesIDs m) (map (\<lambda>i. (i, Some (BinaryExpr op l r))) (meas_seriesIDs m))"
      using all(1) by (simp add: good_def)
    then have "atom_correct re m G op l r (meas_seriesIDs m) (Some (BinaryExpr op l r))"
      using field nv all(2) k by (auto simp: atom_correct_def Measurement_idsForExpr_def atom_sat_def sel_def)
    then show ?thesis by blast
  next
    case tag
    then show ?thesis using tag_atom_correct [OF assms(1) nv] by blast
  qed
qed

section \<open>Reduced filters\<close>

lemma conforms_ex: "\<exists>m. conforms G m"
proof -
  have "\<exists>v. val_type v = Some t" for t by (cases t) (use val_type.simps in blast)+
  then obtain f where f: "\<And>t. val_type (f t) = Some t" by metis
  have "conforms G (\<lambda>x. map_option f (G x))" by (simp add: conforms_def f)
  then show ?thesis by blast
qed

lemma Reduce_typed:
  assumes "type_of G e = Some t"
  obtains e' where "Reduce None e = Some e'" and "type_of G e' = Some t" and "\<And>m. conforms G m \<Longrightarrow> Eval m e' = Eval m e"
proof -
  have R: "\<exists>e'. Reduce None e = Some e' \<and> means G m e' t (Eval m e)" if "conforms G m" for m
    using Reduce_means [OF that, of None e t] assms by (auto simp: agrees_def)
  obtain m0 where "conforms G m0" using conforms_ex by blast
  with R obtain e' where "Reduce None e = Some e'" "type_of G e' = Some t" by (auto simp: means_def)
  then show thesis using R by (intro that [of e']) (auto simp: means_def)
qed

text \<open>An expression in which every comparison has a reference does not reduce to a literal.\<close>

fun blocked :: "Expr \<Rightarrow> bool" where
  "blocked (BinaryExpr op l r) =
     (if op = LAND \<or> op = LOR then blocked l \<and> blocked r
      else \<not> arithmetic op \<and> ((\<exists>x. l = VarRef x) \<or> (\<exists>x. r = VarRef x)))"
| "blocked (ParenExpr e) = blocked e"
| "blocked _ = False"

lemma reduce_blocked:
  "type_of G e = Some t \<Longrightarrow> blocked e \<Longrightarrow> \<exists>e'. reduce None e = Some e' \<and> blocked e' \<and> type_of G e' = Some t"
proof (induction e arbitrary: t)
  case (BinaryExpr op l r)
  then obtain a b where ab: "type_of G l = Some a" "type_of G r = Some b" "op_type op a b = Some t" by (auto split: option.splits)
  obtain m where m: "conforms G m" using conforms_ex by blast
  have ag: "agrees None m" by (simp add: agrees_def)
  show ?case
  proof (cases "op = LAND \<or> op = LOR")
    case True
    with BinaryExpr ab obtain l' r' where lr: "reduce None l = Some l'" "blocked l'" "type_of G l' = Some a"
      "reduce None r = Some r'" "blocked r'" "type_of G r' = Some b" by fastforce
    have "reduceBinaryExpr op l' r' = Some (BinaryExpr op l' r')"
      using True lr(2,5) by (cases l'; cases r'; auto simp: reduceBinaryExpr_def isTrueLiteral_def isFalseLiteral_def reduce_operands_def)
    with lr True ab(3) show ?thesis by simp
  next
    case False
    obtain l' where l': "reduce None l = Some l'" "means G m l' a (Eval m l)" using reduce_means [OF m ag ab(1)] by blast
    obtain r' where r': "reduce None r = Some r'" "means G m r' b (Eval m r)" using reduce_means [OF m ag ab(2)] by blast
    have ref: "(\<exists>x. l' = VarRef x) \<or> (\<exists>x. r' = VarRef x)"
      using BinaryExpr.prems(2) False l'(1) r'(1) by (auto simp: reduceVarRef_def)
    then have "reduce_operands op l' r' = Some (BinaryExpr op l' r')"
      by (intro reduce_operands_unchanged [OF l'(2) r'(2) ab(3)]) auto
    with False l' r' ref BinaryExpr.prems(2) ab(3) show ?thesis by (auto simp: reduceBinaryExpr_def means_def)
  qed
next
  case (ParenExpr e)
  then obtain e' where e': "reduce None e = Some e'" "blocked e'" "type_of G e' = Some t" by auto
  then have "blocked (reduceParenExpr e') \<and> type_of G (reduceParenExpr e') = Some t" by (cases e') (simp_all add: reduceParenExpr_def)
  with e' show ?case by simp
qed simp_all

definition open_filter :: "Expr \<Rightarrow> bool" where
  "open_filter e \<longleftrightarrow> e = BooleanLiteral True \<or> blocked e"

lemma Reduce_open_filter:
  assumes "type_of G l = Some TBool" and "type_of G r = Some TBool" and "open_filter l" and "open_filter r" and "op = LAND \<or> op = LOR"
    and "Reduce None (BinaryExpr op l r) = Some e"
  shows "open_filter e"
proof -
  have R: "\<exists>x'. reduce None x = Some x' \<and> open_filter x'" if "type_of G x = Some TBool" "open_filter x" for x
    using that reduce_blocked [OF that(1)] by (auto simp: open_filter_def)
  obtain l' where l': "reduce None l = Some l'" "open_filter l'" using R [OF assms(1,3)] by blast
  obtain r' where r': "reduce None r = Some r'" "open_filter r'" using R [OF assms(2,4)] by blast
  have "\<exists>e'. reduceBinaryExpr op l' r' = Some e' \<and> open_filter e'"
    using assms(5) l'(2) r'(2)
    by (cases l'; cases r'; auto simp: open_filter_def reduceBinaryExpr_def isTrueLiteral_def isFalseLiteral_def reduce_operands_def)
  then obtain e' where e': "reduce None (BinaryExpr op l r) = Some e'" "open_filter e'" using l' r' by auto
  then have "open_filter (case e' of ParenExpr e \<Rightarrow> e | _ \<Rightarrow> e')" by (cases e') (simp_all add: open_filter_def)
  moreover have "e = (case e' of ParenExpr e \<Rightarrow> e | _ \<Rightarrow> e')" using assms(6) e'(1) by (simp add: Reduce_def)
  ultimately show ?thesis by simp
qed

section \<open>Merging\<close>

definition or_default :: "Token \<Rightarrow> FilterExprs \<Rightarrow> u64 \<Rightarrow> Expr" where
  "or_default op fs i = (case filter_of fs i of None \<Rightarrow> BooleanLiteral (op = LOR) | Some e \<Rightarrow> e)"

lemma merge_eq:
  assumes "\<forall>i\<in>set ids. Reduce None (BinaryExpr op (or_default op lf i) (or_default op rf i)) = Some (E i)"
  shows "mergeSeriesFilters op ids lf rf =
    Some (filter (\<lambda>i. \<not> isFalseLiteral (E i)) ids, map (\<lambda>i. (i, Some (E i))) (filter (\<lambda>i. \<not> isFalseLiteral (E i)) ids))"
  using assms
proof (induction ids)
  case (Cons i ids)
  then have "Reduce None (BinaryExpr op (or_default op lf i) (or_default op rf i)) = Some (E i)" by simp
  with Cons show ?case by (simp add: Let_def or_default_def)
qed simp

lemma good_filter:
  assumes "good m G ids fs"
  shows "type_of G (or_default op fs i) = Some TBool" and "i \<in> set ids \<Longrightarrow> filter_of fs i = Some (or_default op fs i)"
    and "i \<notin> set ids \<Longrightarrow> or_default op fs i = BooleanLiteral (op = LOR)"
    and "sel fs i flds \<longleftrightarrow> i \<in> set ids \<and> EvalBool flds (or_default op fs i)"
proof -
  have "type_of G (or_default op fs i) = Some TBool \<and> (i \<in> set ids \<longrightarrow> filter_of fs i = Some (or_default op fs i)) \<and>
    (i \<notin> set ids \<longrightarrow> or_default op fs i = BooleanLiteral (op = LOR)) \<and> (sel fs i flds \<longleftrightarrow> i \<in> set ids \<and> EvalBool flds (or_default op fs i))"
  proof (cases "i \<in> set ids")
    case True
    then obtain e where "filter_of fs i = Some e" "type_of G e = Some TBool" using assms by (auto simp: good_def)
    with True show ?thesis by (simp add: or_default_def sel_def)
  next
    case False
    then have "filter_of fs i = None" using assms by (simp add: good_def filter_of_def)
    with False show ?thesis by (simp add: or_default_def sel_def)
  qed
  then show "type_of G (or_default op fs i) = Some TBool" "i \<in> set ids \<Longrightarrow> filter_of fs i = Some (or_default op fs i)"
    "i \<notin> set ids \<Longrightarrow> or_default op fs i = BooleanLiteral (op = LOR)"
    "sel fs i flds \<longleftrightarrow> i \<in> set ids \<and> EvalBool flds (or_default op fs i)" by blast+
qed

lemma default_True:
  assumes "good m G ids fs" and "i \<in> set ids \<Longrightarrow> filter_of fs i = Some (BooleanLiteral True)"
  shows "or_default op fs i = BooleanLiteral True \<or> op \<noteq> LOR \<and> i \<notin> set ids"
  using assms good_filter(3) [OF assms(1), of i op] by (cases "i \<in> set ids") (auto simp: or_default_def)

lemma EvalBool_logical:
  assumes "conforms G flds" and "type_of G l = Some TBool" and "type_of G r = Some TBool"
  shows "EvalBool flds (BinaryExpr LAND l r) \<longleftrightarrow> EvalBool flds l \<and> EvalBool flds r"
    and "EvalBool flds (BinaryExpr LOR l r) \<longleftrightarrow> EvalBool flds l \<or> EvalBool flds r"
proof -
  obtain x where "Eval flds l = VBool x" using Eval_typed [OF assms(1,2)] by (auto elim: val_typeE)
  moreover obtain y where "Eval flds r = VBool y" using Eval_typed [OF assms(1,3)] by (auto elim: val_typeE)
  ultimately show "EvalBool flds (BinaryExpr LAND l r) \<longleftrightarrow> EvalBool flds l \<and> EvalBool flds r"
    "EvalBool flds (BinaryExpr LOR l r) \<longleftrightarrow> EvalBool flds l \<or> EvalBool flds r"
    by (simp_all add: EvalBool_def evalBinaryExpr_def eval_bools_def as_bool_def)
qed

lemma merge_correct:
  assumes l: "good m G lids lf" and r: "good m G rids rf" and op: "op = LAND \<or> op = LOR"
    and ids: "ids = (if op = LAND then SeriesIDs_Intersect lids rids else SeriesIDs_Union lids rids)"
  shows "\<exists>ids' fs. mergeSeriesFilters op ids lf rf = Some (ids', fs) \<and> good m G ids' fs \<and>
    (\<forall>i flds. conforms G flds \<longrightarrow>
      sel fs i flds = (i \<in> set ids \<and> EvalBool flds (BinaryExpr op (or_default op lf i) (or_default op rf i)))) \<and>
    (\<forall>i. i \<in> set ids' \<longrightarrow>
      (\<exists>e. filter_of fs i = Some e \<and> Reduce None (BinaryExpr op (or_default op lf i) (or_default op rf i)) = Some e)) \<and>
    (\<forall>i. i \<in> set ids \<longrightarrow> i \<notin> set ids' \<longrightarrow>
      Reduce None (BinaryExpr op (or_default op lf i) (or_default op rf i)) = Some (BooleanLiteral False)) \<and> set ids' \<subseteq> set ids"
proof -
  let ?B = "\<lambda>i. BinaryExpr op (or_default op lf i) (or_default op rf i)"
  define E where "E i = the (Reduce None (?B i))" for i
  let ?ids = "filter (\<lambda>i. \<not> isFalseLiteral (E i)) ids"
  let ?fs = "map (\<lambda>i. (i, Some (E i))) ?ids"
  have B: "type_of G (?B i) = Some TBool" for i using good_filter(1) [OF l] good_filter(1) [OF r] op by auto
  have E: "Reduce None (?B i) = Some (E i) \<and> type_of G (E i) = Some TBool \<and> (\<forall>flds. conforms G flds \<longrightarrow> Eval flds (E i) = Eval flds (?B i))" for i
    using Reduce_typed [OF B, of i] by (metis E_def option.sel)
  have set_ids: "asc ids" "set ids \<subseteq> set (meas_seriesIDs m)"
    using l r op Intersect_asc [of lids rids] Union_asc [of lids rids] by (auto simp: ids good_def)
  have g: "good m G ?ids ?fs" using set_ids E by (auto simp: good_def ascending_filter)
  show ?thesis
  proof (intro exI [of _ ?ids] exI [of _ ?fs] conjI allI impI)
    show "mergeSeriesFilters op ids lf rf = Some (?ids, ?fs)" by (rule merge_eq) (use E in blast)
    show "good m G ?ids ?fs" by (rule g)
    show "sel ?fs i flds \<longleftrightarrow> i \<in> set ids \<and> EvalBool flds (?B i)" if "conforms G flds" for i flds
    proof -
      have "EvalBool flds (E i) = EvalBool flds (?B i)" using E that by (simp add: EvalBool_def)
      then show ?thesis by (auto simp: sel_def isFalseLiteral_def split: if_splits)
    qed
    show "\<exists>e. filter_of ?fs i = Some e \<and> Reduce None (?B i) = Some e" if "i \<in> set ?ids" for i using that E by simp
    show "Reduce None (?B i) = Some (BooleanLiteral False)" if "i \<in> set ids" "i \<notin> set ?ids" for i
      using that E by (simp add: isFalseLiteral_def)
  qed auto
qed

section \<open>The walk\<close>

text \<open>What is known of a condition.\<close>

definition walk_correct :: "(string \<Rightarrow> string \<Rightarrow> bool) \<Rightarrow> Measurement \<Rightarrow> (string \<rightharpoonup> ty) \<Rightarrow> Expr \<Rightarrow> SeriesIDs \<Rightarrow> FilterExprs option \<Rightarrow> bool" where
  "walk_correct re m G c ids f \<longleftrightarrow>
     Measurement_walkWhereForSeriesIds re m c = Inr (ids, f) \<and> good m G ids (map_or_nil f) \<and> (f = None \<longrightarrow> ids = []) \<and>
     (\<forall>i s flds. map_of (meas_seriesByID m) i = Some s \<longrightarrow> conforms G flds \<longrightarrow>
        (sat re m (map_of (ser_Tags s)) flds c \<longrightarrow> sel (map_or_nil f) i flds) \<and>
        (unmixed m c \<longrightarrow> sel (map_or_nil f) i flds \<longrightarrow> sat re m (map_of (ser_Tags s)) flds c)) \<and>
     (tag_only m c \<longrightarrow> (\<forall>i\<in>set ids. filter_of (map_or_nil f) i = Some (BooleanLiteral True))) \<and>
     (field_only m c \<longrightarrow> ids = meas_seriesIDs m \<and> (\<forall>i e. filter_of (map_or_nil f) i = Some e \<longrightarrow> open_filter e))"

lemma walk_correctD:
  assumes "walk_correct re m G c ids f"
  shows "Measurement_walkWhereForSeriesIds re m c = Inr (ids, f)" "good m G ids (map_or_nil f)"
    and "map_of (meas_seriesByID m) i = Some s \<Longrightarrow> conforms G flds \<Longrightarrow> sat re m (map_of (ser_Tags s)) flds c \<Longrightarrow> sel (map_or_nil f) i flds"
    and "map_of (meas_seriesByID m) i = Some s \<Longrightarrow> conforms G flds \<Longrightarrow> unmixed m c \<Longrightarrow> sel (map_or_nil f) i flds \<Longrightarrow> sat re m (map_of (ser_Tags s)) flds c"
    and "tag_only m c \<Longrightarrow> i \<in> set ids \<Longrightarrow> filter_of (map_or_nil f) i = Some (BooleanLiteral True)"
    and "field_only m c \<Longrightarrow> ids = meas_seriesIDs m" and "field_only m c \<Longrightarrow> filter_of (map_or_nil f) i = Some e \<Longrightarrow> open_filter e"
  using assms unfolding walk_correct_def by blast+

lemma atom_blocked:
  assumes "where_ok m G (BinaryExpr op l r)" and "op \<noteq> LAND" "op \<noteq> LOR"
  shows "blocked (BinaryExpr op l r)"
proof -
  have "is_condition op" "ref_and_value l r \<noteq> None" using assms by simp_all
  moreover from this(2) have "(\<exists>x. l = VarRef x) \<or> (\<exists>x. r = VarRef x)" by (cases l; cases r) (auto simp: ref_and_value_def)
  ultimately show ?thesis using assms(2,3) by (auto simp: is_condition_def arithmetic_def)
qed

lemma walk_atom:
  assumes "meas_wf m" and ok: "where_ok m G (BinaryExpr op l r)" and op: "op \<noteq> LAND" "op \<noteq> LOR"
  shows "\<exists>ids f. walk_correct re m G (BinaryExpr op l r) ids f"
proof -
  obtain ids e where A: "atom_correct re m G op l r ids e" using idsForExpr_correct [OF assms] by blast
  let ?f = "Some (map (\<lambda>i. (i, e)) ids)"
  have "is_condition op" using ok op by simp
  with A have W: "Measurement_walkWhereForSeriesIds re m (BinaryExpr op l r) = Inr (ids, ?f)" by (simp add: atom_correct_def)
  have open_e: "open_filter x" if "i \<in> set ids" "e = Some x" "atom_kind m l r \<noteq> Some False" for i x
    using that A atom_blocked [OF ok op] by (cases "atom_kind m l r") (auto simp: atom_correct_def open_filter_def)
  have "walk_correct re m G (BinaryExpr op l r) ids ?f"
    unfolding walk_correct_def W
    using A op open_e by (auto simp: atom_correct_def split: if_splits)
  then show ?thesis by blast
qed

lemma walk_logical:
  assumes wf: "meas_wf m" and op: "op = LAND \<or> op = LOR" and L: "walk_correct re m G l lids lf" and R: "walk_correct re m G r rids rf"
  shows "\<exists>ids f. walk_correct re m G (BinaryExpr op l r) ids f"
proof -
  define ids where "ids = (if op = LAND then SeriesIDs_Intersect lids rids else SeriesIDs_Union lids rids)"
  let ?lf = "map_or_nil lf" and ?rf = "map_or_nil rf"
  let ?B = "\<lambda>i. BinaryExpr op (or_default op ?lf i) (or_default op ?rf i)"
  note gl = walk_correctD(2) [OF L] and gr = walk_correctD(2) [OF R]
  obtain ids' fs where M: "mergeSeriesFilters op ids ?lf ?rf = Some (ids', fs)" "good m G ids' fs"
      "\<forall>i flds. conforms G flds \<longrightarrow> sel fs i flds = (i \<in> set ids \<and> EvalBool flds (?B i))"
      "\<forall>i. i \<in> set ids' \<longrightarrow> (\<exists>e. filter_of fs i = Some e \<and> Reduce None (?B i) = Some e)"
      "\<forall>i. i \<in> set ids \<longrightarrow> i \<notin> set ids' \<longrightarrow> Reduce None (?B i) = Some (BooleanLiteral False)" "set ids' \<subseteq> set ids"
    using merge_correct [OF gl gr op ids_def] by (elim exE conjE)
  note M = this(1,2) this(3-5) [rule_format] this(6)
  have set_ids: "set ids = (if op = LAND then set lids \<inter> set rids else set lids \<union> set rids)"
    using gl gr Intersect_asc [of lids rids] Union_asc [of lids rids] by (simp add: ids_def good_def)
  have lr: "sel fs i flds \<longleftrightarrow> (if op = LAND then sel ?lf i flds \<and> sel ?rf i flds
      else i \<in> set ids \<and> (EvalBool flds (or_default op ?lf i) \<or> EvalBool flds (or_default op ?rf i)))" if c: "conforms G flds" for i flds
    using op EvalBool_logical [OF c good_filter(1) [OF gl, of op i] good_filter(1) [OF gr, of op i]]
      good_filter(4) [OF gl, of i flds op] good_filter(4) [OF gr, of i flds op]
    by (auto simp: M(3) [OF c] set_ids)
  have W: "Measurement_walkWhereForSeriesIds re m (BinaryExpr op l r) = Inr (ids', Some fs)"
    using op walk_correctD(1) [OF L] walk_correctD(1) [OF R] M(1) by (auto simp: is_condition_def ids_def Let_def)
  have complete: "sel fs i flds" if i: "map_of (meas_seriesByID m) i = Some s" and c: "conforms G flds"
      and "sat re m (map_of (ser_Tags s)) flds (BinaryExpr op l r)" for i s flds
    using that op walk_correctD(3) [OF L i c] walk_correctD(3) [OF R i c] good_filter(4) [OF gl, of i flds LOR] good_filter(4) [OF gr, of i flds LOR]
    by (auto simp: lr [OF c] set_ids split: if_splits)
  have exact: "sat re m (map_of (ser_Tags s)) flds (BinaryExpr op l r)" if i: "map_of (meas_seriesByID m) i = Some s" and c: "conforms G flds"
      and u: "unmixed m (BinaryExpr op l r)" and s: "sel fs i flds" for i s flds
  proof (cases "op = LAND")
    case True
    with u s show ?thesis using walk_correctD(4) [OF L i c] walk_correctD(4) [OF R i c] by (simp add: lr [OF c])
  next
    case False
    with op have or: "op = LOR" by simp
    have mem: "i \<in> set (meas_seriesIDs m)" using meas_wf_ids(2) [OF wf] i by blast
    have "sel ?lf i flds \<or> sel ?rf i flds"
    proof (cases "tag_only m l \<and> tag_only m r")
      case True
      have "i \<in> set lids \<or> i \<in> set rids" using s or by (simp add: lr [OF c] set_ids)
      with True show ?thesis using walk_correctD(5) [OF L, of i] walk_correctD(5) [OF R, of i] by (auto simp: sel_def)
    next
      case False
      with u or have "field_only m l" "field_only m r" by auto
      then have "lids = meas_seriesIDs m" "rids = meas_seriesIDs m" using walk_correctD(6) [OF L] walk_correctD(6) [OF R] by simp_all
      with s or mem show ?thesis by (auto simp: lr [OF c] good_filter(4) [OF gl, of i flds LOR] good_filter(4) [OF gr, of i flds LOR])
    qed
    with u or show ?thesis using walk_correctD(4) [OF L i c] walk_correctD(4) [OF R i c] by auto
  qed
  have tags: "filter_of fs i = Some (BooleanLiteral True)" if t: "tag_only m (BinaryExpr op l r)" and i: "i \<in> set ids'" for i
  proof -
    have "tag_only m l" "tag_only m r" using t op by auto
    then have "or_default op ?lf i = BooleanLiteral True \<or> op \<noteq> LOR \<and> i \<notin> set lids"
        "or_default op ?rf i = BooleanLiteral True \<or> op \<noteq> LOR \<and> i \<notin> set rids"
      using default_True [OF gl] default_True [OF gr] walk_correctD(5) [OF L] walk_correctD(5) [OF R] by blast+
    moreover have "i \<in> set ids" using i M(6) by blast
    ultimately have "?B i = BinaryExpr op (BooleanLiteral True) (BooleanLiteral True)" using op by (auto simp: set_ids split: if_splits)
    then have "Reduce None (?B i) = Some (BooleanLiteral True)"
      using op by (auto simp: Reduce_def reduceBinaryExpr_def isTrueLiteral_def isFalseLiteral_def)
    with M(4) [OF i] show ?thesis by auto
  qed
  have flds: "ids' = meas_seriesIDs m \<and> (\<forall>i e. filter_of fs i = Some e \<longrightarrow> open_filter e)" if f: "field_only m (BinaryExpr op l r)"
  proof -
    have not_open: "\<not> open_filter (BooleanLiteral False)" by (simp add: open_filter_def)
    from f op have fl: "field_only m l" and fr: "field_only m r" by auto
    then have all: "lids = meas_seriesIDs m" "rids = meas_seriesIDs m" using walk_correctD(6) [OF L] walk_correctD(6) [OF R] by simp_all
    then have ids: "set ids = set (meas_seriesIDs m)" by (simp add: set_ids)
    have o: "open_filter e" if i: "i \<in> set ids" and e: "Reduce None (?B i) = Some e" for i e
    proof -
      have "i \<in> set lids" "i \<in> set rids" using i ids all by simp_all
      then have "open_filter (or_default op ?lf i)" "open_filter (or_default op ?rf i)"
        using good_filter(2) [OF gl] good_filter(2) [OF gr] walk_correctD(7) [OF L fl] walk_correctD(7) [OF R fr] by blast+
      then show ?thesis using e by (rule Reduce_open_filter [OF good_filter(1) [OF gl] good_filter(1) [OF gr] _ _ op])
    qed
    have "set ids' = set (meas_seriesIDs m)" using M(5) M(6) o [of _ "BooleanLiteral False"] ids not_open by blast
    moreover have "asc ids'" using M(2) unfolding good_def by blast
    ultimately have "ids' = meas_seriesIDs m" using ascending_eq [OF _ meas_wf_ids(1) [OF wf]] by blast
    moreover have "open_filter e" if e: "filter_of fs i = Some e" for i e
    proof -
      have i: "i \<in> set ids'"
      proof (rule ccontr)
        assume "i \<notin> set ids'"
        then have "map_of fs i = None" using M(2) unfolding good_def by blast
        with e show False by (simp add: filter_of_def)
      qed
      have "Reduce None (?B i) = Some e" using M(4) [OF i] e by simp
      moreover have "i \<in> set ids" using i M(6) by blast
      ultimately show ?thesis using o by blast
    qed
    ultimately show ?thesis by blast
  qed
  have "walk_correct re m G (BinaryExpr op l r) ids' (Some fs)"
    unfolding walk_correct_def W option.case
  proof (intro conjI allI impI ballI)
    show "ids' = meas_seriesIDs m" if "field_only m (BinaryExpr op l r)" using flds that by blast
    show "open_filter e" if "field_only m (BinaryExpr op l r)" "filter_of fs i = Some e" for i e using flds that by blast
  qed (use M(2) complete exact tags in \<open>simp_all del: all_atoms.simps sat.simps unmixed.simps\<close>)
  then show ?thesis by blast
qed

lemma walk_correct:
  assumes "meas_wf m"
  shows "where_ok m G c \<Longrightarrow> \<exists>ids f. walk_correct re m G c ids f"
proof (induction c)
  case (BinaryExpr op l r)
  show ?case
  proof (cases "op = LAND \<or> op = LOR")
    case True
    with BinaryExpr obtain lids lf rids rf where "walk_correct re m G l lids lf" "walk_correct re m G r rids rf" by auto
    with walk_logical [OF assms True] show ?thesis by blast
  next
    case False
    then show ?thesis using walk_atom [OF assms BinaryExpr.prems] by blast
  qed
next
  case (ParenExpr e)
  then show ?case by (simp add: walk_correct_def)
qed (intro exI [of _ "[]"] exI [of _ None], simp add: walk_correct_def good_def sel_def)+

section \<open>The filters of a condition\<close>

definition settled :: "Expr option option \<Rightarrow> Expr option option" where
  "settled e = (case e of None \<Rightarrow> Some None | Some e \<Rightarrow> if e = Some (BooleanLiteral True) then Some None else Some e)"

lemma map_of_settle_filter: "map_of (settle_filter j fs) i = (if i = j then settled (map_of fs i) else map_of fs i)"
  by (cases "map_of fs j") (auto simp: settle_filter_def settled_def update_conv')

lemma settled_idem [simp]: "settled (settled e) = settled e"
  by (auto simp: settled_def split: option.splits)

lemma map_of_settle_filters: "map_of (fold settle_filter ids fs) i = (if i \<in> set ids then settled (map_of fs i) else map_of fs i)"
  by (induction ids arbitrary: fs) (auto simp: map_of_settle_filter)

lemma passes_settled:
  assumes "good m G ids fs"
  shows "passes (fold settle_filter ids fs) i flds \<longleftrightarrow> sel fs i flds"
proof (cases "i \<in> set ids")
  case True
  then obtain e where "filter_of fs i = Some e" using assms by (auto simp: good_def)
  then have "map_of fs i = Some (Some e)" by (auto simp: filter_of_def split: option.splits)
  with True show ?thesis by (simp add: passes_def map_of_settle_filters settled_def sel_def filter_of_def)
next
  case False
  then have "map_of fs i = None" using assms by (simp add: good_def)
  with False show ?thesis by (simp add: passes_def map_of_settle_filters sel_def filter_of_def)
qed

lemma OnlyTimeExpr_sat: "OnlyTimeExpr c \<Longrightarrow> where_ok m G c \<Longrightarrow> sat re m tags flds c"
proof (induction c)
  case (BinaryExpr op l r)
  show ?case
  proof (cases "op = LAND \<or> op = LOR")
    case True
    with BinaryExpr show ?thesis by auto
  next
    case False
    with BinaryExpr have "l = VarRef ''time''" by simp
    with False show ?thesis by (simp add: atom_sat_def ref_and_value_def)
  qed
qed simp_all

lemma filters_correct:
  assumes "meas_wf m" and "where_ok m G c"
  obtains fs where "Measurement_filters re m (Some c) = Inr fs"
    and "\<forall>i s flds. Measurement_SeriesByID i m = Some s \<longrightarrow> conforms G flds \<longrightarrow>
      (sat re m (map_of (ser_Tags s)) flds c \<longrightarrow> passes fs i flds) \<and> (unmixed m c \<longrightarrow> passes fs i flds \<longrightarrow> sat re m (map_of (ser_Tags s)) flds c)"
    and "\<forall>i. Measurement_SeriesByID i m = None \<longrightarrow> map_of fs i = None" and "distinct (map fst fs)"
proof (cases "OnlyTimeExpr c")
  case True
  show thesis
  proof (rule that [of "map (\<lambda>i. (i, None)) (meas_seriesIDs m)"])
    show "Measurement_filters re m (Some c) = Inr (map (\<lambda>i. (i, None)) (meas_seriesIDs m))" using True by (simp add: Measurement_filters_def)
    show "distinct (map fst (map (\<lambda>i. (i, None)) (meas_seriesIDs m)))" using meas_wf_ids(1) [OF assms(1)] by (simp add: asc_distinct)
  qed (use meas_wf_ids(2) [OF assms(1)] OnlyTimeExpr_sat [OF True assms(2)] in
    \<open>auto simp: Measurement_SeriesByID_def passes_def\<close>)
next
  case False
  obtain ids f where W: "walk_correct re m G c ids f" using walk_correct [OF assms] by blast
  note g = walk_correctD(2) [OF W]
  let ?fs = "fold settle_filter ids (map_or_nil f)"
  show thesis
  proof (rule that [of ?fs])
    have nil: "f = None \<longrightarrow> ids = []" using W by (simp add: walk_correct_def)
    have "distinct (map fst (fold settle_filter js gs))" if "distinct (map fst gs)" for js gs
      using that by (induction js arbitrary: gs) (auto simp: settle_filter_def distinct_update split: option.splits)
    then show "distinct (map fst ?fs)" using g by (simp add: good_def)
    show "Measurement_filters re m (Some c) = Inr ?fs"
      using False nil walk_correctD(1) [OF W] by (cases f) (auto simp: Measurement_filters_def)
    show "\<forall>i s flds. Measurement_SeriesByID i m = Some s \<longrightarrow> conforms G flds \<longrightarrow>
      (sat re m (map_of (ser_Tags s)) flds c \<longrightarrow> passes ?fs i flds) \<and> (unmixed m c \<longrightarrow> passes ?fs i flds \<longrightarrow> sat re m (map_of (ser_Tags s)) flds c)"
      unfolding passes_settled [OF g] Measurement_SeriesByID_def using walk_correctD(3,4) [OF W] by blast
    show "\<forall>i. Measurement_SeriesByID i m = None \<longrightarrow> map_of ?fs i = None"
    proof (intro allI impI)
      fix i assume "Measurement_SeriesByID i m = None"
      then have "i \<notin> set (meas_seriesIDs m)" using meas_wf_ids(2) [OF assms(1), of i] by (simp add: Measurement_SeriesByID_def)
      then have "i \<notin> set ids" using g unfolding good_def by blast
      then show "map_of ?fs i = None" using g by (simp add: map_of_settle_filters good_def)
    qed
  qed
qed

end
