(* ===== verification/Index_Tags.thy ===== *)
theory Index_Tags
  imports Index_DB Index_Select
begin

text \<open>
  Grouping and listing by tags (\<open>tsdb/meta.go\<close>): the tag sets of a \<open>GROUP BY\<close> clause, the measurements that satisfy a condition on
  tags, and the lists of tag keys and values.
\<close>

section \<open>Sets of strings and lists of tags\<close>

definition stringSet_add :: "string list \<Rightarrow> string list \<Rightarrow> string list" where
  "stringSet_add ss s = fold List.insert ss s"

definition stringSet_contains :: "string \<Rightarrow> string list \<Rightarrow> bool" where
  "stringSet_contains x s = List.member s x"

definition stringSet_list :: "string list \<Rightarrow> string list" where
  "stringSet_list s = sort s"

definition stringSet_union :: "string list \<Rightarrow> string list \<Rightarrow> string list" where
  "stringSet_union s t = stringSet_add t (stringSet_add s [])"

definition stringSet_intersect :: "string list \<Rightarrow> string list \<Rightarrow> string list" where
  "stringSet_intersect s t =
     stringSet_add (filter (\<lambda>k. stringSet_contains k s) t) (stringSet_add (filter (\<lambda>k. stringSet_contains k t) s) [])"

definition Measurement_TagKeys :: "Measurement \<Rightarrow> string list" where
  "Measurement_TagKeys m = sort (map fst (meas_seriesByTagKeyValue m))"

definition Measurement_TagValues :: "string \<Rightarrow> Measurement \<Rightarrow> string list" where
  "Measurement_TagValues k m = map fst (get_list k (meas_seriesByTagKeyValue m))"

definition Measurement_FieldNames :: "Measurement \<Rightarrow> string list" where
  "Measurement_FieldNames m = meas_fieldNames m"

definition Series_match :: "(string \<times> string) list \<Rightarrow> Series \<Rightarrow> bool" where
  "Series_match tags s = list_all (\<lambda>(k, v). (case map_of (ser_Tags s) k of None \<Rightarrow> [] | Some x \<Rightarrow> x) = v) tags"

text \<open>The tag values of some series, for the given keys or for all keys.\<close>

definition collect_tag :: "Series \<Rightarrow> string \<Rightarrow> (string \<times> string list) list \<Rightarrow> (string \<times> string list) list" where
  "collect_tag s k out =
     (case map_of (ser_Tags s) k of None \<Rightarrow> out | Some v \<Rightarrow> AList.update k (List.insert v (get_list k out)) out)"

definition Measurement_tagValuesByKeyAndSeriesID :: "string list \<Rightarrow> SeriesIDs \<Rightarrow> Measurement \<Rightarrow> (string \<times> string list) list" where
  "Measurement_tagValuesByKeyAndSeriesID tagKeys ids m =
     (let tagKeys = (if tagKeys = [] then map fst (meas_seriesByTagKeyValue m) else tagKeys) in
      fold (\<lambda>i out. case map_of (meas_seriesByID m) i of None \<Rightarrow> out | Some s \<Rightarrow> fold (collect_tag s) tagKeys out) ids [])"

section \<open>Tag sets\<close>

abbreviation bar :: char where "bar \<equiv> CHR 0x7C"

text \<open>The sorted keys, each followed by a bar, and the values in the same order with bars between them.\<close>

fun join_bar :: "string list \<Rightarrow> string" where
  "join_bar [] = []"
| "join_bar [v] = v"
| "join_bar (v # vs) = v @ [bar] @ join_bar vs"

definition MarshalTags :: "(string \<times> string) list \<Rightarrow> string" where
  "MarshalTags tags =
     (if tags = [] then []
      else let keys = sort (map fst tags)
           in concat (map (\<lambda>k. k @ [bar]) keys) @ join_bar (map (\<lambda>k. the (map_of tags k)) keys))"

record TagSet =
  ts_Tags :: "(string \<times> string) list"
  ts_Filters :: "Expr option list"
  ts_SeriesKeys :: "string list"
  ts_Key :: string

definition TagSet_AddFilter :: "string \<Rightarrow> Expr option \<Rightarrow> TagSet \<Rightarrow> TagSet" where
  "TagSet_AddFilter k f t = t\<lparr>ts_SeriesKeys := ts_SeriesKeys t @ [k], ts_Filters := ts_Filters t @ [f]\<rparr>"

text \<open>The values of the dimensions; a missing tag has the empty value.\<close>

definition dimension_tags :: "string list \<Rightarrow> Series \<Rightarrow> (string \<times> string) list" where
  "dimension_tags dims s = map (\<lambda>k. (k, case map_of (ser_Tags s) k of None \<Rightarrow> [] | Some v \<Rightarrow> v)) (remdups dims)"

text \<open>The loop over the series; \<open>None\<close> is the panic on an unknown ID.\<close>

fun group_series :: "Measurement \<Rightarrow> string list \<Rightarrow> FilterExprs \<Rightarrow> (string \<times> TagSet) list \<Rightarrow> (string \<times> TagSet) list option" where
  "group_series m dims [] tagSets = Some tagSets"
| "group_series m dims ((i, f) # fs) tagSets =
     (case map_of (meas_seriesByID m) i of
        None \<Rightarrow> None
      | Some s \<Rightarrow>
          let tags = dimension_tags dims s;
              k = MarshalTags tags;
              t = (case map_of tagSets k of
                     None \<Rightarrow> \<lparr>ts_Tags = tags, ts_Filters = [], ts_SeriesKeys = [], ts_Key = MarshalTags tags\<rparr>
                   | Some t \<Rightarrow> t)
          in group_series m dims fs (AList.update k (TagSet_AddFilter (ser_Key s) f t) tagSets))"

text \<open>\<open>order\<close> is the order in which the loop visits the map of filters.\<close>

definition Measurement_TagSets ::
    "(FilterExprs \<Rightarrow> FilterExprs) \<Rightarrow> (string \<Rightarrow> string \<Rightarrow> bool) \<Rightarrow> Measurement \<Rightarrow> Expr option \<Rightarrow> string list \<Rightarrow> where_error + TagSet list option" where
  "Measurement_TagSets order re m cond dims =
     (case Measurement_filters re m cond of
        Inl e \<Rightarrow> Inl e
      | Inr fs \<Rightarrow> Inr (map_option (\<lambda>tagSets. map snd (sort_key fst tagSets)) (group_series m dims (order fs) [])))"

section \<open>Measurements by tags\<close>

definition Measurements_intersect :: "Measurement list \<Rightarrow> Measurement list \<Rightarrow> Measurement list" where
  "Measurements_intersect = shorter_first (intersect_loop meas_Name)"

definition Measurements_union :: "Measurement list \<Rightarrow> Measurement list \<Rightarrow> Measurement list" where
  "Measurements_union = union_loop meas_Name"

record TagFilter =
  tf_Op :: Token
  tf_Key :: string
  tf_Value :: string
  tf_Regex :: string

definition filter_matches :: "(string \<Rightarrow> string \<Rightarrow> bool) \<Rightarrow> TagFilter \<Rightarrow> Measurement \<Rightarrow> bool" where
  "filter_matches re f m =
     (case map_of (meas_seriesByTagKeyValue m) (tf_Key f) of
        None \<Rightarrow> False
      | Some tagVals \<Rightarrow>
          let tagMatch = (if tf_Op f = EQ \<or> tf_Op f = NEQ then tf_Value f \<in> set (map fst tagVals)
                          else list_ex (re (tf_Regex f)) (map fst tagVals));
              isEQ = (tf_Op f = EQ \<or> tf_Op f = EQREGEX)
          in tagMatch = isEQ)"

definition DatabaseIndex_measurementsByTagFilters :: "(string \<Rightarrow> string \<Rightarrow> bool) \<Rightarrow> TagFilter list \<Rightarrow> DatabaseIndex \<Rightarrow> Measurement list" where
  "DatabaseIndex_measurementsByTagFilters re filters d =
     (if filters = [] then DatabaseIndex_Measurements d
      else sort_key meas_Name (filter (\<lambda>m. list_ex (\<lambda>f. filter_matches re f m) filters) (DatabaseIndex_Measurements d)))"

datatype by_expr_error = LeftNotTagKey | RightNotRegex | RightNotString | InvalidOperator | OtherExpr

definition comparison_filter :: "Token \<Rightarrow> Expr \<Rightarrow> Expr \<Rightarrow> by_expr_error + TagFilter" where
  "comparison_filter op l r =
     (case l of
        VarRef x \<Rightarrow>
          if op = EQREGEX \<or> op = NEQREGEX then
            (case r of RegexLiteral y \<Rightarrow> Inr \<lparr>tf_Op = op, tf_Key = x, tf_Value = [], tf_Regex = y\<rparr> | _ \<Rightarrow> Inl RightNotRegex)
          else
            (case r of StringLiteral y \<Rightarrow> Inr \<lparr>tf_Op = op, tf_Key = x, tf_Value = y, tf_Regex = []\<rparr> | _ \<Rightarrow> Inl RightNotString)
      | _ \<Rightarrow> Inl LeftNotTagKey)"

fun DatabaseIndex_measurementsByExpr ::
    "(string \<Rightarrow> string \<Rightarrow> bool) \<Rightarrow> DatabaseIndex \<Rightarrow> Expr \<Rightarrow> by_expr_error + Measurement list" where
  "DatabaseIndex_measurementsByExpr re d (BinaryExpr op l r) =
     (if op \<in> {EQ, NEQ, EQREGEX, NEQREGEX} then
        (case comparison_filter op l r of
           Inl e \<Rightarrow> Inl e
         | Inr tf \<Rightarrow> Inr (DatabaseIndex_measurementsByTagFilters re [tf] d))
      else if op = LOR \<or> op = LAND then
        (case DatabaseIndex_measurementsByExpr re d l of
           Inl e \<Rightarrow> Inl e
         | Inr lms \<Rightarrow>
             (case DatabaseIndex_measurementsByExpr re d r of
                Inl e \<Rightarrow> Inl e
              | Inr rms \<Rightarrow> Inr (if op = LOR then Measurements_union lms rms else Measurements_intersect lms rms)))
      else Inl InvalidOperator)"
| "DatabaseIndex_measurementsByExpr re d (ParenExpr e) = DatabaseIndex_measurementsByExpr re d e"
| "DatabaseIndex_measurementsByExpr re d _ = Inl OtherExpr"

section \<open>Keys of tag sets\<close>

lemma split_at_first:
  "v @ c # x = w @ c # y \<Longrightarrow> c \<notin> set v \<Longrightarrow> c \<notin> set w \<Longrightarrow> v = w \<and> x = y"
proof (induction v arbitrary: w)
  case (Cons a v)
  then show ?case by (cases w) auto
next
  case Nil
  then show ?case by (cases w) auto
qed

lemma join_bar_inj:
  assumes "length vs = length ws" and "\<forall>v\<in>set vs. bar \<notin> set v" and "\<forall>w\<in>set ws. bar \<notin> set w" and "join_bar vs = join_bar ws"
  shows "vs = ws"
  using assms
proof (induction vs arbitrary: ws rule: join_bar.induct)
  case (2 v)
  then show ?case by (cases ws) auto
next
  case (3 v v' vs)
  then obtain w w' ws' where ws: "ws = w # w' # ws'" by (cases ws; cases "tl ws") auto
  from 3(5) have e: "v @ bar # join_bar (v' # vs) = w @ bar # join_bar (w' # ws')" by (simp add: ws)
  have "bar \<notin> set v" "bar \<notin> set w" using 3(3,4) ws by simp_all
  with e have vw: "v = w \<and> join_bar (v' # vs) = join_bar (w' # ws')" by (intro split_at_first)
  then have "v' # vs = w' # ws'" by (intro 3(1)) (use 3(2-4) ws in auto)
  with vw show ?case by (simp add: ws)
qed simp

lemma fst_dimension_tags [simp]: "map fst (dimension_tags dims s) = remdups dims"
  by (simp add: dimension_tags_def comp_def)

definition no_bar :: "string list \<Rightarrow> Series \<Rightarrow> bool" where
  "no_bar dims s \<longleftrightarrow> (\<forall>k\<in>set dims. \<forall>v. map_of (ser_Tags s) k = Some v \<longrightarrow> bar \<notin> set v)"

lemma dimension_tags_value:
  assumes "no_bar dims s" and "(k, v) \<in> set (dimension_tags dims s)"
  shows "bar \<notin> set v"
  using assms by (auto simp: dimension_tags_def no_bar_def split: option.splits)

lemma MarshalTags_inj:
  assumes "no_bar dims s" and "no_bar dims s'" and "MarshalTags (dimension_tags dims s) = MarshalTags (dimension_tags dims s')"
  shows "dimension_tags dims s = dimension_tags dims s'"
proof (cases "dims = []")
  case False
  let ?t = "dimension_tags dims s" and ?t' = "dimension_tags dims s'" and ?ks = "sort (remdups dims)"
  have ne: "?t \<noteq> []" "?t' \<noteq> []" using False by (simp_all add: dimension_tags_def)
  have look: "\<exists>v. map_of (dimension_tags dims x) k = Some v" if "k \<in> set dims" for k x
    using that by (simp add: dimension_tags_def)
  have vals: "bar \<notin> set (the (map_of (dimension_tags dims x) k))" if "k \<in> set dims" "no_bar dims x" for k x
    using look [OF that(1), of x] dimension_tags_value [OF that(2)] by (metis map_of_SomeD option.sel)
  have "join_bar (map (\<lambda>k. the (map_of ?t k)) ?ks) = join_bar (map (\<lambda>k. the (map_of ?t' k)) ?ks)"
    using assms(3) ne by (simp add: MarshalTags_def Let_def)
  then have "map (\<lambda>k. the (map_of ?t k)) ?ks = map (\<lambda>k. the (map_of ?t' k)) ?ks"
    by (intro join_bar_inj) (use vals assms(1,2) in auto)
  then have "the (map_of ?t k) = the (map_of ?t' k)" if "k \<in> set dims" for k using that by simp
  then show ?thesis by (auto simp: dimension_tags_def)
qed (simp add: dimension_tags_def)

text \<open>A bar in a value joins series that differ in the dimensions.\<close>

lemma bar_joins_tag_sets:
  "MarshalTags [(''a'', ''x|y''), (''b'', ''z'')] = MarshalTags [(''a'', ''x''), (''b'', ''y|z'')]"
  by code_simp

section \<open>Grouping\<close>

text \<open>The series of the filters with their dimensions, and what the loop makes of those with one key.\<close>

definition entries :: "Measurement \<Rightarrow> string list \<Rightarrow> FilterExprs \<Rightarrow> ((string \<times> string) list \<times> string \<times> Expr option) list" where
  "entries m dims fs =
     map (\<lambda>(i, f). let s = the (map_of (meas_seriesByID m) i) in (dimension_tags dims s, ser_Key s, f)) fs"

definition with_key :: "string \<Rightarrow> ((string \<times> string) list \<times> string \<times> Expr option) list \<Rightarrow> ((string \<times> string) list \<times> string \<times> Expr option) list" where
  "with_key k = filter (\<lambda>(tags, key, f). MarshalTags tags = k)"

fun add_all :: "TagSet \<Rightarrow> ((string \<times> string) list \<times> string \<times> Expr option) list \<Rightarrow> TagSet" where
  "add_all t [] = t"
| "add_all t ((tags, key, f) # es) = add_all (TagSet_AddFilter key f t) es"

fun collected :: "TagSet option \<Rightarrow> ((string \<times> string) list \<times> string \<times> Expr option) list \<Rightarrow> TagSet option" where
  "collected (Some t) es = Some (add_all t es)"
| "collected None [] = None"
| "collected None ((tags, key, f) # es) =
     Some (add_all \<lparr>ts_Tags = tags, ts_Filters = [f], ts_SeriesKeys = [key], ts_Key = MarshalTags tags\<rparr> es)"

lemma group_series_collected:
  assumes "\<forall>(i, f) \<in> set fs. map_of (meas_seriesByID m) i \<noteq> None" and "distinct (map fst acc)"
  shows "\<exists>r. group_series m dims fs acc = Some r \<and> distinct (map fst r) \<and>
    (\<forall>k. map_of r k = collected (map_of acc k) (with_key k (entries m dims fs)))"
  using assms
proof (induction fs arbitrary: acc)
  case Nil
  have "collected x [] = x" for x by (cases x) simp_all
  with Nil show ?case by (simp add: entries_def with_key_def)
next
  case (Cons x fs)
  obtain i f where x: "x = (i, f)" by fastforce
  with Cons.prems obtain s where s: "map_of (meas_seriesByID m) i = Some s" by auto
  let ?tags = "dimension_tags dims s" and ?k = "MarshalTags (dimension_tags dims s)"
  define t where "t = (case map_of acc ?k of
      None \<Rightarrow> \<lparr>ts_Tags = ?tags, ts_Filters = [], ts_SeriesKeys = [], ts_Key = MarshalTags ?tags\<rparr> | Some t \<Rightarrow> t)"
  let ?acc = "AList.update ?k (TagSet_AddFilter (ser_Key s) f t) acc"
  have step: "group_series m dims (x # fs) acc = group_series m dims fs ?acc" by (simp add: x s Let_def t_def)
  have look: "collected (map_of ?acc k) (with_key k (entries m dims fs)) = collected (map_of acc k) (with_key k (entries m dims (x # fs)))" for k
  proof (cases "k = ?k")
    case True
    have e: "with_key k (entries m dims (x # fs)) = (?tags, ser_Key s, f) # with_key k (entries m dims fs)"
      using True by (simp add: with_key_def entries_def x s)
    show ?thesis unfolding e using True by (cases "map_of acc ?k") (simp_all add: update_conv' t_def TagSet_AddFilter_def)
  next
    case False
    then have "with_key k (entries m dims (x # fs)) = with_key k (entries m dims fs)" by (simp add: with_key_def entries_def x s)
    with False show ?thesis by (simp add: update_conv')
  qed
  have "\<forall>(i, f) \<in> set fs. map_of (meas_seriesByID m) i \<noteq> None" using Cons.prems(1) by simp
  from Cons.IH [OF this distinct_update [OF Cons.prems(2)]] show ?case unfolding step look [symmetric] by blast
qed

lemma add_all_simps [simp]:
  "ts_Tags (add_all t es) = ts_Tags t" "ts_Key (add_all t es) = ts_Key t"
  "ts_SeriesKeys (add_all t es) = ts_SeriesKeys t @ map (fst \<circ> snd) es" "ts_Filters (add_all t es) = ts_Filters t @ map (snd \<circ> snd) es"
  by (induction t es rule: add_all.induct) (simp_all add: TagSet_AddFilter_def)

lemma collected_None:
  assumes "collected None es = Some t"
  shows "es \<noteq> []" "ts_Tags t = fst (hd es)" "ts_Key t = MarshalTags (fst (hd es))"
    "ts_SeriesKeys t = map (fst \<circ> snd) es" "ts_Filters t = map (snd \<circ> snd) es"
  using assms by (cases es; auto)+

lemma TagSets_entries:
  assumes "Measurement_filters re m cond = Inr fs'" and "\<forall>(i, f) \<in> set fs. map_of (meas_seriesByID m) i \<noteq> None" and "fs = order fs'"
    and "\<forall>(i, s) \<in> set (meas_seriesByID m). no_bar dims s"
  shows "\<exists>r. Measurement_TagSets order re m cond dims = Inr (Some r) \<and> ascending ts_Key r \<and>
    (\<forall>t\<in>set r. map (\<lambda>(tags, key, f). (key, f)) (filter (\<lambda>(tags, key, f). tags = ts_Tags t) (entries m dims fs)) = zip (ts_SeriesKeys t) (ts_Filters t) \<and>
      ts_SeriesKeys t \<noteq> [] \<and> length (ts_Filters t) = length (ts_SeriesKeys t)) \<and>
    (\<forall>t\<in>set r. \<exists>s. ts_Tags t = dimension_tags dims s) \<and>
    (\<forall>(tags, key, f) \<in> set (entries m dims fs). \<exists>t\<in>set r. ts_Tags t = tags)"
proof -
  let ?es = "entries m dims fs"
  obtain acc where acc: "group_series m dims fs [] = Some acc" "distinct (map fst acc)" "\<And>k. map_of acc k = collected None (with_key k ?es)"
    using group_series_collected [OF assms(2), of "[]" dims] by auto
  let ?r = "map snd (sort_key fst acc)"
  have entry: "\<exists>s. no_bar dims s \<and> tags = dimension_tags dims s" if "(tags, key, f) \<in> set ?es" for tags key f
  proof -
    from that obtain i where i: "(i, f) \<in> set fs" "tags = dimension_tags dims (the (map_of (meas_seriesByID m) i))"
      by (auto simp: entries_def Let_def)
    with assms(2) obtain s where s: "map_of (meas_seriesByID m) i = Some s" by auto
    with assms(4) have "no_bar dims s" by (auto dest: map_of_SomeD)
    with i s show ?thesis by auto
  qed
  have inj: "MarshalTags tags = MarshalTags tags' \<longleftrightarrow> tags = tags'" if es: "(tags, x) \<in> set ?es" "(tags', x') \<in> set ?es" for tags tags' x x'
  proof -
    obtain s where "no_bar dims s" "tags = dimension_tags dims s" using entry [of tags "fst x" "snd x"] es(1) by auto
    moreover obtain s' where "no_bar dims s'" "tags' = dimension_tags dims s'" using entry [of tags' "fst x'" "snd x'"] es(2) by auto
    ultimately show ?thesis using MarshalTags_inj by blast
  qed
  have mem: "t \<in> set ?r \<longleftrightarrow> (\<exists>k. map_of acc k = Some t)" for t
    using acc(2) by (force simp: map_of_eq_Some_iff)
  have keys: "map_of acc k = Some t \<Longrightarrow> ts_Key t = k" for k t
    using acc(3) [of k] collected_None [of "with_key k ?es" t] hd_in_set [of "with_key k ?es"] by (auto simp: with_key_def)
  have "ascending ts_Key ?r"
  proof -
    have "ascending fst (sort_key fst acc)" using acc(2) by (rule ascending_sort_key)
    moreover have "ts_Key (snd x) = fst x" if "x \<in> set (sort_key fst acc)" for x
      using that acc(2) keys [of "fst x" "snd x"] by (simp add: map_of_eq_Some_iff)
    ultimately show ?thesis unfolding ascending_def sorted_wrt_map by (rule_tac sorted_wrt_mono_rel [rotated]) auto
  qed
  moreover have "map (\<lambda>(tags, key, f). (key, f)) (filter (\<lambda>(tags, key, f). tags = ts_Tags t) ?es) = zip (ts_SeriesKeys t) (ts_Filters t) \<and>
      ts_SeriesKeys t \<noteq> [] \<and> length (ts_Filters t) = length (ts_SeriesKeys t)" if t: "t \<in> set ?r" for t
  proof -
    obtain k where k: "map_of acc k = Some t" using t mem by blast
    let ?ws = "with_key k ?es"
    have c: "collected None ?ws = Some t" using k acc(3) by simp
    note C = collected_None [OF c]
    have hd: "hd ?ws \<in> set ?es" "MarshalTags (fst (hd ?ws)) = k" using hd_in_set [OF C(1)] by (auto simp: with_key_def)
    have "filter (\<lambda>(tags, key, f). tags = ts_Tags t) ?es = ?ws"
      unfolding with_key_def
    proof (rule filter_cong [OF refl])
      fix x assume "x \<in> set ?es"
      then show "(case x of (tags, key, f) \<Rightarrow> tags = ts_Tags t) = (case x of (tags, key, f) \<Rightarrow> MarshalTags tags = k)"
        using inj [of "fst x" "snd x" "fst (hd ?ws)" "snd (hd ?ws)"] hd C(2) by (auto simp: case_prod_beta)
    qed
    moreover have "map (\<lambda>(tags, key, f). (key, f)) ?ws = zip (map (fst \<circ> snd) ?ws) (map (snd \<circ> snd) ?ws)"
      by (induction ?ws) (auto simp: zip_map_map zip_same_conv_map)
    ultimately show ?thesis using C by simp
  qed
  moreover have "\<exists>s. ts_Tags t = dimension_tags dims s" if t: "t \<in> set ?r" for t
  proof -
    obtain k where "map_of acc k = Some t" using t mem by blast
    note C = collected_None [of "with_key k ?es" t, OF this [unfolded acc(3)]]
    have "hd (with_key k ?es) \<in> set ?es" using hd_in_set [OF C(1)] by (simp add: with_key_def)
    with entry [of "fst (hd (with_key k ?es))" "fst (snd (hd (with_key k ?es)))" "snd (snd (hd (with_key k ?es)))"] C(2) show ?thesis by auto
  qed
  moreover have "\<exists>t\<in>set ?r. ts_Tags t = tags" if e: "(tags, key, f) \<in> set ?es" for tags key f
  proof -
    let ?k = "MarshalTags tags"
    have w: "(tags, key, f) \<in> set (with_key ?k ?es)" using e by (simp add: with_key_def)
    then obtain t where t: "collected None (with_key ?k ?es) = Some t" by (cases "with_key ?k ?es") auto
    note C = collected_None [OF t]
    have "hd (with_key ?k ?es) \<in> set ?es" "MarshalTags (fst (hd (with_key ?k ?es))) = ?k" using hd_in_set [OF C(1)] by (auto simp: with_key_def)
    with inj [of "fst (hd (with_key ?k ?es))" "snd (hd (with_key ?k ?es))" tags "(key, f)"] e C(2) have "ts_Tags t = tags" by simp
    moreover have "t \<in> set ?r" using mem acc(3) [of ?k] t by auto
    ultimately show ?thesis by blast
  qed
  ultimately show ?thesis using assms(1,3) acc(1) by (intro exI [of _ ?r]) (auto simp: Measurement_TagSets_def)
qed

text \<open>A series belongs to a tag set if the set has its value, or the empty one, for every dimension.\<close>

definition in_tag_set :: "string list \<Rightarrow> Series \<Rightarrow> TagSet \<Rightarrow> bool" where
  "in_tag_set dims s t \<longleftrightarrow>
     (\<forall>k\<in>set dims. map_of (ts_Tags t) k = Some (case map_of (ser_Tags s) k of None \<Rightarrow> [] | Some v \<Rightarrow> v))"

lemma map_of_dimension_tags:
  "map_of (dimension_tags dims s) k =
     (if k \<in> set dims then Some (case map_of (ser_Tags s) k of None \<Rightarrow> [] | Some v \<Rightarrow> v) else None)"
  by (simp add: dimension_tags_def map_of_map_restrict)

lemma in_tag_set_iff:
  assumes "ts_Tags t = dimension_tags dims s0"
  shows "dimension_tags dims s = ts_Tags t \<longleftrightarrow> in_tag_set dims s t"
  unfolding assms in_tag_set_def by (auto simp: map_of_dimension_tags) (auto simp: dimension_tags_def)

lemma TagSets_correct:
  assumes "Measurement_filters re m cond = Inr fs" and known: "\<forall>(i, f) \<in> set fs. map_of (meas_seriesByID m) i \<noteq> None"
    and "\<forall>(i, s) \<in> set (meas_seriesByID m). no_bar dims s" and order: "mset (order fs) = mset fs"
  shows "\<exists>r. Measurement_TagSets order re m cond dims = Inr (Some r) \<and> ascending ts_Key r \<and>
    (\<forall>t\<in>set r. set (map fst (ts_Tags t)) = set dims \<and> ts_SeriesKeys t \<noteq> [] \<and> length (ts_Filters t) = length (ts_SeriesKeys t) \<and>
      mset (zip (ts_SeriesKeys t) (ts_Filters t)) =
        mset (map (\<lambda>(i, f). (ser_Key (the (map_of (meas_seriesByID m) i)), f))
          (filter (\<lambda>(i, f). in_tag_set dims (the (map_of (meas_seriesByID m) i)) t) fs))) \<and>
    (\<forall>(i, f) \<in> set fs. \<exists>t\<in>set r. in_tag_set dims (the (map_of (meas_seriesByID m) i)) t)"
proof -
  let ?s = "\<lambda>i. the (map_of (meas_seriesByID m) i)" and ?es = "entries m dims (order fs)"
  have so: "set (order fs) = set fs" using order by (rule mset_eq_setD)
  have k: "\<forall>(i, f) \<in> set (order fs). map_of (meas_seriesByID m) i \<noteq> None" using known unfolding so .
  obtain r where r: "Measurement_TagSets order re m cond dims = Inr (Some r)" "ascending ts_Key r"
      "\<forall>t\<in>set r. map (\<lambda>(tags, key, f). (key, f)) (filter (\<lambda>(tags, key, f). tags = ts_Tags t) ?es) = zip (ts_SeriesKeys t) (ts_Filters t) \<and>
        ts_SeriesKeys t \<noteq> [] \<and> length (ts_Filters t) = length (ts_SeriesKeys t)"
      "\<forall>t\<in>set r. \<exists>s. ts_Tags t = dimension_tags dims s" "\<forall>(tags, key, f) \<in> set ?es. \<exists>t\<in>set r. ts_Tags t = tags"
    using TagSets_entries [where order = order, OF assms(1) k refl assms(3)] by (elim exE conjE)
  note members = r(3) [rule_format, THEN conjunct1]
  have "set (map fst (ts_Tags t)) = set dims \<and>
      mset (zip (ts_SeriesKeys t) (ts_Filters t)) = mset (map (\<lambda>(i, f). (ser_Key (?s i), f)) (filter (\<lambda>(i, f). in_tag_set dims (?s i) t) fs))"
    if t: "t \<in> set r" for t
  proof -
    obtain s0 where s0: "ts_Tags t = dimension_tags dims s0" using r(4) t by blast
    have "map (\<lambda>(tags, key, f). (key, f)) (filter (\<lambda>(tags, key, f). tags = ts_Tags t) ?es) =
        map (\<lambda>(i, f). (ser_Key (?s i), f)) (filter (\<lambda>(i, f). dimension_tags dims (?s i) = ts_Tags t) (order fs))"
      by (simp add: entries_def filter_map comp_def case_prod_unfold Let_def)
    then have "zip (ts_SeriesKeys t) (ts_Filters t) = map (\<lambda>(i, f). (ser_Key (?s i), f)) (filter (\<lambda>(i, f). in_tag_set dims (?s i) t) (order fs))"
      unfolding members [OF t] in_tag_set_iff [OF s0] .
    moreover have "set (map fst (ts_Tags t)) = set dims" unfolding s0 by simp
    ultimately show ?thesis by (simp add: order)
  qed
  moreover have "\<exists>t\<in>set r. in_tag_set dims (?s i) t" if "(i, f) \<in> set fs" for i f
  proof -
    have "(dimension_tags dims (?s i), ser_Key (?s i), f) \<in> set ?es" using that so by (force simp: entries_def Let_def)
    from bspec [OF r(5) this] obtain t where t: "t \<in> set r" "ts_Tags t = dimension_tags dims (?s i)" by auto
    with in_tag_set_iff [OF t(2), of "?s i"] show ?thesis by auto
  qed
  ultimately show ?thesis using r(1-3) by (intro exI [of _ r]) auto
qed

section \<open>Selecting measurements\<close>

text \<open>
  What a condition says of a measurement, in terms of its series alone, and the conditions that are accepted.  A comparison with \<open>=\<close> or
  \<open>=~\<close> holds if some series has a tag with that key and a value that fits; one with \<open>!=\<close> or \<open>!~\<close> if some series has a tag with that key and none has one with a value
  that fits.
\<close>

definition some_series :: "string \<Rightarrow> (string \<Rightarrow> bool) \<Rightarrow> Measurement \<Rightarrow> bool" where
  "some_series k P m \<longleftrightarrow> (\<exists>s \<in> snd ` set (meas_seriesByID m). \<exists>v. map_of (ser_Tags s) k = Some v \<and> P v)"

definition comparison_sat :: "(string \<Rightarrow> string \<Rightarrow> bool) \<Rightarrow> Token \<Rightarrow> Expr \<Rightarrow> Expr \<Rightarrow> Measurement \<Rightarrow> bool" where
  "comparison_sat re op l r m \<longleftrightarrow>
     (\<exists>k v. l = VarRef k \<and> r = StringLiteral v \<and>
        (op = EQ \<and> some_series k (\<lambda>x. x = v) m \<or> op = NEQ \<and> some_series k (\<lambda>x. True) m \<and> \<not> some_series k (\<lambda>x. x = v) m)) \<or>
     (\<exists>k x. l = VarRef k \<and> r = RegexLiteral x \<and>
        (op = EQREGEX \<and> some_series k (re x) m \<or> op = NEQREGEX \<and> some_series k (\<lambda>x. True) m \<and> \<not> some_series k (re x) m))"

fun meas_sat :: "(string \<Rightarrow> string \<Rightarrow> bool) \<Rightarrow> Expr \<Rightarrow> Measurement \<Rightarrow> bool" where
  "meas_sat re (BinaryExpr op l r) m =
     (if op = LAND then meas_sat re l m \<and> meas_sat re r m
      else if op = LOR then meas_sat re l m \<or> meas_sat re r m
      else comparison_sat re op l r m)"
| "meas_sat re (ParenExpr e) m = meas_sat re e m"
| "meas_sat re _ m = False"

fun tag_condition :: "Expr \<Rightarrow> bool" where
  "tag_condition (BinaryExpr op l r) =
     (if op = LAND \<or> op = LOR then tag_condition l \<and> tag_condition r
      else op \<in> {EQ, NEQ} \<and> (\<exists>k v. l = VarRef k \<and> r = StringLiteral v) \<or>
           op \<in> {EQREGEX, NEQREGEX} \<and> (\<exists>k x. l = VarRef k \<and> r = RegexLiteral x))"
| "tag_condition (ParenExpr e) = tag_condition e"
| "tag_condition _ = False"

lemma indexed_value_iff:
  assumes "meas_wf m"
  shows "v \<in> fst ` set (get_list k (meas_seriesByTagKeyValue m)) \<longleftrightarrow> some_series k (\<lambda>x. x = v) m"
proof -
  let ?idx = "meas_seriesByTagKeyValue m"
  have W: "idx_wf ?idx" using assms by (simp add: meas_wf_def)
  have dist: "distinct (map fst (meas_seriesByID m))" using assms by (simp add: meas_wf_def)
  have "v \<in> fst ` set (get_list k ?idx) \<longleftrightarrow> tag_ids ?idx k v \<noteq> []"
  proof
    assume "v \<in> fst ` set (get_list k ?idx)"
    then obtain ids where i: "(v, ids) \<in> set (get_list k ?idx)" by auto
    then have "tag_ids ?idx k v = ids" using idx_wf_values(1) [OF W] by (simp add: tag_ids_def get_list_def [of v])
    with idx_wf_values(2) [OF W i] show "tag_ids ?idx k v \<noteq> []" by simp
  next
    assume "tag_ids ?idx k v \<noteq> []"
    then show "v \<in> fst ` set (get_list k ?idx)"
      by (auto simp: tag_ids_def get_list_def [of v] split: option.splits dest: map_of_SomeD intro: rev_image_eqI)
  qed
  also have "\<dots> \<longleftrightarrow> (\<exists>i. i \<in> set (tag_ids ?idx k v))" by (cases "tag_ids ?idx k v") auto
  also have "\<dots> \<longleftrightarrow> (\<exists>i s. map_of (meas_seriesByID m) i = Some s \<and> map_of (ser_Tags s) k = Some v)"
    using assms by (simp add: meas_wf_def)
  also have "\<dots> \<longleftrightarrow> some_series k (\<lambda>x. x = v) m"
    unfolding some_series_def map_of_eq_Some_iff [OF dist] by force
  finally show ?thesis .
qed

lemma some_series_iff:
  assumes "meas_wf m"
  shows "some_series k P m \<longleftrightarrow> list_ex P (map fst (get_list k (meas_seriesByTagKeyValue m)))"
proof -
  have "some_series k P m \<longleftrightarrow> (\<exists>v. some_series k (\<lambda>x. x = v) m \<and> P v)" by (auto simp: some_series_def)
  then show ?thesis unfolding indexed_value_iff [OF assms, symmetric] list_ex_iff by auto
qed

lemma filter_matches_iff:
  assumes "meas_wf m"
  shows "filter_matches re f m \<longleftrightarrow>
    (let P = (if tf_Op f = EQ \<or> tf_Op f = NEQ then (\<lambda>x. x = tf_Value f) else re (tf_Regex f)) in
     if tf_Op f = EQ \<or> tf_Op f = EQREGEX then some_series (tf_Key f) P m
     else some_series (tf_Key f) (\<lambda>x. True) m \<and> \<not> some_series (tf_Key f) P m)"
proof (cases "map_of (meas_seriesByTagKeyValue m) (tf_Key f)")
  case None
  then show ?thesis unfolding some_series_iff [OF assms] by (simp add: filter_matches_def get_list_def)
next
  case (Some vals)
  have "vals_wf vals" using assms map_of_SomeD [OF Some] by (auto simp: meas_wf_def idx_wf_def)
  then have ne: "list_ex (\<lambda>x. True) (map fst vals)" by (cases vals) (simp_all add: vals_wf_def)
  have g: "get_list (tf_Key f) (meas_seriesByTagKeyValue m) = vals" using Some by (simp add: get_list_def)
  show ?thesis unfolding some_series_iff [OF assms] g using ne Some by (auto simp: filter_matches_def Let_def list_ex_iff) force+
qed

lemma comparison_sat_iff:
  assumes "meas_wf m" and "comparison_filter op l r = Inr f" and "op \<in> {EQ, NEQ, EQREGEX, NEQREGEX}"
  shows "comparison_sat re op l r m \<longleftrightarrow> filter_matches re f m"
  using assms(2,3) unfolding filter_matches_iff [OF assms(1)] comparison_filter_def
  by (auto simp: comparison_sat_def Let_def split: Expr.splits if_splits)

lemma comparison_filter_iff:
  assumes "op \<in> {EQ, NEQ, EQREGEX, NEQREGEX}"
  shows "(\<exists>f. comparison_filter op l r = Inr f) \<longleftrightarrow>
    op \<in> {EQ, NEQ} \<and> (\<exists>k v. l = VarRef k \<and> r = StringLiteral v) \<or>
    op \<in> {EQREGEX, NEQREGEX} \<and> (\<exists>k x. l = VarRef k \<and> r = RegexLiteral x)"
  using assms unfolding comparison_filter_def by (cases l; cases r) auto

lemma Measurements_wf:
  assumes "index_wf d" and "m \<in> set (DatabaseIndex_Measurements d)"
  shows "meas_wf m"
proof -
  have M: "measurements_wf d" using assms(1) by (rule index_wfD)
  then have D: "distinct (map fst (ix_measurements d))" by (simp add: measurements_wf_def)
  from assms(2) obtain n a where "(n, a) \<in> set (ix_measurements d)" "m = ix_heap d ! a"
    by (auto simp: DatabaseIndex_Measurements_def)
  with measurement_at(3) [OF M map_of_is_SomeI [OF D]] show ?thesis by simp
qed

lemma names_distinct:
  assumes "index_wf d"
  shows "distinct (map meas_Name (DatabaseIndex_Measurements d))"
proof -
  have M: "measurements_wf d" using assms by (rule index_wfD)
  then have D: "distinct (map fst (ix_measurements d))" by (simp add: measurements_wf_def)
  have "meas_Name (ix_heap d ! a) = n" if "(n, a) \<in> set (ix_measurements d)" for n a
    using measurement_at(1) [OF M] map_of_is_SomeI [OF D that] by blast
  then have "map meas_Name (DatabaseIndex_Measurements d) = map fst (ix_measurements d)"
    by (auto simp: DatabaseIndex_Measurements_def)
  with D show ?thesis by simp
qed

lemma measurementsByExpr_correct:
  assumes "index_wf d" and "tag_condition e"
  shows "\<exists>ms. DatabaseIndex_measurementsByExpr re d e = Inr ms \<and> ascending meas_Name ms \<and>
    set ms = {m \<in> set (DatabaseIndex_Measurements d). meas_sat re e m}"
proof -
  let ?U = "set (DatabaseIndex_Measurements d)"
  note D = names_distinct [OF assms(1)]
  have L: "sorted_sets meas_Name Measurements_intersect Measurements_union ?U"
    unfolding Measurements_intersect_def Measurements_union_def using D by (intro loops_sorted_sets) (simp add: distinct_map)
  note S = sorted_sets.slice_inter [OF L] sorted_sets.slice_union [OF L] and sl = sorted_sets.slice_def [OF L]
  have "\<exists>ms. DatabaseIndex_measurementsByExpr re d e = Inr ms \<and> sorted_sets.slice meas_Name ?U ms \<and> set ms = {m \<in> ?U. meas_sat re e m}"
    using assms(2)
  proof (induction e)
    case (BinaryExpr op l r)
    show ?case
    proof (cases "op = LAND \<or> op = LOR")
      case True
      with BinaryExpr obtain ls rs where ls: "DatabaseIndex_measurementsByExpr re d l = Inr ls" "sorted_sets.slice meas_Name ?U ls" "set ls = {m \<in> ?U. meas_sat re l m}"
        and rs: "DatabaseIndex_measurementsByExpr re d r = Inr rs" "sorted_sets.slice meas_Name ?U rs" "set rs = {m \<in> ?U. meas_sat re r m}" by auto
      from True S [OF ls(2) rs(2)] ls(1,3) rs(1,3) show ?thesis by auto
    next
      case False
      with BinaryExpr.prems have op: "op \<in> {EQ, NEQ, EQREGEX, NEQREGEX}" by auto
      with BinaryExpr.prems False obtain f where f: "comparison_filter op l r = Inr f"
        using comparison_filter_iff [OF op, of l r] by auto
      let ?ms = "filter (filter_matches re f) (DatabaseIndex_Measurements d)"
      have "ascending meas_Name (sort_key meas_Name ?ms)" by (rule ascending_sort_key) (rule distinct_map_filter [OF D])
      moreover have "filter_matches re f m = comparison_sat re op l r m" if "m \<in> ?U" for m
        using comparison_sat_iff [OF Measurements_wf [OF assms(1) that] f op] by simp
      ultimately show ?thesis using f op False by (auto simp: DatabaseIndex_measurementsByTagFilters_def sl)
    qed
  qed auto
  then show ?thesis unfolding sl by blast
qed

lemma measurementsByExpr_error:
  "\<not> tag_condition e \<Longrightarrow> \<exists>x. DatabaseIndex_measurementsByExpr re d e = Inl x"
proof (induction e)
  case (BinaryExpr op l r)
  show ?case
  proof (cases "op \<in> {EQ, NEQ, EQREGEX, NEQREGEX}")
    case True
    with BinaryExpr.prems have "\<not> (\<exists>f. comparison_filter op l r = Inr f)"
      unfolding comparison_filter_iff [OF True] by auto
    with True show ?thesis by (cases "comparison_filter op l r") auto
  next
    case False
    with BinaryExpr show ?thesis
      by (cases "DatabaseIndex_measurementsByExpr re d l"; cases "DatabaseIndex_measurementsByExpr re d r") (auto split: if_splits)
  qed
qed auto

end
