(* ===== verification/Index_Props.thy ===== *)
theory Index_Props
  imports Index_Spec Index_Tags Query_Props
begin

text \<open>
  The properties of the index of a database: it implements the catalogue of its series, a condition selects the series and points
  that satisfy it, and series and measurements are grouped and listed by their tags.
\<close>

section \<open>A small measurement\<close>

definition cpu_op :: "string \<Rightarrow> index_op" where
  "cpu_op h = OpCreateSeries ''cpu'' (''cpu,host='' @ h) [(''host'', h)]"

definition cpu_ops :: "index_op list" where
  "cpu_ops = [cpu_op ''a'', cpu_op ''b'', OpCreateField ''cpu'' ''load'', cpu_op ''c'', OpDropSeries [''cpu,host=c'']]"

definition cpu_index :: DatabaseIndex where
  "cpu_index = the (index_run cpu_ops NewDatabaseIndex)"

definition cpu_meas :: Measurement where
  "cpu_meas = the (DatabaseIndex_Measurement ''cpu'' cpu_index)"

text \<open>\<open>host = 'a' OR load > 5\<close> and \<open>host = 'a' AND load > 5\<close>.\<close>

definition host_load :: "Token \<Rightarrow> Expr" where
  "host_load op = BinaryExpr op (BinaryExpr EQ (VarRef ''host'') (StringLiteral ''a''))
     (BinaryExpr GT (VarRef ''load'') (NumberLiteral 0x4014000000000000))"

definition load_type :: "string \<rightharpoonup> ty" where
  "load_type = [''load'' \<mapsto> TInt]"

lemma lastID_New [simp]: "ix_lastID NewDatabaseIndex = 0"
  by (simp add: NewDatabaseIndex_def)

lemma cpu_run: "index_run cpu_ops NewDatabaseIndex = Some cpu_index"
  unfolding cpu_index_def by (rule option.collapse [symmetric]) code_simp

lemma cpu_found: "DatabaseIndex_Measurement ''cpu'' cpu_index = Some cpu_meas"
  unfolding cpu_meas_def by (rule option.collapse [symmetric]) code_simp

lemma cpu_wf: "index_wf cpu_index"
proof -
  have "list_all op_ok cpu_ops" by code_simp
  then show ?thesis
    using index_run_refines [OF index_wf_New, of cpu_ops] cpu_run by (simp add: cpu_ops_def)
qed

section \<open>Properties\<close>

text \<open>
  C2. Any sequence of operations on a new index (creating series and fields, dropping series and measurements, marking shards)
  succeeds and leaves a well-formed index that holds what the same operations make of the catalogue.  For every measurement the tag
  index then lists exactly the series whose tags have the value, and the measurement of every series is found by its name.
\<close>

theorem index_refines:
  assumes "list_all op_ok ops" and "length ops < 2 ^ 64"
  shows "\<exists>d. index_run ops NewDatabaseIndex = Some d \<and> index_wf d \<and> catalogue d = fold spec_apply ops Map.empty \<and>
    (\<forall>key n T. catalogue d key = Some (n, T) \<longrightarrow> (\<exists>m. DatabaseIndex_Measurement n d = Some m)) \<and>
    (\<forall>n m k v key. DatabaseIndex_Measurement n d = Some m \<longrightarrow>
      ((\<exists>i s. i \<in> set (tag_ids (meas_seriesByTagKeyValue m) k v) \<and> Measurement_SeriesByID i m = Some s \<and> ser_Key s = key) \<longleftrightarrow>
       (\<exists>T. catalogue d key = Some (n, T) \<and> T k = Some v)))"
proof -
  obtain d where d: "index_run ops NewDatabaseIndex = Some d" "index_wf d" "catalogue d = fold spec_apply ops Map.empty"
    using index_run_refines [OF index_wf_New assms(1)] assms(2) by (auto simp: catalogue_New)
  show ?thesis
    by (intro exI [of _ d] conjI allI impI d) (fact catalogue_measurement [OF d(2)], fact tag_index_catalogue [OF d(2)])
qed

theorem index_refines_witness:
  "\<exists>d. index_run cpu_ops NewDatabaseIndex = Some d \<and> catalogue d ''cpu,host=a'' = Some (''cpu'', [''host'' \<mapsto> ''a'']) \<and> catalogue d ''cpu,host=c'' = None"
proof -
  have "list_all op_ok cpu_ops" "length cpu_ops < 2 ^ 64" by (simp_all add: cpu_ops_def cpu_op_def)
  from index_refines [OF this]
  obtain d where d: "index_run cpu_ops NewDatabaseIndex = Some d" "catalogue d = fold spec_apply cpu_ops Map.empty"
    by (elim exE conjE)
  have n: "escape_UnescapeString ''cpu'' = ''cpu''" by code_simp
  show ?thesis using d by (simp add: cpu_ops_def cpu_op_def n)
qed

text \<open>
  C8. A condition of a query is answered correctly.  For a condition in which every comparison has a reference and comparisons of
  fields are well-typed, the filters select, for a point with given fields, at least the series of the catalogue for which the
  condition holds of the tags and the fields, and only series of the measurement.  If no disjunction mixes tags and fields, they
  select exactly those.
\<close>

theorem where_clause:
  assumes "index_wf d" and "DatabaseIndex_Measurement n d = Some m" and "where_ok m G c"
  shows "\<exists>fs. Measurement_filters re m (Some c) = Inr fs \<and> (\<forall>i f. (i, f) \<in> set fs \<longrightarrow> Measurement_SeriesByID i m \<noteq> None) \<and>
    (\<forall>flds. conforms G flds \<longrightarrow>
      {key. \<exists>T. catalogue d key = Some (n, T) \<and> sat re m T flds c} \<subseteq> {ser_Key s | i s. Measurement_SeriesByID i m = Some s \<and> passes fs i flds} \<and>
      (unmixed m c \<longrightarrow>
        {ser_Key s | i s. Measurement_SeriesByID i m = Some s \<and> passes fs i flds} = {key. \<exists>T. catalogue d key = Some (n, T) \<and> sat re m T flds c}))"
proof -
  obtain fs where fs: "Measurement_filters re m (Some c) = Inr fs"
    "\<forall>i s flds. Measurement_SeriesByID i m = Some s \<longrightarrow> conforms G flds \<longrightarrow>
      (sat re m (map_of (ser_Tags s)) flds c \<longrightarrow> passes fs i flds) \<and> (unmixed m c \<longrightarrow> passes fs i flds \<longrightarrow> sat re m (map_of (ser_Tags s)) flds c)"
    "\<forall>i. Measurement_SeriesByID i m = None \<longrightarrow> map_of fs i = None"
    by (rule filters_correct [OF measurement_wf [OF assms(1,2)] assms(3), of re])
  have want: "{key. \<exists>T. catalogue d key = Some (n, T) \<and> sat re m T flds c} =
      {ser_Key s | i s. Measurement_SeriesByID i m = Some s \<and> sat re m (map_of (ser_Tags s)) flds c}" for flds
    unfolding series_catalogue [OF assms(1,2), symmetric] by blast
  have "\<forall>i f. (i, f) \<in> set fs \<longrightarrow> Measurement_SeriesByID i m \<noteq> None"
    using fs(3) weak_map_of_SomeI by fastforce
  moreover note fs(1)
  moreover have "{key. \<exists>T. catalogue d key = Some (n, T) \<and> sat re m T flds c} \<subseteq> {ser_Key s | i s. Measurement_SeriesByID i m = Some s \<and> passes fs i flds} \<and>
      (unmixed m c \<longrightarrow>
        {ser_Key s | i s. Measurement_SeriesByID i m = Some s \<and> passes fs i flds} = {key. \<exists>T. catalogue d key = Some (n, T) \<and> sat re m T flds c})"
    if "conforms G flds" for flds
    unfolding want using fs(2) that by blast
  ultimately show ?thesis by (intro exI [of _ fs]) simp
qed

lemma cpu_where_ok: "where_ok cpu_meas load_type (host_load LAND)" "unmixed cpu_meas (host_load LAND)"
  and cpu_where_ok_or: "where_ok cpu_meas load_type (host_load LOR)" "\<not> unmixed cpu_meas (host_load LOR)"
proof -
  have "Measurement_HasField ''load'' cpu_meas" "\<not> Measurement_HasField ''host'' cpu_meas" by code_simp+
  then show "where_ok cpu_meas load_type (host_load LAND)" "unmixed cpu_meas (host_load LAND)"
    "where_ok cpu_meas load_type (host_load LOR)" "\<not> unmixed cpu_meas (host_load LOR)"
    by (simp_all add: host_load_def load_type_def is_condition_def ref_and_value_def is_time_ref_def atom_kind_def
        is_time_literal_def comparison_def arithmetic_def to_lower_def)
qed

theorem where_clause_witness:
  "\<exists>fs. Measurement_filters (\<lambda>x y. False) cpu_meas (Some (host_load LAND)) = Inr fs \<and>
    (\<forall>flds. conforms load_type flds \<longrightarrow>
        {ser_Key s | i s. Measurement_SeriesByID i cpu_meas = Some s \<and> passes fs i flds} =
        {key. \<exists>T. catalogue cpu_index key = Some (''cpu'', T) \<and> sat (\<lambda>x y. False) cpu_meas T flds (host_load LAND)})"
proof -
  note W = where_clause [OF cpu_wf cpu_found cpu_where_ok(1), of "\<lambda>x y. False"]
  show ?thesis by (rule ex_forward [OF W]) (simp add: cpu_where_ok(2))
qed

text \<open>
  With a disjunction of a tag and a field the filter of a series that fails the comparison of the tag is taken to be true: a point
  of host \<open>b\<close> with load 1 passes \<open>host = 'a' OR load > 5\<close>.
\<close>

lemma five_to_int: "f64_to_int 0x4014000000000000 = 5"
  by (simp add: f64_eval)

lemma or_ignores_filter:
  "Measurement_filters re cpu_meas (Some (host_load LOR)) = Inr [(1, None), (2, None)] \<and>
   Measurement_SeriesByID 2 cpu_meas = Some \<lparr>ser_Key = ''cpu,host=b'', ser_Tags = [(''host'', ''b'')], ser_id = 2, ser_measurement = Some 0, ser_shardIDs = []\<rparr> \<and>
   passes [(1, None), (2, None)] 2 [''load'' \<mapsto> VInt 1] \<and>
   \<not> sat re cpu_meas [''host'' \<mapsto> ''b''] [''load'' \<mapsto> VInt 1] (host_load LOR)"
proof -
  have "Measurement_filters re cpu_meas (Some (host_load LOR)) = Inr [(1, None), (2, None)]" by code_simp
  moreover have "Measurement_SeriesByID 2 cpu_meas = Some \<lparr>ser_Key = ''cpu,host=b'', ser_Tags = [(''host'', ''b'')], ser_id = 2, ser_measurement = Some 0, ser_shardIDs = []\<rparr>"
    by code_simp
  moreover have "Measurement_HasField ''load'' cpu_meas" "\<not> Measurement_HasField ''host'' cpu_meas" by code_simp+
  ultimately show ?thesis
    by (simp add: passes_def host_load_def atom_sat_def ref_and_value_def is_time_literal_def
        EvalBool_def evalBinaryExpr_def eval_ints_def as_float_def as_bool_def five_to_int)
qed

text \<open>An arithmetic expression as the condition stores a filter into a nil map.\<close>

lemma arithmetic_condition_panics:
  "Measurement_filters re cpu_meas (Some (BinaryExpr ADD (VarRef ''load'') (NumberLiteral x))) = Inl PanicNilMap"
  by code_simp

text \<open>A tag that no series has differs from every value, but the comparison selects nothing.\<close>

lemma unknown_tag_selects_nothing:
  "Measurement_filters re cpu_meas (Some (BinaryExpr NEQ (VarRef ''region'') (StringLiteral ''x''))) = Inr []"
  by code_simp

text \<open>The measurement of a key with an escaped comma in its name is not found again.\<close>

lemma escaped_comma_renames:
  "MeasurementFromSeriesKey (''a'' @ [CHR 0x5C] @ '',b,host=x'') = ''a'' @ [CHR 0x5C]"
  by code_simp

text \<open>
  C37. Grouping by tags.  In whatever order the series are visited, the tag sets of a query, in strictly increasing order of their keys,
  divide the selected series by the values of the dimensions: each set has exactly the dimensions as its tags, its members are, once each and with their filters, exactly the selected
  series that have its values (the empty one for a missing tag), none is empty, and every selected series is in one.  The values must not
  contain the separator; \<open>bar_joins_tag_sets\<close> shows what happens otherwise.
\<close>

theorem tag_sets:
  assumes "meas_wf m" and "where_ok m G c" and "\<forall>(i, s) \<in> set (meas_seriesByID m). no_bar dims s" and "\<forall>fs. mset (order fs) = mset fs"
  shows "\<exists>fs r. Measurement_filters re m (Some c) = Inr fs \<and> distinct (map fst fs) \<and>
    Measurement_TagSets order re m (Some c) dims = Inr (Some r) \<and> ascending ts_Key r \<and>
    (\<forall>t\<in>set r. set (map fst (ts_Tags t)) = set dims \<and> ts_SeriesKeys t \<noteq> [] \<and> length (ts_Filters t) = length (ts_SeriesKeys t) \<and>
      mset (zip (ts_SeriesKeys t) (ts_Filters t)) =
        mset (map (\<lambda>(i, f). (ser_Key (the (map_of (meas_seriesByID m) i)), f))
          (filter (\<lambda>(i, f). in_tag_set dims (the (map_of (meas_seriesByID m) i)) t) fs))) \<and>
    (\<forall>(i, f) \<in> set fs. \<exists>t\<in>set r. in_tag_set dims (the (map_of (meas_seriesByID m) i)) t)"
proof -
  obtain fs where fs: "Measurement_filters re m (Some c) = Inr fs" "\<forall>i. Measurement_SeriesByID i m = None \<longrightarrow> map_of fs i = None" "distinct (map fst fs)"
    by (rule filters_correct [OF assms(1,2), of re])
  have known: "\<forall>(i, f) \<in> set fs. map_of (meas_seriesByID m) i \<noteq> None"
    using fs(2) weak_map_of_SomeI by (fastforce simp: Measurement_SeriesByID_def)
  show ?thesis
    using TagSets_correct [OF fs(1) known assms(3), of order] assms(4) fs(1,3) by (elim exE impE allE) (intro exI [of _ fs], simp)
qed

theorem tag_sets_witness:
  "\<exists>r. Measurement_TagSets rev (\<lambda>x y. False) cpu_meas (Some (host_load LOR)) [''host''] = Inr (Some r) \<and> ascending ts_Key r \<and>
    (\<exists>t\<in>set r. in_tag_set [''host''] (the (map_of (meas_seriesByID cpu_meas) 1)) t) \<and>
    (\<exists>t\<in>set r. in_tag_set [''host''] (the (map_of (meas_seriesByID cpu_meas) 2)) t)"
proof -
  let ?F = "\<lambda>x y :: string. False"
  have "meas_seriesByID cpu_meas = [(1, \<lparr>ser_Key = ''cpu,host=a'', ser_Tags = [(''host'', ''a'')], ser_id = 1, ser_measurement = Some 0, ser_shardIDs = []\<rparr>),
      (2, \<lparr>ser_Key = ''cpu,host=b'', ser_Tags = [(''host'', ''b'')], ser_id = 2, ser_measurement = Some 0, ser_shardIDs = []\<rparr>)]"
    by code_simp
  then have nb: "\<forall>(i, s) \<in> set (meas_seriesByID cpu_meas). no_bar [''host''] s" by (simp add: no_bar_def)
  have rv: "\<forall>fs :: FilterExprs. mset (rev fs) = mset fs" by simp
  obtain fs r where fs: "Measurement_filters ?F cpu_meas (Some (host_load LOR)) = Inr fs"
    and r: "Measurement_TagSets rev ?F cpu_meas (Some (host_load LOR)) [''host''] = Inr (Some r)" "ascending ts_Key r"
      "\<forall>(i, f) \<in> set fs. \<exists>t\<in>set r. in_tag_set [''host''] (the (map_of (meas_seriesByID cpu_meas) i)) t"
    using tag_sets [OF measurement_wf [OF cpu_wf cpu_found] cpu_where_ok_or(1) nb rv, of ?F] by (elim exE conjE)
  have "case Measurement_filters ?F cpu_meas (Some (host_load LOR)) of Inl e \<Rightarrow> False | Inr fs \<Rightarrow> map_of fs 1 \<noteq> None \<and> map_of fs 2 \<noteq> None"
    by code_simp
  then obtain f g where "(1, f) \<in> set fs" "(2, g) \<in> set fs" by (auto simp: fs dest: map_of_SomeD)
  with r show ?thesis by (intro exI [of _ r]) blast
qed

text \<open>
  C38. Listing measurements by a condition on tags.  A condition built from comparisons of tag keys with strings or regular
  expressions by \<open>AND\<close>, \<open>OR\<close> and parentheses returns, in strictly increasing order of their names, exactly the measurements of the
  index whose series satisfy it; every other condition is an error.
\<close>

theorem measurements_by_expr:
  assumes "index_wf d"
  shows "case DatabaseIndex_measurementsByExpr re d e of
      Inl x \<Rightarrow> \<not> tag_condition e
    | Inr ms \<Rightarrow> tag_condition e \<and> ascending meas_Name ms \<and> set ms = {m \<in> set (DatabaseIndex_Measurements d). meas_sat re e m}"
  using measurementsByExpr_correct [OF assms, of e re] measurementsByExpr_error [of e re d] by (cases "tag_condition e") auto

theorem measurements_by_expr_witness:
  "\<exists>ms. DatabaseIndex_measurementsByExpr (\<lambda>x y. False) cpu_index (BinaryExpr NEQ (VarRef ''host'') (StringLiteral ''c'')) = Inr ms \<and>
    cpu_meas \<in> set ms"
proof -
  let ?e = "BinaryExpr NEQ (VarRef ''host'') (StringLiteral ''c'')"
  have m: "cpu_meas \<in> set (DatabaseIndex_Measurements cpu_index)" by code_simp
  have s: "meas_seriesByID cpu_meas = [(1, \<lparr>ser_Key = ''cpu,host=a'', ser_Tags = [(''host'', ''a'')], ser_id = 1, ser_measurement = Some 0, ser_shardIDs = []\<rparr>),
      (2, \<lparr>ser_Key = ''cpu,host=b'', ser_Tags = [(''host'', ''b'')], ser_id = 2, ser_measurement = Some 0, ser_shardIDs = []\<rparr>)]"
    by code_simp
  have "tag_condition ?e" "meas_sat (\<lambda>x y. False) ?e cpu_meas" by (simp_all add: comparison_sat_def some_series_def s)
  with measurements_by_expr [OF cpu_wf, where re = "\<lambda>x y. False" and e = ?e] m show ?thesis by (auto split: sum.splits)
qed

text \<open>
  C39. The operations on slices of series IDs.  On strictly increasing slices \<open>Intersect\<close>, \<open>Union\<close> and \<open>Reject\<close> return the
  strictly increasing slice of the intersection, the union and the difference, and \<open>Equals\<close> compares the sets.
\<close>

theorem series_id_sets:
  assumes "asc l" and "asc r"
  shows "SeriesIDs_Intersect l r = sorted_list_of_set (set l \<inter> set r) \<and> SeriesIDs_Union l r = sorted_list_of_set (set l \<union> set r) \<and>
    SeriesIDs_Reject l r = sorted_list_of_set (set l - set r) \<and> (SeriesIDs_Equals l r \<longleftrightarrow> set l = set r)"
proof -
  have S: "ids.slice l" "ids.slice r" using assms by (simp_all add: ids.slice_def)
  have asc: "xs = sorted_list_of_set X" if "ids.slice xs \<and> set xs = X" for xs X
  proof -
    have "sorted_wrt (<) (sorted_list_of_set X)" by (rule strict_sorted_list_of_set)
    then have "ids.slice (sorted_list_of_set X)" by (simp add: ids.slice_def ascending_def)
    with that show ?thesis by (intro ids.slice_eq) auto
  qed
  have "SeriesIDs_Equals l r \<longleftrightarrow> set l = set r" using ids.slice_eq [OF S] by (auto simp: SeriesIDs_Equals_iff)
  with asc [OF ids.slice_inter [OF S]] asc [OF ids.slice_union [OF S]] asc [OF ids.slice_diff [OF S]] show ?thesis by simp
qed

theorem series_id_sets_witness:
  "SeriesIDs_Union [1, 3, 5] [3, 4] = sorted_list_of_set (set [1, 3, 5] \<union> set [3, 4]) \<and> SeriesIDs_Union [1, 3, 5] [3, 4] = [1, 3, 4, 5]"
proof -
  have "asc [1, 3, 5]" "asc [3, 4]" by simp_all
  from series_id_sets [OF this] have "SeriesIDs_Union [1, 3, 5] [3, 4] = sorted_list_of_set (set [1, 3, 5] \<union> set [3, 4])" by (elim conjE)
  moreover have "SeriesIDs_Union [1, 3, 5] [3, 4] = [1, 3, 4, 5]" by code_simp
  ultimately show ?thesis ..
qed

end
