(* ===== verification/Shard_Fields.thy ===== *)
theory Shard_Fields
  imports Models_Point Cluster_Rpc
begin

text \<open>
  The fields of a measurement in a shard (\<open>tsdb/shard.go\<close>): their types and IDs, and the codec that turns the values of a point into
  bytes and back.  A panic is a constructor of the errors.
\<close>

unbundle bit_operations_syntax

section \<open>Types and fields\<close>

datatype DataType = Unknown | Float | Integer | Boolean | String | Time | Duration

definition InspectDataType :: "field_value \<Rightarrow> DataType" where
  "InspectDataType v =
     (case v of FFloat f \<Rightarrow> Float | FInt i \<Rightarrow> Integer | FBool b \<Rightarrow> Boolean | FString s \<Rightarrow> String | _ \<Rightarrow> Unknown)"

record Field =
  fld_ID :: byte
  fld_Name :: string
  fld_Type :: DataType

record FieldCodec =
  fc_fieldsByID :: "(byte \<times> Field) list"
  fc_fieldsByName :: "(string \<times> Field) list"

record MeasurementFields =
  mf_Fields :: "(string \<times> Field) list"
  mf_Codec :: "FieldCodec option"

datatype field_error = ErrFieldOverflow | ErrFieldTypeConflict | ErrFieldNotFound | ErrFieldUnmappedID | MappedAs DataType
  | PanicNoField | PanicEncodeType | PanicDecode

definition NewFieldCodec :: "(string \<times> Field) list \<Rightarrow> FieldCodec" where
  "NewFieldCodec flds =
     \<lparr>fc_fieldsByID = fold (\<lambda>(k, f). AList.update (fld_ID f) f) flds [],
      fc_fieldsByName = fold (\<lambda>(k, f). AList.update (fld_Name f) f) flds []\<rparr>"

definition MeasurementFields_CreateFieldIfNotExists ::
    "string \<Rightarrow> DataType \<Rightarrow> bool \<Rightarrow> MeasurementFields \<Rightarrow> field_error + MeasurementFields" where
  "MeasurementFields_CreateFieldIfNotExists name typ limitCount m =
     (case map_of (mf_Fields m) name of
        Some f \<Rightarrow> if fld_Type f \<noteq> typ then Inl ErrFieldTypeConflict else Inr m
      | None \<Rightarrow>
          if length (mf_Fields m) + 1 > 255 \<and> limitCount then Inl ErrFieldOverflow
          else
            let f = \<lparr>fld_ID = of_nat (length (mf_Fields m) + 1), fld_Name = name, fld_Type = typ\<rparr>;
                flds = AList.update name f (mf_Fields m)
            in Inr (m\<lparr>mf_Fields := flds, mf_Codec := Some (NewFieldCodec flds)\<rparr>))"

section \<open>The codec\<close>

definition PutUint16 :: "16 word \<Rightarrow> byte list" where
  "PutUint16 v = [ucast (drop_bit 8 v), ucast v]"

definition Uint16 :: "byte list \<Rightarrow> 16 word" where
  "Uint16 b = ucast (b ! 1) OR push_bit 8 (ucast (b ! 0))"

definition maxStringLength :: nat where
  "maxStringLength = 64 * 1024"

text \<open>The bytes of a value behind the ID of its field; \<open>None\<close> is the panic on other types.\<close>

definition encode_value :: "DataType \<Rightarrow> field_value \<Rightarrow> byte list option" where
  "encode_value t v =
     (case (t, v) of
        (Float, FFloat f) \<Rightarrow> Some (PutUint64 f)
      | (Integer, FInt i) \<Rightarrow> Some (PutUint64 (word_of_int i))
      | (Boolean, FBool b) \<Rightarrow> Some [if b then 1 else 0]
      | (String, FString s) \<Rightarrow>
          let s = take maxStringLength s in Some (PutUint16 (of_nat (length s)) @ bytes_of s)
      | _ \<Rightarrow> None)"

fun FieldCodec_EncodeFields :: "FieldCodec \<Rightarrow> Fields \<Rightarrow> field_error + byte list" where
  "FieldCodec_EncodeFields c [] = Inr []"
| "FieldCodec_EncodeFields c ((k, v) # vs) =
     (case map_of (fc_fieldsByName c) k of
        None \<Rightarrow> Inl PanicNoField
      | Some f \<Rightarrow>
          if InspectDataType v \<noteq> fld_Type f then Inl (MappedAs (fld_Type f))
          else
            (case encode_value (fld_Type f) v of
               None \<Rightarrow> Inl PanicEncodeType
             | Some buf \<Rightarrow>
                 (case FieldCodec_EncodeFields c vs of Inl e \<Rightarrow> Inl e | Inr b \<Rightarrow> Inr (fld_ID f # buf @ b))))"

text \<open>
  The value at the start of the bytes and how many bytes it takes, with its ID; \<open>None\<close> is a panic on the bounds of a slice.  The
  size of a string and the end of it are 16 bits wide.
\<close>

definition decode_value :: "DataType \<Rightarrow> byte list \<Rightarrow> (field_value \<times> nat) option" where
  "decode_value t b =
     (case t of
        Float \<Rightarrow> if length b < 9 then None else Some (FFloat (Uint64 (drop 1 b)), 9)
      | Integer \<Rightarrow> if length b < 9 then None else Some (FInt (sint (Uint64 (drop 1 b))), 9)
      | Boolean \<Rightarrow> if length b < 2 then None else Some (FBool (b ! 1 = 1), 2)
      | String \<Rightarrow>
          if length b < 3 then None
          else
            let stop = unat (Uint16 (drop 1 b) + 3) in
            if stop < 3 \<or> length b < stop then None
            else Some (FString (string_of (take (stop - 3) (drop 3 b))), stop)
      | _ \<Rightarrow> None)"

lemma decode_value_progress: "decode_value t b = Some (v, n) \<Longrightarrow> 2 \<le> n \<and> n \<le> length b"
  by (auto simp: decode_value_def Let_def split: DataType.splits if_splits)

definition FieldCodec_FieldIDByName :: "FieldCodec \<Rightarrow> string \<Rightarrow> field_error + byte" where
  "FieldCodec_FieldIDByName c s =
     (case map_of (fc_fieldsByName c) s of None \<Rightarrow> Inl ErrFieldNotFound | Some f \<Rightarrow> Inr (fld_ID f))"

function decode_fields :: "FieldCodec \<Rightarrow> byte list \<Rightarrow> (byte \<times> field_value) list \<Rightarrow> field_error + (byte \<times> field_value) list" where
  "decode_fields c [] vals = Inr vals"
| "decode_fields c (x # b) vals =
     (case map_of (fc_fieldsByID c) x of
        None \<Rightarrow> Inl ErrFieldUnmappedID
      | Some f \<Rightarrow>
          (case decode_value (fld_Type f) (x # b) of
             None \<Rightarrow> Inl PanicDecode
           | Some (v, n) \<Rightarrow> decode_fields c (drop n (x # b)) (AList.update x v vals)))"
  by pat_completeness auto

termination
  by (relation "measure (\<lambda>(c, b, vals). length b)") (auto dest!: decode_value_progress)

definition FieldCodec_DecodeFields :: "FieldCodec \<Rightarrow> byte list \<Rightarrow> field_error + (byte \<times> field_value) list" where
  "FieldCodec_DecodeFields c b = decode_fields c b []"

definition FieldCodec_DecodeFieldsWithNames :: "FieldCodec \<Rightarrow> byte list \<Rightarrow> field_error + Fields" where
  "FieldCodec_DecodeFieldsWithNames c b =
     (case FieldCodec_DecodeFields c b of
        Inl e \<Rightarrow> Inl e
      | Inr flds \<Rightarrow>
          Inr (fold (\<lambda>(i, v) m. case map_of (fc_fieldsByID c) i of None \<Rightarrow> m | Some f \<Rightarrow> AList.update (fld_Name f) v m) flds []))"

function FieldCodec_DecodeByID :: "FieldCodec \<Rightarrow> byte \<Rightarrow> byte list \<Rightarrow> field_error + field_value" where
  "FieldCodec_DecodeByID c target [] = Inl ErrFieldNotFound"
| "FieldCodec_DecodeByID c target (x # b) =
     (case map_of (fc_fieldsByID c) x of
        None \<Rightarrow> Inl ErrFieldUnmappedID
      | Some f \<Rightarrow>
          (case decode_value (fld_Type f) (x # b) of
             None \<Rightarrow> Inl PanicDecode
           | Some (v, n) \<Rightarrow>
               if fld_ID f = target then Inr v else FieldCodec_DecodeByID c target (drop n (x # b))))"
  by pat_completeness auto

termination
  by (relation "measure (\<lambda>(c, target, b). length b)") (auto dest!: decode_value_progress)

definition FieldCodec_FieldByName :: "FieldCodec \<Rightarrow> string \<Rightarrow> Field option" where
  "FieldCodec_FieldByName c name = map_of (fc_fieldsByName c) name"

definition FieldCodec_DecodeByName :: "FieldCodec \<Rightarrow> string \<Rightarrow> byte list \<Rightarrow> field_error + field_value" where
  "FieldCodec_DecodeByName c name b =
     (case FieldCodec_FieldByName c name of
        None \<Rightarrow> Inl ErrFieldNotFound
      | Some f \<Rightarrow> FieldCodec_DecodeByID c (fld_ID f) b)"

definition FieldCodec_Fields :: "FieldCodec \<Rightarrow> Field list" where
  "FieldCodec_Fields c = map snd (fc_fieldsByID c)"

section \<open>Values\<close>

lemma Uint16_PutUint16 [simp]: "Uint16 (PutUint16 v @ rest) = v"
proof (rule bit_word_eqI)
  fix n assume n: "n < LENGTH(16)"
  consider "n < 8" | "8 \<le> n" "n < 16" using n by (cases "n < 8") auto
  then show "bit (Uint16 (PutUint16 v @ rest)) n = bit v n"
    by cases (auto simp: Uint16_def PutUint16_def bit_simps)
qed

lemma length_PutUint16 [simp]: "length (PutUint16 v) = 2"
  by (simp add: PutUint16_def)

lemma length_bytes_of [simp]: "length (bytes_of s) = length s"
  by (simp add: bytes_of_def)

text \<open>The values that survive: integers of 64 bits and strings whose end still fits into 16 bits.\<close>

fun fits :: "field_value \<Rightarrow> bool" where
  "fits (FInt i) = is_int64 i"
| "fits (FFloat f) = True"
| "fits (FBool b) = True"
| "fits (FString s) = (length s < 65533)"
| "fits _ = False"

lemma sint_of_int64: "is_int64 i \<Longrightarrow> sint (word_of_int i :: u64) = i"
  by (simp add: is_int64_def signed_of_int signed_take_bit_int_eq_self)

lemma decode_encode_string:
  assumes "length s < 65533"
  shows "decode_value String (x # (PutUint16 (of_nat (length s)) @ bytes_of s) @ rest) = Some (FString s, length s + 3)"
proof -
  have n: "unat (of_nat (length s) + 3 :: 16 word) = length s + 3"
  proof -
    have "(of_nat (length s) + 3 :: 16 word) = of_nat (length s + 3)" by simp
    also have "unat \<dots> = length s + 3" using assms by (subst unat_of_nat) simp
    finally show ?thesis .
  qed
  have "Uint16 (PutUint16 (of_nat (length s)) @ bytes_of s @ rest) = of_nat (length s)" by simp
  moreover have "drop 3 (x # PutUint16 (of_nat (length s)) @ bytes_of s @ rest) = bytes_of s @ rest" by (simp add: PutUint16_def)
  ultimately show ?thesis by (simp add: decode_value_def n)
qed

lemma decode_encode_value:
  assumes "fits v"
  shows "\<exists>buf. encode_value (InspectDataType v) v = Some buf \<and>
    (\<forall>x rest. decode_value (InspectDataType v) (x # buf @ rest) = Some (v, length buf + 1))"
proof (cases v)
  case (FString s)
  with assms have "take maxStringLength s = s" by (simp add: maxStringLength_def)
  with assms decode_encode_string [of s] show ?thesis by (simp add: FString encode_value_def InspectDataType_def)
next
  case (FInt i)
  with assms show ?thesis by (simp add: encode_value_def decode_value_def InspectDataType_def sint_of_int64)
next
  case (FBool b)
  then show ?thesis by (simp add: encode_value_def decode_value_def InspectDataType_def)
qed (use assms in \<open>simp_all add: encode_value_def decode_value_def InspectDataType_def\<close>)

section \<open>Field definitions\<close>

text \<open>Fields are stored under their names, and the field created as the \<open>n\<close>-th has the ID \<open>n\<close>.\<close>

definition fields_wf :: "(string \<times> Field) list \<Rightarrow> bool" where
  "fields_wf flds \<longleftrightarrow> distinct (map fst flds) \<and> (\<forall>(k, f) \<in> set flds. fld_Name f = k) \<and>
     map (fld_ID \<circ> snd) flds = map (\<lambda>i. of_nat (i + 1)) [0..<length flds]"

definition mf_wf :: "MeasurementFields \<Rightarrow> bool" where
  "mf_wf m \<longleftrightarrow> fields_wf (mf_Fields m) \<and>
     (if mf_Fields m = [] then mf_Codec m = None else mf_Codec m = Some (NewFieldCodec (mf_Fields m)))"

lemma update_fresh: "k \<notin> fst ` set l \<Longrightarrow> AList.update k v l = l @ [(k, v)]"
  by (induction l) auto

lemma CreateField_existing:
  assumes "map_of (mf_Fields m) name = Some f"
  shows "MeasurementFields_CreateFieldIfNotExists name typ lim m = (if fld_Type f = typ then Inr m else Inl ErrFieldTypeConflict)"
  using assms by (simp add: MeasurementFields_CreateFieldIfNotExists_def)

lemma CreateField_new:
  assumes "mf_wf m" and "map_of (mf_Fields m) name = None" and "MeasurementFields_CreateFieldIfNotExists name typ lim m = Inr m'"
  shows "mf_wf m'" and "mf_Fields m' = mf_Fields m @ [(name, \<lparr>fld_ID = of_nat (length (mf_Fields m) + 1), fld_Name = name, fld_Type = typ\<rparr>)]"
    and "lim \<longrightarrow> length (mf_Fields m') \<le> 255"
proof -
  let ?f = "\<lparr>fld_ID = of_nat (length (mf_Fields m) + 1), fld_Name = name, fld_Type = typ\<rparr> :: Field"
  have fresh: "name \<notin> fst ` set (mf_Fields m)" using assms(2) by (simp add: map_of_eq_None_iff)
  have m': "m' = m\<lparr>mf_Fields := mf_Fields m @ [(name, ?f)], mf_Codec := Some (NewFieldCodec (mf_Fields m @ [(name, ?f)]))\<rparr>"
    "lim \<longrightarrow> length (mf_Fields m) < 255"
    using assms(2,3) by (auto simp: MeasurementFields_CreateFieldIfNotExists_def Let_def update_fresh [OF fresh] split: if_splits)
  have "fields_wf (mf_Fields m @ [(name, ?f)])" using assms(1) fresh by (simp add: mf_wf_def fields_wf_def)
  then show "mf_wf m'" by (simp add: m'(1) mf_wf_def)
  show "mf_Fields m' = mf_Fields m @ [(name, ?f)]" "lim \<longrightarrow> length (mf_Fields m') \<le> 255" using m'(2) by (auto simp: m'(1))
qed

lemma fold_update_distinct:
  "distinct (map g l) \<Longrightarrow> g ` set l \<inter> fst ` set acc = {} \<Longrightarrow> fold (\<lambda>x. AList.update (g x) (h x)) l acc = acc @ map (\<lambda>x. (g x, h x)) l"
proof (induction l arbitrary: acc)
  case (Cons x l)
  then have "AList.update (g x) (h x) acc = acc @ [(g x, h x)]" by (intro update_fresh) auto
  with Cons show ?case by auto
qed simp

lemma fields_wf_IDs:
  assumes "fields_wf flds" and "length flds \<le> 255"
  shows "distinct (map (fld_ID \<circ> snd) flds)"
proof -
  have "inj_on (\<lambda>i. of_nat (i + 1) :: byte) {0..<length flds}"
  proof (rule inj_onI)
    fix i j assume ij: "i \<in> {0..<length flds}" "j \<in> {0..<length flds}" "(of_nat (i + 1) :: byte) = of_nat (j + 1)"
    have "unat (of_nat (k + 1) :: byte) = k + 1" if "k < 255" for k using that by (subst unat_of_nat) simp
    with ij assms(2) show "i = j" by (metis add_right_cancel atLeastLessThan_iff order_less_le_trans)
  qed
  with assms(1) show ?thesis by (simp add: fields_wf_def distinct_map)
qed

lemma NewFieldCodec_lookup:
  assumes "fields_wf flds" and "length flds \<le> 255"
  shows "map_of (fc_fieldsByName (NewFieldCodec flds)) = map_of flds"
    and "map_of flds k = Some f \<Longrightarrow> map_of (fc_fieldsByID (NewFieldCodec flds)) (fld_ID f) = Some f"
    and "map_of flds k = Some f \<Longrightarrow> fld_Name f = k"
    and "map_of flds k = Some f \<Longrightarrow> map_of flds k' = Some f' \<Longrightarrow> fld_ID f = fld_ID f' \<Longrightarrow> k = k'"
proof -
  have names: "\<forall>(k, f) \<in> set flds. fld_Name f = k" and d: "distinct (map fst flds)" using assms(1) by (simp_all add: fields_wf_def)
  have e: "map (fld_Name \<circ> snd) flds = map fst flds" using names by auto
  have dn: "distinct (map (fld_Name \<circ> snd) flds)" unfolding e by (rule d)
  note di = fields_wf_IDs [OF assms]
  have n: "fc_fieldsByName (NewFieldCodec flds) = map (\<lambda>x. (fld_Name (snd x), snd x)) flds"
    using fold_update_distinct [of "fld_Name \<circ> snd" flds "[]" snd] dn by (simp add: NewFieldCodec_def case_prod_beta')
  also have "\<dots> = map (\<lambda>x. x) flds" using names by (intro map_cong [OF refl]) auto
  finally show "map_of (fc_fieldsByName (NewFieldCodec flds)) = map_of flds" by simp
  have i: "fc_fieldsByID (NewFieldCodec flds) = map (\<lambda>x. (fld_ID (snd x), snd x)) flds"
    using fold_update_distinct [of "fld_ID \<circ> snd" flds "[]" snd] di by (simp add: NewFieldCodec_def case_prod_beta')
  show "map_of (fc_fieldsByID (NewFieldCodec flds)) (fld_ID f) = Some f" if "map_of flds k = Some f"
    unfolding i using map_of_SomeD [OF that] di by (intro map_of_is_SomeI) (force simp: comp_def)+
  show name: "fld_Name f = k" if "map_of flds k = Some f" for k f using map_of_SomeD [OF that] names by auto
  show "k = k'" if "map_of flds k = Some f" "map_of flds k' = Some f'" "fld_ID f = fld_ID f'"
  proof -
    have "(k, f) = (k', f')" using that di map_of_SomeD [OF that(1)] map_of_SomeD [OF that(2)]
      by (metis (no_types, lifting) comp_apply distinct_map inj_on_def snd_conv)
    then show ?thesis by simp
  qed
qed

section \<open>Round trip\<close>

text \<open>The values of a point that the codec of the fields takes.\<close>

definition typed :: "(string \<times> Field) list \<Rightarrow> Fields \<Rightarrow> bool" where
  "typed flds vals \<longleftrightarrow> distinct (map fst vals) \<and>
     (\<forall>(k, v) \<in> set vals. fits v \<and> (\<exists>f. map_of flds k = Some f \<and> fld_Type f = InspectDataType v))"

abbreviation field_of :: "(string \<times> Field) list \<Rightarrow> string \<Rightarrow> Field" where
  "field_of flds k \<equiv> the (map_of flds k)"

lemma EncodeFields_decodes:
  assumes "fields_wf flds" and "length flds \<le> 255" and "typed flds vals"
  shows "\<exists>b. FieldCodec_EncodeFields (NewFieldCodec flds) vals = Inr b \<and>
    (\<forall>acc. decode_fields (NewFieldCodec flds) b acc = Inr (fold (\<lambda>(k, v). AList.update (fld_ID (field_of flds k)) v) vals acc)) \<and>
    (\<forall>name f. map_of flds name = Some f \<longrightarrow>
      FieldCodec_DecodeByID (NewFieldCodec flds) (fld_ID f) b = (case map_of vals name of None \<Rightarrow> Inl ErrFieldNotFound | Some v \<Rightarrow> Inr v))"
  using assms(3)
proof (induction vals)
  case (Cons x vals)
  note L = NewFieldCodec_lookup [OF assms(1,2)]
  obtain k v where x: "x = (k, v)" by fastforce
  from Cons.prems obtain f where f: "map_of flds k = Some f" "fld_Type f = InspectDataType v" "fits v" and v: "typed flds vals"
    by (auto simp: typed_def x)
  from Cons.IH [OF v] obtain b where b: "FieldCodec_EncodeFields (NewFieldCodec flds) vals = Inr b"
    "\<And>acc. decode_fields (NewFieldCodec flds) b acc = Inr (fold (\<lambda>(k, v). AList.update (fld_ID (field_of flds k)) v) vals acc)"
    "\<And>name f. map_of flds name = Some f \<Longrightarrow>
      FieldCodec_DecodeByID (NewFieldCodec flds) (fld_ID f) b = (case map_of vals name of None \<Rightarrow> Inl ErrFieldNotFound | Some v \<Rightarrow> Inr v)"
    by blast
  obtain buf where buf: "encode_value (InspectDataType v) v = Some buf"
    "\<And>x rest. decode_value (InspectDataType v) (x # buf @ rest) = Some (v, length buf + 1)"
    using decode_encode_value [OF f(3)] by blast
  have e: "FieldCodec_EncodeFields (NewFieldCodec flds) (x # vals) = Inr (fld_ID f # buf @ b)"
    by (simp add: x L(1) f buf(1) b(1))
  have "decode_fields (NewFieldCodec flds) (fld_ID f # buf @ b) acc =
      Inr (fold (\<lambda>(k, v). AList.update (fld_ID (field_of flds k)) v) (x # vals) acc)" for acc
    by (simp add: L(2) [OF f(1)] f(2) buf(2) b(2) x f(1))
  moreover have "FieldCodec_DecodeByID (NewFieldCodec flds) (fld_ID g) (fld_ID f # buf @ b) =
      (case map_of (x # vals) name of None \<Rightarrow> Inl ErrFieldNotFound | Some v \<Rightarrow> Inr v)" if g: "map_of flds name = Some g" for name g
  proof -
    have "fld_ID f = fld_ID g \<longleftrightarrow> k = name" using L(4) [OF f(1) g] f(1) g by auto
    then show ?thesis by (simp add: L(2) [OF f(1)] f(2) buf(2) b(3) [OF g] x)
  qed
  ultimately show ?case using e by blast
qed simp

lemma field_codec_roundtrip:
  assumes "fields_wf flds" and "length flds \<le> 255" and "typed flds vals"
  obtains b m where "FieldCodec_EncodeFields (NewFieldCodec flds) vals = Inr b"
    and "FieldCodec_DecodeFieldsWithNames (NewFieldCodec flds) b = Inr m" and "map_of m = map_of vals"
    and "\<forall>name. FieldCodec_DecodeByName (NewFieldCodec flds) name b = (case map_of vals name of None \<Rightarrow> Inl ErrFieldNotFound | Some v \<Rightarrow> Inr v)"
proof -
  let ?c = "NewFieldCodec flds"
  note L = NewFieldCodec_lookup [OF assms(1,2)]
  obtain b where b: "FieldCodec_EncodeFields ?c vals = Inr b"
    "decode_fields ?c b [] = Inr (fold (\<lambda>(k, v). AList.update (fld_ID (field_of flds k)) v) vals [])"
    "\<forall>name f. map_of flds name = Some f \<longrightarrow>
      FieldCodec_DecodeByID ?c (fld_ID f) b = (case map_of vals name of None \<Rightarrow> Inl ErrFieldNotFound | Some v \<Rightarrow> Inr v)"
    using EncodeFields_decodes [OF assms] by blast
  have f: "map_of flds k = Some (field_of flds k)" if "(k, v) \<in> set vals" for k v using assms(3) that by (auto simp: typed_def)
  have "inj_on (\<lambda>x. fld_ID (field_of flds (fst x))) (set vals)"
    using f L(4) assms(3) by (intro inj_onI) (metis (no_types, lifting) distinct_map inj_on_def prod.collapse typed_def)
  then have d: "distinct (map (\<lambda>x. fld_ID (field_of flds (fst x))) vals)"
    using assms(3) by (auto simp: distinct_map typed_def)
  have dec: "fold (\<lambda>(k, v). AList.update (fld_ID (field_of flds k)) v) vals [] = map (\<lambda>x. (fld_ID (field_of flds (fst x)), snd x)) vals"
    using fold_update_distinct [OF d, of "[]" snd] by (simp add: case_prod_beta')
  have named: "fold (\<lambda>(i, v) m. case map_of (fc_fieldsByID ?c) i of None \<Rightarrow> m | Some f \<Rightarrow> AList.update (fld_Name f) v m)
      (map (\<lambda>x. (fld_ID (field_of flds (fst x)), snd x)) vs) acc = fold (\<lambda>x. AList.update (fst x) (snd x)) vs acc"
    if "set vs \<subseteq> set vals" for vs acc
    using that
  proof (induction vs arbitrary: acc)
    case (Cons x vs)
    obtain g where g: "map_of flds (fst x) = Some g" using f [of "fst x" "snd x"] Cons.prems by auto
    then show ?case using Cons L(2) [OF g] L(3) [OF g] by (simp add: case_prod_beta)
  qed simp
  have m: "FieldCodec_DecodeFieldsWithNames ?c b = Inr vals"
    using fold_update_distinct [of fst vals "[]" snd] assms(3) named [of vals "[]"]
    by (simp add: FieldCodec_DecodeFieldsWithNames_def FieldCodec_DecodeFields_def b(2) dec typed_def)
  have n: "\<forall>name. FieldCodec_DecodeByName ?c name b = (case map_of vals name of None \<Rightarrow> Inl ErrFieldNotFound | Some v \<Rightarrow> Inr v)"
  proof
    fix name
    have "map_of vals name = None" if "map_of flds name = None"
      using that f by (metis map_of_eq_None_iff map_of_SomeD not_None_eq)
    then show "FieldCodec_DecodeByName ?c name b = (case map_of vals name of None \<Rightarrow> Inl ErrFieldNotFound | Some v \<Rightarrow> Inr v)"
      using b(3) by (cases "map_of flds name") (auto simp: FieldCodec_DecodeByName_def FieldCodec_FieldByName_def L(1))
  qed
  show thesis by (rule that [OF b(1) m refl n])
qed

section \<open>Long strings\<close>

text \<open>The end of a string of 65533 to 65535 bytes wraps around, and reading it panics; the size of longer strings is stored as 0.\<close>

lemma long_string_panics:
  assumes "65533 \<le> length s" and "length s < 65536"
  shows "\<exists>buf. encode_value String (FString s) = Some buf \<and> decode_value String (x # buf @ rest) = None"
proof -
  have t: "take maxStringLength s = s" using assms by (simp add: maxStringLength_def)
  have "(of_nat (length s) + 3 :: 16 word) = of_nat (length s + 3)" by simp
  also have "unat \<dots> = (length s + 3) mod 65536" by (subst unat_of_nat) simp
  also have "\<dots> < 3"
  proof -
    have "(length s + 3) mod 65536 = (length s - 65533) mod 65536"
      using assms mod_add_self2 [of "length s - 65533" "65536 :: nat"] by (simp add: add.commute)
    then show ?thesis using assms by simp
  qed
  finally show ?thesis by (simp add: encode_value_def decode_value_def t)
qed

lemma longest_string_lost:
  assumes "65536 \<le> length s"
  shows "\<exists>buf. encode_value String (FString s) = Some buf \<and> decode_value String (x # buf @ rest) = Some (FString [], 3)"
proof -
  have l: "length (take maxStringLength s) = 65536" using assms by (simp add: maxStringLength_def)
  have "(of_nat 65536 :: 16 word) = 0" by simp
  with l have "of_nat (length (take maxStringLength s)) = (0 :: 16 word)" by metis
  then show ?thesis by (simp add: encode_value_def decode_value_def Let_def string_of_def)
qed

end
