(* ===== verification/Shard_Write.thy ===== *)
theory Shard_Write
  imports Shard_Fields Index_Spec
begin

text \<open>
  Writing points into a shard (\<open>tsdb/shard.go\<close>): which series and fields are new, their creation in the index and in the shard, and
  the encoding of the points for the engines that need it.  A point is what its accessors return.  The storage engine is a
  parameter: its format, and a function that writes the points and returns an error or none.
\<close>

section \<open>Shards and points\<close>

record shard_point =
  sp_Key :: string
  sp_Name :: string
  sp_Tags :: "(string \<times> string) list"
  sp_Fields :: Fields
  sp_Data :: "byte list option"

datatype EngineFormat = B1Format | BZ1Format | TSM1Format

record Shard =
  sh_id :: u64
  sh_measurementFields :: "(string \<times> MeasurementFields) list"

record FieldCreate =
  fcr_Measurement :: string
  fcr_Name :: string
  fcr_Type :: DataType

record SeriesCreate =
  scr_Measurement :: string
  scr_Series :: Series

datatype shard_error = InputTypeConflict string string DataType | FieldFailed field_error | EngineFailed string

definition NewShard :: "u64 \<Rightarrow> Shard" where
  "NewShard i = \<lparr>sh_id = i, sh_measurementFields = []\<rparr>"

definition Shard_FieldCodec :: "string \<Rightarrow> Shard \<Rightarrow> FieldCodec option" where
  "Shard_FieldCodec name s =
     (case map_of (sh_measurementFields s) name of None \<Rightarrow> Some (NewFieldCodec []) | Some m \<Rightarrow> mf_Codec m)"

section \<open>Validation\<close>

definition field_create :: "string \<Rightarrow> string \<times> field_value \<Rightarrow> FieldCreate" where
  "field_create meas x = \<lparr>fcr_Measurement = meas, fcr_Name = fst x, fcr_Type = InspectDataType (snd x)\<rparr>"

fun validate_fields :: "MeasurementFields \<Rightarrow> string \<Rightarrow> Fields \<Rightarrow> shard_error + FieldCreate list" where
  "validate_fields mf meas [] = Inr []"
| "validate_fields mf meas ((k, v) # vs) =
     (case map_of (mf_Fields mf) k of
        Some f \<Rightarrow>
          if fld_Type f \<noteq> InspectDataType v then Inl (InputTypeConflict k meas (fld_Type f)) else validate_fields mf meas vs
      | None \<Rightarrow> (case validate_fields mf meas vs of Inl e \<Rightarrow> Inl e | Inr fs \<Rightarrow> Inr (field_create meas (k, v) # fs)))"

definition series_create :: "Shard \<Rightarrow> DatabaseIndex \<Rightarrow> shard_point \<Rightarrow> SeriesCreate list" where
  "series_create s d p =
     (case map_of (ix_series d) (sp_Key p) of
        None \<Rightarrow> [\<lparr>scr_Measurement = sp_Name p, scr_Series = NewSeries (sp_Key p) (sp_Tags p)\<rparr>]
      | Some ss \<Rightarrow> if sh_id s \<notin> set (ser_shardIDs ss) then [\<lparr>scr_Measurement = sp_Name p, scr_Series = ss\<rparr>] else [])"

fun Shard_validateSeriesAndFields ::
    "Shard \<Rightarrow> DatabaseIndex \<Rightarrow> shard_point list \<Rightarrow> shard_error + SeriesCreate list \<times> FieldCreate list \<times> string list" where
  "Shard_validateSeriesAndFields s d [] = Inr ([], [], [])"
| "Shard_validateSeriesAndFields s d (p # ps) =
     (case (case map_of (sh_measurementFields s) (sp_Name p) of
              None \<Rightarrow> Inr (map (field_create (sp_Name p)) (sp_Fields p))
            | Some mf \<Rightarrow> validate_fields mf (sp_Name p) (sp_Fields p)) of
        Inl e \<Rightarrow> Inl e
      | Inr fs \<Rightarrow>
          (case Shard_validateSeriesAndFields s d ps of
             Inl e \<Rightarrow> Inl e
           | Inr (scs, fcs, ks) \<Rightarrow>
               let sc = series_create s d p in Inr (sc @ scs, fs @ fcs, map (ser_Key \<circ> scr_Series) sc @ ks)))"

section \<open>Writing\<close>

text \<open>
  The loop of \<open>createFieldsAndMeasurements\<close>; an error leaves what the loop did before.  The fields to save are those of the named
  measurements in the shard, which the code shares by pointers.
\<close>

fun create_fields ::
    "EngineFormat \<Rightarrow> FieldCreate list \<Rightarrow> string list \<Rightarrow> Shard \<Rightarrow> DatabaseIndex \<Rightarrow> (Shard \<times> DatabaseIndex) \<times> (field_error + string list)" where
  "create_fields fmt [] saved s d = ((s, d), Inr saved)"
| "create_fields fmt (f # fs) saved s d =
     (let meas = fcr_Measurement f;
          m = (case map_of (sh_measurementFields s) meas of None \<Rightarrow> \<lparr>mf_Fields = [], mf_Codec = None\<rparr> | Some m \<Rightarrow> m)
      in case MeasurementFields_CreateFieldIfNotExists (fcr_Name f) (fcr_Type f) (fmt = B1Format \<or> fmt = BZ1Format) m of
           Inl e \<Rightarrow> ((s\<lparr>sh_measurementFields := AList.update meas m (sh_measurementFields s)\<rparr>, d), Inl e)
         | Inr m \<Rightarrow>
             create_fields fmt fs (List.insert meas saved)
               (s\<lparr>sh_measurementFields := AList.update meas m (sh_measurementFields s)\<rparr>)
               (create_field_name meas (fcr_Name f) d))"

definition Shard_createFieldsAndMeasurements ::
    "EngineFormat \<Rightarrow> FieldCreate list \<Rightarrow> Shard \<Rightarrow> DatabaseIndex \<Rightarrow> (Shard \<times> DatabaseIndex) \<times> (field_error + string list)" where
  "Shard_createFieldsAndMeasurements fmt fs s d = create_fields fmt fs [] s d"

definition encode_point :: "Shard \<Rightarrow> shard_point \<Rightarrow> field_error + shard_point" where
  "encode_point s p =
     (if sp_Data p \<noteq> None then Inr p
      else case map_of (sh_measurementFields s) (sp_Name p) of
        None \<Rightarrow> Inl ErrFieldNotFound
      | Some mf \<Rightarrow>
          (case mf_Codec mf of
             None \<Rightarrow> if sp_Fields p = [] then Inr (p\<lparr>sp_Data := Some []\<rparr>) else Inl PanicNoField
           | Some c \<Rightarrow>
               (case FieldCodec_EncodeFields c (sp_Fields p) of Inl e \<Rightarrow> Inl e | Inr b \<Rightarrow> Inr (p\<lparr>sp_Data := Some b\<rparr>))))"

fun encode_points :: "Shard \<Rightarrow> shard_point list \<Rightarrow> shard_point list \<times> field_error option" where
  "encode_points s [] = ([], None)"
| "encode_points s (p # ps) =
     (case encode_point s p of
        Inl e \<Rightarrow> (p # ps, Some e)
      | Inr p \<Rightarrow> (case encode_points s ps of (ps, e) \<Rightarrow> (p # ps, e)))"

record 'e shard_state =
  st_shard :: Shard
  st_index :: DatabaseIndex
  st_engine :: 'e

type_synonym 'e engine_write =
  "shard_point list \<Rightarrow> (string \<times> MeasurementFields) list \<Rightarrow> SeriesCreate list \<Rightarrow> 'e \<Rightarrow> 'e \<times> string option"

definition create_series :: "SeriesCreate list \<Rightarrow> DatabaseIndex \<Rightarrow> DatabaseIndex" where
  "create_series scs d = fold (\<lambda>sc d. fst (CreateSeriesIndexIfNotExists (scr_Measurement sc) (scr_Series sc) d)) scs d"

definition Shard_WritePoints ::
    "EngineFormat \<Rightarrow> 'e engine_write \<Rightarrow> shard_point list \<Rightarrow> 'e shard_state \<Rightarrow> ('e shard_state \<times> shard_point list) \<times> shard_error option" where
  "Shard_WritePoints fmt wr points st =
     (let s = st_shard st in
      case Shard_validateSeriesAndFields s (st_index st) points of
        Inl e \<Rightarrow> ((st, points), Some e)
      | Inr (seriesToCreate, fieldsToCreate, seriesToAddShardTo) \<Rightarrow>
          let d = fold (mark_shard (sh_id s)) seriesToAddShardTo (create_series seriesToCreate (st_index st)) in
          case Shard_createFieldsAndMeasurements fmt fieldsToCreate s d of
            ((s, d), Inl e) \<Rightarrow> ((st\<lparr>st_shard := s, st_index := d\<rparr>, points), Some (FieldFailed e))
          | ((s, d), Inr saved) \<Rightarrow>
              let st = st\<lparr>st_shard := s, st_index := d\<rparr> in
              case (if fmt \<noteq> TSM1Format then encode_points s points else (points, None)) of
                (points, Some e) \<Rightarrow> ((st, points), Some (FieldFailed e))
              | (points, None) \<Rightarrow>
                  let toSave = map (\<lambda>n. (n, the (map_of (sh_measurementFields s) n))) saved in
                  case wr points toSave seriesToCreate (st_engine st) of
                    (eng, err) \<Rightarrow> ((st\<lparr>st_engine := eng\<rparr>, points), map_option EngineFailed err))"

text \<open>Dropping a measurement from the shard, if the engine has dropped it.\<close>

definition Shard_DeleteMeasurement ::
    "(string \<Rightarrow> string list \<Rightarrow> 'e \<Rightarrow> 'e \<times> string option) \<Rightarrow> string \<Rightarrow> string list \<Rightarrow> 'e shard_state \<Rightarrow> 'e shard_state \<times> string option" where
  "Shard_DeleteMeasurement del name seriesKeys st =
     (case del name seriesKeys (st_engine st) of
        (eng, Some e) \<Rightarrow> (st\<lparr>st_engine := eng\<rparr>, Some e)
      | (eng, None) \<Rightarrow>
          (st\<lparr>st_engine := eng,
              st_shard := (st_shard st)\<lparr>sh_measurementFields := AList.delete name (sh_measurementFields (st_shard st))\<rparr>\<rparr>, None))"

end
