(* ===== verification/Shard_Inv.thy ===== *)
theory Shard_Inv
  imports Shard_Write
begin

text \<open>
  What a write keeps and what it adds: the index and the shard stay well-formed, nothing they know is lost, and the series and fields
  of the written points are known afterwards.
\<close>

section \<open>Growth of the index\<close>

definition grows :: "DatabaseIndex \<Rightarrow> DatabaseIndex \<Rightarrow> bool" where
  "grows d d' \<longleftrightarrow> catalogue d \<subseteq>\<^sub>m catalogue d' \<and>
     (\<forall>n m. DatabaseIndex_Measurement n d = Some m \<longrightarrow>
        (\<exists>m'. DatabaseIndex_Measurement n d' = Some m' \<and> set (meas_fieldNames m) \<subseteq> set (meas_fieldNames m'))) \<and>
     (\<forall>k s. ser d k = Some s \<longrightarrow> (\<exists>s'. ser d' k = Some s' \<and> set (ser_shardIDs s) \<subseteq> set (ser_shardIDs s')))"

lemma grows_refl [simp]: "grows d d"
  by (simp add: grows_def map_le_def)

lemma grows_trans [trans]: "grows a b \<Longrightarrow> grows b c \<Longrightarrow> grows a c"
  unfolding grows_def by (meson map_le_trans order_trans)

lemma grows_series: "grows d d' \<Longrightarrow> ser d k = Some s \<Longrightarrow> \<exists>s'. ser d' k = Some s' \<and> set (ser_shardIDs s) \<subseteq> set (ser_shardIDs s')"
  unfolding grows_def by blast

lemma grows_field:
  assumes "grows d d'" and "\<exists>m. DatabaseIndex_Measurement n d = Some m \<and> Measurement_HasField k m"
  shows "\<exists>m. DatabaseIndex_Measurement n d' = Some m \<and> Measurement_HasField k m"
  using assms unfolding grows_def Measurement_HasField_def by blast

lemma Measurement_live:
  assumes "index_wf d"
  shows "DatabaseIndex_Measurement n d = Some m \<longleftrightarrow> (\<exists>a. live d a \<and> meas_Name (ix_heap d ! a) = n \<and> m = ix_heap d ! a)"
proof -
  note M = index_wfD(1) [OF assms]
  show ?thesis
    using live_meas(1) [OF M] measurement_at(1) [OF M] by (auto simp: DatabaseIndex_Measurement_def live_def)
qed

lemma growsI:
  assumes "index_wf d" and "index_wf d'" and "catalogue d \<subseteq>\<^sub>m catalogue d'"
    and "\<And>b. live d b \<Longrightarrow> live d' b \<and> meas_Name (ix_heap d' ! b) = meas_Name (ix_heap d ! b) \<and>
      set (meas_fieldNames (ix_heap d ! b)) \<subseteq> set (meas_fieldNames (ix_heap d' ! b))"
    and "\<And>k s. ser d k = Some s \<Longrightarrow> \<exists>s'. ser d' k = Some s' \<and> set (ser_shardIDs s) \<subseteq> set (ser_shardIDs s')"
  shows "grows d d'"
  unfolding grows_def Measurement_live [OF assms(1)] Measurement_live [OF assms(2)] using assms(3-5) by blast

lemma create_field_grows:
  assumes "index_wf d"
  shows "grows d (create_field_name name field d)"
  using create_field_name [OF assms, where name = name and field = field] catalogue_create_field [OF assms, of name field]
  by (intro growsI [OF assms]) auto

lemma mark_shard_grows:
  assumes "index_wf d"
  shows "grows d (mark_shard sid k d)"
  using mark_shard [OF assms, where sid = sid and k = k] catalogue_mark_shard [OF assms, of sid k]
  by (intro growsI [OF assms]) (auto simp: mark_series_def)

text \<open>A series to create is new, or it is the one the index has under its key.\<close>

definition create_ok :: "DatabaseIndex \<Rightarrow> SeriesCreate \<Rightarrow> bool" where
  "create_ok d sc \<longleftrightarrow> ser d (ser_Key (scr_Series sc)) \<noteq> None \<or>
     (\<exists>k tags. scr_Series sc = NewSeries k tags \<and> distinct (map fst tags))"

lemma create_one:
  assumes "index_wf d" and "create_ok d sc" and "ix_lastID d \<noteq> - 1"
  defines "d' \<equiv> fst (CreateSeriesIndexIfNotExists (scr_Measurement sc) (scr_Series sc) d)"
  shows "index_wf d'" and "grows d d'" and "ser d' (ser_Key (scr_Series sc)) \<noteq> None" and "ix_lastID d' \<in> {ix_lastID d, ix_lastID d + 1}"
    and "catalogue d' = (if catalogue d (ser_Key (scr_Series sc)) = None
      then (catalogue d)(ser_Key (scr_Series sc) \<mapsto> (escape_UnescapeString (scr_Measurement sc), map_of (ser_Tags (scr_Series sc)))) else catalogue d)"
proof -
  let ?s = "scr_Series sc"
  have "index_wf d' \<and> grows d d' \<and> ser d' (ser_Key ?s) \<noteq> None \<and> ix_lastID d' \<in> {ix_lastID d, ix_lastID d + 1} \<and>
    catalogue d' = (if catalogue d (ser_Key ?s) = None
      then (catalogue d)(ser_Key ?s \<mapsto> (escape_UnescapeString (scr_Measurement sc), map_of (ser_Tags ?s))) else catalogue d)"
  proof (cases "ser d (ser_Key ?s)")
    case (Some ss)
    then have "d' = d" by (simp add: d'_def CreateSeries_existing)
    with Some assms(1) show ?thesis by (simp add: catalogue_def)
  next
    case None
    with assms(2) obtain k tags where s: "?s = NewSeries k tags" "distinct (map fst tags)" by (auto simp: create_ok_def)
    have k: "ser_Key ?s = k" "ser_Tags ?s = tags" by (simp_all add: s NewSeries_def)
    obtain s' where C: "CreateSeriesIndexIfNotExists (scr_Measurement sc) ?s d = (d', s')" by (simp add: d'_def prod_eq_iff)
    note N = CreateSeries_new [OF assms(1) None assms(3) _ C, unfolded k, OF s(2)]
    have cat: "catalogue d' = spec_apply (OpCreateSeries (scr_Measurement sc) k tags) (catalogue d)"
      using catalogue_CreateSeries(2) [OF assms(1,3) s(2)] by (simp add: d'_def s(1))
    have "grows d d'"
    proof (rule growsI [OF assms(1) N(1)])
      show "catalogue d \<subseteq>\<^sub>m catalogue d'" by (auto simp: cat map_le_def)
      show "\<exists>s'. ser d' k = Some s' \<and> set (ser_shardIDs s) \<subseteq> set (ser_shardIDs s')" if "ser d k = Some s" for k s
        using that None N(2) k by auto
    qed (use N(4) in auto)
    with N(1,2,5) cat k show ?thesis by simp
  qed
  then show "index_wf d'" "grows d d'" "ser d' (ser_Key ?s) \<noteq> None" "ix_lastID d' \<in> {ix_lastID d, ix_lastID d + 1}"
    "catalogue d' = (if catalogue d (ser_Key ?s) = None
      then (catalogue d)(ser_Key ?s \<mapsto> (escape_UnescapeString (scr_Measurement sc), map_of (ser_Tags ?s))) else catalogue d)"
    by blast+
qed

lemma create_ok_grows: "create_ok d sc \<Longrightarrow> grows d d' \<Longrightarrow> create_ok d' sc"
  unfolding create_ok_def using grows_series by (metis not_None_eq)

text \<open>What a sequence of creations makes of the catalogue.\<close>

definition series_op :: "SeriesCreate \<Rightarrow> index_op" where
  "series_op sc = OpCreateSeries (scr_Measurement sc) (ser_Key (scr_Series sc)) (ser_Tags (scr_Series sc))"

lemma create_series:
  assumes "index_wf d" and "\<forall>sc\<in>set scs. create_ok d sc" and "unat (ix_lastID d) + length scs < 2 ^ 64"
  shows "index_wf (create_series scs d) \<and> grows d (create_series scs d) \<and>
    (\<forall>sc\<in>set scs. ser (create_series scs d) (ser_Key (scr_Series sc)) \<noteq> None) \<and>
    catalogue (create_series scs d) = fold spec_apply (map series_op scs) (catalogue d)"
  using assms
proof (induction scs arbitrary: d)
  case (Cons sc scs)
  let ?d = "fst (CreateSeriesIndexIfNotExists (scr_Measurement sc) (scr_Series sc) d)"
  have last: "ix_lastID d \<noteq> - 1"
  proof -
    have "unat (- 1 :: u64) = 2 ^ 64 - 1" by (simp add: unsigned_minus_1_eq_mask mask_eq_exp_minus_1)
    with Cons.prems(3) show ?thesis by auto
  qed
  note C = create_one [OF Cons.prems(1) _ last, of sc]
  have ok: "create_ok d sc" using Cons.prems(2) by simp
  have "unat (ix_lastID ?d) + length scs < 2 ^ 64" using C(4) [OF ok] Cons.prems(3) unat_succ_le [of "ix_lastID d"] by auto
  moreover have "\<forall>sc\<in>set scs. create_ok ?d sc" using Cons.prems(2) create_ok_grows C(2) [OF ok] by auto
  ultimately have IH: "index_wf (create_series scs ?d) \<and> grows ?d (create_series scs ?d) \<and>
      (\<forall>sc\<in>set scs. ser (create_series scs ?d) (ser_Key (scr_Series sc)) \<noteq> None) \<and>
      catalogue (create_series scs ?d) = fold spec_apply (map series_op scs) (catalogue ?d)"
    by (rule Cons.IH [OF C(1) [OF ok], rotated])
  have step: "create_series (sc # scs) d = create_series scs ?d" by (simp add: create_series_def)
  have "ser (create_series scs ?d) (ser_Key (scr_Series sc)) \<noteq> None"
    using C(3) [OF ok] grows_series [of ?d] IH by fastforce
  moreover have "catalogue ?d = spec_apply (series_op sc) (catalogue d)" using C(5) [OF ok] by (simp add: series_op_def)
  ultimately show ?case using IH grows_trans [OF C(2) [OF ok]] by (simp add: step)
qed (simp add: create_series_def)

lemma mark_all:
  assumes "index_wf d" and "\<forall>k\<in>set ks. ser d k \<noteq> None"
  shows "index_wf (fold (mark_shard sid) ks d) \<and> grows d (fold (mark_shard sid) ks d) \<and> catalogue (fold (mark_shard sid) ks d) = catalogue d \<and>
    (\<forall>k\<in>set ks. \<exists>s. ser (fold (mark_shard sid) ks d) k = Some s \<and> sid \<in> set (ser_shardIDs s))"
  using assms
proof (induction ks arbitrary: d)
  case (Cons k ks)
  let ?d = "mark_shard sid k d"
  note K = mark_shard [OF Cons.prems(1), where sid = sid and k = k]
  have g: "grows d ?d" by (rule mark_shard_grows [OF Cons.prems(1)])
  have "\<forall>k\<in>set ks. ser ?d k \<noteq> None" using Cons.prems(2) grows_series [OF g] by fastforce
  note IH = Cons.IH [OF K(1) this]
  obtain s where "ser d k = Some s" using Cons.prems(2) by auto
  then have "ser ?d k = Some (mark_series sid s)" by (simp add: K(2))
  then have "\<exists>s. ser (fold (mark_shard sid) ks ?d) k = Some s \<and> sid \<in> set (ser_shardIDs s)"
    using grows_series IH by (fastforce simp: mark_series_def)
  with IH grows_trans [OF g] show ?case by (simp add: catalogue_mark_shard [OF Cons.prems(1)])
qed simp

section \<open>Fields of a shard\<close>

definition fields_of :: "Shard \<Rightarrow> string \<Rightarrow> (string \<times> Field) list" where
  "fields_of s n = (case map_of (sh_measurementFields s) n of None \<Rightarrow> [] | Some m \<Rightarrow> mf_Fields m)"

definition sh_wf :: "EngineFormat \<Rightarrow> Shard \<Rightarrow> bool" where
  "sh_wf fmt s \<longleftrightarrow> (\<forall>n m. map_of (sh_measurementFields s) n = Some m \<longrightarrow> mf_wf m \<and> (fmt \<noteq> TSM1Format \<longrightarrow> length (mf_Fields m) \<le> 255))"

text \<open>The index lists every field of the shard under the name of its measurement.\<close>

definition synced :: "Shard \<Rightarrow> DatabaseIndex \<Rightarrow> bool" where
  "synced s d \<longleftrightarrow> (\<forall>n k f. map_of (fields_of s n) k = Some f \<longrightarrow>
     (\<exists>m. DatabaseIndex_Measurement (escape_UnescapeString n) d = Some m \<and> Measurement_HasField k m))"

text \<open>Fields are only added: a field keeps its ID and its type.\<close>

definition extends :: "Shard \<Rightarrow> Shard \<Rightarrow> bool" where
  "extends s s' \<longleftrightarrow> sh_id s' = sh_id s \<and> (\<forall>n. map_of (fields_of s n) \<subseteq>\<^sub>m map_of (fields_of s' n))"

lemma extends_refl [simp]: "extends s s"
  by (simp add: extends_def)

lemma extends_trans: "extends a b \<Longrightarrow> extends b c \<Longrightarrow> extends a c"
  unfolding extends_def by (metis map_le_trans)

lemma extends_field: "extends s s' \<Longrightarrow> map_of (fields_of s n) k = Some f \<Longrightarrow> map_of (fields_of s' n) k = Some f"
  unfolding extends_def map_le_def by (metis domI)

lemma synced_grows: "synced s d \<Longrightarrow> grows d d' \<Longrightarrow> synced s d'"
  unfolding synced_def using grows_field by blast

lemma mf_wf_empty [simp]: "mf_wf \<lparr>mf_Fields = [], mf_Codec = None\<rparr>"
  by (simp add: mf_wf_def fields_wf_def)

abbreviation put_fields :: "string \<Rightarrow> MeasurementFields \<Rightarrow> Shard \<Rightarrow> Shard" where
  "put_fields n m s \<equiv> s\<lparr>sh_measurementFields := AList.update n m (sh_measurementFields s)\<rparr>"

lemma fields_of_put [simp]: "fields_of (put_fields n m s) n' = (if n' = n then mf_Fields m else fields_of s n')"
  by (simp add: fields_of_def update_conv')

lemma sh_wf_put: "sh_wf fmt s \<Longrightarrow> mf_wf m \<Longrightarrow> (fmt \<noteq> TSM1Format \<longrightarrow> length (mf_Fields m) \<le> 255) \<Longrightarrow> sh_wf fmt (put_fields n m s)"
  by (simp add: sh_wf_def update_conv')

lemma CreateField_cases:
  assumes "mf_wf m" and "lim \<longrightarrow> length (mf_Fields m) \<le> 255" and "MeasurementFields_CreateFieldIfNotExists name typ lim m = Inr m'"
  shows "mf_wf m'" and "lim \<longrightarrow> length (mf_Fields m') \<le> 255" and "map_of (mf_Fields m) \<subseteq>\<^sub>m map_of (mf_Fields m')"
    and "\<exists>f. map_of (mf_Fields m') name = Some f \<and> fld_Type f = typ"
    and "map_of (mf_Fields m') k = Some g \<Longrightarrow> k = name \<or> map_of (mf_Fields m) k = Some g"
proof -
  have "mf_wf m' \<and> (lim \<longrightarrow> length (mf_Fields m') \<le> 255) \<and> map_of (mf_Fields m) \<subseteq>\<^sub>m map_of (mf_Fields m') \<and>
    (\<exists>f. map_of (mf_Fields m') name = Some f \<and> fld_Type f = typ) \<and> (map_of (mf_Fields m') k = Some g \<longrightarrow> k = name \<or> map_of (mf_Fields m) k = Some g)"
  proof (cases "map_of (mf_Fields m) name")
    case None
    note N = CreateField_new [OF assms(1) None assms(3)]
    have "map_of (mf_Fields m) \<subseteq>\<^sub>m map_of (mf_Fields m')" by (auto simp: N(2) map_le_def map_add_def)
    with N None show ?thesis by (auto simp: map_add_def split: option.splits if_splits)
  next
    case (Some f)
    with assms show ?thesis by (auto simp: CreateField_existing split: if_splits)
  qed
  then show "mf_wf m'" and "lim \<longrightarrow> length (mf_Fields m') \<le> 255" and "map_of (mf_Fields m) \<subseteq>\<^sub>m map_of (mf_Fields m')"
    and "\<exists>f. map_of (mf_Fields m') name = Some f \<and> fld_Type f = typ"
    and "map_of (mf_Fields m') k = Some g \<Longrightarrow> k = name \<or> map_of (mf_Fields m) k = Some g" by blast+
qed

text \<open>The fields a write asks for are there afterwards, if it got that far.\<close>

definition created :: "Shard \<Rightarrow> FieldCreate \<Rightarrow> bool" where
  "created s f \<longleftrightarrow> (\<exists>g. map_of (fields_of s (fcr_Measurement f)) (fcr_Name f) = Some g \<and> fld_Type g = fcr_Type f)"

lemma created_extends: "created s f \<Longrightarrow> extends s s' \<Longrightarrow> created s' f"
  unfolding created_def using extends_field by blast

lemma create_fields:
  assumes "sh_wf fmt s" and "index_wf d" and "synced s d" and "create_fields fmt fs saved s d = ((s', d'), r)"
  shows "sh_wf fmt s' \<and> index_wf d' \<and> synced s' d' \<and> extends s s' \<and> grows d d' \<and> catalogue d' = catalogue d \<and>
    ((\<exists>x. r = Inr x) \<longrightarrow> (\<forall>f\<in>set fs. created s' f))"
  using assms
proof (induction fs arbitrary: saved s d)
  case (Cons f fs)
  let ?n = "fcr_Measurement f" and ?lim = "fmt = B1Format \<or> fmt = BZ1Format"
  define m where "m = (case map_of (sh_measurementFields s) ?n of None \<Rightarrow> \<lparr>mf_Fields = [], mf_Codec = None\<rparr> | Some m \<Rightarrow> m)"
  have lim: "?lim \<longleftrightarrow> fmt \<noteq> TSM1Format" by (cases fmt) simp_all
  have m: "mf_Fields m = fields_of s ?n" "mf_wf m" "?lim \<longrightarrow> length (mf_Fields m) \<le> 255"
    using Cons.prems(1) by (auto simp: m_def fields_of_def sh_wf_def lim split: option.splits)
  show ?case
  proof (cases "MeasurementFields_CreateFieldIfNotExists (fcr_Name f) (fcr_Type f) ?lim m")
    case (Inl e)
    with Cons.prems(4) have e: "s' = put_fields ?n m s" "d' = d" "r = Inl e" by (simp_all add: Let_def m_def [symmetric])
    have same: "fields_of (put_fields ?n m s) = fields_of s" by (simp add: fun_eq_iff m(1))
    have "synced (put_fields ?n m s) d" using Cons.prems(3) by (simp add: synced_def same)
    then show ?thesis using e Cons.prems(1,2) sh_wf_put [OF Cons.prems(1) m(2)] m(3) by (simp add: extends_def same lim)
  next
    case (Inr m')
    note C = CreateField_cases [OF m(2,3) Inr]
    let ?s = "put_fields ?n m' s" and ?d = "create_field_name ?n (fcr_Name f) d"
    have step: "create_fields fmt fs (List.insert ?n saved) ?s ?d = ((s', d'), r)"
      using Cons.prems(4) Inr by (simp add: Let_def m_def [symmetric])
    note F = create_field_name [OF Cons.prems(2), where name = "?n" and field = "fcr_Name f"]
    have g: "grows d ?d" by (rule create_field_grows [OF Cons.prems(2)])
    have s1: "sh_wf fmt ?s" using sh_wf_put [OF Cons.prems(1) C(1)] C(2) by (simp add: lim)
    have s2: "synced ?s ?d"
      unfolding synced_def
    proof (intro allI impI)
      fix n k h assume h: "map_of (fields_of ?s n) k = Some h"
      show "\<exists>m. DatabaseIndex_Measurement (escape_UnescapeString n) ?d = Some m \<and> Measurement_HasField k m"
      proof (cases "n = ?n \<and> k = fcr_Name f")
        case True
        then show ?thesis using F(4) by simp
      next
        case False
        with h C(5) [of k h] m(1) have "map_of (fields_of s n) k = Some h" by (auto split: if_splits)
        then show ?thesis using Cons.prems(3) grows_field [OF g] unfolding synced_def by blast
      qed
    qed
    have ext: "extends s ?s" using C(3) m(1) by (simp add: extends_def)
    have cr: "created ?s f" using C(4) by (simp add: created_def)
    note IH = Cons.IH [OF s1 F(1) s2 step]
    have "created s' f" if "\<exists>x. r = Inr x" using created_extends [OF cr] IH by blast
    then show ?thesis using IH extends_trans [OF ext] grows_trans [OF g] catalogue_create_field [OF Cons.prems(2)] by auto
  qed
qed simp

section \<open>What validation finds\<close>

lemma validate_fields:
  assumes "validate_fields mf meas vs = Inr fcs" and "(k, v) \<in> set vs"
  shows "(\<exists>f. map_of (mf_Fields mf) k = Some f \<and> fld_Type f = InspectDataType v) \<or> field_create meas (k, v) \<in> set fcs"
  using assms by (induction mf meas vs arbitrary: fcs rule: validate_fields.induct) (auto split: option.splits if_splits sum.splits)

lemma validate_series:
  assumes "Shard_validateSeriesAndFields s d ps = Inr (scs, fcs, ks)"
  shows "scs = concat (map (series_create s d) ps)" and "ks = map (ser_Key \<circ> scr_Series) scs"
  using assms by (induction ps arbitrary: scs fcs ks) (auto simp: Let_def split: sum.splits)

lemma validate_point_fields:
  assumes "Shard_validateSeriesAndFields s d ps = Inr (scs, fcs, ks)" and "p \<in> set ps" and "(k, v) \<in> set (sp_Fields p)"
  shows "(\<exists>f. map_of (fields_of s (sp_Name p)) k = Some f \<and> fld_Type f = InspectDataType v) \<or> field_create (sp_Name p) (k, v) \<in> set fcs"
  using assms
proof (induction ps arbitrary: scs fcs ks)
  case (Cons q ps)
  from Cons.prems(1) obtain fs scs' fcs' ks' where
    fs: "(case map_of (sh_measurementFields s) (sp_Name q) of None \<Rightarrow> Inr (map (field_create (sp_Name q)) (sp_Fields q))
      | Some mf \<Rightarrow> validate_fields mf (sp_Name q) (sp_Fields q)) = Inr fs"
    and rest: "Shard_validateSeriesAndFields s d ps = Inr (scs', fcs', ks')" "fcs = fs @ fcs'"
    by (auto simp: Let_def split: sum.splits)
  show ?case
  proof (cases "p = q")
    case True
    then have "(\<exists>f. map_of (fields_of s (sp_Name p)) k = Some f \<and> fld_Type f = InspectDataType v) \<or> field_create (sp_Name p) (k, v) \<in> set fs"
      using fs Cons.prems(3) validate_fields [of _ "sp_Name p" "sp_Fields p" fs k v]
      by (cases "map_of (sh_measurementFields s) (sp_Name q)") (auto simp: fields_of_def)
    with rest(2) show ?thesis by auto
  next
    case False
    with Cons.prems(2) have "p \<in> set ps" by simp
    from Cons.IH [OF rest(1) this Cons.prems(3)] rest(2) show ?thesis by auto
  qed
qed simp

lemma series_create_cases:
  assumes "index_wf d"
  shows "length (series_create s d p) \<le> 1"
    and "distinct (map fst (sp_Tags p)) \<Longrightarrow> sc \<in> set (series_create s d p) \<Longrightarrow> create_ok d sc \<and> ser_Key (scr_Series sc) = sp_Key p"
    and "series_create s d p = [] \<Longrightarrow> \<exists>t. ser d (sp_Key p) = Some t \<and> sh_id s \<in> set (ser_shardIDs t)"
  using ser_placed(1) [OF assms]
  by (auto simp: series_create_def create_ok_def NewSeries_def split: option.splits if_splits)

section \<open>A write\<close>

text \<open>What holds of a shard and the index between writes.\<close>

definition state_wf :: "EngineFormat \<Rightarrow> 'e shard_state \<Rightarrow> bool" where
  "state_wf fmt st \<longleftrightarrow> sh_wf fmt (st_shard st) \<and> index_wf (st_index st) \<and> synced (st_shard st) (st_index st)"

definition points_ok :: "'e shard_state \<Rightarrow> shard_point list \<Rightarrow> bool" where
  "points_ok st ps \<longleftrightarrow> (\<forall>p\<in>set ps. distinct (map fst (sp_Tags p))) \<and> unat (ix_lastID (st_index st)) + length ps < 2 ^ 64"

text \<open>What the shard and the index know of a point.\<close>

definition known :: "'e shard_state \<Rightarrow> shard_point \<Rightarrow> bool" where
  "known st p \<longleftrightarrow>
     (\<exists>t. ser (st_index st) (sp_Key p) = Some t \<and> sh_id (st_shard st) \<in> set (ser_shardIDs t)) \<and>
     (\<forall>(k, v) \<in> set (sp_Fields p). \<exists>f. map_of (fields_of (st_shard st) (sp_Name p)) k = Some f \<and> fld_Type f = InspectDataType v)"

text \<open>The operations on the catalogue that a write of points amounts to.\<close>

definition point_op :: "shard_point \<Rightarrow> index_op" where
  "point_op p = OpCreateSeries (sp_Name p) (sp_Key p) (sp_Tags p)"

lemma catalogue_of_creates:
  assumes "index_wf d" and "\<forall>k. catalogue d k \<noteq> None \<longrightarrow> C k \<noteq> None"
  shows "fold spec_apply (map series_op (concat (map (series_create s d) ps))) C = fold spec_apply (map point_op ps) C"
  using assms(2)
proof (induction ps arbitrary: C)
  case (Cons p ps)
  have e: "fold spec_apply (map series_op (series_create s d p)) C = spec_apply (point_op p) C"
  proof (cases "ser d (sp_Key p)")
    case None
    then show ?thesis by (simp add: series_create_def series_op_def point_op_def NewSeries_def)
  next
    case (Some t)
    then obtain e where "C (sp_Key p) = Some e" and "ser_Key t = sp_Key p"
      using Cons.prems ser_placed(1) [OF assms(1) Some] by (fastforce simp: catalogue_def)
    with Some show ?thesis by (simp add: series_create_def series_op_def point_op_def)
  qed
  have "\<forall>k. catalogue d k \<noteq> None \<longrightarrow> spec_apply (point_op p) C k \<noteq> None" using Cons.prems by (simp add: point_op_def)
  from Cons.IH [OF this] e show ?case by simp
qed simp

text \<open>The measurements whose fields are to be saved.\<close>

lemma create_fields_saved:
  assumes "create_fields fmt fs saved s d = ((s', d'), Inr x)"
  shows "set saved \<subseteq> set x \<and> (\<forall>n. fields_of s n \<noteq> fields_of s' n \<longrightarrow> n \<in> set x)"
  using assms
proof (induction fs arbitrary: saved s d)
  case (Cons f fs)
  then obtain m where "create_fields fmt fs (List.insert (fcr_Measurement f) saved) (put_fields (fcr_Measurement f) m s)
      (create_field_name (fcr_Measurement f) (fcr_Name f) d) = ((s', d'), Inr x)"
    by (auto simp: Let_def split: sum.splits)
  from Cons.IH [OF this] show ?case by simp metis
qed simp

text \<open>The part of a write before the encoding.\<close>

lemma write_metadata:
  assumes "state_wf fmt st" and "points_ok st ps" and v: "Shard_validateSeriesAndFields (st_shard st) (st_index st) ps = Inr (scs, fcs, ks)"
    and c: "create_fields fmt fcs [] (st_shard st) (fold (mark_shard (sh_id (st_shard st))) ks (create_series scs (st_index st))) = ((s', d'), r)"
  shows "sh_wf fmt s'" "index_wf d'" "synced s' d'" "extends (st_shard st) s'" "grows (st_index st) d'"
    and "catalogue d' = fold spec_apply (map point_op ps) (catalogue (st_index st))"
    and "\<exists>x. r = Inr x \<Longrightarrow> p \<in> set ps \<Longrightarrow> known (st\<lparr>st_shard := s', st_index := d'\<rparr>) p"
proof -
  let ?s = "st_shard st" and ?d = "st_index st"
  let ?d1 = "create_series scs ?d"
  let ?d2 = "fold (mark_shard (sh_id ?s)) ks ?d1"
  have wf: "sh_wf fmt ?s" "index_wf ?d" "synced ?s ?d" using assms(1) by (simp_all add: state_wf_def)
  note V = validate_series [OF v] and S = series_create_cases [OF wf(2)]
  have scs: "\<forall>sc\<in>set scs. create_ok ?d sc" using S(2) assms(2) by (auto simp: V(1) points_ok_def)
  have "length (concat (map (series_create ?s ?d) qs)) \<le> length qs" for qs
  proof (induction qs)
    case (Cons q qs)
    then show ?case using S(1) [of ?s q] by simp
  qed simp
  then have "unat (ix_lastID ?d) + length scs < 2 ^ 64" using assms(2) V(1) by (metis add_left_mono order_le_less_trans points_ok_def)
  note C = create_series [OF wf(2) scs this]
  have ks: "\<forall>k\<in>set ks. ser ?d1 k \<noteq> None" using C by (auto simp: V(2))
  note K = mark_all [OF C [THEN conjunct1] ks, of "sh_id ?s"]
  have g: "grows ?d ?d2" using C K grows_trans by blast
  note F = create_fields [OF wf(1) K [THEN conjunct1] synced_grows [OF wf(3) g] c]
  show "sh_wf fmt s'" "index_wf d'" "synced s' d'" and ext: "extends ?s s'" and gr: "grows ?d d'"
    using F grows_trans [OF g] by blast+
  show "catalogue d' = fold spec_apply (map point_op ps) (catalogue ?d)"
    using F K C catalogue_of_creates [OF wf(2), of "catalogue ?d" ?s ps] by (simp add: V(1))
  show "known (st\<lparr>st_shard := s', st_index := d'\<rparr>) p" if r: "\<exists>x. r = Inr x" and p: "p \<in> set ps"
  proof -
    have "\<exists>t. ser ?d2 (sp_Key p) = Some t \<and> sh_id ?s \<in> set (ser_shardIDs t)"
    proof (cases "series_create ?s ?d p")
      case Nil
      then show ?thesis using S(3) [of ?s p] grows_series [OF g] by blast
    next
      case (Cons sc l)
      then have "sc \<in> set scs" using p by (auto simp: V(1) intro: bexI [of _ p])
      moreover have "ser_Key (scr_Series sc) = sp_Key p" using S(2) [of p sc ?s] Cons p assms(2) by (simp add: points_ok_def)
      ultimately have "sp_Key p \<in> set ks" by (force simp: V(2))
      with K show ?thesis by blast
    qed
    then obtain t where t: "ser ?d2 (sp_Key p) = Some t" "sh_id ?s \<in> set (ser_shardIDs t)" by blast
    moreover have "grows ?d2 d'" using F by blast
    ultimately have "\<exists>t. ser d' (sp_Key p) = Some t \<and> sh_id s' \<in> set (ser_shardIDs t)"
      using grows_series [of ?d2 d' "sp_Key p" t] ext unfolding extends_def by auto
    moreover have "\<exists>f. map_of (fields_of s' (sp_Name p)) k = Some f \<and> fld_Type f = InspectDataType x" if kx: "(k, x) \<in> set (sp_Fields p)" for k x
      using validate_point_fields [OF v p kx] F r extends_field [OF ext] by (auto simp: created_def field_create_def)
    ultimately show ?thesis by (auto simp: known_def)
  qed
qed

section \<open>Encoded points\<close>

definition all_fit :: "shard_point \<Rightarrow> bool" where
  "all_fit p \<longleftrightarrow> sp_Fields p \<noteq> [] \<and> distinct (map fst (sp_Fields p)) \<and> (\<forall>(k, v) \<in> set (sp_Fields p). fits v)"

text \<open>The bytes of a point give its fields back.\<close>

definition bytes_decode :: "Shard \<Rightarrow> shard_point \<Rightarrow> bool" where
  "bytes_decode s p \<longleftrightarrow> (\<exists>c b m. Shard_FieldCodec (sp_Name p) s = Some c \<and> sp_Data p = Some b \<and>
     FieldCodec_DecodeFieldsWithNames c b = Inr m \<and> map_of m = map_of (sp_Fields p))"

lemma encode_point:
  assumes "sh_wf fmt (st_shard st)" and "fmt \<noteq> TSM1Format" and "known st p" and "all_fit p" and "sp_Data p = None"
  shows "\<exists>b. encode_point (st_shard st) p = Inr (p\<lparr>sp_Data := Some b\<rparr>) \<and> bytes_decode (st_shard st) (p\<lparr>sp_Data := Some b\<rparr>)"
proof -
  let ?s = "st_shard st" and ?n = "sp_Name p"
  have ne: "fields_of ?s ?n \<noteq> []" using assms(3,4) by (cases "sp_Fields p") (auto simp: known_def all_fit_def)
  then obtain m where m: "map_of (sh_measurementFields ?s) ?n = Some m" "fields_of ?s ?n = mf_Fields m"
    by (cases "map_of (sh_measurementFields ?s) ?n") (auto simp: fields_of_def)
  then have wf: "fields_wf (mf_Fields m)" "length (mf_Fields m) \<le> 255" "mf_Codec m = Some (NewFieldCodec (mf_Fields m))"
    using assms(1,2) ne by (auto simp: sh_wf_def mf_wf_def)
  have t: "typed (mf_Fields m) (sp_Fields p)" using assms(3,4) by (auto simp: typed_def known_def all_fit_def m(2))
  obtain b vals where b: "FieldCodec_EncodeFields (NewFieldCodec (mf_Fields m)) (sp_Fields p) = Inr b"
    "FieldCodec_DecodeFieldsWithNames (NewFieldCodec (mf_Fields m)) b = Inr vals" "map_of vals = map_of (sp_Fields p)"
    by (rule field_codec_roundtrip [OF wf(1,2) t])
  with m(1) wf(3) assms(5) show ?thesis by (auto simp: encode_point_def bytes_decode_def Shard_FieldCodec_def)
qed

lemma encode_points:
  assumes "sh_wf fmt (st_shard st)" and "fmt \<noteq> TSM1Format" and "\<forall>p\<in>set ps. known st p \<and> all_fit p \<and> sp_Data p = None"
  shows "\<exists>ps'. encode_points (st_shard st) ps = (ps', None) \<and> (\<forall>p\<in>set ps'. bytes_decode (st_shard st) p) \<and>
    map (\<lambda>p. p\<lparr>sp_Data := None\<rparr>) ps' = ps"
  using assms(3)
proof (induction ps)
  case (Cons p ps)
  then obtain ps' where ps': "encode_points (st_shard st) ps = (ps', None)" "\<forall>p\<in>set ps'. bytes_decode (st_shard st) p"
    "map (\<lambda>p. p\<lparr>sp_Data := None\<rparr>) ps' = ps" by auto
  obtain b where b: "encode_point (st_shard st) p = Inr (p\<lparr>sp_Data := Some b\<rparr>)" "bytes_decode (st_shard st) (p\<lparr>sp_Data := Some b\<rparr>)"
    using encode_point [OF assms(1,2), of p] Cons.prems by auto
  have "p\<lparr>sp_Data := None\<rparr> = p" using Cons.prems by simp
  with ps' b show ?case by simp
qed simp

lemma validate_error: "Shard_validateSeriesAndFields s d ps = Inl e \<Longrightarrow> \<exists>k n t. e = InputTypeConflict k n t"
proof (induction ps)
  case (Cons p ps)
  have "validate_fields mf n vs = Inl e \<Longrightarrow> \<exists>k n t. e = InputTypeConflict k n t" for mf n vs
    by (induction mf n vs rule: validate_fields.induct) (auto split: option.splits if_splits sum.splits)
  with Cons show ?case by (auto simp: Let_def split: sum.splits option.splits)
qed simp

lemma create_fields_error:
  "create_fields fmt fs saved s d = ((s', d'), Inl e) \<Longrightarrow> e = ErrFieldTypeConflict \<or> e = ErrFieldOverflow"
  by (induction fmt fs saved s d rule: create_fields.induct)
    (auto simp: Let_def MeasurementFields_CreateFieldIfNotExists_def split: sum.splits option.splits if_splits)

end
