(* ===== verification/Shard_Props.thy ===== *)
theory Shard_Props
  imports Shard_Inv Index_Props
begin

text \<open>
  The properties of a shard: its codec, what a write keeps and adds, and that a query finds a written point exactly if the point
  satisfies the condition.
\<close>

section \<open>The codec\<close>

text \<open>
  C9. The field codec.  For the fields of a measurement with at most 255 fields, every point whose fields are defined with the types
  of its values, whose integers have 64 bits and whose strings have fewer than 65533 bytes is encoded; the bytes decode to the same
  values by name, and each field is found alone, in whatever order the fields were encoded.
\<close>

theorem field_codec:
  assumes "fields_wf flds" and "length flds \<le> 255" and "typed flds vals"
  shows "\<exists>b m. FieldCodec_EncodeFields (NewFieldCodec flds) vals = Inr b \<and>
    FieldCodec_DecodeFieldsWithNames (NewFieldCodec flds) b = Inr m \<and> map_of m = map_of vals \<and>
    (\<forall>name. FieldCodec_DecodeByName (NewFieldCodec flds) name b = (case map_of vals name of None \<Rightarrow> Inl ErrFieldNotFound | Some v \<Rightarrow> Inr v))"
  by (rule field_codec_roundtrip [OF assms]) blast

definition two_fields :: "(string \<times> Field) list" where
  "two_fields = [(''load'', \<lparr>fld_ID = 1, fld_Name = ''load'', fld_Type = Integer\<rparr>), (''note'', \<lparr>fld_ID = 2, fld_Name = ''note'', fld_Type = String\<rparr>)]"

theorem field_codec_witness:
  "\<exists>b m. FieldCodec_EncodeFields (NewFieldCodec two_fields) [(''note'', FString ''up''), (''load'', FInt (- 3))] = Inr b \<and>
    FieldCodec_DecodeFieldsWithNames (NewFieldCodec two_fields) b = Inr m \<and> map_of m = map_of [(''note'', FString ''up''), (''load'', FInt (- 3))] \<and>
    FieldCodec_DecodeByName (NewFieldCodec two_fields) ''load'' b = Inr (FInt (- 3))"
proof -
  have "fields_wf two_fields" "length two_fields \<le> 255" by (simp_all add: fields_wf_def two_fields_def upt_rec)
  moreover have "typed two_fields [(''note'', FString ''up''), (''load'', FInt (- 3))]"
    by (simp add: typed_def two_fields_def InspectDataType_def is_int64_def)
  ultimately show ?thesis using field_codec [of two_fields "[(''note'', FString ''up''), (''load'', FInt (- 3))]"] by fastforce
qed

section \<open>Writes\<close>

lemma WritePoints_cases:
  assumes "Shard_WritePoints fmt wr ps st = ((st', ps'), err)"
  obtains (invalid) k n t where "err = Some (InputTypeConflict k n t)" "st' = st" "ps' = ps"
    | (fields) scs fcs ks s' d' e where "Shard_validateSeriesAndFields (st_shard st) (st_index st) ps = Inr (scs, fcs, ks)"
      "create_fields fmt fcs [] (st_shard st) (fold (mark_shard (sh_id (st_shard st))) ks (create_series scs (st_index st))) = ((s', d'), Inl e)"
      "err = Some (FieldFailed e)" "st' = st\<lparr>st_shard := s', st_index := d'\<rparr>" "ps' = ps"
    | (encode) scs fcs ks s' d' x e where "Shard_validateSeriesAndFields (st_shard st) (st_index st) ps = Inr (scs, fcs, ks)"
      "create_fields fmt fcs [] (st_shard st) (fold (mark_shard (sh_id (st_shard st))) ks (create_series scs (st_index st))) = ((s', d'), Inr x)"
      "fmt \<noteq> TSM1Format" "encode_points s' ps = (ps', Some e)" "err = Some (FieldFailed e)" "st' = st\<lparr>st_shard := s', st_index := d'\<rparr>"
    | (engine) scs fcs ks s' d' x eng err' where "Shard_validateSeriesAndFields (st_shard st) (st_index st) ps = Inr (scs, fcs, ks)"
      "create_fields fmt fcs [] (st_shard st) (fold (mark_shard (sh_id (st_shard st))) ks (create_series scs (st_index st))) = ((s', d'), Inr x)"
      "(if fmt \<noteq> TSM1Format then encode_points s' ps else (ps, None)) = (ps', None)"
      "wr ps' (map (\<lambda>n. (n, the (map_of (sh_measurementFields s') n))) x) scs (st_engine st) = (eng, err')"
      "err = map_option EngineFailed err'" "st' = st\<lparr>st_shard := s', st_index := d', st_engine := eng\<rparr>"
proof (cases "Shard_validateSeriesAndFields (st_shard st) (st_index st) ps")
  case (Inl e)
  with validate_error [OF Inl] assms invalid show thesis by (auto simp: Shard_WritePoints_def)
next
  case (Inr v)
  obtain scs fcs ks where v: "v = (scs, fcs, ks)" by (cases v)
  let ?d = "fold (mark_shard (sh_id (st_shard st))) ks (create_series scs (st_index st))"
  obtain s' d' r where c: "create_fields fmt fcs [] (st_shard st) ?d = ((s', d'), r)" by (metis prod.collapse)
  note V = Inr [unfolded v]
  show thesis
  proof (cases r)
    case (Inl e)
    with assms V c show thesis by (intro fields [OF V c [unfolded Inl]]) (simp_all add: Shard_WritePoints_def Shard_createFieldsAndMeasurements_def)
  next
    case (Inr x)
    obtain qs oe where q: "(if fmt \<noteq> TSM1Format then encode_points s' ps else (ps, None)) = (qs, oe)" by fastforce
    show thesis
    proof (cases oe)
      case (Some e)
      with q have "fmt \<noteq> TSM1Format" "encode_points s' ps = (qs, Some e)" by (auto split: if_splits)
      with assms V c Inr show thesis
        by (intro encode [OF V c [unfolded Inr]]) (auto simp: Shard_WritePoints_def Shard_createFieldsAndMeasurements_def)
    next
      case None
      obtain eng err' where w: "wr qs (map (\<lambda>n. (n, the (map_of (sh_measurementFields s') n))) x) scs (st_engine st) = (eng, err')" by fastforce
      have "Shard_WritePoints fmt wr ps st = ((st\<lparr>st_shard := s', st_index := d', st_engine := eng\<rparr>, qs), map_option EngineFailed err')"
        using V c Inr q None w by (simp add: Shard_WritePoints_def Shard_createFieldsAndMeasurements_def Let_def)
      with assms q None w show thesis by (intro engine [OF V c [unfolded Inr]]) auto
    qed
  qed
qed

text \<open>
  C10. What a write keeps.  Whatever its outcome, a write of points keeps the invariant of the shard and the index; no series, mark
  or field is lost, and no field changes its type or ID.  If the types of the points conflict with the shard, nothing changes;
  otherwise the index holds what creating the series of all points makes of the catalogue.  If the write gets as far as the engine,
  every point has its series in the index, marked for this shard, and its fields in the shard with the types of its values.
\<close>

theorem shard_write_keeps:
  assumes "state_wf fmt st" and "points_ok st ps" and "Shard_WritePoints fmt wr ps st = ((st', ps'), err)"
  shows "state_wf fmt st' \<and> extends (st_shard st) (st_shard st') \<and> grows (st_index st) (st_index st') \<and>
    (if \<exists>k n t. err = Some (InputTypeConflict k n t) then st' = st
     else catalogue (st_index st') = fold spec_apply (map point_op ps) (catalogue (st_index st))) \<and>
    (err = None \<or> (\<exists>e. err = Some (EngineFailed e)) \<longrightarrow> (\<forall>p\<in>set ps. known st' p))"
  using assms(3)
proof (cases rule: WritePoints_cases)
  case invalid
  then show ?thesis using assms(1) by simp
next
  case (fields scs fcs ks s' d' e)
  note W = write_metadata [OF assms(1,2) fields(1,2)]
  show ?thesis using W(1-6) fields by (simp add: state_wf_def)
next
  case (encode scs fcs ks s' d' x e)
  note W = write_metadata [OF assms(1,2) encode(1,2)]
  show ?thesis using W(1-6) encode by (simp add: state_wf_def)
next
  case (engine scs fcs ks s' d' x eng err')
  note W = write_metadata [OF assms(1,2) engine(1,2)]
  have "\<forall>p\<in>set ps. known st' p" using W(7) engine(6) by (simp add: known_def)
  then show ?thesis using W(1-6) engine(5,6) by (cases err') (simp_all add: state_wf_def)
qed

definition log_points :: "shard_point list engine_write" where
  "log_points ps fs scs e = (e @ ps, None)"

definition load_point :: "string \<Rightarrow> int \<Rightarrow> shard_point" where
  "load_point h n = \<lparr>sp_Key = ''cpu,host='' @ h, sp_Name = ''cpu'', sp_Tags = [(''host'', h)], sp_Fields = [(''load'', FInt n)], sp_Data = None\<rparr>"

definition new_state :: "shard_point list shard_state" where
  "new_state = \<lparr>st_shard = NewShard 1, st_index = NewDatabaseIndex, st_engine = []\<rparr>"

definition load_points :: "shard_point list" where
  "load_points = [load_point ''a'' 7, load_point ''b'' 2]"

lemma state_wf_new [simp]: "state_wf fmt new_state"
  by (simp add: state_wf_def new_state_def NewShard_def sh_wf_def index_wf_New synced_def fields_of_def)

lemma load_points_ok: "points_ok new_state load_points"
  by (simp add: points_ok_def load_points_def load_point_def new_state_def)

lemma load_written: "snd (Shard_WritePoints B1Format log_points load_points new_state) = None"
  by code_simp

theorem shard_write_keeps_witness:
  "\<exists>st' ps'. Shard_WritePoints B1Format log_points load_points new_state = ((st', ps'), None) \<and>
    state_wf B1Format st' \<and> (\<forall>p\<in>set load_points. known st' p)"
proof -
  obtain st' ps' where w: "Shard_WritePoints B1Format log_points load_points new_state = ((st', ps'), None)"
    using load_written by (metis prod.collapse)
  from shard_write_keeps [OF state_wf_new load_points_ok w] w show ?thesis by auto
qed

text \<open>
  C36. What a write delivers.  For points with at least one field, whose values fit and which are not encoded yet, only a
  conflict of types, more than 255 fields or the engine can make a write fail: the encoding does not panic.  If the write succeeds,
  the engine was given the points in order, for the older formats with bytes that decode to the fields of each point, together
  with the fields of every measurement that got new ones and the series that are new to the shard.
\<close>

theorem shard_write_delivers:
  assumes "state_wf fmt st" and "points_ok st ps" and "\<forall>p\<in>set ps. all_fit p \<and> sp_Data p = None"
    and "Shard_WritePoints fmt wr ps st = ((st', ps'), err)"
  shows "(err = None \<longrightarrow> map (\<lambda>p. p\<lparr>sp_Data := None\<rparr>) ps' = ps \<and> (fmt \<noteq> TSM1Format \<longrightarrow> (\<forall>p\<in>set ps'. bytes_decode (st_shard st') p)) \<and>
      (\<exists>fs. wr ps' fs (concat (map (series_create (st_shard st) (st_index st)) ps)) (st_engine st) = (st_engine st', None) \<and>
        (\<forall>n. fields_of (st_shard st) n \<noteq> fields_of (st_shard st') n \<longrightarrow> (n, the (map_of (sh_measurementFields (st_shard st')) n)) \<in> set fs))) \<and>
    (\<forall>e. err = Some (FieldFailed e) \<longrightarrow> e = ErrFieldTypeConflict \<or> e = ErrFieldOverflow)"
  using assms(4)
proof (cases rule: WritePoints_cases)
  case invalid
  then show ?thesis by simp
next
  case (fields scs fcs ks s' d' e)
  then show ?thesis using create_fields_error [OF fields(2)] by simp
next
  case (encode scs fcs ks s' d' x e)
  note W = write_metadata [OF assms(1,2) encode(1,2)]
  have k: "\<forall>p\<in>set ps. known st' p \<and> all_fit p \<and> sp_Data p = None" using W(7) encode(6) assms(3) by simp
  have "sh_wf fmt (st_shard st')" using W(1) encode(6) by simp
  from encode_points [OF this encode(3) k] encode(4,6) have False by auto
  then show ?thesis ..
next
  case (engine scs fcs ks s' d' x eng err')
  note W = write_metadata [OF assms(1,2) engine(1,2)]
  have k: "\<forall>p\<in>set ps. known (st\<lparr>st_shard := s', st_index := d'\<rparr>) p \<and> all_fit p \<and> sp_Data p = None" using W(7) assms(3) by simp
  have e: "map (\<lambda>p. p\<lparr>sp_Data := None\<rparr>) ps' = ps \<and> (fmt \<noteq> TSM1Format \<longrightarrow> (\<forall>p\<in>set ps'. bytes_decode s' p))"
  proof (cases "fmt = TSM1Format")
    case True
    then have "ps' = ps" using engine(3) by simp
    with True assms(3) show ?thesis by (simp add: map_idI)
  next
    case False
    with encode_points [OF _ False k] W(1) engine(3) show ?thesis by auto
  qed
  have "\<forall>n. fields_of (st_shard st) n \<noteq> fields_of s' n \<longrightarrow> n \<in> set x" using create_fields_saved [OF engine(2)] by blast
  then show ?thesis using e engine(4-6) validate_series(1) [OF engine(1)] by (auto simp: image_iff)
qed

theorem shard_write_delivers_witness:
  "\<exists>st' ps'. Shard_WritePoints B1Format log_points load_points new_state = ((st', ps'), None) \<and>
    map (\<lambda>p. p\<lparr>sp_Data := None\<rparr>) ps' = load_points \<and> (\<forall>p\<in>set ps'. bytes_decode (st_shard st') p)"
proof -
  obtain st' ps' where w: "Shard_WritePoints B1Format log_points load_points new_state = ((st', ps'), None)"
    using load_written by (metis prod.collapse)
  have "\<forall>p\<in>set load_points. all_fit p \<and> sp_Data p = None" by (simp add: load_points_def load_point_def all_fit_def is_int64_def)
  from shard_write_delivers [OF state_wf_new load_points_ok this w] w show ?thesis by auto
qed

text \<open>
  Two points of one write that give a new field different types: the write fails and stores no point, but the series and the
  field are in the index and the shard.
\<close>

lemma conflicting_write_leaves_series:
  "case Shard_WritePoints TSM1Format log_points [load_point ''a'' 7, (load_point ''a'' 7)\<lparr>sp_Fields := [(''load'', FString ''x'')]\<rparr>] new_state of
     ((st, ps), err) \<Rightarrow> err = Some (FieldFailed ErrFieldTypeConflict) \<and> st_engine st = [] \<and>
       map fst (ix_series (st_index st)) = [''cpu,host=a''] \<and> map fst (fields_of (st_shard st) ''cpu'') = [''load'']"
  by code_simp

section \<open>Querying what was written\<close>

text \<open>The types of the fields and the values of a point as a condition sees them.\<close>

fun ty_of :: "DataType \<Rightarrow> ty option" where
  "ty_of Float = Some TFloat"
| "ty_of Integer = Some TInt"
| "ty_of Boolean = Some TBool"
| "ty_of String = Some TString"
| "ty_of _ = None"

fun gval_of :: "field_value \<Rightarrow> gval" where
  "gval_of (FInt i) = VInt i"
| "gval_of (FFloat f) = VFloat f"
| "gval_of (FBool b) = VBool b"
| "gval_of (FString s) = VString s"
| "gval_of _ = VNil"

definition point_values :: "shard_point \<Rightarrow> string \<rightharpoonup> gval" where
  "point_values p k = map_option gval_of (map_of (sp_Fields p) k)"

definition point_types :: "Shard \<Rightarrow> shard_point \<Rightarrow> string \<rightharpoonup> ty" where
  "point_types s p k =
     (if k \<in> fst ` set (sp_Fields p)
      then (case map_of (fields_of s (sp_Name p)) k of None \<Rightarrow> None | Some f \<Rightarrow> ty_of (fld_Type f)) else None)"

lemma known_conforms:
  assumes "known st p"
  shows "conforms (point_types (st_shard st) p) (point_values p)"
  unfolding conforms_def
proof (intro allI impI)
  fix k t assume t: "point_types (st_shard st) p k = Some t"
  then obtain v where v: "map_of (sp_Fields p) k = Some v"
    by (auto simp: point_types_def split: if_splits dest: weak_map_of_SomeI)
  then obtain f where "map_of (fields_of (st_shard st) (sp_Name p)) k = Some f" "fld_Type f = InspectDataType v"
    using assms by (fastforce simp: known_def dest: map_of_SomeD)
  with t have "ty_of (InspectDataType v) = Some t" by (simp add: point_types_def split: if_splits)
  then have "val_type (gval_of v) = Some t" by (cases v) (simp_all add: InspectDataType_def)
  with v show "\<exists>v. point_values p k = Some v \<and> val_type v = Some t" by (simp add: point_values_def)
qed

text \<open>Measurement and tags are determined by the key of a point.\<close>

definition ident :: "shard_point \<Rightarrow> string \<times> (string \<rightharpoonup> string)" where
  "ident p = (escape_UnescapeString (sp_Name p), map_of (sp_Tags p))"

definition keys_agree :: "catalogue \<Rightarrow> shard_point list \<Rightarrow> bool" where
  "keys_agree C ps \<longleftrightarrow> (\<forall>p\<in>set ps. (\<forall>e. C (sp_Key p) = Some e \<longrightarrow> e = ident p) \<and> (\<forall>q\<in>set ps. sp_Key q = sp_Key p \<longrightarrow> ident q = ident p))"

lemma catalogue_written:
  assumes "\<forall>q\<in>set ps. (\<forall>e. C (sp_Key q) = Some e \<longrightarrow> e = ident q) \<and> (sp_Key q = sp_Key p \<longrightarrow> ident q = ident p)"
    and "p \<in> set ps \<or> C (sp_Key p) = Some (ident p)" and "\<forall>q\<in>set ps. \<forall>r\<in>set ps. sp_Key q = sp_Key r \<longrightarrow> ident q = ident r"
  shows "fold spec_apply (map point_op ps) C (sp_Key p) = Some (ident p)"
  using assms
proof (induction ps arbitrary: C)
  case (Cons q ps)
  let ?C = "spec_apply (point_op q) C"
  have C': "?C k = (if k = sp_Key q \<and> C k = None then Some (ident q) else C k)" for k by (auto simp: point_op_def ident_def)
  have "fold spec_apply (map point_op ps) ?C (sp_Key p) = Some (ident p)"
  proof (rule Cons.IH)
    show "\<forall>r\<in>set ps. (\<forall>e. ?C (sp_Key r) = Some e \<longrightarrow> e = ident r) \<and> (sp_Key r = sp_Key p \<longrightarrow> ident r = ident p)"
    proof (intro ballI conjI allI impI)
      fix r e assume r: "r \<in> set ps" "?C (sp_Key r) = Some e"
      show "e = ident r"
      proof (cases "sp_Key r = sp_Key q \<and> C (sp_Key r) = None")
        case True
        have "e = ident q" using r(2) unfolding C' if_P [OF True] by simp
        moreover have "ident q = ident r" by (rule Cons.prems(3) [rule_format]) (use True r(1) in simp_all)
        ultimately show ?thesis by simp
      next
        case False
        have "C (sp_Key r) = Some e" using r(2) unfolding C' if_not_P [OF False] .
        with r(1) Cons.prems(1) [rule_format, of r] show ?thesis by auto
      qed
    qed (use Cons.prems(1) in auto)
    show "p \<in> set ps \<or> ?C (sp_Key p) = Some (ident p)"
    proof (cases "p = q")
      case True
      have "C (sp_Key q) = Some e \<Longrightarrow> e = ident q" for e using Cons.prems(1) [rule_format, of q] by auto
      with True show ?thesis unfolding C' by (cases "C (sp_Key q)") simp_all
    next
      case False
      then show ?thesis using Cons.prems(2) unfolding C' by fastforce
    qed
    show "\<forall>q\<in>set ps. \<forall>r\<in>set ps. sp_Key q = sp_Key r \<longrightarrow> ident q = ident r" using Cons.prems(3) by (meson list.set_intros(2))
  qed
  then show ?case by simp
next
  case Nil
  from Nil(2) show ?case by simp
qed

text \<open>
  C5. A query finds what was written.  After a successful write of points whose keys determine their names and tags, the measurement
  of every point is in the index, and for every condition on the fields of the point that is well-typed for the field types of the
  shard, the filters of the query let the point through if its tags and fields satisfy the condition; and only then, if no
  disjunction mixes tags and fields.
\<close>

theorem written_point_queried:
  assumes "state_wf fmt st" and "points_ok st ps" and "keys_agree (catalogue (st_index st)) ps"
    and "Shard_WritePoints fmt wr ps st = ((st', ps'), None)" and "p \<in> set ps"
  shows "\<exists>m. DatabaseIndex_Measurement (escape_UnescapeString (sp_Name p)) (st_index st') = Some m \<and>
    (\<forall>re c. where_ok m (point_types (st_shard st') p) c \<longrightarrow>
      (\<exists>fs i s. Measurement_filters re m (Some c) = Inr fs \<and> Measurement_SeriesByID i m = Some s \<and> ser_Key s = sp_Key p \<and>
        (sat re m (map_of (sp_Tags p)) (point_values p) c \<longrightarrow> passes fs i (point_values p)) \<and>
        (unmixed m c \<longrightarrow> passes fs i (point_values p) \<longrightarrow> sat re m (map_of (sp_Tags p)) (point_values p) c)))"
  using assms(4)
proof (cases rule: WritePoints_cases)
  case (engine scs fcs ks s' d' x eng err')
  note W = write_metadata [OF assms(1,2) engine(1,2)]
  have st': "st_index st' = d'" "st_shard st' = s'" using engine(6) by simp_all
  have known: "known st' p" using W(7) assms(5) engine(6) by (simp add: known_def)
  have cat: "catalogue d' (sp_Key p) = Some (escape_UnescapeString (sp_Name p), map_of (sp_Tags p))"
    unfolding W(6) ident_def [symmetric] by (rule catalogue_written) (use assms(3,5) in \<open>unfold keys_agree_def, blast\<close>)+
  obtain m where m: "DatabaseIndex_Measurement (escape_UnescapeString (sp_Name p)) d' = Some m"
    using catalogue_measurement [OF W(2) cat] by blast
  obtain i s where s: "Measurement_SeriesByID i m = Some s" "ser_Key s = sp_Key p" "map_of (ser_Tags s) = map_of (sp_Tags p)"
    using series_catalogue [OF W(2) m, of "sp_Key p" "map_of (sp_Tags p)"] cat by blast
  have "\<exists>fs i s. Measurement_filters re m (Some c) = Inr fs \<and> Measurement_SeriesByID i m = Some s \<and> ser_Key s = sp_Key p \<and>
      (sat re m (map_of (sp_Tags p)) (point_values p) c \<longrightarrow> passes fs i (point_values p)) \<and>
      (unmixed m c \<longrightarrow> passes fs i (point_values p) \<longrightarrow> sat re m (map_of (sp_Tags p)) (point_values p) c)"
    if c: "where_ok m (point_types s' p) c" for re c
  proof -
    obtain fs where fs: "Measurement_filters re m (Some c) = Inr fs"
      "\<forall>i s flds. Measurement_SeriesByID i m = Some s \<longrightarrow> conforms (point_types s' p) flds \<longrightarrow>
        (sat re m (map_of (ser_Tags s)) flds c \<longrightarrow> passes fs i flds) \<and> (unmixed m c \<longrightarrow> passes fs i flds \<longrightarrow> sat re m (map_of (ser_Tags s)) flds c)"
      by (rule filters_correct [OF measurement_wf [OF W(2) m] c, of re])
    show ?thesis
      using fs(2) [rule_format, OF s(1) known_conforms [OF known, unfolded st']] fs(1) s
      by (intro exI [of _ fs] exI [of _ i] exI [of _ s]) simp
  qed
  with m st' show ?thesis by simp
qed auto

theorem written_point_queried_witness:
  "\<exists>st' ps' m fs i s. Shard_WritePoints B1Format log_points load_points new_state = ((st', ps'), None) \<and>
    DatabaseIndex_Measurement ''cpu'' (st_index st') = Some m \<and> Measurement_filters (\<lambda>x y. False) m (Some (host_load LAND)) = Inr fs \<and>
    Measurement_SeriesByID i m = Some s \<and> ser_Key s = ''cpu,host=a'' \<and> passes fs i (point_values (load_point ''a'' 7))"
proof -
  let ?p = "load_point ''a'' 7"
  obtain st' ps' where w: "Shard_WritePoints B1Format log_points load_points new_state = ((st', ps'), None)"
    using load_written by (metis prod.collapse)
  have agree: "keys_agree (catalogue (st_index new_state)) load_points"
    by (simp add: keys_agree_def load_points_def load_point_def new_state_def catalogue_New)
  have p: "?p \<in> set load_points" by (simp add: load_points_def)
  have n: "escape_UnescapeString (sp_Name ?p) = ''cpu''" by code_simp
  from written_point_queried [OF state_wf_new load_points_ok agree w p]
  obtain m where m: "DatabaseIndex_Measurement ''cpu'' (st_index st') = Some m"
    "\<And>re c. where_ok m (point_types (st_shard st') ?p) c \<Longrightarrow>
      \<exists>fs i s. Measurement_filters re m (Some c) = Inr fs \<and> Measurement_SeriesByID i m = Some s \<and> ser_Key s = sp_Key ?p \<and>
        (sat re m (map_of (sp_Tags ?p)) (point_values ?p) c \<longrightarrow> passes fs i (point_values ?p))"
    unfolding n by metis
  have "let st = fst (fst (Shard_WritePoints B1Format log_points load_points new_state)); m = the (DatabaseIndex_Measurement ''cpu'' (st_index st)) in
      map_of (fields_of (st_shard st) ''cpu'') ''load'' = Some \<lparr>fld_ID = 1, fld_Name = ''load'', fld_Type = Integer\<rparr> \<and>
      Measurement_HasField ''load'' m \<and> \<not> Measurement_HasField ''host'' m \<and> Measurement_HasTagKey ''host'' m"
    by code_simp
  then have f: "map_of (fields_of (st_shard st') ''cpu'') ''load'' = Some \<lparr>fld_ID = 1, fld_Name = ''load'', fld_Type = Integer\<rparr>"
    "Measurement_HasField ''load'' m" "\<not> Measurement_HasField ''host'' m" "Measurement_HasTagKey ''host'' m"
    by (simp_all add: w m(1) Let_def)
  have "where_ok m (point_types (st_shard st') ?p) (host_load LAND)"
    using f by (simp add: host_load_def point_types_def load_point_def is_condition_def ref_and_value_def is_time_ref_def atom_kind_def
        is_time_literal_def comparison_def arithmetic_def to_lower_def)
  moreover have "sat (\<lambda>x y. False) m (map_of (sp_Tags ?p)) (point_values ?p) (host_load LAND)"
    using f by (simp add: host_load_def atom_sat_def ref_and_value_def is_time_literal_def load_point_def point_values_def
        EvalBool_def evalBinaryExpr_def eval_ints_def as_float_def as_bool_def five_to_int)
  ultimately show ?thesis using m(2) [of "host_load LAND" "\<lambda>x y. False"] m(1) w by (auto simp: load_point_def)
qed

end
