(* ===== verification/Spec2Isabelle.thy ===== *)
theory Spec2Isabelle
  imports Meta_Props HH_Props TSM_Props Models_Props Cluster_Props Query_Props Index_Props Shard_Props
begin

text \<open>
  A verification library for the InfluxDB server under \<^verbatim>\<open>src/src/influxdb/influxdb\<close> (Go, release 0.9.5).  Paths below are
  relative to that directory.

  \<^bold>\<open>The program.\<close>  A cluster of nodes stores points (a measurement name, tags, fields, a time).  A write
  arrives as text in the line protocol and is parsed into points (\<^verbatim>\<open>models\<close>).  The catalogue of nodes, databases,
  retention policies, shard groups and users is a raft state machine that every node replicates (\<^verbatim>\<open>meta\<close>).  The
  points writer looks up or creates the shard group of every point, selects the shard by the hash of the series key
  and writes to all owners of the shard with a consistency level (\<^verbatim>\<open>cluster\<close>).  A write that a remote owner cannot take is
  queued on disk and sent later (\<^verbatim>\<open>services/hh\<close>).  The storage engine keeps the points of a shard in compressed blocks
  (\<^verbatim>\<open>tsdb/engine/tsm1\<close>).  Queries find the series of a measurement in an index in memory and filter points by an
  expression of the query language (\<^verbatim>\<open>influxql\<close>, \<^verbatim>\<open>tsdb\<close>).

  \<^bold>\<open>Theories and sources.\<close>

  \<^item> \<^verbatim>\<open>Go_Prelude\<close>, \<^verbatim>\<open>Bytes\<close>, \<^verbatim>\<open>Go_Float\<close>: integers, time, slices, big-endian words and \<^verbatim>\<open>float64\<close> arithmetic of Go.
  \<^item> \<^verbatim>\<open>Meta_Data\<close>, \<^verbatim>\<open>Meta_Ops\<close>: the structs of \<^verbatim>\<open>meta/data.go\<close> as records and the methods of \<^verbatim>\<open>Data\<close>; a method that returns an
    error is a function into a sum type.  \<^verbatim>\<open>Meta_Wire\<close>: the protobuf form.  \<^verbatim>\<open>Meta_FSM\<close>: \<^verbatim>\<open>storeFSM\<close> of \<^verbatim>\<open>meta/store.go\<close> with
    every command.  \<^verbatim>\<open>Meta_Store\<close>: the operations of \<^verbatim>\<open>Store\<close> on the leader.  \<^verbatim>\<open>Meta_Inv\<close>, \<^verbatim>\<open>Meta_Preserve\<close>, \<^verbatim>\<open>Meta_Groups\<close>,
    \<^verbatim>\<open>Meta_Shards\<close>, \<^verbatim>\<open>Meta_FSM_Inv\<close>, \<^verbatim>\<open>Meta_Auth\<close>: invariant, preservation, assignment of shards, refinement of the state machine
    to a function on metadata, and logins, whose two locks are separate steps in the histories of all logins.
  \<^item> \<^verbatim>\<open>HH_Segment\<close>, \<^verbatim>\<open>HH_Queue\<close> (\<^verbatim>\<open>services/hh/queue.go\<close>): segment files down to their bytes and the queue of segments;
    \<^verbatim>\<open>HH_Node\<close> (\<^verbatim>\<open>node_processor.go\<close>): sending, retrying and purging; \<^verbatim>\<open>HH_Service\<close> (\<^verbatim>\<open>service.go\<close>).
  \<^item> \<^verbatim>\<open>TSM_Varint\<close>, \<^verbatim>\<open>TSM_Iter\<close>, \<^verbatim>\<open>TSM_Time\<close>, \<^verbatim>\<open>TSM_Bool\<close>, \<^verbatim>\<open>TSM_String\<close>, \<^verbatim>\<open>TSM_Int\<close>, \<^verbatim>\<open>TSM_Float\<close>, \<^verbatim>\<open>TSM_Block\<close>: the column codecs and
    blocks of \<^verbatim>\<open>tsdb/engine/tsm1\<close>; \<^verbatim>\<open>TSM_Lock\<close> (\<^verbatim>\<open>write_lock.go\<close>): the range lock as a transition system.
  \<^item> \<^verbatim>\<open>Models_Base\<close>, \<^verbatim>\<open>Models_Scan\<close>, \<^verbatim>\<open>Models_Point\<close> (\<^verbatim>\<open>models/points.go\<close>, \<^verbatim>\<open>pkg/escape\<close>): slices with capacity, the scanners,
    points; \<^verbatim>\<open>Models_Text\<close>, \<^verbatim>\<open>Models_Fields\<close>, \<^verbatim>\<open>Models_Items\<close>, \<^verbatim>\<open>Models_Lines\<close>: the scanners on printed text.
  \<^item> \<^verbatim>\<open>Cluster_Balancer\<close>, \<^verbatim>\<open>Cluster_Rpc\<close>, \<^verbatim>\<open>Cluster_Service\<close>, \<^verbatim>\<open>Cluster_Mapper\<close>, \<^verbatim>\<open>Cluster_Writer\<close>, \<^verbatim>\<open>Cluster_Map\<close>: the files of \<^verbatim>\<open>cluster\<close>; the
    goroutines of one shard write are a transition system.
  \<^item> \<^verbatim>\<open>Query_Expr\<close> (\<^verbatim>\<open>influxql/ast.go\<close>): expressions, evaluation and reduction; \<^verbatim>\<open>Query_Types\<close>: a type system for them.
  \<^item> \<^verbatim>\<open>Index_IDs\<close>, \<^verbatim>\<open>Index_Meas\<close>, \<^verbatim>\<open>Index_DB\<close> (\<^verbatim>\<open>tsdb/meta.go\<close>): slices of series IDs as sets, measurements with their tag index, and the
    index of a database, whose objects are values in a heap; \<^verbatim>\<open>Index_Spec\<close>: the catalogue it implements.  \<^verbatim>\<open>Index_Where\<close>: from a
    condition to series and filters, and what a condition means; \<^verbatim>\<open>Index_Select\<close>: that they agree.  \<^verbatim>\<open>Index_Tags\<close>: tag sets and
    measurements by tags.
  \<^item> \<^verbatim>\<open>Shard_Fields\<close>, \<^verbatim>\<open>Shard_Write\<close> (\<^verbatim>\<open>tsdb/shard.go\<close>): field definitions with their codec, and writing points; the storage engine is a
    parameter.  \<^verbatim>\<open>Shard_Inv\<close>: the invariant of a shard and what a write adds.
  \<^item> \<^verbatim>\<open>Meta_Props\<close>, \<^verbatim>\<open>HH_Props\<close>, \<^verbatim>\<open>TSM_Props\<close>, \<^verbatim>\<open>Models_Props\<close>, \<^verbatim>\<open>Cluster_Props\<close>, \<^verbatim>\<open>Query_Props\<close>, \<^verbatim>\<open>Index_Props\<close>, \<^verbatim>\<open>Shard_Props\<close> and this theory: the
    properties, each with a concrete instance where it has hypotheses.

  \<^bold>\<open>Conventions.\<close>  A method \<^verbatim>\<open>(t *T) M\<close> is the function \<open>T_M\<close>; a struct is a record whose fields carry a short prefix.  A
  \<^verbatim>\<open>uint64\<close> is a 64-bit word, an \<^verbatim>\<open>int\<close>, \<^verbatim>\<open>int64\<close>, duration or time is an integer, with the wrap-around written out
  where it can happen.  A Go map is an association list; where the code ranges over a map, theorems hold for every
  order or the order does not matter.  Errors and panics are constructors of the error type of the component.  Libraries
  outside the repository (raft, protobuf, bcrypt and SHA-256, snappy, simple8b, bit streams, float printing, the storage
  below the cluster service, regular expressions) are record or function parameters; what a theorem needs of them is a
  named hypothesis, shown satisfiable by its instance.

  \<^bold>\<open>What is shown.\<close>
  \<^item> Metastore: every reachable catalogue is well-formed; placement of shards; replicas agree except for the one command that
    reads the clock; snapshots of metadata that the wire format represents lose subscriptions only, and a time at the Unix epoch is not represented; what a successful login
    means, in histories where the credential cache follows the stored hashes and in all histories, and two ways in which it does not follow them.
  \<^item> Hinted handoff: the segmented queue is a first-in first-out queue also across reopening, for blocks that do not start a segment behind a drained one; what
    an append does to the disk space; purging ends; two ways in which queued data becomes unreachable.
  \<^item> Storage: blocks of every type decode to what was encoded; exactly which integer columns do not; deduplication; where
    the range lock is exclusive and where it is not.
  \<^item> Points: printed points parse back to themselves; inputs on which the parser misbehaves.
  \<^item> Cluster: where points go, what an acknowledged write means for every interleaving of the goroutines, which stores hold the points afterwards if
    stores keep what they take, intersection of quorums, what a remote node does with a write and a query, and fairness of the balancer.
  \<^item> Queries: reduction keeps type and value of an expression.
  \<^item> Index: every sequence of operations on the index implements the catalogue of series; the series and points that a
    condition selects are those that satisfy it, unless a disjunction mixes tags and fields; grouping and listing by tags.
  \<^item> Shard: the codec of the fields is a round trip for strings below 65533 bytes and fails above; writes keep the invariant, lose
    nothing and reach the engine complete; a query on the index lets a written point through exactly if it satisfies the condition.
  \<^item> This theory: points that pass through the hinted handoff arrive unchanged and in order, and a write leaves the queue exactly when it is taken.

  \<^bold>\<open>Bounds and fuel.\<close>  Histories of the metastore have fewer than \<open>2\<^sup>3\<^sup>2\<close> commands, so that no 64-bit counter wraps; each
  command advances a counter by less than \<open>2\<^sup>3\<^sup>2\<close>.  Scanner loops recurse on the rest of their input.  The loops of the
  queue that may not end (advancing over segments, purging, decoding) have fuel; the theorems that they return
  state how much is enough: the number of segments or of values and one more.

  \<^bold>\<open>Not modelled.\<close>  Opening, closing and joining of the metastore, listeners, HTTP, the input protocols, the command line
  tools, monitoring and snapshots archives are network and file I/O around the parts above.  The older engines
  \<^verbatim>\<open>b1\<close> and \<^verbatim>\<open>bz1\<close> and the files of \<^verbatim>\<open>tsm1\<close> (write-ahead log, compaction, memory-mapped data files) are concurrent file I/O whose
  ordering guarantees are those of the operating system and of the bolt database.  The grammar of the query language and
  the execution of statements over cursors (mappers, aggregates) are not modelled; writes to one shard are modelled one after the
  other, without the interleavings that the locks of the shard and the index allow.  The vendored YAML library is
  third-party code.  \<^verbatim>\<open>src/src/shard_kingshard/src/shardtable.go\<close> copies rows between MySQL servers and consists of SQL sent
  over the network.
\<close>

section \<open>Points in the hinted handoff\<close>

text \<open>The parser of the blocks of the hinted handoff, on points.\<close>

definition parse_points :: "float_lib \<Rightarrow> time \<Rightarrow> byte list \<Rightarrow> point list option" where
  "parse_points F now b =
     (case ParsePoints F now (of_bytes (string_of b)) of
        Inl e \<Rightarrow> None
      | Inr (pts, failed) \<Rightarrow> if failed = [] then Some pts else None)"

abbreviation point_bytes :: "point \<Rightarrow> byte list" where
  "point_bytes p \<equiv> bytes_of (point_String p)"

lemma point_lines_bytes:
  "concat (map (\<lambda>p. point_bytes p @ [10]) ps) = bytes_of (concat (map (\<lambda>p. point_String p @ [newline]) ps))"
  by (induction ps) (simp_all add: bytes_of_def)

lemma parse_points_printed:
  assumes "list_all (printable F) xs" and "list_all2 (\<lambda>(name, tags, flds, t) p. NewPoint spare F name tags flds t = Inr p) xs ps"
  shows "\<exists>qs. parse_points F now (concat (map (\<lambda>p. point_bytes p @ [10]) ps)) = Some qs \<and> list_all2 (reads_as F) qs xs"
proof -
  have "concat (map (\<lambda>p. point_String p @ [newline]) ps) = lines F xs"
    using assms(2,1)
  proof (induction rule: list_all2_induct)
    case (Cons x xs p ps)
    then show ?case using NewPoint_printed [of F "fst x" "fst (snd x)" "fst (snd (snd x))" "snd (snd (snd x))" spare]
      by (auto simp: case_prod_beta)
  qed simp
  moreover obtain qs where "ParsePoints F now (of_bytes (lines F xs)) = Inr (qs, [])"
      "list_all2 (\<lambda>q x. reads_as F q x \<and> gb (point_Key q) = spec_key x) qs xs"
    using ParsePoints_printed [OF assms(1), of "of_bytes (lines F xs)" now] by auto
  moreover from this(2) have "list_all2 (reads_as F) qs xs" by (rule list_all2_mono) simp
  ultimately show ?thesis by (simp add: parse_points_def point_lines_bytes)
qed

text \<open>
  C18. Points survive the hinted handoff.  If the write at the head of the queue of a node holds points that survive printing, then sending
  it hands the writer of the shard points with the same names, tags, fields and times in the same order, and the write leaves
  the queue if and only if the writer takes it.
\<close>

theorem handoff_points_survive:
  assumes "np_waiting point_bytes n ((sid, ps) # ws)" and "list_all (printable F) xs"
    and "list_all2 (\<lambda>(name, tags, flds, t) p. NewPoint spare F name tags flds t = Inr p) xs ps"
  shows "\<exists>n' qs. NodeProcessor_SendWrite (parse_points F clock) (Some True) wr now n =
      (n', [(sid, qs)], if wr sid qs then Inr (int (length (marshalWrite point_bytes sid ps))) else Inl NodeWriter) \<and>
    list_all2 (reads_as F) qs xs \<and> np_waiting point_bytes n' (if wr sid qs then ws else (sid, ps) # ws)"
proof -
  obtain qs where qs: "parse_points F clock (concat (map (\<lambda>p. point_bytes p @ [10]) ps)) = Some qs" "list_all2 (reads_as F) qs xs"
    using parse_points_printed [OF assms(2,3)] by blast
  obtain n' where "NodeProcessor_SendWrite (parse_points F clock) (Some True) wr now n =
      (n', [(sid, qs)], if wr sid qs then Inr (int (length (marshalWrite point_bytes sid ps))) else Inl NodeWriter)"
      "np_waiting point_bytes n' (if wr sid qs then ws else (sid, ps) # ws)"
    using SendWrite_parsed [where parse = "parse_points F clock", OF assms(1) qs(1)] by metis
  with qs(2) show ?thesis by blast
qed

lemma waiting_point_ex:
  assumes "length (point_String p) < 1000"
  obtains n where "np_waiting point_bytes n [(7, [p])]"
proof -
  obtain n where n: "np_waiting point_bytes n []"
      and room: "\<forall>b. b \<noteq> [] \<and> 8 + int (length b) \<le> defaultSegmentSize \<longrightarrow> q_fits (np_queue n) b"
    by (rule NodeProcessor_Open_empty [where now = 0 and str = point_bytes and d = "newQueue 0"]) (simp add: newQueue_def)
  have "q_fits (np_queue n) (marshalWrite point_bytes 7 [p])"
    using room marshalWrite_nonempty [of point_bytes 7 "[p]"] assms
    by (simp add: marshalWrite_def bytes_of_def defaultSegmentSize_def)
  with n obtain n' where "np_waiting point_bytes n' ([] @ [(7, [p])])"
    by (rule np_waiting_WriteShard [where now = 0])
  then show thesis by (intro that [of n']) simp
qed

theorem handoff_points_survive_witness:
  "\<exists>n n' p qs. NewPoint (\<lambda>_. []) float_ex (fst spec_ex) (fst (snd spec_ex)) (fst (snd (snd spec_ex))) (snd (snd (snd spec_ex))) = Inr p \<and>
     np_waiting point_bytes n [(7, [p])] \<and>
     NodeProcessor_SendWrite (parse_points float_ex 0) (Some True) (\<lambda>_ _. True) 5 n = (n', [(7, qs)], Inr (int (length (marshalWrite point_bytes 7 [p])))) \<and>
     list_all2 (reads_as float_ex) qs [spec_ex] \<and> np_waiting point_bytes n' []"
proof -
  obtain name tags flds t where x: "spec_ex = (name, tags, flds, t)" by (cases spec_ex)
  obtain p where p: "NewPoint (\<lambda>_. []) float_ex name tags flds t = Inr p" "point_String p = spec_line float_ex spec_ex"
    using NewPoint_printed [of float_ex name tags flds t "\<lambda>_. []"] printable_ex x by auto
  have "length (spec_line float_ex spec_ex) < 1000" by code_simp
  then have "length (point_String p) < 1000" using p(2) by simp
  then obtain n where n: "np_waiting point_bytes n [(7, [p])]" by (rule waiting_point_ex)
  have pr: "list_all (printable float_ex) [spec_ex]" using printable_ex by simp
  have ps: "list_all2 (\<lambda>(name, tags, flds, t) p. NewPoint (\<lambda>_. []) float_ex name tags flds t = Inr p) [spec_ex] [p]" using p(1) by (simp add: x)
  obtain n' qs where "NodeProcessor_SendWrite (parse_points float_ex 0) (Some True) (\<lambda>_ _. True) 5 n =
      (n', [(7, qs)], Inr (int (length (marshalWrite point_bytes 7 [p]))))" "list_all2 (reads_as float_ex) qs [spec_ex]" "np_waiting point_bytes n' []"
    using handoff_points_survive [OF n pr ps, of 0 "\<lambda>_ _. True" 5] by auto
  with n p(1) show ?thesis unfolding x fst_conv snd_conv by blast
qed

lemma parsed_writes:
  assumes "list_all2 (\<lambda>(sid, ps) xs. list_all (printable F) xs \<and>
    list_all2 (\<lambda>(name, tags, flds, t) p. NewPoint spare F name tags flds t = Inr p) xs ps) ws xss"
  shows "\<exists>qs. list_all2 (\<lambda>(sid, ps) (sid', qts). sid' = sid \<and> parse_points F clock (concat (map (\<lambda>p. point_bytes p @ [10]) ps)) = Some qts) ws qs \<and>
    map fst qs = map fst ws \<and> list_all2 (\<lambda>(sid, qts) xs. list_all2 (reads_as F) qts xs) qs xss"
  using assms
proof (induction rule: list_all2_induct)
  case (Cons w ws xs xss)
  obtain sid ps where w: "w = (sid, ps)" by fastforce
  with Cons.hyps(1) obtain qts where "parse_points F clock (concat (map (\<lambda>p. point_bytes p @ [10]) ps)) = Some qts" "list_all2 (reads_as F) qts xs"
    using parse_points_printed [of F xs spare ps clock] by auto
  moreover from Cons.IH obtain qs where
    "list_all2 (\<lambda>(sid, ps) (sid', qts). sid' = sid \<and> parse_points F clock (concat (map (\<lambda>p. point_bytes p @ [10]) ps)) = Some qts) ws qs"
    "map fst qs = map fst ws" "list_all2 (\<lambda>(sid, qts) xs. list_all2 (reads_as F) qts xs) qs xss" by blast
  ultimately show ?case by (intro exI [of _ "(sid, qts) # qs"]) (simp add: w)
qed simp

text \<open>
  C30. A retry round empties the queue.  If every queued write holds points that survive printing, then a round over an active node whose writer takes the writes of these
  shards hands it, for every queued write once and in the order of the queue, the shard and points with the same names, tags, fields and times,
  leaves the queue empty and sets the retry interval back to the configured one.
\<close>

theorem retry_drains:
  assumes "np_waiting point_bytes n ws"
    and "list_all2 (\<lambda>(sid, ps) xs. list_all (printable F) xs \<and>
      list_all2 (\<lambda>(name, tags, flds, t) p. NewPoint spare F name tags flds t = Inr p) xs ps) ws xss"
    and "\<forall>(active, wr, now)\<in>set envs. active = Some True \<and> (\<forall>sid\<in>fst ` set ws. \<forall>qs. wr sid qs)"
    and "length ws < length envs"
  shows "\<exists>n' qs. run_retry (parse_points F clock) envs i n = Some (n', qs, np_RetryInterval n) \<and> np_waiting point_bytes n' [] \<and>
    map fst qs = map fst ws \<and> list_all2 (\<lambda>(sid, qts) xs. list_all2 (reads_as F) qts xs) qs xss"
proof -
  obtain qs where qs: "list_all2 (\<lambda>(sid, ps) (sid', qts). sid' = sid \<and> parse_points F clock (concat (map (\<lambda>p. point_bytes p @ [10]) ps)) = Some qts) ws qs"
    "map fst qs = map fst ws" "list_all2 (\<lambda>(sid, qts) xs. list_all2 (reads_as F) qts xs) qs xss"
    using parsed_writes [OF assms(2)] by blast
  have "fst ` set qs = fst ` set ws" using qs(2) by (metis set_map)
  then have "sid \<in> fst ` set ws" if "(sid, qts) \<in> set qs" for sid qts using that by force
  then have env: "\<forall>(active, wr, now)\<in>set envs. active = Some True \<and> (\<forall>(sid, qts)\<in>set qs. wr sid qts)"
    using assms(3) by fastforce
  from run_retry_drains [OF assms(1) qs(1) env assms(4)] qs(2,3) show ?thesis by blast
qed

theorem retry_drains_witness:
  "\<exists>n n' p qts. np_waiting point_bytes n [(7, [p])] \<and>
     run_retry (parse_points float_ex 0) [(Some True, (\<lambda>_ _. True), 5), (Some True, (\<lambda>_ _. True), 6)] 1 n =
       Some (n', [(7, qts)], np_RetryInterval n) \<and>
     list_all2 (reads_as float_ex) qts [spec_ex] \<and> np_waiting point_bytes n' []"
proof -
  obtain name tags flds t where x: "spec_ex = (name, tags, flds, t)" by (cases spec_ex)
  obtain p where p: "NewPoint (\<lambda>_. []) float_ex name tags flds t = Inr p" "point_String p = spec_line float_ex spec_ex"
    using NewPoint_printed [of float_ex name tags flds t "\<lambda>_. []"] printable_ex x by auto
  have "length (spec_line float_ex spec_ex) < 1000" by code_simp
  then have "length (point_String p) < 1000" using p(2) by simp
  then obtain n where n: "np_waiting point_bytes n [(7, [p])]" by (rule waiting_point_ex)
  have ps: "list_all2 (\<lambda>(sid, ps) xs. list_all (printable float_ex) xs \<and>
      list_all2 (\<lambda>(name, tags, flds, t) p. NewPoint (\<lambda>_. []) float_ex name tags flds t = Inr p) xs ps) [(7 :: u64, [p])] [[spec_ex]]"
    using p(1) printable_ex by (simp add: x)
  obtain n' qs where q: "run_retry (parse_points float_ex 0) [(Some True, (\<lambda>_ _. True), 5), (Some True, (\<lambda>_ _. True), 6)] 1 n = Some (n', qs, np_RetryInterval n)"
      "np_waiting point_bytes n' []" "map fst qs = [7]" "list_all2 (\<lambda>(sid, qts) xs. list_all2 (reads_as float_ex) qts xs) qs [[spec_ex]]"
    using retry_drains [OF n ps, of "[(Some True, (\<lambda>_ _. True), 5), (Some True, (\<lambda>_ _. True), 6)]" 0 1] by auto
  then obtain qts where "qs = [(7, qts)]" "list_all2 (reads_as float_ex) qts [spec_ex]" by (auto simp: list_all2_Cons2)
  with n q show ?thesis by blast
qed

end
